(* ===== verification/Prelude.thy ===== *)
theory Prelude
  imports Complex_Main "HOL-Library.Word" "HOL-Library.Sublist"
begin

text \<open>
  Shared vocabulary of the development. A Go \<open>string\<close> is a byte sequence, so it is an Isabelle
  \<open>string\<close> (a list of 8-bit \<open>char\<close>); a rune is its code point as an \<open>int\<close>. A Go slice
  expression \<open>s[i:j]\<close> is \<open>slice s i j\<close>, \<open>strings.IndexByte\<close> is \<open>index_byte\<close> (an option in
  place of the \<open>-1\<close> sentinel), \<open>strings.Split\<close> on one separator byte is \<open>split_on\<close>. Go's
  \<open>(value, ok)\<close> results are options and its \<open>(value, error)\<close> results are sums with the error on
  the left. The collection \<open>go_simps\<close> gathers the facts on these operations that the component
  proofs rewrite with.
\<close>

named_theorems go_simps

type_synonym byte_string = string

section \<open>Slices and searches\<close>

definition slice :: "'a list \<Rightarrow> nat \<Rightarrow> nat \<Rightarrow> 'a list" where
  "slice xs i j = take (j - i) (drop i xs)"

lemma length_slice [go_simps]: "j \<le> length xs \<Longrightarrow> length (slice xs i j) = j - i"
  by (simp add: slice_def)

lemma slice_full [go_simps]: "slice xs 0 (length xs) = xs"
  by (simp add: slice_def)

lemma slice_empty [go_simps]: "slice xs i i = []"
  by (simp add: slice_def)

lemma slice_Suc:
  assumes "i \<le> j" "j < length xs"
  shows "slice xs i (Suc j) = slice xs i j @ [xs ! j]"
  using assms by (simp add: slice_def Suc_diff_le take_Suc_conv_app_nth)

lemma slice_append:
  assumes "i \<le> j" "j \<le> k"
  shows "slice xs i j @ slice xs j k = slice xs i k"
proof -
  have "drop (j - i) (drop i xs) = drop j xs" using assms by simp
  moreover have "take (k - i) (drop i xs)
      = take (j - i) (drop i xs) @ take (k - j) (drop (j - i) (drop i xs))"
    using assms by (metis Nat.add_diff_assoc2 add.commute diff_add_inverse
        le_add_diff_inverse2 take_add)
  ultimately show ?thesis by (simp add: slice_def)
qed

lemma set_slice: "set (slice xs i j) \<subseteq> set xs"
  unfolding slice_def by (meson order_trans set_drop_subset set_take_subset)

text \<open>\<open>strings.IndexByte\<close>, with \<open>None\<close> for \<open>-1\<close>.\<close>

fun index_byte :: "'a list \<Rightarrow> 'a \<Rightarrow> nat option" where
  "index_byte [] c = None"
| "index_byte (x # xs) c = (if x = c then Some 0 else map_option Suc (index_byte xs c))"

lemma index_byte_None_iff [go_simps]: "index_byte xs c = None \<longleftrightarrow> c \<notin> set xs"
  by (induction xs) auto

lemma index_byte_SomeD:
  "index_byte xs c = Some k \<Longrightarrow> k < length xs \<and> xs ! k = c \<and> c \<notin> set (take k xs)"
  by (induction xs arbitrary: k) (auto split: if_splits)

lemma index_byte_less: "index_byte xs c = Some k \<Longrightarrow> k < length xs"
  by (simp add: index_byte_SomeD)

text \<open>\<open>strings.Split\<close> with a one-byte separator: \<open>n\<close> separators give \<open>n + 1\<close> pieces.\<close>

fun split_on :: "'a \<Rightarrow> 'a list \<Rightarrow> 'a list list" where
  "split_on c [] = [[]]"
| "split_on c (x # xs) =
     (if x = c then [] # split_on c xs
      else (case split_on c xs of [] \<Rightarrow> [[x]] | p # ps \<Rightarrow> (x # p) # ps))"

text \<open>\<open>strings.Join\<close>.\<close>

fun join_with :: "'a list \<Rightarrow> 'a list list \<Rightarrow> 'a list" where
  "join_with sep [] = []"
| "join_with sep [p] = p"
| "join_with sep (p # q # ps) = p @ sep @ join_with sep (q # ps)"

lemma split_on_not_Nil [simp]: "split_on c xs \<noteq> []"
  by (induction xs) (auto split: list.splits)

lemma join_with_Cons_head:
  "join_with sep ((x # p) # ps) = x # join_with sep (p # ps)"
  by (cases ps) auto

lemma join_split_on: "join_with [c] (split_on c xs) = xs"
proof (induction xs)
  case (Cons x xs)
  obtain p ps where "split_on c xs = p # ps" by (meson list.exhaust split_on_not_Nil)
  with Cons.IH show ?case by (auto simp: join_with_Cons_head)
qed simp

lemma split_on_no_sep: "p \<in> set (split_on c xs) \<Longrightarrow> c \<notin> set p"
proof (induction xs arbitrary: p)
  case (Cons x xs)
  obtain q qs where "split_on c xs = q # qs" by (meson list.exhaust split_on_not_Nil)
  with Cons show ?case by (auto split: if_splits)
qed simp

lemma split_on_set: "p \<in> set (split_on c xs) \<Longrightarrow> set p \<subseteq> set xs"
proof (induction xs arbitrary: p)
  case (Cons x xs)
  obtain q qs where q: "split_on c xs = q # qs" by (meson list.exhaust split_on_not_Nil)
  with Cons show ?case by (fastforce split: if_splits)
qed simp

lemma split_on_id: "c \<notin> set xs \<Longrightarrow> split_on c xs = [xs]"
  by (induction xs) auto

lemma split_on_append_sep:
  "c \<notin> set p \<Longrightarrow> split_on c (p @ c # rest) = p # split_on c rest"
  by (induction p) auto

lemma split_on_append: "split_on c (xs @ c # ys) = split_on c xs @ split_on c ys"
proof (induction xs)
  case (Cons x xs)
  obtain p ps where "split_on c xs = p # ps" by (meson list.exhaust split_on_not_Nil)
  with Cons show ?case by auto
qed simp

text \<open>Splitting a joined list of separator-free pieces gives the pieces back.\<close>

lemma split_join:
  "ps \<noteq> [] \<Longrightarrow> (\<And>p. p \<in> set ps \<Longrightarrow> c \<notin> set p) \<Longrightarrow> split_on c (join_with [c] ps) = ps"
proof (induction ps rule: induct_list012)
  case (3 p q ps)
  then show ?case by (simp add: split_on_append_sep)
qed (auto simp: split_on_id)

section \<open>Bytes and digits\<close>

abbreviation byte :: "char \<Rightarrow> nat" where
  "byte c \<equiv> of_char c"

definition is_digit :: "char \<Rightarrow> bool" where
  "is_digit c \<longleftrightarrow> 48 \<le> byte c \<and> byte c \<le> 57"

definition digit_val :: "char \<Rightarrow> nat" where
  "digit_val c = byte c - 48"

lemma digit_val_less: "is_digit c \<Longrightarrow> digit_val c < 10"
  by (auto simp: is_digit_def digit_val_def)

lemma replicate_numeral [go_simps]: "replicate (numeral v) x = x # replicate (pred_numeral v) x"
  by (simp add: numeral_eq_Suc)

text \<open>\<open>strings.HasPrefix\<close>, \<open>strings.HasSuffix\<close> and \<open>strings.Contains\<close>.\<close>

definition has_prefix :: "'a list \<Rightarrow> 'a list \<Rightarrow> bool" where
  "has_prefix s p \<longleftrightarrow> take (length p) s = p"

definition has_suffix :: "'a list \<Rightarrow> 'a list \<Rightarrow> bool" where
  "has_suffix s p \<longleftrightarrow> length p \<le> length s \<and> drop (length s - length p) s = p"

lemma has_prefix_iff: "has_prefix s p \<longleftrightarrow> (\<exists>r. s = p @ r)"
  by (metis append_eq_conv_conj has_prefix_def)

fun contains_sub :: "'a list \<Rightarrow> 'a list \<Rightarrow> bool" where
  "contains_sub [] p = (p = [])"
| "contains_sub (c # s) p = (has_prefix (c # s) p \<or> contains_sub s p)"

section \<open>Normal forms\<close>

text \<open>
  The contract of a normaliser: every result is in normal form and a normal form is left alone.
  The canonical address texts and the canonical paths are its instances.
\<close>

locale normaliser =
  fixes norm :: "'a \<Rightarrow> 'a option" and nf :: "'a \<Rightarrow> bool"
  assumes norm_nf: "norm x = Some y \<Longrightarrow> nf y"
    and nf_norm: "nf y \<Longrightarrow> norm y = Some y"
begin

lemma norm_stable: "norm x = Some y \<Longrightarrow> norm y = Some y"
  by (rule nf_norm[OF norm_nf])

lemma nf_iff_fixed: "nf y \<longleftrightarrow> norm y = Some y"
  using norm_nf nf_norm by blast

lemma norm_image: "(\<exists>x. norm x = Some y) \<longleftrightarrow> nf y"
  using norm_nf nf_norm by blast

end

section \<open>Components as operations on a state\<close>

text \<open>A run of a component: the outputs of its operations, in order, and the last state.\<close>

fun run_ops :: "('op \<Rightarrow> 's \<Rightarrow> 'out \<times> 's) \<Rightarrow> 'op list \<Rightarrow> 's \<Rightarrow> 'out list \<times> 's" where
  "run_ops step [] s = ([], s)"
| "run_ops step (x # xs) s =
     (let r = step x s; rs = run_ops step xs (snd r) in (fst r # fst rs, snd rs))"

text \<open>
  The contract of a component with an invariant: every operation keeps it and, under it, gives an
  acceptable output. The lemmas extend the contract to every sequence of operations.
\<close>

locale component =
  fixes step :: "'op \<Rightarrow> 's \<Rightarrow> 'out \<times> 's" and inv :: "'s \<Rightarrow> bool" and good :: "'out \<Rightarrow> bool"
  assumes inv_step: "inv s \<Longrightarrow> inv (snd (step x s))"
    and good_step: "inv s \<Longrightarrow> good (fst (step x s))"
begin

lemma inv_run: "inv s \<Longrightarrow> inv (snd (run_ops step xs s))"
  by (induction xs arbitrary: s) (auto simp: Let_def inv_step)

lemma good_run: "inv s \<Longrightarrow> y \<in> set (fst (run_ops step xs s)) \<Longrightarrow> good y"
proof (induction xs arbitrary: s)
  case (Cons x xs)
  then show ?case using good_step[of s x] inv_step[of s x] by (auto simp: Let_def)
qed simp

lemma run_append:
  "snd (run_ops step (xs @ ys) s) = snd (run_ops step ys (snd (run_ops step xs s)))"
  by (induction xs arbitrary: s) (auto simp: Let_def)

end

end
