(* ===== verification/Intervals.thy ===== *)
theory Intervals
  imports Prelude "HOL-Library.Multiset"
begin

text \<open>
  The code-point interval sets of \<open>guardcore/redos_intervals.go\<close>: inclusive intervals, the
  insertion sort and merge that normalise them, binary-search membership, and the union,
  intersection, complement and difference algebra. \<open>ivs_set\<close> reads an interval list as the set
  of code points it denotes and \<open>normal\<close> is the representation invariant (sorted, disjoint,
  non-adjacent, non-empty intervals). The locale \<open>codepoint_sets\<close> is the contract the
  ReDoS layers rely on; it is interpreted on the operations of this theory.
\<close>

section \<open>Data\<close>

record redos_interval =
  low :: int
  high :: int

type_synonym interval_set = "redos_interval list"

definition minCodePoint :: int where
  "minCodePoint = 0"

definition maxCodePoint :: int where
  "maxCodePoint = 1114111"

section \<open>Operations\<close>

text \<open>The inner loop of \<open>sortRedosIntervals\<close>: swap item \<open>j\<close> leftwards while it is lower.\<close>

fun sort_inner :: "redos_interval list \<Rightarrow> nat \<Rightarrow> redos_interval list" where
  "sort_inner items 0 = items"
| "sort_inner items (Suc j) =
     (if low (items ! Suc j) < low (items ! j)
      then sort_inner (items[Suc j := items ! j, j := items ! Suc j]) j
      else items)"

lemma length_sort_inner [simp]: "length (sort_inner items j) = length items"
  by (induction items j rule: sort_inner.induct) auto

function sort_outer :: "redos_interval list \<Rightarrow> nat \<Rightarrow> redos_interval list" where
  "sort_outer items i =
     (if i < length items then sort_outer (sort_inner items i) (Suc i) else items)"
  by pat_completeness auto

termination
  by (relation "measure (\<lambda>(items, i). length items - i)") auto

declare sort_outer.simps [simp del]

definition sortRedosIntervals :: "redos_interval list \<Rightarrow> redos_interval list" where
  "sortRedosIntervals items = sort_outer items 1"

text \<open>One iteration of the merge loop: \<open>last\<close> points into the merged slice.\<close>

definition merge_step :: "redos_interval list \<Rightarrow> redos_interval \<Rightarrow> redos_interval list" where
  "merge_step merged pair =
     (if low pair \<le> high (last merged) + 1
      then (if high pair > high (last merged)
            then butlast merged @ [(last merged)\<lparr>high := high pair\<rparr>]
            else merged)
      else merged @ [pair])"

definition normalizeIntervals :: "redos_interval list \<Rightarrow> redos_interval list" where
  "normalizeIntervals pairs =
     (case sortRedosIntervals pairs of
        [] \<Rightarrow> []
      | p # ps \<Rightarrow> foldl merge_step [p] ps)"

definition emptyIntervals :: interval_set where
  "emptyIntervals = []"

definition fullIntervals :: interval_set where
  "fullIntervals = [\<lparr>low = minCodePoint, high = maxCodePoint\<rparr>]"

definition singleInterval :: "int \<Rightarrow> interval_set" where
  "singleInterval cp = [\<lparr>low = cp, high = cp\<rparr>]"

definition rangeIntervals :: "int \<Rightarrow> int \<Rightarrow> interval_set" where
  "rangeIntervals lo hi =
     (let lo = (if lo < minCodePoint then minCodePoint else lo);
          hi = (if hi > maxCodePoint then maxCodePoint else hi)
      in if lo > hi then emptyIntervals else [\<lparr>low = lo, high = hi\<rparr>])"

definition newIntervalSet :: "redos_interval list \<Rightarrow> interval_set" where
  "newIntervalSet pairs = normalizeIntervals pairs"

definition iv_isEmpty :: "interval_set \<Rightarrow> bool" where
  "iv_isEmpty s \<longleftrightarrow> length s = 0"

text \<open>The binary search of \<open>contains\<close>, on the half-open index range \<open>[lo, hi)\<close>.\<close>

function contains_loop :: "interval_set \<Rightarrow> int \<Rightarrow> nat \<Rightarrow> nat \<Rightarrow> bool" where
  "contains_loop s cp lo hi =
     (if lo < hi then
        (let mid = (lo + hi) div 2; iv = s ! mid in
         if cp < low iv then contains_loop s cp lo mid
         else if cp > high iv then contains_loop s cp (Suc mid) hi
         else True)
      else False)"
  by pat_completeness auto
termination
  by (relation "measure (\<lambda>(s, cp, lo, hi). hi - lo)") auto

declare contains_loop.simps [simp del]

definition iv_contains :: "interval_set \<Rightarrow> int \<Rightarrow> bool" where
  "iv_contains s cp = contains_loop s cp 0 (length s)"

definition firstMember :: "interval_set \<Rightarrow> int option" where
  "firstMember s = (case s of [] \<Rightarrow> None | iv # _ \<Rightarrow> Some (low iv))"

definition componentFirstMembers :: "interval_set \<Rightarrow> int list" where
  "componentFirstMembers s = map low s"

definition iv_union :: "interval_set \<Rightarrow> interval_set \<Rightarrow> interval_set" where
  "iv_union s other = newIntervalSet (s @ other)"

text \<open>The two-pointer sweep of \<open>intersection\<close>: the list tails stand for the indices \<open>i\<close> and
  \<open>j\<close>, and the interval with the smaller upper bound is dropped.\<close>

fun inter_loop :: "redos_interval list \<Rightarrow> redos_interval list \<Rightarrow> redos_interval list" where
  "inter_loop (a # as) (b # bs) =
     (let lo = max (low a) (low b);
          hi = min (high a) (high b);
          out = (if lo \<le> hi then [\<lparr>low = lo, high = hi\<rparr>] else [])
      in out @ (if high a < high b then inter_loop as (b # bs) else inter_loop (a # as) bs))"
| "inter_loop as bs = []"

definition iv_intersection :: "interval_set \<Rightarrow> interval_set \<Rightarrow> interval_set" where
  "iv_intersection s other = normalizeIntervals (inter_loop s other)"

fun compl_loop :: "int \<Rightarrow> redos_interval list \<Rightarrow> redos_interval list" where
  "compl_loop cursor [] =
     (if cursor \<le> maxCodePoint then [\<lparr>low = cursor, high = maxCodePoint\<rparr>] else [])"
| "compl_loop cursor (iv # ivs) =
     (if low iv > cursor then [\<lparr>low = cursor, high = low iv - 1\<rparr>] else [])
     @ compl_loop (high iv + 1) ivs"

definition iv_complement :: "interval_set \<Rightarrow> interval_set" where
  "iv_complement s = normalizeIntervals (compl_loop minCodePoint s)"

definition iv_difference :: "interval_set \<Rightarrow> interval_set \<Rightarrow> interval_set" where
  "iv_difference s other = iv_intersection s (iv_complement other)"

section \<open>Denotation and representation invariant\<close>

definition iv_set :: "redos_interval \<Rightarrow> int set" where
  "iv_set iv = {low iv .. high iv}"

definition ivs_set :: "redos_interval list \<Rightarrow> int set" where
  "ivs_set s = (\<Union>iv\<in>set s. iv_set iv)"

definition nonempty_ivs :: "redos_interval list \<Rightarrow> bool" where
  "nonempty_ivs s \<longleftrightarrow> (\<forall>iv\<in>set s. low iv \<le> high iv)"

definition normal :: "interval_set \<Rightarrow> bool" where
  "normal s \<longleftrightarrow> nonempty_ivs s \<and> sorted_wrt (\<lambda>a b. high a + 1 < low b) s"

definition in_range_ivs :: "interval_set \<Rightarrow> bool" where
  "in_range_ivs s \<longleftrightarrow> ivs_set s \<subseteq> {minCodePoint .. maxCodePoint}"

lemma ivs_set_simps [simp]:
  "ivs_set [] = {}"
  "ivs_set (iv # s) = iv_set iv \<union> ivs_set s"
  "ivs_set (s @ t) = ivs_set s \<union> ivs_set t"
  by (auto simp: ivs_set_def)

lemma nonempty_ivs_simps [simp]:
  "nonempty_ivs []"
  "nonempty_ivs (iv # s) \<longleftrightarrow> low iv \<le> high iv \<and> nonempty_ivs s"
  "nonempty_ivs (s @ t) \<longleftrightarrow> nonempty_ivs s \<and> nonempty_ivs t"
  by (auto simp: nonempty_ivs_def)

lemma normal_Nil [simp]: "normal []"
  by (simp add: normal_def)

lemma normal_nonempty: "normal s \<Longrightarrow> nonempty_ivs s"
  by (simp add: normal_def)

lemma normal_ConsD: "normal (iv # s) \<Longrightarrow> normal s"
  by (simp add: normal_def)

lemma normal_Cons:
  "normal (iv # s) \<longleftrightarrow>
     low iv \<le> high iv \<and> (\<forall>b\<in>set s. high iv + 1 < low b) \<and> normal s"
  by (auto simp: normal_def)

section \<open>The sort\<close>

lemma sort_inner_perm: "j < length items \<Longrightarrow> mset (sort_inner items j) = mset items"
proof (induction items j rule: sort_inner.induct)
  case (2 items j)
  then show ?case by (auto simp: mset_swap)
qed simp

text \<open>
  With the prefix up to \<open>n\<close> sorted except for the element at \<open>j\<close>, which is below everything to
  its right, the inner loop leaves the whole prefix sorted.
\<close>

lemma sort_inner_sorted:
  assumes "j \<le> n" "n < length items"
    and "\<And>a b. a < b \<Longrightarrow> b \<le> n \<Longrightarrow> a \<noteq> j \<Longrightarrow> b \<noteq> j \<Longrightarrow> low (items ! a) \<le> low (items ! b)"
    and "\<And>b. j < b \<Longrightarrow> b \<le> n \<Longrightarrow> low (items ! j) \<le> low (items ! b)"
    and "a < b" "b \<le> n"
  shows "low (sort_inner items j ! a) \<le> low (sort_inner items j ! b)"
  using assms
proof (induction items j arbitrary: a b rule: sort_inner.induct)
  case (1 items)
  then show ?case by (cases "a = 0") auto
next
  case (2 items j)
  define swap where "swap = items[Suc j := items ! j, j := items ! Suc j]"
  show ?case
  proof (cases "low (items ! Suc j) < low (items ! j)")
    case True
    have nth: "swap ! k = (if k = j then items ! Suc j else if k = Suc j then items ! j else items ! k)"
      if "k \<le> n" for k
      using that "2.prems"(1,2) by (auto simp: swap_def nth_list_update)
    have "low (sort_inner swap j ! a) \<le> low (sort_inner swap j ! b)"
    unfolding swap_def
    proof (rule "2.IH"[OF True], fold swap_def)
      show "low (swap ! x) \<le> low (swap ! y)"
        if "x < y" "y \<le> n" "x \<noteq> j" "y \<noteq> j" for x y
        using that "2.prems"(3)[of x y] "2.prems"(3)[of x j] "2.prems"(3)[of j y] nth
        by (cases "x = Suc j"; cases "y = Suc j") auto
      show "low (swap ! j) \<le> low (swap ! y)" if "j < y" "y \<le> n" for y
        using that "2.prems"(4)[of y] True nth "2.prems"(1) by (auto split: if_splits)
    qed (use "2.prems" in \<open>auto simp: swap_def\<close>)
    with True show ?thesis by (simp add: swap_def)
  next
    case False
    have "low (items ! a) \<le> low (items ! b)"
    proof (cases "b = Suc j")
      case True
      then have "low (items ! a) \<le> low (items ! j)"
        using "2.prems"(3)[of a j] "2.prems"(1,5) by (cases "a = j") auto
      with True False show ?thesis by simp
    next
      case False
      then show ?thesis using "2.prems"(3)[of a b] "2.prems"(4)[of b] "2.prems"(5,6)
        by (cases "a = Suc j") auto
    qed
    with False show ?thesis by simp
  qed
qed

lemma sort_outer_perm: "mset (sort_outer items i) = mset items"
proof (induction items i rule: sort_outer.induct)
  case (1 items i)
  then show ?case by (auto simp: sort_outer.simps[of items i] sort_inner_perm)
qed

lemma sort_inner_beyond: "j < k \<Longrightarrow> sort_inner items j ! k = items ! k"
  by (induction items j rule: sort_inner.induct) auto

lemma sort_outer_sorted:
  assumes "\<And>a b. a < b \<Longrightarrow> b < i \<Longrightarrow> b < length items \<Longrightarrow> low (items ! a) \<le> low (items ! b)"
  shows "a < b \<Longrightarrow> b < length items \<Longrightarrow>
         low (sort_outer items i ! a) \<le> low (sort_outer items i ! b)"
  using assms
proof (induction items i arbitrary: a b rule: sort_outer.induct)
  case (1 items i)
  show ?case
  proof (cases "i < length items")
    case True
    have "low (sort_outer (sort_inner items i) (Suc i) ! a)
        \<le> low (sort_outer (sort_inner items i) (Suc i) ! b)"
    proof (rule "1.IH"[OF True])
      show "low (sort_inner items i ! x) \<le> low (sort_inner items i ! y)"
        if "x < y" "y < Suc i" "y < length (sort_inner items i)" for x y
        using sort_inner_sorted[of i i items x y] that True "1.prems"(3) by auto
    qed (use "1.prems" in auto)
    with True show ?thesis by (simp add: sort_outer.simps[of items i])
  next
    case False
    with "1.prems" show ?thesis by (auto simp: sort_outer.simps[of items i])
  qed
qed

lemma mset_sort [simp]: "mset (sortRedosIntervals items) = mset items"
  by (simp add: sortRedosIntervals_def sort_outer_perm)

lemma set_sort [simp]: "set (sortRedosIntervals items) = set items"
  by (metis mset_sort set_mset_mset)

lemma length_sort [simp]: "length (sortRedosIntervals items) = length items"
  by (metis mset_sort size_mset)

lemma sorted_sort: "sorted (map low (sortRedosIntervals items))"
  unfolding sorted_iff_nth_mono_less
  using sort_outer_sorted[of 1 items] length_sort[of items]
  by (auto simp: sortRedosIntervals_def)

section \<open>The merge\<close>

text \<open>One merge step keeps the prefix normal and adds the pair's members to the denotation, given
  that the pair starts no earlier than the last merged interval.\<close>

lemma merge_step_ok:
  assumes "normal m" "m \<noteq> []" "low (last m) \<le> low p" "low p \<le> high p"
  shows "normal (merge_step m p)" "merge_step m p \<noteq> []"
    "ivs_set (merge_step m p) = ivs_set m \<union> iv_set p"
    "low (last (merge_step m p)) \<le> low p"
proof -
  obtain us l where m: "m = us @ [l]" using assms(2) by (metis rev_exhaust)
  have n: "normal us" "low l \<le> high l" "\<forall>a\<in>set us. high a + 1 < low l"
    using assms(1) by (auto simp: m normal_def sorted_wrt_append)
  show "normal (merge_step m p)"
    using assms(1,3,4) n by (fastforce simp: m merge_step_def normal_def sorted_wrt_append)
  show "merge_step m p \<noteq> []" "low (last (merge_step m p)) \<le> low p"
    using assms(3) by (auto simp: m merge_step_def)
  show "ivs_set (merge_step m p) = ivs_set m \<union> iv_set p"
    using assms(3,4) n by (auto simp: m merge_step_def iv_set_def)
qed

lemma merge_fold_ok:
  assumes "normal m" "m \<noteq> []" "sorted (map low (last m # ps))" "nonempty_ivs ps"
  shows "normal (foldl merge_step m ps) \<and> ivs_set (foldl merge_step m ps) = ivs_set m \<union> ivs_set ps"
  using assms
proof (induction ps arbitrary: m)
  case (Cons p ps)
  have le: "low (last m) \<le> low p" "low p \<le> high p" using Cons.prems by auto
  note st = merge_step_ok[OF Cons.prems(1,2) le]
  have "sorted (map low (last (merge_step m p) # ps))"
    using Cons.prems(3) st(4) by (auto intro: order_trans)
  with Cons.IH[of "merge_step m p"] st Cons.prems(4) show ?case by auto
qed simp

lemma normalize_ok:
  assumes "nonempty_ivs ps"
  shows "normal (normalizeIntervals ps) \<and> ivs_set (normalizeIntervals ps) = ivs_set ps"
proof (cases "sortRedosIntervals ps")
  case Nil
  then have "ps = []" by (metis length_0_conv length_sort)
  then show ?thesis using Nil by (simp add: normalizeIntervals_def)
next
  case (Cons q qs)
  have ne: "nonempty_ivs (q # qs)"
    using assms set_sort[of ps] by (simp add: nonempty_ivs_def Cons[symmetric] del: nonempty_ivs_simps)
  have eq: "ivs_set (q # qs) = ivs_set ps"
    using set_sort[of ps] by (simp add: ivs_set_def Cons)
  have "sorted (map low (last [q] # qs))" using sorted_sort[of ps] by (simp add: Cons)
  then show ?thesis
    using merge_fold_ok[of "[q]" qs] ne eq by (simp add: normalizeIntervals_def Cons normal_def)
qed

lemmas normalize_normal = normalize_ok[THEN conjunct1]
lemmas normalize_set = normalize_ok[THEN conjunct2]

section \<open>Membership\<close>

lemma normal_nth_gap:
  assumes "normal s" "i < j" "j < length s"
  shows "high (s ! i) + 1 < low (s ! j)"
  using assms by (simp add: normal_def sorted_wrt_iff_nth_less)

lemma contains_loop_iff:
  assumes "normal s" "hi \<le> length s"
  shows "contains_loop s cp lo hi \<longleftrightarrow> (\<exists>k. lo \<le> k \<and> k < hi \<and> cp \<in> iv_set (s ! k))"
  using assms
proof (induction s cp lo hi rule: contains_loop.induct)
  case (1 s cp lo hi)
  define mid where "mid = (lo + hi) div 2"
  have gap: "high (s ! i) + 1 < low (s ! j)" if "i < j" "j < hi" for i j
    using normal_nth_gap[OF "1.prems"(1), of i j] that "1.prems"(2) by simp
  have ne: "low (s ! k) \<le> high (s ! k)" if "k < hi" for k
    using normal_nonempty[OF "1.prems"(1)] that "1.prems"(2) by (auto simp: nonempty_ivs_def)
  show ?case
  proof (cases "lo < hi")
    case lt: True
    then have m: "lo \<le> mid" "mid < hi" by (auto simp: mid_def)
    consider "cp < low (s ! mid)" | "cp > high (s ! mid)" | "cp \<in> iv_set (s ! mid)"
      by (force simp: iv_set_def)
    then show ?thesis
    proof cases
      case 1
      have "\<not> (mid \<le> k \<and> k < hi \<and> cp \<in> iv_set (s ! k))" for k
        using gap[of mid k] ne[of mid] m 1 by (cases "k = mid") (auto simp: iv_set_def)
      moreover have "contains_loop s cp lo hi = contains_loop s cp lo mid"
        using lt 1 by (simp add: contains_loop.simps[of s cp lo hi] mid_def Let_def)
      moreover have "contains_loop s cp lo mid \<longleftrightarrow> (\<exists>k. lo \<le> k \<and> k < mid \<and> cp \<in> iv_set (s ! k))"
        using "1.IH"(1)[OF lt mid_def refl 1 "1.prems"(1)] m "1.prems"(2) by simp
      ultimately show ?thesis using m by (metis leI order.strict_trans)
    next
      case 2
      have "\<not> (lo \<le> k \<and> k \<le> mid \<and> cp \<in> iv_set (s ! k))" for k
        using gap[of k mid] ne[of mid] m 2 by (cases "k = mid") (auto simp: iv_set_def)
      moreover have "contains_loop s cp lo hi = contains_loop s cp (Suc mid) hi"
        using lt 2 ne[OF m(2)] by (simp add: contains_loop.simps[of s cp lo hi] mid_def Let_def)
      moreover have "contains_loop s cp (Suc mid) hi
          \<longleftrightarrow> (\<exists>k. Suc mid \<le> k \<and> k < hi \<and> cp \<in> iv_set (s ! k))"
        using "1.IH"(2)[OF lt mid_def refl _ 2 "1.prems"] 2 ne[OF m(2)] by simp
      ultimately show ?thesis using m by (metis Suc_leD le_trans not_less_eq_eq)
    next
      case 3
      then have "contains_loop s cp lo hi"
        using lt by (simp add: contains_loop.simps[of s cp lo hi] mid_def Let_def iv_set_def)
      with 3 m show ?thesis by auto
    qed
  next
    case False
    then show ?thesis by (auto simp: contains_loop.simps[of s cp lo hi])
  qed
qed

lemma iv_contains_iff: "normal s \<Longrightarrow> iv_contains s cp \<longleftrightarrow> cp \<in> ivs_set s"
  by (simp add: iv_contains_def contains_loop_iff ivs_set_def Bex_def in_set_conv_nth) blast

section \<open>The set algebra\<close>

lemma iv_set_Int:
  "iv_set a \<inter> iv_set b =
     ivs_set (if max (low a) (low b) \<le> min (high a) (high b)
              then [\<lparr>low = max (low a) (low b), high = min (high a) (high b)\<rparr>] else [])"
  by (auto simp: iv_set_def)

lemma normal_tail_above: "normal (iv # s) \<Longrightarrow> x \<in> ivs_set s \<Longrightarrow> high iv + 1 < x"
  by (fastforce simp: normal_Cons ivs_set_def iv_set_def)

lemma inter_loop_ok:
  assumes "normal as" "normal bs"
  shows "nonempty_ivs (inter_loop as bs) \<and> ivs_set (inter_loop as bs) = ivs_set as \<inter> ivs_set bs"
  using assms
proof (induction as bs rule: inter_loop.induct)
  case (1 a as b bs)
  let ?hd = "if max (low a) (low b) \<le> min (high a) (high b)
      then [\<lparr>low = max (low a) (low b), high = min (high a) (high b)\<rparr>] else []"
  have above: "x \<in> ivs_set as \<Longrightarrow> high a + 1 < x" "x \<in> ivs_set bs \<Longrightarrow> high b + 1 < x" for x
    using "1.prems" normal_tail_above by blast+
  have hd: "ivs_set ?hd = iv_set a \<inter> iv_set b" "nonempty_ivs ?hd"
    by (simp_all only: iv_set_Int) auto
  show ?case
  proof (cases "high a < high b")
    case True
    have IH: "nonempty_ivs (inter_loop as (b # bs))"
      "ivs_set (inter_loop as (b # bs)) = ivs_set as \<inter> ivs_set (b # bs)"
      using "1.IH"(1)[OF refl refl refl True] "1.prems" normal_ConsD by blast+
    have "iv_set a \<inter> ivs_set bs = {}" using above(2) True by (force simp: iv_set_def)
    with True IH hd show ?thesis by (auto simp: Let_def simp del: ivs_set_simps(2)) (auto simp: ivs_set_simps(2))
  next
    case False
    have IH: "nonempty_ivs (inter_loop (a # as) bs)"
      "ivs_set (inter_loop (a # as) bs) = ivs_set (a # as) \<inter> ivs_set bs"
      using "1.IH"(2)[OF refl refl refl False] "1.prems" normal_ConsD by blast+
    have "ivs_set as \<inter> iv_set b = {}" using above(1) False by (force simp: iv_set_def)
    with False IH hd show ?thesis by (auto simp: Let_def simp del: ivs_set_simps(2)) (auto simp: ivs_set_simps(2))
  qed
qed auto

lemma compl_loop_ok:
  assumes "normal s" "\<forall>iv\<in>set s. cursor \<le> low iv" "\<forall>iv\<in>set s. high iv \<le> maxCodePoint"
  shows "nonempty_ivs (compl_loop cursor s)
    \<and> ivs_set (compl_loop cursor s) = {cursor .. maxCodePoint} - ivs_set s"
  using assms
proof (induction cursor s rule: compl_loop.induct)
  case (2 cursor iv ivs)
  have ne: "low iv \<le> high iv" "cursor \<le> low iv" "high iv \<le> maxCodePoint" "normal ivs"
    using "2.prems" by (auto simp: normal_Cons)
  have "nonempty_ivs (compl_loop (high iv + 1) ivs)
      \<and> ivs_set (compl_loop (high iv + 1) ivs) = {high iv + 1 .. maxCodePoint} - ivs_set ivs"
    using "2.IH" "2.prems" ne by (fastforce simp: normal_Cons)
  moreover have "high iv + 1 < x" if "x \<in> ivs_set ivs" for x
    using normal_tail_above[OF "2.prems"(1) that] .
  ultimately show ?case using ne by (force simp: iv_set_def)
qed (auto simp: iv_set_def)

text \<open>Results of the algebra, on normal sets within the code-point range.\<close>

definition code_set :: "interval_set \<Rightarrow> bool" where
  "code_set s \<longleftrightarrow> normal s \<and> in_range_ivs s"

lemma in_range_bounds:
  assumes "normal s" "in_range_ivs s" "iv \<in> set s"
  shows "minCodePoint \<le> low iv \<and> high iv \<le> maxCodePoint"
proof -
  have "low iv \<le> high iv" using assms(1,3) by (auto simp: normal_def nonempty_ivs_def)
  then have "low iv \<in> ivs_set s" "high iv \<in> ivs_set s"
    using assms(3) by (auto simp: ivs_set_def iv_set_def)
  then show ?thesis using assms(2) by (auto simp: in_range_ivs_def)
qed

lemma code_set_empty: "code_set emptyIntervals \<and> ivs_set emptyIntervals = {}"
  by (simp add: code_set_def emptyIntervals_def in_range_ivs_def)

lemma code_set_full: "code_set fullIntervals \<and> ivs_set fullIntervals = {minCodePoint..maxCodePoint}"
  by (auto simp: code_set_def fullIntervals_def in_range_ivs_def normal_def iv_set_def
      minCodePoint_def maxCodePoint_def)

lemma code_set_single:
  "minCodePoint \<le> c \<Longrightarrow> c \<le> maxCodePoint \<Longrightarrow>
   code_set (singleInterval c) \<and> ivs_set (singleInterval c) = {c}"
  by (auto simp: code_set_def singleInterval_def in_range_ivs_def normal_def iv_set_def)

lemma code_set_range:
  "code_set (rangeIntervals lo hi) \<and>
   ivs_set (rangeIntervals lo hi) = {lo..hi} \<inter> {minCodePoint..maxCodePoint}"
  by (auto simp: code_set_def rangeIntervals_def in_range_ivs_def normal_def iv_set_def Let_def
      emptyIntervals_def split: if_splits)

lemma code_set_union:
  assumes "code_set s" "code_set t"
  shows "code_set (iv_union s t) \<and> ivs_set (iv_union s t) = ivs_set s \<union> ivs_set t"
proof -
  have "nonempty_ivs (s @ t)" using assms by (simp add: code_set_def normal_def)
  from normalize_ok[OF this] show ?thesis
    using assms by (simp add: code_set_def iv_union_def newIntervalSet_def in_range_ivs_def)
qed

lemma code_set_intersection:
  assumes "code_set s" "code_set t"
  shows "code_set (iv_intersection s t) \<and> ivs_set (iv_intersection s t) = ivs_set s \<inter> ivs_set t"
proof -
  have "nonempty_ivs (inter_loop s t)" "ivs_set (inter_loop s t) = ivs_set s \<inter> ivs_set t"
    using inter_loop_ok[of s t] assms by (auto simp: code_set_def)
  with normalize_ok[of "inter_loop s t"] show ?thesis
    using assms by (auto simp: code_set_def iv_intersection_def in_range_ivs_def)
qed

lemma code_set_complement:
  assumes "code_set s"
  shows "code_set (iv_complement s) \<and>
         ivs_set (iv_complement s) = {minCodePoint..maxCodePoint} - ivs_set s"
proof -
  have "nonempty_ivs (compl_loop minCodePoint s) \<and>
      ivs_set (compl_loop minCodePoint s) = {minCodePoint..maxCodePoint} - ivs_set s"
    using compl_loop_ok[of s minCodePoint] assms in_range_bounds by (auto simp: code_set_def)
  with normalize_ok[of "compl_loop minCodePoint s"] show ?thesis
    by (auto simp: code_set_def iv_complement_def in_range_ivs_def)
qed

lemma code_set_difference:
  assumes "code_set s" "code_set t"
  shows "code_set (iv_difference s t) \<and> ivs_set (iv_difference s t) = ivs_set s - ivs_set t"
proof -
  have "ivs_set s \<subseteq> {minCodePoint..maxCodePoint}" using assms(1) by (simp add: code_set_def in_range_ivs_def)
  then show ?thesis
    using code_set_complement[OF assms(2)] code_set_intersection[OF assms(1)]
    by (auto simp: iv_difference_def)
qed

lemma firstMember_Least:
  assumes "code_set s" "firstMember s = Some c"
  shows "c \<in> ivs_set s \<and> (\<forall>x\<in>ivs_set s. c \<le> x)"
  using assms by (cases s) (force simp: code_set_def firstMember_def normal_Cons ivs_set_def iv_set_def)+

lemma firstMember_None: "code_set s \<Longrightarrow> firstMember s = None \<longleftrightarrow> ivs_set s = {}"
  by (cases s) (auto simp: code_set_def firstMember_def normal_Cons iv_set_def)

lemma isEmpty_iff: "code_set s \<Longrightarrow> iv_isEmpty s \<longleftrightarrow> ivs_set s = {}"
  by (cases s) (auto simp: code_set_def iv_isEmpty_def normal_Cons iv_set_def)

section \<open>The interface\<close>

text \<open>What the parser, the slot walk and the stray chooser rely on: a family of finite
  descriptions \<open>invar\<close> of code-point sets with the Boolean algebra, membership and least member.\<close>

locale codepoint_sets =
  fixes invar :: "'s \<Rightarrow> bool"
    and den :: "'s \<Rightarrow> int set"
    and empty :: "'s"
    and member :: "'s \<Rightarrow> int \<Rightarrow> bool"
    and join :: "'s \<Rightarrow> 's \<Rightarrow> 's"
    and meet :: "'s \<Rightarrow> 's \<Rightarrow> 's"
    and compl :: "'s \<Rightarrow> 's"
    and first :: "'s \<Rightarrow> int option"
  assumes empty: "invar empty \<and> den empty = {}"
    and member: "invar s \<Longrightarrow> member s c \<longleftrightarrow> c \<in> den s"
    and join: "invar s \<Longrightarrow> invar t \<Longrightarrow> invar (join s t) \<and> den (join s t) = den s \<union> den t"
    and meet: "invar s \<Longrightarrow> invar t \<Longrightarrow> invar (meet s t) \<and> den (meet s t) = den s \<inter> den t"
    and compl: "invar s \<Longrightarrow> invar (compl s) \<and> den (compl s) = {minCodePoint..maxCodePoint} - den s"
    and first_Some: "invar s \<Longrightarrow> first s = Some c \<Longrightarrow> c \<in> den s \<and> (\<forall>x\<in>den s. c \<le> x)"
    and first_None: "invar s \<Longrightarrow> first s = None \<longleftrightarrow> den s = {}"
begin

text \<open>A stray for two sets, picked as the least member of the complement of their union, lies in
  neither; there is one unless the two sets exhaust the code points.\<close>

lemma stray_outside:
  assumes "invar s" "invar t" "first (compl (join s t)) = Some c"
  shows "\<not> member s c \<and> \<not> member t c \<and> c \<in> {minCodePoint..maxCodePoint}"
  using assms first_Some[of "compl (join s t)" c] compl[of "join s t"] join[of s t] member
  by auto

lemma stray_none:
  assumes "invar s" "invar t" "first (compl (join s t)) = None"
  shows "{minCodePoint..maxCodePoint} \<subseteq> den s \<union> den t"
  using assms first_None[of "compl (join s t)"] compl[of "join s t"] join[of s t] by auto

text \<open>The split of a region by a constraint is a partition of the region.\<close>

lemma split_partition:
  assumes "invar r" "invar c" "den r \<subseteq> {minCodePoint..maxCodePoint}"
  shows "den (meet r c) \<union> den (meet r (compl c)) = den r
       \<and> den (meet r c) \<inter> den (meet r (compl c)) = {}"
  using meet[OF assms(1,2)] compl[OF assms(2)] meet[OF assms(1), of "compl c"] assms(3) by auto

lemma fold_join:
  assumes "invar s" "\<And>x. x \<in> set xs \<Longrightarrow> invar x"
  shows "invar (foldl join s xs) \<and> den (foldl join s xs) = den s \<union> (\<Union>x\<in>set xs. den x)"
  using assms
proof (induction xs arbitrary: s)
  case (Cons x xs)
  then show ?case using join[of s x] by auto
qed simp

end

interpretation ivs: codepoint_sets code_set ivs_set emptyIntervals iv_contains iv_union
  iv_intersection iv_complement firstMember
  by unfold_locales
    (use code_set_empty code_set_union code_set_intersection code_set_complement
      firstMember_Least firstMember_None iv_contains_iff in \<open>auto simp: code_set_def\<close>)

section \<open>Properties\<close>

lemma normal_head_first: "normal (iv # s) \<Longrightarrow> x \<in> ivs_set (iv # s) \<Longrightarrow> low iv \<le> x"
  using normal_tail_above[of iv s x] by (auto simp: normal_Cons iv_set_def)

lemma normal_gap: "normal (iv # s) \<Longrightarrow> high iv + 1 \<notin> ivs_set (iv # s)"
  using normal_tail_above[of iv s "high iv + 1"] by (auto simp: iv_set_def)

lemma normal_unique:
  assumes "normal s" "normal t" "ivs_set s = ivs_set t"
  shows "s = t"
  using assms
proof (induction s arbitrary: t)
  case Nil
  then show ?case by (cases t) (auto simp: normal_Cons iv_set_def)
next
  case (Cons i s)
  have i: "low i \<le> high i" using Cons.prems(1) by (simp add: normal_Cons)
  then have mem: "x \<in> ivs_set (i # s)" if "low i \<le> x" "x \<le> high i" for x using that by (simp add: iv_set_def)
  obtain j t' where t: "t = j # t'" using mem[of "low i"] i Cons.prems(3) by (cases t) auto
  have j: "low j \<le> high j" using Cons.prems(2) t by (simp add: normal_Cons)
  then have memt: "x \<in> ivs_set (j # t')" if "low j \<le> x" "x \<le> high j" for x using that by (simp add: iv_set_def)
  have tn: "normal (j # t')" using Cons.prems(2) t by simp
  have heads: "low j \<in> ivs_set (i # s)" "low i \<in> ivs_set (j # t')"
    using memt[OF order_refl j] mem[OF order_refl i] Cons.prems(3) unfolding t by (simp_all only:)
  have low: "low i = low j"
    by (rule order_antisym[OF normal_head_first[OF Cons.prems(1) heads(1)] normal_head_first[OF tn heads(2)]])
  have "\<not> high i < high j"
  proof
    assume "high i < high j"
    then have "high i + 1 \<in> ivs_set (j # t')" using i low by (intro memt) simp_all
    then show False using normal_gap[OF Cons.prems(1)] Cons.prems(3) t by metis
  qed
  moreover have "\<not> high j < high i"
  proof
    assume "high j < high i"
    then have "high j + 1 \<in> ivs_set (i # s)" using j low by (intro mem) simp_all
    then show False using normal_gap[OF tn] Cons.prems(3) t by metis
  qed
  ultimately have high: "high i = high j" by simp
  have "ivs_set s = ivs_set (i # s) - {low i..high i}" "ivs_set t' = ivs_set (j # t') - {low j..high j}"
    using normal_tail_above[OF Cons.prems(1)] normal_tail_above[OF tn] by (force simp: iv_set_def)+
  then have "ivs_set s = ivs_set t'" using Cons.prems(3) t low high by simp
  then have "s = t'" using Cons.IH[of t'] Cons.prems(1,2) t normal_ConsD by blast
  then show ?case using t low high by (auto intro: redos_interval.equality)
qed

text \<open>C27: The interval algebra is exact: membership in a union, an intersection, a difference or a complement
  is the disjunction, conjunction, difference or negation of the memberships, on every code point.\<close>

theorem interval_algebra_exact:
  assumes "code_set s" "code_set t" "minCodePoint \<le> cp" "cp \<le> maxCodePoint"
  shows "iv_contains (iv_union s t) cp = (iv_contains s cp \<or> iv_contains t cp)
    \<and> iv_contains (iv_intersection s t) cp = (iv_contains s cp \<and> iv_contains t cp)
    \<and> iv_contains (iv_difference s t) cp = (iv_contains s cp \<and> \<not> iv_contains t cp)
    \<and> iv_contains (iv_complement s) cp = (\<not> iv_contains s cp)"
proof -
  have "iv_contains u cp \<longleftrightarrow> cp \<in> ivs_set u" if "code_set u" for u
    using that iv_contains_iff by (simp add: code_set_def)
  then show ?thesis
    using code_set_union[OF assms(1,2)] code_set_intersection[OF assms(1,2)] code_set_difference[OF assms(1,2)]
      code_set_complement[OF assms(1)] assms by auto
qed

theorem interval_algebra_exact_witness:
  "iv_contains (iv_difference (rangeIntervals 48 57) (singleInterval 50)) 51
   \<and> \<not> iv_contains (iv_difference (rangeIntervals 48 57) (singleInterval 50)) 50"
proof -
  have ok: "code_set (rangeIntervals 48 57)" "code_set (singleInterval 50)"
    using code_set_range code_set_single[of 50] by (simp_all add: minCodePoint_def maxCodePoint_def)
  have mem: "iv_contains (rangeIntervals 48 57) c \<longleftrightarrow> 48 \<le> c \<and> c \<le> 57" "iv_contains (singleInterval 50) c \<longleftrightarrow> c = 50"
    if "minCodePoint \<le> c" "c \<le> maxCodePoint" for c
    using ok code_set_range[of 48 57] code_set_single[of 50] that iv_contains_iff
    by (auto simp: code_set_def minCodePoint_def maxCodePoint_def)
  show ?thesis using interval_algebra_exact[OF ok, of 50] interval_algebra_exact[OF ok, of 51] mem[of 50] mem[of 51]
    by (simp add: minCodePoint_def maxCodePoint_def)
qed

text \<open>Normalisation is canonical: two lists of non-empty intervals normalise to the same set of intervals
  exactly when they cover the same code points.\<close>

theorem normalizeIntervals_canonical:
  assumes "\<forall>iv \<in> set items. low iv \<le> high iv" "\<forall>iv \<in> set items'. low iv \<le> high iv"
  shows "normalizeIntervals items = normalizeIntervals items' \<longleftrightarrow>
    (\<forall>c. (\<exists>iv \<in> set items. low iv \<le> c \<and> c \<le> high iv) \<longleftrightarrow> (\<exists>iv \<in> set items'. low iv \<le> c \<and> c \<le> high iv))"
proof -
  have ne: "nonempty_ivs items" "nonempty_ivs items'" using assms by (simp_all add: nonempty_ivs_def)
  have "ivs_set items = ivs_set items' \<longleftrightarrow>
    (\<forall>c. (\<exists>iv \<in> set items. low iv \<le> c \<and> c \<le> high iv) \<longleftrightarrow> (\<exists>iv \<in> set items'. low iv \<le> c \<and> c \<le> high iv))"
    by (auto simp: ivs_set_def iv_set_def set_eq_iff)
  moreover have "normalizeIntervals items = normalizeIntervals items' \<longleftrightarrow> ivs_set items = ivs_set items'"
    using normalize_ok[OF ne(1)] normalize_ok[OF ne(2)]
      normal_unique[of "normalizeIntervals items" "normalizeIntervals items'"] by auto
  ultimately show ?thesis by simp
qed

theorem normalizeIntervals_canonical_witness:
  "normalizeIntervals [\<lparr>low = 5, high = 9\<rparr>, \<lparr>low = 1, high = 4\<rparr>] = normalizeIntervals [\<lparr>low = 1, high = 9\<rparr>]"
  by (subst normalizeIntervals_canonical) auto

end
