(* ===== verification/Utf8.thy ===== *)
theory Utf8
  imports Prelude
begin

text \<open>
  Go's \<open>unicode/utf8\<close> on byte strings: decoding one rune at a time (an invalid byte decodes to
  U+FFFD with width one), encoding, validity and the conversion \<open>[]rune(s)\<close>. A rune is a natural
  number.
\<close>

definition cont :: "char \<Rightarrow> bool" where
  "cont c \<longleftrightarrow> 128 \<le> byte c \<and> byte c \<le> 191"

definition rune_error :: nat where
  "rune_error = 65533"

text \<open>\<open>utf8.DecodeRune\<close>: rune and width; the accepted ranges of the second byte are the standard
  ones (no overlong forms, no surrogates, nothing above U+10FFFF).\<close>

fun decode_rune :: "string \<Rightarrow> nat \<times> nat" where
  "decode_rune [] = (rune_error, 0)"
| "decode_rune (a # s) =
     (let x = byte a in
      if x < 128 then (x, 1)
      else if 194 \<le> x \<and> x \<le> 223 then
        (case s of
           b # _ \<Rightarrow> if cont b then ((x - 192) * 64 + (byte b - 128), 2) else (rune_error, 1)
         | [] \<Rightarrow> (rune_error, 1))
      else if 224 \<le> x \<and> x \<le> 239 then
        (case s of
           b # c # _ \<Rightarrow>
             if cont b \<and> cont c \<and> (x = 224 \<longrightarrow> 160 \<le> byte b) \<and> (x = 237 \<longrightarrow> byte b \<le> 159)
             then ((x - 224) * 4096 + (byte b - 128) * 64 + (byte c - 128), 3)
             else (rune_error, 1)
         | _ \<Rightarrow> (rune_error, 1))
      else if 240 \<le> x \<and> x \<le> 244 then
        (case s of
           b # c # d # _ \<Rightarrow>
             if cont b \<and> cont c \<and> cont d \<and> (x = 240 \<longrightarrow> 144 \<le> byte b) \<and> (x = 244 \<longrightarrow> byte b \<le> 143)
             then ((x - 240) * 262144 + (byte b - 128) * 4096 + (byte c - 128) * 64 + (byte d - 128), 4)
             else (rune_error, 1)
         | _ \<Rightarrow> (rune_error, 1))
      else (rune_error, 1))"

lemma decode_rune_width: "s \<noteq> [] \<Longrightarrow> 0 < snd (decode_rune s) \<and> snd (decode_rune s) \<le> length s"
  by (cases s) (auto simp: Let_def split: list.splits)

text \<open>\<open>utf8.RuneError\<close> with width one marks an invalid byte.\<close>

definition invalid_at :: "string \<Rightarrow> bool" where
  "invalid_at s \<longleftrightarrow> decode_rune s = (rune_error, 1)"

function utf8_valid :: "string \<Rightarrow> bool" where
  "utf8_valid s =
     (if s = [] then True
      else if invalid_at s then False
      else utf8_valid (drop (snd (decode_rune s)) s))"
  by pat_completeness auto
termination
  by (relation "measure length") (auto dest!: decode_rune_width)

declare utf8_valid.simps [simp del]

text \<open>\<open>[]rune(s)\<close>.\<close>

function runes :: "string \<Rightarrow> nat list" where
  "runes s =
     (if s = [] then []
      else fst (decode_rune s) # runes (drop (snd (decode_rune s)) s))"
  by pat_completeness auto
termination
  by (relation "measure length") (auto dest!: decode_rune_width)

declare runes.simps [simp del]

definition scalar :: "nat \<Rightarrow> bool" where
  "scalar r \<longleftrightarrow> r < 55296 \<or> (57344 \<le> r \<and> r < 1114112)"

text \<open>\<open>utf8.AppendRune\<close>: a value that is no scalar is written as U+FFFD.\<close>

definition encode_scalar :: "nat \<Rightarrow> string" where
  "encode_scalar r =
     (if r < 128 then [char_of r]
      else if r < 2048 then [char_of (192 + r div 64), char_of (128 + r mod 64)]
      else if r < 65536 then
        [char_of (224 + r div 4096), char_of (128 + r div 64 mod 64), char_of (128 + r mod 64)]
      else
        [char_of (240 + r div 262144), char_of (128 + r div 4096 mod 64),
         char_of (128 + r div 64 mod 64), char_of (128 + r mod 64)])"

definition encode_rune :: "nat \<Rightarrow> string" where
  "encode_rune r = encode_scalar (if scalar r then r else rune_error)"

lemma byte_char_of [simp]: "n < 256 \<Longrightarrow> byte (char_of n) = n"
  by simp

lemma div_64_64: "r div 64 div 64 = r div (4096 :: nat)" "r div 4096 div 64 = r div (262144 :: nat)"
  by (simp_all flip: div_mult2_eq)

lemma decode_encode_scalar:
  assumes "scalar r"
  shows "decode_rune (encode_scalar r @ s) = (r, length (encode_scalar r))"
proof -
  have bytes: "r mod 64 < 64" "r div 64 mod 64 < 64" "r div 4096 mod 64 < 64" by simp_all
  consider "r < 128" | "128 \<le> r" "r < 2048" | "2048 \<le> r" "r < 65536" | "65536 \<le> r" by linarith
  then show ?thesis
  proof cases
    case 2
    define q where "q = r div 64"
    define m where "m = r mod 64"
    have "q < 32" "2 \<le> q" using 2 unfolding q_def by linarith+
    moreover have "m < 64" "q * 64 + m = r" by (simp_all add: q_def m_def)
    moreover have "encode_scalar r = [char_of (192 + q), char_of (128 + m)]"
      using 2 by (simp add: encode_scalar_def q_def m_def)
    ultimately show ?thesis by (simp add: cont_def Let_def)
  next
    case 3
    define a where "a = r div 4096"
    define b where "b = r div 64 mod 64"
    define c where "c = r mod 64"
    have e: "a * 4096 + b * 64 + c = r" "b < 64" "c < 64"
      unfolding a_def b_def c_def
      using div_mult_mod_eq[of r 64] div_mult_mod_eq[of "r div 64" 64] div_64_64[of r] by (linarith, simp_all)
    have q: "a < 16" "a = 0 \<longrightarrow> 32 \<le> b" using 3 e by linarith+
    have c2: "a = 13 \<longrightarrow> b \<le> 31" using 3 assms e unfolding scalar_def by linarith
    have "encode_scalar r = [char_of (224 + a), char_of (128 + b), char_of (128 + c)]"
      using 3 by (simp add: encode_scalar_def a_def b_def c_def)
    then show ?thesis using q e c2 by (simp add: cont_def Let_def)
  next
    case 4
    define a where "a = r div 262144"
    define b where "b = r div 4096 mod 64"
    define c where "c = r div 64 mod 64"
    define d where "d = r mod 64"
    have e: "a * 262144 + b * 4096 + c * 64 + d = r" "b < 64" "c < 64" "d < 64"
      unfolding a_def b_def c_def d_def
      using div_mult_mod_eq[of r 64] div_mult_mod_eq[of "r div 64" 64]
        div_mult_mod_eq[of "r div 4096" 64] div_64_64[of r] by (linarith, simp_all)
    have lt: "r < 1114112" using 4 assms by (auto simp: scalar_def)
    have q: "a < 5" "a = 0 \<longrightarrow> 16 \<le> b" using 4 lt e by linarith+
    have c2: "a = 4 \<longrightarrow> b \<le> 15" using lt e by linarith
    have "encode_scalar r = [char_of (240 + a), char_of (128 + b), char_of (128 + c), char_of (128 + d)]"
      using 4 by (simp add: encode_scalar_def a_def b_def c_def d_def)
    then show ?thesis using q e c2 by (simp add: cont_def Let_def)
  qed (simp add: encode_scalar_def)
qed

lemma encode_scalar_not_Nil [simp]: "encode_scalar r \<noteq> []"
  by (simp add: encode_scalar_def)

lemma encode_rune_not_Nil [simp]: "encode_rune r \<noteq> []"
  by (simp add: encode_rune_def)

declare decode_rune.simps(2) [simp del]

text \<open>A string of encoded scalars decodes to those scalars and is valid.\<close>

lemma runes_encode:
  "\<forall>r\<in>set rs. scalar r \<Longrightarrow> runes (concat (map encode_scalar rs)) = rs"
  by (induction rs) (simp_all add: runes.simps[of "[]"] runes.simps[of "encode_scalar _ @ _"] decode_encode_scalar)

lemma not_invalid_encode: "scalar r \<Longrightarrow> \<not> invalid_at (encode_scalar r @ s)"
  unfolding invalid_at_def decode_encode_scalar by (simp add: rune_error_def encode_scalar_def)

lemma utf8_valid_encode:
  "\<forall>r\<in>set rs. scalar r \<Longrightarrow> utf8_valid (concat (map encode_scalar rs))"
  by (induction rs)
    (simp_all add: utf8_valid.simps[of "[]"] utf8_valid.simps[of "encode_scalar _ @ _"] decode_encode_scalar
      not_invalid_encode)

lemma runes_length: "length (runes s) \<le> length s"
proof (induction s rule: runes.induct)
  case (1 s)
  then show ?case using decode_rune_width[of s] by (subst runes.simps) auto
qed

section \<open>Trimming and lower case\<close>

text \<open>\<open>unicode.IsSpace\<close>.\<close>

definition is_space :: "nat \<Rightarrow> bool" where
  "is_space r \<longleftrightarrow> (9 \<le> r \<and> r \<le> 13) \<or> r = 32 \<or> r = 133 \<or> r = 160 \<or> r = 5760
     \<or> (8192 \<le> r \<and> r \<le> 8202) \<or> r = 8232 \<or> r = 8233 \<or> r = 8239 \<or> r = 8287 \<or> r = 12288"

definition rune_start :: "char \<Rightarrow> bool" where
  "rune_start c \<longleftrightarrow> \<not> cont c"

text \<open>\<open>utf8.DecodeLastRune\<close>: the last rune-start byte among the last four opens the rune when the rune
  decoded there ends the string.\<close>

definition last_rune :: "string \<Rightarrow> nat \<times> nat" where
  "last_rune s =
     (if s = [] then (rune_error, 0)
      else if byte (last s) < 128 then (byte (last s), 1)
      else
        (case filter (\<lambda>k. k \<le> length s \<and> rune_start (s ! (length s - k))) [2, 3, 4] of
           [] \<Rightarrow> (rune_error, 1)
         | k # _ \<Rightarrow>
             (if snd (decode_rune (drop (length s - k) s)) = k
              then (fst (decode_rune (drop (length s - k) s)), k) else (rune_error, 1))))"

lemma last_rune_width: "s \<noteq> [] \<Longrightarrow> 0 < snd (last_rune s) \<and> snd (last_rune s) \<le> length s"
  by (cases s) (auto simp: last_rune_def Let_def split: list.splits)

function trim_left :: "string \<Rightarrow> string" where
  "trim_left s =
     (if s = [] then []
      else if is_space (fst (decode_rune s)) then trim_left (drop (snd (decode_rune s)) s)
      else s)"
  by pat_completeness auto
termination
  by (relation "measure length") (auto dest!: decode_rune_width)

declare trim_left.simps [simp del]

function trim_right :: "string \<Rightarrow> string" where
  "trim_right s =
     (if s = [] then []
      else if is_space (fst (last_rune s)) then trim_right (take (length s - snd (last_rune s)) s)
      else s)"
  by pat_completeness auto
termination
  by (relation "measure length") (auto dest!: last_rune_width)

declare trim_right.simps [simp del]

text \<open>\<open>strings.TrimSpace\<close>.\<close>

definition trim_space :: "string \<Rightarrow> string" where
  "trim_space s = trim_right (trim_left s)"

text \<open>\<open>strings.ToLower\<close> on ASCII text, where it works byte by byte.\<close>

definition lower_byte :: "char \<Rightarrow> char" where
  "lower_byte c = (if 65 \<le> byte c \<and> byte c \<le> 90 then char_of (byte c + 32) else c)"

definition lower_ascii :: "string \<Rightarrow> string" where
  "lower_ascii s = map lower_byte s"

lemma decode_rune_ascii: "byte c < 128 \<Longrightarrow> decode_rune (c # s) = (byte c, 1)"
  by (simp add: decode_rune.simps)

lemma trim_left_id:
  "s \<noteq> [] \<Longrightarrow> byte (hd s) < 128 \<Longrightarrow> \<not> is_space (byte (hd s)) \<Longrightarrow> trim_left s = s"
  by (subst trim_left.simps) (cases s; simp add: decode_rune_ascii)

lemma trim_right_id:
  "s \<noteq> [] \<Longrightarrow> byte (last s) < 128 \<Longrightarrow> \<not> is_space (byte (last s)) \<Longrightarrow> trim_right s = s"
  by (subst trim_right.simps) (simp add: last_rune_def)

lemma trim_space_id:
  "s \<noteq> [] \<Longrightarrow> byte (hd s) < 128 \<Longrightarrow> \<not> is_space (byte (hd s)) \<Longrightarrow> byte (last s) < 128 \<Longrightarrow>
   \<not> is_space (byte (last s)) \<Longrightarrow> trim_space s = s"
  by (simp add: trim_space_def trim_left_id trim_right_id)

end
