(* ===== verification/PickleVM.thy ===== *)
theory PickleVM
  imports Utf8
begin

text \<open>
  The pickle machine of \<open>guardcore/picklevm.go\<close>, which decides whether a \<open>GLOBAL\<close> opcode found in a text is
  part of a working pickle: the bytes before it must run, the bytes after it must reach \<open>REDUCE\<close> or
  \<open>BUILD\<close>. The machine only tracks its stack; the memo of the source is never read or written and is
  left out. A regular-expression match is its runes, its start and its first group. An error of the
  source carries a text nobody reads, so a failed step is \<open>None\<close>.
\<close>

unbundle bit_operations_syntax

section \<open>The reader\<close>

definition pickleWorkBudgetBytes :: nat where
  "pickleWorkBudgetBytes = 4096"

text \<open>\<open>pickleWindowFromChars\<close>, on the runes of its text.\<close>

definition pickleWindowFromChars :: "nat list \<Rightarrow> string option" where
  "pickleWindowFromChars rs = (if \<exists>r \<in> set rs. r > 255 then None else Some (map char_of rs))"

record pickleReader =
  pr_data :: string
  pr_pos :: nat

definition pr_read :: "nat \<Rightarrow> pickleReader \<Rightarrow> (string \<times> pickleReader) option" where
  "pr_read n p =
     (if pr_pos p + n > length (pr_data p) then None
      else Some (slice (pr_data p) (pr_pos p) (pr_pos p + n), p\<lparr>pr_pos := pr_pos p + n\<rparr>))"

definition pr_readline :: "pickleReader \<Rightarrow> (string \<times> pickleReader) option" where
  "pr_readline p =
     (case index_byte (drop (pr_pos p) (pr_data p)) (CHR 0x0A) of
        None \<Rightarrow> None
      | Some k \<Rightarrow> Some (slice (pr_data p) (pr_pos p) (pr_pos p + k + 1), p\<lparr>pr_pos := pr_pos p + k + 1\<rparr>))"

definition little_endian :: "string \<Rightarrow> ('a :: len) word" where
  "little_endian bs = foldr (\<lambda>b v. push_bit 8 v OR word_of_nat (byte b)) bs 0"

definition pr_uint :: "nat \<Rightarrow> pickleReader \<Rightarrow> (('a :: len) word \<times> pickleReader) option" where
  "pr_uint n p = map_option (\<lambda>(bs, q). (little_endian bs, q)) (pr_read n p)"

definition pr_u1 :: "pickleReader \<Rightarrow> (8 word \<times> pickleReader) option" where "pr_u1 = pr_uint 1"
definition pr_u2 :: "pickleReader \<Rightarrow> (32 word \<times> pickleReader) option" where "pr_u2 = pr_uint 2"
definition pr_u4 :: "pickleReader \<Rightarrow> (32 word \<times> pickleReader) option" where "pr_u4 = pr_uint 4"
definition pr_u8 :: "pickleReader \<Rightarrow> (64 word \<times> pickleReader) option" where "pr_u8 = pr_uint 8"

text \<open>A length word followed by that many bytes.\<close>

definition pr_counted ::
  "(pickleReader \<Rightarrow> (('a :: len) word \<times> pickleReader) option) \<Rightarrow> pickleReader \<Rightarrow> (string \<times> pickleReader) option" where
  "pr_counted sz p = Option.bind (sz p) (\<lambda>(n, q). pr_read (unat n) q)"

section \<open>Texts and numbers\<close>

function trimRN :: "string \<Rightarrow> string" where
  "trimRN s = (if s \<noteq> [] \<and> (last s = CHR 0x0A \<or> last s = CHR 0x0D) then trimRN (butlast s) else s)"
  by auto
termination by (relation "measure length") auto

declare trimRN.simps [simp del]

fun replace_escapes :: "nat list \<Rightarrow> nat list" where
  "replace_escapes (r # x # rs) =
     (if r = 92 then (if x = 110 then 10 else if x = 116 then 9 else if x = 114 then 13 else x) # replace_escapes rs
      else r # replace_escapes (x # rs))"
| "replace_escapes rs = rs"

definition replaceEscapes :: "string \<Rightarrow> string" where
  "replaceEscapes s = concat (map encode_rune (replace_escapes (runes s)))"

definition pickleUnquoteString :: "string \<Rightarrow> string" where
  "pickleUnquoteString line =
     (let s = trimRN line in
      if length s \<ge> 2 \<and> (hd s = CHR 0x27 \<or> hd s = CHR 0x22) \<and> last s = hd s
      then replaceEscapes (slice s 1 (length s - 1)) else s)"

text \<open>\<open>pickleParseInt\<close>: decimal digits up to the first other character; the 64-bit value wraps around.\<close>

definition pickleParseInt :: "string \<Rightarrow> 64 word" where
  "pickleParseInt line =
     (let s = trimRN line;
          signed = s \<noteq> [] \<and> (hd s = CHR ''-'' \<or> hd s = CHR ''+'');
          ds = takeWhile is_digit (if signed then tl s else s);
          v = foldl (\<lambda>v c. v * 10 + word_of_nat (digit_val c)) 0 ds
      in if signed \<and> hd s = CHR ''-'' then - v else v)"

section \<open>The machine\<close>

datatype pickle_value =
  PMark | PNil | PBool bool | PString string | PBytes string | PInt "64 word" | PInt32 "32 word"
| PFloatZero | PItems "pickle_value list" | PDict | PStruct

text \<open>The stack grows at the end of the list, as the slice of the source does.\<close>

record pickleVM =
  vm_r :: pickleReader
  vm_stack :: "pickle_value list"

definition vm_push :: "pickle_value \<Rightarrow> pickleVM \<Rightarrow> pickleVM" where
  "vm_push v vm = vm\<lparr>vm_stack := vm_stack vm @ [v]\<rparr>"

definition vm_pop :: "pickleVM \<Rightarrow> (pickle_value \<times> pickleVM) option" where
  "vm_pop vm =
     (if vm_stack vm = [] then None
      else Some (last (vm_stack vm), vm\<lparr>vm_stack := butlast (vm_stack vm)\<rparr>))"

text \<open>The items above the topmost mark, or all of them, and what stays.\<close>

definition stackPopToMark :: "pickle_value list \<Rightarrow> pickle_value list \<times> pickle_value list" where
  "stackPopToMark s =
     (let items = rev (takeWhile (\<lambda>v. v \<noteq> PMark) (rev s)) in
      (items, if PMark \<in> set s then take (length s - length items - 1) s else []))"

text \<open>A step ends in an error (\<open>None\<close>) or with the flags \<open>reachedReduceBuild\<close> and \<open>done\<close>.\<close>

type_synonym step_result = "(bool \<times> bool \<times> pickleVM) option"

definition go_on :: "pickleVM \<Rightarrow> step_result" where
  "go_on vm = Some (False, False, vm)"

definition reads :: "(pickleReader \<Rightarrow> ('a \<times> pickleReader) option) \<Rightarrow> ('a \<Rightarrow> pickle_value) \<Rightarrow> pickleVM \<Rightarrow> step_result" where
  "reads f g vm = Option.bind (f (vm_r vm)) (\<lambda>(x, p). go_on (vm_push (g x) (vm\<lparr>vm_r := p\<rparr>)))"

definition skips :: "(pickleReader \<Rightarrow> ('a \<times> pickleReader) option) \<Rightarrow> pickleVM \<Rightarrow> step_result" where
  "skips f vm = Option.bind (f (vm_r vm)) (\<lambda>(x, p). go_on (vm\<lparr>vm_r := p\<rparr>))"

definition two_lines :: "pickleReader \<Rightarrow> (string \<times> pickleReader) option" where
  "two_lines p = Option.bind (pr_readline p) (\<lambda>(x, q). pr_readline q)"

definition pop_mark :: "pickleVM \<Rightarrow> pickleVM" where
  "pop_mark vm = vm\<lparr>vm_stack := snd (stackPopToMark (vm_stack vm))\<rparr>"

definition exec :: "char \<Rightarrow> pickleVM \<Rightarrow> step_result" where
  "exec key vm =
     (if key = CHR 0x80 then skips pr_u1 vm
      else if key = CHR 0x95 then skips pr_u8 vm
      else if key = CHR ''('' then go_on (vm_push PMark vm)
      else if key = CHR ''t'' then go_on (vm_push (PItems (fst (stackPopToMark (vm_stack vm)))) (pop_mark vm))
      else if key = CHR '')'' \<or> key = CHR '']'' then go_on (vm_push (PItems []) vm)
      else if key = CHR ''}'' then go_on (vm_push PDict vm)
      else if key = CHR ''N'' then go_on (vm_push PNil vm)
      else if key = CHR ''T'' then go_on (vm_push (PBool True) vm)
      else if key = CHR ''F'' then go_on (vm_push (PBool False) vm)
      else if key = CHR ''S'' \<or> key = CHR ''V'' then reads pr_readline (PString \<circ> pickleUnquoteString) vm
      else if key = CHR ''X'' then reads (pr_counted pr_u4) PString vm
      else if key = CHR ''U'' then reads (pr_counted pr_u1) PString vm
      else if key = CHR ''C'' then reads (pr_counted pr_u1) PBytes vm
      else if key = CHR ''B'' then reads (pr_counted pr_u4) PBytes vm
      else if key = CHR ''I'' \<or> key = CHR ''L'' then reads pr_readline (PInt \<circ> pickleParseInt) vm
      else if key = CHR ''i'' then reads pr_u4 PInt32 vm
      else if key = CHR ''K'' then reads pr_u1 (PInt \<circ> ucast) vm
      else if key = CHR ''M'' then reads pr_u2 (PInt \<circ> ucast) vm
      else if key = CHR ''G'' then reads pr_u8 (\<lambda>_. PFloatZero) vm
      else if key = CHR ''c'' then reads two_lines (\<lambda>_. PString ''global'') vm
      else if key = CHR ''R'' \<or> key = CHR ''b'' then Some (True, True, vm)
      else if key = CHR ''a'' then Option.bind (vm_pop vm) (\<lambda>(_, vm1). go_on vm1)
      else if key = CHR ''e'' \<or> key = CHR ''u'' \<or> key = CHR ''s'' then go_on (pop_mark vm)
      else if key = CHR ''p'' then skips pr_readline vm
      else if key = CHR ''g'' \<or> key = CHR ''h'' then reads pr_readline (\<lambda>_. PNil) vm
      else if key = CHR ''q'' then reads pr_u1 (\<lambda>_. PNil) vm
      else if key = CHR ''r'' then reads pr_u4 (\<lambda>_. PNil) vm
      else if key = CHR ''.'' then Some (False, True, vm)
      else if key = CHR 0x85 \<or> key = CHR 0x86 \<or> key = CHR 0x87 then go_on (vm_push (PItems []) (pop_mark vm))
      else if key = CHR 0x8C \<or> key = CHR 0x94 then Option.bind (vm_pop vm) (\<lambda>(_, vm1). go_on vm1)
      else None)"

definition vm_step :: "pickleVM \<Rightarrow> step_result" where
  "vm_step vm = Option.bind (pr_read 1 (vm_r vm)) (\<lambda>(b, p). exec (hd b) (vm\<lparr>vm_r := p\<rparr>))"

section \<open>Every step moves forward\<close>

definition forward :: "pickleReader \<Rightarrow> pickleReader \<Rightarrow> bool" where
  "forward p q \<longleftrightarrow> pr_data q = pr_data p \<and> pr_pos p \<le> pr_pos q
     \<and> (pr_pos p \<le> length (pr_data p) \<longrightarrow> pr_pos q \<le> length (pr_data p))"

named_theorems forwards

lemma forward_refl [simp]: "forward p p"
  by (simp add: forward_def)

lemma forward_trans: "forward p q \<Longrightarrow> forward q r \<Longrightarrow> forward p r"
  by (simp add: forward_def)

lemma pr_read_forward [forwards]: "pr_read n p = Some (x, q) \<Longrightarrow> forward p q"
  by (auto simp: pr_read_def forward_def split: if_splits)

lemma pr_readline_forward [forwards]: "pr_readline p = Some (x, q) \<Longrightarrow> forward p q"
  by (auto simp: pr_readline_def forward_def split: option.splits dest: index_byte_less)

lemma pr_uint_forward: "pr_uint n p = Some (x, q) \<Longrightarrow> forward p q"
  by (auto simp: pr_uint_def dest: pr_read_forward)

lemma pr_u_forward [forwards]:
  "pr_u1 p = Some (x1, q) \<Longrightarrow> forward p q" "pr_u2 p = Some (x2, q) \<Longrightarrow> forward p q"
  "pr_u4 p = Some (x4, q) \<Longrightarrow> forward p q" "pr_u8 p = Some (x8, q) \<Longrightarrow> forward p q"
  by (auto simp: pr_u1_def pr_u2_def pr_u4_def pr_u8_def dest: pr_uint_forward)

lemma pr_counted_forward:
  assumes "\<And>x q. sz p = Some (x, q) \<Longrightarrow> forward p q" "pr_counted sz p = Some (y, r)"
  shows "forward p r"
  using assms by (auto simp: pr_counted_def Option.bind_eq_Some_conv dest: pr_read_forward intro: forward_trans)

lemma two_lines_forward [forwards]: "two_lines p = Some (x, q) \<Longrightarrow> forward p q"
  by (auto simp: two_lines_def Option.bind_eq_Some_conv dest!: pr_readline_forward intro: forward_trans)

definition moves :: "pickleReader \<Rightarrow> step_result \<Rightarrow> bool" where
  "moves p res \<longleftrightarrow> (case res of None \<Rightarrow> True | Some (a, b, vm) \<Rightarrow> forward p (vm_r vm))"

lemma moves_simps [simp]:
  "moves p None" "moves (vm_r vm) (Some (a, b, vm))" "moves p (go_on vm) \<longleftrightarrow> forward p (vm_r vm)"
  "vm_r (vm_push v vm) = vm_r vm" "vm_r (pop_mark vm) = vm_r vm"
  by (simp_all add: moves_def go_on_def vm_push_def pop_mark_def)

lemma moves_pop [simp]: "moves (vm_r vm) (Option.bind (vm_pop vm) (\<lambda>(_, vm1). go_on vm1))"
  by (simp add: vm_pop_def)

lemma moves_reads: "(\<And>x q. f (vm_r vm) = Some (x, q) \<Longrightarrow> forward (vm_r vm) q) \<Longrightarrow> moves (vm_r vm) (reads f g vm)"
  by (cases "f (vm_r vm)") (auto simp: reads_def)

lemma moves_skips: "(\<And>x q. f (vm_r vm) = Some (x, q) \<Longrightarrow> forward (vm_r vm) q) \<Longrightarrow> moves (vm_r vm) (skips f vm)"
  by (cases "f (vm_r vm)") (auto simp: skips_def)

lemma counted_forwards [forwards]:
  "pr_counted pr_u1 p = Some (x, q) \<Longrightarrow> forward p q" "pr_counted pr_u4 p = Some (x, q) \<Longrightarrow> forward p q"
  by (auto intro: pr_counted_forward pr_u_forward)

lemmas moves_words [simp] =
  moves_reads[OF pr_u_forward(1)] moves_reads[OF pr_u_forward(2)] moves_reads[OF pr_u_forward(3)]
  moves_reads[OF pr_u_forward(4)] moves_skips[OF pr_u_forward(1)] moves_skips[OF pr_u_forward(4)]
  moves_reads[OF pr_readline_forward] moves_skips[OF pr_readline_forward] moves_reads[OF two_lines_forward]
  moves_reads[OF counted_forwards(1)] moves_reads[OF counted_forwards(2)]

lemma exec_forward: "moves (vm_r vm) (exec key vm)"
  by (simp add: exec_def)

lemma step_forward:
  assumes "vm_step vm = Some (a, b, vm1)"
  shows "pr_data (vm_r vm1) = pr_data (vm_r vm)" "pr_pos (vm_r vm) < pr_pos (vm_r vm1)"
    "pr_pos (vm_r vm1) \<le> length (pr_data (vm_r vm))"
proof -
  obtain bs p where r: "pr_read 1 (vm_r vm) = Some (bs, p)" "exec (hd bs) (vm\<lparr>vm_r := p\<rparr>) = Some (a, b, vm1)"
    using assms by (auto simp: vm_step_def Option.bind_eq_Some_conv)
  have "forward p (vm_r vm1)" using exec_forward[of "vm\<lparr>vm_r := p\<rparr>" "hd bs"] r(2) by (simp add: moves_def)
  moreover have "pr_pos p = pr_pos (vm_r vm) + 1" "pr_data p = pr_data (vm_r vm)"
    "pr_pos p \<le> length (pr_data p)"
    using r(1) by (auto simp: pr_read_def split: if_splits)
  ultimately show "pr_data (vm_r vm1) = pr_data (vm_r vm)" "pr_pos (vm_r vm) < pr_pos (vm_r vm1)"
    "pr_pos (vm_r vm1) \<le> length (pr_data (vm_r vm))"
    by (auto simp: forward_def)
qed

lemma step_less:
  assumes "vm_step vm = Some (a, b, vm1)"
  shows "length (pr_data (vm_r vm1)) - pr_pos (vm_r vm1) < length (pr_data (vm_r vm)) - pr_pos (vm_r vm)"
  using step_forward[OF assms] by simp

section \<open>The walks\<close>

function walk_prefix :: "bool \<Rightarrow> pickleVM \<Rightarrow> bool" where
  "walk_prefix isComplete vm =
     (if pr_pos (vm_r vm) \<ge> length (pr_data (vm_r vm)) then True
      else
        (case vm_step vm of
           None \<Rightarrow> \<not> isComplete
         | Some (_, stop, vm1) \<Rightarrow> if stop then True else walk_prefix isComplete vm1))"
  by auto
termination
  by (relation "measure (\<lambda>(c, vm). length (pr_data (vm_r vm)) - pr_pos (vm_r vm))")
    (auto intro: step_less)

function walk_suffix :: "bool \<Rightarrow> pickleVM \<Rightarrow> bool" where
  "walk_suffix isComplete vm =
     (if pr_pos (vm_r vm) \<ge> length (pr_data (vm_r vm)) then \<not> isComplete
      else
        (case vm_step vm of
           None \<Rightarrow> \<not> isComplete
         | Some (reached, stop, vm1) \<Rightarrow>
             if reached then True else if stop then \<not> isComplete else walk_suffix isComplete vm1))"
  by auto
termination
  by (relation "measure (\<lambda>(c, vm). length (pr_data (vm_r vm)) - pr_pos (vm_r vm))")
    (auto intro: step_less)

declare walk_prefix.simps [simp del] walk_suffix.simps [simp del]

definition pickleWalkPrefix :: "string \<Rightarrow> bool \<Rightarrow> bool" where
  "pickleWalkPrefix window isComplete =
     walk_prefix isComplete \<lparr>vm_r = \<lparr>pr_data = window, pr_pos = 0\<rparr>, vm_stack = []\<rparr>"

definition pickleWalkSuffix :: "string \<Rightarrow> bool \<Rightarrow> bool" where
  "pickleWalkSuffix window isComplete =
     walk_suffix isComplete \<lparr>vm_r = \<lparr>pr_data = window, pr_pos = 0\<rparr>, vm_stack = [PStruct]\<rparr>"

definition budgetSlice :: "nat list \<Rightarrow> nat \<Rightarrow> nat list" where
  "budgetSlice rs budget = (if length rs > budget then take budget rs else rs)"

record rmatch =
  rm_runes :: "nat list"
  rm_start :: nat
  rm_group1 :: "nat list"

definition prefix_runs :: "nat list \<Rightarrow> bool" where
  "prefix_runs before \<longleftrightarrow>
     before = [] \<or> last before = 10
     \<or> (case pickleWindowFromChars (budgetSlice before pickleWorkBudgetBytes) of
          None \<Rightarrow> False
        | Some window \<Rightarrow> pickleWalkPrefix window (length before \<le> pickleWorkBudgetBytes))"

definition pickleGlobalCandidateIsInjection :: "rmatch \<Rightarrow> bool" where
  "pickleGlobalCandidateIsInjection m =
     (let after = drop (rm_start m + length (rm_group1 m)) (rm_runes m) in
      if \<not> prefix_runs (take (rm_start m) (rm_runes m)) then False
      else
        (case pickleWindowFromChars (budgetSlice after pickleWorkBudgetBytes) of
           None \<Rightarrow> False
         | Some window \<Rightarrow> pickleWalkSuffix window (length after \<le> pickleWorkBudgetBytes)))"

section \<open>What the walks decide\<close>

definition at_end :: "pickleVM \<Rightarrow> bool" where
  "at_end vm \<longleftrightarrow> pr_pos (vm_r vm) \<ge> length (pr_data (vm_r vm))"

text \<open>Runs of steps that neither stop nor fail.\<close>

inductive vm_runs :: "pickleVM \<Rightarrow> pickleVM \<Rightarrow> bool" where
  here: "vm_runs vm vm"
| more: "\<not> at_end vm \<Longrightarrow> vm_step vm = Some (False, False, vm1) \<Longrightarrow> vm_runs vm1 vm2 \<Longrightarrow> vm_runs vm vm2"

definition reaches_reduce :: "pickleVM \<Rightarrow> bool" where
  "reaches_reduce vm \<longleftrightarrow> (\<exists>vm1 stop vm2. vm_runs vm vm1 \<and> \<not> at_end vm1 \<and> vm_step vm1 = Some (True, stop, vm2))"

definition breaks :: "pickleVM \<Rightarrow> bool" where
  "breaks vm \<longleftrightarrow> (\<exists>vm1. vm_runs vm vm1 \<and> \<not> at_end vm1 \<and> vm_step vm1 = None)"

inductive_simps vm_runs_iff: "vm_runs vm vm1"

lemma runs_step: "\<not> at_end vm \<Longrightarrow> vm_step vm = Some (False, False, vm1) \<Longrightarrow> vm_runs vm v \<longleftrightarrow> v = vm \<or> vm_runs vm1 v"
  by (subst vm_runs_iff) auto

lemma runs_stop: "at_end vm \<or> vm_step vm = None \<or> vm_step vm = Some (r, True, vm1) \<Longrightarrow> vm_runs vm v \<longleftrightarrow> v = vm"
  by (subst vm_runs_iff) auto

lemma exec_stops: "exec key vm = Some (reached, stop, vm1) \<Longrightarrow> reached \<Longrightarrow> stop"
  by (auto simp: exec_def go_on_def reads_def skips_def vm_pop_def Option.bind_eq_Some_conv split: if_splits)

lemma reduce_step:
  assumes "\<not> at_end vm" "vm_step vm = Some (False, False, vm1)"
  shows "reaches_reduce vm \<longleftrightarrow> reaches_reduce vm1" "breaks vm \<longleftrightarrow> breaks vm1"
  using assms by (auto simp: reaches_reduce_def breaks_def runs_step[OF assms])

lemma reduce_here:
  assumes "at_end vm \<or> vm_step vm = None \<or> vm_step vm = Some (reached, True, vm1)"
  shows "reaches_reduce vm \<longleftrightarrow> \<not> at_end vm \<and> vm_step vm \<noteq> None \<and> (\<exists>s v. vm_step vm = Some (True, s, v))"
    and "breaks vm \<longleftrightarrow> \<not> at_end vm \<and> vm_step vm = None"
  by (auto simp: reaches_reduce_def breaks_def runs_stop[OF assms])

lemma step_flags: "vm_step vm = Some (True, stop, vm1) \<Longrightarrow> stop"
  by (auto simp: vm_step_def Option.bind_eq_Some_conv dest: exec_stops)

lemma walk_suffix_iff: "walk_suffix isComplete vm \<longleftrightarrow> \<not> isComplete \<or> reaches_reduce vm"
proof (induction isComplete vm rule: walk_suffix.induct)
  case (1 isComplete vm)
  show ?case
  proof (cases "at_end vm \<or> vm_step vm = None \<or> (\<exists>r v. vm_step vm = Some (r, True, v))")
    case True
    then obtain r v where stop: "at_end vm \<or> vm_step vm = None \<or> vm_step vm = Some (r, True, v)" by blast
    show ?thesis
      unfolding walk_suffix.simps[of isComplete vm] reduce_here(1)[OF stop] at_end_def[symmetric]
      by (cases "at_end vm"; cases "vm_step vm") (use stop in auto)
  next
    case False
    then obtain vm1 where s: "\<not> at_end vm" "vm_step vm = Some (False, False, vm1)"
      using step_flags by (cases "vm_step vm") (auto, (metis (full_types))+)
    have "walk_suffix isComplete vm = walk_suffix isComplete vm1"
      by (subst walk_suffix.simps) (simp add: s(2) s(1)[unfolded at_end_def])
    moreover have "walk_suffix isComplete vm1 \<longleftrightarrow> \<not> isComplete \<or> reaches_reduce vm1"
      using 1 s by (auto simp: at_end_def)
    ultimately show ?thesis using reduce_step(1)[OF s] by simp
  qed
qed

lemma walk_prefix_iff: "walk_prefix isComplete vm \<longleftrightarrow> \<not> isComplete \<or> \<not> breaks vm"
proof (induction isComplete vm rule: walk_prefix.induct)
  case (1 isComplete vm)
  show ?case
  proof (cases "at_end vm \<or> vm_step vm = None \<or> (\<exists>r v. vm_step vm = Some (r, True, v))")
    case True
    then obtain r v where stop: "at_end vm \<or> vm_step vm = None \<or> vm_step vm = Some (r, True, v)" by blast
    show ?thesis
      unfolding walk_prefix.simps[of isComplete vm] reduce_here(2)[OF stop] at_end_def[symmetric]
      by (cases "at_end vm"; cases "vm_step vm") (use stop in auto)
  next
    case False
    then obtain vm1 where s: "\<not> at_end vm" "vm_step vm = Some (False, False, vm1)"
      using step_flags by (cases "vm_step vm") (auto, (metis (full_types))+)
    have "walk_prefix isComplete vm = walk_prefix isComplete vm1"
      by (subst walk_prefix.simps) (simp add: s(2) s(1)[unfolded at_end_def])
    moreover have "walk_prefix isComplete vm1 \<longleftrightarrow> \<not> isComplete \<or> \<not> breaks vm1"
      using 1 s by (auto simp: at_end_def)
    ultimately show ?thesis using reduce_step(2)[OF s] by simp
  qed
qed

definition start_vm :: "string \<Rightarrow> pickle_value list \<Rightarrow> pickleVM" where
  "start_vm window stack = \<lparr>vm_r = \<lparr>pr_data = window, pr_pos = 0\<rparr>, vm_stack = stack\<rparr>"

text \<open>Every step of the pickle machine that does not fail reads at least one byte and stays inside the
  window, so a walk over a window of n bytes ends after at most n steps.\<close>

theorem pickle_step_advances:
  assumes "vm_step vm = Some (reached, stop, vm1)"
  shows "pr_data (vm_r vm1) = pr_data (vm_r vm) \<and> pr_pos (vm_r vm) < pr_pos (vm_r vm1)
    \<and> pr_pos (vm_r vm1) \<le> length (pr_data (vm_r vm))"
  using step_forward[OF assms] by simp

theorem pickle_step_advances_witness:
  "pr_pos (vm_r (vm_push PNil ((start_vm ''N.'' [])\<lparr>vm_r := \<lparr>pr_data = ''N.'', pr_pos = 1\<rparr>\<rparr>))) \<le> 2"
proof -
  have "vm_step (start_vm ''N.'' []) =
      Some (False, False, vm_push PNil ((start_vm ''N.'' [])\<lparr>vm_r := \<lparr>pr_data = ''N.'', pr_pos = 1\<rparr>\<rparr>))"
    by (simp add: vm_step_def start_vm_def pr_read_def slice_def exec_def go_on_def)
  from pickle_step_advances[OF this] show ?thesis by (simp add: start_vm_def)
qed


end
