(* ===== verification/NetAddr.thy ===== *)
theory NetAddr
  imports Prelude
begin

text \<open>
  The part of Go's \<open>net/netip\<close> the engine uses (\<open>ParseAddr\<close>, \<open>Addr.String\<close>, \<open>Unmap\<close>,
  \<open>IsLoopback\<close>, \<open>ParsePrefix\<close>, \<open>Masked\<close>, \<open>Contains\<close>, \<open>Overlaps\<close>), followed by the
  address helpers of \<open>guardcore/canonicalip.go\<close> and \<open>guardcore/config.go\<close>. An IPv4 address is
  its four octets and an IPv6 address its eight 16-bit groups and its zone (empty when there is
  none); \<open>addr_ok\<close> states these sizes. The locale \<open>addr_syntax\<close> is the textual contract (printing
  then parsing returns the address) under which canonical texts are stable.
\<close>

section \<open>Addresses and their text\<close>

datatype addr = V4 "nat list" | V6 "nat list" string

fun addr_ok :: "addr \<Rightarrow> bool" where
  "addr_ok (V4 os) \<longleftrightarrow> length os = 4 \<and> (\<forall>x\<in>set os. x < 256)"
| "addr_ok (V6 gs z) \<longleftrightarrow> length gs = 8 \<and> (\<forall>x\<in>set gs. x < 65536)"

text \<open>\<open>parseIPv4Fields\<close>: \<open>fresh\<close> holds at the start and right after a dot.\<close>

fun v4_loop :: "string \<Rightarrow> nat list \<Rightarrow> nat \<Rightarrow> nat \<Rightarrow> bool \<Rightarrow> nat list option" where
  "v4_loop [] fields val digLen fresh =
     (if length fields < 3 then None else Some (fields @ [val]))"
| "v4_loop (c # cs) fields val digLen fresh =
     (if is_digit c then
        (if digLen = 1 \<and> val = 0 then None
         else if val * 10 + digit_val c > 255 then None
         else v4_loop cs fields (val * 10 + digit_val c) (Suc digLen) False)
      else if c = CHR ''.'' then
        (if fresh \<or> cs = [] then None
         else if length fields = 3 then None
         else v4_loop cs (fields @ [val]) 0 0 True)
      else None)"

definition parse_v4_fields :: "string \<Rightarrow> nat list option" where
  "parse_v4_fields s = v4_loop s [] 0 0 True"

definition hex_digit :: "char \<Rightarrow> nat option" where
  "hex_digit c =
     (if is_digit c then Some (byte c - 48)
      else if 97 \<le> byte c \<and> byte c \<le> 102 then Some (byte c - 87)
      else if 65 \<le> byte c \<and> byte c \<le> 70 then Some (byte c - 55)
      else None)"

text \<open>The hexadecimal group reader: number of digits, value, rest; \<open>None\<close> for more than four
  digits or a value of more than 16 bits.\<close>

fun hex_run :: "nat \<Rightarrow> nat \<Rightarrow> string \<Rightarrow> (nat \<times> nat \<times> string) option" where
  "hex_run off acc [] = Some (off, acc, [])"
| "hex_run off acc (c # cs) =
     (case hex_digit c of
        None \<Rightarrow> Some (off, acc, c # cs)
      | Some d \<Rightarrow>
          (if off > 3 then None
           else if acc * 16 + d > 65535 then None
           else hex_run (Suc off) (acc * 16 + d) cs))"

text \<open>The group loop of \<open>parseIPv6\<close>: groups read so far, position of the ellipsis, input left.\<close>

function v6_loop ::
  "string \<Rightarrow> nat list \<Rightarrow> nat option \<Rightarrow> (nat list \<times> nat option \<times> string) option" where
  "v6_loop s gs ell =
     (if length gs < 8 then
        (case hex_run 0 0 s of
           None \<Rightarrow> None
         | Some (off, acc, rest) \<Rightarrow>
             (if off = 0 then None
              else if rest \<noteq> [] \<and> hd rest = CHR ''.'' then
                (if ell = None \<and> length gs \<noteq> 6 then None
                 else if length gs + 2 > 8 then None
                 else (case parse_v4_fields s of
                         Some [a, b, c, d] \<Rightarrow> Some (gs @ [a * 256 + b, c * 256 + d], ell, [])
                       | _ \<Rightarrow> None))
              else if rest = [] then Some (gs @ [acc], ell, [])
              else if hd rest \<noteq> CHR '':'' then None
              else if tl rest = [] then None
              else if hd (tl rest) = CHR '':'' then
                (if ell \<noteq> None then None
                 else if tl (tl rest) = [] then Some (gs @ [acc], Some (length gs + 1), [])
                 else v6_loop (tl (tl rest)) (gs @ [acc]) (Some (length gs + 1)))
              else v6_loop (tl rest) (gs @ [acc]) ell))
      else Some (gs, ell, s))"
  by pat_completeness auto
termination
  by (relation "measure (\<lambda>(s, gs, ell). 8 - length gs)") auto

declare v6_loop.simps [simp del]

definition v6_finish :: "nat list \<times> nat option \<times> string \<Rightarrow> nat list option" where
  "v6_finish r = (case r of (gs, ell, s) \<Rightarrow>
     if s \<noteq> [] then None
     else if length gs < 8 then
       (case ell of None \<Rightarrow> None
        | Some e \<Rightarrow> Some (take e gs @ replicate (8 - length gs) 0 @ drop e gs))
     else if ell \<noteq> None then None
     else Some gs)"

definition parse_v6_body :: "string \<Rightarrow> nat list option" where
  "parse_v6_body s =
     (if take 2 s = ''::'' then
        (if drop 2 s = [] then Some (replicate 8 0)
         else Option.bind (v6_loop (drop 2 s) [] (Some 0)) v6_finish)
      else Option.bind (v6_loop s [] None) v6_finish)"

definition parse_v6 :: "string \<Rightarrow> addr option" where
  "parse_v6 s =
     (case index_byte s CHR ''%'' of
        None \<Rightarrow> map_option (\<lambda>gs. V6 gs []) (parse_v6_body s)
      | Some i \<Rightarrow>
          (if drop (Suc i) s = [] then None
           else map_option (\<lambda>gs. V6 gs (drop (Suc i) s)) (parse_v6_body (take i s))))"

text \<open>\<open>netip.ParseAddr\<close>: the first of \<open>.\<close>, \<open>:\<close> and \<open>%\<close> decides the family.\<close>

fun addr_family :: "string \<Rightarrow> char option" where
  "addr_family [] = None"
| "addr_family (c # cs) =
     (if c = CHR ''.'' \<or> c = CHR '':'' \<or> c = CHR ''%'' then Some c else addr_family cs)"

definition ParseAddr :: "string \<Rightarrow> addr option" where
  "ParseAddr s =
     (case addr_family s of
        Some c \<Rightarrow>
          (if c = CHR ''.'' then map_option V4 (parse_v4_fields s)
           else if c = CHR '':'' then parse_v6 s
           else None)
      | None \<Rightarrow> None)"

definition dec_char :: "nat \<Rightarrow> char" where
  "dec_char d = char_of (48 + d)"

fun dec :: "nat \<Rightarrow> string" where
  "dec n = (if n < 10 then [dec_char n] else dec (n div 10) @ [dec_char (n mod 10)])"

declare dec.simps [simp del]

definition hex_char :: "nat \<Rightarrow> char" where
  "hex_char d = (if d < 10 then char_of (48 + d) else char_of (87 + d))"

fun hex :: "nat \<Rightarrow> string" where
  "hex n = (if n < 16 then [hex_char n] else hex (n div 16) @ [hex_char (n mod 16)])"

declare hex.simps [simp del]

definition v4_text :: "nat list \<Rightarrow> string" where
  "v4_text os = join_with ''.'' (map dec os)"

text \<open>The longest run of zero groups, leftmost first: start and end.\<close>

definition zero_run_end :: "nat list \<Rightarrow> nat \<Rightarrow> nat" where
  "zero_run_end gs i = i + length (takeWhile (\<lambda>g. g = 0) (drop i gs))"

fun best_zero_run :: "nat list \<Rightarrow> nat list \<Rightarrow> (nat \<times> nat) option \<Rightarrow> (nat \<times> nat) option" where
  "best_zero_run gs [] best = best"
| "best_zero_run gs (i # is) best =
     (let j = zero_run_end gs i; l = j - i;
          cur = (case best of None \<Rightarrow> 0 | Some (a, b) \<Rightarrow> b - a)
      in best_zero_run gs is (if l \<ge> 2 \<and> l > cur then Some (i, j) else best))"

definition v6_text :: "nat list \<Rightarrow> string" where
  "v6_text gs =
     (case best_zero_run gs [0..<8] None of
        None \<Rightarrow> join_with '':'' (map hex gs)
      | Some (a, b) \<Rightarrow>
          join_with '':'' (map hex (take a gs)) @ ''::'' @ join_with '':'' (map hex (drop b gs)))"

definition is4in6 :: "addr \<Rightarrow> bool" where
  "is4in6 a = (case a of V4 os \<Rightarrow> False | V6 gs z \<Rightarrow> take 6 gs = [0, 0, 0, 0, 0, 65535])"

text \<open>\<open>Addr.Unmap\<close>: the IPv4 address of an IPv4-mapped one, zone dropped.\<close>

definition unmap :: "addr \<Rightarrow> addr" where
  "unmap a =
     (case a of
        V4 os \<Rightarrow> a
      | V6 gs z \<Rightarrow>
          (if is4in6 a
           then V4 [gs ! 6 div 256, gs ! 6 mod 256, gs ! 7 div 256, gs ! 7 mod 256]
           else a))"

definition addr_zone :: "addr \<Rightarrow> string" where
  "addr_zone a = (case a of V4 os \<Rightarrow> [] | V6 gs z \<Rightarrow> z)"

definition zone_suffix :: "string \<Rightarrow> string" where
  "zone_suffix z = (if z = [] then [] else CHR ''%'' # z)"

definition addr_String :: "addr \<Rightarrow> string" where
  "addr_String a =
     (case a of
        V4 os \<Rightarrow> v4_text os
      | V6 gs z \<Rightarrow>
          (if is4in6 a
           then ''::ffff:'' @ (case unmap a of V4 os \<Rightarrow> v4_text os | V6 gs' z' \<Rightarrow> []) @ zone_suffix z
           else v6_text gs @ zone_suffix z))"

definition addr_loopback :: "addr \<Rightarrow> bool" where
  "addr_loopback a =
     (case unmap a of
        V4 os \<Rightarrow> hd os = 127
      | V6 gs z \<Rightarrow> gs = [0, 0, 0, 0, 0, 0, 0, 1])"

definition addr_private :: "addr \<Rightarrow> bool" where
  "addr_private a =
     (case unmap a of
        V4 os \<Rightarrow> hd os = 10 \<or> (hd os = 172 \<and> os ! 1 div 16 = 1) \<or> (hd os = 192 \<and> os ! 1 = 168)
      | V6 gs z \<Rightarrow> hd gs div 512 = 126)"

definition addr_link_local :: "addr \<Rightarrow> bool" where
  "addr_link_local a =
     (case unmap a of
        V4 os \<Rightarrow> hd os = 169 \<and> os ! 1 = 254
      | V6 gs z \<Rightarrow> hd gs div 64 = 1018)"

section \<open>Prefixes\<close>

type_synonym prefix_t = "addr \<times> nat"

definition bitlen :: "addr \<Rightarrow> nat" where
  "bitlen a = (case a of V4 os \<Rightarrow> 32 | V6 gs z \<Rightarrow> 128)"

definition is4 :: "addr \<Rightarrow> bool" where
  "is4 a = (case a of V4 os \<Rightarrow> True | V6 gs z \<Rightarrow> False)"

text \<open>Keeping the top \<open>bits\<close> bits of a field sequence of width \<open>w\<close> each.\<close>

fun mask_fields :: "nat \<Rightarrow> nat \<Rightarrow> nat list \<Rightarrow> nat list" where
  "mask_fields w bits [] = []"
| "mask_fields w bits (x # xs) =
     (if bits \<ge> w then x # mask_fields w (bits - w) xs
      else (x div 2 ^ (w - bits)) * 2 ^ (w - bits) # map (\<lambda>_. 0) xs)"

definition mask_addr :: "nat \<Rightarrow> addr \<Rightarrow> addr" where
  "mask_addr bits a =
     (case a of V4 os \<Rightarrow> V4 (mask_fields 8 bits os) | V6 gs z \<Rightarrow> V6 (mask_fields 16 bits gs) [])"

definition PrefixFrom :: "addr \<Rightarrow> nat \<Rightarrow> prefix_t" where
  "PrefixFrom a bits = ((case a of V4 os \<Rightarrow> V4 os | V6 gs z \<Rightarrow> V6 gs []), bits)"

definition Masked :: "prefix_t \<Rightarrow> prefix_t" where
  "Masked p = (mask_addr (snd p) (fst p), snd p)"

definition prefix_contains :: "prefix_t \<Rightarrow> addr \<Rightarrow> bool" where
  "prefix_contains p a \<longleftrightarrow>
     addr_zone a = [] \<and> bitlen (fst p) = bitlen a \<and> mask_addr (snd p) (fst p) = mask_addr (snd p) a"

definition prefix_overlaps :: "prefix_t \<Rightarrow> prefix_t \<Rightarrow> bool" where
  "prefix_overlaps p q \<longleftrightarrow>
     p = q \<or>
     (is4 (fst p) = is4 (fst q) \<and>
      (min (snd p) (snd q) = 0 \<or>
       mask_addr (min (snd p) (snd q)) (fst p) = mask_addr (min (snd p) (snd q)) (fst q)))"

fun dec_value :: "nat \<Rightarrow> string \<Rightarrow> nat option" where
  "dec_value acc [] = Some acc"
| "dec_value acc (c # cs) = (if is_digit c then dec_value (acc * 10 + digit_val c) cs else None)"

definition last_index_byte :: "'a list \<Rightarrow> 'a \<Rightarrow> nat option" where
  "last_index_byte s c = map_option (\<lambda>k. length s - Suc k) (index_byte (rev s) c)"

text \<open>\<open>netip.ParsePrefix\<close>.\<close>

definition ParsePrefix :: "string \<Rightarrow> prefix_t option" where
  "ParsePrefix s =
     (case last_index_byte s CHR ''/'' of
        None \<Rightarrow> None
      | Some i \<Rightarrow>
          (case ParseAddr (take i s) of
             None \<Rightarrow> None
           | Some a \<Rightarrow>
               (let bs = drop (Suc i) s in
                if addr_zone a \<noteq> [] then None
                else if bs = [] \<or> (length bs > 1 \<and> (hd bs = CHR ''0'' \<or> \<not> is_digit (hd bs))) then None
                else (case dec_value 0 bs of
                        None \<Rightarrow> None
                      | Some n \<Rightarrow> if n > bitlen a then None else Some (PrefixFrom a n)))))"

definition prefix_String :: "prefix_t \<Rightarrow> string" where
  "prefix_String p = addr_String (fst p) @ ''/'' @ dec (snd p)"

section \<open>Address helpers of the engine\<close>

definition stripIPBrackets :: "string \<Rightarrow> string" where
  "stripIPBrackets value =
     (if has_prefix value ''['' \<and> has_suffix value '']''
      then slice value 1 (length value - 1)
      else value)"

definition canonicalIPText :: "addr \<Rightarrow> string" where
  "canonicalIPText a =
     (if is4in6 a then
        (if addr_zone a = [] then addr_String (unmap a)
         else ''::ffff:'' @ addr_String (unmap a) @ ''%'' @ addr_zone a)
      else addr_String a)"

definition CanonicalizeIP :: "string \<Rightarrow> string" where
  "CanonicalizeIP value =
     (case ParseAddr (stripIPBrackets value) of
        None \<Rightarrow> value
      | Some a \<Rightarrow> canonicalIPText a)"

definition canonicalizeIPString :: "string \<Rightarrow> string" where
  "canonicalizeIPString value =
     (case ParseAddr value of None \<Rightarrow> value | Some a \<Rightarrow> addr_String a)"

text \<open>One list entry of \<open>ipMatchesList\<close> against a parsed address.\<close>

definition ip_entry_matches :: "addr \<Rightarrow> string \<Rightarrow> bool" where
  "ip_entry_matches a entry =
     (if has_suffix entry ''/0'' \<or> CHR ''/'' \<in> set entry then
        (case ParsePrefix entry of
           None \<Rightarrow> False
         | Some p \<Rightarrow> prefix_contains p (unmap a) \<or> prefix_contains p a)
      else canonicalizeIPString entry = addr_String a)"

definition ipMatchesList :: "string \<Rightarrow> string list \<Rightarrow> bool" where
  "ipMatchesList ip entries =
     (case ParseAddr ip of
        None \<Rightarrow> False
      | Some a \<Rightarrow> list_ex (ip_entry_matches a) entries)"

section \<open>Digits\<close>

lemma dec_char_digit [simp]:
  assumes "d < 10"
  shows "is_digit (dec_char d)" "digit_val (dec_char d) = d" "dec_char d \<noteq> CHR ''.''"
    "dec_char d \<noteq> CHR '':''" "dec_char d \<noteq> CHR ''%''" "hex_digit (dec_char d) = Some d"
proof -
  have b: "byte (dec_char d) = 48 + d" using assms by (simp add: dec_char_def)
  then show "is_digit (dec_char d)" "digit_val (dec_char d) = d"
    "hex_digit (dec_char d) = Some d"
    using assms by (simp_all add: is_digit_def digit_val_def hex_digit_def)
  show "dec_char d \<noteq> CHR ''.''" "dec_char d \<noteq> CHR '':''" "dec_char d \<noteq> CHR ''%''"
    using b assms by force+
qed

lemma hex_char_digit [simp]:
  assumes "d < 16"
  shows "hex_digit (hex_char d) = Some d"
proof -
  have "byte (hex_char d) = (if d < 10 then 48 + d else 87 + d)"
    using assms by (simp add: hex_char_def)
  then show ?thesis using assms by (auto simp: hex_digit_def is_digit_def)
qed

lemma hex_digit_sep [simp]:
  "hex_digit CHR '':'' = None" "hex_digit CHR ''.'' = None" "hex_digit CHR ''%'' = None"
  "hex_digit CHR ''['' = None" "hex_digit CHR '']'' = None"
  by (simp_all add: hex_digit_def is_digit_def)

lemma dec_cases:
  assumes "n < 256"
  shows "\<exists>ds. dec n = map dec_char ds \<and> ds \<noteq> [] \<and> length ds \<le> 3 \<and> (\<forall>d\<in>set ds. d < 10)
     \<and> foldl (\<lambda>a d. a * 10 + d) 0 ds = n \<and> (length ds > 1 \<longrightarrow> hd ds \<noteq> 0)"
proof -
  consider "n < 10" | "10 \<le> n" "n < 100" | "100 \<le> n" by linarith
  then show ?thesis
  proof cases
    case 1
    then show ?thesis by (intro exI[of _ "[n]"]) (simp add: dec.simps)
  next
    case 2
    then have "n div 10 < 10" "0 < n div 10" by linarith+
    with 2 show ?thesis
      by (intro exI[of _ "[n div 10, n mod 10]"]) (simp add: dec.simps[of n] dec.simps[of "n div 10"])
  next
    case 3
    with assms have "n div 10 div 10 < 10" "\<not> n div 10 < 10" "0 < n div 10 div 10" by linarith+
    with 3 show ?thesis
      by (intro exI[of _ "[n div 10 div 10, n div 10 mod 10, n mod 10]"])
        (simp add: dec.simps[of n] dec.simps[of "n div 10"] dec.simps[of "n div 10 div 10"])
  qed
qed

lemma hex_cases:
  assumes "h < 65536"
  shows "\<exists>ds. hex h = map hex_char ds \<and> ds \<noteq> [] \<and> length ds \<le> 4 \<and> (\<forall>d\<in>set ds. d < 16)
     \<and> foldl (\<lambda>a d. a * 16 + d) 0 ds = h"
proof -
  consider "h < 16" | "16 \<le> h" "h < 256" | "256 \<le> h" "h < 4096" | "4096 \<le> h" by linarith
  then show ?thesis
  proof cases
    case 1
    then show ?thesis by (intro exI[of _ "[h]"]) (simp add: hex.simps)
  next
    case 2
    then show ?thesis
      by (intro exI[of _ "[h div 16, h mod 16]"]) (simp add: hex.simps[of h] hex.simps[of "h div 16"])
  next
    case 3
    then have "h div 16 div 16 < 16" "\<not> h div 16 < 16" by linarith+
    with 3 show ?thesis
      by (intro exI[of _ "[h div 16 div 16, h div 16 mod 16, h mod 16]"])
        (simp add: hex.simps[of h] hex.simps[of "h div 16"] hex.simps[of "h div 16 div 16"])
  next
    case 4
    with assms have "h div 16 div 16 div 16 < 16" "\<not> h div 16 div 16 < 16" "\<not> h div 16 < 16"
      by linarith+
    with 4 show ?thesis
      by (intro exI[of _ "[h div 16 div 16 div 16, h div 16 div 16 mod 16, h div 16 mod 16, h mod 16]"])
        (simp add: hex.simps[of h] hex.simps[of "h div 16"] hex.simps[of "h div 16 div 16"]
          hex.simps[of "h div 16 div 16 div 16"])
  qed
qed

text \<open>A text that reads as a hexadecimal group and stops at a separator.\<close>

lemma hex_run_digits:
  assumes "\<forall>d\<in>set ds. d < 16" "off + length ds \<le> 4" "acc < 16 ^ off"
    "rest = [] \<or> hex_digit (hd rest) = None" "\<And>d. d < 16 \<Longrightarrow> d \<in> set ds \<Longrightarrow> hex_digit (f d) = Some d"
  shows "hex_run off acc (map f ds @ rest)
     = Some (off + length ds, foldl (\<lambda>a d. a * 16 + d) acc ds, rest)"
  using assms
proof (induction ds arbitrary: off acc)
  case Nil
  then show ?case by (cases rest) auto
next
  case (Cons d ds)
  have a: "acc * 16 + d < 16 ^ Suc off" using Cons.prems by simp
  also have "\<dots> \<le> 16 ^ 4" using Cons.prems(2) by (intro power_increasing) auto
  finally have "\<not> acc * 16 + d > 65535" by simp
  then show ?case using Cons a by auto
qed

lemma hex_run_hex:
  assumes "h < 65536" "rest = [] \<or> hex_digit (hd rest) = None"
  shows "\<exists>off>0. hex_run 0 0 (hex h @ rest) = Some (off, h, rest)"
proof -
  obtain ds where ds: "hex h = map hex_char ds" "ds \<noteq> []" "length ds \<le> 4" "\<forall>d\<in>set ds. d < 16"
    "foldl (\<lambda>a d. a * 16 + d) 0 ds = h" using hex_cases[OF assms(1)] by blast
  then show ?thesis
    using hex_run_digits[of ds 0 0 rest hex_char] assms(2) by (intro exI[of _ "length ds"]) auto
qed

lemma hex_run_dec:
  assumes "n < 256" "rest = [] \<or> hex_digit (hd rest) = None"
  shows "\<exists>off acc. off > 0 \<and> hex_run 0 0 (dec n @ rest) = Some (off, acc, rest)"
proof -
  obtain ds where ds: "dec n = map dec_char ds" "ds \<noteq> []" "length ds \<le> 3" "\<forall>d\<in>set ds. d < 10"
    using dec_cases[OF assms(1)] by blast
  then have "\<forall>d\<in>set ds. d < 16" by auto
  then show ?thesis
    using ds hex_run_digits[of ds 0 0 rest dec_char] assms(2)
    by (intro exI[of _ "length ds"] exI) auto
qed

section \<open>IPv4 text round trip\<close>

lemma v4_loop_digits:
  assumes "\<forall>d\<in>set ds. d < 10" "foldl (\<lambda>a d. a * 10 + d) val ds < 256"
    "digLen = 1 \<longrightarrow> ds \<noteq> [] \<longrightarrow> val \<noteq> 0" "ds \<noteq> []"
    "length ds > 1 \<longrightarrow> digLen = 0 \<longrightarrow> hd ds \<noteq> 0 \<or> val \<noteq> 0"
  shows "v4_loop (map dec_char ds @ cs) fields val digLen fresh
     = v4_loop cs fields (foldl (\<lambda>a d. a * 10 + d) val ds) (digLen + length ds) False"
  using assms
proof (induction ds arbitrary: val digLen fresh)
  case (Cons d ds)
  have mono: "m \<le> foldl (\<lambda>a d. a * 10 + d) m xs" for m :: nat and xs
  proof (induction xs arbitrary: m)
    case (Cons a xs)
    have "m \<le> m * 10 + a" by simp
    also have "\<dots> \<le> foldl (\<lambda>a d. a * 10 + d) (m * 10 + a) xs" by (rule Cons.IH)
    finally show ?case by simp
  qed simp
  have le: "val * 10 + d < 256" using mono[of "val * 10 + d" ds] Cons.prems(2) by simp
  show ?case
  proof (cases "ds = []")
    case True
    with Cons.prems le show ?thesis by auto
  next
    case False
    have "v4_loop (map dec_char ds @ cs) fields (val * 10 + d) (Suc digLen) False
       = v4_loop cs fields (foldl (\<lambda>a d. a * 10 + d) (val * 10 + d) ds) (Suc digLen + length ds) False"
      using Cons.prems False by (intro Cons.IH) auto
    with Cons.prems le False show ?thesis by auto
  qed
qed simp

lemma v4_loop_dec:
  assumes "n < 256"
  shows "\<exists>k. v4_loop (dec n @ cs) fields 0 0 True = v4_loop cs fields n k False"
proof -
  obtain ds where "dec n = map dec_char ds" "ds \<noteq> []" "\<forall>d\<in>set ds. d < 10"
    "foldl (\<lambda>a d. a * 10 + d) 0 ds = n" "length ds > 1 \<longrightarrow> hd ds \<noteq> 0"
    using dec_cases[OF assms] by blast
  then show ?thesis using v4_loop_digits[of ds 0 0 cs fields True] assms by auto
qed

lemma dec_not_Nil [simp]: "dec n \<noteq> []"
  by (subst dec.simps) simp

lemma dec_digits: "list_all is_digit (dec n)"
  by (induction n rule: dec.induct; subst dec.simps) (simp add: list_all_iff)

lemma dec_bytes: "c \<in> set (dec n) \<Longrightarrow> is_digit c"
  using dec_digits by (auto simp: list_all_iff)

lemma v4_loop_step:
  assumes "n < 256" "length fields < 3" "cs \<noteq> []"
  shows "v4_loop (dec n @ CHR ''.'' # cs) fields 0 0 True = v4_loop cs (fields @ [n]) 0 0 True"
proof -
  obtain k where "v4_loop (dec n @ CHR ''.'' # cs) fields 0 0 True
      = v4_loop (CHR ''.'' # cs) fields n k False"
    using v4_loop_dec[OF assms(1)] by blast
  then show ?thesis using assms by (simp add: is_digit_def)
qed

lemma addr_ok_V4_cases:
  assumes "addr_ok (V4 os)"
  obtains a b c d where "os = [a, b, c, d]" "a < 256" "b < 256" "c < 256" "d < 256"
  using assms by (auto simp: length_Suc_conv eval_nat_numeral)

lemma v4_roundtrip:
  assumes "addr_ok (V4 os)"
  shows "parse_v4_fields (v4_text os) = Some os"
proof -
  obtain a b c d where os: "os = [a, b, c, d]" "a < 256" "b < 256" "c < 256" "d < 256"
    using addr_ok_V4_cases[OF assms] .
  obtain k where k: "v4_loop (dec d @ []) [a, b, c] 0 0 True = v4_loop [] [a, b, c] d k False"
    using v4_loop_dec[OF os(5)] by blast
  show ?thesis using os k by (simp add: parse_v4_fields_def v4_text_def v4_loop_step)
qed

lemma v4_loop_ok:
  assumes "v4_loop s fields val dl fresh = Some os" "\<forall>x\<in>set fields. x < 256" "val < 256"
    "length fields \<le> 3"
  shows "addr_ok (V4 os)"
  using assms by (induction s fields val dl fresh rule: v4_loop.induct) (auto split: if_splits)

section \<open>IPv6 text round trip\<close>

abbreviation groups_text :: "nat list \<Rightarrow> string" where
  "groups_text gs \<equiv> join_with '':'' (map hex gs)"

lemma hex_not_Nil [simp]: "hex h \<noteq> []"
  by (subst hex.simps) simp

lemma hex_hd: "h < 65536 \<Longrightarrow> hex_digit (hd (hex h)) \<noteq> None"
  using hex_cases[of h] by (auto simp: neq_Nil_conv)

lemma groups_text_hd:
  assumes "gs \<noteq> []" "\<forall>g\<in>set gs. g < 65536"
  shows "groups_text gs \<noteq> [] \<and> hex_digit (hd (groups_text gs)) \<noteq> None"
  using assms hex_hd by (cases "tl gs"; cases gs) auto

text \<open>The three ways a group ends: at the end of the input, at a colon, at an ellipsis.\<close>

lemma v6_loop_last:
  "hex_run 0 0 s = Some (off, h, []) \<Longrightarrow> 0 < off \<Longrightarrow> length gs < 8 \<Longrightarrow>
   v6_loop s gs ell = Some (gs @ [h], ell, [])"
  by (simp add: v6_loop.simps[of s gs ell])

lemma v6_loop_colon:
  "hex_run 0 0 s = Some (off, h, CHR '':'' # rest) \<Longrightarrow> 0 < off \<Longrightarrow> length gs < 8 \<Longrightarrow>
   rest \<noteq> [] \<Longrightarrow> hd rest \<noteq> CHR '':'' \<Longrightarrow> v6_loop s gs ell = v6_loop rest (gs @ [h]) ell"
  by (simp add: v6_loop.simps[of s gs ell])

lemma v6_loop_double_colon:
  "hex_run 0 0 s = Some (off, h, CHR '':'' # CHR '':'' # rest) \<Longrightarrow> 0 < off \<Longrightarrow> length gs < 8 \<Longrightarrow>
   v6_loop s gs None =
     (if rest = [] then Some (gs @ [h], Some (length gs + 1), [])
      else v6_loop rest (gs @ [h]) (Some (length gs + 1)))"
  by (simp add: v6_loop.simps[of s gs None])

lemma v6_loop_groups:
  assumes "hs \<noteq> []" "\<forall>h\<in>set hs. h < 65536" "length gs + length hs \<le> 8"
  shows "v6_loop (groups_text hs) gs ell = Some (gs @ hs, ell, [])"
  using assms
proof (induction hs arbitrary: gs rule: induct_list012)
  case (2 h)
  then obtain off where "off > 0" "hex_run 0 0 (hex h) = Some (off, h, [])"
    using hex_run_hex[of h "[]"] by auto
  with 2 show ?case by (simp add: v6_loop_last)
next
  case (3 h h' hs)
  define rest where "rest = groups_text (h' # hs)"
  have r: "rest \<noteq> []" "hd rest \<noteq> CHR '':''"
    using groups_text_hd[of "h' # hs"] "3.prems" by (auto simp: rest_def)
  obtain off where off: "off > 0" "hex_run 0 0 (hex h @ CHR '':'' # rest) = Some (off, h, CHR '':'' # rest)"
    using hex_run_hex[of h "CHR '':'' # rest"] "3.prems"(2) by auto
  have "v6_loop (hex h @ CHR '':'' # rest) gs ell = v6_loop rest (gs @ [h]) ell"
    using off r "3.prems"(3) by (intro v6_loop_colon) auto
  also have "\<dots> = Some ((gs @ [h]) @ h' # hs, ell, [])"
    unfolding rest_def using "3.prems" by (intro "3.IH"(2)) auto
  finally show ?case by (simp add: rest_def)
qed simp

lemma v6_loop_ellipsis:
  assumes "us \<noteq> []" "\<forall>h\<in>set (us @ vs). h < 65536" "length gs + length us + length vs \<le> 8"
    "length gs + length us < 8"
  shows "v6_loop (groups_text us @ ''::'' @ groups_text vs) gs None
     = Some (gs @ us @ vs, Some (length gs + length us), [])"
  using assms
proof (induction us arbitrary: gs rule: induct_list012)
  case (2 a)
  obtain off where off: "off > 0"
    "hex_run 0 0 (hex a @ ''::'' @ groups_text vs) = Some (off, a, ''::'' @ groups_text vs)"
    using hex_run_hex[of a "''::'' @ groups_text vs"] "2.prems"(2) by auto
  have "v6_loop (hex a @ ''::'' @ groups_text vs) gs None =
     (if groups_text vs = [] then Some (gs @ [a], Some (length gs + 1), [])
      else v6_loop (groups_text vs) (gs @ [a]) (Some (length gs + 1)))"
    using off "2.prems"(4) by (intro v6_loop_double_colon) auto
  also have "\<dots> = Some (gs @ a # vs, Some (length gs + 1), [])"
    using v6_loop_groups[of vs "gs @ [a]" "Some (length gs + 1)"] groups_text_hd[of vs] "2.prems"
    by (cases "vs = []") auto
  finally show ?case by simp
next
  case (3 a a' us)
  define rest where "rest = groups_text (a' # us) @ ''::'' @ groups_text vs"
  have r: "rest \<noteq> []" "hd rest \<noteq> CHR '':''"
    using groups_text_hd[of "a' # us"] "3.prems" by (auto simp: rest_def hd_append)
  obtain off where off: "off > 0" "hex_run 0 0 (hex a @ CHR '':'' # rest) = Some (off, a, CHR '':'' # rest)"
    using hex_run_hex[of a "CHR '':'' # rest"] "3.prems"(2) by auto
  have "v6_loop (hex a @ CHR '':'' # rest) gs None = v6_loop rest (gs @ [a]) None"
    using off r "3.prems"(3) by (intro v6_loop_colon) auto
  also have "\<dots> = Some ((gs @ [a]) @ (a' # us) @ vs, Some (length (gs @ [a]) + length (a' # us)), [])"
    unfolding rest_def using "3.prems" by (intro "3.IH"(2)) auto
  finally show ?case by (simp add: rest_def)
qed simp

text \<open>The run of zeros that the printer elides is a run of zeros.\<close>

definition zero_run_ok :: "nat list \<Rightarrow> nat \<times> nat \<Rightarrow> bool" where
  "zero_run_ok gs r \<longleftrightarrow> fst r + 2 \<le> snd r \<and> snd r \<le> length gs
     \<and> gs = take (fst r) gs @ replicate (snd r - fst r) 0 @ drop (snd r) gs"

lemma takeWhile_zero: "takeWhile (\<lambda>g. g = (0::nat)) xs = replicate (length (takeWhile (\<lambda>g. g = 0) xs)) 0"
  by (induction xs) auto

lemma zero_run_end_ok:
  assumes "i < length gs" "zero_run_end gs i - i \<ge> 2"
  shows "zero_run_ok gs (i, zero_run_end gs i)"
proof -
  let ?tw = "takeWhile (\<lambda>g. g = 0) (drop i gs)"
  have len: "length ?tw \<le> length gs - i" using length_takeWhile_le[of "\<lambda>g. g = 0" "drop i gs"] by simp
  have "drop i gs = ?tw @ drop (length ?tw) (drop i gs)"
    by (metis takeWhile_dropWhile_id dropWhile_eq_drop)
  then have "gs = take i gs @ replicate (length ?tw) 0 @ drop (length ?tw) (drop i gs)"
    by (metis append_take_drop_id takeWhile_zero)
  with assms len show ?thesis by (simp add: zero_run_ok_def zero_run_end_def add.commute)
qed

lemma best_zero_run_ok:
  assumes "\<forall>i\<in>set is. i < length gs" "pred_option (zero_run_ok gs) best"
    "best_zero_run gs is best = Some r"
  shows "zero_run_ok gs r"
  using assms
proof (induction gs "is" best rule: best_zero_run.induct)
  case (2 gs i "is" best)
  then show ?case using zero_run_end_ok[of i gs] by (auto simp: Let_def split: if_splits)
qed simp

lemma v6_body_roundtrip:
  assumes "addr_ok (V6 gs z)"
  shows "parse_v6_body (v6_text gs) = Some gs"
proof (cases "best_zero_run gs [0..<8] None")
  case None
  have ne: "gs \<noteq> []" "\<forall>g\<in>set gs. g < 65536" "length gs = 8" using assms by auto
  have "take 2 (groups_text gs) \<noteq> ''::''"
    using groups_text_hd[OF ne(1,2)] by (cases "groups_text gs") auto
  then show ?thesis
    using None ne v6_loop_groups[of gs "[]" None] by (simp add: v6_text_def parse_v6_body_def v6_finish_def)
next
  case (Some r)
  obtain a b where r: "r = (a, b)" by force
  have ok: "zero_run_ok gs (a, b)"
    using best_zero_run_ok[of "[0..<8]" gs None r] Some assms by (simp add: r)
  have len: "length gs = 8" "\<forall>g\<in>set gs. g < 65536" using assms by auto
  have gs: "gs = take a gs @ replicate (b - a) 0 @ drop b gs" "a + 2 \<le> b" "b \<le> 8"
    using ok len by (auto simp: zero_run_ok_def)
  define us where "us = take a gs"
  define vs where "vs = drop b gs"
  note ab = us_def vs_def
  have l: "length us = a" "length vs = 8 - b" using gs(2,3) len by (auto simp: ab)
  have small: "\<forall>h\<in>set (us @ vs). h < 65536"
    using len(2) by (auto simp: ab dest: in_set_takeD in_set_dropD)
  have tx: "v6_text gs = groups_text us @ ''::'' @ groups_text vs"
    using Some by (simp add: v6_text_def r ab)
  show ?thesis
  proof (cases "a = 0")
    case True
    then have us: "us = []" using l by simp
    have gs': "gs = replicate b 0 @ vs" using gs(1) True by (simp add: ab)
    show ?thesis
    proof (cases "vs = []")
      case True
      then show ?thesis using tx us gs' l gs(3) by (simp add: parse_v6_body_def)
    next
      case False
      then show ?thesis
        using tx us gs' groups_text_hd[OF False] small l gs v6_loop_groups[of vs "[]" "Some 0"] True
        by (simp add: parse_v6_body_def v6_finish_def)
    qed
  next
    case False
    then have ne: "us \<noteq> []" using l by auto
    have "take 2 (v6_text gs) \<noteq> ''::''"
      using groups_text_hd[OF ne] small tx by (cases "groups_text us") auto
    moreover have "v6_loop (v6_text gs) [] None = Some (us @ vs, Some a, [])"
      unfolding tx using v6_loop_ellipsis[of us vs "[]"] ne small l gs(2,3) by simp
    moreover have "take a (us @ vs) @ replicate (8 - length (us @ vs)) 0 @ drop a (us @ vs) = gs"
      using gs l by (simp add: ab)
    ultimately show ?thesis using l gs(2,3) by (simp add: parse_v6_body_def v6_finish_def)
  qed
qed

section \<open>Parsed addresses are well formed\<close>

lemma hex_run_bound:
  "hex_run off acc s = Some (off', acc', rest) \<Longrightarrow> acc < 65536 \<Longrightarrow> acc' < 65536"
  by (induction off acc s rule: hex_run.induct) (auto split: option.splits if_splits)

lemma v6_loop_ok:
  assumes "v6_loop s gs ell = Some (gs', ell', rest)" "length gs \<le> 8" "\<forall>g\<in>set gs. g < 65536"
  shows "length gs' \<le> 8 \<and> (\<forall>g\<in>set gs'. g < 65536)"
  using assms
proof (induction s gs ell rule: v6_loop.induct)
  case (1 s gs ell)
  show ?case
  proof (cases "length gs < 8")
    case False
    with "1.prems" show ?thesis by (auto simp: v6_loop.simps[of s gs ell])
  next
    case True
    then obtain off acc r where run: "hex_run 0 0 s = Some (off, acc, r)"
      using "1.prems"(1) by (auto simp: v6_loop.simps[of s gs ell] split: option.splits)
    have small: "acc < 65536" using hex_run_bound[OF run] by simp
    have off: "off \<noteq> 0" using "1.prems"(1) True run by (cases "off = 0") (simp_all add: v6_loop.simps[of s gs ell])
    consider "r \<noteq> []" "hd r = CHR ''.''" | "r = []"
      | t where "r = CHR '':'' # t" "t \<noteq> []" "hd t \<noteq> CHR '':''"
      | t where "r = CHR '':'' # CHR '':'' # t" "ell = None"
      using "1.prems"(1) True run off
      by (cases r; cases "tl r") (auto simp: v6_loop.simps[of s gs ell] split: if_splits)
    then show ?thesis
    proof cases
      case 1
      then obtain os where os: "parse_v4_fields s = Some os" "length gs + 2 \<le> 8"
        using "1.prems"(1) True run off
        by (auto simp: v6_loop.simps[of s gs ell] split: if_splits option.splits)
      then have "addr_ok (V4 os)" using v4_loop_ok[of s "[]" 0 0 True os] by (simp add: parse_v4_fields_def)
      then obtain a b c d where "os = [a, b, c, d]" "a < 256" "b < 256" "c < 256" "d < 256"
        by (rule addr_ok_V4_cases)
      then show ?thesis
        using os 1 "1.prems" True run off
        by (auto simp: v6_loop.simps[of s gs ell] split: if_splits)
    next
      case 2
      then show ?thesis using "1.prems" True run off small by (auto simp: v6_loop.simps[of s gs ell])
    next
      case 3
      then have "v6_loop t (gs @ [acc]) ell = Some (gs', ell', rest)"
        using "1.prems"(1) True run off by (auto simp: v6_loop.simps[of s gs ell])
      then show ?thesis
        using "1.IH"(2)[OF True run] 3 off True small "1.prems" by auto
    next
      case 4
      have "v6_loop s gs None = (if t = [] then Some (gs @ [acc], Some (length gs + 1), [])
          else v6_loop t (gs @ [acc]) (Some (length gs + 1)))"
        using v6_loop_double_colon[of s off acc t gs] run 4 off True by simp
      with "1.prems"(1) 4(2) have eq: "(if t = [] then Some (gs @ [acc], Some (length gs + 1), [])
          else v6_loop t (gs @ [acc]) (Some (length gs + 1))) = Some (gs', ell', rest)" by simp
      show ?thesis
      proof (cases "t = []")
        case True
        then show ?thesis using eq \<open>length gs < 8\<close> "1.prems"(3) small by auto
      next
        case False
        then show ?thesis
          using "1.IH"(1)[OF True run refl refl off] 4 eq True small "1.prems"(3) by simp
      qed
    qed
  qed
qed

lemma v6_finish_ok:
  assumes "v6_finish (gs, ell, s) = Some gs'" "length gs \<le> 8 \<and> (\<forall>g\<in>set gs. g < 65536)"
  shows "length gs' = 8 \<and> (\<forall>g\<in>set gs'. g < 65536)"
  using assms
  by (auto simp: v6_finish_def split: if_splits option.splits dest!: in_set_takeD in_set_dropD)

lemma parse_v6_body_ok:
  assumes "parse_v6_body s = Some gs"
  shows "length gs = 8 \<and> (\<forall>g\<in>set gs. g < 65536)"
proof (cases "s = ''::''")
  case False
  then obtain r t ell where r: "v6_loop t [] ell = Some r" "v6_finish r = Some gs"
    using assms by (auto simp: parse_v6_body_def split: if_splits bind_splits)
  then show ?thesis by (cases r) (auto dest!: v6_loop_ok v6_finish_ok)
qed (use assms in \<open>auto simp: parse_v6_body_def\<close>)

lemma ParseAddr_ok: "ParseAddr s = Some a \<Longrightarrow> addr_ok a"
  using v4_loop_ok[of s "[]" 0 0 True] parse_v6_body_ok
  by (fastforce simp: ParseAddr_def parse_v6_def parse_v4_fields_def split: option.splits if_splits)

section \<open>Printing then parsing\<close>

lemma addr_family_skip:
  "\<forall>c\<in>set xs. c \<noteq> CHR ''.'' \<and> c \<noteq> CHR '':'' \<and> c \<noteq> CHR ''%'' \<Longrightarrow>
   addr_family (xs @ ys) = addr_family ys"
  by (induction xs) auto

definition hex_text :: "string \<Rightarrow> bool" where
  "hex_text xs \<longleftrightarrow> (\<forall>c\<in>set xs. hex_digit c \<noteq> None)"

lemma hex_text_plain:
  "hex_text xs \<Longrightarrow> c \<in> set xs \<Longrightarrow> c \<noteq> CHR ''.'' \<and> c \<noteq> CHR '':'' \<and> c \<noteq> CHR ''%'' \<and> c \<noteq> CHR ''[''"
  by (auto simp: hex_text_def)

lemma hex_text_hex: "h < 65536 \<Longrightarrow> hex_text (hex h)"
  using hex_cases[of h] by (auto simp: hex_text_def)

lemma hex_text_dec: "n < 256 \<Longrightarrow> hex_text (dec n)"
  using dec_cases[of n] by (auto simp: hex_text_def)

lemma addr_family_hex [simp]: "hex_text xs \<Longrightarrow> addr_family (xs @ ys) = addr_family ys"
  by (rule addr_family_skip) (auto dest: hex_text_plain)

lemma v4_family:
  assumes "addr_ok (V4 os)"
  shows "addr_family (v4_text os) = Some CHR ''.''"
proof -
  obtain a b c d where "os = [a, b, c, d]" "a < 256" using addr_ok_V4_cases[OF assms] .
  then show ?thesis by (simp add: v4_text_def hex_text_dec)
qed

text \<open>The printed groups: digits up to a first colon, and no percent sign at all.\<close>

lemma groups_text_set:
  assumes "\<forall>g\<in>set gs. g < 65536" "c \<in> set (groups_text gs)"
  shows "c = CHR '':'' \<or> hex_digit c \<noteq> None"
  using assms
proof (induction gs rule: induct_list012)
  case (2 g)
  then show ?case using hex_text_hex[of g] by (auto simp: hex_text_def)
next
  case (3 g g' gs)
  then show ?case using hex_text_hex[of g] by (auto simp: hex_text_def)
qed simp

lemma groups_family:
  assumes "\<forall>g\<in>set gs. g < 65536" "gs \<noteq> []" "ys \<noteq> [] \<longrightarrow> hd ys = CHR '':''"
    "ys \<noteq> [] \<or> length gs > 1"
  shows "addr_family (groups_text gs @ ys) = Some CHR '':''"
  using assms by (cases gs rule: remdups_adj.cases; cases ys) (auto simp: hex_text_hex)

lemma v6_text_cases:
  assumes "addr_ok (V6 gs z)"
  obtains "v6_text gs = groups_text gs" "length gs = 8"
  | us vs where "v6_text gs = groups_text us @ ''::'' @ groups_text vs" "set us \<subseteq> set gs" "set vs \<subseteq> set gs"
  using assms
  by (cases "best_zero_run gs [0..<8] None")
    (auto simp: v6_text_def set_take_subset set_drop_subset)

lemma v6_family:
  assumes "addr_ok (V6 gs z)"
  shows "addr_family (v6_text gs @ ys) = Some CHR '':''"
proof (cases rule: v6_text_cases[OF assms])
  case 1
  then obtain g g' hs where "gs = g # g' # hs" by (cases gs rule: remdups_adj.cases) auto
  with 1 assms show ?thesis by (simp add: hex_text_hex)
next
  case (2 us vs)
  with assms have "us \<noteq> [] \<Longrightarrow> \<forall>g\<in>set us. g < 65536" by auto
  with 2 groups_family[of us "''::'' @ groups_text vs @ ys"] show ?thesis
    by (cases "us = []") auto
qed

lemma v6_text_set:
  assumes "addr_ok (V6 gs z)" "c \<in> set (v6_text gs)"
  shows "c = CHR '':'' \<or> hex_digit c \<noteq> None"
  using v6_text_cases[OF assms(1)]
proof cases
  case 1
  then show ?thesis using assms groups_text_set[of gs c] by auto
next
  case (2 us vs)
  then show ?thesis using assms groups_text_set[of us c] groups_text_set[of vs c] by fastforce
qed

lemma index_byte_append_notin:
  "c \<notin> set xs \<Longrightarrow> index_byte (xs @ ys) c = map_option (\<lambda>k. length xs + k) (index_byte ys c)"
  by (induction xs; cases "index_byte ys c") auto

lemma index_byte_notin: "c \<notin> set xs \<Longrightarrow> index_byte xs c = None"
  by (induction xs) auto

lemma parse_v6_zone:
  assumes "CHR ''%'' \<notin> set body" "parse_v6_body body = Some gs"
  shows "parse_v6 (body @ zone_suffix z) = Some (V6 gs z)"
  using assms by (auto simp: parse_v6_def zone_suffix_def index_byte_append_notin index_byte_notin)

text \<open>The dotted tail of an IPv4-mapped address.\<close>

lemma mapped_body:
  assumes "addr_ok (V4 [a, b, c, d])"
  shows "parse_v6_body (''::ffff:'' @ v4_text [a, b, c, d])
     = Some [0, 0, 0, 0, 0, 65535, a * 256 + b, c * 256 + d]"
proof -
  let ?t = "v4_text [a, b, c, d]"
  have t: "?t = dec a @ CHR ''.'' # dec b @ CHR ''.'' # dec c @ CHR ''.'' # dec d"
    by (simp add: v4_text_def)
  obtain off acc where run: "off > 0" "hex_run 0 0 ?t = Some (off, acc, CHR ''.'' # dec b @ CHR ''.'' # dec c @ CHR ''.'' # dec d)"
    unfolding t using hex_run_dec[of a "CHR ''.'' # dec b @ CHR ''.'' # dec c @ CHR ''.'' # dec d"] assms
    by auto
  have p: "parse_v4_fields ?t = Some [a, b, c, d]" using v4_roundtrip assms by blast
  have l2: "v6_loop ?t [65535] (Some 0) = Some ([65535, a * 256 + b, c * 256 + d], Some 0, [])"
    using run p by (simp add: v6_loop.simps[of ?t])
  have h: "hex_run 0 0 (''ffff:'' @ ?t) = Some (4, 65535, CHR '':'' # ?t)"
    by (simp add: hex_digit_def is_digit_def)
  have "hd (dec a) \<noteq> CHR '':''"
    using hex_text_plain[OF hex_text_dec hd_in_set[OF dec_not_Nil]] assms by auto
  then have nc: "?t \<noteq> []" "hd ?t \<noteq> CHR '':''" by (simp_all add: t)
  have "v6_loop (''ffff:'' @ ?t) [] (Some 0) = v6_loop ?t [65535] (Some 0)"
    using v6_loop_colon[OF h, of "[]" "Some 0"] nc by simp
  moreover have "take 2 (''::ffff:'' @ ?t) = ''::''" "drop 2 (''::ffff:'' @ ?t) = ''ffff:'' @ ?t"
    by (simp_all add: eval_nat_numeral)
  moreover have "replicate 5 0 = [0, 0, 0, 0, 0::nat]" by (simp add: eval_nat_numeral)
  ultimately show ?thesis using l2 by (simp add: parse_v6_body_def v6_finish_def)
qed

lemma is4in6_cases:
  assumes "addr_ok (V6 gs z)" "is4in6 (V6 gs z)"
  obtains a b c d where "gs = [0, 0, 0, 0, 0, 65535, a * 256 + b, c * 256 + d]"
    "unmap (V6 gs z) = V4 [a, b, c, d]" "addr_ok (V4 [a, b, c, d])"
proof -
  have len: "length gs = 8" "\<forall>g\<in>set gs. g < 65536" using assms by auto
  obtain x y where g: "gs = [0, 0, 0, 0, 0, 65535, x, y]"
  proof -
    obtain x y where d: "drop 6 gs = [x, y]"
      using len(1) by (cases "drop 6 gs" rule: remdups_adj.cases) (auto dest: arg_cong[where f = length])
    have "gs = take 6 gs @ [x, y]" by (metis d append_take_drop_id)
    moreover have "take 6 gs = [0, 0, 0, 0, 0, 65535]" using assms(2) by (simp add: is4in6_def)
    ultimately show thesis using that by (metis append_Cons append_Nil)
  qed
  then have "x < 65536" "y < 65536" using len(2) by simp_all
  then have "x div 256 < 256" "y div 256 < 256" by linarith+
  then show thesis
    using that[of "x div 256" "x mod 256" "y div 256" "y mod 256"] g assms(2) by (simp add: unmap_def)
qed

lemma v4_text_set:
  assumes "addr_ok (V4 os)" "c \<in> set (v4_text os)"
  shows "c = CHR ''.'' \<or> hex_digit c \<noteq> None"
  using addr_ok_V4_cases[OF assms(1)]
proof cases
  fix a b e d
  assume "os = [a, b, e, d]" "a < 256" "b < 256" "e < 256" "d < 256"
  then show ?thesis
    using assms(2) hex_text_dec[of a] hex_text_dec[of b] hex_text_dec[of e] hex_text_dec[of d]
    by (auto simp: v4_text_def hex_text_def)
qed

lemma parse_String:
  assumes "addr_ok a"
  shows "ParseAddr (addr_String a) = Some a"
proof (cases a)
  case (V4 os)
  then show ?thesis using assms v4_roundtrip[of os] v4_family[of os] by (simp add: addr_String_def ParseAddr_def)
next
  case (V6 gs z)
  show ?thesis
  proof (cases "is4in6 a")
    case False
    have "CHR ''%'' \<notin> set (v6_text gs)" using v6_text_set[of gs z "CHR ''%''"] assms V6 by auto
    then show ?thesis
      using False V6 assms parse_v6_zone[OF _ v6_body_roundtrip] v6_family[of gs z]
      by (simp add: addr_String_def ParseAddr_def)
  next
    case True
    with V6 assms obtain p q r s where o: "gs = [0, 0, 0, 0, 0, 65535, p * 256 + q, r * 256 + s]"
      "unmap a = V4 [p, q, r, s]" "addr_ok (V4 [p, q, r, s])" by (metis is4in6_cases)
    have body: "parse_v6_body (''::ffff:'' @ v4_text [p, q, r, s]) = Some gs"
      using mapped_body[OF o(3)] o(1) by simp
    have notin: "CHR ''%'' \<notin> set (''::ffff:'' @ v4_text [p, q, r, s])"
      using v4_text_set[OF o(3), of "CHR ''%''"] by auto
    have "ParseAddr (''::ffff:'' @ v4_text [p, q, r, s] @ zone_suffix z)
        = parse_v6 ((''::ffff:'' @ v4_text [p, q, r, s]) @ zone_suffix z)" by (simp add: ParseAddr_def)
    also have "\<dots> = Some (V6 gs z)" by (rule parse_v6_zone[OF notin body])
    finally show ?thesis using True V6 o(2) by (simp add: addr_String_def)
  qed
qed

section \<open>The textual contract\<close>

text \<open>
  What every canonical-text helper relies on: printing a value and parsing it back returns the
  value. The helpers are then stable, and two texts of one value have one canonical text.
\<close>

locale text_syntax =
  fixes parse :: "string \<Rightarrow> 'a option" and print :: "'a \<Rightarrow> string" and valid :: "'a \<Rightarrow> bool"
  assumes parse_print: "valid a \<Longrightarrow> parse (print a) = Some a"
    and parse_valid: "parse s = Some a \<Longrightarrow> valid a"
begin

lemma print_inj: "valid a \<Longrightarrow> valid b \<Longrightarrow> print a = print b \<Longrightarrow> a = b"
  by (metis parse_print option.inject)

lemma canon_stable:
  assumes "parse s = Some a"
  shows "parse (print a) = Some a"
  using assms by (rule parse_print[OF parse_valid])

lemma canon_eq_iff:
  assumes "parse s = Some a" "parse t = Some b"
  shows "print a = print b \<longleftrightarrow> a = b"
  using assms by (auto dest: parse_valid print_inj)

end

interpretation netip: text_syntax ParseAddr addr_String addr_ok
  by unfold_locales (rule parse_String, assumption, rule ParseAddr_ok)

lemma unmap_ok: "addr_ok a \<Longrightarrow> addr_ok (unmap a)"
proof (cases a)
  case (V6 gs z)
  assume "addr_ok a"
  show ?thesis
  proof (cases "is4in6 a")
    case True
    with V6 \<open>addr_ok a\<close> show ?thesis by (metis is4in6_cases)
  next
    case False
    with V6 \<open>addr_ok a\<close> show ?thesis by (simp add: unmap_def)
  qed
qed (simp add: unmap_def)

lemma unmap_V4 [simp]: "unmap (V4 os) = V4 os"
  by (simp add: unmap_def)

lemma is4in6_V4 [simp]: "\<not> is4in6 (V4 os)"
  by (simp add: is4in6_def)

lemma unmap_not_mapped: "addr_ok a \<Longrightarrow> \<not> is4in6 (unmap a)"
  by (cases a) (auto simp: unmap_def)

text \<open>The canonical text of a parsed address denotes that address, or its unmapped form.\<close>

definition canonical_addr :: "addr \<Rightarrow> addr" where
  "canonical_addr a = (if is4in6 a \<and> addr_zone a = [] then unmap a else a)"

lemma canonicalIPText_String: "addr_ok a \<Longrightarrow> canonicalIPText a = addr_String (canonical_addr a)"
  by (cases a) (auto simp: canonicalIPText_def canonical_addr_def addr_String_def addr_zone_def
      zone_suffix_def unmap_def split: addr.splits)

lemma canonical_addr_ok: "addr_ok a \<Longrightarrow> addr_ok (canonical_addr a)"
  by (simp add: canonical_addr_def unmap_ok)

lemma canonical_addr_idem: "addr_ok a \<Longrightarrow> canonical_addr (canonical_addr a) = canonical_addr a"
  using unmap_not_mapped[of a] by (simp add: canonical_addr_def)

lemma addr_String_no_bracket:
  assumes "addr_ok a"
  shows "stripIPBrackets (addr_String a) = addr_String a"
proof -
  have "hd (addr_String a) \<noteq> CHR ''[''"
  proof (cases a)
    case (V4 os)
    have "v4_text os \<noteq> []" using v4_family[of os] assms V4 by auto
    then show ?thesis
      using assms V4 v4_text_set[of os "hd (v4_text os)"] by (auto simp: addr_String_def)
  next
    case (V6 gs z)
    have ne: "v6_text gs \<noteq> []" using v6_family[of gs z "[]"] assms V6 by auto
    have "hd (v6_text gs) \<noteq> CHR ''[''"
      using assms V6 ne v6_text_set[of gs z "hd (v6_text gs)"] by auto
    then show ?thesis using V6 ne by (auto simp: addr_String_def)
  qed
  then show ?thesis by (cases "addr_String a") (auto simp: stripIPBrackets_def has_prefix_def)
qed

lemma CanonicalizeIP_parse:
  assumes "ParseAddr (stripIPBrackets v) = Some a"
  shows "CanonicalizeIP v = addr_String (canonical_addr a)"
    "ParseAddr (CanonicalizeIP v) = Some (canonical_addr a)"
proof -
  have ok: "addr_ok a" using assms by (rule ParseAddr_ok)
  then show eq: "CanonicalizeIP v = addr_String (canonical_addr a)"
    using assms by (simp add: CanonicalizeIP_def canonicalIPText_String)
  show "ParseAddr (CanonicalizeIP v) = Some (canonical_addr a)"
    unfolding eq using ok by (intro netip.parse_print canonical_addr_ok)
qed

section \<open>Prefixes\<close>

lemma mask_fields_mask:
  assumes "m \<le> n"
  shows "mask_fields w m (mask_fields w n xs) = mask_fields w m xs"
  using assms
proof (induction xs arbitrary: m n)
  case (Cons x xs)
  consider "m \<ge> w" | "m < w" "n \<ge> w" | "m < w" "n < w" by linarith
  then show ?case
  proof cases
    case 1
    then show ?thesis using Cons by simp
  next
    case 2
    have "map (\<lambda>_. 0) (mask_fields w k ys) = map (\<lambda>_. 0::nat) ys" for k ys
      by (induction ys arbitrary: k) auto
    then show ?thesis using 2 by simp
  next
    case 3
    have "(2::nat) ^ (w - m) = 2 ^ (w - n) * 2 ^ (n - m)"
      using 3 Cons.prems by (simp flip: power_add)
    then have "x div 2 ^ (w - n) * 2 ^ (w - n) div 2 ^ (w - m) = x div 2 ^ (w - m)"
      by (simp add: div_mult2_eq)
    then show ?thesis using 3 by simp
  qed
qed simp

lemma mask_addr_mask: "m \<le> n \<Longrightarrow> mask_addr m (mask_addr n a) = mask_addr m a"
  by (cases a) (simp_all add: mask_addr_def mask_fields_mask)

lemma mask_fields_0: "\<forall>x\<in>set xs. x < 2 ^ w \<Longrightarrow> mask_fields w 0 xs = map (\<lambda>_. 0) xs"
proof (induction xs)
  case (Cons x xs)
  have "mask_fields 0 0 ys = ys" for ys by (induction ys) auto
  then show ?case using Cons by (cases w) (auto intro: map_idI)
qed simp

lemma mask_addr_0: "addr_ok a \<Longrightarrow> addr_ok b \<Longrightarrow> is4 a = is4 b \<Longrightarrow> mask_addr 0 a = mask_addr 0 b"
  using mask_fields_0[of _ 8] mask_fields_0[of _ 16]
  by (cases a; cases b) (auto simp: mask_addr_def is4_def map_replicate_const)

lemma is4_bitlen: "is4 a = is4 b \<longleftrightarrow> bitlen a = bitlen b"
  by (cases a; cases b) (auto simp: is4_def bitlen_def)

definition prefix_ok :: "prefix_t \<Rightarrow> bool" where
  "prefix_ok p \<longleftrightarrow> addr_ok (fst p) \<and> addr_zone (fst p) = []"

lemma ParsePrefix_ok: "ParsePrefix s = Some p \<Longrightarrow> prefix_ok p"
  by (auto simp: ParsePrefix_def Let_def prefix_ok_def PrefixFrom_def addr_zone_def
      dest!: ParseAddr_ok split: option.splits if_splits addr.splits)

text \<open>Two prefixes overlap exactly when some address lies in both.\<close>

lemma prefix_overlaps_iff:
  assumes "prefix_ok p" "prefix_ok q"
  shows "prefix_overlaps p q \<longleftrightarrow> (\<exists>a. addr_ok a \<and> prefix_contains p a \<and> prefix_contains q a)"
proof
  let ?n = "min (snd p) (snd q)"
  assume ov: "prefix_overlaps p q"
  then have fam: "is4 (fst p) = is4 (fst q)"
    and eq: "mask_addr ?n (fst p) = mask_addr ?n (fst q)"
    using assms mask_addr_0[of "fst p" "fst q"] by (auto simp: prefix_overlaps_def prefix_ok_def)
  show "\<exists>a. addr_ok a \<and> prefix_contains p a \<and> prefix_contains q a"
  proof (cases "snd p \<le> snd q")
    case True
    then show ?thesis using assms eq fam
      by (intro exI[of _ "fst q"]) (auto simp: prefix_contains_def prefix_ok_def is4_bitlen min_def)
  next
    case False
    then show ?thesis using assms eq fam
      by (intro exI[of _ "fst p"]) (auto simp: prefix_contains_def prefix_ok_def is4_bitlen min_def)
  qed
next
  let ?n = "min (snd p) (snd q)"
  assume "\<exists>a. addr_ok a \<and> prefix_contains p a \<and> prefix_contains q a"
  then obtain a where a: "bitlen (fst p) = bitlen a" "mask_addr (snd p) (fst p) = mask_addr (snd p) a"
    "bitlen (fst q) = bitlen a" "mask_addr (snd q) (fst q) = mask_addr (snd q) a"
    by (auto simp: prefix_contains_def)
  have "mask_addr ?n (fst p) = mask_addr ?n (fst q)"
    using a(2,4) mask_addr_mask[of ?n "snd p"] mask_addr_mask[of ?n "snd q"] by (metis min.cobounded1 min.cobounded2)
  then show "prefix_overlaps p q" using a(1,3) by (simp add: prefix_overlaps_def is4_bitlen)
qed

section \<open>Properties\<close>

lemma CanonicalizeIP_stable: "CanonicalizeIP (CanonicalizeIP v) = CanonicalizeIP v"
proof (cases "ParseAddr (stripIPBrackets v)")
  case None
  then show ?thesis by (simp add: CanonicalizeIP_def)
next
  case (Some a)
  have ok: "addr_ok a" using Some by (rule ParseAddr_ok)
  have "stripIPBrackets (CanonicalizeIP v) = CanonicalizeIP v"
    unfolding CanonicalizeIP_parse(1)[OF Some] using ok by (intro addr_String_no_bracket canonical_addr_ok)
  then have "ParseAddr (stripIPBrackets (CanonicalizeIP v)) = Some (canonical_addr a)"
    using CanonicalizeIP_parse(2)[OF Some] by simp
  from CanonicalizeIP_parse(1)[OF this] show ?thesis
    using CanonicalizeIP_parse(1)[OF Some] canonical_addr_idem[OF ok] by simp
qed

interpretation client_ip: normaliser "Some \<circ> CanonicalizeIP" "\<lambda>v. CanonicalizeIP v = v"
  by unfold_locales (auto simp: CanonicalizeIP_stable)

text \<open>canonicalising an address text is idempotent: the result of \<open>CanonicalizeIP\<close> (on
  any input, an address or not, bracketed or not, IPv4-mapped or zoned) is a fixed point, so the
  bans, counters and lists keyed by it never see two canonical texts of one request.\<close>

theorem CanonicalizeIP_idempotent: "CanonicalizeIP (CanonicalizeIP v) = CanonicalizeIP v"
  using client_ip.norm_stable[of v "CanonicalizeIP v"] by simp

text \<open>two texts that parse have the same canonical text exactly when they denote the same
  address up to the IPv4-mapped form: canonical texts are a faithful key.\<close>

theorem CanonicalizeIP_key:
  assumes "ParseAddr (stripIPBrackets v) = Some a" "ParseAddr (stripIPBrackets w) = Some b"
  shows "CanonicalizeIP v = CanonicalizeIP w \<longleftrightarrow> canonical_addr a = canonical_addr b"
  using assms canonical_addr_ok[OF ParseAddr_ok] netip.print_inj
  by (metis CanonicalizeIP_parse(1))

lemma parse_v4_10001: "ParseAddr ''10.0.0.1'' = Some (V4 [10, 0, 0, 1])"
  by (simp add: ParseAddr_def parse_v4_fields_def is_digit_def digit_val_def)

lemma parse_mapped_10001:
  "ParseAddr ''::ffff:10.0.0.1'' = Some (V6 [0, 0, 0, 0, 0, 65535, 2560, 1] [])"
proof -
  have "v6_loop ''10.0.0.1'' [65535] (Some 0) = Some ([65535, 2560, 1], Some 0, [])"
    by (subst v6_loop.simps) (simp add: is_digit_def hex_digit_def digit_val_def parse_v4_fields_def)
  then have "v6_loop ''ffff:10.0.0.1'' [] (Some 0) = Some ([65535, 2560, 1], Some 0, [])"
    by (subst v6_loop.simps) (simp add: is_digit_def hex_digit_def)
  then show ?thesis
    by (simp add: ParseAddr_def parse_v6_def parse_v6_body_def v6_finish_def go_simps)
qed

theorem CanonicalizeIP_key_witness:
  "CanonicalizeIP ''::ffff:10.0.0.1'' = CanonicalizeIP ''[10.0.0.1]''"
proof -
  have "ParseAddr (stripIPBrackets ''::ffff:10.0.0.1'') = Some (V6 [0, 0, 0, 0, 0, 65535, 2560, 1] [])"
    "ParseAddr (stripIPBrackets ''[10.0.0.1]'') = Some (V4 [10, 0, 0, 1])"
    using parse_v4_10001 parse_mapped_10001
    by (simp_all add: stripIPBrackets_def has_prefix_def has_suffix_def slice_def)
  from CanonicalizeIP_key[OF this] show ?thesis
    by (simp add: canonical_addr_def is4in6_def unmap_def addr_zone_def)
qed

text \<open>an entry of an allow or deny list matches a client exactly when it is a prefix that
  holds the client or its unmapped form, or an address text that denotes the client itself: an
  exact entry is not unmapped, a prefix is, and an entry that does not parse never matches.\<close>

theorem ipMatchesList_iff:
  "ipMatchesList ip entries \<longleftrightarrow>
     (\<exists>a e. ParseAddr ip = Some a \<and> e \<in> set entries \<and>
        (if CHR ''/'' \<in> set e
         then \<exists>p. ParsePrefix e = Some p \<and> (prefix_contains p (unmap a) \<or> prefix_contains p a)
         else ParseAddr e = Some a))"
proof -
  have suffix: "has_suffix e ''/0'' \<Longrightarrow> CHR ''/'' \<in> set e" for e :: string
    by (metis has_suffix_def in_set_dropD list.set_intros(1))
  have exact: "canonicalizeIPString e = addr_String a \<longleftrightarrow> ParseAddr e = Some a" if "addr_ok a" for e a
  proof (cases "ParseAddr e")
    case None
    then show ?thesis using netip.parse_print[OF that] by (auto simp: canonicalizeIPString_def)
  next
    case (Some b)
    then show ?thesis
      using netip.print_inj[OF ParseAddr_ok[OF Some] that] by (auto simp: canonicalizeIPString_def)
  qed
  show ?thesis
  proof (cases "ParseAddr ip")
    case None
    then show ?thesis by (simp add: ipMatchesList_def)
  next
    case (Some a)
    have "ip_entry_matches a e = (if CHR ''/'' \<in> set e
         then \<exists>p. ParsePrefix e = Some p \<and> (prefix_contains p (unmap a) \<or> prefix_contains p a)
         else ParseAddr e = Some a)" for e
      using suffix[of e] exact[OF ParseAddr_ok[OF Some], of e]
      by (auto simp: ip_entry_matches_def split: option.splits)
    then show ?thesis using Some by (auto simp: ipMatchesList_def list_ex_iff)
  qed
qed

end
