(* ===== verification/Dicts.thy ===== *)
theory Dicts
  imports Prelude "HOL-Library.AList"
begin

text \<open>
  Go maps as association lists with distinct keys: how an update and a deletion change the keys and the size.
\<close>

lemma keys_delete: "fst ` set (AList.delete k al) = fst ` set al - {k}"
  by (auto simp: AList.delete_eq)

lemma length_delete:
  assumes "distinct (map fst al)" "k \<in> fst ` set al"
  shows "length (AList.delete k al) = length al - 1"
proof -
  have "length (AList.delete k al) = card (fst ` set (AList.delete k al))"
    using distinct_delete[OF assms(1), of k] by (metis distinct_card length_map set_map)
  also have "\<dots> = card (fst ` set al) - 1" using assms(2) by (simp add: keys_delete)
  also have "card (fst ` set al) = length al" using assms(1) by (metis distinct_card length_map set_map)
  finally show ?thesis .
qed

lemma length_update:
  "length (AList.update k v al) = (if k \<in> fst ` set al then length al else Suc (length al))"
  by (induction al) auto

lemma keys_update: "fst ` set (AList.update k v al) = insert k (fst ` set al)"
  by (induction al) auto

end
