(* ===== verification/IPBan.thy ===== *)
theory IPBan
  imports NetAddr Dicts
begin

text \<open>
  \<open>guardcore/ipban.go\<close>: the local ban cache with its first-in first-out eviction, the in-process
  network bans and the Redis copy of the exact bans. The Redis handler is a Go interface, so it is
  a record of functions over an abstract Redis state \<open>'r\<close>; strings and floats are converted by the
  record \<open>float_text\<close>. An operation reads the clock once (\<open>now\<close>, in seconds); the cache keeps the
  reading rounded down to milliseconds as the code does. Indexing an empty slice panics: that
  branch is the error \<open>Panic\<close>; an error of a handler is \<open>Fault\<close> with its message. Log lines are left out, bus events are the list \<open>bm_events\<close>.
\<close>

section \<open>Interfaces and state\<close>

datatype go_error = GuardRedisError nat string | Fault string | Panic

record float_text =
  ft_format :: "real \<Rightarrow> string"
  ft_parse :: "string \<Rightarrow> real option"

record 'r RedisAdmin =
  ad_ScanMatch :: "string \<Rightarrow> 'r \<Rightarrow> (string + string list) \<times> 'r"
  ad_PTTL :: "string \<Rightarrow> 'r \<Rightarrow> (string + int) \<times> 'r"
  ad_SetPX :: "string \<Rightarrow> string \<Rightarrow> int \<Rightarrow> 'r \<Rightarrow> string option \<times> 'r"
  ad_DeleteKeys :: "string \<Rightarrow> 'r \<Rightarrow> string option \<times> 'r"

record 'r RedisHandler =
  rh_Prefix :: string
  rh_Enabled :: bool
  rh_GetKey :: "string \<Rightarrow> string \<Rightarrow> 'r \<Rightarrow> (string + string) \<times> 'r"
  rh_SetKey :: "string \<Rightarrow> string \<Rightarrow> string \<Rightarrow> int \<Rightarrow> 'r \<Rightarrow> string option \<times> 'r"
  rh_Delete :: "string \<Rightarrow> string \<Rightarrow> 'r \<Rightarrow> string option \<times> 'r"
  rh_DeletePattern :: "string \<Rightarrow> 'r \<Rightarrow> string option \<times> 'r"
  rh_admin :: "'r RedisAdmin option"

definition LOCAL_CACHE_TTL_CAP_SECONDS :: int where
  "LOCAL_CACHE_TTL_CAP_SECONDS = 3600"

definition localCacheMaxSize :: nat where
  "localCacheMaxSize = 10000"

record localBanEntry =
  lb_expiry :: real
  lb_insertTime :: real

record networkBanEntry =
  nb_network :: prefix_t
  nb_expiry :: real

text \<open>An event of the agent bus (\<open>SendHandlerEvent\<close>); the metadata of these handlers is the
  duration of a ban.\<close>

record handler_event =
  he_type :: string
  he_handler :: string
  he_ip :: string
  he_action :: string
  he_reason :: string
  he_duration :: "int option"

text \<open>The manager. The Go map \<open>bannedIPs\<close> is an association list with distinct keys.\<close>

record 'r IPBanManager =
  bannedIPs :: "(string \<times> localBanEntry) list"
  lruOrder :: "string list"
  bannedNetworks :: "networkBanEntry list"
  bm_redis :: "'r RedisHandler option"
  bm_admin :: "'r RedisAdmin option"
  bm_rstate :: 'r
  trustedProxies :: "prefix_t list"
  evictions :: nat
  bm_eventBus :: bool
  bm_events :: "handler_event list"
  banFault :: "(string \<Rightarrow> string option) option"

section \<open>Construction and refusal\<close>

definition parseNetwork :: "string \<Rightarrow> prefix_t option" where
  "parseNetwork value =
     (if CHR ''/'' \<notin> set value
      then map_option (\<lambda>a. PrefixFrom a (bitlen a)) (ParseAddr (CanonicalizeIP value))
      else map_option Masked (ParsePrefix value))"

definition NewIPBanManager :: "'r RedisHandler option \<Rightarrow> 'r \<Rightarrow> string list \<Rightarrow> 'r IPBanManager" where
  "NewIPBanManager redisHandler r proxies =
     \<lparr> bannedIPs = [], lruOrder = [], bannedNetworks = [], bm_redis = redisHandler,
       bm_admin = Option.bind redisHandler rh_admin, bm_rstate = r,
       trustedProxies = List.map_filter parseNetwork proxies, evictions = 0, bm_eventBus = False,
       bm_events = [], banFault = None \<rparr>"

definition sameFamily :: "prefix_t \<Rightarrow> prefix_t \<Rightarrow> bool" where
  "sameFamily a b \<longleftrightarrow> is4 (fst a) = is4 (fst b) \<and> bitlen (fst a) = bitlen (fst b)"

definition loopbackNetworks :: "string list" where
  "loopbackNetworks = [''127.0.0.0/8'', ''::1/128'']"

definition hits :: "prefix_t \<Rightarrow> prefix_t \<Rightarrow> bool" where
  "hits target network \<longleftrightarrow> sameFamily target network \<and> prefix_overlaps target network"

text \<open>The empty string of the source is \<open>None\<close>. The two loopback texts always parse, so the
  ignored error of the source is the failing branch of \<open>map_filter\<close>.\<close>

definition selfDoSRefusalReason :: "'r IPBanManager \<Rightarrow> string \<Rightarrow> string option" where
  "selfDoSRefusalReason m ip =
     (case parseNetwork ip of
        None \<Rightarrow> None
      | Some target \<Rightarrow>
          (if list_ex (hits target) (List.map_filter parseNetwork loopbackNetworks) then Some ''loopback''
           else if list_ex (hits target) (trustedProxies m) then Some ''trusted_proxy''
           else None))"

definition clampToLocalCap :: "int \<Rightarrow> int" where
  "clampToLocalCap duration =
     (if duration \<le> LOCAL_CACHE_TTL_CAP_SECONDS then duration else LOCAL_CACHE_TTL_CAP_SECONDS)"

section \<open>The local cache\<close>

definition localSet :: "string \<Rightarrow> real \<Rightarrow> real \<Rightarrow> 'r IPBanManager \<Rightarrow> 'r IPBanManager option" where
  "localSet ip expiry now m =
     (let full = map_of (bannedIPs m) ip = None \<and> length (bannedIPs m) \<ge> localCacheMaxSize in
      if full \<and> lruOrder m = [] then None
      else
        (let m1 = (if full
                   then m\<lparr>bannedIPs := AList.delete (hd (lruOrder m)) (bannedIPs m),
                          lruOrder := tl (lruOrder m), evictions := evictions m + 1\<rparr>
                   else m);
             m2 = (if map_of (bannedIPs m1) ip = None then m1\<lparr>lruOrder := lruOrder m1 @ [ip]\<rparr> else m1)
         in Some (m2\<lparr>bannedIPs := AList.update ip \<lparr>lb_expiry = expiry, lb_insertTime = now\<rparr> (bannedIPs m2)\<rparr>)))"

definition dropLocal :: "string \<Rightarrow> 'r IPBanManager \<Rightarrow> 'r IPBanManager" where
  "dropLocal ip m =
     m\<lparr>bannedIPs := AList.delete ip (bannedIPs m), lruOrder := remove1 ip (lruOrder m)\<rparr>"

definition localPurge :: "string \<Rightarrow> 'r IPBanManager \<Rightarrow> 'r IPBanManager" where
  "localPurge ip m = (if map_of (bannedIPs m) ip \<noteq> None then dropLocal ip m else m)"

text \<open>\<open>time.Time.UnixMilli\<close> as seconds.\<close>

definition millis :: "real \<Rightarrow> real" where
  "millis t = of_int \<lfloor>t * 1000\<rfloor> / 1000"

definition localGet :: "string \<Rightarrow> real \<Rightarrow> 'r IPBanManager \<Rightarrow> real option \<times> 'r IPBanManager" where
  "localGet ip now m =
     (case map_of (bannedIPs m) ip of
        None \<Rightarrow> (None, m)
      | Some entry \<Rightarrow>
          (if now > lb_expiry entry
              \<or> now > millis (lb_insertTime entry) + of_int LOCAL_CACHE_TTL_CAP_SECONDS
           then (None, dropLocal ip m)
           else (Some (lb_expiry entry), m)))"

section \<open>Banning\<close>

definition sendEvent :: "handler_event \<Rightarrow> 'r IPBanManager \<Rightarrow> 'r IPBanManager" where
  "sendEvent e m = (if bm_eventBus m then m\<lparr>bm_events := bm_events m @ [e]\<rparr> else m)"

definition redisUsable :: "'r IPBanManager \<Rightarrow> 'r RedisHandler option" where
  "redisUsable m =
     (case bm_redis m of None \<Rightarrow> None | Some h \<Rightarrow> if rh_Enabled h then Some h else None)"

text \<open>\<open>banExact\<close>: the error, if any, and the manager after the call.\<close>

definition banExact ::
  "float_text \<Rightarrow> string \<Rightarrow> int \<Rightarrow> real \<Rightarrow> 'r IPBanManager \<Rightarrow> go_error option \<times> 'r IPBanManager" where
  "banExact ft ip duration now m =
     (if ParseAddr ip = None then (Some (GuardRedisError 400 (''Invalid IP address '' @ ip)), m)
      else
        (case redisUsable m of
           None \<Rightarrow>
             (case localSet ip (now + of_int (clampToLocalCap duration)) now m of
                None \<Rightarrow> (Some Panic, m)
              | Some m1 \<Rightarrow> (None, m1))
         | Some h \<Rightarrow>
             (case localSet ip (now + of_int duration) now m of
                None \<Rightarrow> (Some Panic, m)
              | Some m1 \<Rightarrow>
                  (case rh_SetKey h ''banned_ips'' ip (ft_format ft (now + of_int duration)) duration
                          (bm_rstate m1) of
                     (None, r) \<Rightarrow> (None, m1\<lparr>bm_rstate := r\<rparr>)
                   | (Some _, r) \<Rightarrow>
                       (case localSet ip (now + of_int (clampToLocalCap duration)) now (m1\<lparr>bm_rstate := r\<rparr>) of
                          None \<Rightarrow> (Some Panic, m1\<lparr>bm_rstate := r\<rparr>)
                        | Some m2 \<Rightarrow> (None, m2))))))"

definition addNetwork :: "prefix_t \<Rightarrow> real \<Rightarrow> 'r IPBanManager \<Rightarrow> 'r IPBanManager" where
  "addNetwork network expiry m =
     m\<lparr>bannedNetworks := bannedNetworks m @ [\<lparr>nb_network = network, nb_expiry = expiry\<rparr>]\<rparr>"

definition banNetwork ::
  "float_text \<Rightarrow> string \<Rightarrow> int \<Rightarrow> real \<Rightarrow> 'r IPBanManager \<Rightarrow> go_error option \<times> 'r IPBanManager" where
  "banNetwork ft ip duration now m =
     (case ParsePrefix ip of
        None \<Rightarrow> (Some (GuardRedisError 400 (''Invalid CIDR network '' @ ip)), m)
      | Some p \<Rightarrow>
          (let network = Masked p; local = now + of_int (clampToLocalCap duration) in
           case redisUsable m of
             None \<Rightarrow> (None, addNetwork network local m)
           | Some h \<Rightarrow>
               (case rh_SetKey h ''banned_networks'' (prefix_String network)
                       (ft_format ft (now + of_int duration)) duration (bm_rstate m) of
                  (None, r) \<Rightarrow> (None, m\<lparr>bm_rstate := r\<rparr>)
                | (Some _, r) \<Rightarrow> (None, addNetwork network local (m\<lparr>bm_rstate := r\<rparr>)))))"

definition EventIPBanned :: string where "EventIPBanned = ''ip_banned''"
definition EventIPUnbanned :: string where "EventIPUnbanned = ''ip_unbanned''"
definition IPBanHandlerName :: string where "IPBanHandlerName = ''ip_ban''"

definition ban_event :: "string \<Rightarrow> string \<Rightarrow> int \<Rightarrow> handler_event" where
  "ban_event ip reason duration =
     \<lparr>he_type = EventIPBanned, he_handler = IPBanHandlerName, he_ip = ip, he_action = ''banned'',
      he_reason = reason, he_duration = Some duration\<rparr>"

definition banTarget ::
  "float_text \<Rightarrow> string \<Rightarrow> int \<Rightarrow> real \<Rightarrow> 'r IPBanManager \<Rightarrow> go_error option \<times> 'r IPBanManager" where
  "banTarget ft ip duration now m =
     (if CHR ''/'' \<in> set ip then banNetwork ft ip duration now m else banExact ft ip duration now m)"

definition Ban ::
  "float_text \<Rightarrow> string \<Rightarrow> int \<Rightarrow> string \<Rightarrow> real \<Rightarrow> 'r IPBanManager \<Rightarrow> (go_error + bool) \<times> 'r IPBanManager"
where
  "Ban ft ip0 duration reason now m =
     (let ip = CanonicalizeIP ip0 in
      if duration \<le> 0 then (Inl (GuardRedisError 400 ''ban duration must be positive''), m)
      else
        (case (case banFault m of None \<Rightarrow> None | Some fault \<Rightarrow> fault ip) of
           Some e \<Rightarrow> (Inl (Fault e), m)
         | None \<Rightarrow>
             (if selfDoSRefusalReason m ip \<noteq> None then (Inr False, m)
              else
                (case banTarget ft ip duration now m of
                   (Some e, m1) \<Rightarrow> (Inl e, m1)
                 | (None, m1) \<Rightarrow> (Inr True, sendEvent (ban_event ip reason duration) m1)))))"

section \<open>Lookup and removal\<close>

definition network_hit :: "addr \<Rightarrow> networkBanEntry \<Rightarrow> bool" where
  "network_hit a e \<longleftrightarrow> bitlen (fst (nb_network e)) = bitlen a \<and> prefix_contains (nb_network e) a"

definition checkNetworkCache :: "addr \<Rightarrow> real \<Rightarrow> 'r IPBanManager \<Rightarrow> bool \<times> 'r IPBanManager" where
  "checkNetworkCache a now m =
     (let active = filter (\<lambda>e. \<not> nb_expiry e \<le> now) (bannedNetworks m) in
      (list_ex (network_hit a) active, m\<lparr>bannedNetworks := active\<rparr>))"

definition checkRedisExact ::
  "float_text \<Rightarrow> 'r RedisHandler \<Rightarrow> string \<Rightarrow> real \<Rightarrow> 'r IPBanManager \<Rightarrow> (go_error + bool) \<times> 'r IPBanManager"
where
  "checkRedisExact ft h ip now m =
     (case rh_GetKey h ''banned_ips'' ip (bm_rstate m) of
        (Inl _, r) \<Rightarrow> (Inr False, m\<lparr>bm_rstate := r\<rparr>)
      | (Inr value, r) \<Rightarrow>
          (let m1 = m\<lparr>bm_rstate := r\<rparr> in
           if value = [] then (Inr False, m1)
           else
             (case ft_parse ft value of
                None \<Rightarrow> (Inr False, m1)
              | Some expiry \<Rightarrow>
                  (if now \<le> expiry then
                     (case localSet ip expiry now m1 of
                        None \<Rightarrow> (Inl Panic, m1)
                      | Some m2 \<Rightarrow> (Inr True, m2))
                   else (Inr False, m1\<lparr>bm_rstate := snd (rh_Delete h ''banned_ips'' ip (bm_rstate m1))\<rparr>)))))"

definition IsIPBanned ::
  "float_text \<Rightarrow> string \<Rightarrow> real \<Rightarrow> 'r IPBanManager \<Rightarrow> (go_error + bool) \<times> 'r IPBanManager" where
  "IsIPBanned ft ip0 now m =
     (let ip = CanonicalizeIP ip0 in
      case localGet ip now m of
        (Some _, m1) \<Rightarrow> (Inr True, m1)
      | (None, m1) \<Rightarrow>
          (case ParseAddr ip of
             None \<Rightarrow> (Inr False, m1)
           | Some a \<Rightarrow>
               (case checkNetworkCache a now m1 of
                  (True, m2) \<Rightarrow> (Inr True, m2)
                | (False, m2) \<Rightarrow>
                    (case redisUsable m2 of
                       None \<Rightarrow> (Inr False, m2)
                     | Some h \<Rightarrow> checkRedisExact ft h ip now m2))))"

definition unban_event :: "string \<Rightarrow> handler_event" where
  "unban_event ip =
     \<lparr>he_type = EventIPUnbanned, he_handler = IPBanHandlerName, he_ip = ip, he_action = ''unbanned'',
      he_reason = ''dynamic_rule_whitelist'', he_duration = None\<rparr>"

definition Unban :: "string \<Rightarrow> 'r IPBanManager \<Rightarrow> go_error option \<times> 'r IPBanManager" where
  "Unban ip0 m =
     (let ip = CanonicalizeIP ip0; m1 = localPurge ip m in
      case redisUsable m1 of
        None \<Rightarrow> (None, sendEvent (unban_event ip) m1)
      | Some h \<Rightarrow>
          (case rh_Delete h ''banned_ips'' ip (bm_rstate m1) of
             (Some e, r) \<Rightarrow> (Some (Fault e), m1\<lparr>bm_rstate := r\<rparr>)
           | (None, r) \<Rightarrow> (None, sendEvent (unban_event ip) (m1\<lparr>bm_rstate := r\<rparr>))))"

definition ban_Reset :: "'r IPBanManager \<Rightarrow> go_error option \<times> 'r IPBanManager" where
  "ban_Reset m =
     (let m1 = m\<lparr>bannedIPs := [], lruOrder := [], bannedNetworks := []\<rparr> in
      case redisUsable m1 of
        None \<Rightarrow> (None, m1)
      | Some h \<Rightarrow>
          (case rh_DeletePattern h ''banned_ips:*'' (bm_rstate m1) of (e, r) \<Rightarrow> (map_option Fault e, m1\<lparr>bm_rstate := r\<rparr>)))"

definition SetBanFault :: "(string \<Rightarrow> string option) option \<Rightarrow> 'r IPBanManager \<Rightarrow> 'r IPBanManager" where
  "SetBanFault fault m = m\<lparr>banFault := fault\<rparr>"

definition ban_SetEventBus :: "bool \<Rightarrow> 'r IPBanManager \<Rightarrow> 'r IPBanManager" where
  "ban_SetEventBus bus m = m\<lparr>bm_eventBus := bus\<rparr>"

section \<open>Migration of legacy keys\<close>

definition redis_error :: "string option \<times> 'r \<Rightarrow> go_error option \<times> 'r" where
  "redis_error x = (map_option Fault (fst x), snd x)"

definition migrateOneBanKey ::
  "'r RedisHandler \<Rightarrow> 'r RedisAdmin \<Rightarrow> string \<Rightarrow> string \<Rightarrow> 'r \<Rightarrow> go_error option \<times> 'r" where
  "migrateOneBanKey h ad key prefix0 r =
     (if length key < length prefix0 then (Some Panic, r)
      else
        (let rawIP = drop (length prefix0) key; canonicalIP = CanonicalizeIP rawIP in
         if canonicalIP = rawIP then (None, r)
         else
           (case rh_GetKey h ''banned_ips'' rawIP r of
              (Inl e, r1) \<Rightarrow> (Some (Fault e), r1)
            | (Inr value, r1) \<Rightarrow>
                (case ad_PTTL ad key r1 of
                   (Inl e, r2) \<Rightarrow> (Some (Fault e), r2)
                 | (Inr oldPTTL, r2) \<Rightarrow>
                     (if oldPTTL \<le> 0 then redis_error (ad_DeleteKeys ad key r2)
                      else
                        (let canonicalKey = prefix0 @ canonicalIP in
                         case ad_PTTL ad canonicalKey r2 of
                           (Inl e, r3) \<Rightarrow> (Some (Fault e), r3)
                         | (Inr newPTTL, r3) \<Rightarrow>
                             (if newPTTL < oldPTTL then
                                (case ad_SetPX ad canonicalKey value oldPTTL r3 of
                                   (Some e, r4) \<Rightarrow> (Some (Fault e), r4)
                                 | (None, r4) \<Rightarrow> redis_error (ad_DeleteKeys ad key r4))
                              else redis_error (ad_DeleteKeys ad key r3))))))))"

fun migrate_keys ::
  "'r RedisHandler \<Rightarrow> 'r RedisAdmin \<Rightarrow> string \<Rightarrow> string list \<Rightarrow> 'r \<Rightarrow> 'r option" where
  "migrate_keys h ad prefix0 [] r = Some r"
| "migrate_keys h ad prefix0 (key # keys) r =
     (case migrateOneBanKey h ad key prefix0 r of
        (Some Panic, r1) \<Rightarrow> None
      | (_, r1) \<Rightarrow> migrate_keys h ad prefix0 keys r1)"

definition migrateLegacyBanKeys :: "'r IPBanManager \<Rightarrow> 'r IPBanManager option" where
  "migrateLegacyBanKeys m =
     (case redisUsable m of
        None \<Rightarrow> Some m
      | Some h \<Rightarrow>
          (case bm_admin m of
             None \<Rightarrow> Some m
           | Some ad \<Rightarrow>
               (let prefix0 = rh_Prefix h @ ''banned_ips:'' in
                case ad_ScanMatch ad (prefix0 @ ''*'') (bm_rstate m) of
                  (Inl _, r) \<Rightarrow> Some (m\<lparr>bm_rstate := r\<rparr>)
                | (Inr keys, r) \<Rightarrow>
                    map_option (\<lambda>r'. m\<lparr>bm_rstate := r'\<rparr>) (migrate_keys h ad prefix0 keys r))))"

definition ban_InitializeRedis :: "'r RedisHandler \<Rightarrow> 'r \<Rightarrow> 'r IPBanManager \<Rightarrow> 'r IPBanManager option" where
  "ban_InitializeRedis h r m =
     migrateLegacyBanKeys
       (m\<lparr>bm_redis := Some h, bm_rstate := r,
          bm_admin := (case rh_admin h of None \<Rightarrow> bm_admin m | Some ad \<Rightarrow> Some ad)\<rparr>)"

definition BannedNetworkCount :: "'r IPBanManager \<Rightarrow> nat" where
  "BannedNetworkCount m = length (bannedNetworks m)"

definition BannedIPCount :: "'r IPBanManager \<Rightarrow> nat" where
  "BannedIPCount m = length (bannedIPs m)"

section \<open>The cache invariant\<close>

definition cache_ok :: "'r IPBanManager \<Rightarrow> bool" where
  "cache_ok m \<longleftrightarrow>
     distinct (map fst (bannedIPs m)) \<and> distinct (lruOrder m)
     \<and> set (lruOrder m) = fst ` set (bannedIPs m) \<and> length (bannedIPs m) \<le> localCacheMaxSize"

lemma cache_ok_update [simp]:
  "cache_ok (m\<lparr>bm_rstate := r\<rparr>) = cache_ok m" "cache_ok (m\<lparr>bm_events := es\<rparr>) = cache_ok m"
  "cache_ok (m\<lparr>bannedNetworks := ns\<rparr>) = cache_ok m" "cache_ok (m\<lparr>bm_redis := h\<rparr>) = cache_ok m"
  "cache_ok (m\<lparr>bm_admin := ad\<rparr>) = cache_ok m" "cache_ok (m\<lparr>banFault := f\<rparr>) = cache_ok m"
  "cache_ok (m\<lparr>bm_eventBus := b\<rparr>) = cache_ok m"
  by (simp_all add: cache_ok_def)

lemma cache_ok_length: "cache_ok m \<Longrightarrow> length (lruOrder m) = length (bannedIPs m)"
  using distinct_card[of "lruOrder m"] distinct_card[of "map fst (bannedIPs m)"] by (simp add: cache_ok_def)

lemma map_of_None_keys: "map_of al k = None \<longleftrightarrow> k \<notin> fst ` set al"
  by (simp add: map_of_eq_None_iff)

text \<open>\<open>localSet\<close> never panics on a consistent cache: it stores the entry, and at most the oldest
  key leaves.\<close>

definition evicted :: "string \<Rightarrow> 'r IPBanManager \<Rightarrow> string set" where
  "evicted ip m =
     (if map_of (bannedIPs m) ip = None \<and> length (bannedIPs m) \<ge> localCacheMaxSize
      then {hd (lruOrder m)} else {})"

lemma localSet_ok:
  assumes "cache_ok m"
  obtains m' where "localSet ip expiry now m = Some m'" "cache_ok m'"
    "map_of (bannedIPs m') = (map_of (bannedIPs m) |` (- evicted ip m))(ip \<mapsto> \<lparr>lb_expiry = expiry, lb_insertTime = now\<rparr>)"
    "\<exists>bs l ev. m' = m\<lparr>bannedIPs := bs, lruOrder := l, evictions := ev\<rparr>"
proof -
  have len: "length (lruOrder m) = length (bannedIPs m)" using assms by (rule cache_ok_length)
  have c: "distinct (map fst (bannedIPs m))" "distinct (lruOrder m)"
    "set (lruOrder m) = fst ` set (bannedIPs m)" "length (bannedIPs m) \<le> localCacheMaxSize"
    using assms by (auto simp: cache_ok_def)
  show ?thesis
  proof (cases "map_of (bannedIPs m) ip = None \<and> length (bannedIPs m) \<ge> localCacheMaxSize")
    case True
    then have "lruOrder m \<noteq> []" using len by (auto simp: localCacheMaxSize_def)
    then obtain v l where vl: "lruOrder m = v # l" by (cases "lruOrder m") auto
    let ?bs = "AList.delete v (bannedIPs m)"
    have ip: "ip \<notin> fst ` set (bannedIPs m)" using True by (simp add: map_of_None_keys)
    have ip': "map_of ?bs ip = None" using ip by (simp add: map_of_None_keys keys_delete)
    let ?m' = "m\<lparr>bannedIPs := AList.update ip \<lparr>lb_expiry = expiry, lb_insertTime = now\<rparr> ?bs,
      lruOrder := l @ [ip], evictions := evictions m + 1\<rparr>"
    have "localSet ip expiry now m = Some ?m'"
      using True vl ip' by (simp add: localSet_def Let_def)
    moreover have "cache_ok ?m'"
    proof -
      have "v \<in> fst ` set (bannedIPs m)" using c(3) vl by auto
      then have "length ?bs = length (bannedIPs m) - 1" using c(1) by (rule length_delete[rotated])
      then show ?thesis
        using c vl ip True
        by (auto simp: cache_ok_def keys_update keys_delete length_update distinct_update distinct_delete localCacheMaxSize_def)
    qed
    moreover have "evicted ip m = {v}" using True vl by (simp add: evicted_def)
    then have "map_of (bannedIPs ?m')
        = (map_of (bannedIPs m) |` (- evicted ip m))(ip \<mapsto> \<lparr>lb_expiry = expiry, lb_insertTime = now\<rparr>)"
      by (simp add: update_conv' delete_conv' Map.restrict_complement_singleton_eq)
    ultimately show ?thesis using that[of ?m'] by blast
  next
    case False
    let ?m' = "m\<lparr>bannedIPs := AList.update ip \<lparr>lb_expiry = expiry, lb_insertTime = now\<rparr> (bannedIPs m),
      lruOrder := (if map_of (bannedIPs m) ip = None then lruOrder m @ [ip] else lruOrder m)\<rparr>"
    have "localSet ip expiry now m = Some ?m'"
      using False by (auto simp: localSet_def Let_def)
    moreover have "cache_ok ?m'"
      using c False
      by (auto simp: cache_ok_def keys_update length_update distinct_update map_of_None_keys insert_absorb)
    moreover have "evicted ip m = {}" using False by (simp add: evicted_def)
    then have "map_of (bannedIPs ?m')
        = (map_of (bannedIPs m) |` (- evicted ip m))(ip \<mapsto> \<lparr>lb_expiry = expiry, lb_insertTime = now\<rparr>)"
      by (simp add: update_conv' fun_eq_iff restrict_map_def)
    moreover have "?m' = m\<lparr>bannedIPs := bannedIPs ?m', lruOrder := lruOrder ?m', evictions := evictions m\<rparr>"
      by simp
    ultimately show ?thesis using that[of ?m'] by blast
  qed
qed

lemma dropLocal_ok: "cache_ok m \<Longrightarrow> cache_ok (dropLocal ip m)"
  using length_delete_le[of ip "bannedIPs m"]
  by (auto simp: cache_ok_def dropLocal_def distinct_delete keys_delete)

lemma localPurge_ok: "cache_ok m \<Longrightarrow> cache_ok (localPurge ip m)"
  by (simp add: localPurge_def dropLocal_ok)

lemma localGet_ok: "cache_ok m \<Longrightarrow> cache_ok (snd (localGet ip now m))"
  by (auto simp: localGet_def dropLocal_ok split: option.splits)

section \<open>Every operation keeps the invariant and none panics\<close>

lemma sendEvent_ok [simp]: "cache_ok (sendEvent e m) = cache_ok m"
  by (simp add: sendEvent_def)

lemma banExact_ok:
  assumes "cache_ok m"
  shows "cache_ok (snd (banExact ft ip duration now m)) \<and> fst (banExact ft ip duration now m) \<noteq> Some Panic"
proof -
  have set_ok: "\<exists>m'. localSet ip e now n = Some m' \<and> cache_ok m'" if "cache_ok n" for e and n :: "'a IPBanManager"
    using localSet_ok[OF that] by metis
  obtain m1 where m1: "localSet ip (now + of_int (clampToLocalCap duration)) now m = Some m1" "cache_ok m1"
    using set_ok[OF assms] by blast
  obtain m2 where m2: "localSet ip (now + of_int duration) now m = Some m2" "cache_ok m2"
    using set_ok[OF assms] by blast
  have "\<exists>m'. localSet ip (now + of_int (clampToLocalCap duration)) now (m2\<lparr>bm_rstate := r\<rparr>) = Some m' \<and> cache_ok m'" for r
    using m2(2) by (intro set_ok) simp
  then show ?thesis
    using assms m1 m2 unfolding banExact_def
    by (auto split: option.split prod.split) (metis option.distinct(1) option.inject)+
qed

lemma banNetwork_ok:
  assumes "cache_ok m"
  shows "cache_ok (snd (banNetwork ft ip duration now m)) \<and> fst (banNetwork ft ip duration now m) \<noteq> Some Panic"
  using assms by (auto simp: banNetwork_def addNetwork_def Let_def split: option.split prod.split)

lemma Ban_ok:
  assumes "cache_ok m"
  shows "cache_ok (snd (Ban ft ip duration reason now m)) \<and> fst (Ban ft ip duration reason now m) \<noteq> Inl Panic"
  using banExact_ok[OF assms, of ft "CanonicalizeIP ip" duration now]
    banNetwork_ok[OF assms, of ft "CanonicalizeIP ip" duration now] assms
  by (auto simp: Ban_def banTarget_def Let_def split: option.split prod.split)

lemma checkNetworkCache_ok: "cache_ok m \<Longrightarrow> cache_ok (snd (checkNetworkCache a now m))"
  by (simp add: checkNetworkCache_def Let_def)

lemma checkRedisExact_ok:
  assumes "cache_ok m"
  shows "cache_ok (snd (checkRedisExact ft h ip now m)) \<and> fst (checkRedisExact ft h ip now m) \<noteq> Inl Panic"
proof -
  have "\<exists>m'. localSet ip e now (m\<lparr>bm_rstate := r\<rparr>) = Some m' \<and> cache_ok m'" for e r
    using assms localSet_ok[of "m\<lparr>bm_rstate := r\<rparr>"] by (metis cache_ok_update(1))
  then show ?thesis
    using assms unfolding checkRedisExact_def
    by (auto simp: Let_def split: option.split prod.split sum.split) (metis option.distinct(1) option.inject)+
qed

lemma IsIPBanned_ok:
  assumes "cache_ok m"
  shows "cache_ok (snd (IsIPBanned ft ip now m)) \<and> fst (IsIPBanned ft ip now m) \<noteq> Inl Panic"
proof -
  obtain hit m1 where g: "localGet (CanonicalizeIP ip) now m = (hit, m1)" by force
  have m1: "cache_ok m1" using localGet_ok[OF assms, of "CanonicalizeIP ip" now] g by simp
  have n: "cache_ok (snd (checkNetworkCache a now m1))" for a using m1 by (rule checkNetworkCache_ok)
  show ?thesis
    using g m1 n checkRedisExact_ok[OF n]
    by (auto simp: IsIPBanned_def Let_def split: option.split prod.split bool.split)
      (metis snd_conv)+
qed

lemma redisUsable_update [simp]:
  "redisUsable (m\<lparr>bannedIPs := b, lruOrder := l\<rparr>) = redisUsable m"
  "redisUsable (m\<lparr>bm_rstate := r\<rparr>) = redisUsable m"
  by (simp_all add: redisUsable_def)

lemma Unban_ok:
  "cache_ok m \<Longrightarrow> cache_ok (snd (Unban ip m)) \<and> fst (Unban ip m) \<noteq> Some Panic"
  by (auto simp: Unban_def Let_def localPurge_ok split: option.split prod.split)

lemma ban_Reset_ok: "cache_ok (snd (ban_Reset m)) \<and> fst (ban_Reset m) \<noteq> Some Panic"
  by (auto simp: ban_Reset_def Let_def cache_ok_def split: option.split prod.split)

text \<open>The operations of the manager as one step function.\<close>

datatype ban_op =
    OpBan string int string real
  | OpIsIPBanned string real
  | OpUnban string
  | OpReset
  | OpSetBanFault "(string \<Rightarrow> string option) option"
  | OpSetEventBus bool

fun ban_step :: "float_text \<Rightarrow> ban_op \<Rightarrow> 'r IPBanManager \<Rightarrow> (go_error + bool) \<times> 'r IPBanManager" where
  "ban_step ft (OpBan ip duration reason now) m = Ban ft ip duration reason now m"
| "ban_step ft (OpIsIPBanned ip now) m = IsIPBanned ft ip now m"
| "ban_step ft (OpUnban ip) m =
     (case Unban ip m of (e, m1) \<Rightarrow> ((case e of None \<Rightarrow> Inr True | Some x \<Rightarrow> Inl x), m1))"
| "ban_step ft OpReset m =
     (case ban_Reset m of (e, m1) \<Rightarrow> ((case e of None \<Rightarrow> Inr True | Some x \<Rightarrow> Inl x), m1))"
| "ban_step ft (OpSetBanFault f) m = (Inr True, SetBanFault f m)"
| "ban_step ft (OpSetEventBus b) m = (Inr True, ban_SetEventBus b m)"

lemma ban_step_ok:
  assumes "cache_ok m"
  shows "cache_ok (snd (ban_step ft x m)) \<and> fst (ban_step ft x m) \<noteq> Inl Panic"
proof (cases x)
  case (OpUnban ip)
  then show ?thesis using Unban_ok[OF assms, of ip] by (auto split: prod.split option.split)
next
  case OpReset
  then show ?thesis using ban_Reset_ok[of m] by (auto split: prod.split option.split)
next
  case (OpBan ip duration reason now)
  then show ?thesis using Ban_ok[OF assms] by simp
next
  case (OpIsIPBanned ip now)
  then show ?thesis using IsIPBanned_ok[OF assms] by simp
qed (use assms in \<open>auto simp: SetBanFault_def ban_SetEventBus_def\<close>)

interpretation ban_manager: component "ban_step ft" cache_ok "\<lambda>out. out \<noteq> Inl Panic" for ft
  by unfold_locales (simp_all add: ban_step_ok)

lemma New_ok: "cache_ok (NewIPBanManager h r proxies)"
  by (simp add: cache_ok_def NewIPBanManager_def)

section \<open>What the operations do\<close>

lemma millis_le: "millis t \<le> t"
proof -
  have "of_int \<lfloor>t * 1000\<rfloor> \<le> t * 1000" by simp
  then show ?thesis by (simp add: millis_def)
qed

text \<open>The three sources of a ban: a live local entry, a live network, a live Redis value.\<close>

definition local_live :: "string \<Rightarrow> real \<Rightarrow> 'r IPBanManager \<Rightarrow> bool" where
  "local_live ip now m \<longleftrightarrow>
     (\<exists>e. map_of (bannedIPs m) ip = Some e \<and> now \<le> lb_expiry e
        \<and> now \<le> millis (lb_insertTime e) + of_int LOCAL_CACHE_TTL_CAP_SECONDS)"

definition network_live :: "string \<Rightarrow> real \<Rightarrow> 'r IPBanManager \<Rightarrow> bool" where
  "network_live ip now m \<longleftrightarrow>
     (\<exists>a e. ParseAddr ip = Some a \<and> e \<in> set (bannedNetworks m) \<and> now < nb_expiry e
        \<and> prefix_contains (nb_network e) a)"

definition redis_live :: "float_text \<Rightarrow> string \<Rightarrow> real \<Rightarrow> 'r IPBanManager \<Rightarrow> bool" where
  "redis_live ft ip now m \<longleftrightarrow>
     (\<exists>h v x. ParseAddr ip \<noteq> None \<and> redisUsable m = Some h
        \<and> fst (rh_GetKey h ''banned_ips'' ip (bm_rstate m)) = Inr v \<and> v \<noteq> []
        \<and> ft_parse ft v = Some x \<and> now \<le> x)"

lemma localGet_None_iff: "fst (localGet ip now m) = None \<longleftrightarrow> \<not> local_live ip now m"
  by (auto simp: localGet_def local_live_def split: option.splits)

lemma localGet_frame [simp]:
  "bannedNetworks (snd (localGet ip now m)) = bannedNetworks m"
  "bm_rstate (snd (localGet ip now m)) = bm_rstate m"
  "redisUsable (snd (localGet ip now m)) = redisUsable m"
  by (auto simp: localGet_def dropLocal_def redisUsable_def split: option.splits)

lemma checkNetworkCache_fst:
  "fst (checkNetworkCache a now m)
     \<longleftrightarrow> (\<exists>e\<in>set (bannedNetworks m). now < nb_expiry e \<and> prefix_contains (nb_network e) a)"
  by (auto simp: checkNetworkCache_def Let_def list_ex_iff network_hit_def prefix_contains_def not_le)

lemma checkNetworkCache_frame [simp]:
  "bm_rstate (snd (checkNetworkCache a now m)) = bm_rstate m"
  "redisUsable (snd (checkNetworkCache a now m)) = redisUsable m"
  by (simp_all add: checkNetworkCache_def redisUsable_def Let_def)

lemma checkRedisExact_fst:
  assumes "cache_ok m" "ParseAddr ip \<noteq> None" "redisUsable m = Some h"
  shows "fst (checkRedisExact ft h ip now m) = Inr (redis_live ft ip now m)"
proof -
  have "\<exists>m'. localSet ip e now (m\<lparr>bm_rstate := r\<rparr>) = Some m'" for e r
    using assms(1) localSet_ok[of "m\<lparr>bm_rstate := r\<rparr>"] by (metis cache_ok_update(1))
  then show ?thesis
    using assms(2,3) unfolding checkRedisExact_def redis_live_def
    by (auto simp: Let_def split: option.split prod.split sum.split) (metis option.distinct(1))+
qed

lemma IsIPBanned_fst:
  assumes "cache_ok m"
  shows "fst (IsIPBanned ft ip0 now m) =
     (let ip = CanonicalizeIP ip0
      in Inr (local_live ip now m \<or> network_live ip now m \<or> redis_live ft ip now m))"
proof -
  define ip where "ip = CanonicalizeIP ip0"
  obtain hit m1 where g: "localGet ip now m = (hit, m1)" by force
  have m1: "cache_ok m1" using localGet_ok[OF assms, of ip now] g by simp
  have fr: "bannedNetworks m1 = bannedNetworks m" "bm_rstate m1 = bm_rstate m" "redisUsable m1 = redisUsable m"
    using localGet_frame[of ip now m] g by simp_all
  show ?thesis
  proof (cases hit)
    case (Some x)
    then show ?thesis
      using g localGet_None_iff[of ip now m] by (simp add: IsIPBanned_def ip_def[symmetric] Let_def)
  next
    case None
    then have nl: "\<not> local_live ip now m" using g localGet_None_iff[of ip now m] by simp
    show ?thesis
    proof (cases "ParseAddr ip")
      case None
      then show ?thesis using g nl \<open>hit = None\<close>
        by (simp add: IsIPBanned_def ip_def[symmetric] Let_def network_live_def redis_live_def)
    next
      case (Some a)
      obtain b m2 where n: "checkNetworkCache a now m1 = (b, m2)" by force
      have b: "b \<longleftrightarrow> network_live ip now m"
        using checkNetworkCache_fst[of a now m1] n fr Some by (auto simp: network_live_def)
      have m2: "cache_ok m2" "bm_rstate m2 = bm_rstate m" "redisUsable m2 = redisUsable m"
        using checkNetworkCache_ok[OF m1, of a now] checkNetworkCache_frame[of a now m1] n fr by simp_all
      have "redis_live ft ip now m2 = redis_live ft ip now m" using m2 by (simp add: redis_live_def)
      then show ?thesis
        using g nl \<open>hit = None\<close> Some n b m2(3) checkRedisExact_fst[OF m2(1), of ip _ ft now]
        by (cases b; cases "redisUsable m")
          (auto simp: IsIPBanned_def ip_def[symmetric] Let_def redis_live_def)
    qed
  qed
qed

lemma banExact_stores:
  assumes "cache_ok m" "fst (banExact ft ip duration now m) = None"
  shows "\<exists>e. map_of (bannedIPs (snd (banExact ft ip duration now m))) ip = Some e
     \<and> lb_insertTime e = now \<and> lb_expiry e \<ge> now + of_int (clampToLocalCap duration)"
proof -
  have stores: "\<exists>n'. localSet ip e now n = Some n' \<and> cache_ok n'
      \<and> map_of (bannedIPs n') ip = Some \<lparr>lb_expiry = e, lb_insertTime = now\<rparr>"
    if "cache_ok n" for e and n :: "'a IPBanManager"
    by (rule localSet_ok[OF that, of ip e now]) auto
  have clamp: "clampToLocalCap duration \<le> duration" by (simp add: clampToLocalCap_def)
  obtain m1 where m1: "localSet ip (now + of_int (clampToLocalCap duration)) now m = Some m1"
    "map_of (bannedIPs m1) ip = Some \<lparr>lb_expiry = now + of_int (clampToLocalCap duration), lb_insertTime = now\<rparr>"
    using stores[OF assms(1)] by blast
  obtain m2 where m2: "localSet ip (now + of_int duration) now m = Some m2" "cache_ok m2"
    "map_of (bannedIPs m2) ip = Some \<lparr>lb_expiry = now + of_int duration, lb_insertTime = now\<rparr>"
    using stores[OF assms(1)] by blast
  have m3: "\<exists>n'. localSet ip (now + of_int (clampToLocalCap duration)) now (m2\<lparr>bm_rstate := r\<rparr>) = Some n'
      \<and> map_of (bannedIPs n') ip = Some \<lparr>lb_expiry = now + of_int (clampToLocalCap duration), lb_insertTime = now\<rparr>" for r
    using stores[of "m2\<lparr>bm_rstate := r\<rparr>"] m2(2) by auto
  have valid: "ParseAddr ip \<noteq> None" by (rule notI) (use assms(2) in \<open>simp add: banExact_def\<close>)
  show ?thesis
  proof (cases "redisUsable m")
    case None
    then show ?thesis using m1 valid by (auto simp: banExact_def)
  next
    case (Some h)
    obtain e r where sk: "rh_SetKey h ''banned_ips'' ip (ft_format ft (now + of_int duration)) duration (bm_rstate m2) = (e, r)"
      by force
    show ?thesis
    proof (cases e)
      case None
      then show ?thesis using Some sk m2 valid clamp by (auto simp: banExact_def)
    next
      case (Some x)
      then show ?thesis using \<open>redisUsable m = Some h\<close> sk m2 m3[of r] valid by (auto simp: banExact_def)
    qed
  qed
qed

lemma Ban_TrueD:
  assumes "fst (Ban ft ip0 duration reason now m) = Inr True"
  shows "0 < duration" "fst (banTarget ft (CanonicalizeIP ip0) duration now m) = None"
    "snd (Ban ft ip0 duration reason now m)
       = sendEvent (ban_event (CanonicalizeIP ip0) reason duration)
           (snd (banTarget ft (CanonicalizeIP ip0) duration now m))"
  using assms by (auto simp: Ban_def Let_def split: if_splits option.splits prod.splits)

lemma sendEvent_frame [simp]: "bannedIPs (sendEvent e m) = bannedIPs m"
  "bannedNetworks (sendEvent e m) = bannedNetworks m" "redisUsable (sendEvent e m) = redisUsable m"
  "bm_rstate (sendEvent e m) = bm_rstate m"
  by (simp_all add: sendEvent_def redisUsable_def)

lemma Ban_local_live:
  assumes "cache_ok m" "fst (Ban ft ip duration reason now m) = Inr True"
    "CHR ''/'' \<notin> set (CanonicalizeIP ip)" "t \<le> now + of_int duration"
    "t \<le> millis now + of_int LOCAL_CACHE_TTL_CAP_SECONDS"
  shows "local_live (CanonicalizeIP ip) t (snd (Ban ft ip duration reason now m))
    \<and> cache_ok (snd (Ban ft ip duration reason now m))"
proof -
  let ?ip = "CanonicalizeIP ip" and ?m = "snd (Ban ft ip duration reason now m)"
  have t: "fst (banExact ft ?ip duration now m) = None"
    "bannedIPs ?m = bannedIPs (snd (banExact ft ?ip duration now m))"
    using Ban_TrueD[OF assms(2)] assms(3) by (simp_all add: banTarget_def)
  obtain e where e: "map_of (bannedIPs ?m) ?ip = Some e" "lb_insertTime e = now"
    "lb_expiry e \<ge> now + of_int (clampToLocalCap duration)"
    using banExact_stores[OF assms(1) t(1)] t(2) by auto
  have "t \<le> now + of_int (clampToLocalCap duration)"
    using assms(4,5) millis_le[of now] by (simp add: clampToLocalCap_def)
  then have "local_live ?ip t ?m" using e assms(5) by (auto simp: local_live_def)
  moreover have "cache_ok ?m" using Ban_ok[OF assms(1)] by blast
  ultimately show ?thesis by simp
qed

section \<open>Refusals\<close>

definition proxies_ok :: "'r IPBanManager \<Rightarrow> bool" where
  "proxies_ok m \<longleftrightarrow> (\<forall>p\<in>set (trustedProxies m). prefix_ok p)"

lemma length_mask_fields [simp]: "length (mask_fields w n xs) = length xs"
  by (induction xs arbitrary: n) auto

lemma mask_fields_less: "x \<in> set (mask_fields w n xs) \<Longrightarrow> \<forall>y\<in>set xs. y < b \<Longrightarrow> x < b"
proof (induction xs arbitrary: n)
  case (Cons a xs)
  show ?case
  proof (cases "n \<ge> w")
    case True
    then show ?thesis using Cons.prems Cons.IH[of "n - w"] by auto
  next
    case False
    have "a div 2 ^ (w - n) * 2 ^ (w - n) \<le> a" by simp
    then have "a div 2 ^ (w - n) * 2 ^ (w - n) < b" "0 < b" using Cons.prems(2) by (simp_all, linarith+)
    then show ?thesis using Cons.prems(1) False by auto
  qed
qed simp

lemma Masked_ok:
  assumes "prefix_ok p"
  shows "prefix_ok (Masked p)"
proof (cases "fst p")
  case (V4 os)
  then show ?thesis using assms mask_fields_less[of _ 8 "snd p" os 256]
    by (auto simp: prefix_ok_def Masked_def mask_addr_def addr_zone_def)
next
  case (V6 gs z)
  then show ?thesis using assms mask_fields_less[of _ 16 "snd p" gs 65536]
    by (auto simp: prefix_ok_def Masked_def mask_addr_def addr_zone_def)
qed

lemma PrefixFrom_ok: "addr_ok a \<Longrightarrow> prefix_ok (PrefixFrom a n)"
  by (cases a) (simp_all add: prefix_ok_def PrefixFrom_def addr_zone_def)

lemma parseNetwork_ok: "parseNetwork s = Some p \<Longrightarrow> prefix_ok p"
  using PrefixFrom_ok[OF ParseAddr_ok] Masked_ok[OF ParsePrefix_ok]
  by (auto simp: parseNetwork_def split: if_splits)

lemma New_proxies_ok: "proxies_ok (NewIPBanManager h r proxies)"
  by (auto simp: proxies_ok_def NewIPBanManager_def map_filter_def dest: parseNetwork_ok)

lemma parse_loopback4: "parseNetwork ''127.0.0.0/8'' = Some (V4 [127, 0, 0, 0], 8)"
  by (simp add: parseNetwork_def ParsePrefix_def last_index_byte_def ParseAddr_def parse_v4_fields_def
      is_digit_def digit_val_def addr_zone_def PrefixFrom_def bitlen_def Masked_def mask_addr_def)

lemma parse_v6_one: "ParseAddr ''::1'' = Some (V6 [0, 0, 0, 0, 0, 0, 0, 1] [])"
proof -
  have "v6_loop ''1'' [] (Some 0) = Some ([1], Some 0, [])"
    by (subst v6_loop.simps) (simp add: is_digit_def hex_digit_def)
  then show ?thesis by (simp add: ParseAddr_def parse_v6_def parse_v6_body_def v6_finish_def go_simps)
qed

lemma parse_loopback6: "parseNetwork ''::1/128'' = Some (V6 [0, 0, 0, 0, 0, 0, 0, 1] [], 128)"
  using parse_v6_one
  by (simp add: parseNetwork_def ParsePrefix_def last_index_byte_def is_digit_def digit_val_def
      addr_zone_def PrefixFrom_def bitlen_def Masked_def mask_addr_def)

definition loopback_addr :: "addr \<Rightarrow> bool" where
  "loopback_addr a = (case a of V4 os \<Rightarrow> hd os = 127 | V6 gs z \<Rightarrow> gs = [0, 0, 0, 0, 0, 0, 0, 1] \<and> z = [])"

lemma mask_fields_id: "w * length xs \<le> n \<Longrightarrow> mask_fields w n xs = xs"
  by (induction xs arbitrary: n) auto

lemma loopback_contains:
  assumes "addr_ok a"
  shows "(\<exists>p\<in>set (List.map_filter parseNetwork loopbackNetworks). prefix_contains p a) \<longleftrightarrow> loopback_addr a"
proof -
  have nets: "List.map_filter parseNetwork loopbackNetworks
      = [(V4 [127, 0, 0, 0], 8), (V6 [0, 0, 0, 0, 0, 0, 0, 1] [], 128)]"
    by (simp add: loopbackNetworks_def map_filter_def parse_loopback4 parse_loopback6)
  show ?thesis
  proof (cases a)
    case (V4 os)
    with assms obtain x y z w where os: "os = [x, y, z, w]" "x < 256" "y < 256"
      by (metis addr_ok_V4_cases)
    then show ?thesis using V4 nets
      by (auto simp: prefix_contains_def addr_zone_def bitlen_def mask_addr_def loopback_addr_def)
  next
    case (V6 gs z)
    have "mask_addr 128 (V6 hs y) = V6 hs []" if "length hs = 8" for hs y
      using that by (simp add: mask_addr_def mask_fields_id)
    then show ?thesis using V6 nets assms
      by (auto simp: prefix_contains_def addr_zone_def bitlen_def loopback_addr_def)
  qed
qed

lemma hits_iff:
  assumes "prefix_ok p" "prefix_ok q"
  shows "hits p q \<longleftrightarrow> (\<exists>a. addr_ok a \<and> prefix_contains p a \<and> prefix_contains q a)"
proof -
  have "hits p q = prefix_overlaps p q"
    by (auto simp: hits_def sameFamily_def prefix_overlaps_def is4_bitlen)
  then show ?thesis using prefix_overlaps_iff[OF assms] by simp
qed

lemma loopback_ok: "p \<in> set (List.map_filter parseNetwork loopbackNetworks) \<Longrightarrow> prefix_ok p"
  by (auto simp: map_filter_def dest: parseNetwork_ok)

lemma refusal_iff:
  assumes "proxies_ok m"
  shows "selfDoSRefusalReason m ip \<noteq> None \<longleftrightarrow>
     (\<exists>target a. parseNetwork ip = Some target \<and> addr_ok a \<and> prefix_contains target a
        \<and> (loopback_addr a \<or> (\<exists>p\<in>set (trustedProxies m). prefix_contains p a)))"
proof (cases "parseNetwork ip")
  case None
  then show ?thesis by (simp add: selfDoSRefusalReason_def)
next
  case (Some target)
  have t: "prefix_ok target" using Some by (rule parseNetwork_ok)
  have "selfDoSRefusalReason m ip \<noteq> None \<longleftrightarrow>
      (\<exists>p\<in>set (List.map_filter parseNetwork loopbackNetworks). hits target p)
      \<or> (\<exists>p\<in>set (trustedProxies m). hits target p)"
    using Some by (simp add: selfDoSRefusalReason_def list_ex_iff)
  also have "\<dots> \<longleftrightarrow> (\<exists>a. addr_ok a \<and> prefix_contains target a \<and> loopback_addr a)
      \<or> (\<exists>a. addr_ok a \<and> prefix_contains target a \<and> (\<exists>p\<in>set (trustedProxies m). prefix_contains p a))"
    using hits_iff[OF t] loopback_ok assms loopback_contains by (auto simp: proxies_ok_def) metis+
  finally show ?thesis using Some by auto
qed

section \<open>Properties\<close>

text \<open>C10: from a new manager, no sequence of bans, lookups, unbans, resets and configuration changes,
  with any Redis handler, makes an operation panic, and the local cache stays within its cap with
  its eviction order listing exactly the cached addresses, once each.\<close>

theorem ban_manager_safe:
  "Inl Panic \<notin> set (fst (run_ops (ban_step ft) ops (NewIPBanManager h r proxies)))
   \<and> (let m = snd (run_ops (ban_step ft) ops (NewIPBanManager h r proxies)) in
      BannedIPCount m \<le> localCacheMaxSize \<and> distinct (map fst (bannedIPs m))
      \<and> distinct (lruOrder m) \<and> set (lruOrder m) = fst ` set (bannedIPs m))"
  using ban_manager.good_run[OF New_ok, of "Inl Panic"] ban_manager.inv_run[OF New_ok, of ft ops h r proxies]
  by (auto simp: cache_ok_def BannedIPCount_def Let_def)

text \<open>C8: an address is reported banned exactly when its canonical text has a live local entry
  (neither expired nor older than the one-hour cap of the local cache), or lies in a live banned
  network, or has a live expiry in Redis.\<close>

theorem IsIPBanned_iff:
  assumes "cache_ok m"
  shows "fst (IsIPBanned ft ip now m) = Inr True \<longleftrightarrow>
     local_live (CanonicalizeIP ip) now m \<or> network_live (CanonicalizeIP ip) now m
     \<or> redis_live ft (CanonicalizeIP ip) now m"
  by (simp add: IsIPBanned_fst[OF assms] Let_def)

theorem IsIPBanned_iff_witness:
  "fst (IsIPBanned \<lparr>ft_format = (\<lambda>_. ''''), ft_parse = (\<lambda>_. None)\<rparr> ''10.0.0.1'' 5
     (NewIPBanManager None () [])) \<noteq> Inr True"
  unfolding IsIPBanned_iff[OF New_ok]
  by (simp add: local_live_def network_live_def redis_live_def redisUsable_def NewIPBanManager_def)


definition wt_float :: float_text where
  "wt_float = \<lparr>ft_format = (\<lambda>_. ''1''), ft_parse = (\<lambda>_. Some 1)\<rparr>"

lemma canon_10001 [simp]: "CanonicalizeIP ''10.0.0.1'' = ''10.0.0.1''"
  by (simp add: CanonicalizeIP_def stripIPBrackets_def has_prefix_def canonicalIPText_def parse_v4_10001
      addr_String_def v4_text_def dec.simps dec_char_def char_of_def bit_0)

lemma Ban_10001:
  "fst (Ban wt_float ''10.0.0.1'' 60 reason 0 (NewIPBanManager None () [])) = Inr True"
proof -
  have "hits (V4 [10, 0, 0, 1], 32) (V4 [127, 0, 0, 0], 8) = False"
    "hits (V4 [10, 0, 0, 1], 32) (V6 [0, 0, 0, 0, 0, 0, 0, 1] [], 128) = False"
    by (simp_all add: hits_def sameFamily_def prefix_overlaps_def mask_addr_def is4_def bitlen_def min_def)
  then show ?thesis
    by (simp add: Ban_def Let_def NewIPBanManager_def selfDoSRefusalReason_def loopbackNetworks_def
        map_filter_def parse_loopback4 parse_loopback6 parseNetwork_def[of "''10.0.0.1''"] parse_v4_10001
        PrefixFrom_def bitlen_def banTarget_def banExact_def redisUsable_def localSet_def localCacheMaxSize_def)
qed


text \<open>with a positive duration and no injected fault, a ban is refused exactly when its target
  shares an address with the loopback space or with a configured trusted proxy, and a refusal
  leaves the manager unchanged.\<close>

theorem Ban_refused_iff:
  assumes "cache_ok m" "proxies_ok m" "banFault m = None" "0 < duration"
  shows "(fst (Ban ft ip duration reason now m) = Inr False \<longleftrightarrow>
     (\<exists>target a. parseNetwork (CanonicalizeIP ip) = Some target \<and> addr_ok a \<and> prefix_contains target a
        \<and> (loopback_addr a \<or> (\<exists>p\<in>set (trustedProxies m). prefix_contains p a))))
    \<and> (fst (Ban ft ip duration reason now m) = Inr False \<longrightarrow> snd (Ban ft ip duration reason now m) = m)"
proof -
  have "fst (Ban ft ip duration reason now m) = Inr False
      \<longleftrightarrow> selfDoSRefusalReason m (CanonicalizeIP ip) \<noteq> None"
    using assms(3,4) by (auto simp: Ban_def Let_def split: option.split prod.split)
  moreover have "selfDoSRefusalReason m (CanonicalizeIP ip) \<noteq> None
      \<Longrightarrow> snd (Ban ft ip duration reason now m) = m"
    using assms(3,4) by (simp add: Ban_def Let_def)
  ultimately show ?thesis using refusal_iff[OF assms(2)] by blast
qed

theorem Ban_refused_iff_witness:
  "fst (Ban wt_float ''127.0.0.0/8'' 60 ''abuse'' 0 (NewIPBanManager None () [])) = Inr False"
proof -
  let ?m = "NewIPBanManager None () [] :: unit IPBanManager"
  have c: "CanonicalizeIP ''127.0.0.0/8'' = ''127.0.0.0/8''"
    by (simp add: CanonicalizeIP_def stripIPBrackets_def has_prefix_def ParseAddr_def parse_v4_fields_def
        is_digit_def digit_val_def)
  have "addr_ok (V4 [127, 0, 0, 0]) \<and> prefix_contains (V4 [127, 0, 0, 0], 8) (V4 [127, 0, 0, 0])
      \<and> loopback_addr (V4 [127, 0, 0, 0])"
    by (simp add: prefix_contains_def addr_zone_def loopback_addr_def)
  then have "\<exists>target a. parseNetwork (CanonicalizeIP ''127.0.0.0/8'') = Some target \<and> addr_ok a
      \<and> prefix_contains target a \<and> (loopback_addr a \<or> (\<exists>p\<in>set (trustedProxies ?m). prefix_contains p a))"
    unfolding c using parse_loopback4 by blast
  moreover have "banFault ?m = None" by (simp add: NewIPBanManager_def)
  ultimately show ?thesis
    using Ban_refused_iff[OF New_ok New_proxies_ok, of None "()" "[]" 60 wt_float "''127.0.0.0/8''" "''abuse''" 0]
    by simp
qed

text \<open>unbanning an address takes effect at once: without a usable Redis, the address is reported
  banned afterwards only if it lies in a live banned network, which the call does not touch.\<close>

theorem Unban_clears:
  assumes "cache_ok m" "redisUsable m = None"
  shows "fst (IsIPBanned ft ip t (snd (Unban ip m))) = Inr (network_live (CanonicalizeIP ip) t m)"
proof -
  let ?ip = "CanonicalizeIP ip" and ?m = "snd (Unban ip m)"
  have frame: "redisUsable (localPurge ?ip m) = None" "bannedNetworks (localPurge ?ip m) = bannedNetworks m"
    using assms(2) by (simp_all add: localPurge_def dropLocal_def redisUsable_def)
  have gone: "map_of (bannedIPs (localPurge ?ip m)) ?ip = None"
    by (auto simp: localPurge_def dropLocal_def delete_conv')
  have "?m = sendEvent (unban_event ?ip) (localPurge ?ip m)"
    using frame by (simp add: Unban_def Let_def)
  then have "\<not> local_live ?ip t ?m" "network_live ?ip t ?m = network_live ?ip t m" "\<not> redis_live ft ?ip t ?m"
    using gone frame by (auto simp: local_live_def network_live_def redis_live_def)
  moreover have "cache_ok ?m" using Unban_ok[OF assms(1)] by blast
  ultimately show ?thesis by (simp add: IsIPBanned_fst Let_def)
qed

theorem Unban_clears_witness:
  "fst (IsIPBanned wt_float ''10.0.0.1'' 5
      (snd (Unban ''10.0.0.1'' (snd (Ban wt_float ''10.0.0.1'' 60 ''abuse'' 0 (NewIPBanManager None () []))))))
   = Inr False"
proof -
  let ?m = "snd (Ban wt_float ''10.0.0.1'' 60 ''abuse'' 0 (NewIPBanManager None () [] :: unit IPBanManager))"
  have m: "cache_ok ?m" by (rule Ban_ok[OF New_ok, THEN conjunct1])
  have "?m = sendEvent (ban_event ''10.0.0.1'' ''abuse'' 60)
      (snd (banTarget wt_float ''10.0.0.1'' 60 0 (NewIPBanManager None () [])))"
    using Ban_TrueD(3)[OF Ban_10001] by simp
  then have "redisUsable ?m = None \<and> bannedNetworks ?m = []"
    by (simp add: banTarget_def banExact_def parse_v4_10001 redisUsable_def NewIPBanManager_def localSet_def
        localCacheMaxSize_def sendEvent_def)
  then show ?thesis using Unban_clears[OF m, of wt_float "''10.0.0.1''" 5] by (simp add: network_live_def)
qed

text \<open>with a usable Redis that accepts the write, banning a network only writes the Redis key
  \<open>banned_networks\<close>: the call reports success, and every lookup that did not already find its
  address banned still finds it unbanned, because no lookup ever reads that key. The hypothesis on
  the handler is that writing one namespace leaves reads of another unchanged.\<close>

theorem network_ban_in_redis_not_enforced:
  assumes "cache_ok m" "redisUsable m = Some h" "banFault m = None" "0 < duration"
    "CHR ''/'' \<in> set (CanonicalizeIP cidr)" "ParsePrefix (CanonicalizeIP cidr) = Some p"
    "selfDoSRefusalReason m (CanonicalizeIP cidr) = None"
    "\<And>k v d. fst (rh_SetKey h ''banned_networks'' k v d (bm_rstate m)) = None"
    "\<And>k v d x. fst (rh_GetKey h ''banned_ips'' x (snd (rh_SetKey h ''banned_networks'' k v d (bm_rstate m))))
        = fst (rh_GetKey h ''banned_ips'' x (bm_rstate m))"
  shows "fst (Ban ft cidr duration reason now m) = Inr True
    \<and> fst (IsIPBanned ft ip t (snd (Ban ft cidr duration reason now m))) = fst (IsIPBanned ft ip t m)"
proof -
  let ?c = "CanonicalizeIP cidr" and ?m = "snd (Ban ft cidr duration reason now m)"
  obtain r where set: "rh_SetKey h ''banned_networks'' (prefix_String (Masked p))
      (ft_format ft (now + of_int duration)) duration (bm_rstate m) = (None, r)"
    using assms(8) by (metis prod.exhaust_sel)
  have get: "fst (rh_GetKey h ''banned_ips'' x r) = fst (rh_GetKey h ''banned_ips'' x (bm_rstate m))" for x
    using assms(9)[of x "prefix_String (Masked p)" "ft_format ft (now + of_int duration)" duration] set by simp
  have target: "banTarget ft ?c duration now m = (None, m\<lparr>bm_rstate := r\<rparr>)"
    using assms(2,5,6) set by (simp add: banTarget_def banNetwork_def Let_def)
  then have ban: "Ban ft cidr duration reason now m
      = (Inr True, sendEvent (ban_event ?c reason duration) (m\<lparr>bm_rstate := r\<rparr>))"
    using assms(3,4,7) by (simp add: Ban_def Let_def)
  have ok: "cache_ok ?m" using assms(1) ban by simp
  have "local_live x t ?m = local_live x t m" "network_live x t ?m = network_live x t m"
    "redis_live ft x t ?m = redis_live ft x t m" for x
    using ban get assms(2) by (auto simp: local_live_def network_live_def redis_live_def)
  then have "fst (IsIPBanned ft ip t ?m) = fst (IsIPBanned ft ip t m)"
    unfolding IsIPBanned_fst[OF ok] IsIPBanned_fst[OF assms(1)] Let_def by simp
  moreover have "fst (Ban ft cidr duration reason now m) = Inr True" using ban by simp
  ultimately show ?thesis by blast
qed

text \<open>A Redis handler over an association list of keys.\<close>

definition wt_redis :: "((string \<times> string) \<times> string) list RedisHandler" where
  "wt_redis = \<lparr>rh_Prefix = ''guard_core:'', rh_Enabled = True,
     rh_GetKey = (\<lambda>ns k r. (Inr (case map_of r (ns, k) of None \<Rightarrow> '''' | Some v \<Rightarrow> v), r)),
     rh_SetKey = (\<lambda>ns k v ttl r. (None, ((ns, k), v) # r)),
     rh_Delete = (\<lambda>ns k r. (None, filter (\<lambda>e. fst e \<noteq> (ns, k)) r)),
     rh_DeletePattern = (\<lambda>pat r. (None, r)), rh_admin = None\<rparr>"

theorem network_ban_in_redis_not_enforced_witness:
  "fst (Ban wt_float ''10.0.0.0/8'' 60 ''abuse'' 0 (NewIPBanManager (Some wt_redis) [] [])) = Inr True
   \<and> fst (IsIPBanned wt_float ''10.0.0.1'' 1
       (snd (Ban wt_float ''10.0.0.0/8'' 60 ''abuse'' 0 (NewIPBanManager (Some wt_redis) [] [])))) = Inr False"
proof -
  let ?m = "NewIPBanManager (Some wt_redis) [] []"
  have c: "CanonicalizeIP ''10.0.0.0/8'' = ''10.0.0.0/8''"
    by (simp add: CanonicalizeIP_def stripIPBrackets_def has_prefix_def ParseAddr_def parse_v4_fields_def
        is_digit_def digit_val_def)
  have p: "ParsePrefix ''10.0.0.0/8'' = Some (V4 [10, 0, 0, 0], 8)"
    by (simp add: ParsePrefix_def last_index_byte_def ParseAddr_def parse_v4_fields_def
        is_digit_def digit_val_def addr_zone_def PrefixFrom_def bitlen_def)
  have "hits (V4 [10, 0, 0, 0], 8) (V4 [127, 0, 0, 0], 8) = False"
    "hits (V4 [10, 0, 0, 0], 8) (V6 [0, 0, 0, 0, 0, 0, 0, 1] [], 128) = False"
    by (simp_all add: hits_def sameFamily_def prefix_overlaps_def mask_addr_def is4_def bitlen_def)
  then have ref: "selfDoSRefusalReason ?m ''10.0.0.0/8'' = None"
    by (simp add: selfDoSRefusalReason_def loopbackNetworks_def map_filter_def parse_loopback4 parse_loopback6
        parseNetwork_def[of "''10.0.0.0/8''"] p Masked_def mask_addr_def NewIPBanManager_def)
  have u: "redisUsable ?m = Some wt_redis" "banFault ?m = None" "bm_rstate ?m = []"
    by (simp_all add: redisUsable_def NewIPBanManager_def wt_redis_def)
  have "fst (IsIPBanned wt_float ''10.0.0.1'' 1 ?m) = Inr False"
    by (simp add: IsIPBanned_fst[OF New_ok] local_live_def network_live_def redis_live_def u Let_def)
      (simp add: NewIPBanManager_def wt_redis_def)
  moreover have "fst (Ban wt_float ''10.0.0.0/8'' 60 ''abuse'' 0 ?m) = Inr True
    \<and> fst (IsIPBanned wt_float ''10.0.0.1'' 1 (snd (Ban wt_float ''10.0.0.0/8'' 60 ''abuse'' 0 ?m)))
      = fst (IsIPBanned wt_float ''10.0.0.1'' 1 ?m)"
    by (rule network_ban_in_redis_not_enforced[OF New_ok u(1,2)]) (simp_all add: c p ref u, simp_all add: wt_redis_def)
  ultimately show ?thesis by simp
qed

end
