(* ===== verification/RateLimit.thy ===== *)
theory RateLimit
  imports IPBan
begin

text \<open>
  \<open>guardcore/ratelimit.go\<close>: the tracked-key store, the in-memory sliding window, the Lua script and
  its pipeline twin behind an interface, the tiers of a request and the automatic ban. A store
  operation that would index an empty order slice is \<open>None\<close>. The hash of an endpoint path and the
  text of floats are the record \<open>rl_env\<close>; the clock is read once per tier, so \<open>clock i\<close> is the reading
  of the \<open>i\<close>-th tier.
\<close>

section \<open>The tracked-key store\<close>

definition maxTrackedRateLimitKeys :: nat where
  "maxTrackedRateLimitKeys = 10000"

record 'v lruStore =
  ls_items :: "(string \<times> 'v) list"
  ls_order :: "string list"

definition newLRUStore :: "'v lruStore" where
  "newLRUStore = \<lparr>ls_items = [], ls_order = []\<rparr>"

text \<open>The eviction step: the head of the order slice leaves, panicking on an empty slice.\<close>

definition evict_head :: "'v lruStore \<Rightarrow> 'v lruStore option" where
  "evict_head s =
     (if length (ls_items s) \<ge> maxTrackedRateLimitKeys then
        (case ls_order s of
           [] \<Rightarrow> None
         | victim # rest \<Rightarrow> Some \<lparr>ls_items = AList.delete victim (ls_items s), ls_order = rest\<rparr>)
      else Some s)"

definition getOrCreate :: "string \<Rightarrow> 'v \<Rightarrow> 'v lruStore \<Rightarrow> ('v \<times> 'v lruStore) option" where
  "getOrCreate key create s =
     (case map_of (ls_items s) key of
        Some v \<Rightarrow>
          Some (v, \<lparr>ls_items = AList.update key v (AList.delete key (ls_items s)),
                    ls_order = ls_order s @ [key]\<rparr>)
      | None \<Rightarrow>
          (case evict_head s of
             None \<Rightarrow> None
           | Some s1 \<Rightarrow>
               Some (create, \<lparr>ls_items = AList.update key create (ls_items s1),
                              ls_order = ls_order s1 @ [key]\<rparr>)))"

definition ls_set :: "string \<Rightarrow> 'v \<Rightarrow> 'v lruStore \<Rightarrow> 'v lruStore option" where
  "ls_set key v s =
     (case (if map_of (ls_items s) key = None
            then map_option (\<lambda>s1. s1\<lparr>ls_order := ls_order s1 @ [key]\<rparr>) (evict_head s)
            else Some s) of
        None \<Rightarrow> None
      | Some s2 \<Rightarrow> Some (s2\<lparr>ls_items := AList.update key v (ls_items s2)\<rparr>))"

definition ls_len :: "'v lruStore \<Rightarrow> nat" where
  "ls_len s = length (ls_items s)"

definition ls_clear :: "'v lruStore \<Rightarrow> 'v lruStore" where
  "ls_clear s = \<lparr>ls_items = [], ls_order = []\<rparr>"

definition inMemoryRequestCount ::
  "real list lruStore \<Rightarrow> string \<Rightarrow> real \<Rightarrow> real \<Rightarrow> (nat \<times> real list lruStore) option" where
  "inMemoryRequestCount store key windowStart currentTime =
     (case getOrCreate key [] store of
        None \<Rightarrow> None
      | Some (timestamps, s1) \<Rightarrow>
          (let kept = dropWhile (\<lambda>t. t \<le> windowStart) timestamps in
           map_option (\<lambda>s2. (length kept, s2)) (ls_set key (kept @ [currentTime]) s1)))"

section \<open>Redis\<close>

text \<open>The Lua script \<open>rateLimitScript\<close> on one sorted set, a list of distinct scores (each member is
  its own score).\<close>

definition rateLimitScript :: "real \<Rightarrow> real \<Rightarrow> real list \<Rightarrow> nat \<times> real list" where
  "rateLimitScript now window zs =
     (let window_start = now - window;
          zs1 = (if now \<in> set zs then zs else zs @ [now]);
          zs2 = filter (\<lambda>s. \<not> (0 \<le> s \<and> s \<le> window_start)) zs1
      in (length zs2, zs2))"

record 'q RateLimitRedis =
  rr_ScriptLoad :: "'q \<Rightarrow> (string + string) \<times> 'q"
  rr_EvalSha :: "string \<Rightarrow> string \<Rightarrow> real \<Rightarrow> int \<Rightarrow> int \<Rightarrow> 'q \<Rightarrow> (string + int) \<times> 'q"
  rr_PipelineRateLimit :: "string \<Rightarrow> string \<Rightarrow> real \<Rightarrow> real \<Rightarrow> int \<Rightarrow> 'q \<Rightarrow> (string + int) \<times> 'q"

text \<open>\<open>strings.ToUpper\<close> as far as ASCII output is concerned: the ASCII letters, and the two other
  letters whose upper case is ASCII (dotless i, long s).\<close>

fun upper_view :: "string \<Rightarrow> string" where
  "upper_view (a # b # s) =
     (if byte a = 197 \<and> byte b = 191 then CHR ''S'' # upper_view s
      else if byte a = 196 \<and> byte b = 177 then CHR ''I'' # upper_view s
      else (if 97 \<le> byte a \<and> byte a \<le> 122 then char_of (byte a - 32) else a) # upper_view (b # s))"
| "upper_view [a] = [if 97 \<le> byte a \<and> byte a \<le> 122 then char_of (byte a - 32) else a]"
| "upper_view [] = []"

definition IsNoScriptError :: "string \<Rightarrow> bool" where
  "IsNoScriptError err = contains_sub (upper_view err) ''NOSCRIPT''"

section \<open>Configuration and state\<close>

record RateLimitEntry =
  re_Requests :: int
  re_Window :: int

record ThreatBanEntry =
  tb_Threshold :: int
  tb_Duration :: int

record RateLimitConfig =
  EnableRateLimiting :: bool
  RateLimitN :: int
  RateLimitWindow :: int
  EndpointRateLimits :: "(string \<times> RateLimitEntry) list"
  EnableRateLimitAutoBan :: bool
  rl_PassiveMode :: bool
  EnableIPBanning :: bool
  AutoBanThreshold :: int
  AutoBanDuration :: int
  ThreatBanConfig :: "(string \<times> ThreatBanEntry) list"
  RedisFailOpen :: bool

definition DefaultRateLimitConfig :: RateLimitConfig where
  "DefaultRateLimitConfig =
     \<lparr>EnableRateLimiting = True, RateLimitN = 10, RateLimitWindow = 60, EndpointRateLimits = [],
      EnableRateLimitAutoBan = False, rl_PassiveMode = False, EnableIPBanning = False,
      AutoBanThreshold = 10, AutoBanDuration = 3600, ThreatBanConfig = [], RedisFailOpen = False\<rparr>"

record rl_env =
  rl_hash :: "string \<Rightarrow> string"
  rl_float :: float_text

record ('q, 'r) RateLimitManager =
  rl_cfg :: RateLimitConfig
  rl_enabled :: bool
  rl_prefix :: string
  rlRedis :: "'q RateLimitRedis option"
  rl_rstate :: 'q
  rl_ban :: "'r IPBanManager option"
  timestamps :: "real list lruStore"
  byIPTimestamps :: "real list lruStore"
  autobanCounts :: "int lruStore"
  scriptSHA :: string
  rl_eventBus :: bool
  rl_events :: "handler_event list"

text \<open>\<open>NewRateLimitManager\<close>: non-positive limits take their defaults. The handler is given by its
  prefix and whether it is enabled (\<open>rl_enabled\<close> is false without a handler).\<close>

definition NewRateLimitManager ::
  "RateLimitConfig \<Rightarrow> bool \<Rightarrow> string \<Rightarrow> 'q \<Rightarrow> 'r IPBanManager option \<Rightarrow> ('q, 'r) RateLimitManager" where
  "NewRateLimitManager cfg en pre q ban =
     \<lparr>rl_cfg = cfg\<lparr>RateLimitN := (if RateLimitN cfg \<le> 0 then 10 else RateLimitN cfg),
                  RateLimitWindow := (if RateLimitWindow cfg \<le> 0 then 60 else RateLimitWindow cfg),
                  AutoBanThreshold := (if AutoBanThreshold cfg \<le> 0 then 10 else AutoBanThreshold cfg),
                  AutoBanDuration := (if AutoBanDuration cfg \<le> 0 then 3600 else AutoBanDuration cfg)\<rparr>,
      rl_enabled = en, rl_prefix = pre, rlRedis = None, rl_rstate = q, rl_ban = ban,
      timestamps = newLRUStore, byIPTimestamps = newLRUStore, autobanCounts = newLRUStore,
      scriptSHA = [], rl_eventBus = False, rl_events = []\<rparr>"

text \<open>\<open>InitializeRedis\<close>: the handler's rate-limit interface is attached when it has one, and the
  script loaded; a load failure leaves the pipeline path.\<close>

definition rl_InitializeRedis ::
  "bool \<Rightarrow> string \<Rightarrow> 'q RateLimitRedis option \<Rightarrow> ('q, 'r) RateLimitManager \<Rightarrow> ('q, 'r) RateLimitManager"
where
  "rl_InitializeRedis en pre rl m0 =
     (let m = m0\<lparr>rl_enabled := en, rl_prefix := pre\<rparr> in
      if \<not> en then m
      else
        (let m1 = (case rl of None \<Rightarrow> m | Some h \<Rightarrow> m\<lparr>rlRedis := Some h\<rparr>) in
         case rlRedis m1 of
           None \<Rightarrow> m1
         | Some h \<Rightarrow>
             (case rr_ScriptLoad h (rl_rstate m1) of
                (Inl _, q) \<Rightarrow> m1\<lparr>rl_rstate := q\<rparr>
              | (Inr sha, q) \<Rightarrow> m1\<lparr>rl_rstate := q, scriptSHA := sha\<rparr>)))"

definition rl_SetEventBus :: "bool \<Rightarrow> ('q, 'r) RateLimitManager \<Rightarrow> ('q, 'r) RateLimitManager" where
  "rl_SetEventBus bus m = m\<lparr>rl_eventBus := bus\<rparr>"

definition rateLimitRedisKey :: "rl_env \<Rightarrow> string \<Rightarrow> string \<Rightarrow> string \<Rightarrow> string" where
  "rateLimitRedisKey env prefix0 clientIP endpointPath =
     (if endpointPath \<noteq> []
      then prefix0 @ ''rate_limit:rate:'' @ clientIP @ '':'' @ rl_hash env endpointPath
      else prefix0 @ ''rate_limit:rate:'' @ clientIP)"

definition script_reloaded_event :: handler_event where
  "script_reloaded_event =
     \<lparr>he_type = ''rate_limit_script_reloaded'', he_handler = ''rate_limit'', he_ip = ''system'',
      he_action = ''script_reloaded'',
      he_reason = ''NOSCRIPT recovery: Lua script re-cached on Redis'', he_duration = None\<rparr>"

definition emitScriptReloaded :: "('q, 'r) RateLimitManager \<Rightarrow> ('q, 'r) RateLimitManager" where
  "emitScriptReloaded m =
     (if rl_eventBus m then m\<lparr>rl_events := rl_events m @ [script_reloaded_event]\<rparr> else m)"

text \<open>The script path with its one NOSCRIPT recovery.\<close>

definition evalScript ::
  "'q RateLimitRedis \<Rightarrow> string \<Rightarrow> real \<Rightarrow> int \<Rightarrow> int \<Rightarrow> ('q, 'r) RateLimitManager
     \<Rightarrow> (string + int) \<times> ('q, 'r) RateLimitManager" where
  "evalScript h key now window limit m =
     (case rr_EvalSha h (scriptSHA m) key now window limit (rl_rstate m) of
        (Inr count, q) \<Rightarrow> (Inr count, m\<lparr>rl_rstate := q\<rparr>)
      | (Inl err, q) \<Rightarrow>
          (if \<not> IsNoScriptError err then (Inl err, m\<lparr>rl_rstate := q\<rparr>)
           else
             (case rr_ScriptLoad h q of
                (Inl loadErr, q1) \<Rightarrow> (Inl loadErr, m\<lparr>rl_rstate := q1\<rparr>)
              | (Inr newSHA, q1) \<Rightarrow>
                  (let m1 = emitScriptReloaded (m\<lparr>rl_rstate := q1, scriptSHA := newSHA\<rparr>) in
                   case rr_EvalSha h newSHA key now window limit (rl_rstate m1) of
                     (r, q2) \<Rightarrow> (r, m1\<lparr>rl_rstate := q2\<rparr>)))))"

text \<open>\<open>redisRequestCount\<close>: an error, or \<open>None\<close> when Redis did not handle the request, or the count.\<close>

definition redisRequestCount ::
  "rl_env \<Rightarrow> string \<Rightarrow> real \<Rightarrow> real \<Rightarrow> int \<Rightarrow> int \<Rightarrow> string \<Rightarrow> bool \<Rightarrow> ('q, 'r) RateLimitManager
     \<Rightarrow> (go_error + int option) \<times> ('q, 'r) RateLimitManager" where
  "redisRequestCount env clientIP currentTime windowStart window limit endpointPath forcePipeline m =
     (if \<not> rl_enabled m then (Inr None, m)
      else
        (case rlRedis m of
           None \<Rightarrow> (Inr None, m)
         | Some h \<Rightarrow>
             (let key = rateLimitRedisKey env (rl_prefix m) clientIP endpointPath;
                  res = (if scriptSHA m \<noteq> [] \<and> \<not> forcePipeline
                         then evalScript h key currentTime window limit m
                         else (case rr_PipelineRateLimit h key (ft_format (rl_float env) currentTime)
                                      currentTime windowStart window (rl_rstate m) of
                                 (r, q) \<Rightarrow> (r, m\<lparr>rl_rstate := q\<rparr>)))
              in case res of
                   (Inr count, m1) \<Rightarrow> (Inr (Some count), m1)
                 | (Inl _, m1) \<Rightarrow>
                     (if RedisFailOpen (rl_cfg m) then (Inr None, m1)
                      else (Inl (GuardRedisError 503 ''Redis rate limiting unavailable''), m1)))))"

section \<open>Tiers\<close>

record rateLimitTier =
  t_name :: string
  t_limit :: int
  t_window :: int
  t_endpointPath :: string
  t_country :: string

record RouteRateConfig =
  rrc_RateLimit :: "int option"
  rrc_RateLimitWindow :: "int option"
  rrc_GeoRateLimits :: "(string \<times> RateLimitEntry) list"

definition endpoint_tier :: "RateLimitConfig \<Rightarrow> string \<Rightarrow> rateLimitTier list" where
  "endpoint_tier cfg urlPath =
     (case map_of (EndpointRateLimits cfg) urlPath of
        None \<Rightarrow> []
      | Some e \<Rightarrow> [\<lparr>t_name = ''endpoint'', t_limit = re_Requests e, t_window = re_Window e,
                    t_endpointPath = urlPath, t_country = []\<rparr>])"

definition route_tier :: "RouteRateConfig option \<Rightarrow> string \<Rightarrow> rateLimitTier list" where
  "route_tier route urlPath =
     (case Option.bind route rrc_RateLimit of
        None \<Rightarrow> []
      | Some n \<Rightarrow>
          [\<lparr>t_name = ''route'', t_limit = n,
            t_window = (case Option.bind route rrc_RateLimitWindow of None \<Rightarrow> 60 | Some w \<Rightarrow> w),
            t_endpointPath = urlPath, t_country = []\<rparr>])"

definition geo_tier ::
  "RouteRateConfig option \<Rightarrow> (string \<Rightarrow> string) option \<Rightarrow> string \<Rightarrow> string \<Rightarrow> rateLimitTier list" where
  "geo_tier route countryOfIP clientIP urlPath =
     (case (route, countryOfIP) of
        (Some r, Some f) \<Rightarrow>
          (if rrc_GeoRateLimits r = [] then []
           else
             (let country = f clientIP in
              case (case map_of (rrc_GeoRateLimits r) country of
                      Some e \<Rightarrow> Some e
                    | None \<Rightarrow> map_of (rrc_GeoRateLimits r) ''*'') of
                None \<Rightarrow> []
              | Some e \<Rightarrow> [\<lparr>t_name = ''geo'', t_limit = re_Requests e, t_window = re_Window e,
                            t_endpointPath = urlPath, t_country = country\<rparr>]))
      | _ \<Rightarrow> [])"

definition tiersFor ::
  "RateLimitConfig \<Rightarrow> string \<Rightarrow> string \<Rightarrow> RouteRateConfig option \<Rightarrow> (string \<Rightarrow> string) option
     \<Rightarrow> rateLimitTier list" where
  "tiersFor cfg clientIP urlPath route countryOfIP =
     endpoint_tier cfg urlPath @ route_tier route urlPath @ geo_tier route countryOfIP clientIP urlPath
     @ [\<lparr>t_name = ''global'', t_limit = RateLimitN cfg, t_window = RateLimitWindow cfg,
         t_endpointPath = [], t_country = []\<rparr>]"

record RateLimitOutcome =
  o_Blocked :: bool
  o_Count :: int
  o_Window :: int
  o_Tier :: string
  o_StatusCode :: nat
  o_Message :: string
  o_Limit :: int
  o_Country :: string

definition RateLimitBlockedStatus :: nat where "RateLimitBlockedStatus = 429"
definition RateLimitBlockedMessage :: string where "RateLimitBlockedMessage = ''Too many requests''"

definition memoryKey :: "rl_env \<Rightarrow> string \<Rightarrow> string \<Rightarrow> string" where
  "memoryKey env clientIP endpointPath =
     (if endpointPath \<noteq> [] then clientIP @ '':'' @ rl_hash env endpointPath else clientIP)"

definition runTier ::
  "rl_env \<Rightarrow> string \<Rightarrow> rateLimitTier \<Rightarrow> real \<Rightarrow> ('q, 'r) RateLimitManager
     \<Rightarrow> (go_error + bool \<times> int) \<times> ('q, 'r) RateLimitManager" where
  "runTier env clientIP tier currentTime m =
     (let windowStart = currentTime - of_int (t_window tier) in
      case redisRequestCount env clientIP currentTime windowStart (t_window tier) (t_limit tier)
             (t_endpointPath tier) False m of
        (Inl e, m1) \<Rightarrow> (Inl e, m1)
      | (Inr (Some count), m1) \<Rightarrow> (Inr (count > t_limit tier, count), m1)
      | (Inr None, m1) \<Rightarrow>
          (case inMemoryRequestCount (timestamps m1) (memoryKey env clientIP (t_endpointPath tier))
                  windowStart currentTime of
             None \<Rightarrow> (Inl Panic, m1)
           | Some (n, s) \<Rightarrow>
               (let m2 = m1\<lparr>timestamps := s\<rparr> in
                if int n \<ge> t_limit tier then (Inr (True, int n + 1), m2) else (Inr (False, int n), m2))))"

fun runTiers ::
  "rl_env \<Rightarrow> string \<Rightarrow> (nat \<Rightarrow> real) \<Rightarrow> nat \<Rightarrow> rateLimitTier list \<Rightarrow> RateLimitOutcome
     \<Rightarrow> ('q, 'r) RateLimitManager \<Rightarrow> (go_error + RateLimitOutcome) \<times> ('q, 'r) RateLimitManager" where
  "runTiers env clientIP clock i [] final m = (Inr final, m)"
| "runTiers env clientIP clock i (tier # tiers) final m =
     (case runTier env clientIP tier (clock i) m of
        (Inl e, m1) \<Rightarrow> (Inl e, m1)
      | (Inr (True, count), m1) \<Rightarrow>
          (Inr \<lparr>o_Blocked = True, o_Count = count, o_Window = t_window tier, o_Tier = t_name tier,
                o_StatusCode = RateLimitBlockedStatus, o_Message = RateLimitBlockedMessage,
                o_Limit = t_limit tier, o_Country = t_country tier\<rparr>, m1)
      | (Inr (False, count), m1) \<Rightarrow>
          runTiers env clientIP clock (Suc i) tiers
            \<lparr>o_Blocked = False, o_Count = count, o_Window = t_window tier, o_Tier = t_name tier,
             o_StatusCode = 0, o_Message = [], o_Limit = 0, o_Country = []\<rparr> m1)"

definition no_outcome :: RateLimitOutcome where
  "no_outcome = \<lparr>o_Blocked = False, o_Count = 0, o_Window = 0, o_Tier = [], o_StatusCode = 0,
     o_Message = [], o_Limit = 0, o_Country = []\<rparr>"

definition CheckRateLimit ::
  "rl_env \<Rightarrow> string \<Rightarrow> string \<Rightarrow> RouteRateConfig option \<Rightarrow> (string \<Rightarrow> string) option \<Rightarrow> (nat \<Rightarrow> real)
     \<Rightarrow> ('q, 'r) RateLimitManager \<Rightarrow> (go_error + RateLimitOutcome) \<times> ('q, 'r) RateLimitManager" where
  "CheckRateLimit env clientIP urlPath route countryOfIP clock m =
     (if \<not> EnableRateLimiting (rl_cfg m) then (Inr no_outcome, m)
      else runTiers env clientIP clock 0 (tiersFor (rl_cfg m) clientIP urlPath route countryOfIP)
             no_outcome m)"

section \<open>The check by address and the automatic ban\<close>

definition lift_ban ::
  "('q, 'r) RateLimitManager \<Rightarrow> 'a \<times> 'r IPBanManager \<Rightarrow> 'a \<times> ('q, 'r) RateLimitManager" where
  "lift_ban m x = (fst x, m\<lparr>rl_ban := Some (snd x)\<rparr>)"

definition resolveAndApplyThresholdBan ::
  "rl_env \<Rightarrow> string \<Rightarrow> int \<Rightarrow> real \<Rightarrow> 'r IPBanManager \<Rightarrow> ('q, 'r) RateLimitManager
     \<Rightarrow> (go_error + bool) \<times> ('q, 'r) RateLimitManager" where
  "resolveAndApplyThresholdBan env ip count now b m =
     (let cfg = rl_cfg m;
          apply_ban = (\<lambda>duration reason.
            (case lift_ban m (Ban (rl_float env) ip duration reason now b) of
               (Inl Panic, m1) \<Rightarrow> (Inl Panic, m1)
             | (Inl _, m1) \<Rightarrow> (Inr False, m1)
             | (Inr applied, m1) \<Rightarrow> (Inr applied, m1)));
          total = (if count < AutoBanThreshold cfg then (Inr False, m)
                   else apply_ban (AutoBanDuration cfg) ''rate_limit_exceeded'')
      in if \<not> EnableIPBanning cfg then (Inr False, m)
         else
           (case map_of (ThreatBanConfig cfg) ''rate_limit'' of
              Some entry \<Rightarrow>
                (if count \<ge> tb_Threshold entry
                 then apply_ban (tb_Duration entry) ''rate_limit_exceeded:rate_limit''
                 else total)
            | None \<Rightarrow> total))"

text \<open>\<open>feedRateLimitAutoban\<close>: the only error it can end with is a panic.\<close>

definition feedRateLimitAutoban ::
  "rl_env \<Rightarrow> string \<Rightarrow> real \<Rightarrow> ('q, 'r) RateLimitManager \<Rightarrow> go_error option \<times> ('q, 'r) RateLimitManager"
where
  "feedRateLimitAutoban env ip now m =
     (if \<not> EnableRateLimitAutoBan (rl_cfg m) \<or> \<not> EnableIPBanning (rl_cfg m) then (None, m)
      else if rl_PassiveMode (rl_cfg m) then (None, m)
      else
        (case rl_ban m of
           None \<Rightarrow> (None, m)
         | Some b \<Rightarrow>
             (case IsIPBanned (rl_float env) ip now b of
                (Inl e, b1) \<Rightarrow> (Some e, m\<lparr>rl_ban := Some b1\<rparr>)
              | (Inr True, b1) \<Rightarrow> (None, m\<lparr>rl_ban := Some b1\<rparr>)
              | (Inr False, b1) \<Rightarrow>
                  (let m1 = m\<lparr>rl_ban := Some b1\<rparr> in
                   case getOrCreate ip 0 (autobanCounts m1) of
                     None \<Rightarrow> (Some Panic, m1)
                   | Some (c, s1) \<Rightarrow>
                       (case ls_set ip (c + 1) s1 of
                          None \<Rightarrow> (Some Panic, m1)
                        | Some s2 \<Rightarrow>
                            (case resolveAndApplyThresholdBan env ip (c + 1) now b1
                                    (m1\<lparr>autobanCounts := s2\<rparr>) of
                               (Inl e, m2) \<Rightarrow> (Some e, m2)
                             | (Inr _, m2) \<Rightarrow> (None, m2)))))))"

definition validateRateLimitPrimitiveInput :: "string \<Rightarrow> string \<Rightarrow> go_error option" where
  "validateRateLimitPrimitiveInput ip endpointPath =
     (if ParseAddr ip = None then Some (Fault (''check_rate_limit_by_ip: invalid ip''))
      else if CHR '':'' \<in> set endpointPath
           then Some (Fault (''check_rate_limit_by_ip: endpoint_path must not contain colon''))
      else None)"

definition CheckRateLimitByIP ::
  "rl_env \<Rightarrow> string \<Rightarrow> string \<Rightarrow> real \<Rightarrow> ('q, 'r) RateLimitManager
     \<Rightarrow> (go_error + bool) \<times> ('q, 'r) RateLimitManager" where
  "CheckRateLimitByIP env ip endpointPath now m =
     (case validateRateLimitPrimitiveInput ip endpointPath of
        Some e \<Rightarrow> (Inl e, m)
      | None \<Rightarrow>
          (if \<not> EnableRateLimiting (rl_cfg m) then (Inr True, m)
           else
             (let cfg = rl_cfg m; windowStart = now - of_int (RateLimitWindow cfg) in
              case (case redisRequestCount env ip now windowStart (RateLimitWindow cfg) (RateLimitN cfg)
                           endpointPath True m of
                      (Inl e, m1) \<Rightarrow> (Inl e, m1)
                    | (Inr (Some count), m1) \<Rightarrow> (Inr (count \<le> RateLimitN cfg), m1)
                    | (Inr None, m1) \<Rightarrow>
                        (case inMemoryRequestCount (byIPTimestamps m1) (memoryKey env ip endpointPath)
                                windowStart now of
                           None \<Rightarrow> (Inl Panic, m1)
                         | Some (n, s) \<Rightarrow> (Inr (int n < RateLimitN cfg), m1\<lparr>byIPTimestamps := s\<rparr>))) of
                (Inl e, m1) \<Rightarrow> (Inl e, m1)
              | (Inr True, m1) \<Rightarrow> (Inr True, m1)
              | (Inr False, m1) \<Rightarrow>
                  (case feedRateLimitAutoban env ip now m1 of
                     (Some e, m2) \<Rightarrow> (Inl e, m2)
                   | (None, m2) \<Rightarrow> (Inr False, m2)))))"

definition rl_Reset ::
  "('q \<Rightarrow> 'q) \<Rightarrow> ('q, 'r) RateLimitManager \<Rightarrow> ('q, 'r) RateLimitManager" where
  "rl_Reset deletePattern m =
     m\<lparr>timestamps := ls_clear (timestamps m), byIPTimestamps := ls_clear (byIPTimestamps m),
       autobanCounts := ls_clear (autobanCounts m),
       rl_rstate := (if rl_enabled m then deletePattern (rl_rstate m) else rl_rstate m),
       rl_enabled := False, rlRedis := None\<rparr>"

definition TrackedKeyCount :: "('q, 'r) RateLimitManager \<Rightarrow> nat" where
  "TrackedKeyCount m = ls_len (timestamps m)"

definition ByIPKeyCount :: "('q, 'r) RateLimitManager \<Rightarrow> nat" where
  "ByIPKeyCount m = ls_len (byIPTimestamps m)"

definition AutobanCount ::
  "string \<Rightarrow> ('q, 'r) RateLimitManager \<Rightarrow> (int \<times> ('q, 'r) RateLimitManager) option" where
  "AutobanCount ip m =
     map_option (\<lambda>r. (fst r, m\<lparr>autobanCounts := snd r\<rparr>)) (getOrCreate ip 0 (autobanCounts m))"

section \<open>The store never panics\<close>

definition lru_ok :: "'v lruStore \<Rightarrow> bool" where
  "lru_ok s \<longleftrightarrow> distinct (map fst (ls_items s)) \<and> fst ` set (ls_items s) \<subseteq> set (ls_order s)"

lemma evict_head_ok:
  assumes "lru_ok s"
  obtains s1 where "evict_head s = Some s1" "lru_ok s1"
    "fst ` set (ls_items s1) \<subseteq> fst ` set (ls_items s)"
proof (cases "length (ls_items s) \<ge> maxTrackedRateLimitKeys")
  case False
  then show ?thesis using that[of s] assms by (simp add: evict_head_def)
next
  case True
  then have "ls_items s \<noteq> []" by (auto simp: maxTrackedRateLimitKeys_def)
  then have "ls_order s \<noteq> []" using assms by (cases "ls_items s") (auto simp: lru_ok_def)
  then obtain v rest where o: "ls_order s = v # rest" by (cases "ls_order s") auto
  let ?s1 = "\<lparr>ls_items = AList.delete v (ls_items s), ls_order = rest\<rparr>"
  have "evict_head s = Some ?s1" using True o by (simp add: evict_head_def)
  moreover have "lru_ok ?s1" using assms o by (auto simp: lru_ok_def distinct_delete keys_delete)
  moreover have "fst ` set (ls_items ?s1) \<subseteq> fst ` set (ls_items s)" by (auto simp: keys_delete)
  ultimately show ?thesis by (rule that)
qed

lemma getOrCreate_ok:
  assumes "lru_ok s"
  obtains v s' where "getOrCreate key c s = Some (v, s')" "lru_ok s'"
    "v = (case map_of (ls_items s) key of None \<Rightarrow> c | Some x \<Rightarrow> x)" "map_of (ls_items s') key = Some v"
proof (cases "map_of (ls_items s) key")
  case (Some v)
  let ?s' = "\<lparr>ls_items = AList.update key v (AList.delete key (ls_items s)), ls_order = ls_order s @ [key]\<rparr>"
  have g: "getOrCreate key c s = Some (v, ?s')" using Some by (simp add: getOrCreate_def)
  have d: "distinct (map fst (ls_items ?s'))"
    unfolding lruStore.simps using assms by (intro distinct_update distinct_delete) (simp add: lru_ok_def)
  have "fst ` set (ls_items ?s') \<subseteq> insert key (fst ` set (ls_items s))"
    by (simp only: lruStore.simps keys_update keys_delete) blast
  also have "\<dots> \<subseteq> set (ls_order ?s')" using assms by (auto simp: lru_ok_def)
  finally have ok: "lru_ok ?s'" unfolding lru_ok_def using d by (rule conjI[rotated])
  have "map_of (ls_items ?s') key = Some v" by (simp add: update_conv')
  with Some show ?thesis by (intro that[OF g ok]) simp_all
next
  case None
  obtain s1 where s1: "evict_head s = Some s1" "lru_ok s1" by (rule evict_head_ok[OF assms])
  let ?s' = "\<lparr>ls_items = AList.update key c (ls_items s1), ls_order = ls_order s1 @ [key]\<rparr>"
  have "getOrCreate key c s = Some (c, ?s')" using None s1 by (simp add: getOrCreate_def)
  moreover have "lru_ok ?s'" using s1(2) by (auto simp: lru_ok_def distinct_update keys_update)
  moreover have "map_of (ls_items ?s') key = Some c" by (simp add: update_conv')
  ultimately show ?thesis using None that[of c ?s'] by simp
qed

lemma ls_set_ok:
  assumes "lru_ok s"
  obtains s' where "ls_set key v s = Some s'" "lru_ok s'"
proof (cases "map_of (ls_items s) key")
  case (Some x)
  then show ?thesis
    using assms that[of "s\<lparr>ls_items := AList.update key v (ls_items s)\<rparr>"]
    by (auto simp: ls_set_def lru_ok_def distinct_update keys_update dest!: map_of_SomeD)
next
  case None
  obtain s1 where s1: "evict_head s = Some s1" "lru_ok s1" by (rule evict_head_ok[OF assms])
  then show ?thesis
    using None that[of "s1\<lparr>ls_order := ls_order s1 @ [key], ls_items := AList.update key v (ls_items s1)\<rparr>"]
    by (auto simp: ls_set_def lru_ok_def distinct_update keys_update)
qed

lemma inMemoryRequestCount_ok:
  assumes "lru_ok s"
  obtains n s' where "inMemoryRequestCount s key ws t = Some (n, s')" "lru_ok s'"
proof -
  obtain v s1 where "getOrCreate key [] s = Some (v, s1)" "lru_ok s1"
    using getOrCreate_ok[OF assms, of key "[]"] by metis
  moreover obtain s2 where "ls_set key (dropWhile (\<lambda>x. x \<le> ws) v @ [t]) s1 = Some s2" "lru_ok s2"
    using ls_set_ok[OF \<open>lru_ok s1\<close>] by metis
  ultimately show ?thesis
    using that[of "length (dropWhile (\<lambda>x. x \<le> ws) v)" s2] by (simp add: inMemoryRequestCount_def Let_def)
qed

lemma newLRUStore_ok [simp]: "lru_ok newLRUStore"
  by (simp add: lru_ok_def newLRUStore_def)

lemma ls_clear_ok [simp]: "lru_ok (ls_clear s)"
  by (simp add: lru_ok_def ls_clear_def)

text \<open>Each hit leaves one more entry in the order slice.\<close>

fun touches :: "nat \<Rightarrow> string \<Rightarrow> 'v \<Rightarrow> 'v lruStore \<Rightarrow> 'v lruStore option" where
  "touches 0 key c s = Some s"
| "touches (Suc n) key c s = Option.bind (getOrCreate key c s) (\<lambda>r. touches n key c (snd r))"

lemma touches_order:
  assumes "map_of (ls_items s) key = Some v"
  shows "\<exists>s'. touches n key c s = Some s' \<and> length (ls_order s') = length (ls_order s) + n
     \<and> fst ` set (ls_items s') = fst ` set (ls_items s)"
  using assms
proof (induction n arbitrary: s)
  case (Suc n)
  let ?s1 = "\<lparr>ls_items = AList.update key v (AList.delete key (ls_items s)), ls_order = ls_order s @ [key]\<rparr>"
  have "getOrCreate key c s = Some (v, ?s1)" using Suc.prems by (simp add: getOrCreate_def)
  moreover have "map_of (ls_items ?s1) key = Some v" by (simp add: update_conv')
  moreover have "fst ` set (ls_items ?s1) = fst ` set (ls_items s)"
    using Suc.prems map_of_SomeD[OF Suc.prems] by (simp only: lruStore.simps keys_update keys_delete) force
  ultimately show ?case using Suc.IH[of ?s1] by simp
qed simp

text \<open>Filling a store with fresh keys below its cap.\<close>

fun gets :: "string list \<Rightarrow> 'v \<Rightarrow> 'v lruStore \<Rightarrow> 'v lruStore option" where
  "gets [] c s = Some s"
| "gets (k # ks) c s = Option.bind (getOrCreate k c s) (\<lambda>r. gets ks c (snd r))"

lemma update_fresh: "k \<notin> fst ` set al \<Longrightarrow> AList.update k v al = al @ [(k, v)]"
  by (induction al) auto

lemma gets_below_cap:
  assumes "distinct ks" "set ks \<inter> fst ` set (ls_items s) = {}"
    "length (ls_items s) + length ks \<le> maxTrackedRateLimitKeys"
  shows "gets ks c s = Some \<lparr>ls_items = ls_items s @ map (\<lambda>k. (k, c)) ks, ls_order = ls_order s @ ks\<rparr>"
  using assms
proof (induction ks arbitrary: s)
  case (Cons k ks)
  have k: "map_of (ls_items s) k = None" using Cons.prems(2) by (simp add: map_of_None_keys)
  have "evict_head s = Some s" using Cons.prems(3) by (simp add: evict_head_def)
  then have "getOrCreate k c s = Some (c, \<lparr>ls_items = ls_items s @ [(k, c)], ls_order = ls_order s @ [k]\<rparr>)"
    using k Cons.prems(2) by (simp add: getOrCreate_def update_fresh)
  then show ?case using Cons.prems Cons.IH[of "\<lparr>ls_items = ls_items s @ [(k, c)], ls_order = ls_order s @ [k]\<rparr>"]
    by auto
qed simp

section \<open>The sliding window\<close>

lemma inMemory_step:
  fixes ws :: real
  assumes "lru_ok s" "map_of (ls_items s) key \<noteq> None \<or> length (ls_items s) < maxTrackedRateLimitKeys"
  defines "kept \<equiv> dropWhile (\<lambda>t. t \<le> ws) (case map_of (ls_items s) key of None \<Rightarrow> [] | Some ts \<Rightarrow> ts)"
  shows "\<exists>s'. inMemoryRequestCount s key ws t = Some (length kept, s') \<and> lru_ok s'
    \<and> map_of (ls_items s') = (map_of (ls_items s))(key \<mapsto> kept @ [t])"
proof -
  obtain v s1 where g: "getOrCreate key [] s = Some (v, s1)" "lru_ok s1"
    "v = (case map_of (ls_items s) key of None \<Rightarrow> [] | Some ts \<Rightarrow> ts)" "map_of (ls_items s1) key = Some v"
    using getOrCreate_ok[OF assms(1)] .
  have other: "map_of (ls_items s1) = (map_of (ls_items s))(key \<mapsto> v)"
  proof (cases "map_of (ls_items s) key")
    case None
    with assms(2) have "evict_head s = Some s" by (simp add: evict_head_def)
    then show ?thesis using g(1) None by (auto simp: getOrCreate_def update_conv')
  next
    case (Some x)
    then show ?thesis using g(1)
      by (auto simp: getOrCreate_def update_conv' delete_conv' fun_eq_iff)
  qed
  have k: "kept = dropWhile (\<lambda>t. t \<le> ws) v" using g(3) by (simp add: kept_def)
  let ?s2 = "s1\<lparr>ls_items := AList.update key (kept @ [t]) (ls_items s1)\<rparr>"
  have set: "ls_set key (kept @ [t]) s1 = Some ?s2" using g(4) by (simp add: ls_set_def)
  have ok: "lru_ok ?s2" using ls_set_ok[OF g(2), of key "kept @ [t]"] set by auto
  have m: "map_of (ls_items ?s2) = (map_of (ls_items s))(key \<mapsto> kept @ [t])"
    by (simp add: update_conv' other)
  have "inMemoryRequestCount s key ws t = Some (length kept, ?s2)"
    using g(1) set k by (simp add: inMemoryRequestCount_def Let_def)
  with ok m show ?thesis by blast
qed

definition times_of :: "string \<Rightarrow> (string \<times> real) list \<Rightarrow> real list" where
  "times_of k past = map snd (filter (\<lambda>p. fst p = k) past)"

text \<open>What the store keeps after some requests: for every key seen, the requests above a cut that is
  no newer than the last window start.\<close>

definition window_inv :: "real \<Rightarrow> (string \<times> real) list \<Rightarrow> real list lruStore \<Rightarrow> bool" where
  "window_inv w past s \<longleftrightarrow> lru_ok s \<and> fst ` set (ls_items s) = fst ` set past
     \<and> (\<forall>k ts. map_of (ls_items s) k = Some ts \<longrightarrow>
          (\<exists>c. ts = filter (\<lambda>t. c < t) (times_of k past) \<and> c \<le> last (map snd past) - w))"

lemma dropWhile_sorted:
  assumes "sorted ts"
  shows "dropWhile (\<lambda>t. t \<le> (c::real)) ts = filter (\<lambda>t. c < t) ts"
  using assms
proof (induction ts)
  case (Cons a ts)
  then show ?case by (auto simp: filter_id_conv intro!: filter_True[symmetric] dest: order_less_le_trans)
qed simp

lemma sorted_times_of: "sorted (map snd past) \<Longrightarrow> sorted (times_of k past)"
  unfolding times_of_def by (rule sorted_filter)

lemma times_of_append: "times_of k (past @ [(k', t)]) = times_of k past @ (if k = k' then [t] else [])"
  by (auto simp: times_of_def)

lemma keys_of_map_of: "map_of al = map_of bl \<Longrightarrow> fst ` set al = fst ` set bl"
  by (metis dom_map_of_conv_image_fst)

lemma window_step:
  assumes inv: "window_inv w past s" and w: "0 < w"
    and sorted: "sorted (map snd (past @ [(k, t)]))"
    and cap: "card (fst ` set (past @ [(k, t)])) \<le> maxTrackedRateLimitKeys"
  shows "\<exists>s'. inMemoryRequestCount s k (t - w) t = Some (length (filter (\<lambda>x. t - w < x) (times_of k past)), s')
    \<and> window_inv w (past @ [(k, t)]) s'"
proof -
  have ok: "lru_ok s" and keys: "fst ` set (ls_items s) = fst ` set past"
    using inv by (simp_all add: window_inv_def)
  have room: "map_of (ls_items s) k \<noteq> None \<or> length (ls_items s) < maxTrackedRateLimitKeys"
  proof (cases "k \<in> fst ` set past")
    case True
    then show ?thesis using keys map_of_None_keys[of "ls_items s" k] by simp
  next
    case False
    have "length (ls_items s) = card (fst ` set (ls_items s))"
      using ok by (metis distinct_card length_map list.set_map lru_ok_def)
    also have "\<dots> < card (fst ` set (past @ [(k, t)]))" using False keys by simp
    finally show ?thesis using cap by linarith
  qed
  let ?old = "case map_of (ls_items s) k of None \<Rightarrow> [] | Some ts \<Rightarrow> ts"
  let ?kept = "dropWhile (\<lambda>x. x \<le> t - w) ?old"
  have le: "x \<le> t" if "x \<in> set (map snd past)" for x
    using sorted that by (auto simp: sorted_append)
  have last: "past \<noteq> [] \<Longrightarrow> last (map snd past) \<le> t" by (intro le last_in_set) simp
  have st: "sorted (times_of k past)" using sorted by (intro sorted_times_of) (simp add: sorted_append)
  have kept: "?kept = filter (\<lambda>x. t - w < x) (times_of k past)"
  proof (cases "map_of (ls_items s) k")
    case None
    then have "k \<notin> fst ` set past" using keys map_of_None_keys[of "ls_items s" k] by simp
    then have "times_of k past = []" by (force simp: times_of_def filter_empty_conv)
    then show ?thesis using None by simp
  next
    case (Some ts)
    then obtain c where c: "ts = filter (\<lambda>x. c < x) (times_of k past)" "c \<le> last (map snd past) - w"
      using inv unfolding window_inv_def by blast
    have "past \<noteq> []" using Some keys by (auto dest: map_of_SomeD)
    then have "c \<le> t - w" using c(2) last by simp
    moreover have "sorted ts" unfolding c(1) using st by (rule sorted_wrt_filter)
    ultimately show ?thesis using Some c(1)
      by (auto simp: dropWhile_sorted intro!: filter_cong)
  qed
  obtain s' where s': "inMemoryRequestCount s k (t - w) t = Some (length ?kept, s')" "lru_ok s'"
    "map_of (ls_items s') = (map_of (ls_items s))(k \<mapsto> ?kept @ [t])"
    using inMemory_step[OF ok room] by blast
  have "fst ` set (ls_items s') = insert k (fst ` set (ls_items s))"
    using keys_of_map_of[of "ls_items s'" "AList.update k (?kept @ [t]) (ls_items s)"] s'(3)
    by (simp add: update_conv' keys_update)
  then have keys': "fst ` set (ls_items s') = fst ` set (past @ [(k, t)])" using keys by simp
  have "\<exists>c. ts = filter (\<lambda>x. c < x) (times_of k' (past @ [(k, t)])) \<and> c \<le> t - w"
    if "map_of (ls_items s') k' = Some ts" for k' ts
  proof (cases "k' = k")
    case True
    then show ?thesis using that s'(3) kept w
      by (intro exI[of _ "t - w"]) (auto simp: times_of_append)
  next
    case False
    then have old: "map_of (ls_items s) k' = Some ts" using that s'(3) by simp
    then obtain c where c: "ts = filter (\<lambda>x. c < x) (times_of k' past)" "c \<le> last (map snd past) - w"
      using inv unfolding window_inv_def by blast
    have "past \<noteq> []" using old keys by (auto dest: map_of_SomeD)
    then show ?thesis using c False last by (intro exI[of _ c]) (auto simp: times_of_append)
  qed
  then have "window_inv w (past @ [(k, t)]) s'" using s'(2) keys' by (simp add: window_inv_def)
  then show ?thesis using s'(1) kept by auto
qed

text \<open>A sequence of requests, each a key and a time, and the counts they see.\<close>

fun window_run ::
  "real \<Rightarrow> (string \<times> real) list \<Rightarrow> real list lruStore \<Rightarrow> (nat list \<times> real list lruStore) option" where
  "window_run w [] s = Some ([], s)"
| "window_run w ((k, t) # reqs) s =
     (case inMemoryRequestCount s k (t - w) t of
        None \<Rightarrow> None
      | Some (n, s1) \<Rightarrow> map_option (\<lambda>r. (n # fst r, snd r)) (window_run w reqs s1))"

lemma window_run_exact:
  assumes "window_inv w past s" "0 < w" "sorted (map snd (past @ reqs))"
    "card (fst ` set (past @ reqs)) \<le> maxTrackedRateLimitKeys"
  shows "\<exists>ns s'. window_run w reqs s = Some (ns, s') \<and> length ns = length reqs
    \<and> (\<forall>i<length reqs. ns ! i = length (filter (\<lambda>x. snd (reqs ! i) - w < x)
           (times_of (fst (reqs ! i)) (past @ take i reqs))))"
  using assms
proof (induction reqs arbitrary: past s)
  case (Cons r reqs)
  obtain k t where r: "r = (k, t)" by force
  have "sorted (map snd (past @ [(k, t)]))" using Cons.prems(3) by (auto simp: r sorted_append)
  moreover have "card (fst ` set (past @ [(k, t)])) \<le> card (fst ` set (past @ r # reqs))"
    by (intro card_mono) (auto simp: r)
  ultimately obtain s1 where s1: "inMemoryRequestCount s k (t - w) t
      = Some (length (filter (\<lambda>x. t - w < x) (times_of k past)), s1)"
    "window_inv w (past @ [(k, t)]) s1"
    using window_step[OF Cons.prems(1,2)] Cons.prems(4) by (metis le_trans)
  obtain ns s' where ns: "window_run w reqs s1 = Some (ns, s')" "length ns = length reqs"
    "\<forall>i<length reqs. ns ! i = length (filter (\<lambda>x. snd (reqs ! i) - w < x)
           (times_of (fst (reqs ! i)) ((past @ [(k, t)]) @ take i reqs)))"
    using Cons.IH[OF s1(2) Cons.prems(2)] Cons.prems(3,4) by (auto simp: r)
  show ?case
  proof (intro exI conjI allI impI)
    show "window_run w (r # reqs) s
        = Some (length (filter (\<lambda>x. t - w < x) (times_of k past)) # ns, s')"
      using s1(1) ns(1) by (simp add: r)
    fix i
    assume "i < length (r # reqs)"
    then show "(length (filter (\<lambda>x. t - w < x) (times_of k past)) # ns) ! i
        = length (filter (\<lambda>x. snd ((r # reqs) ! i) - w < x)
            (times_of (fst ((r # reqs) ! i)) (past @ take i (r # reqs))))"
      using ns(3) by (cases i) (auto simp: r)
  qed (simp add: ns(2))
qed simp

lemma window_inv_new: "window_inv w [] newLRUStore"
  by (simp add: window_inv_def newLRUStore_def lru_ok_def)

text \<open>The script on one key.\<close>

fun script_run :: "real \<Rightarrow> real list \<Rightarrow> real list \<Rightarrow> nat list" where
  "script_run w [] zs = []"
| "script_run w (t # ts) zs = (let r = rateLimitScript t w zs in fst r # script_run w ts (snd r))"

lemma script_run_exact:
  assumes "zs = filter (\<lambda>x. c < x) past" "c \<le> (if past = [] then c else last past - w)" "0 < w"
    "sorted_wrt (<) (past @ ts)" "\<forall>t\<in>set (past @ ts). 0 < t"
  shows "length (script_run w ts zs) = length ts
    \<and> (\<forall>i<length ts. script_run w ts zs ! i = Suc (length (filter (\<lambda>x. ts ! i - w < x) (past @ take i ts))))"
  using assms
proof (induction ts arbitrary: past zs c)
  case (Cons t ts)
  have lt: "\<forall>x\<in>set past. x < t" using Cons.prems(4) by (auto simp: sorted_wrt_append)
  then have new: "t \<notin> set zs" using Cons.prems(1) by auto
  let ?zs = "filter (\<lambda>x. t - w < x) (past @ [t])"
  have pos: "\<not> x < 0" if "x \<in> set past" for x
  proof -
    have "0 < x" using Cons.prems(5) that by simp
    then show ?thesis by simp
  qed
  have cut: "c < x" if "x \<in> set past" "t - w < x" for x
  proof -
    have "past \<noteq> []" using that(1) by auto
    then have "last past < t" using lt last_in_set[of past] by blast
    then show ?thesis using Cons.prems(2) that by (auto split: if_splits)
  qed
  have zs: "snd (rateLimitScript t w zs) = ?zs" "fst (rateLimitScript t w zs) = length ?zs"
    using new Cons.prems(1,3,5) pos cut
    by (auto simp: rateLimitScript_def Let_def not_le intro!: filter_cong arg_cong[where f = length])
  have "length (script_run w ts ?zs) = length ts \<and> (\<forall>i<length ts. script_run w ts ?zs ! i
      = Suc (length (filter (\<lambda>x. ts ! i - w < x) ((past @ [t]) @ take i ts))))"
    using Cons.prems by (intro Cons.IH[of _ "t - w"]) auto
  moreover have "length ?zs = Suc (length (filter (\<lambda>x. t - w < x) past))" using Cons.prems(3) by simp
  ultimately show ?case
    using zs by (auto simp: Let_def nth_Cons split: nat.splits)
qed simp

section \<open>The manager never panics\<close>

definition rl_ok :: "('q, 'r) RateLimitManager \<Rightarrow> bool" where
  "rl_ok m \<longleftrightarrow> lru_ok (timestamps m) \<and> lru_ok (byIPTimestamps m) \<and> lru_ok (autobanCounts m)
     \<and> pred_option cache_ok (rl_ban m)"

lemma rl_ok_update [simp]:
  "rl_ok (m\<lparr>rl_rstate := q\<rparr>) = rl_ok m" "rl_ok (m\<lparr>rl_events := es\<rparr>) = rl_ok m"
  "rl_ok (m\<lparr>scriptSHA := x\<rparr>) = rl_ok m" "rl_ok (m\<lparr>rlRedis := h\<rparr>) = rl_ok m"
  "rl_ok (m\<lparr>rl_enabled := b\<rparr>) = rl_ok m" "rl_ok (m\<lparr>rl_prefix := p\<rparr>) = rl_ok m"
  by (simp_all add: rl_ok_def)

lemma evalScript_ok: "rl_ok m \<Longrightarrow> rl_ok (snd (evalScript h key now w lmt m))"
  by (auto simp: evalScript_def emitScriptReloaded_def Let_def split: prod.split sum.split)

lemma redisRequestCount_ok:
  assumes "rl_ok m"
  shows "rl_ok (snd (redisRequestCount env ip t ws w lmt ep fp m))
    \<and> fst (redisRequestCount env ip t ws w lmt ep fp m) \<noteq> Inl Panic"
  using assms evalScript_ok[OF assms]
  by (auto simp: redisRequestCount_def Let_def split: prod.split sum.split option.split)
    (metis snd_conv)+

lemma runTier_ok:
  assumes "rl_ok m"
  shows "rl_ok (snd (runTier env ip tier t m)) \<and> fst (runTier env ip tier t m) \<noteq> Inl Panic"
proof -
  obtain r m1 where r: "redisRequestCount env ip t (t - of_int (t_window tier)) (t_window tier)
      (t_limit tier) (t_endpointPath tier) False m = (r, m1)" by force
  have ok: "rl_ok m1" "r \<noteq> Inl Panic" using redisRequestCount_ok[OF assms] r by (metis snd_conv fst_conv)+
  obtain n s where "inMemoryRequestCount (timestamps m1) (memoryKey env ip (t_endpointPath tier))
      (t - of_int (t_window tier)) t = Some (n, s)" "lru_ok s"
    using inMemoryRequestCount_ok[of "timestamps m1"] ok(1) by (metis rl_ok_def)
  then show ?thesis using r ok
    by (auto simp: runTier_def Let_def rl_ok_def split: sum.split option.split)
qed

lemma runTiers_ok:
  "rl_ok m \<Longrightarrow> rl_ok (snd (runTiers env ip clock i tiers final m))
    \<and> fst (runTiers env ip clock i tiers final m) \<noteq> Inl Panic"
proof (induction tiers arbitrary: i final m)
  case (Cons tier tiers)
  obtain r m1 where r: "runTier env ip tier (clock i) m = (r, m1)" by force
  have "rl_ok m1" "r \<noteq> Inl Panic" using runTier_ok[OF Cons.prems] r by (metis snd_conv fst_conv)+
  then show ?case using Cons.IH[of m1] r by (auto split: sum.split bool.split)
qed simp

lemma CheckRateLimit_ok:
  "rl_ok m \<Longrightarrow> rl_ok (snd (CheckRateLimit env ip path route country clock m))
    \<and> fst (CheckRateLimit env ip path route country clock m) \<noteq> Inl Panic"
  by (simp add: CheckRateLimit_def runTiers_ok)

lemma resolve_ok:
  assumes "rl_ok m" "cache_ok b"
  shows "rl_ok (snd (resolveAndApplyThresholdBan env ip c now b m))
    \<and> fst (resolveAndApplyThresholdBan env ip c now b m) \<noteq> Inl Panic"
proof -
  have "rl_ok (m\<lparr>rl_ban := Some (snd (Ban ft ip d reason now b))\<rparr>)
      \<and> fst (Ban ft ip d reason now b) \<noteq> Inl Panic" for ft d reason
    using assms Ban_ok[OF assms(2)] by (simp add: rl_ok_def)
  then show ?thesis using assms
    by (auto simp: resolveAndApplyThresholdBan_def lift_ban_def Let_def
        split: sum.split option.split go_error.split)
qed

lemma feed_ok:
  assumes "rl_ok m"
  shows "rl_ok (snd (feedRateLimitAutoban env ip now m)) \<and> fst (feedRateLimitAutoban env ip now m) \<noteq> Some Panic"
proof (cases "rl_ban m")
  case None
  then show ?thesis using assms by (auto simp: feedRateLimitAutoban_def)
next
  case (Some b)
  obtain r b1 where r: "IsIPBanned (rl_float env) ip now b = (r, b1)" by force
  have "cache_ok b" using Some assms by (simp add: rl_ok_def)
  then have b1: "cache_ok b1" "r \<noteq> Inl Panic" using IsIPBanned_ok[of b] r by (metis snd_conv fst_conv)+
  have m1: "rl_ok (m\<lparr>rl_ban := Some b1\<rparr>)" using assms b1 by (simp add: rl_ok_def)
  obtain c s1 where s1: "getOrCreate ip 0 (autobanCounts m) = Some (c, s1)" "lru_ok s1"
    using getOrCreate_ok[of "autobanCounts m" ip 0] assms by (metis rl_ok_def)
  obtain s2 where s2: "ls_set ip (c + 1) s1 = Some s2" "lru_ok s2"
    using ls_set_ok[OF s1(2)] by blast
  have m2: "rl_ok (m\<lparr>rl_ban := Some b1, autobanCounts := s2\<rparr>)" using m1 s2(2) by (simp add: rl_ok_def)
  show ?thesis
    using Some r b1 m1 s1(1) s2(1) resolve_ok[OF m2 b1(1), of env ip "c + 1" now] assms
    by (auto simp: feedRateLimitAutoban_def Let_def split: sum.split bool.split prod.split)
qed

lemma CheckRateLimitByIP_ok:
  assumes "rl_ok m"
  shows "rl_ok (snd (CheckRateLimitByIP env ip ep now m)) \<and> fst (CheckRateLimitByIP env ip ep now m) \<noteq> Inl Panic"
proof -
  let ?ws = "now - of_int (RateLimitWindow (rl_cfg m))"
  obtain r m1 where r: "redisRequestCount env ip now ?ws (RateLimitWindow (rl_cfg m))
      (RateLimitN (rl_cfg m)) ep True m = (r, m1)" by force
  have ok: "rl_ok m1" "r \<noteq> Inl Panic" using redisRequestCount_ok[OF assms] r by (metis snd_conv fst_conv)+
  obtain n s where s: "inMemoryRequestCount (byIPTimestamps m1) (memoryKey env ip ep) ?ws now = Some (n, s)" "lru_ok s"
    using inMemoryRequestCount_ok[of "byIPTimestamps m1"] ok(1) by (metis rl_ok_def)
  have m2: "rl_ok (m1\<lparr>byIPTimestamps := s\<rparr>)" using ok(1) s(2) by (simp add: rl_ok_def)
  have v: "validateRateLimitPrimitiveInput ip ep \<noteq> Some Panic"
    by (simp add: validateRateLimitPrimitiveInput_def)
  show ?thesis
    using r ok s(1) m2 v assms feed_ok[OF ok(1), of env ip now] feed_ok[OF m2, of env ip now]
    by (auto simp: CheckRateLimitByIP_def Let_def split: sum.split option.split bool.split prod.split)
qed

datatype 'q rl_op =
    OpCheck string string "RouteRateConfig option" "(string \<Rightarrow> string) option" "nat \<Rightarrow> real"
  | OpCheckByIP string string real
  | OpInitRedis bool string "'q RateLimitRedis option"
  | OpRlReset "'q \<Rightarrow> 'q"
  | OpRlSetEventBus bool

fun rl_step :: "rl_env \<Rightarrow> 'q rl_op \<Rightarrow> ('q, 'r) RateLimitManager
    \<Rightarrow> (go_error + bool) \<times> ('q, 'r) RateLimitManager" where
  "rl_step env (OpCheck ip path route country clock) m =
     (case CheckRateLimit env ip path route country clock m of
        (Inl e, m1) \<Rightarrow> (Inl e, m1)
      | (Inr out, m1) \<Rightarrow> (Inr (\<not> o_Blocked out), m1))"
| "rl_step env (OpCheckByIP ip ep now) m = CheckRateLimitByIP env ip ep now m"
| "rl_step env (OpInitRedis en pre h) m = (Inr True, rl_InitializeRedis en pre h m)"
| "rl_step env (OpRlReset f) m = (Inr True, rl_Reset f m)"
| "rl_step env (OpRlSetEventBus b) m = (Inr True, rl_SetEventBus b m)"

lemma rl_step_ok:
  assumes "rl_ok m"
  shows "rl_ok (snd (rl_step env x m)) \<and> fst (rl_step env x m) \<noteq> Inl Panic"
proof (cases x)
  case (OpCheck ip path route country clock)
  then show ?thesis using CheckRateLimit_ok[OF assms, of env ip path route country clock]
    by (auto split: sum.split prod.split)
next
  case (OpCheckByIP ip ep now)
  then show ?thesis using CheckRateLimitByIP_ok[OF assms] by simp
next
  case (OpInitRedis en pre h)
  then show ?thesis using assms
    by (auto simp: rl_InitializeRedis_def Let_def rl_ok_def split: option.split prod.split sum.split)
qed (use assms in \<open>simp_all add: rl_Reset_def rl_SetEventBus_def rl_ok_def\<close>)

interpretation rate_limiter: component "rl_step env" rl_ok "\<lambda>out. out \<noteq> Inl Panic" for env
  by unfold_locales (simp_all add: rl_step_ok)

lemma NewRateLimitManager_ok: "pred_option cache_ok ban \<Longrightarrow> rl_ok (NewRateLimitManager cfg en pre q ban)"
  by (simp add: rl_ok_def NewRateLimitManager_def)

section \<open>Redis outages\<close>

definition redis_down :: "'q RateLimitRedis \<Rightarrow> bool" where
  "redis_down h \<longleftrightarrow>
     (\<forall>sha k now w l q. \<exists>e. fst (rr_EvalSha h sha k now w l q) = Inl e)
     \<and> (\<forall>k mem now ws w q. \<exists>e. fst (rr_PipelineRateLimit h k mem now ws w q) = Inl e)"

lemma evalScript_down:
  assumes "redis_down h"
  shows "\<exists>e. fst (evalScript h k now w l m) = Inl e"
  using assms unfolding redis_down_def evalScript_def Let_def
  by (auto split: prod.split sum.split) (metis fst_conv sum.distinct(1))+

lemma redisRequestCount_frame:
  "timestamps (snd (redisRequestCount env ip t ws w lmt ep fp m)) = timestamps m
   \<and> rl_cfg (snd (redisRequestCount env ip t ws w lmt ep fp m)) = rl_cfg m
   \<and> rl_enabled (snd (redisRequestCount env ip t ws w lmt ep fp m)) = rl_enabled m
   \<and> rlRedis (snd (redisRequestCount env ip t ws w lmt ep fp m)) = rlRedis m"
  by (auto simp: redisRequestCount_def evalScript_def emitScriptReloaded_def Let_def
      split: option.split prod.split sum.split)

lemma redisRequestCount_down:
  assumes "rl_enabled m" "rlRedis m = Some h" "redis_down h"
  shows "fst (redisRequestCount env ip t ws w lmt ep fp m) =
    (if RedisFailOpen (rl_cfg m) then Inr None
     else Inl (GuardRedisError 503 ''Redis rate limiting unavailable''))"
proof -
  have frame: "rl_cfg (snd (evalScript h k t w lmt m)) = rl_cfg m" for k
    by (auto simp: evalScript_def emitScriptReloaded_def Let_def split: prod.split sum.split)
  define res where "res = (if scriptSHA m \<noteq> [] \<and> \<not> fp
      then evalScript h (rateLimitRedisKey env (rl_prefix m) ip ep) t w lmt m
      else (case rr_PipelineRateLimit h (rateLimitRedisKey env (rl_prefix m) ip ep)
              (ft_format (rl_float env) t) t ws w (rl_rstate m) of (r, q) \<Rightarrow> (r, m\<lparr>rl_rstate := q\<rparr>)))"
  have "\<exists>e. fst res = Inl e"
  proof (cases "scriptSHA m \<noteq> [] \<and> \<not> fp")
    case True
    then show ?thesis using evalScript_down[OF assms(3)] by (simp add: res_def)
  next
    case False
    have "\<exists>e. fst (rr_PipelineRateLimit h (rateLimitRedisKey env (rl_prefix m) ip ep)
              (ft_format (rl_float env) t) t ws w (rl_rstate m)) = Inl e"
      using assms(3) by (simp add: redis_down_def)
    with False show ?thesis by (auto simp: res_def split: prod.split)
  qed
  moreover have "rl_cfg (snd res) = rl_cfg m" by (auto simp: res_def frame split: prod.split)
  moreover have "redisRequestCount env ip t ws w lmt ep fp m = (case res of
       (Inr count, m1) \<Rightarrow> (Inr (Some count), m1)
     | (Inl _, m1) \<Rightarrow>
         (if RedisFailOpen (rl_cfg m) then (Inr None, m1)
          else (Inl (GuardRedisError 503 ''Redis rate limiting unavailable''), m1)))"
    using assms(1,2) by (simp add: redisRequestCount_def res_def Let_def)
  ultimately show ?thesis by (cases res) auto
qed

lemma runTier_fail_open:
  assumes "rl_enabled m" "rlRedis m = Some h" "redis_down h" "RedisFailOpen (rl_cfg m)"
    "\<not> rl_enabled n" "timestamps n = timestamps m"
  shows "fst (runTier env ip tier t m) = fst (runTier env ip tier t n)
    \<and> timestamps (snd (runTier env ip tier t n)) = timestamps (snd (runTier env ip tier t m))
    \<and> \<not> rl_enabled (snd (runTier env ip tier t n)) \<and> rl_enabled (snd (runTier env ip tier t m))
    \<and> rlRedis (snd (runTier env ip tier t m)) = Some h
    \<and> RedisFailOpen (rl_cfg (snd (runTier env ip tier t m)))"
proof -
  let ?q = "redisRequestCount env ip t (t - of_int (t_window tier)) (t_window tier) (t_limit tier)
      (t_endpointPath tier) False"
  obtain m1 where m1: "?q m = (Inr None, m1)"
    using redisRequestCount_down[OF assms(1-3), of env ip t] assms(4) by (metis prod.exhaust_sel)
  have f: "timestamps m1 = timestamps m" "rl_cfg m1 = rl_cfg m" "rl_enabled m1" "rlRedis m1 = Some h"
    using redisRequestCount_frame[of env ip t "t - of_int (t_window tier)" "t_window tier" "t_limit tier"
        "t_endpointPath tier" False m] m1 assms by simp_all
  have n1: "?q n = (Inr None, n)" using assms(5) by (simp add: redisRequestCount_def)
  show ?thesis using m1 n1 f assms by (auto simp: runTier_def Let_def split: option.split)
qed

lemma runTiers_fail_open:
  assumes "rl_enabled m" "rlRedis m = Some h" "redis_down h" "RedisFailOpen (rl_cfg m)"
    "\<not> rl_enabled n" "timestamps n = timestamps m"
  shows "fst (runTiers env ip clock i tiers final m) = fst (runTiers env ip clock i tiers final n)"
  using assms
proof (induction tiers arbitrary: i final m n)
  case (Cons tier tiers)
  obtain r m1 where m1: "runTier env ip tier (clock i) m = (r, m1)" by force
  obtain n1 where n1: "runTier env ip tier (clock i) n = (r, n1)"
    using runTier_fail_open[OF Cons.prems, of env ip tier "clock i"] m1 by (metis fst_conv prod.exhaust_sel)
  have "rl_enabled m1 \<and> rlRedis m1 = Some h \<and> RedisFailOpen (rl_cfg m1) \<and> \<not> rl_enabled n1
      \<and> timestamps n1 = timestamps m1"
    using runTier_fail_open[OF Cons.prems, of env ip tier "clock i"] m1 n1 by simp
  then have "fst (runTiers env ip clock (Suc i) tiers f m1) = fst (runTiers env ip clock (Suc i) tiers f n1)" for f
    using Cons.IH[of m1 n1] Cons.prems(3) by blast
  then show ?case using m1 n1 by (auto split: sum.split bool.split)
qed simp

section \<open>Properties\<close>

text \<open>C11: the in-memory limiter is an exact sliding window: for requests in time order, as long as no
  more keys are in use than the store tracks, each request is told the number of earlier requests of
  its own key that lie within its window, and no other key disturbs the count.\<close>

theorem sliding_window_exact:
  assumes "0 < w" "sorted (map snd reqs)" "card (fst ` set reqs) \<le> maxTrackedRateLimitKeys"
  shows "\<exists>ns s. window_run w reqs newLRUStore = Some (ns, s) \<and> length ns = length reqs
    \<and> (\<forall>i<length reqs. ns ! i = length (filter (\<lambda>p. fst p = fst (reqs ! i) \<and> snd (reqs ! i) - w < snd p)
         (take i reqs)))"
proof -
  have eq: "length (filter (\<lambda>x. c < x) (times_of k ps)) = length (filter (\<lambda>p. fst p = k \<and> c < snd p) ps)"
    for c k and ps :: "(string \<times> real) list"
    by (induction ps) (auto simp: times_of_def)
  show ?thesis
    using window_run_exact[OF window_inv_new assms(1), of reqs] assms(2,3) by (simp add: eq)
qed

theorem sliding_window_exact_witness:
  "\<exists>ns s. window_run 60 [(''a'', 1), (''b'', 2), (''a'', 30), (''a'', 61.5)] newLRUStore = Some (ns, s)
     \<and> ns ! 3 = 1"
proof -
  let ?reqs = "[(''a'', 1), (''b'', 2), (''a'', 30), (''a'', 61.5)] :: (string \<times> real) list"
  have "card (fst ` set ?reqs) \<le> maxTrackedRateLimitKeys"
    by (simp add: maxTrackedRateLimitKeys_def card_insert_if)
  then obtain ns s where "window_run 60 ?reqs newLRUStore = Some (ns, s)"
    "\<forall>i<length ?reqs. ns ! i = length (filter (\<lambda>p. fst p = fst (?reqs ! i) \<and> snd (?reqs ! i) - 60 < snd p) (take i ?reqs))"
    using sliding_window_exact[of 60 ?reqs] by auto
  moreover from this(2)[rule_format, of 3] have "ns ! 3 = 1" by simp
  ultimately show ?thesis by blast
qed

text \<open>C12: on one key, when no two requests carry the same time, the Lua script and the in-memory window
  take the same decision: the script counts the request itself, so its count is one more, and it
  refuses above the limit where the in-memory window refuses at the limit.\<close>

theorem script_agrees_with_memory:
  assumes "0 < w" "sorted_wrt (<) ts" "\<forall>t\<in>set ts. 0 < t" "i < length ts"
  shows "\<exists>ns s. window_run w (map (Pair key) ts) newLRUStore = Some (ns, s)
    \<and> script_run w ts [] ! i = Suc (ns ! i)
    \<and> (int (script_run w ts [] ! i) > limit \<longleftrightarrow> int (ns ! i) \<ge> limit)"
proof -
  have "sorted ts" using assms(2) by (rule strict_sorted_imp_sorted)
  then have "sorted (map snd (map (Pair key) ts))" by (simp add: comp_def)
  moreover have "card (fst ` set (map (Pair key) ts)) \<le> maxTrackedRateLimitKeys"
  proof -
    have "fst ` set (map (Pair key) ts) \<subseteq> {key}" by auto
    then have "card (fst ` set (map (Pair key) ts)) \<le> 1"
      by (metis card_mono finite.intros card_1_singleton_iff One_nat_def is_singletonI is_singleton_altdef)
    then show ?thesis by (simp add: maxTrackedRateLimitKeys_def)
  qed
  ultimately obtain ns s where ns: "window_run w (map (Pair key) ts) newLRUStore = Some (ns, s)"
    "ns ! i = length (filter (\<lambda>x. ts ! i - w < x) (times_of key (take i (map (Pair key) ts))))"
    using window_run_exact[OF window_inv_new assms(1), of "map (Pair key) ts"] assms(4) by auto
  have "times_of key (map (Pair key) us) = us" for us by (induction us) (auto simp: times_of_def)
  then have "times_of key (take i (map (Pair key) ts)) = take i ts" by (simp add: take_map)
  moreover have "script_run w ts [] ! i = Suc (length (filter (\<lambda>x. ts ! i - w < x) (take i ts)))"
    using script_run_exact[of "[]" 0 "[]" w ts] assms by auto
  ultimately have "script_run w ts [] ! i = Suc (ns ! i)" using ns(2) by simp
  then show ?thesis using ns(1) by (intro exI[of _ ns] exI[of _ s]) auto
qed

theorem script_agrees_with_memory_witness:
  "\<exists>ns s. window_run 60 (map (Pair ''a'') [1, 2]) newLRUStore = Some (ns, s)
     \<and> script_run 60 [1, 2] [] ! 1 = Suc (ns ! 1)"
proof -
  have "0 < (60 :: real)" "sorted_wrt (<) [1, 2 :: real]" "\<forall>t\<in>set [1, 2 :: real]. 0 < t"
    "1 < length [1, 2 :: real]" by simp_all
  from script_agrees_with_memory[OF this, of "''a''" 1] show ?thesis by blast
qed

text \<open>two requests at one clock reading are one request for the Lua script, whose set members are
  the clock readings, and two for the in-memory window: with a limit of one the second request of a
  burst is refused in memory and admitted through Redis.\<close>

theorem script_collapses_equal_times:
  "script_run 60 [t, t] [] ! 1 = 1
   \<and> (\<exists>ns s. window_run 60 [(key, t), (key, t)] newLRUStore = Some (ns, s) \<and> ns ! 1 = 1)"
proof
  show "script_run 60 [t, t] [] ! 1 = 1" by (auto simp: rateLimitScript_def Let_def)
  have "card (fst ` set [(key, t), (key, t)]) \<le> maxTrackedRateLimitKeys" by (simp add: maxTrackedRateLimitKeys_def)
  then show "\<exists>ns s. window_run 60 [(key, t), (key, t)] newLRUStore = Some (ns, s) \<and> ns ! 1 = 1"
    using window_run_exact[OF window_inv_new, of 60 "[(key, t), (key, t)]"]
    by (auto simp: times_of_def)
qed

text \<open>while every Redis rate-limit call fails, the check answers the 503 error of the manager when
  it is not configured to fail open, and otherwise takes exactly the decision of a manager without
  Redis over the same in-memory windows.\<close>

theorem redis_outage_policy:
  assumes "rl_enabled m" "rlRedis m = Some h" "redis_down h" "EnableRateLimiting (rl_cfg m)"
  shows "fst (CheckRateLimit env ip path route country clock m) =
    (if RedisFailOpen (rl_cfg m)
     then fst (CheckRateLimit env ip path route country clock (m\<lparr>rl_enabled := False\<rparr>))
     else Inl (GuardRedisError 503 ''Redis rate limiting unavailable''))"
proof (cases "RedisFailOpen (rl_cfg m)")
  case True
  then show ?thesis
    using runTiers_fail_open[OF assms(1-3) True, of "m\<lparr>rl_enabled := False\<rparr>"] assms(4)
    by (simp add: CheckRateLimit_def)
next
  case False
  obtain tier tiers where t: "tiersFor (rl_cfg m) ip path route country = tier # tiers"
    by (cases "tiersFor (rl_cfg m) ip path route country") (auto simp: tiersFor_def)
  have "fst (runTier env ip tier (clock 0) m) = Inl (GuardRedisError 503 ''Redis rate limiting unavailable'')"
    using redisRequestCount_down[OF assms(1-3)] False
    by (auto simp: runTier_def Let_def split: prod.split sum.split option.split)
      (metis fst_conv sum.inject(1) sum.distinct(1) sum.distinct(2))+
  then show ?thesis
    using False assms(4) t by (auto simp: CheckRateLimit_def split: prod.split sum.split)
qed

definition wt_down :: "unit RateLimitRedis" where
  "wt_down = \<lparr>rr_ScriptLoad = (\<lambda>q. (Inl ''down'', q)), rr_EvalSha = (\<lambda>_ _ _ _ _ q. (Inl ''down'', q)),
     rr_PipelineRateLimit = (\<lambda>_ _ _ _ _ q. (Inl ''down'', q))\<rparr>"

definition wt_env :: rl_env where
  "wt_env = \<lparr>rl_hash = id, rl_float = wt_float\<rparr>"

theorem redis_outage_policy_witness:
  "fst (CheckRateLimit wt_env ''10.0.0.1'' ''/x'' None None (\<lambda>_. 100)
      ((NewRateLimitManager DefaultRateLimitConfig True ''guard_core:'' () (None :: unit IPBanManager option))
        \<lparr>rlRedis := Some wt_down\<rparr>))
   = Inl (GuardRedisError 503 ''Redis rate limiting unavailable'')"
proof -
  have "redis_down wt_down" by (simp add: redis_down_def wt_down_def)
  then show ?thesis
    by (subst redis_outage_policy[where h = wt_down])
      (simp_all add: NewRateLimitManager_def DefaultRateLimitConfig_def)
qed

text \<open>no sequence of rate-limit checks, checks by address, Redis attachments and resets makes the
  manager panic, whatever Redis, the configuration and the routes are.\<close>

theorem rate_limiter_safe:
  assumes "pred_option cache_ok ban"
  shows "Inl Panic \<notin> set (fst (run_ops (rl_step env) ops (NewRateLimitManager cfg en pre q ban)))"
  using rate_limiter.good_run[OF NewRateLimitManager_ok[OF assms], of "Inl Panic" env ops cfg en pre q] by auto

theorem rate_limiter_safe_witness:
  "Inl Panic \<notin> set (fst (run_ops (rl_step wt_env) [OpCheckByIP ''10.0.0.1'' ''/x'' 1, OpCheckByIP ''10.0.0.1'' ''/x'' 2]
     (NewRateLimitManager DefaultRateLimitConfig False '''' () (None :: unit IPBanManager option))))"
  by (rule rate_limiter_safe) simp

lemma gets_append: "gets (ks @ ls) c s = Option.bind (gets ks c s) (gets ls c)"
  by (induction ks arbitrary: s) (auto split: bind_splits)

text \<open>The store after one key is created, perhaps used again, and the others fill it to its cap.\<close>

lemma fill_store:
  assumes "distinct (k # ks)" "length ks = maxTrackedRateLimitKeys - 1"
  shows "gets (k # k # ks) c newLRUStore
    = Some \<lparr>ls_items = (k, c) # map (\<lambda>x. (x, c)) ks, ls_order = k # k # ks\<rparr>"
proof -
  have "gets [k, k] c newLRUStore = Some \<lparr>ls_items = [(k, c)], ls_order = [k, k]\<rparr>"
    by (simp add: getOrCreate_def newLRUStore_def evict_head_def maxTrackedRateLimitKeys_def)
  moreover have "gets ks c \<lparr>ls_items = [(k, c)], ls_order = [k, k]\<rparr>
      = Some \<lparr>ls_items = [(k, c)] @ map (\<lambda>x. (x, c)) ks, ls_order = [k, k] @ ks\<rparr>"
    using assms by (subst gets_below_cap) (auto simp: maxTrackedRateLimitKeys_def)
  ultimately show ?thesis using gets_append[of "[k, k]" ks c newLRUStore] by simp
qed

text \<open>the tracked-key store does not keep its cap. Using a tracked key again appends a second entry
  for it to the order slice; once its first entry is evicted the second one is stale, evicts nothing,
  and the store grows past the cap of ten thousand keys.\<close>

theorem lru_store_exceeds_cap:
  assumes "distinct (k # ks @ [n1, n2])" "length ks = maxTrackedRateLimitKeys - 1"
  shows "\<exists>s. gets (k # k # ks @ [n1, n2]) c newLRUStore = Some s \<and> ls_len s = maxTrackedRateLimitKeys + 1"
proof -
  let ?s0 = "\<lparr>ls_items = (k, c) # map (\<lambda>x. (x, c)) ks, ls_order = k # k # ks\<rparr>"
  let ?it = "map (\<lambda>x. (x, c)) ks"
  have d: "k \<notin> set ks" "n1 \<notin> set ks" "n2 \<notin> set ks" "n1 \<noteq> k" "n2 \<noteq> k" "n1 \<noteq> n2" using assms(1) by auto
  have none: "map_of ?it x = None" if "x \<notin> set ks" for x using that by (auto simp: map_of_None_keys)
  have del: "AList.delete k ?it = ?it"
    using d(1) by (auto simp: AList.delete_eq filter_id_conv) 
  have cap: "Suc (length ks) = maxTrackedRateLimitKeys" using assms(2) by (simp add: maxTrackedRateLimitKeys_def)
  have g1: "getOrCreate n1 c ?s0 = Some (c, \<lparr>ls_items = ?it @ [(n1, c)], ls_order = k # ks @ [n1]\<rparr>)"
    using d none[OF d(2)] cap del by (simp add: getOrCreate_def evict_head_def update_fresh image_iff)
  have g2: "getOrCreate n2 c \<lparr>ls_items = ?it @ [(n1, c)], ls_order = k # ks @ [n1]\<rparr>
      = Some (c, \<lparr>ls_items = (?it @ [(n1, c)]) @ [(n2, c)], ls_order = ks @ [n1] @ [n2]\<rparr>)"
  proof -
    have "AList.delete k (?it @ [(n1, c)]) = ?it @ [(n1, c)]"
      using d by (auto simp: AList.delete_eq filter_id_conv)
    moreover have "map_of (?it @ [(n1, c)]) n2 = None" using d none[OF d(3)] by (simp add: map_add_def)
    ultimately show ?thesis
      using d cap by (simp add: getOrCreate_def evict_head_def update_fresh image_iff map_add_def)
  qed
  have "gets (k # k # ks @ [n1, n2]) c newLRUStore = Option.bind (gets (k # k # ks) c newLRUStore) (gets [n1, n2] c)"
    using gets_append[of "k # k # ks" "[n1, n2]"] by simp
  also have "\<dots> = Some \<lparr>ls_items = (?it @ [(n1, c)]) @ [(n2, c)], ls_order = ks @ [n1] @ [n2]\<rparr>"
    using fill_store[of k ks c] assms g1 g2 by simp
  finally show ?thesis using cap by (simp add: ls_len_def)
qed

definition wt_keys :: "nat \<Rightarrow> string list" where
  "wt_keys n = map (\<lambda>i. replicate (Suc i) CHR ''a'') [0..<n]"

lemma wt_keys_distinct: "distinct (''k'' # wt_keys n @ [''x'', ''y''])"
proof -
  have "inj (\<lambda>i. replicate (Suc i) CHR ''a'')" by (rule injI) (metis length_replicate nat.inject)
  then have "distinct (wt_keys n)" by (simp add: wt_keys_def distinct_map inj_on_def inj_def)
  then show ?thesis by (auto simp: wt_keys_def)
qed

theorem lru_store_exceeds_cap_witness:
  "\<exists>s. gets (''k'' # ''k'' # wt_keys 9999 @ [''x'', ''y'']) (0::int) newLRUStore = Some s \<and> ls_len s = 10001"
  using lru_store_exceeds_cap[OF wt_keys_distinct, of 9999 0]
  by (simp add: wt_keys_def maxTrackedRateLimitKeys_def)

text \<open>the store is not least-recently-used: the key used last can be the one evicted, which
  resets its window and its refusal count.\<close>

theorem lru_store_evicts_most_recent:
  assumes "distinct (k # ks @ [n1])" "length ks = maxTrackedRateLimitKeys - 1"
  shows "\<exists>s. gets (k # ks @ [k, n1]) c newLRUStore = Some s \<and> map_of (ls_items s) k = None"
proof -
  let ?it = "map (\<lambda>x. (x, c)) ks"
  have d: "k \<notin> set ks" "n1 \<notin> set ks" "n1 \<noteq> k" using assms(1) by auto
  have cap: "Suc (length ks) = maxTrackedRateLimitKeys" using assms(2) by (simp add: maxTrackedRateLimitKeys_def)
  have fill: "gets (k # ks) c newLRUStore = Some \<lparr>ls_items = (k, c) # ?it, ls_order = k # ks\<rparr>"
    using gets_below_cap[of "k # ks" newLRUStore c] assms cap by (simp add: newLRUStore_def)
  have del: "AList.delete k ?it = ?it" using d(1) by (auto simp: AList.delete_eq filter_id_conv)
  have nn: "map_of ?it x = None" if "x \<notin> set ks" for x using that by (auto simp: map_of_None_keys)
  have kn: "k \<notin> fst ` set ?it" using d(1) by (auto)
  have g1: "getOrCreate k c \<lparr>ls_items = (k, c) # ?it, ls_order = k # ks\<rparr>
      = Some (c, \<lparr>ls_items = ?it @ [(k, c)], ls_order = k # ks @ [k]\<rparr>)"
    using del kn by (simp add: getOrCreate_def update_fresh)
  have "AList.delete k (?it @ [(k, c)]) = ?it"
    using d(1) by (auto simp: AList.delete_eq filter_id_conv)
  moreover have "map_of (?it @ [(k, c)]) n1 = None"
    using d nn by (simp add: map_add_def)
  ultimately have g2: "getOrCreate n1 c \<lparr>ls_items = ?it @ [(k, c)], ls_order = k # ks @ [k]\<rparr>
      = Some (c, \<lparr>ls_items = ?it @ [(n1, c)], ls_order = (ks @ [k]) @ [n1]\<rparr>)"
    using d cap by (simp add: getOrCreate_def evict_head_def update_fresh image_iff map_add_def)
  have "gets (k # ks @ [k, n1]) c newLRUStore = Some \<lparr>ls_items = ?it @ [(n1, c)], ls_order = (ks @ [k]) @ [n1]\<rparr>"
  proof -
    have "gets (k # ks @ [k, n1]) c newLRUStore = Option.bind (gets (k # ks) c newLRUStore) (gets [k, n1] c)"
      using gets_append[of "k # ks" "[k, n1]" c newLRUStore] by (simp only: append_Cons)
    also have "\<dots> = gets [k, n1] c \<lparr>ls_items = (k, c) # ?it, ls_order = k # ks\<rparr>" by (simp only: fill bind.bind_lunit)
    finally show ?thesis using g1 g2 by simp
  qed
  moreover have "map_of (?it @ [(n1, c)]) k = None" using d nn by (simp add: map_add_def)
  ultimately show ?thesis by auto
qed

theorem lru_store_evicts_most_recent_witness:
  "\<exists>s. gets (''k'' # wt_keys 9999 @ [''k'', ''x'']) (0::int) newLRUStore = Some s
     \<and> map_of (ls_items s) ''k'' = None"
proof -
  have "distinct (''k'' # wt_keys 9999 @ [''x''])" using wt_keys_distinct[of 9999] by auto
  then show ?thesis
    using lru_store_evicts_most_recent[of "''k''" "wt_keys 9999" "''x''" 0]
    by (simp add: wt_keys_def maxTrackedRateLimitKeys_def)
qed

text \<open>the endpoint, route and geo tiers of one path share one window, so a request is counted once
  per tier: with an endpoint limit of five and a route limit of one, the very first request of a
  client is refused by the route tier.\<close>

theorem tiers_share_one_window:
  "let cfg = DefaultRateLimitConfig\<lparr>EndpointRateLimits := [(''/x'', \<lparr>re_Requests = 5, re_Window = 60\<rparr>)]\<rparr>;
       route = \<lparr>rrc_RateLimit = Some 1, rrc_RateLimitWindow = None, rrc_GeoRateLimits = []\<rparr>;
       m = NewRateLimitManager cfg False '''' () (None :: unit IPBanManager option)
   in \<exists>out. fst (CheckRateLimit env ''10.0.0.1'' ''/x'' (Some route) None (\<lambda>_. 100) m) = Inr out
        \<and> o_Blocked out \<and> o_Tier out = ''route'' \<and> o_StatusCode out = 429"
  by (simp add: Let_def CheckRateLimit_def NewRateLimitManager_def DefaultRateLimitConfig_def tiersFor_def
      endpoint_tier_def route_tier_def geo_tier_def runTier_def redisRequestCount_def
      inMemoryRequestCount_def getOrCreate_def ls_set_def evict_head_def newLRUStore_def memoryKey_def
      maxTrackedRateLimitKeys_def RateLimitBlockedStatus_def)

end
