(* ===== verification/IPExtraction.thy ===== *)
theory IPExtraction
  imports IPBan Utf8
begin

text \<open>
  \<open>guardcore/ipextraction.go\<close> and the port stripping of \<open>headerexclusions.go\<close>: resolving the client of
  a request from its direct peer and the \<open>X-Forwarded-For\<close> chain. \<open>None\<close> is the index or slice panic
  of a proxy depth below one. The once-per-process warnings are log lines and left out; the spoofing
  event is in the list of events.
\<close>

section \<open>Entries of the chain\<close>

definition isASCIIdigits :: "string \<Rightarrow> bool" where
  "isASCIIdigits value \<longleftrightarrow> value \<noteq> [] \<and> list_all is_digit value"

definition count_byte :: "string \<Rightarrow> char \<Rightarrow> nat" where
  "count_byte s c = length (filter (\<lambda>x. x = c) s)"

definition stripForwardedEntryPort :: "string \<Rightarrow> string" where
  "stripForwardedEntryPort value =
     (if has_prefix value ''['' then
        (case index_byte value CHR '']'' of
           None \<Rightarrow> value
         | Some closing \<Rightarrow>
             (let remainder = drop (closing + 1) value in
              if remainder \<noteq> [] \<and> \<not> (has_prefix remainder '':'' \<and> isASCIIdigits (tl remainder)) then value
              else slice value 1 closing))
      else if count_byte value CHR '':'' = 1 then
        (case index_byte value CHR '':'' of
           None \<Rightarrow> value
         | Some i \<Rightarrow> if isASCIIdigits (drop (i + 1) value) then take i value else value)
      else value)"

definition proxyMatches :: "string \<Rightarrow> addr \<Rightarrow> string \<Rightarrow> bool" where
  "proxyMatches connectingIP a proxy =
     (if CHR ''/'' \<in> set proxy then
        (case ParsePrefix proxy of
           None \<Rightarrow> False
         | Some p \<Rightarrow> prefix_contains p a \<or> prefix_contains p (unmap a))
      else connectingIP = proxy)"

definition isTrustedProxy :: "string \<Rightarrow> string list \<Rightarrow> bool" where
  "isTrustedProxy connectingIP proxies =
     (case ParseAddr connectingIP of
        None \<Rightarrow> False
      | Some a \<Rightarrow> list_ex (proxyMatches connectingIP a) proxies)"

definition forwardedHeaderCandidateHasMetachar :: "string \<Rightarrow> bool" where
  "forwardedHeaderCandidateHasMetachar candidate \<longleftrightarrow>
     list_ex (\<lambda>c. c \<in> set ''*?[]'' \<or> c = CHR 0x5C) candidate"

definition forwardedHeaderIPs :: "string \<Rightarrow> string list" where
  "forwardedHeaderIPs forwardedFor =
     map (\<lambda>ip. stripForwardedEntryPort (trim_space ip)) (split_on CHR '','' forwardedFor)"

text \<open>The entry counted from the right; the outer \<open>None\<close> is an index out of range.\<close>

definition forwardedHeaderCandidate :: "string \<Rightarrow> int \<Rightarrow> string option option" where
  "forwardedHeaderCandidate forwardedFor proxyDepth =
     (let ips = forwardedHeaderIPs forwardedFor in
      if int (length ips) < proxyDepth then Some None
      else if proxyDepth < 1 then None
      else Some (Some (ips ! (length ips - nat proxyDepth))))"

definition extractFromForwardedHeader :: "string \<Rightarrow> int \<Rightarrow> string option" where
  "extractFromForwardedHeader forwardedFor proxyDepth =
     (if forwardedFor = [] then Some []
      else
        (case forwardedHeaderCandidate forwardedFor proxyDepth of
           None \<Rightarrow> None
         | Some None \<Rightarrow> Some []
         | Some (Some candidate) \<Rightarrow>
             (case ParseAddr candidate of
                None \<Rightarrow> Some []
              | Some a \<Rightarrow>
                  (if forwardedHeaderCandidateHasMetachar candidate then Some []
                   else Some (canonicalIPText a)))))"

definition forwardedHeaderRightSideUnlistedCount :: "string list \<Rightarrow> int \<Rightarrow> string list \<Rightarrow> nat option" where
  "forwardedHeaderRightSideUnlistedCount ips proxyDepth proxies =
     (let start = (if int (length ips) - proxyDepth + 1 < 0 then 0 else int (length ips) - proxyDepth + 1) in
      if start > int (length ips) then None
      else Some (length (filter (\<lambda>entry. \<not> isTrustedProxy (CanonicalizeIP entry) proxies)
                   (drop (nat start) ips))))"

text \<open>The walk from the right, on the reversed list.\<close>

fun walk_right :: "string list \<Rightarrow> string list \<Rightarrow> string" where
  "walk_right proxies [] = []"
| "walk_right proxies (entry # left) =
     (if isTrustedProxy (CanonicalizeIP entry) proxies then walk_right proxies left
      else
        (case ParseAddr entry of
           None \<Rightarrow> []
         | Some a \<Rightarrow> if forwardedHeaderCandidateHasMetachar entry then [] else canonicalIPText a))"

definition resolveForwardedChainRightToLeft :: "string list \<Rightarrow> string list \<Rightarrow> string" where
  "resolveForwardedChainRightToLeft ips proxies = walk_right proxies (rev ips)"

definition isPrivateOrLoopback :: "string \<Rightarrow> bool" where
  "isPrivateOrLoopback ip =
     (case ParseAddr ip of
        None \<Rightarrow> False
      | Some a \<Rightarrow> addr_private a \<or> addr_loopback a \<or> addr_link_local a)"

definition RedactedPlaceholder :: string where
  "RedactedPlaceholder = ''[REDACTED]''"

definition displayForwardedChain :: "string \<Rightarrow> string" where
  "displayForwardedChain value =
     join_with '',''
       (map (\<lambda>part. if ParseAddr (stripForwardedEntryPort (trim_space part)) \<noteq> None then part
                    else RedactedPlaceholder)
          (split_on CHR '','' value))"

section \<open>Resolution\<close>

definition resolveClientIPFromForwardedChain ::
  "string \<Rightarrow> string \<Rightarrow> int \<Rightarrow> string list \<Rightarrow> string option" where
  "resolveClientIPFromForwardedChain canonicalConnectingIP forwardedFor proxyDepth proxies =
     (if forwardedFor = [] then Some canonicalConnectingIP
      else
        (let ips = forwardedHeaderIPs forwardedFor;
             direct = (case extractFromForwardedHeader forwardedFor proxyDepth of
                         None \<Rightarrow> None
                       | Some clientIP \<Rightarrow>
                           if clientIP \<noteq> [] then Some clientIP else Some canonicalConnectingIP)
         in if int (length ips) < proxyDepth then Some canonicalConnectingIP
            else if proxies \<noteq> [] then
              (case forwardedHeaderRightSideUnlistedCount ips proxyDepth proxies of
                 None \<Rightarrow> None
               | Some n \<Rightarrow>
                   (if n > 0 then
                      (let resolved = resolveForwardedChainRightToLeft ips proxies in
                       if resolved \<noteq> [] then Some resolved else Some canonicalConnectingIP)
                    else direct))
            else direct))"

text \<open>The configuration and the request as far as the resolution reads them. \<open>ir_state\<close> is the cached
  identity, empty when nothing is cached, and \<open>None\<close> for a request without state.\<close>

record ip_config =
  ic_TrustedProxies :: "string list"
  ic_TrustedProxyDepth :: int
  ic_bus :: bool

record ip_request =
  ir_ClientHost :: string
  ir_ForwardedFor :: string
  ir_state :: "string option"
  ir_events :: "handler_event list"

definition spoof_event :: "ip_request \<Rightarrow> handler_event" where
  "spoof_event req =
     \<lparr>he_type = ''suspicious_request'', he_handler = ''ip_extraction'', he_ip = canonicalizeIPString (ir_ClientHost req),
      he_action = ''spoofing_detected'',
      he_reason = ''Potential IP spoof attempt: X-Forwarded-For header '' @ displayForwardedChain (ir_ForwardedFor req),
      he_duration = None\<rparr>"

definition handleUntrustedProxy :: "ip_config \<Rightarrow> ip_request \<Rightarrow> string \<Rightarrow> string \<times> ip_request" where
  "handleUntrustedProxy cfg req canonicalConnectingIP =
     (canonicalConnectingIP,
      if ir_ForwardedFor req \<noteq> [] \<and> ic_bus cfg
      then req\<lparr>ir_events := ir_events req @ [spoof_event req]\<rparr> else req)"

definition cache_ip :: "string \<Rightarrow> ip_request \<Rightarrow> ip_request" where
  "cache_ip ip req = req\<lparr>ir_state := map_option (\<lambda>_. ip) (ir_state req)\<rparr>"

definition extractClientIP :: "ip_config \<Rightarrow> ip_request \<Rightarrow> (string \<times> ip_request) option" where
  "extractClientIP cfg req =
     (case ir_state req of
        Some (c # cs) \<Rightarrow> Some (c # cs, req)
      | _ \<Rightarrow>
          (let host = ir_ClientHost req; proxies = ic_TrustedProxies cfg in
           if host = [] then
             (if ''unix'' \<in> set proxies
              then map_option (\<lambda>ip. (ip, req))
                     (resolveClientIPFromForwardedChain ''unknown'' (ir_ForwardedFor req)
                        (ic_TrustedProxyDepth cfg) proxies)
              else Some ([], req))
           else
             (let canonicalConnectingIP = CanonicalizeIP host in
              if proxies = [] then Some (canonicalConnectingIP, req)
              else if \<not> isTrustedProxy host proxies then
                (case handleUntrustedProxy cfg req canonicalConnectingIP of
                   (resolved, req1) \<Rightarrow> Some (resolved, cache_ip resolved req1))
              else
                map_option (\<lambda>resolved. (resolved, cache_ip resolved req))
                  (resolveClientIPFromForwardedChain canonicalConnectingIP (ir_ForwardedFor req)
                     (ic_TrustedProxyDepth cfg) proxies))))"

section \<open>Facts\<close>

lemma forwardedHeaderIPs_append:
  "forwardedHeaderIPs (s @ CHR '','' # t) = forwardedHeaderIPs s @ forwardedHeaderIPs t"
  by (simp add: forwardedHeaderIPs_def split_on_append)

lemma forwardedHeaderIPs_not_Nil [simp]: "forwardedHeaderIPs s \<noteq> []"
  by (simp add: forwardedHeaderIPs_def)

lemma canonicalIPText_not_Nil: "ParseAddr s = Some a \<Longrightarrow> canonicalIPText a \<noteq> []"
proof -
  assume "ParseAddr s = Some a"
  then have ok: "addr_ok a" by (rule ParseAddr_ok)
  then have "ParseAddr (canonicalIPText a) = Some (canonical_addr a)"
    by (simp add: canonicalIPText_String netip.parse_print canonical_addr_ok)
  then show ?thesis by (auto simp: ParseAddr_def)
qed

text \<open>A hop that names a client: it parses and carries no pattern characters.\<close>

definition hop_addr :: "string \<Rightarrow> addr option" where
  "hop_addr entry = (if forwardedHeaderCandidateHasMetachar entry then None else ParseAddr entry)"

lemma walk_right_spec:
  "walk_right proxies es =
     (case dropWhile (\<lambda>e. isTrustedProxy (CanonicalizeIP e) proxies) es of
        [] \<Rightarrow> []
      | e # _ \<Rightarrow> (case hop_addr e of None \<Rightarrow> [] | Some a \<Rightarrow> canonicalIPText a))"
  by (induction es) (auto simp: hop_addr_def split: option.split)

lemma extractFrom_spec:
  assumes "1 \<le> d" "d \<le> int (length (forwardedHeaderIPs xff))" "xff \<noteq> []"
  shows "extractFromForwardedHeader xff d =
     Some (case hop_addr (forwardedHeaderIPs xff ! (length (forwardedHeaderIPs xff) - nat d)) of
             None \<Rightarrow> [] | Some a \<Rightarrow> canonicalIPText a)"
  using assms
  by (auto simp: extractFromForwardedHeader_def forwardedHeaderCandidate_def hop_addr_def Let_def
      split: option.split)

definition unlisted :: "string list \<Rightarrow> int \<Rightarrow> string list \<Rightarrow> bool" where
  "unlisted ips d proxies \<longleftrightarrow>
     (\<exists>e\<in>set (drop (length ips + 1 - nat d) ips). \<not> isTrustedProxy (CanonicalizeIP e) proxies)"

lemma unlisted_count:
  assumes "1 \<le> d" "d \<le> int (length ips)"
  shows "\<exists>n. forwardedHeaderRightSideUnlistedCount ips d proxies = Some n \<and> (n > 0 \<longleftrightarrow> unlisted ips d proxies)"
proof -
  have "nat (int (length ips) - d + 1) = length ips + 1 - nat d" using assms by linarith
  then show ?thesis
    using assms by (auto simp: forwardedHeaderRightSideUnlistedCount_def unlisted_def filter_empty_conv)
qed

text \<open>The resolution of a chain that is long enough, in closed form.\<close>

lemma resolve_chain:
  assumes "1 \<le> d" "d \<le> int (length (forwardedHeaderIPs xff))" "xff \<noteq> []"
  shows "resolveClientIPFromForwardedChain peer xff d proxies =
    Some (case (if proxies \<noteq> [] \<and> unlisted (forwardedHeaderIPs xff) d proxies
                then (case dropWhile (\<lambda>e. isTrustedProxy (CanonicalizeIP e) proxies) (rev (forwardedHeaderIPs xff)) of
                        [] \<Rightarrow> None | e # _ \<Rightarrow> hop_addr e)
                else hop_addr (forwardedHeaderIPs xff ! (length (forwardedHeaderIPs xff) - nat d))) of
            None \<Rightarrow> peer | Some a \<Rightarrow> canonicalIPText a)"
proof -
  have ne: "hop_addr e = Some a \<Longrightarrow> canonicalIPText a \<noteq> []" for e a
    using canonicalIPText_not_Nil by (auto simp: hop_addr_def split: if_splits)
  obtain n where n: "forwardedHeaderRightSideUnlistedCount (forwardedHeaderIPs xff) d proxies = Some n"
    "n > 0 \<longleftrightarrow> unlisted (forwardedHeaderIPs xff) d proxies"
    using unlisted_count[OF assms(1,2)] by blast
  define dw where "dw = dropWhile (\<lambda>e. isTrustedProxy (CanonicalizeIP e) proxies) (rev (forwardedHeaderIPs xff))"
  have walk: "resolveForwardedChainRightToLeft (forwardedHeaderIPs xff) proxies
      = (case dw of [] \<Rightarrow> [] | e # _ \<Rightarrow> (case hop_addr e of None \<Rightarrow> [] | Some a \<Rightarrow> canonicalIPText a))"
    by (simp add: resolveForwardedChainRightToLeft_def walk_right_spec dw_def)
  show ?thesis
    using assms n ne extractFrom_spec[OF assms] unfolding dw_def[symmetric]
    by (auto simp: resolveClientIPFromForwardedChain_def Let_def walk split: option.split list.split)
qed

lemma resolve_chain_fallback:
  "xff = [] \<or> int (length (forwardedHeaderIPs xff)) < d \<Longrightarrow>
   resolveClientIPFromForwardedChain peer xff d proxies = Some peer"
  by (auto simp: resolveClientIPFromForwardedChain_def Let_def)

section \<open>Properties\<close>

text \<open>an address that is not a trusted proxy cannot choose its identity: whatever
  \<open>X-Forwarded-For\<close> chain it sends, the resolved client is the canonical text of the peer itself, and
  a chain from such a peer is reported as a spoofing attempt when an event bus is attached.\<close>

theorem untrusted_peer_keeps_identity:
  assumes "ir_state req = Some []" "ir_ClientHost req \<noteq> []" "ic_TrustedProxies cfg \<noteq> []"
    "\<not> isTrustedProxy (ir_ClientHost req) (ic_TrustedProxies cfg)"
  shows "\<exists>req'. extractClientIP cfg req = Some (CanonicalizeIP (ir_ClientHost req), req')
    \<and> ir_state req' = Some (CanonicalizeIP (ir_ClientHost req))
    \<and> ir_events req' = ir_events req @ (if ir_ForwardedFor req \<noteq> [] \<and> ic_bus cfg then [spoof_event req] else [])"
  using assms by (auto simp: extractClientIP_def handleUntrustedProxy_def cache_ip_def Let_def)

lemma parse_v4_1921681: "ParseAddr ''192.168.0.1'' = Some (V4 [192, 168, 0, 1])"
  by (simp add: ParseAddr_def parse_v4_fields_def is_digit_def digit_val_def)

theorem untrusted_peer_keeps_identity_witness:
  "\<exists>req'. extractClientIP \<lparr>ic_TrustedProxies = [''192.168.0.1''], ic_TrustedProxyDepth = 1, ic_bus = True\<rparr>
     \<lparr>ir_ClientHost = ''10.0.0.1'', ir_ForwardedFor = ''1.2.3.4'', ir_state = Some [], ir_events = []\<rparr>
     = Some (''10.0.0.1'', req') \<and> length (ir_events req') = 1"
proof -
  let ?cfg = "\<lparr>ic_TrustedProxies = [''192.168.0.1''], ic_TrustedProxyDepth = 1, ic_bus = True\<rparr>"
  let ?req = "\<lparr>ir_ClientHost = ''10.0.0.1'', ir_ForwardedFor = ''1.2.3.4'', ir_state = Some [], ir_events = []\<rparr>"
  have "\<not> isTrustedProxy (ir_ClientHost ?req) (ic_TrustedProxies ?cfg)"
    by (simp add: isTrustedProxy_def parse_v4_10001 proxyMatches_def)
  then show ?thesis using untrusted_peer_keeps_identity[of ?req ?cfg] by auto
qed

text \<open>C24: behind a trusted peer, text that a client puts in front of the chain is never read: when the
  last \<open>trusted_proxy_depth\<close> entries are a client address followed by trusted proxies, that address
  is the resolved client for every prefix.\<close>

theorem chain_prefix_is_ignored:
  assumes "ir_state req = Some []" "ir_ClientHost req \<noteq> []" "ic_TrustedProxies cfg \<noteq> []"
    "isTrustedProxy (ir_ClientHost req) (ic_TrustedProxies cfg)"
    "forwardedHeaderIPs t = client # hops" "ic_TrustedProxyDepth cfg = int (length hops) + 1"
    "\<forall>h\<in>set hops. isTrustedProxy (CanonicalizeIP h) (ic_TrustedProxies cfg)"
    "hop_addr client = Some a"
  shows "map_option fst (extractClientIP cfg (req\<lparr>ir_ForwardedFor := prefix_text @ CHR '','' # t\<rparr>))
    = Some (canonicalIPText a)"
proof -
  let ?xff = "prefix_text @ CHR '','' # t" and ?d = "ic_TrustedProxyDepth cfg"
  let ?ips = "forwardedHeaderIPs ?xff"
  have ips: "?ips = forwardedHeaderIPs prefix_text @ client # hops"
    by (simp add: forwardedHeaderIPs_append assms(5))
  have d: "nat ?d = Suc (length hops)" using assms(6) by simp
  have len: "length ?ips + 1 - nat ?d = Suc (length (forwardedHeaderIPs prefix_text))"
    by (simp add: ips d)
  have "\<not> unlisted ?ips ?d (ic_TrustedProxies cfg)"
    unfolding unlisted_def len using assms(7) by (simp add: ips)
  moreover have "?ips ! (length ?ips - nat ?d) = client" by (simp add: ips d)
  ultimately have "resolveClientIPFromForwardedChain peer ?xff ?d (ic_TrustedProxies cfg) = Some (canonicalIPText a)" for peer
    using assms(6,8) by (subst resolve_chain) (auto simp: ips)
  then show ?thesis using assms(1-4) by (simp add: extractClientIP_def Let_def)
qed

theorem chain_prefix_is_ignored_witness:
  "map_option fst (extractClientIP
     \<lparr>ic_TrustedProxies = [''192.168.0.1''], ic_TrustedProxyDepth = 1, ic_bus = False\<rparr>
     \<lparr>ir_ClientHost = ''192.168.0.1'', ir_ForwardedFor = ''6.6.6.6, 7.7.7.7,10.0.0.1'', ir_state = Some [], ir_events = []\<rparr>)
   = Some ''10.0.0.1''"
proof -
  let ?cfg = "\<lparr>ic_TrustedProxies = [''192.168.0.1''], ic_TrustedProxyDepth = 1, ic_bus = False\<rparr>"
  let ?req = "\<lparr>ir_ClientHost = ''192.168.0.1'', ir_ForwardedFor = [], ir_state = Some [], ir_events = []\<rparr>"
  have t: "forwardedHeaderIPs ''10.0.0.1'' = [''10.0.0.1'']"
    by (simp add: forwardedHeaderIPs_def trim_space_id is_space_def stripForwardedEntryPort_def
        has_prefix_def count_byte_def)
  have "isTrustedProxy (ir_ClientHost ?req) (ic_TrustedProxies ?cfg)"
    by (simp add: isTrustedProxy_def parse_v4_1921681 proxyMatches_def)
  moreover have "hop_addr ''10.0.0.1'' = Some (V4 [10, 0, 0, 1])"
    by (simp add: hop_addr_def forwardedHeaderCandidateHasMetachar_def parse_v4_10001)
  ultimately have "map_option fst (extractClientIP ?cfg (?req\<lparr>ir_ForwardedFor := ''6.6.6.6, 7.7.7.7'' @ CHR '','' # ''10.0.0.1''\<rparr>))
      = Some (canonicalIPText (V4 [10, 0, 0, 1]))"
    by (intro chain_prefix_is_ignored[where hops = "[]"]) (simp_all add: t)
  moreover have "canonicalIPText (V4 [10, 0, 0, 1]) = ''10.0.0.1''"
    by (simp add: canonicalIPText_def addr_String_def v4_text_def dec.simps dec_char_def char_of_def bit_0)
  ultimately show ?thesis by simp
qed

text \<open>with a proxy depth of at least one (what the configuration validation demands) the resolution
  never panics, and its answer is the cached identity, the canonical peer, the sentinel of a missing
  peer, or the canonical text of an entry of the chain that parses; a chain is only read for a
  trusted peer or a unix socket.\<close>

theorem extractClientIP_answer:
  assumes "1 \<le> ic_TrustedProxyDepth cfg"
  shows "\<exists>ip req'. extractClientIP cfg req = Some (ip, req') \<and>
    (Some ip = ir_state req \<or> ip = CanonicalizeIP (ir_ClientHost req)
     \<or> (ir_ClientHost req = [] \<and> ip \<in> {[], ''unknown''})
     \<or> ((isTrustedProxy (ir_ClientHost req) (ic_TrustedProxies cfg)
          \<or> (ir_ClientHost req = [] \<and> ''unix'' \<in> set (ic_TrustedProxies cfg)))
        \<and> (\<exists>e\<in>set (forwardedHeaderIPs (ir_ForwardedFor req)). \<exists>a. hop_addr e = Some a \<and> ip = canonicalIPText a)))"
proof -
  let ?ips = "forwardedHeaderIPs (ir_ForwardedFor req)" and ?d = "ic_TrustedProxyDepth cfg"
  have res: "\<exists>ip. resolveClientIPFromForwardedChain peer (ir_ForwardedFor req) ?d (ic_TrustedProxies cfg) = Some ip
      \<and> (ip = peer \<or> (\<exists>e\<in>set ?ips. \<exists>a. hop_addr e = Some a \<and> ip = canonicalIPText a))" for peer
  proof (cases "ir_ForwardedFor req = [] \<or> int (length ?ips) < ?d")
    case True
    then show ?thesis using resolve_chain_fallback by blast
  next
    case False
    then have c: "?d \<le> int (length ?ips)" "ir_ForwardedFor req \<noteq> []" by auto
    have "?ips ! (length ?ips - nat ?d) \<in> set ?ips" using assms c by (intro nth_mem) auto
    moreover have "e \<in> set ?ips" if "dropWhile P (rev ?ips) = e # es" for P e es
      using that set_dropWhileD[of e P "rev ?ips"] by auto
    ultimately show ?thesis
      unfolding resolve_chain[OF assms c] by (auto split: option.split list.split)
  qed
  show ?thesis
  proof (cases "ir_state req")
    case None
    then show ?thesis using res[of "''unknown''"] res[of "CanonicalizeIP (ir_ClientHost req)"]
      by (auto simp: extractClientIP_def Let_def handleUntrustedProxy_def)
  next
    case (Some st)
    then show ?thesis using res[of "''unknown''"] res[of "CanonicalizeIP (ir_ClientHost req)"]
      by (cases st) (auto simp: extractClientIP_def Let_def handleUntrustedProxy_def)
  qed
qed

theorem extractClientIP_answer_witness:
  "\<exists>ip req'. extractClientIP \<lparr>ic_TrustedProxies = [], ic_TrustedProxyDepth = 1, ic_bus = False\<rparr>
     \<lparr>ir_ClientHost = ''10.0.0.1'', ir_ForwardedFor = ''1.2.3.4'', ir_state = Some [], ir_events = []\<rparr> = Some (ip, req')"
  using extractClientIP_answer[of "\<lparr>ic_TrustedProxies = [], ic_TrustedProxyDepth = 1, ic_bus = False\<rparr>"
      "\<lparr>ir_ClientHost = ''10.0.0.1'', ir_ForwardedFor = ''1.2.3.4'', ir_state = Some [], ir_events = []\<rparr>"]
  by auto

end
