(* ===== verification/Detection.thy ===== *)
theory Detection
  imports IPExtraction "HOL-Library.List_Lexorder" "HOL-Library.Char_ord"
begin

text \<open>
  The request scan of \<open>guardcore/pipeline.go\<close> (\<open>detectThreat\<close>) with the pieces that feed it: the
  exclusion sets of \<open>detectionexclusions.go\<close> and \<open>headerexclusions.go\<close> and the budget of
  \<open>scanbudget.go\<close>. The pattern engine is the function \<open>detect\<close> from content, client and context to a
  verdict; the order of Go's map iterations is the order of the lists given. Header and field names
  are lowered as ASCII text.
\<close>

section \<open>Header exclusions\<close>

definition DefaultExcludedHeaders :: "string list" where
  "DefaultExcludedHeaders =
     [''host'', ''user-agent'', ''accept'', ''accept-encoding'', ''connection'', ''origin'', ''referer'',
      ''sec-fetch-site'', ''sec-fetch-mode'', ''sec-fetch-dest'', ''sec-ch-ua'', ''sec-ch-ua-mobile'',
      ''sec-ch-ua-platform'', ''forwarded'', ''x-forwarded-for'', ''x-forwarded-host'',
      ''x-forwarded-proto'', ''x-real-ip'', ''x-client-ip'', ''x-cluster-client-ip'',
      ''cf-connecting-ip'', ''true-client-ip'', ''fly-client-ip'', ''x-envoy-external-address'']"

definition addressHeaderSkipCategories :: "string list" where
  "addressHeaderSkipCategories =
     [''host'', ''origin'', ''x-forwarded-for'', ''x-forwarded-host'', ''x-real-ip'', ''x-client-ip'',
      ''x-cluster-client-ip'', ''cf-connecting-ip'', ''true-client-ip'', ''fly-client-ip'',
      ''x-envoy-external-address'', ''via'']"

definition ssrfSkipCategories :: "string list" where
  "ssrfSkipCategories = [''ssrf'']"

text \<open>\<open>net.ParseIP\<close>: an address without a zone.\<close>

definition parses_ip :: "string \<Rightarrow> bool" where
  "parses_ip s = (case ParseAddr s of None \<Rightarrow> False | Some a \<Rightarrow> addr_zone a = [])"

definition valueLooksLikeAddressChain :: "string \<Rightarrow> bool" where
  "valueLooksLikeAddressChain value =
     (let tokens = filter (\<lambda>t. t \<noteq> []) (map trim_space (split_on CHR '','' value)) in
      tokens \<noteq> [] \<and> list_all (\<lambda>t. parses_ip (stripForwardedEntryPort t)) tokens)"

definition excludedHeaderSkipCategories :: "string \<Rightarrow> string \<Rightarrow> string list" where
  "excludedHeaderSkipCategories name value =
     (if lower_ascii (trim_space name) \<in> set addressHeaderSkipCategories then ssrfSkipCategories
      else if valueLooksLikeAddressChain value then ssrfSkipCategories
      else [])"

section \<open>Exclusion resolution\<close>

text \<open>The configuration and the route as far as the resolution reads them; a nil map or slice of the
  route is \<open>None\<close>.\<close>

record detection_config =
  dc_ExcludedDetectionParams :: "string list"
  dc_ExcludedDetectionBodyFields :: "string list"
  dc_ExcludedDetectionHeaders :: "string list"
  dc_EnabledDetectionCategories :: "string list"
  dc_DetectionScanBody :: "bool option"

record route_detection =
  rd_ExcludedDetectionParams :: "string list option"
  rd_ExcludedDetectionBodyFields :: "string list option"
  rd_ExcludedDetectionHeaders :: "string list option"
  rd_EnabledDetectionCategories :: "string list option"
  rd_DetectionScanBody :: "bool option"

record routeDetectionExclusions =
  ex_excludedParams :: "string list"
  ex_excludedBodyFields :: "string list"
  ex_excludedHeaders :: "string list"
  ex_enabledCategories :: "string list option"
  ex_scanBody :: bool

definition mergedExcludedDetectionHeaders :: "detection_config \<Rightarrow> string list" where
  "mergedExcludedDetectionHeaders cfg =
     DefaultExcludedHeaders @ map lower_ascii (dc_ExcludedDetectionHeaders cfg)"

definition resolve_global :: "detection_config option \<Rightarrow> routeDetectionExclusions" where
  "resolve_global cfg =
     (case cfg of
        None \<Rightarrow>
          \<lparr>ex_excludedParams = [], ex_excludedBodyFields = [], ex_excludedHeaders = DefaultExcludedHeaders,
           ex_enabledCategories = None, ex_scanBody = True\<rparr>
      | Some c \<Rightarrow>
          \<lparr>ex_excludedParams = map lower_ascii (dc_ExcludedDetectionParams c),
           ex_excludedBodyFields = map lower_ascii (dc_ExcludedDetectionBodyFields c),
           ex_excludedHeaders = mergedExcludedDetectionHeaders c,
           ex_enabledCategories =
             (if dc_EnabledDetectionCategories c = [] then None else Some (dc_EnabledDetectionCategories c)),
           ex_scanBody = True\<rparr>)"

definition global_scan_body :: "detection_config option \<Rightarrow> bool" where
  "global_scan_body cfg =
     (case Option.bind cfg dc_DetectionScanBody of None \<Rightarrow> True | Some b \<Rightarrow> b)"

definition resolveDetectionExclusions ::
  "detection_config option \<Rightarrow> route_detection option \<Rightarrow> routeDetectionExclusions" where
  "resolveDetectionExclusions cfg route =
     (let g = resolve_global cfg in
      case route of
        None \<Rightarrow> g\<lparr>ex_scanBody := global_scan_body cfg\<rparr>
      | Some r \<Rightarrow>
          \<lparr>ex_excludedParams =
             (case rd_ExcludedDetectionParams r of None \<Rightarrow> ex_excludedParams g | Some ns \<Rightarrow> map lower_ascii ns),
           ex_excludedBodyFields =
             (case rd_ExcludedDetectionBodyFields r of
                None \<Rightarrow> ex_excludedBodyFields g | Some ns \<Rightarrow> map lower_ascii ns),
           ex_excludedHeaders =
             (case rd_ExcludedDetectionHeaders r of
                None \<Rightarrow> ex_excludedHeaders g | Some ns \<Rightarrow> ex_excludedHeaders g @ map lower_ascii ns),
           ex_enabledCategories =
             (case rd_EnabledDetectionCategories r of
                None \<Rightarrow> ex_enabledCategories g | Some cs \<Rightarrow> Some cs),
           ex_scanBody =
             (case rd_DetectionScanBody r of None \<Rightarrow> global_scan_body cfg | Some b \<Rightarrow> b)\<rparr>)"

section \<open>The scan budget\<close>

record detectionScanBudget =
  sb_valuesCap :: nat
  sb_charsCap :: nat
  sb_values :: nat
  sb_chars :: nat

text \<open>The caps of the configuration, or the defaults when they are not positive.\<close>

definition newDetectionScanBudget :: "int \<Rightarrow> int \<Rightarrow> detectionScanBudget" where
  "newDetectionScanBudget maxValues maxChars =
     \<lparr>sb_valuesCap = (if maxValues > 0 then nat maxValues else 512),
      sb_charsCap = (if maxChars > 0 then nat maxChars else 65536), sb_values = 0, sb_chars = 0\<rparr>"

definition exhausted :: "string \<Rightarrow> detectionScanBudget \<Rightarrow> bool \<times> detectionScanBudget" where
  "exhausted content b =
     (let b1 = b\<lparr>sb_values := sb_values b + 1\<rparr> in
      if sb_values b1 > sb_valuesCap b then (True, b1)
      else if sb_chars b1 \<ge> sb_charsCap b then (True, b1)
      else (False, b1\<lparr>sb_chars := sb_chars b1 + length content\<rparr>))"

section \<open>The scan\<close>

record scan_value =
  sv_content :: string
  sv_context :: string
  sv_label :: string
  sv_forcedCategory :: string
  sv_skipCategories :: "string list"

text \<open>One threat of the engine: its category and the message \<open>threatMessage\<close> builds from it.\<close>

record threat =
  th_category :: string
  th_message :: string

record detect_result =
  dr_IsThreat :: bool
  dr_Threats :: "threat list"

definition firstThreatMessage :: "detect_result \<Rightarrow> string" where
  "firstThreatMessage r = (case dr_Threats r of [] \<Rightarrow> ''Threat detected'' | t # _ \<Rightarrow> th_message t)"

text \<open>Membership in the Go map of enabled categories, where a nil map holds nothing.\<close>

definition category_enabled :: "string list option \<Rightarrow> string \<Rightarrow> bool" where
  "category_enabled enabled c = (case enabled of None \<Rightarrow> False | Some cs \<Rightarrow> c \<in> set cs)"

fun collect_categories ::
  "string list option \<Rightarrow> string list \<Rightarrow> threat list \<Rightarrow> string list \<Rightarrow> string list" where
  "collect_categories enabled skip [] acc = acc"
| "collect_categories enabled skip (t # ts) acc =
     (let c = th_category t in
      if c = [] \<or> \<not> category_enabled enabled c \<or> c \<in> set skip \<or> c \<in> set acc
      then collect_categories enabled skip ts acc
      else collect_categories enabled skip ts (acc @ [c]))"

type_synonym engine = "string \<Rightarrow> string \<Rightarrow> string \<Rightarrow> detect_result"

definition mongoOperatorKeyRE :: string where
  "mongoOperatorKeyRE =
     [CHR ''^'', CHR 0x5C] @ ''$(?:ne|gt|gte|lt|lte|eq|in|nin|nor|and|or|not|all|size|exists|type|mod|''
     @ ''options|where|regex|expr|function|elemMatch)$''"

definition quoted :: "string \<Rightarrow> string" where
  "quoted s = [CHR 0x27] @ s @ [CHR 0x27]"

fun scan_values ::
  "engine \<Rightarrow> string list option \<Rightarrow> string \<Rightarrow> scan_value list \<Rightarrow> detectionScanBudget
     \<Rightarrow> string list \<times> string" where
  "scan_values detect enabled ip [] b = ([], [])"
| "scan_values detect enabled ip (v # vs) b =
     (case exhausted (sv_content v) b of
        (True, b1) \<Rightarrow> scan_values detect enabled ip vs b1
      | (False, b1) \<Rightarrow>
          (if sv_forcedCategory v \<noteq> [] then
             ([sv_forcedCategory v],
              ''JSON operator key '' @ quoted (sv_content v) @ '': matched pattern '' @ quoted mongoOperatorKeyRE)
           else
             (let result = detect (sv_content v) ip (sv_context v) in
              if \<not> dr_IsThreat result then scan_values detect enabled ip vs b1
              else
                (let categories = collect_categories enabled (sv_skipCategories v) (dr_Threats result) [] in
                 if categories = [] then ([], [])
                 else (sort categories, sv_label v @ firstThreatMessage result)))))"

definition path_value :: "string \<Rightarrow> scan_value list" where
  "path_value path =
     (if path = [] then []
      else [\<lparr>sv_content = path, sv_context = ''url_path'', sv_label = ''URL path: '',
             sv_forcedCategory = [], sv_skipCategories = []\<rparr>])"

definition param_value :: "routeDetectionExclusions \<Rightarrow> string \<times> string \<Rightarrow> scan_value option" where
  "param_value ex kv =
     (if lower_ascii (fst kv) \<in> set (ex_excludedParams ex) then None
      else Some \<lparr>sv_content = snd kv, sv_context = ''query_param'',
                 sv_label = ''Query param '' @ quoted (fst kv) @ '': '',
                 sv_forcedCategory = [], sv_skipCategories = []\<rparr>)"

definition header_value :: "routeDetectionExclusions \<Rightarrow> string \<times> string \<Rightarrow> scan_value option" where
  "header_value ex h =
     (if snd h = [] then None
      else Some \<lparr>sv_content = snd h, sv_context = ''header'',
                 sv_label = ''Header '' @ quoted (lower_ascii (fst h)) @ '': '',
                 sv_forcedCategory = [],
                 sv_skipCategories =
                   (if lower_ascii (fst h) \<in> set (ex_excludedHeaders ex)
                    then excludedHeaderSkipCategories (fst h) (snd h) else [])\<rparr>)"

definition body_value :: "scan_value \<Rightarrow> scan_value" where
  "body_value v =
     (if sv_label v = [] then v\<lparr>sv_label := ''Request body: '', sv_skipCategories := []\<rparr>
      else v\<lparr>sv_skipCategories := []\<rparr>)"

record scan_request =
  sq_path :: string
  sq_query :: "(string \<times> string) list"
  sq_headers :: "(string \<times> string) list"
  sq_body :: "scan_value list"
  sq_clientIP :: string

definition request_values :: "routeDetectionExclusions \<Rightarrow> scan_request \<Rightarrow> scan_value list" where
  "request_values ex req =
     path_value (sq_path req)
     @ List.map_filter (param_value ex) (sq_query req)
     @ List.map_filter (header_value ex) (sq_headers req)
     @ (if ex_scanBody ex then map body_value (sq_body req) else [])"

definition detectThreat ::
  "engine \<Rightarrow> detectionScanBudget \<Rightarrow> routeDetectionExclusions \<Rightarrow> scan_request \<Rightarrow> string list \<times> string" where
  "detectThreat detect budget ex req =
     scan_values detect (ex_enabledCategories ex) (sq_clientIP req) (request_values ex req) budget"

section \<open>Facts\<close>

lemma collect_categories_set:
  "set (collect_categories enabled skip ts acc) =
     set acc \<union> {c. c \<noteq> [] \<and> category_enabled enabled c \<and> c \<notin> set skip \<and> c \<in> th_category ` set ts}"
  by (induction ts arbitrary: acc) (auto simp: Let_def)

lemma collect_categories_distinct:
  "distinct acc \<Longrightarrow> distinct (collect_categories enabled skip ts acc)"
  by (induction ts arbitrary: acc) (auto simp: Let_def)

text \<open>The reportable categories of a value.\<close>

definition reportable :: "string list option \<Rightarrow> scan_value \<Rightarrow> detect_result \<Rightarrow> string set" where
  "reportable enabled v r =
     {c. c \<noteq> [] \<and> category_enabled enabled c \<and> c \<notin> set (sv_skipCategories v) \<and> c \<in> th_category ` set (dr_Threats r)}"

lemma collect_empty_iff:
  "collect_categories enabled (sv_skipCategories v) (dr_Threats r) [] = [] \<longleftrightarrow> reportable enabled v r = {}"
  using collect_categories_set[of enabled "sv_skipCategories v" "dr_Threats r" "[]"]
  by (metis (no_types, lifting) Un_empty_left empty_set reportable_def set_empty2)

text \<open>The values the budget lets through, with the budget after them.\<close>

fun admitted :: "scan_value list \<Rightarrow> detectionScanBudget \<Rightarrow> scan_value list" where
  "admitted [] b = []"
| "admitted (v # vs) b =
     (case exhausted (sv_content v) b of
        (True, b1) \<Rightarrow> admitted vs b1
      | (False, b1) \<Rightarrow> v # admitted vs b1)"

text \<open>A value stops the scan when it is forced or a threat.\<close>

definition stops :: "engine \<Rightarrow> string \<Rightarrow> scan_value \<Rightarrow> bool" where
  "stops detect ip v \<longleftrightarrow>
     sv_forcedCategory v \<noteq> [] \<or> dr_IsThreat (detect (sv_content v) ip (sv_context v))"

definition verdict :: "engine \<Rightarrow> string list option \<Rightarrow> string \<Rightarrow> scan_value \<Rightarrow> string list \<times> string" where
  "verdict detect enabled ip v =
     (let r = detect (sv_content v) ip (sv_context v);
          cs = collect_categories enabled (sv_skipCategories v) (dr_Threats r) [] in
      if sv_forcedCategory v \<noteq> [] then
        ([sv_forcedCategory v],
         ''JSON operator key '' @ quoted (sv_content v) @ '': matched pattern '' @ quoted mongoOperatorKeyRE)
      else if cs = [] then ([], [])
      else (sort cs, sv_label v @ firstThreatMessage r))"

lemma scan_values_find:
  "scan_values detect enabled ip vs b =
     (case find (stops detect ip) (admitted vs b) of
        None \<Rightarrow> ([], [])
      | Some v \<Rightarrow> verdict detect enabled ip v)"
  by (induction vs arbitrary: b)
    (auto simp: stops_def verdict_def Let_def split: prod.split bool.split)

lemma admitted_subset: "set (admitted vs b) \<subseteq> set vs"
  by (induction vs arbitrary: b) (auto split: prod.splits bool.splits)

lemma admitted_closed: "sb_values b \<ge> sb_valuesCap b \<Longrightarrow> admitted vs b = []"
  by (induction vs arbitrary: b) (auto simp: exhausted_def Let_def split: prod.splits bool.splits)

lemma exhausted_caps:
  "exhausted c b = (x, b') \<Longrightarrow> sb_valuesCap b' = sb_valuesCap b \<and> sb_charsCap b' = sb_charsCap b"
  by (auto simp: exhausted_def Let_def split: if_splits)

lemma admitted_count: "length (admitted vs b) + sb_values b \<le> max (sb_valuesCap b) (sb_values b)"
proof (induction vs arbitrary: b)
  case (Cons v vs)
  obtain x b1 where e: "exhausted (sv_content v) b = (x, b1)" by force
  have "sb_values b1 = sb_values b + 1" using e by (auto simp: exhausted_def Let_def split: if_splits)
  then show ?case
    using e Cons.IH[of b1] exhausted_caps[OF e] admitted_closed[of b1 vs]
    by (cases x; cases "sb_values b < sb_valuesCap b")
      (auto simp: exhausted_def Let_def split: if_splits)
qed simp

text \<open>All the admitted values but the last fit in the character cap.\<close>

lemma admitted_chars:
  "admitted vs b \<noteq> [] \<Longrightarrow>
   sb_chars b + sum_list (map (length \<circ> sv_content) (butlast (admitted vs b))) < sb_charsCap b"
proof (induction vs arbitrary: b)
  case (Cons v vs)
  obtain x b1 where e: "exhausted (sv_content v) b = (x, b1)" by force
  show ?case
  proof (cases x)
    case True
    then have "sb_chars b1 = sb_chars b" using e by (auto simp: exhausted_def Let_def split: if_splits)
    then show ?thesis using Cons.IH[of b1] Cons.prems e True exhausted_caps[OF e] by simp
  next
    case False
    then have c: "sb_chars b1 = sb_chars b + length (sv_content v)" "sb_chars b < sb_charsCap b"
      using e by (auto simp: exhausted_def Let_def split: if_splits)
    show ?thesis
      using Cons.IH[of b1] e False c exhausted_caps[OF e] by (cases "admitted vs b1 = []") auto
  qed
qed simp

text \<open>Within both caps nothing is skipped.\<close>

lemma admitted_all:
  assumes "sb_values b + length vs \<le> sb_valuesCap b"
    "sb_chars b + sum_list (map (length \<circ> sv_content) vs) < sb_charsCap b"
  shows "admitted vs b = vs"
  using assms
proof (induction vs arbitrary: b)
  case (Cons v vs)
  have e: "exhausted (sv_content v) b
      = (False, b\<lparr>sb_values := sb_values b + 1, sb_chars := sb_chars b + length (sv_content v)\<rparr>)"
    using Cons.prems by (simp add: exhausted_def Let_def)
  show ?case using e Cons.IH[of "b\<lparr>sb_values := sb_values b + 1, sb_chars := sb_chars b + length (sv_content v)\<rparr>"] Cons.prems
    by simp
qed simp

section \<open>Properties\<close>

text \<open>the scan answers with the verdict of the first value, among those the budget admits, that is
  a forced operator key or a threat; no later value is looked at.\<close>

theorem detectThreat_first_stop:
  "detectThreat detect budget ex req =
     (case find (stops detect (sq_clientIP req)) (admitted (request_values ex req) budget) of
        None \<Rightarrow> ([], [])
      | Some v \<Rightarrow> verdict detect (ex_enabledCategories ex) (sq_clientIP req) v)"
  by (simp add: detectThreat_def scan_values_find)

text \<open>the reported categories are sorted, distinct and sound: each one was found by the engine in
  one value of the request, is enabled, and is not skipped for that value; the only other answer is
  the category of a forced operator key.\<close>

theorem detectThreat_sound:
  assumes "detectThreat detect budget ex req = (cs, info)" "cs \<noteq> []"
  shows "\<exists>v\<in>set (request_values ex req).
    cs = [sv_forcedCategory v] \<or>
    (set cs = reportable (ex_enabledCategories ex) v (detect (sv_content v) (sq_clientIP req) (sv_context v))
     \<and> sorted cs \<and> distinct cs)"
proof -
  obtain v where v: "find (stops detect (sq_clientIP req)) (admitted (request_values ex req) budget) = Some v"
    "verdict detect (ex_enabledCategories ex) (sq_clientIP req) v = (cs, info)"
    using assms by (auto simp: detectThreat_first_stop split: option.splits)
  have "v \<in> set (request_values ex req)"
    using v(1) admitted_subset by (metis find_Some_iff nth_mem subsetD)
  moreover have "cs = [sv_forcedCategory v] \<or>
    (set cs = reportable (ex_enabledCategories ex) v (detect (sv_content v) (sq_clientIP req) (sv_context v))
     \<and> sorted cs \<and> distinct cs)"
    using v(2) assms(2) collect_categories_set collect_categories_distinct[of "[]"]
    by (auto simp: verdict_def Let_def reportable_def split: if_splits)
  ultimately show ?thesis by blast
qed

text \<open>A request and an engine for the witnesses: the forwarded chain holds an address-like payload the
  engine files under ssrf, the body an SQL injection.\<close>

definition wt_engine :: engine where
  "wt_engine content ip context =
     (if content = ''169.254.169.254'' then \<lparr>dr_IsThreat = True, dr_Threats = [\<lparr>th_category = ''ssrf'', th_message = ''m''\<rparr>]\<rparr>
      else if content = ''1 OR 1=1'' then \<lparr>dr_IsThreat = True, dr_Threats = [\<lparr>th_category = ''sqli'', th_message = ''m''\<rparr>]\<rparr>
      else \<lparr>dr_IsThreat = False, dr_Threats = []\<rparr>)"

definition wt_exclusions :: routeDetectionExclusions where
  "wt_exclusions =
     \<lparr>ex_excludedParams = [], ex_excludedBodyFields = [], ex_excludedHeaders = DefaultExcludedHeaders,
      ex_enabledCategories = Some [''ssrf'', ''sqli''], ex_scanBody = True\<rparr>"

definition wt_body :: "scan_value list" where
  "wt_body = [\<lparr>sv_content = ''1 OR 1=1'', sv_context = ''request_body'', sv_label = ''b: '',
     sv_forcedCategory = [], sv_skipCategories = []\<rparr>]"

definition wt_request :: "(string \<times> string) list \<Rightarrow> scan_request" where
  "wt_request headers =
     \<lparr>sq_path = ''/'', sq_query = [], sq_headers = headers, sq_body = wt_body, sq_clientIP = ''10.0.0.1''\<rparr>"

lemma lower_xff: "lower_ascii ''x-forwarded-for'' = ''x-forwarded-for''"
  by (simp add: lower_ascii_def lower_byte_def)

lemma wt_values:
  "request_values wt_exclusions (wt_request [(''x-forwarded-for'', ''169.254.169.254'')]) =
     path_value ''/''
     @ [\<lparr>sv_content = ''169.254.169.254'', sv_context = ''header'',
         sv_label = ''Header '' @ quoted ''x-forwarded-for'' @ '': '', sv_forcedCategory = [],
         sv_skipCategories = [''ssrf'']\<rparr>]
     @ wt_body"
proof -
  have t: "trim_space ''x-forwarded-for'' = ''x-forwarded-for''" by (simp add: trim_space_id is_space_def)
  show ?thesis
    by (simp add: request_values_def wt_request_def wt_exclusions_def map_filter_def header_value_def lower_xff
        DefaultExcludedHeaders_def excludedHeaderSkipCategories_def t addressHeaderSkipCategories_def
        ssrfSkipCategories_def wt_body_def body_value_def)
qed

theorem detectThreat_sound_witness:
  "\<exists>v\<in>set (request_values wt_exclusions (wt_request [])). [''sqli''] = [sv_forcedCategory v] \<or>
    set [''sqli''] = reportable (Some [''ssrf'', ''sqli'']) v (wt_engine (sv_content v) ''10.0.0.1'' (sv_context v))"
proof -
  have "detectThreat wt_engine (newDetectionScanBudget 0 0) wt_exclusions (wt_request []) = ([''sqli''], ''b: m'')"
    by (simp add: detectThreat_def request_values_def wt_request_def wt_exclusions_def map_filter_def path_value_def
        wt_body_def body_value_def newDetectionScanBudget_def exhausted_def wt_engine_def category_enabled_def
        firstThreatMessage_def Let_def)
  from detectThreat_sound[OF this] show ?thesis
    by (auto simp: wt_exclusions_def wt_request_def)
qed

text \<open>a payload in a skipped category hides every later payload. When an admitted value is a threat
  whose categories are all disabled or skipped for it, the scan reports nothing, whatever the later
  values hold; a client can put such a value in a forwarding header to blind the scan of its body.\<close>

theorem skipped_threat_masks_the_rest:
  assumes "admitted (request_values ex req) budget = pre @ v # later"
    "\<forall>w\<in>set pre. \<not> stops detect (sq_clientIP req) w" "sv_forcedCategory v = []"
    "dr_IsThreat (detect (sv_content v) (sq_clientIP req) (sv_context v))"
    "reportable (ex_enabledCategories ex) v (detect (sv_content v) (sq_clientIP req) (sv_context v)) = {}"
  shows "detectThreat detect budget ex req = ([], [])"
proof -
  have "find (stops detect (sq_clientIP req)) pre = None" using assms(2) by (auto simp: find_None_iff)
  moreover have "stops detect (sq_clientIP req) v" using assms(4) by (simp add: stops_def)
  ultimately have "find (stops detect (sq_clientIP req)) (pre @ v # later) = Some v"
    by (induction pre) (auto split: if_splits)
  then show ?thesis
    using assms(1,3,5) by (simp add: detectThreat_first_stop verdict_def collect_empty_iff Let_def)
qed

theorem skipped_threat_masks_the_rest_witness:
  "detectThreat wt_engine (newDetectionScanBudget 0 0) wt_exclusions
     (wt_request [(''x-forwarded-for'', ''169.254.169.254'')]) = ([], [])"
proof (rule skipped_threat_masks_the_rest)
  let ?v = "\<lparr>sv_content = ''169.254.169.254'', sv_context = ''header'',
         sv_label = ''Header '' @ quoted ''x-forwarded-for'' @ '': '', sv_forcedCategory = [],
         sv_skipCategories = [''ssrf'']\<rparr>"
  show "admitted (request_values wt_exclusions (wt_request [(''x-forwarded-for'', ''169.254.169.254'')]))
      (newDetectionScanBudget 0 0) = path_value ''/'' @ ?v # wt_body"
    unfolding wt_values by (subst admitted_all) (simp_all add: newDetectionScanBudget_def path_value_def wt_body_def)
  show "\<forall>w\<in>set (path_value ''/''). \<not> stops wt_engine (sq_clientIP (wt_request [(''x-forwarded-for'', ''169.254.169.254'')])) w"
    by (simp add: path_value_def stops_def wt_engine_def)
  show "reportable (ex_enabledCategories wt_exclusions) ?v (wt_engine (sv_content ?v)
      (sq_clientIP (wt_request [(''x-forwarded-for'', ''169.254.169.254'')])) (sv_context ?v)) = {}"
    by (auto simp: reportable_def wt_engine_def)
qed (simp_all add: wt_engine_def)

text \<open>when no category is configured, globally or by the route, the resolved set is nil, which the
  documentation reads as every category; the scan reads it as none, and reports only forced
  operator keys.\<close>

theorem nil_categories_detect_nothing:
  assumes "dc_EnabledDetectionCategories cfg = []"
    "\<forall>v\<in>set (request_values (resolveDetectionExclusions (Some cfg) None) req). sv_forcedCategory v = []"
  shows "detectThreat detect budget (resolveDetectionExclusions (Some cfg) None) req = ([], [])"
proof -
  let ?ex = "resolveDetectionExclusions (Some cfg) None"
  have none: "ex_enabledCategories ?ex = None"
    using assms(1) by (simp add: resolveDetectionExclusions_def resolve_global_def)
  have cc: "collect_categories None skip ts [] = []" for skip ts
    using collect_categories_set[of None skip ts "[]"] by (simp add: category_enabled_def)
  have "v \<in> set (request_values ?ex req)"
    if "find (stops detect (sq_clientIP req)) (admitted (request_values ?ex req) budget) = Some v" for v
    using that admitted_subset by (metis find_Some_iff nth_mem subsetD)
  then show ?thesis
    using assms(2) by (auto simp: detectThreat_first_stop verdict_def Let_def none cc split: option.splits)
qed

theorem nil_categories_detect_nothing_witness:
  "detectThreat wt_engine (newDetectionScanBudget 0 0)
     (resolveDetectionExclusions (Some \<lparr>dc_ExcludedDetectionParams = [], dc_ExcludedDetectionBodyFields = [],
        dc_ExcludedDetectionHeaders = [], dc_EnabledDetectionCategories = [], dc_DetectionScanBody = None\<rparr>) None)
     (wt_request []) = ([], [])"
  by (rule nil_categories_detect_nothing)
    (simp_all add: request_values_def path_value_def wt_request_def wt_body_def body_value_def map_filter_def)

text \<open>the budget is a hard bound on the work of a scan: at most the configured number of values is
  handed to the engine, all of them but the last together stay below the character cap, and a
  request within both caps is scanned completely.\<close>

theorem scan_budget_bounds:
  "let b = newDetectionScanBudget maxValues maxChars in
    length (admitted vs b) \<le> sb_valuesCap b
    \<and> sum_list (map (length \<circ> sv_content) (butlast (admitted vs b))) \<le> sb_charsCap b
    \<and> (length vs \<le> sb_valuesCap b \<longrightarrow> sum_list (map (length \<circ> sv_content) vs) < sb_charsCap b
        \<longrightarrow> admitted vs b = vs)"
proof -
  define b where "b = newDetectionScanBudget maxValues maxChars"
  have z: "sb_values b = 0" "sb_chars b = 0" by (simp_all add: b_def newDetectionScanBudget_def)
  have "sum_list (map (length \<circ> sv_content) (butlast (admitted vs b))) \<le> sb_charsCap b"
    using admitted_chars[of vs b] z by (cases "admitted vs b = []") auto
  then show ?thesis using admitted_count[of vs b] admitted_all[of b vs] z by (simp add: b_def)
qed

theorem scan_budget_bounds_witness:
  "admitted wt_body (newDetectionScanBudget 0 0) = wt_body"
  using scan_budget_bounds[of 0 0 wt_body] by (simp add: newDetectionScanBudget_def wt_body_def Let_def)

end
