(* ===== verification/PathMatch.thy ===== *)
theory PathMatch
  imports NetAddr Utf8
begin

text \<open>
  \<open>guardcore/pathmatch.go\<close>: percent decoding in a fixed number of rounds, dot-segment collapsing
  and the exclusion matcher. A path is canonical (\<open>canonical_path\<close>) when it is a slash
  followed by plain segments; the locale \<open>normaliser\<close> of the prelude is instantiated on
  \<open>normalizeURLPath\<close> with that normal form.
\<close>

section \<open>Percent decoding\<close>

definition maxURLDecodeRounds :: nat where
  "maxURLDecodeRounds = 4"

definition isHexDigit :: "char \<Rightarrow> bool" where
  "isHexDigit c \<longleftrightarrow>
     (48 \<le> byte c \<and> byte c \<le> 57) \<or> (65 \<le> byte c \<and> byte c \<le> 70)
     \<or> (97 \<le> byte c \<and> byte c \<le> 102)"

definition hexValue :: "char \<Rightarrow> nat" where
  "hexValue c =
     (if 48 \<le> byte c \<and> byte c \<le> 57 then byte c - 48
      else if 65 \<le> byte c \<and> byte c \<le> 70 then byte c - 65 + 10
      else byte c - 97 + 10)"

text \<open>An encoded byte starts here.\<close>

fun pct_at :: "string \<Rightarrow> bool" where
  "pct_at (a # b # c # s) \<longleftrightarrow> a = CHR ''%'' \<and> isHexDigit b \<and> isHexDigit c"
| "pct_at s \<longleftrightarrow> False"

text \<open>The inner loop: the bytes of the longest run of encoded bytes, and the input after it.\<close>

fun pct_run :: "string \<Rightarrow> string \<times> string" where
  "pct_run (a # b # c # s) =
     (if pct_at (a # b # c # s)
      then (let r = pct_run s in (char_of (hexValue b * 16 + hexValue c) # fst r, snd r))
      else ([], a # b # c # s))"
| "pct_run s = ([], s)"

lemma pct_run_length: "length (snd (pct_run s)) \<le> length s"
  by (induction s rule: pct_run.induct) (auto simp: Let_def)

lemma pct_run_shorter: "pct_at s \<Longrightarrow> length (snd (pct_run s)) < length s"
  by (cases s rule: pct_at.cases) (auto simp: Let_def less_Suc_eq_le intro: le_trans[OF pct_run_length])

function decodePercentRuns :: "string \<Rightarrow> string option" where
  "decodePercentRuns s =
     (if s = [] then Some []
      else if \<not> pct_at s then map_option (Cons (hd s)) (decodePercentRuns (tl s))
      else if utf8_valid (fst (pct_run s))
           then map_option (\<lambda>r. fst (pct_run s) @ r) (decodePercentRuns (snd (pct_run s)))
           else None)"
  by pat_completeness auto
termination
  by (relation "measure length") (auto dest: pct_run_shorter)

declare decodePercentRuns.simps [simp del]

fun hasPercentRun :: "string \<Rightarrow> bool" where
  "hasPercentRun [] = False"
| "hasPercentRun (c # s) = (pct_at (c # s) \<or> hasPercentRun s)"

section \<open>Dot segments\<close>

definition cut_before :: "string \<Rightarrow> char \<Rightarrow> string" where
  "cut_before s c = (case index_byte s c of None \<Rightarrow> s | Some i \<Rightarrow> take i s)"

definition foldDotSegmentParams :: "string \<Rightarrow> string" where
  "foldDotSegmentParams segment =
     (let base = cut_before segment CHR '';'' in
      if base = ''.'' \<or> base = ''..'' then base else segment)"

fun collapse_loop :: "string list \<Rightarrow> string list \<Rightarrow> string list" where
  "collapse_loop [] segments = segments"
| "collapse_loop (raw # raws) segments =
     (let segment = foldDotSegmentParams raw in
      if segment = [] \<or> segment = ''.'' then collapse_loop raws segments
      else if segment = ''..'' then collapse_loop raws (butlast segments)
      else collapse_loop raws (segments @ [segment]))"

definition slashes :: "string \<Rightarrow> string" where
  "slashes s = map (\<lambda>c. if c = CHR 0x5C then CHR ''/'' else c) s"

definition collapseDotSegments :: "string \<Rightarrow> string" where
  "collapseDotSegments decoded =
     CHR ''/'' # join_with ''/'' (collapse_loop (split_on CHR ''/'' (slashes decoded)) [])"

fun decode_rounds :: "nat \<Rightarrow> string \<Rightarrow> string option" where
  "decode_rounds 0 decoded = Some decoded"
| "decode_rounds (Suc k) decoded = Option.bind (decodePercentRuns decoded) (decode_rounds k)"

definition normalizeURLPath :: "string \<Rightarrow> string option" where
  "normalizeURLPath rawPath =
     (case decode_rounds maxURLDecodeRounds rawPath of
        None \<Rightarrow> None
      | Some decoded \<Rightarrow> if hasPercentRun decoded then None else Some (collapseDotSegments decoded))"

section \<open>Exclusions\<close>

definition isSubtreeOrEqual :: "string \<Rightarrow> string \<Rightarrow> bool" where
  "isSubtreeOrEqual path excluded \<longleftrightarrow>
     excluded = ''/'' \<or> path = excluded \<or> has_prefix path (excluded @ ''/'')"

definition pathMatchesExclusions :: "string \<Rightarrow> string list \<Rightarrow> bool" where
  "pathMatchesExclusions normalizedPath normalizedExclusions =
     list_ex (isSubtreeOrEqual normalizedPath) normalizedExclusions"

text \<open>The exclusion matcher of \<open>composition.go\<close>: the entries of the configuration that
  normalise, recomputed when the configured list changes.\<close>

record exclusionMatcher =
  em_source :: "string list"
  em_entries :: "string list"

definition em_current :: "string list \<Rightarrow> exclusionMatcher \<Rightarrow> exclusionMatcher" where
  "em_current excludePaths m =
     (if em_source m \<noteq> excludePaths
      then \<lparr> em_source = excludePaths, em_entries = List.map_filter normalizeURLPath excludePaths \<rparr>
      else m)"

definition em_matches :: "string list \<Rightarrow> exclusionMatcher \<Rightarrow> string \<Rightarrow> bool \<times> exclusionMatcher" where
  "em_matches excludePaths m path =
     (case normalizeURLPath path of
        None \<Rightarrow> (False, m)
      | Some n \<Rightarrow>
          (let m' = em_current excludePaths m in (pathMatchesExclusions n (em_entries m'), m')))"

section \<open>The canonical form\<close>

definition plain_segment :: "string \<Rightarrow> bool" where
  "plain_segment s \<longleftrightarrow>
     s \<noteq> [] \<and> CHR ''/'' \<notin> set s \<and> CHR 0x5C \<notin> set s
     \<and> cut_before s CHR '';'' \<noteq> ''.'' \<and> cut_before s CHR '';'' \<noteq> ''..''
     \<and> \<not> hasPercentRun s"

definition path_of :: "string list \<Rightarrow> string" where
  "path_of segs = CHR ''/'' # join_with ''/'' segs"

definition canonical_path :: "string \<Rightarrow> bool" where
  "canonical_path p \<longleftrightarrow> (\<exists>segs. (\<forall>s\<in>set segs. plain_segment s) \<and> p = path_of segs)"

lemma hex_not_special [simp]:
  "\<not> isHexDigit CHR ''/''" "\<not> isHexDigit CHR 0x5C" "\<not> isHexDigit CHR ''%''" "\<not> isHexDigit CHR '';''"
  by (simp_all add: isHexDigit_def)

lemma pct_at_take: "pct_at (take n s) \<Longrightarrow> pct_at s"
  by (cases s rule: pct_at.cases; cases n) (auto simp: take_Cons split: nat.splits)

lemma hasPercentRun_take: "hasPercentRun (take n s) \<Longrightarrow> hasPercentRun s"
proof (induction s arbitrary: n)
  case (Cons c s)
  then show ?case using pct_at_take[of n "c # s"] by (cases n) auto
qed simp

lemma hasPercentRun_drop: "hasPercentRun (drop n s) \<Longrightarrow> hasPercentRun s"
  by (induction s arbitrary: n) (auto simp: drop_Cons split: nat.splits)

lemma hasPercentRun_append_left: "hasPercentRun xs \<Longrightarrow> hasPercentRun (xs @ ys)"
  using hasPercentRun_take[of "length xs" "xs @ ys"] by simp

lemma hasPercentRun_append_right: "hasPercentRun ys \<Longrightarrow> hasPercentRun (xs @ ys)"
  using hasPercentRun_drop[of "length xs" "xs @ ys"] by simp

lemma pct_at_Cons: "pct_at (a # s) \<Longrightarrow> a = CHR ''%'' \<and> length s \<ge> 2 \<and> isHexDigit (s ! 0) \<and> isHexDigit (s ! 1)"
  by (cases "a # s" rule: pct_at.cases) auto

lemma pct_at_slash0 [simp]: "\<not> pct_at (CHR ''/'' # s)"
  by (auto dest: pct_at_Cons)

lemma pct_at_slash: "pct_at (xs @ CHR ''/'' # ys) \<Longrightarrow> pct_at xs"
  by (cases xs rule: pct_at.cases) (auto dest: pct_at_Cons)

lemma hasPercentRun_slash:
  "hasPercentRun (xs @ CHR ''/'' # ys) \<longleftrightarrow> hasPercentRun xs \<or> hasPercentRun ys"
proof
  assume "hasPercentRun (xs @ CHR ''/'' # ys)"
  then show "hasPercentRun xs \<or> hasPercentRun ys"
  proof (induction xs)
    case Nil
    then show ?case by (cases ys rule: pct_at.cases) (auto)
  next
    case (Cons x xs)
    then show ?case using pct_at_slash[of "x # xs" ys] by auto
  qed
next
  assume "hasPercentRun xs \<or> hasPercentRun ys"
  then show "hasPercentRun (xs @ CHR ''/'' # ys)"
    using hasPercentRun_append_left[of xs] hasPercentRun_append_right[of "CHR ''/'' # ys" xs] by auto
qed

lemma hasPercentRun_join:
  "hasPercentRun (join_with ''/'' segs) \<longleftrightarrow> (\<exists>s\<in>set segs. hasPercentRun s)"
  by (induction segs rule: induct_list012) (auto simp: hasPercentRun_slash)

lemma hasPercentRun_slashes: "hasPercentRun (slashes s) \<longleftrightarrow> hasPercentRun s"
proof (induction s)
  case (Cons c s)
  have "pct_at (slashes (c # s)) = pct_at (c # s)"
    by (cases "c # s" rule: pct_at.cases) (auto simp: slashes_def)
  then show ?case using Cons by (simp add: slashes_def)
qed (simp add: slashes_def)

lemma decode_no_run: "\<not> hasPercentRun s \<Longrightarrow> decodePercentRuns s = Some s"
  by (induction s) (subst decodePercentRuns.simps, simp)+

lemma decode_rounds_no_run: "\<not> hasPercentRun s \<Longrightarrow> decode_rounds k s = Some s"
  by (induction k) (simp_all add: decode_no_run)

text \<open>Folding leaves a segment that is a plain one, or a dot segment.\<close>

lemma fold_plain:
  assumes "CHR ''/'' \<notin> set s" "CHR 0x5C \<notin> set s" "\<not> hasPercentRun s"
    "foldDotSegmentParams s \<noteq> []" "foldDotSegmentParams s \<noteq> ''.''" "foldDotSegmentParams s \<noteq> ''..''"
  shows "foldDotSegmentParams s = s \<and> plain_segment s"
  using assms by (auto simp: foldDotSegmentParams_def plain_segment_def Let_def split: if_splits)

lemma fold_plain_id: "plain_segment s \<Longrightarrow> foldDotSegmentParams s = s"
  by (simp add: foldDotSegmentParams_def plain_segment_def Let_def)

lemma plain_not_dot: "plain_segment s \<Longrightarrow> s \<noteq> [] \<and> s \<noteq> ''.'' \<and> s \<noteq> ''..''"
  by (auto simp: plain_segment_def cut_before_def)

lemma collapse_loop_plain:
  assumes "\<forall>s\<in>set raws. CHR ''/'' \<notin> set s \<and> CHR 0x5C \<notin> set s \<and> \<not> hasPercentRun s"
    "\<forall>s\<in>set segments. plain_segment s"
  shows "\<forall>s\<in>set (collapse_loop raws segments). plain_segment s"
  using assms
proof (induction raws arbitrary: segments)
  case (Cons raw raws)
  have rest: "\<forall>s\<in>set raws. CHR ''/'' \<notin> set s \<and> CHR 0x5C \<notin> set s \<and> \<not> hasPercentRun s"
    using Cons.prems(1) by simp
  have but: "\<forall>s\<in>set (butlast segments). plain_segment s"
    using Cons.prems(2) by (auto dest: in_set_butlastD)
  have app: "\<forall>s\<in>set (segments @ [foldDotSegmentParams raw]). plain_segment s"
    if "foldDotSegmentParams raw \<noteq> []" "foldDotSegmentParams raw \<noteq> ''.''"
      "foldDotSegmentParams raw \<noteq> ''..''"
    using fold_plain[of raw] that Cons.prems by auto
  show ?case
    using Cons.IH[OF rest Cons.prems(2)] Cons.IH[OF rest but] Cons.IH[OF rest app]
    by (simp add: Let_def)
qed simp

lemma collapse_loop_id:
  "\<forall>s\<in>set raws. plain_segment s \<Longrightarrow> collapse_loop raws segments = segments @ raws"
proof (induction raws arbitrary: segments)
  case (Cons raw raws)
  then show ?case using fold_plain_id[of raw] plain_not_dot[of raw] by (simp add: Let_def)
qed simp

lemma collapse_canonical:
  assumes "\<not> hasPercentRun s"
  shows "canonical_path (collapseDotSegments s)"
proof -
  let ?raws = "split_on CHR ''/'' (slashes s)"
  have "\<not> hasPercentRun p" if "p \<in> set ?raws" for p
  proof -
    have "\<not> hasPercentRun (join_with ''/'' ?raws)"
      using assms by (simp add: join_split_on hasPercentRun_slashes)
    then show ?thesis using that by (auto simp: hasPercentRun_join)
  qed
  moreover have "CHR ''/'' \<notin> set p" "CHR 0x5C \<notin> set p" if "p \<in> set ?raws" for p
    using split_on_no_sep[OF that] split_on_set[OF that] by (auto simp: slashes_def)
  ultimately have "\<forall>p\<in>set (collapse_loop ?raws []). plain_segment p"
    by (intro collapse_loop_plain) auto
  then show ?thesis unfolding canonical_path_def collapseDotSegments_def path_of_def by blast
qed

lemma canonical_no_run: "canonical_path p \<Longrightarrow> \<not> hasPercentRun p"
  using hasPercentRun_slash[of "[]"] by (auto simp: canonical_path_def path_of_def hasPercentRun_join plain_segment_def)

lemma slashes_id: "CHR 0x5C \<notin> set s \<Longrightarrow> slashes s = s"
  by (induction s) (auto simp: slashes_def)

lemma set_join: "set (join_with ''/'' segs) \<subseteq> insert CHR ''/'' (\<Union>s\<in>set segs. set s)"
  by (induction segs rule: induct_list012) auto

lemma collapse_path_of:
  assumes "\<forall>s\<in>set segs. plain_segment s"
  shows "collapseDotSegments (path_of segs) = path_of segs"
proof -
  have bs: "CHR 0x5C \<notin> set (path_of segs)"
    using set_join[of segs] assms by (auto simp: path_of_def plain_segment_def)
  have "split_on CHR ''/'' (path_of segs) = [] # split_on CHR ''/'' (join_with ''/'' segs)"
    by (simp add: path_of_def)
  moreover have "segs \<noteq> [] \<Longrightarrow> split_on CHR ''/'' (join_with ''/'' segs) = segs"
    using assms by (intro split_join) (auto simp: plain_segment_def)
  moreover have "foldDotSegmentParams [] = []" by (simp add: foldDotSegmentParams_def cut_before_def)
  ultimately show ?thesis
    using assms by (cases "segs = []") (simp_all add: collapseDotSegments_def slashes_id[OF bs]
        collapse_loop_id, simp_all add: path_of_def slashes_def Let_def)
qed

interpretation url_path: normaliser normalizeURLPath canonical_path
proof
  fix x y
  assume "normalizeURLPath x = Some y"
  then show "canonical_path y"
    by (auto simp: normalizeURLPath_def intro: collapse_canonical split: option.splits if_splits)
next
  fix y
  assume c: "canonical_path y"
  then show "normalizeURLPath y = Some y"
    using canonical_no_run[OF c]
    by (auto simp: normalizeURLPath_def decode_rounds_no_run canonical_path_def collapse_path_of)
qed

section \<open>Exclusion is a test on segments\<close>

definition segments :: "string \<Rightarrow> string list" where
  "segments p = (if p = ''/'' then [] else split_on CHR ''/'' (tl p))"

lemma join_append:
  "xs \<noteq> [] \<Longrightarrow> ys \<noteq> [] \<Longrightarrow> join_with sep (xs @ ys) = join_with sep xs @ sep @ join_with sep ys"
proof (induction xs rule: induct_list012)
  case (2 x)
  then show ?case by (cases ys) auto
qed auto

lemma join_not_Nil: "segs \<noteq> [] \<Longrightarrow> \<forall>s\<in>set segs. s \<noteq> [] \<Longrightarrow> join_with sep segs \<noteq> []"
  by (cases segs rule: remdups_adj.cases) auto

lemma segments_path_of:
  assumes "\<forall>s\<in>set segs. plain_segment s"
  shows "segments (path_of segs) = segs"
proof (cases "segs = []")
  case True
  then show ?thesis by (simp add: segments_def path_of_def)
next
  case False
  then have "join_with ''/'' segs \<noteq> []" using assms by (intro join_not_Nil) (auto simp: plain_segment_def)
  moreover have "split_on CHR ''/'' (join_with ''/'' segs) = segs"
    using False assms by (intro split_join) (auto simp: plain_segment_def)
  ultimately show ?thesis by (simp add: segments_def path_of_def)
qed

lemma canonical_segments:
  assumes "canonical_path p"
  obtains segs where "\<forall>s\<in>set segs. plain_segment s" "p = path_of segs" "segments p = segs"
  using assms segments_path_of by (auto simp: canonical_path_def)

lemma subtree_path_of:
  assumes "\<forall>s\<in>set ps. plain_segment s" "\<forall>s\<in>set es. plain_segment s"
  shows "isSubtreeOrEqual (path_of ps) (path_of es) \<longleftrightarrow> prefix es ps"
proof (cases "es = []")
  case True
  then show ?thesis by (simp add: isSubtreeOrEqual_def path_of_def)
next
  case False
  have split: "split_on CHR ''/'' (join_with ''/'' xs) = xs" if "xs \<noteq> []" "\<forall>s\<in>set xs. plain_segment s" for xs
    using that by (intro split_join) (auto simp: plain_segment_def)
  have ne: "path_of es \<noteq> ''/''" using join_not_Nil[OF False] assms(2) by (auto simp: path_of_def plain_segment_def)
  show ?thesis
  proof
    assume "isSubtreeOrEqual (path_of ps) (path_of es)"
    then consider "path_of ps = path_of es" | "has_prefix (path_of ps) (path_of es @ ''/'')"
      using ne by (auto simp: isSubtreeOrEqual_def)
    then show "prefix es ps"
    proof cases
      case 1
      then show ?thesis by (metis assms prefix_order.refl segments_path_of)
    next
      case 2
      then obtain r where r: "join_with ''/'' ps = join_with ''/'' es @ CHR ''/'' # r"
        by (auto simp: has_prefix_iff path_of_def)
      then have "ps \<noteq> []" by auto
      then have "ps = split_on CHR ''/'' (join_with ''/'' es @ CHR ''/'' # r)"
        using split[of ps] assms(1) r by simp
      also have "\<dots> = es @ split_on CHR ''/'' r"
        using split[OF False assms(2)] by (simp add: split_on_append)
      finally show ?thesis by (rule prefixI)
    qed
  next
    assume "prefix es ps"
    then obtain zs where ps: "ps = es @ zs" by (auto simp: prefix_def)
    show "isSubtreeOrEqual (path_of ps) (path_of es)"
    proof (cases "zs = []")
      case True
      then show ?thesis by (simp add: ps isSubtreeOrEqual_def)
    next
      case zs: False
      have "path_of ps = path_of es @ ''/'' @ join_with ''/'' zs"
        using join_append[OF False zs, of "''/''"] by (simp add: ps path_of_def)
      then have "has_prefix (path_of ps) (path_of es @ ''/'')" by (auto simp: has_prefix_iff)
      then show ?thesis by (simp add: isSubtreeOrEqual_def)
    qed
  qed
qed

lemma subtree_segments:
  assumes "canonical_path p" "canonical_path e"
  shows "isSubtreeOrEqual p e \<longleftrightarrow> prefix (segments e) (segments p)"
  using assms subtree_path_of by (metis canonical_segments)

definition em_ok :: "exclusionMatcher \<Rightarrow> bool" where
  "em_ok m \<longleftrightarrow> em_entries m = List.map_filter normalizeURLPath (em_source m)"

lemma em_current_ok: "em_ok m \<Longrightarrow> em_ok (em_current ex m) \<and> em_source (em_current ex m) = ex"
  by (simp add: em_ok_def em_current_def)

section \<open>Properties\<close>

text \<open>a normalised path is canonical: a slash followed by segments none of which is empty, a dot
  segment (with or without parameters), or holds a slash, a backslash or an encoded byte; and
  normalising it again changes nothing. So no encoding of a traversal survives normalisation.\<close>

theorem normalizeURLPath_canonical:
  assumes "normalizeURLPath raw = Some p"
  shows "(\<exists>segs. (\<forall>s\<in>set segs. plain_segment s) \<and> p = path_of segs) \<and> normalizeURLPath p = Some p"
  using url_path.norm_nf[OF assms] url_path.norm_stable[OF assms] by (simp add: canonical_path_def)

theorem normalizeURLPath_canonical_witness:
  "normalizeURLPath ''/a/./b/../%2e%2e//c'' = Some ''/c'' \<and> normalizeURLPath ''/c'' = Some ''/c''"
proof -
  have d: "decodePercentRuns s = Some s" if "\<not> hasPercentRun s" for s using that by (rule decode_no_run)
  have "decodePercentRuns ''/a/./b/../%2e%2e//c'' = Some ''/a/./b/../..//c''"
    by (simp add: decodePercentRuns.simps isHexDigit_def hexValue_def Let_def utf8_valid.simps
        invalid_at_def decode_rune.simps rune_error_def char_of_def bit_0)
  then have n: "normalizeURLPath ''/a/./b/../%2e%2e//c'' = Some ''/c''"
    by (simp add: normalizeURLPath_def maxURLDecodeRounds_def numeral_eq_Suc d collapseDotSegments_def
        slashes_def foldDotSegmentParams_def cut_before_def Let_def)
  from normalizeURLPath_canonical[OF this] n show ?thesis by blast
qed

text \<open>C25: a path is excluded from the checks exactly when some configured exclusion normalises to a
  path whose segments are a prefix of those of the normalised request path: no partial segment, no
  traversal and no undecodable path or entry matches. The cached entries stay those of the
  configuration.\<close>

theorem exclusion_iff_segment_prefix:
  assumes "em_ok m"
  shows "(fst (em_matches excludePaths m path) \<longleftrightarrow>
     (\<exists>n e x. normalizeURLPath path = Some n \<and> e \<in> set excludePaths \<and> normalizeURLPath e = Some x
        \<and> prefix (segments x) (segments n)))
    \<and> em_ok (snd (em_matches excludePaths m path))"
proof -
  have sub: "isSubtreeOrEqual n x \<longleftrightarrow> prefix (segments x) (segments n)"
    if "normalizeURLPath path = Some n" "normalizeURLPath e = Some x" for n e x
    using that by (intro subtree_segments url_path.norm_nf)
  have "set (em_entries (em_current excludePaths m)) = {x. \<exists>e\<in>set excludePaths. normalizeURLPath e = Some x}"
    using em_current_ok[OF assms, of excludePaths] by (auto simp: em_ok_def map_filter_def) force
  then have "fst (em_matches excludePaths m path) \<longleftrightarrow>
     (\<exists>n e x. normalizeURLPath path = Some n \<and> e \<in> set excludePaths \<and> normalizeURLPath e = Some x
        \<and> prefix (segments x) (segments n))"
    using sub by (auto simp: em_matches_def pathMatchesExclusions_def list_ex_iff Let_def split: option.splits)
  moreover have "em_ok (snd (em_matches excludePaths m path))"
    using assms em_current_ok[OF assms] by (simp add: em_matches_def Let_def split: option.splits)
  ultimately show ?thesis by blast
qed

theorem exclusion_iff_segment_prefix_witness:
  "fst (em_matches [''/static''] \<lparr> em_source = [], em_entries = [] \<rparr> ''/static/x.css'')
   \<and> \<not> fst (em_matches [''/static''] \<lparr> em_source = [], em_entries = [] \<rparr> ''/static2'')"
proof -
  have ok: "em_ok \<lparr> em_source = [], em_entries = [] \<rparr>" by (simp add: em_ok_def map_filter_def)
  have "canonical_path ''/static''" "canonical_path ''/static/x.css''" "canonical_path ''/static2''"
    unfolding canonical_path_def path_of_def
    by (rule exI[of _ "[''static'']"] exI[of _ "[''static'', ''x.css'']"] exI[of _ "[''static2'']"],
        simp add: plain_segment_def cut_before_def)+
  then have "normalizeURLPath ''/static'' = Some ''/static''"
    "normalizeURLPath ''/static/x.css'' = Some ''/static/x.css''"
    "normalizeURLPath ''/static2'' = Some ''/static2''"
    by (simp_all add: url_path.nf_norm)
  then show ?thesis
    using exclusion_iff_segment_prefix[OF ok, of "[''/static'']" "''/static/x.css''"]
      exclusion_iff_segment_prefix[OF ok, of "[''/static'']" "''/static2''"]
    by (simp add: segments_def)
qed

end
