(* ===== verification/Request.thy ===== *)
theory Request
  imports RateLimit Detection PathMatch
begin

text \<open>
  \<open>guardcore/request.go\<close>, \<open>routeconfig.go\<close> and \<open>response_modifier.go\<close>: requests with their state and
  their case-insensitive headers, responses, route configurations with their registry, the response
  modifier. A Go map is an association list with distinct keys; an interface value that may be nil is
  an option. Callbacks of the host receive the request alone; \<open>None\<close> as the result of one that may
  panic is the panic. Header names are lowered as ASCII text. The once-only computations
  (\<open>sync.Once\<close>) are explicit: the cached set of bypassed checks and the cached body. The query parser
  is \<open>net/url\<close>.\<close>

section \<open>Responses\<close>

record Response =
  rp_StatusCode :: int
  rp_Headers :: "(string \<times> string) list"
  rp_Body :: string

definition SetHeader :: "string \<Rightarrow> string \<Rightarrow> Response \<Rightarrow> Response" where
  "SetHeader name0 val0 r = r\<lparr>rp_Headers := AList.update name0 val0 (rp_Headers r)\<rparr>"

definition CreateResponse :: "string \<Rightarrow> int \<Rightarrow> Response" where
  "CreateResponse content statusCode = \<lparr>rp_StatusCode = statusCode, rp_Headers = [], rp_Body = content\<rparr>"

definition CreateRedirectResponse :: "string \<Rightarrow> int \<Rightarrow> Response" where
  "CreateRedirectResponse target statusCode =
     SetHeader ''Location'' target \<lparr>rp_StatusCode = statusCode, rp_Headers = [], rp_Body = []\<rparr>"

text \<open>A modifier answers \<open>None\<close> when it panics and \<open>Some None\<close> when it returns nil.\<close>

type_synonym modifier = "Response \<Rightarrow> Response option option"

definition runResponseModifier :: "modifier \<Rightarrow> Response \<Rightarrow> Response option \<times> bool" where
  "runResponseModifier f response =
     (case f response of None \<Rightarrow> (None, True) | Some result \<Rightarrow> (result, False))"

definition applyModifier :: "modifier option \<Rightarrow> Response \<Rightarrow> Response" where
  "applyModifier f response =
     (case f of
        None \<Rightarrow> response
      | Some g \<Rightarrow>
          (case runResponseModifier g response of
             (Some result, False) \<Rightarrow> result
           | _ \<Rightarrow> response))"

section \<open>Headers\<close>

type_synonym Headers = "(string \<times> string) list"

definition hd_Set :: "string \<Rightarrow> string \<Rightarrow> Headers \<Rightarrow> Headers" where
  "hd_Set name0 val0 h = AList.update (lower_ascii name0) val0 h"

definition hd_Get :: "Headers \<Rightarrow> string \<Rightarrow> string option" where
  "hd_Get h name0 = map_of h (lower_ascii name0)"

definition hd_Delete :: "string \<Rightarrow> Headers \<Rightarrow> Headers" where
  "hd_Delete name0 h = AList.delete (lower_ascii name0) h"

definition HeadersFrom :: "(string \<times> string) list \<Rightarrow> Headers" where
  "HeadersFrom values = fold (\<lambda>kv h. hd_Set (fst kv) (snd kv) h) values []"

text \<open>\<open>v, _ := h.Get(name)\<close>: the empty string when the header is absent.\<close>

definition hd_val :: "Headers \<Rightarrow> string \<Rightarrow> string" where
  "hd_val h name0 = (case hd_Get h name0 of None \<Rightarrow> [] | Some v \<Rightarrow> v)"

section \<open>Query parsing\<close>

text \<open>\<open>url.QueryUnescape\<close>.\<close>

fun query_unescape :: "string \<Rightarrow> string option" where
  "query_unescape [] = Some []"
| "query_unescape (c # s) =
     (if c = CHR ''%'' then
        (case s of
           a # b # rest \<Rightarrow>
             (if isHexDigit a \<and> isHexDigit b
              then map_option (Cons (char_of (hexValue a * 16 + hexValue b))) (query_unescape rest)
              else None)
         | _ \<Rightarrow> None)
      else map_option (Cons (if c = CHR ''+'' then CHR '' '' else c)) (query_unescape s))"

text \<open>\<open>strings.Cut\<close> on one byte.\<close>

definition cut_at :: "string \<Rightarrow> char \<Rightarrow> string \<times> string" where
  "cut_at s c =
     (case index_byte s c of None \<Rightarrow> (s, []) | Some i \<Rightarrow> (take i s, drop (Suc i) s))"

text \<open>One field of a query: \<open>None\<close> is the error, \<open>Some None\<close> an empty field.\<close>

definition query_field :: "string \<Rightarrow> (string \<times> string) option option" where
  "query_field field =
     (if CHR '';'' \<in> set field then None
      else if field = [] then Some None
      else
        (case (query_unescape (fst (cut_at field CHR ''='')), query_unescape (snd (cut_at field CHR ''=''))) of
           (Some k, Some v) \<Rightarrow> Some (Some (k, v))
         | _ \<Rightarrow> None))"

definition max_query_params :: nat where
  "max_query_params = 10000"

text \<open>\<open>url.ParseQuery\<close>, with its values in order; \<open>None\<close> is a non-nil error.\<close>

definition ParseQuery :: "string \<Rightarrow> (string \<times> string) list option" where
  "ParseQuery query =
     (let fields = split_on CHR ''&'' query in
      if length fields > max_query_params then None
      else if list_ex (\<lambda>f. query_field f = None) fields then None
      else Some (List.map_filter (\<lambda>f. Option.bind (query_field f) id) fields))"

text \<open>The values of the first occurrence of every key.\<close>

fun first_values :: "(string \<times> string) list \<Rightarrow> (string \<times> string) list" where
  "first_values [] = []"
| "first_values (kv # kvs) = kv # filter (\<lambda>p. fst p \<noteq> fst kv) (first_values kvs)"

section \<open>Requests\<close>

record guardRequest =
  gr_Path :: string
  gr_Scheme :: string
  gr_Host :: string
  gr_RawQuery :: string
  gr_Method :: string
  gr_ClientHost :: string
  gr_Header :: "(string \<times> string) list"
  gr_QueryParams :: "(string \<times> string) list option"
  gr_Body :: string
  gr_BodyFunc :: "(nat \<Rightarrow> string \<times> string option) option"

definition upper_byte :: "char \<Rightarrow> char" where
  "upper_byte c = (if 97 \<le> byte c \<and> byte c \<le> 122 then char_of (byte c - 32) else c)"

definition upper_ascii :: "string \<Rightarrow> string" where
  "upper_ascii s = map upper_byte s"

definition rq_Method :: "guardRequest \<Rightarrow> string" where
  "rq_Method r = (if gr_Method r = [] then ''GET'' else upper_ascii (gr_Method r))"

definition URLFull :: "guardRequest \<Rightarrow> string" where
  "URLFull r =
     (let scheme = (if gr_Scheme r = [] then ''http'' else gr_Scheme r);
          full = scheme @ ''://'' @ gr_Host r @ gr_Path r in
      if gr_RawQuery r \<noteq> [] then full @ ''?'' @ gr_RawQuery r else full)"

text \<open>\<open>strings.TrimPrefix\<close>.\<close>

definition trim_prefix :: "string \<Rightarrow> string \<Rightarrow> string" where
  "trim_prefix pre s = (if has_prefix s pre then drop (length pre) s else s)"

definition URLReplaceScheme :: "string \<Rightarrow> guardRequest \<Rightarrow> string" where
  "URLReplaceScheme scheme r =
     (let full = URLFull r in
      if scheme = [] then full
      else scheme @ ''://'' @ trim_prefix ''https://'' (trim_prefix ''http://'' full))"

definition rq_Headers :: "guardRequest \<Rightarrow> Headers" where
  "rq_Headers r = HeadersFrom (gr_Header r)"

definition QueryParams :: "guardRequest \<Rightarrow> (string \<times> string) list" where
  "QueryParams r =
     (case gr_QueryParams r of
        Some q \<Rightarrow> q
      | None \<Rightarrow>
          (if gr_RawQuery r = [] then []
           else (case ParseQuery (gr_RawQuery r) of None \<Rightarrow> [] | Some vs \<Rightarrow> first_values vs)))"

text \<open>The body with its \<open>sync.Once\<close>: the cached result, and the number of reads of the stream. The
  stream answers its \<open>n\<close>-th read with bytes and perhaps an error.\<close>

record body_cell =
  bc_result :: "(string \<times> string option) option"
  bc_reads :: nat

definition rq_Body :: "guardRequest \<Rightarrow> body_cell \<Rightarrow> (string \<times> string option) \<times> body_cell" where
  "rq_Body r c =
     (case bc_result c of
        Some x \<Rightarrow> (x, c)
      | None \<Rightarrow>
          (case gr_BodyFunc r of
             Some f \<Rightarrow> (f (bc_reads c), \<lparr>bc_result = Some (f (bc_reads c)), bc_reads = Suc (bc_reads c)\<rparr>)
           | None \<Rightarrow> ((gr_Body r, None), c\<lparr>bc_result := Some (gr_Body r, None)\<rparr>)))"

section \<open>Route configurations\<close>

datatype principal = PString string | POther nat

text \<open>\<open>AuthVerifier\<close>: an error, or a principal that may be nil.\<close>

type_synonym AuthVerifier = "guardRequest \<Rightarrow> string \<Rightarrow> string + principal option"

record RequiredHeader =
  rqh_Name :: string
  rqh_Value :: string

definition rqh_Lookup :: "RequiredHeader list \<Rightarrow> string \<Rightarrow> string option" where
  "rqh_Lookup h name0 = map_option rqh_Value (find (\<lambda>e. rqh_Name e = name0) h)"

text \<open>\<open>rc_Detection\<close> groups the five detection fields of the source. The maximal request size is an
  \<open>int64\<close>; \<open>BehaviorRules\<close> belong to the behaviour tracker.\<close>

record BehaviorRuleConfig =
  br_RuleType :: string
  br_Threshold :: int
  br_Window :: int
  br_Pattern :: string
  br_Action :: string
  br_BanDuration :: int
  br_CorrelateWithDetection :: bool

record RouteConfig =
  rc_RateLimit :: int
  rc_RateLimitWindow :: int
  rc_IPWhitelist :: "string list"
  rc_IPBlacklist :: "string list"
  rc_BlockedCountries :: "string list"
  rc_WhitelistCountries :: "string list"
  rc_BypassedChecks :: "string list"
  rc_RequireHTTPS :: bool
  rc_AuthRequired :: string
  rc_BlockedUserAgents :: "string list"
  rc_RequiredHeaders :: "RequiredHeader list"
  rc_BlockCloudProviders :: "string list"
  rc_MaxRequestSize :: int
  rc_AllowedContentTypes :: "string list"
  rc_TimeRestrictions :: "(string \<times> string) list"
  rc_EnableSuspiciousDetection :: bool
  rc_RequireReferrer :: "string list"
  rc_APIKeyRequired :: bool
  rc_AuthVerifier :: "AuthVerifier option"
  rc_APIKeyVerifier :: "AuthVerifier option"
  rc_APIKeyHeader :: string
  rc_AuthorizationHeaderRequired :: string
  rc_GeoRateLimits :: "(string \<times> RateLimitEntry) list"
  rc_CustomValidators :: "(guardRequest \<Rightarrow> Response option) list"
  rc_Detection :: route_detection
  rc_BehaviorRules :: "BehaviorRuleConfig list"

definition rc_HasBypass :: "RouteConfig \<Rightarrow> string \<Rightarrow> bool" where
  "rc_HasBypass r name0 = list_ex (\<lambda>b. b = name0 \<or> b = ''all'') (rc_BypassedChecks r)"

definition ShouldBypassCheck :: "string \<Rightarrow> RouteConfig option \<Rightarrow> bool" where
  "ShouldBypassCheck name0 route =
     (case route of None \<Rightarrow> False | Some r \<Rightarrow> rc_HasBypass r name0)"

text \<open>The zero value, with detection switched on as \<open>Register\<close> starts from.\<close>

definition new_route :: RouteConfig where
  "new_route =
     \<lparr>rc_RateLimit = 0, rc_RateLimitWindow = 0, rc_IPWhitelist = [], rc_IPBlacklist = [],
      rc_BlockedCountries = [], rc_WhitelistCountries = [], rc_BypassedChecks = [],
      rc_RequireHTTPS = False, rc_AuthRequired = [], rc_BlockedUserAgents = [],
      rc_RequiredHeaders = [], rc_BlockCloudProviders = [], rc_MaxRequestSize = 0,
      rc_AllowedContentTypes = [], rc_TimeRestrictions = [], rc_EnableSuspiciousDetection = True,
      rc_RequireReferrer = [], rc_APIKeyRequired = False, rc_AuthVerifier = None,
      rc_APIKeyVerifier = None, rc_APIKeyHeader = [], rc_AuthorizationHeaderRequired = [],
      rc_GeoRateLimits = [], rc_CustomValidators = [],
      rc_Detection =
        \<lparr>rd_ExcludedDetectionParams = None, rd_ExcludedDetectionBodyFields = None,
         rd_ExcludedDetectionHeaders = None, rd_EnabledDetectionCategories = None,
         rd_DetectionScanBody = None\<rparr>,
      rc_BehaviorRules = []\<rparr>"

text \<open>The registry; its revision is an atomic 64-bit counter.\<close>

record RouteRegistry =
  rg_routes :: "(string \<times> RouteConfig) list"
  rg_revision :: "64 word"

definition NewRouteRegistry :: RouteRegistry where
  "NewRouteRegistry = \<lparr>rg_routes = [], rg_revision = 0\<rparr>"

definition rg_Get :: "RouteRegistry \<Rightarrow> string \<Rightarrow> RouteConfig option" where
  "rg_Get r routeID = (if routeID = [] then None else map_of (rg_routes r) routeID)"

definition rg_Register ::
  "string \<Rightarrow> (RouteConfig \<Rightarrow> RouteConfig) option \<Rightarrow> RouteRegistry \<Rightarrow> RouteConfig \<times> RouteRegistry" where
  "rg_Register routeID mutate r =
     (let rc = (case mutate of None \<Rightarrow> new_route | Some f \<Rightarrow> f new_route) in
      (rc, r\<lparr>rg_routes := AList.update routeID rc (rg_routes r), rg_revision := rg_revision r + 1\<rparr>))"

definition RouteConfigs :: "RouteRegistry \<Rightarrow> RouteConfig list" where
  "RouteConfigs r = map snd (rg_routes r)"

definition anyRoute :: "RouteConfig list \<Rightarrow> (RouteConfig \<Rightarrow> bool) \<Rightarrow> bool" where
  "anyRoute routes predicate = list_ex predicate routes"

section \<open>Request state\<close>

record BlockStash =
  bk_Reason :: string
  bk_TriggerInfo :: string

record RequestState =
  st_ClientIP :: string
  st_ExclusionScoped :: bool
  st_RouteUnresolved :: bool
  st_IsWhitelisted :: bool
  st_IsExempt :: bool
  st_BypassChecks :: "string list"
  st_BlockStash :: "BlockStash option"
  st_GuardRouteID :: string
  st_RouteConfig :: "RouteConfig option"
  st_AuthPrincipal :: "principal option"
  st_bypassSet :: "string list option"
  st_Extras :: "(string \<times> string) list"

definition new_state :: RequestState where
  "new_state =
     \<lparr>st_ClientIP = [], st_ExclusionScoped = False, st_RouteUnresolved = False,
      st_IsWhitelisted = False, st_IsExempt = False, st_BypassChecks = [], st_BlockStash = None,
      st_GuardRouteID = [], st_RouteConfig = None, st_AuthPrincipal = None, st_bypassSet = None,
      st_Extras = []\<rparr>"

text \<open>\<open>RequestState.HasBypass\<close>: the set is built from the list at the first call and kept.\<close>

definition fill_bypass :: "RequestState \<Rightarrow> RequestState" where
  "fill_bypass st =
     (case st_bypassSet st of
        None \<Rightarrow> st\<lparr>st_bypassSet := Some (st_BypassChecks st)\<rparr>
      | Some _ \<Rightarrow> st)"

definition HasBypass :: "string \<Rightarrow> RequestState \<Rightarrow> bool \<times> RequestState" where
  "HasBypass name0 st =
     (let st1 = fill_bypass st; s = set (case st_bypassSet st1 of None \<Rightarrow> [] | Some l \<Rightarrow> l) in
      (name0 \<in> s \<or> ''all'' \<in> s, st1))"

definition GetRouteConfig :: "RouteRegistry \<Rightarrow> RequestState option \<Rightarrow> RouteConfig option" where
  "GetRouteConfig r st = (case st of None \<Rightarrow> None | Some s \<Rightarrow> rg_Get r (st_GuardRouteID s))"

definition resolveClientIP :: "guardRequest \<Rightarrow> RequestState \<Rightarrow> string" where
  "resolveClientIP req st =
     (if st_ClientIP st \<noteq> [] then canonicalizeIPString (st_ClientIP st)
      else if gr_ClientHost req \<noteq> [] then canonicalizeIPString (gr_ClientHost req)
      else [])"

definition stashBlock :: "string \<Rightarrow> string \<Rightarrow> RequestState \<Rightarrow> RequestState" where
  "stashBlock reason triggerInfo st =
     st\<lparr>st_BlockStash := Some \<lparr>bk_Reason = reason, bk_TriggerInfo = triggerInfo\<rparr>\<rparr>"

section \<open>Facts on headers, the registry and the modifier\<close>

lemma map_of_update: "map_of (AList.update k v al) x = (if x = k then Some v else map_of al x)"
  by (simp add: update_conv')

lemma map_of_delete: "map_of (AList.delete k al) x = (if x = k then None else map_of al x)"
  by (simp add: delete_conv')

lemma hd_Get_Set [go_simps]:
  "hd_Get (hd_Set name0 val0 h) other =
     (if lower_ascii other = lower_ascii name0 then Some val0 else hd_Get h other)"
  by (simp add: hd_Get_def hd_Set_def map_of_update)

lemma hd_Get_Delete [go_simps]:
  "hd_Get (hd_Delete name0 h) other =
     (if lower_ascii other = lower_ascii name0 then None else hd_Get h other)"
  by (simp add: hd_Get_def hd_Delete_def map_of_delete)

lemma rg_Get_Register:
  "routeID \<noteq> [] \<Longrightarrow>
   rg_Get (snd (rg_Register routeID mutate r)) routeID = Some (fst (rg_Register routeID mutate r))"
  by (simp add: rg_Get_def rg_Register_def Let_def map_of_update)

lemma rg_Get_Register_other:
  "other \<noteq> routeID \<Longrightarrow> rg_Get (snd (rg_Register routeID mutate r)) other = rg_Get r other"
  by (simp add: rg_Get_def rg_Register_def Let_def map_of_update)

lemma applyModifier_cases:
  "applyModifier f response =
     (case Option.bind f (\<lambda>g. Option.bind (g response) id) of None \<Rightarrow> response | Some r \<Rightarrow> r)"
  by (auto simp: applyModifier_def runResponseModifier_def split: option.splits)

section \<open>Facts on the query\<close>

definition urlQueryEscape_byte :: "char \<Rightarrow> string" where
  "urlQueryEscape_byte c =
     (if (97 \<le> byte c \<and> byte c \<le> 122) \<or> (65 \<le> byte c \<and> byte c \<le> 90) \<or> (48 \<le> byte c \<and> byte c \<le> 57)
         \<or> c = CHR ''-'' \<or> c = CHR ''_'' \<or> c = CHR ''.'' \<or> c = CHR ''~''
      then [c]
      else CHR ''%'' # map (\<lambda>d. if d < 10 then char_of (48 + d) else char_of (55 + d :: nat))
             [byte c div 16, byte c mod 16])"

definition urlQueryEscape :: "string \<Rightarrow> string" where
  "urlQueryEscape s = concat (map urlQueryEscape_byte s)"

lemma byte_less: "byte c < 256"
  using of_char_mod_256[of c] by (metis mod_less_divisor zero_less_numeral)

lemma upper_hex_digit:
  assumes "d < 16"
  shows "isHexDigit (if d < 10 then char_of (48 + d) else char_of (55 + d :: nat))"
    and "hexValue (if d < 10 then char_of (48 + d) else char_of (55 + d :: nat)) = d"
  using assms by (auto simp: isHexDigit_def hexValue_def)

lemma unescape_byte:
  "query_unescape (urlQueryEscape_byte c @ s) = map_option (Cons c) (query_unescape s)"
proof -
  have div: "byte c div 16 < 16" using byte_less[of c] by (intro less_mult_imp_div_less) simp
  have md: "byte c mod 16 < 16" by simp
  have plain: "query_unescape (c # s) = map_option (Cons c) (query_unescape s)"
    if "c \<noteq> CHR ''%''" "c \<noteq> CHR ''+''" using that by (cases s) auto
  show ?thesis
  proof (cases "(97 \<le> byte c \<and> byte c \<le> 122) \<or> (65 \<le> byte c \<and> byte c \<le> 90)
      \<or> (48 \<le> byte c \<and> byte c \<le> 57) \<or> c = CHR ''-'' \<or> c = CHR ''_'' \<or> c = CHR ''.'' \<or> c = CHR ''~''")
    case True
    then have "c \<noteq> CHR ''%''" "c \<noteq> CHR ''+''" by auto
    from plain[OF this] True show ?thesis
      by (simp only: urlQueryEscape_byte_def if_True append_Cons append_Nil)
  next
    case False
    have "char_of (byte c div 16 * 16 + byte c mod 16) = c" by simp
    with False show ?thesis
      by (simp add: urlQueryEscape_byte_def upper_hex_digit[OF div, simplified]
          upper_hex_digit[OF md, simplified] del: if_split)
  qed
qed

lemma unescape_escape: "query_unescape (urlQueryEscape s) = Some s"
  by (induction s) (simp_all add: urlQueryEscape_def unescape_byte)

lemma escape_byte_cases:
  assumes "x \<in> set (urlQueryEscape_byte c)"
  shows "isHexDigit x \<or> 97 \<le> byte x \<and> byte x \<le> 122 \<or> 65 \<le> byte x \<and> byte x \<le> 90
    \<or> x \<in> {CHR ''-'', CHR ''_'', CHR ''.'', CHR ''~'', CHR ''%''}"
proof (cases "(97 \<le> byte c \<and> byte c \<le> 122) \<or> (65 \<le> byte c \<and> byte c \<le> 90)
      \<or> (48 \<le> byte c \<and> byte c \<le> 57) \<or> c = CHR ''-'' \<or> c = CHR ''_'' \<or> c = CHR ''.'' \<or> c = CHR ''~''")
  case True
  then have "x = c" using assms by (simp only: urlQueryEscape_byte_def if_True) simp
  with True show ?thesis by (auto simp: isHexDigit_def)
next
  case False
  have "byte c div 16 < 16" using byte_less[of c] by (intro less_mult_imp_div_less) simp
  then have "\<forall>d \<in> set [byte c div 16, byte c mod 16]. d < 16" by simp
  then have "\<forall>y \<in> set (map (\<lambda>d. if d < 10 then char_of (48 + d) else char_of (55 + d :: nat))
      [byte c div 16, byte c mod 16]). isHexDigit y"
    using upper_hex_digit(1) by (simp only: set_map ball_simps) blast
  moreover have "x = CHR ''%'' \<or> x \<in> set (map (\<lambda>d. if d < 10 then char_of (48 + d) else char_of (55 + d :: nat))
      [byte c div 16, byte c mod 16])"
    using assms False by (simp only: urlQueryEscape_byte_def if_False list.set insert_iff)
  ultimately show ?thesis by blast
qed

lemma escape_byte_plain:
  "x \<in> set (urlQueryEscape_byte c) \<Longrightarrow> x \<noteq> CHR ''&'' \<and> x \<noteq> CHR ''='' \<and> x \<noteq> CHR '';''"
  by (drule escape_byte_cases) (auto simp: isHexDigit_def)

lemma escape_plain:
  "x \<in> set (urlQueryEscape s) \<Longrightarrow> x \<noteq> CHR ''&'' \<and> x \<noteq> CHR ''='' \<and> x \<noteq> CHR '';''"
  by (auto simp: urlQueryEscape_def dest: escape_byte_plain)

definition escaped_field :: "string \<times> string \<Rightarrow> string" where
  "escaped_field kv = urlQueryEscape (fst kv) @ CHR ''='' # urlQueryEscape (snd kv)"

lemma cut_at_append: "c \<notin> set p \<Longrightarrow> cut_at (p @ c # q) c = (p, q)"
proof -
  assume "c \<notin> set p"
  then have "index_byte (p @ c # q) c = Some (length p)" by (induction p) auto
  then show ?thesis by (simp add: cut_at_def)
qed

lemma query_field_escaped: "query_field (escaped_field kv) = Some (Some kv)"
proof -
  have "CHR ''='' \<notin> set (urlQueryEscape (fst kv))" using escape_plain by blast
  moreover have "CHR '';'' \<notin> set (escaped_field kv)"
    using escape_plain[of "CHR '';''" "fst kv"] escape_plain[of "CHR '';''" "snd kv"]
    by (auto simp: escaped_field_def)
  ultimately show ?thesis
    by (simp add: query_field_def escaped_field_def cut_at_append unescape_escape)
qed

lemma map_filter_escaped:
  "List.map_filter (\<lambda>f. Option.bind (query_field f) id) (map escaped_field kvs) = kvs"
  by (induction kvs) (simp_all add: map_filter_simps query_field_escaped)

lemma first_values_map_of: "map_of (first_values kvs) = map_of kvs"
proof (induction kvs)
  case (Cons kv kvs)
  have "map_of (filter (\<lambda>p. fst p \<noteq> a) ps) x = (if x = a then None else map_of ps x)" for a x
    and ps :: "(string \<times> string) list"
    by (induction ps) auto
  then show ?case by (auto simp: Cons.IH)
qed simp

lemma first_values_distinct: "distinct (map fst (first_values kvs))"
  by (induction kvs) (auto simp: distinct_map_filter)

definition wt_get :: "string \<Rightarrow> guardRequest" where
  "wt_get q =
     \<lparr>gr_Path = ''/x'', gr_Scheme = ''http'', gr_Host = ''h'', gr_RawQuery = q, gr_Method = [],
      gr_ClientHost = ''1.2.3.4'', gr_Header = [], gr_QueryParams = None, gr_Body = [], gr_BodyFunc = None\<rparr>"

text \<open>A query built from escaped names and values is parsed back to exactly those pairs, in order
  (up to the parameter limit of the parser).\<close>

theorem ParseQuery_escaped:
  assumes "kvs \<noteq> []" "length kvs \<le> max_query_params"
  shows "ParseQuery (join_with ''&'' (map escaped_field kvs)) = Some kvs"
proof -
  have "split_on CHR ''&'' (join_with ''&'' (map escaped_field kvs)) = map escaped_field kvs"
  proof (rule split_join)
    show "map escaped_field kvs \<noteq> []" using assms by simp
    fix p assume "p \<in> set (map escaped_field kvs)"
    then obtain kv where "p = escaped_field kv" by auto
    then show "CHR ''&'' \<notin> set p"
      using escape_plain[of "CHR ''&''" "fst kv"] escape_plain[of "CHR ''&''" "snd kv"]
      by (auto simp: escaped_field_def)
  qed
  moreover have "\<not> list_ex (\<lambda>f. query_field f = None) (map escaped_field kvs)"
    by (auto simp: list_ex_iff query_field_escaped)
  ultimately show ?thesis using assms by (simp add: ParseQuery_def Let_def map_filter_escaped)
qed

theorem ParseQuery_escaped_witness:
  "ParseQuery ''a%26=b%20c&d='' = Some [(''a&'', ''b c''), (''d'', '''')]"
  using ParseQuery_escaped[of "[(''a&'', ''b c''), (''d'', '''')]"]
  by (simp add: escaped_field_def urlQueryEscape_def urlQueryEscape_byte_def max_query_params_def char_of_def bit_0)

text \<open>A request without explicit query parameters scans, for every key of a well-formed query, the
  value of its first occurrence and no later one.\<close>

theorem QueryParams_first_value:
  assumes "gr_QueryParams r = None" "gr_RawQuery r \<noteq> []" "ParseQuery (gr_RawQuery r) = Some vs"
  shows "map_of (QueryParams r) = map_of vs \<and> distinct (map fst (QueryParams r))"
  using assms by (simp_all add: QueryParams_def first_values_map_of first_values_distinct)

theorem QueryParams_first_value_witness: "map_of (QueryParams (wt_get ''a=1&b=2&a=3'')) ''a'' = Some ''1''"
proof -
  have "ParseQuery (gr_RawQuery (wt_get ''a=1&b=2&a=3''))
      = Some [(''a'', ''1''), (''b'', ''2''), (''a'', ''3'')]"
    by (simp add: wt_get_def ParseQuery_def query_field_def cut_at_def max_query_params_def map_filter_simps)
  from QueryParams_first_value[OF _ _ this, THEN conjunct1] show ?thesis by (simp add: wt_get_def)
qed

text \<open>One malformed field anywhere in the raw query (a bad percent escape or a semicolon) empties the
  whole map of query parameters, so that none of the well-formed ones is scanned.\<close>

theorem malformed_field_hides_query:
  assumes "gr_QueryParams r = None" "f \<in> set (split_on CHR ''&'' (gr_RawQuery r))" "query_field f = None"
  shows "QueryParams r = []
    \<and> request_values ex (s\<lparr>sq_query := QueryParams r\<rparr>) = request_values ex (s\<lparr>sq_query := []\<rparr>)"
proof -
  have "ParseQuery (gr_RawQuery r) = None"
    using assms by (auto simp: ParseQuery_def Let_def list_ex_iff)
  then show ?thesis using assms(1) by (simp add: QueryParams_def)
qed

theorem malformed_field_hides_query_witness:
  "QueryParams (wt_get ''q=evil&x=%zz'') = [] \<and> QueryParams (wt_get ''q=evil'') = [(''q'', ''evil'')]"
proof -
  have "QueryParams (wt_get ''q=evil&x=%zz'') = []"
    using malformed_field_hides_query[of "wt_get ''q=evil&x=%zz''" "''x=%zz''" wt_exclusions
        "wt_request []", THEN conjunct1]
    by (simp add: wt_get_def query_field_def cut_at_def isHexDigit_def)
  moreover have "QueryParams (wt_get ''q=evil'') = [(''q'', ''evil'')]"
    by (simp add: wt_get_def QueryParams_def ParseQuery_def query_field_def cut_at_def
        max_query_params_def map_filter_simps)
  ultimately show ?thesis by simp
qed

section \<open>The body\<close>

text \<open>The results of \<open>n\<close> calls of \<open>Body\<close>, and the cell after them.\<close>

fun body_calls :: "guardRequest \<Rightarrow> nat \<Rightarrow> body_cell \<Rightarrow> (string \<times> string option) list \<times> body_cell" where
  "body_calls r 0 c = ([], c)"
| "body_calls r (Suc n) c =
     (let x = rq_Body r c; xs = body_calls r n (snd x) in (fst x # fst xs, snd xs))"

lemma body_calls_cached:
  "bc_result c = Some x \<Longrightarrow> body_calls r n c = (replicate n x, c)"
  by (induction n) (auto simp: rq_Body_def)

text \<open>However often the body of a fresh request is asked for, its stream is read at most once and
  every call answers the same.\<close>

theorem body_read_once:
  "\<exists>x. fst (body_calls r n \<lparr>bc_result = None, bc_reads = 0\<rparr>) = replicate n x
     \<and> bc_reads (snd (body_calls r n \<lparr>bc_result = None, bc_reads = 0\<rparr>)) \<le> 1"
proof (cases n)
  case (Suc k)
  let ?c = "\<lparr>bc_result = None, bc_reads = 0\<rparr> :: body_cell"
  have "bc_result (snd (rq_Body r ?c)) = Some (fst (rq_Body r ?c)) \<and> bc_reads (snd (rq_Body r ?c)) \<le> 1"
    by (cases "gr_BodyFunc r") (simp_all add: rq_Body_def)
  then show ?thesis
    using Suc body_calls_cached[of "snd (rq_Body r ?c)" "fst (rq_Body r ?c)" r k] by (auto simp: Let_def)
qed simp

section \<open>Cached bypasses\<close>

lemma fill_bypass_idem [simp]: "fill_bypass (fill_bypass st) = fill_bypass st"
  by (auto simp: fill_bypass_def split: option.splits)

lemma HasBypass_state [simp]: "snd (HasBypass name0 st) = fill_bypass st"
  by (simp add: HasBypass_def Let_def)

lemma HasBypass_fill [simp]: "fst (HasBypass name0 (fill_bypass st)) = fst (HasBypass name0 st)"
  by (simp add: HasBypass_def Let_def)

end
