(* ===== verification/ResponseHeaders.thy ===== *)
theory ResponseHeaders
  imports Request
begin

text \<open>
  \<open>guardcore/securityheaders.go\<close> and \<open>guardcore/cors.go\<close>: the security headers of a configuration, their
  validation at construction, and the cross-origin policy with its preflight and response headers.
  Header maps are association lists with distinct keys, built with \<open>AList.update\<close>; the errors of the
  validation name the offending value. Log lines are left out.
\<close>

section \<open>Security headers\<close>

record HSTSConfig =
  hs_MaxAge :: int
  hs_IncludeSubdomains :: bool
  hs_Preload :: bool

record CSPDirective =
  csp_Name :: string
  csp_Sources :: "string list"

record SecurityHeadersConfig =
  sh_Enabled :: bool
  sh_HSTS :: "HSTSConfig option"
  sh_CSP :: "CSPDirective list"
  sh_FrameOptions :: string
  sh_ContentTypeOptions :: string
  sh_XSSProtection :: string
  sh_ReferrerPolicy :: string
  sh_PermissionsPolicy :: "string option"
  sh_Custom :: "(string \<times> string) list"

definition DefaultSecurityHeaders :: SecurityHeadersConfig where
  "DefaultSecurityHeaders =
     \<lparr>sh_Enabled = True,
      sh_HSTS = Some \<lparr>hs_MaxAge = 31536000, hs_IncludeSubdomains = True, hs_Preload = False\<rparr>,
      sh_CSP = [], sh_FrameOptions = ''SAMEORIGIN'', sh_ContentTypeOptions = ''nosniff'',
      sh_XSSProtection = ''1; mode=block'', sh_ReferrerPolicy = ''strict-origin-when-cross-origin'',
      sh_PermissionsPolicy = Some ''geolocation=(), microphone=(), camera=()'', sh_Custom = []\<rparr>"

definition classDefaultHeaders :: "(string \<times> string) list" where
  "classDefaultHeaders =
     [(''X-Content-Type-Options'', ''nosniff''),
      (''X-Frame-Options'', ''SAMEORIGIN''),
      (''X-XSS-Protection'', ''1; mode=block''),
      (''Referrer-Policy'', ''strict-origin-when-cross-origin''),
      (''Permissions-Policy'', ''geolocation=(), microphone=(), camera=()''),
      (''X-Permitted-Cross-Domain-Policies'', ''none''),
      (''X-Download-Options'', ''noopen''),
      (''Cross-Origin-Embedder-Policy'', ''require-corp''),
      (''Cross-Origin-Opener-Policy'', ''same-origin''),
      (''Cross-Origin-Resource-Policy'', ''same-origin'')]"

definition header_token_char :: "char \<Rightarrow> bool" where
  "header_token_char c \<longleftrightarrow>
     is_digit c \<or> (65 \<le> byte c \<and> byte c \<le> 90) \<or> (97 \<le> byte c \<and> byte c \<le> 122)
     \<or> c \<in> set ''!#$%&*+.^_|~-'' \<or> byte c = 39 \<or> byte c = 96"

definition maxHeaderValueBytes :: nat where
  "maxHeaderValueBytes = 8192"

datatype header_error = InvalidName string | HasNewline string | TooLong nat

definition validateHeaderName :: "string \<Rightarrow> header_error + string" where
  "validateHeaderName name0 =
     (if name0 \<noteq> [] \<and> list_all header_token_char name0 then Inr name0 else Inl (InvalidName name0))"

definition newline_byte :: "char \<Rightarrow> bool" where
  "newline_byte c \<longleftrightarrow> byte c = 10 \<or> byte c = 13"

definition keep_rune :: "nat \<Rightarrow> bool" where
  "keep_rune r \<longleftrightarrow> r \<ge> 32 \<or> r = 9"

definition validateHeaderValue :: "string \<Rightarrow> header_error + string" where
  "validateHeaderValue val0 =
     (if list_ex newline_byte val0 then Inl (HasNewline val0)
      else if length val0 > maxHeaderValueBytes then Inl (TooLong (length val0))
      else Inr (concat (map encode_rune (filter keep_rune (runes val0)))))"

definition overrideHeaderValue :: "string \<Rightarrow> header_error + string" where
  "overrideHeaderValue val0 =
     (case validateHeaderValue val0 of Inl e \<Rightarrow> Inl e | Inr sanitized \<Rightarrow> Inr sanitized)"

definition csp_part :: "CSPDirective \<Rightarrow> string" where
  "csp_part d =
     (if csp_Sources d \<noteq> [] then csp_Name d @ '' '' @ join_with '' '' (csp_Sources d) else csp_Name d)"

definition buildCSP :: "CSPDirective list \<Rightarrow> string" where
  "buildCSP csp = join_with ''; '' (map csp_part csp)"

text \<open>The decimal text of an integer.\<close>

definition dec_int :: "int \<Rightarrow> string" where
  "dec_int z = (if z < 0 then CHR ''-'' # dec (nat (- z)) else dec (nat z))"

definition buildHSTS :: "HSTSConfig option \<Rightarrow> string" where
  "buildHSTS hsts =
     (case hsts of
        None \<Rightarrow> []
      | Some h \<Rightarrow>
          (let preload = hs_Preload h \<and> \<not> hs_MaxAge h < 31536000;
               includeSubdomains = hs_IncludeSubdomains h \<or> hs_Preload h
           in join_with ''; ''
                ([''max-age='' @ dec_int (hs_MaxAge h)]
                 @ (if includeSubdomains then [''includeSubDomains''] else [])
                 @ (if preload then [''preload''] else []))))"

text \<open>\<open>headers[name] = value\<close> when the configured value is not empty.\<close>

definition put_nonempty :: "string \<Rightarrow> string \<Rightarrow> (string \<times> string) list \<Rightarrow> (string \<times> string) list" where
  "put_nonempty name0 val0 h = (if val0 \<noteq> [] then AList.update name0 val0 h else h)"

definition put_permissions :: "string option \<Rightarrow> (string \<times> string) list \<Rightarrow> (string \<times> string) list" where
  "put_permissions p h =
     (case p of
        None \<Rightarrow> h
      | Some v \<Rightarrow> if v = [] then AList.delete ''Permissions-Policy'' h
                   else AList.update ''Permissions-Policy'' v h)"

definition responseHeaders :: "SecurityHeadersConfig option \<Rightarrow> (string \<times> string) list" where
  "responseHeaders cfg =
     (case cfg of
        None \<Rightarrow> []
      | Some sh \<Rightarrow>
          (if \<not> sh_Enabled sh then []
           else
             (let h0 = classDefaultHeaders;
                  h1 = put_nonempty ''X-Frame-Options'' (sh_FrameOptions sh) h0;
                  h2 = put_nonempty ''X-Content-Type-Options'' (sh_ContentTypeOptions sh) h1;
                  h3 = put_nonempty ''X-XSS-Protection'' (sh_XSSProtection sh) h2;
                  h4 = put_nonempty ''Referrer-Policy'' (sh_ReferrerPolicy sh) h3;
                  h5 = put_permissions (sh_PermissionsPolicy sh) h4;
                  h6 = put_nonempty ''Content-Security-Policy'' (buildCSP (sh_CSP sh)) h5;
                  h7 = put_nonempty ''Strict-Transport-Security'' (buildHSTS (sh_HSTS sh)) h6
              in fold (\<lambda>kv h. AList.update (fst kv) (snd kv) h) (sh_Custom sh) h7)))"

text \<open>The validation sanitises the values in place. An empty override is skipped.\<close>

definition sanitize_override :: "string \<Rightarrow> header_error + string" where
  "sanitize_override v = (if v = [] then Inr [] else overrideHeaderValue v)"

fun sanitize_custom :: "(string \<times> string) list \<Rightarrow> header_error + (string \<times> string) list" where
  "sanitize_custom [] = Inr []"
| "sanitize_custom ((n, v) # rest) =
     (case validateHeaderName n of
        Inl e \<Rightarrow> Inl e
      | Inr _ \<Rightarrow>
          (case validateHeaderValue v of
             Inl e \<Rightarrow> Inl e
           | Inr v' \<Rightarrow>
               (case sanitize_custom rest of Inl e \<Rightarrow> Inl e | Inr rest' \<Rightarrow> Inr ((n, v') # rest'))))"

definition bind_sum :: "'e + 'a \<Rightarrow> ('a \<Rightarrow> 'e + 'b) \<Rightarrow> 'e + 'b" where
  "bind_sum x f = (case x of Inl e \<Rightarrow> Inl e | Inr a \<Rightarrow> f a)"

definition validateSecurityHeaders ::
  "SecurityHeadersConfig option \<Rightarrow> header_error + SecurityHeadersConfig option" where
  "validateSecurityHeaders cfg =
     (case cfg of
        None \<Rightarrow> Inr None
      | Some sh \<Rightarrow>
          bind_sum (sanitize_override (sh_FrameOptions sh)) (\<lambda>a.
          bind_sum (sanitize_override (sh_ContentTypeOptions sh)) (\<lambda>b.
          bind_sum (sanitize_override (sh_XSSProtection sh)) (\<lambda>c.
          bind_sum (sanitize_override (sh_ReferrerPolicy sh)) (\<lambda>d.
          bind_sum (case sh_PermissionsPolicy sh of
                      None \<Rightarrow> Inr None
                    | Some p \<Rightarrow> if p = [] then Inr (Some p)
                                 else bind_sum (overrideHeaderValue p) (\<lambda>q. Inr (Some q))) (\<lambda>p.
          bind_sum (sanitize_custom (sh_Custom sh)) (\<lambda>cu.
            Inr (Some (sh\<lparr>sh_FrameOptions := a, sh_ContentTypeOptions := b, sh_XSSProtection := c,
                          sh_ReferrerPolicy := d, sh_PermissionsPolicy := p, sh_Custom := cu\<rparr>)))))))))"

section \<open>The cross-origin policy\<close>

record CORSConfig =
  cc_EnableCORS :: bool
  cc_AllowOrigins :: "string list"
  cc_AllowMethods :: "string list"
  cc_AllowHeaders :: "string list"
  cc_AllowCredentials :: bool
  cc_ExposeHeaders :: "string list"
  cc_MaxAge :: int

record CORSPolicy =
  cp_allowAllOrigins :: bool
  cp_allowOrigins :: "string list"
  cp_allowMethods :: "string list"
  cp_allowHeaders :: "string list"
  cp_allowAllHeaders :: bool
  cp_allowCredentials :: bool
  cp_maxAge :: int
  cp_exposeHeaders :: "string list"

definition newCORSPolicy :: "CORSConfig option \<Rightarrow> CORSPolicy option" where
  "newCORSPolicy cfg =
     (case cfg of
        None \<Rightarrow> None
      | Some c \<Rightarrow>
          (if \<not> cc_EnableCORS c then None
           else
             (let allowAllOrigins = list_ex (\<lambda>s. s = ''*'') (cc_AllowOrigins c) in
              Some \<lparr>cp_allowAllOrigins = allowAllOrigins,
                    cp_allowOrigins = cc_AllowOrigins c,
                    cp_allowMethods = (if cc_AllowMethods c = [] then [''GET''] else cc_AllowMethods c),
                    cp_allowHeaders = cc_AllowHeaders c,
                    cp_allowAllHeaders = list_ex (\<lambda>s. s = ''*'') (cc_AllowHeaders c),
                    cp_allowCredentials = cc_AllowCredentials c \<and> \<not> allowAllOrigins,
                    cp_maxAge = (if cc_MaxAge c = 0 then 600 else cc_MaxAge c),
                    cp_exposeHeaders = cc_ExposeHeaders c\<rparr>)))"

definition containsValue :: "string list \<Rightarrow> string \<Rightarrow> bool" where
  "containsValue entries val0 = list_ex (\<lambda>e. e = val0) entries"

definition isOriginAllowed :: "CORSPolicy \<Rightarrow> string \<Rightarrow> bool" where
  "isOriginAllowed p origin \<longleftrightarrow> cp_allowAllOrigins p \<or> origin \<in> set (cp_allowOrigins p)"

text \<open>\<open>strings.EqualFold\<close> against an ASCII text: besides the letters only U+017F and U+212A fold into
  ASCII.\<close>

definition fold_rune :: "nat \<Rightarrow> nat" where
  "fold_rune r =
     (if 65 \<le> r \<and> r \<le> 90 then r + 32 else if r = 383 then 115 else if r = 8490 then 107 else r)"

definition equal_fold :: "string \<Rightarrow> string \<Rightarrow> bool" where
  "equal_fold s t \<longleftrightarrow> map fold_rune (runes s) = map fold_rune (runes t)"

definition preflightRequestHeader :: string where
  "preflightRequestHeader = ''access-control-request-method''"

definition IsPreflight :: "guardRequest \<Rightarrow> bool" where
  "IsPreflight req \<longleftrightarrow>
     equal_fold (rq_Method req) ''OPTIONS'' \<and> hd_Get (rq_Headers req) preflightRequestHeader \<noteq> None"

definition requested_headers :: "string \<Rightarrow> string list" where
  "requested_headers raw =
     map lower_ascii (filter (\<lambda>h. h \<noteq> []) (map trim_space (split_on CHR '','' raw)))"

definition preflight_failures :: "CORSPolicy \<Rightarrow> string \<Rightarrow> string \<Rightarrow> string \<Rightarrow> string list" where
  "preflight_failures p origin requestedMethod raw =
     (if isOriginAllowed p origin then [] else [''origin''])
     @ (if containsValue (cp_allowMethods p) requestedMethod then [] else [''method''])
     @ (if cp_allowAllHeaders p then []
        else if list_ex (\<lambda>h. \<not> containsValue (cp_allowHeaders p) h) (requested_headers raw) then [''headers'']
        else [])"

definition set_if :: "bool \<Rightarrow> string \<Rightarrow> string \<Rightarrow> Response \<Rightarrow> Response" where
  "set_if b name0 val0 r = (if b then SetHeader name0 val0 r else r)"

definition buildPreflightResponse :: "CORSPolicy \<Rightarrow> guardRequest \<Rightarrow> Response" where
  "buildPreflightResponse p req =
     (let headers = rq_Headers req; origin = hd_val headers ''origin'';
          requestedMethod = upper_ascii (hd_val headers preflightRequestHeader);
          raw = hd_val headers ''access-control-request-headers'';
          r0 = SetHeader ''Vary'' ''Origin'' \<lparr>rp_StatusCode = 200, rp_Headers = [], rp_Body = ''OK''\<rparr>;
          r1 = set_if (isOriginAllowed p origin) ''Access-Control-Allow-Origin''
                 (if cp_allowAllOrigins p \<and> \<not> cp_allowCredentials p then ''*'' else origin) r0;
          r2 = set_if (cp_allowAllHeaders p \<and> raw \<noteq> []) ''Access-Control-Allow-Headers'' raw r1;
          r3 = SetHeader ''Access-Control-Allow-Methods'' (join_with '', '' (cp_allowMethods p)) r2;
          r4 = SetHeader ''Access-Control-Max-Age'' (dec_int (cp_maxAge p)) r3;
          r5 = set_if (cp_allowCredentials p) ''Access-Control-Allow-Credentials'' ''true'' r4;
          failures = preflight_failures p origin requestedMethod raw
      in if failures \<noteq> []
         then r5\<lparr>rp_StatusCode := 400, rp_Body := ''Disallowed CORS: '' @ join_with '', '' failures\<rparr>
         else r5)"

definition buildResponseHeaders :: "CORSPolicy \<Rightarrow> Headers \<Rightarrow> (string \<times> string) list" where
  "buildResponseHeaders p headers =
     (case hd_Get headers ''origin'' of
        None \<Rightarrow> []
      | Some origin \<Rightarrow>
          (if origin = [] then []
           else if \<not> (cp_allowAllOrigins p \<and> \<not> cp_allowCredentials p) \<and> \<not> isOriginAllowed p origin then []
           else
             [(''Vary'', ''Origin''),
              (''Access-Control-Allow-Origin'',
               if cp_allowAllOrigins p \<and> \<not> cp_allowCredentials p then ''*'' else origin),
              (''Access-Control-Allow-Methods'', join_with '', '' (cp_allowMethods p)),
              (''Access-Control-Allow-Headers'',
               if cp_allowAllHeaders p then ''*'' else join_with '', '' (cp_allowHeaders p)),
              (''Access-Control-Max-Age'', ''3600'')]
             @ (if cp_allowCredentials p then [(''Access-Control-Allow-Credentials'', ''true'')] else [])
             @ (if cp_exposeHeaders p \<noteq> []
                then [(''Access-Control-Expose-Headers'', join_with '', '' (cp_exposeHeaders p))] else [])))"

definition injectResponseHeaders :: "CORSPolicy \<Rightarrow> Headers \<Rightarrow> Response \<Rightarrow> Response" where
  "injectResponseHeaders p headers resp =
     fold (\<lambda>kv r. SetHeader (fst kv) (snd kv) r) (buildResponseHeaders p headers) resp"

definition validateCORS :: "CORSConfig \<Rightarrow> CORSConfig" where
  "validateCORS c =
     (if \<not> cc_EnableCORS c then c
      else c\<lparr>cc_AllowMethods := map upper_ascii (cc_AllowMethods c),
             cc_AllowHeaders := map lower_ascii (cc_AllowHeaders c)\<rparr>)"

section \<open>Facts on the security headers\<close>

lemma in_update: "kv \<in> set (AList.update k v h) \<Longrightarrow> kv = (k, v) \<or> kv \<in> set h"
  by (induction h) (auto split: if_splits)

lemma in_put_nonempty: "kv \<in> set (put_nonempty k v h) \<Longrightarrow> kv = (k, v) \<or> kv \<in> set h"
  by (auto simp: put_nonempty_def dest: in_update split: if_splits)

lemma in_put_permissions:
  "kv \<in> set (put_permissions p h) \<Longrightarrow> (\<exists>v. p = Some v \<and> kv = (''Permissions-Policy'', v)) \<or> kv \<in> set h"
  by (auto simp: put_permissions_def AList.delete_eq dest: in_update split: option.splits if_splits)

lemma in_fold_update:
  "kv \<in> set (fold (\<lambda>kv h. AList.update (fst kv) (snd kv) h) cs h) \<Longrightarrow> kv \<in> set cs \<or> kv \<in> set h"
proof (induction cs arbitrary: h)
  case (Cons c cs)
  from Cons.prems Cons.IH[of "AList.update (fst c) (snd c) h"]
  have "kv \<in> set cs \<or> kv \<in> set (AList.update (fst c) (snd c) h)" by simp
  then show ?case using in_update[of kv "fst c" "snd c" h] by auto
qed simp

abbreviation clean :: "string \<Rightarrow> bool" where
  "clean s \<equiv> \<not> list_ex newline_byte s"

lemma encode_rune_clean: "keep_rune r \<Longrightarrow> clean (encode_rune r)"
proof -
  assume "keep_rune r"
  define q where "q = (if scalar r then r else rune_error)"
  have "q < 1114112" "keep_rune q"
    using \<open>keep_rune r\<close> by (auto simp: q_def scalar_def rune_error_def keep_rune_def)
  then have "240 + q div 262144 < 256" "keep_rune q" by (linarith, simp)
  then show ?thesis
    by (auto simp: keep_rune_def encode_rune_def encode_scalar_def newline_byte_def simp flip: q_def)
qed

lemma validateHeaderValue_clean: "validateHeaderValue v = Inr w \<Longrightarrow> clean w"
  using encode_rune_clean by (auto simp: validateHeaderValue_def list_ex_iff split: if_splits)

lemma sanitize_override_clean: "sanitize_override v = Inr w \<Longrightarrow> clean w"
  by (auto simp: sanitize_override_def overrideHeaderValue_def validateHeaderValue_clean
      split: if_splits sum.splits)

lemma sanitize_custom_clean: "sanitize_custom cs = Inr ds \<Longrightarrow> \<forall>kv\<in>set ds. clean (snd kv)"
proof (induction cs arbitrary: ds)
  case (Cons c cs)
  obtain n v where c: "c = (n, v)" by (cases c)
  from Cons.prems obtain v' rest'
    where v': "validateHeaderValue v = Inr v'" "sanitize_custom cs = Inr rest'" "ds = (n, v') # rest'"
    by (auto simp: c split: sum.splits)
  from Cons.IH[OF v'(2)] validateHeaderValue_clean[OF v'(1)] v'(3) show ?case by simp
qed simp

lemma dec_clean: "c \<in> set (dec n) \<Longrightarrow> is_digit c"
proof (induction n rule: dec.induct)
  case (1 n)
  then show ?case by (subst (asm) (2) dec.simps) (auto simp: dec_char_digit split: if_splits)
qed

lemma buildHSTS_clean: "clean (buildHSTS h)"
proof -
  have "clean (dec_int z)" for z
    by (auto simp: dec_int_def list_ex_iff newline_byte_def is_digit_def dest!: dec_clean)
  then show ?thesis
    by (auto simp: buildHSTS_def Let_def newline_byte_def split: option.splits)
qed


lemma class_defaults_clean: "kv \<in> set classDefaultHeaders \<Longrightarrow> clean (snd kv)"
  by (auto simp: classDefaultHeaders_def newline_byte_def)

text \<open>The values \<open>responseHeaders\<close> can carry.\<close>

lemma in_responseHeaders:
  assumes "kv \<in> set (responseHeaders (Some sh))"
  shows "kv \<in> set classDefaultHeaders \<or> kv \<in> set (sh_Custom sh)
    \<or> snd kv \<in> {sh_FrameOptions sh, sh_ContentTypeOptions sh, sh_XSSProtection sh, sh_ReferrerPolicy sh}
    \<or> sh_PermissionsPolicy sh = Some (snd kv) \<or> snd kv = buildHSTS (sh_HSTS sh)
    \<or> kv = (''Content-Security-Policy'', buildCSP (sh_CSP sh))"
proof -
  have "sh_Enabled sh" using assms by (auto simp: responseHeaders_def split: if_splits)
  with assms have "kv \<in> set (fold (\<lambda>kv h. AList.update (fst kv) (snd kv) h) (sh_Custom sh)
      (put_nonempty ''Strict-Transport-Security'' (buildHSTS (sh_HSTS sh))
        (put_nonempty ''Content-Security-Policy'' (buildCSP (sh_CSP sh))
          (put_permissions (sh_PermissionsPolicy sh)
            (put_nonempty ''Referrer-Policy'' (sh_ReferrerPolicy sh)
              (put_nonempty ''X-XSS-Protection'' (sh_XSSProtection sh)
                (put_nonempty ''X-Content-Type-Options'' (sh_ContentTypeOptions sh)
                  (put_nonempty ''X-Frame-Options'' (sh_FrameOptions sh) classDefaultHeaders))))))))"
    by (simp only: responseHeaders_def Let_def option.case if_True not_True_eq_False if_False)
  then show ?thesis
    by (elim disjE exE conjE in_fold_update[THEN disjE] in_put_nonempty[THEN disjE]
        in_put_permissions[THEN disjE]) simp_all
qed

lemma bind_sum_Inr: "bind_sum x f = Inr y \<longleftrightarrow> (\<exists>a. x = Inr a \<and> f a = Inr y)"
  by (cases x) (auto simp: bind_sum_def)

lemma validated_fields:
  assumes "validateSecurityHeaders (Some sh) = Inr (Some sh')"
  shows "clean (sh_FrameOptions sh')" "clean (sh_ContentTypeOptions sh')" "clean (sh_XSSProtection sh')"
    "clean (sh_ReferrerPolicy sh')" "\<And>p. sh_PermissionsPolicy sh' = Some p \<Longrightarrow> clean p"
    "\<forall>kv\<in>set (sh_Custom sh'). clean (snd kv)" "sh_CSP sh' = sh_CSP sh" "sh_HSTS sh' = sh_HSTS sh"
  using assms
  by (auto simp: validateSecurityHeaders_def bind_sum_Inr overrideHeaderValue_def
      dest!: sanitize_override_clean sanitize_custom_clean validateHeaderValue_clean
      split: option.splits if_splits sum.splits)

text \<open>After a successful validation no response header value contains a line break, so that no
  configured value can split a response; the one exception is the content security policy, which the
  validation does not look at.\<close>

theorem validated_headers_no_split:
  assumes "validateSecurityHeaders (Some sh) = Inr (Some sh')"
    and "(name0, val0) \<in> set (responseHeaders (Some sh'))" and "list_ex newline_byte val0"
  shows "name0 = ''Content-Security-Policy'' \<and> val0 = buildCSP (sh_CSP sh)"
  using in_responseHeaders[OF assms(2)] validated_fields[OF assms(1)] assms(3)
    class_defaults_clean[of "(name0, val0)"] buildHSTS_clean by auto

definition wt_csp :: SecurityHeadersConfig where
  "wt_csp = DefaultSecurityHeaders\<lparr>sh_PermissionsPolicy := None, sh_FrameOptions := [],
     sh_ContentTypeOptions := [], sh_XSSProtection := [], sh_ReferrerPolicy := [], sh_HSTS := None,
     sh_CSP := [\<lparr>csp_Name = [CHR 0x0A], csp_Sources = []\<rparr>]\<rparr>"

text \<open>The exception happens: a policy with a line break is accepted and sent.\<close>

theorem validated_headers_no_split_witness:
  "validateSecurityHeaders (Some wt_csp) = Inr (Some wt_csp)
   \<and> (''Content-Security-Policy'', [CHR 0x0A]) \<in> set (responseHeaders (Some wt_csp))
   \<and> [CHR 0x0A] = buildCSP (sh_CSP wt_csp)"
proof -
  have v: "validateSecurityHeaders (Some wt_csp) = Inr (Some wt_csp)"
    by (simp add: validateSecurityHeaders_def wt_csp_def DefaultSecurityHeaders_def
        sanitize_override_def bind_sum_def)
  have m: "(''Content-Security-Policy'', [CHR 0x0A]) \<in> set (responseHeaders (Some wt_csp))"
    by (simp add: responseHeaders_def wt_csp_def DefaultSecurityHeaders_def put_nonempty_def
        put_permissions_def buildHSTS_def buildCSP_def csp_part_def classDefaultHeaders_def Let_def)
  show ?thesis
    using validated_headers_no_split[OF v m] v m by (simp add: newline_byte_def)
qed

section \<open>Facts on the cross-origin policy\<close>

lemma SetHeader_get [simp]:
  "map_of (rp_Headers (SetHeader n v r)) x = (if x = n then Some v else map_of (rp_Headers r) x)"
  by (simp add: SetHeader_def map_of_update)

lemma SetHeader_status [simp]: "rp_StatusCode (SetHeader n v r) = rp_StatusCode r"
  by (simp add: SetHeader_def)

lemma set_if_get [simp]:
  "map_of (rp_Headers (set_if b n v r)) x = (if b \<and> x = n then Some v else map_of (rp_Headers r) x)"
  by (simp add: set_if_def)

lemma set_if_status [simp]: "rp_StatusCode (set_if b n v r) = rp_StatusCode r"
  by (simp add: set_if_def)

abbreviation ACAO :: string where "ACAO \<equiv> ''Access-Control-Allow-Origin''"
abbreviation ACAC :: string where "ACAC \<equiv> ''Access-Control-Allow-Credentials''"

lemma policy_origins:
  assumes "newCORSPolicy (Some c) = Some p"
  shows "cp_allowOrigins p = cc_AllowOrigins c"
    and "cp_allowAllOrigins p \<longleftrightarrow> ''*'' \<in> set (cc_AllowOrigins c)"
    and "cp_allowCredentials p \<Longrightarrow> \<not> cp_allowAllOrigins p"
  using assms by (auto simp: newCORSPolicy_def Let_def list_ex_iff split: if_splits)

text \<open>The allowed origin of a list of headers is a configured one, and the wildcard never goes with
  credentials.\<close>

definition cors_safe :: "CORSConfig \<Rightarrow> (string \<times> string) list \<Rightarrow> bool" where
  "cors_safe c hs \<longleftrightarrow>
     (case map_of hs ACAO of
        None \<Rightarrow> True
      | Some v \<Rightarrow> v \<in> set (cc_AllowOrigins c) \<and> (v = ''*'' \<longrightarrow> map_of hs ACAC = None))"

lemma response_headers_safe:
  assumes "newCORSPolicy (Some c) = Some p"
  shows "cors_safe c (buildResponseHeaders p h)"
proof (cases "hd_Get h ''origin''")
  case (Some origin)
  let ?wild = "cp_allowAllOrigins p \<and> \<not> cp_allowCredentials p"
  show ?thesis
  proof (cases "origin = [] \<or> \<not> ?wild \<and> \<not> isOriginAllowed p origin")
    case False
    then have c: "origin \<noteq> []" "\<not> (\<not> ?wild \<and> \<not> isOriginAllowed p origin)" by simp_all
    have "map_of (buildResponseHeaders p h) ACAO = Some (if ?wild then ''*'' else origin)"
      "map_of (buildResponseHeaders p h) ACAC = (if cp_allowCredentials p then Some ''true'' else None)"
      unfolding buildResponseHeaders_def Some option.case if_not_P[OF c(1)] if_not_P[OF c(2)]
      by simp_all
    then show ?thesis using False policy_origins[OF assms]
      by (auto simp: cors_safe_def isOriginAllowed_def)
  qed (auto simp: cors_safe_def buildResponseHeaders_def Some)
qed (simp add: cors_safe_def buildResponseHeaders_def)

lemma preflight_header:
  "map_of (rp_Headers (buildPreflightResponse p req)) ACAO =
     (let origin = hd_val (rq_Headers req) ''origin'' in
      if isOriginAllowed p origin
      then Some (if cp_allowAllOrigins p \<and> \<not> cp_allowCredentials p then ''*'' else origin) else None)"
  "map_of (rp_Headers (buildPreflightResponse p req)) ACAC =
     (if cp_allowCredentials p then Some ''true'' else None)"
  by (simp_all add: buildPreflightResponse_def Let_def)

lemma preflight_safe:
  assumes "newCORSPolicy (Some c) = Some p"
  shows "cors_safe c (rp_Headers (buildPreflightResponse p req))"
  using policy_origins[OF assms]
  by (auto simp: cors_safe_def preflight_header isOriginAllowed_def Let_def)

text \<open>C26: Whatever origin a client sends, the origin allowed by a preflight answer or by an ordinary
  response is one the configuration lists, and the wildcard is never combined with credentials.\<close>

theorem cors_answers_safe:
  assumes "newCORSPolicy (Some c) = Some p"
  shows "cors_safe c (buildResponseHeaders p h) \<and> cors_safe c (rp_Headers (buildPreflightResponse p req))"
  using response_headers_safe[OF assms] preflight_safe[OF assms] by simp

definition wt_cors :: CORSConfig where
  "wt_cors = \<lparr>cc_EnableCORS = True, cc_AllowOrigins = [''*''], cc_AllowMethods = [''GET''],
     cc_AllowHeaders = [], cc_AllowCredentials = True, cc_ExposeHeaders = [], cc_MaxAge = 0\<rparr>"

theorem cors_answers_safe_witness:
  "map_of (buildResponseHeaders (the (newCORSPolicy (Some wt_cors))) [(''origin'', ''http://e'')]) ACAC = None"
proof -
  have p: "newCORSPolicy (Some wt_cors) = Some (the (newCORSPolicy (Some wt_cors)))"
    by (simp add: newCORSPolicy_def wt_cors_def)
  have g: "hd_Get [(''origin'', ''http://e'')] ''origin'' = Some ''http://e''"
    by (simp add: hd_Get_def lower_ascii_def lower_byte_def)
  show ?thesis
    using cors_answers_safe[OF p, of "[(''origin'', ''http://e'')]"] g
    by (simp add: cors_safe_def buildResponseHeaders_def newCORSPolicy_def wt_cors_def)
qed

text \<open>A preflight is granted (status 200) exactly when its origin, its method and every header it asks
  for are allowed.\<close>

theorem preflight_granted_iff:
  "rp_StatusCode (buildPreflightResponse p req) = 200 \<longleftrightarrow>
     isOriginAllowed p (hd_val (rq_Headers req) ''origin'')
     \<and> upper_ascii (hd_val (rq_Headers req) preflightRequestHeader) \<in> set (cp_allowMethods p)
     \<and> (cp_allowAllHeaders p
        \<or> set (requested_headers (hd_val (rq_Headers req) ''access-control-request-headers''))
            \<subseteq> set (cp_allowHeaders p))"
  by (auto simp: buildPreflightResponse_def Let_def preflight_failures_def containsValue_def list_ex_iff)

end
