(* ===== verification/Checks.thy ===== *)
theory Checks
  imports ResponseHeaders
begin

text \<open>
  The configuration, the world a check runs in and the checks of \<open>checks_route.go\<close>,
  \<open>checks_routeguards.go\<close>, \<open>checks_custom.go\<close> and \<open>checks_cloud.go\<close>. A check takes the request and the
  world and returns an error (a Go panic, which the pipeline recovers) or an optional response, with
  the world after it. The world holds the request state, the shared managers, the counters and what
  the check emitted: calls of the block hook, bus events, geo events. The environment record holds
  what the checks read and the model does not compute: clocks, the regular-expression matcher, the
  URL parser, the pattern engine, the cloud ranges and the display redaction.
\<close>

section \<open>Configuration, environment and world\<close>

record SecurityConfig =
  sc_TrustedProxies :: "string list"
  sc_TrustedProxyDepth :: int
  sc_ExcludePaths :: "string list"
  sc_TrustXForwardedProto :: bool
  sc_Whitelist :: "string list"
  sc_ExemptIPs :: "string list"
  sc_Blacklist :: "string list"
  sc_RedisFailOpen :: bool
  sc_EnableIPBanning :: bool
  sc_AutoBanThreshold :: int
  sc_AutoBanDuration :: int
  sc_ThreatBanConfig :: "(string \<times> ThreatBanEntry) list"
  sc_EnableRateLimitAutoBan :: bool
  sc_EnableRateLimiting :: bool
  sc_RateLimit :: int
  sc_RateLimitWindow :: int
  sc_EndpointRateLimits :: "(string \<times> RateLimitEntry) list"
  sc_EnablePenetrationDetection :: bool
  sc_Detection :: detection_config
  sc_MaxScanValues :: int
  sc_MaxScanChars :: int
  sc_PassiveMode :: bool
  sc_FailSecure :: bool
  sc_RouteResolutionStrict :: bool
  sc_CustomErrorResponses :: "(int \<times> string) list"
  sc_SecurityHeaders :: "SecurityHeadersConfig option"
  sc_OnBlock :: bool
  sc_MutedCheckLogs :: "string list"
  sc_EnforceHTTPS :: bool
  sc_EmergencyMode :: bool
  sc_EmergencyWhitelist :: "string list"
  sc_AuthVerifier :: "AuthVerifier option"
  sc_EnableDynamicRules :: bool
  sc_DynamicRulesCachePath :: string
  sc_IPInfoToken :: string
  sc_BlockCloudProviders :: "string list"
  sc_BlockedUserAgents :: "string list"
  sc_WhitelistCountries :: "string list"
  sc_BlockedCountries :: "string list"
  sc_GeoIPHandler :: "(string \<Rightarrow> string option) option"
  sc_OnGeoEvent :: bool
  sc_CustomRequestCheck :: "(guardRequest \<Rightarrow> Response option) option"
  sc_CustomResponseModifier :: "modifier option"
  sc_LogRequestLevel :: string
  sc_CloudIPRefreshInterval :: int
  sc_GlobalBehaviorRules :: "BehaviorRuleConfig list"
  sc_BehaviorScanResponseBody :: bool
  sc_BehaviorMaxResponseBodyInspectBytes :: int
  sc_revision :: "64 word"
  sc_bus :: bool

record check_env =
  en_rl :: rl_env
  en_now :: real
  en_tiers :: "nat \<Rightarrow> real"
  en_nowUnix :: int
  en_minute :: "string \<Rightarrow> nat"
  en_regex :: "string \<Rightarrow> string \<Rightarrow> bool option"
  en_urlHost :: "string \<Rightarrow> string option"
  en_detect :: engine
  en_body :: "guardRequest \<Rightarrow> scan_value list"
  en_isCloud :: "string \<Rightarrow> string list \<Rightarrow> bool"
  en_cloudDetails :: "string \<Rightarrow> string list \<Rightarrow> (string \<times> string) option"
  en_redact :: "string \<Rightarrow> string"

record bus_event =
  be_type :: string
  be_action :: string
  be_reason :: string

record GeoEvent =
  ge_EventType :: string
  ge_IPAddress :: string
  ge_Reason :: string
  ge_Country :: string
  ge_RuleType :: string
  ge_Classification :: "(string \<times> string) option"

record hook_call =
  hk_check :: string
  hk_reason :: string
  hk_trigger :: string
  hk_passive :: bool
  hk_ip :: string
  hk_path :: string
  hk_method :: string
  hk_status :: "int option"

record cloud_state =
  cs_stamp :: int
  cs_inflight :: bool
  cs_scheduled :: nat

type_synonym tracker_store = "(string \<times> (string \<times> real list) list) list"

type_synonym counts = "(string \<times> (string \<times> int) list) list"

record ('q, 'r) world =
  w_st :: RequestState
  w_ban :: "'r IPBanManager option"
  w_rl :: "('q, 'r) RateLimitManager"
  w_counts :: counts
  w_cloud :: cloud_state
  w_usage :: tracker_store
  w_returns :: tracker_store
  w_hooks :: "hook_call list"
  w_events :: "bus_event list"
  w_handler :: "handler_event list"
  w_geo :: "GeoEvent list"

type_synonym ('q, 'r) outcome = "(go_error + Response option) \<times> ('q, 'r) world"

section \<open>Emission\<close>

definition emitBusEvent :: "SecurityConfig \<Rightarrow> string \<Rightarrow> string \<Rightarrow> string \<Rightarrow> ('q, 'r) world \<Rightarrow> ('q, 'r) world" where
  "emitBusEvent cfg eventType action reason w =
     (if sc_bus cfg
      then w\<lparr>w_events := w_events w @ [\<lparr>be_type = eventType, be_action = action, be_reason = reason\<rparr>]\<rparr>
      else w)"

definition blockedOrLoggedAction :: "bool \<Rightarrow> string" where
  "blockedOrLoggedAction passiveMode = (if passiveMode then ''logged_only'' else ''request_blocked'')"

definition emitAccessDeniedEvent :: "SecurityConfig \<Rightarrow> string \<Rightarrow> ('q, 'r) world \<Rightarrow> ('q, 'r) world" where
  "emitAccessDeniedEvent cfg reason w =
     emitBusEvent cfg ''decorator_violation'' (blockedOrLoggedAction (sc_PassiveMode cfg)) reason w"

definition onBlockExcludedCheckNames :: "string list" where
  "onBlockExcludedCheckNames = [''custom_request'', ''custom_validators'', ''https_enforcement'']"

definition UnknownClientIdentity :: string where
  "UnknownClientIdentity = ''unknown''"

definition blockHookStatusCode :: "int \<Rightarrow> int option" where
  "blockHookStatusCode statusCode = (if statusCode = 0 then None else Some statusCode)"

text \<open>\<open>has_hook\<close> is the guard \<open>cfg == nil || cfg.OnBlock == nil\<close> negated.\<close>

definition has_hook :: "SecurityConfig option \<Rightarrow> bool" where
  "has_hook cfg = (case cfg of None \<Rightarrow> False | Some c \<Rightarrow> sc_OnBlock c)"

definition fireBlockHook ::
  "bool \<Rightarrow> guardRequest \<Rightarrow> string \<Rightarrow> string \<Rightarrow> string \<Rightarrow> bool \<Rightarrow> int \<Rightarrow> ('q, 'r) world \<Rightarrow> ('q, 'r) world" where
  "fireBlockHook hook req checkName reason triggerInfo passiveMode statusCode w =
     (if \<not> hook \<or> checkName \<in> set onBlockExcludedCheckNames then w
      else
        (let ip = resolveClientIP req (w_st w) in
         w\<lparr>w_hooks := w_hooks w @
             [\<lparr>hk_check = checkName, hk_reason = reason, hk_trigger = triggerInfo, hk_passive = passiveMode,
               hk_ip = (if ip = [] then UnknownClientIdentity else ip), hk_path = gr_Path req,
               hk_method = rq_Method req, hk_status = blockHookStatusCode statusCode\<rparr>]\<rparr>))"

definition firePassiveBlockHook ::
  "SecurityConfig \<Rightarrow> guardRequest \<Rightarrow> string \<Rightarrow> string \<Rightarrow> string \<Rightarrow> ('q, 'r) world \<Rightarrow> ('q, 'r) world" where
  "firePassiveBlockHook cfg req checkName reason triggerInfo w =
     fireBlockHook (has_hook (Some cfg)) req checkName reason triggerInfo True 0 w"

definition stash :: "string \<Rightarrow> string \<Rightarrow> ('q, 'r) world \<Rightarrow> ('q, 'r) world" where
  "stash reason triggerInfo w = w\<lparr>w_st := stashBlock reason triggerInfo (w_st w)\<rparr>"

text \<open>\<open>LogActivity\<close> of a suspicious activity: what \<open>dispatchBlockHook\<close> does.\<close>

definition dispatchBlockHook ::
  "SecurityConfig \<Rightarrow> guardRequest \<Rightarrow> string \<Rightarrow> string \<Rightarrow> string \<Rightarrow> ('q, 'r) world \<Rightarrow> ('q, 'r) world" where
  "dispatchBlockHook cfg req checkName reason triggerInfo w =
     (if \<not> sc_PassiveMode cfg then stash reason triggerInfo w
      else fireBlockHook (sc_OnBlock cfg) req checkName reason triggerInfo True 0 w)"

section \<open>Error responses\<close>

definition add_headers :: "(string \<times> string) list \<Rightarrow> Response \<Rightarrow> Response" where
  "add_headers hs r = fold (\<lambda>kv r. SetHeader (fst kv) (snd kv) r) hs r"

definition custom_message :: "SecurityConfig option \<Rightarrow> int \<Rightarrow> string \<Rightarrow> string" where
  "custom_message cfg statusCode defaultMessage =
     (case Option.bind cfg (\<lambda>c. map_of (sc_CustomErrorResponses c) statusCode) of
        None \<Rightarrow> defaultMessage
      | Some custom \<Rightarrow> if custom \<noteq> [] then custom else defaultMessage)"

definition errorResponse :: "SecurityConfig option \<Rightarrow> int \<Rightarrow> string \<Rightarrow> Response" where
  "errorResponse cfg statusCode message =
     applyModifier (Option.bind cfg sc_CustomResponseModifier)
       (add_headers (responseHeaders (Option.bind cfg sc_SecurityHeaders)) (CreateResponse message statusCode))"

definition createErrorResponse :: "SecurityConfig \<Rightarrow> int \<Rightarrow> string \<Rightarrow> Response" where
  "createErrorResponse cfg statusCode defaultMessage =
     errorResponse (Some cfg) statusCode (custom_message (Some cfg) statusCode defaultMessage)"

text \<open>The tail most checks share: the hook in passive mode, the response otherwise.\<close>

definition passive_or_block ::
  "SecurityConfig \<Rightarrow> guardRequest \<Rightarrow> string \<Rightarrow> string \<Rightarrow> int \<Rightarrow> string \<Rightarrow> ('q, 'r) world \<Rightarrow> ('q, 'r) outcome" where
  "passive_or_block cfg req checkName reason statusCode message w =
     (if sc_PassiveMode cfg then (Inr None, firePassiveBlockHook cfg req checkName reason [] w)
      else (Inr (Some (createErrorResponse cfg statusCode message)), w))"

section \<open>Route configuration, emergency mode and HTTPS\<close>

definition unresolvedRouteReason :: string where
  "unresolvedRouteReason = ''Route resolution failed; per-route decorator config could not be applied''"

definition routeConfigCheck ::
  "SecurityConfig \<Rightarrow> RouteRegistry \<Rightarrow> guardRequest \<Rightarrow> ('q, 'r) world \<Rightarrow> ('q, 'r) outcome" where
  "routeConfigCheck cfg registry req w0 =
     (let st1 = (w_st w0)\<lparr>st_RouteConfig := rg_Get registry (st_GuardRouteID (w_st w0))\<rparr>;
          ip = resolveClientIP req st1;
          w = w0\<lparr>w_st := (if ip \<noteq> [] then st1\<lparr>st_ClientIP := ip\<rparr> else st1)\<rparr>
      in if sc_RouteResolutionStrict cfg \<and> st_RouteUnresolved (w_st w)
         then passive_or_block cfg req ''route_config'' unresolvedRouteReason 500 ''Route resolution failed''
                (emitBusEvent cfg ''route_unresolved'' (blockedOrLoggedAction (sc_PassiveMode cfg))
                   unresolvedRouteReason (stash unresolvedRouteReason [] w))
         else (Inr None, w))"

definition emergencyModeCheck ::
  "SecurityConfig \<Rightarrow> guardRequest \<Rightarrow> ('q, 'r) world \<Rightarrow> ('q, 'r) outcome" where
  "emergencyModeCheck cfg req w =
     (if \<not> sc_EmergencyMode cfg then (Inr None, w)
      else
        (let clientIP = (if st_ClientIP (w_st w) = [] then resolveClientIP req (w_st w) else st_ClientIP (w_st w)) in
         if clientIP \<noteq> [] \<and> ipMatchesList clientIP (sc_EmergencyWhitelist cfg) then (Inr None, w)
         else
           (let hookReason = ''[EMERGENCY MODE] Access denied for IP '' @ clientIP in
            passive_or_block cfg req ''emergency_mode'' hookReason 503 ''Service temporarily unavailable''
              (emitBusEvent cfg ''emergency_mode_block'' (blockedOrLoggedAction (sc_PassiveMode cfg))
                 (''[EMERGENCY MODE] IP '' @ clientIP @ '' not in whitelist'')
                 (stash hookReason [] w)))))"

definition isRequestHTTPS :: "SecurityConfig \<Rightarrow> guardRequest \<Rightarrow> bool" where
  "isRequestHTTPS cfg req \<longleftrightarrow>
     gr_Scheme req = ''https''
     \<or> (sc_TrustXForwardedProto cfg \<and> sc_TrustedProxies cfg \<noteq> [] \<and> gr_ClientHost req \<noteq> []
        \<and> ipMatchesList (gr_ClientHost req) (sc_TrustedProxies cfg)
        \<and> (case hd_Get (rq_Headers req) ''X-Forwarded-Proto'' of
             None \<Rightarrow> False | Some proto \<Rightarrow> equal_fold proto ''https''))"

definition https_required :: "SecurityConfig \<Rightarrow> RouteConfig option \<Rightarrow> bool" where
  "https_required cfg route =
     (case route of None \<Rightarrow> sc_EnforceHTTPS cfg | Some rc \<Rightarrow> rc_RequireHTTPS rc)"

definition SendHTTPSViolationEvent ::
  "SecurityConfig \<Rightarrow> RouteConfig option \<Rightarrow> ('q, 'r) world \<Rightarrow> ('q, 'r) world" where
  "SendHTTPSViolationEvent cfg route w =
     (if (case route of None \<Rightarrow> False | Some rc \<Rightarrow> rc_RequireHTTPS rc)
      then emitBusEvent cfg ''decorator_violation'' ''https_redirect''
             ''Route requires HTTPS but request was HTTP'' w
      else emitBusEvent cfg ''https_enforced'' ''https_redirect''
             ''HTTP request redirected to HTTPS for security'' w)"

definition httpsEnforcementCheck ::
  "SecurityConfig \<Rightarrow> guardRequest \<Rightarrow> ('q, 'r) world \<Rightarrow> ('q, 'r) outcome" where
  "httpsEnforcementCheck cfg req w =
     (let route = st_RouteConfig (w_st w) in
      if \<not> https_required cfg route \<or> isRequestHTTPS cfg req \<or> sc_PassiveMode cfg then (Inr None, w)
      else
        (Inr (Some (applyModifier (sc_CustomResponseModifier cfg)
                      (CreateRedirectResponse (URLReplaceScheme ''https'' req) 301))),
         SendHTTPSViolationEvent cfg route w))"

section \<open>Size, content type, headers\<close>

text \<open>\<open>strconv.Atoi\<close> on a 64-bit machine.\<close>

definition atoi :: "string \<Rightarrow> int option" where
  "atoi s =
     (let neg = has_prefix s ''-'';
          ds = (if neg \<or> has_prefix s ''+'' then drop 1 s else s)
      in if ds = [] \<or> \<not> list_all is_digit ds then None
         else
           (let n = foldl (\<lambda>a c. a * 10 + int (digit_val c)) 0 ds; z = (if neg then - n else n) in
            if - (2 ^ 63) \<le> z \<and> z < 2 ^ 63 then Some z else None))"

definition requestSizeContentApplies :: "RouteConfig list \<Rightarrow> bool" where
  "requestSizeContentApplies routes =
     anyRoute routes (\<lambda>rc. rc_MaxRequestSize rc > 0 \<or> rc_AllowedContentTypes rc \<noteq> [])"

text \<open>The size part: \<open>None\<close> when the size is acceptable or not announced.\<close>

definition size_violation :: "RouteConfig \<Rightarrow> guardRequest \<Rightarrow> go_error + string option" where
  "size_violation rc req =
     (if rc_MaxRequestSize rc > 0 \<and> hd_val (rq_Headers req) ''Content-Length'' \<noteq> [] then
        (let contentLength = hd_val (rq_Headers req) ''Content-Length'' in
         case atoi (trim_space contentLength) of
           None \<Rightarrow> Inl (Fault (''request_size_content: invalid content-length '' @ contentLength))
         | Some sz \<Rightarrow>
             (if sz > rc_MaxRequestSize rc
              then Inr (Some (''Request size '' @ contentLength @ '' exceeds limit: '' @ dec_int (rc_MaxRequestSize rc)))
              else Inr None))
      else Inr None)"

definition media_type :: "guardRequest \<Rightarrow> string" where
  "media_type req = cut_before (hd_val (rq_Headers req) ''Content-Type'') CHR '';''"

definition pythonListRepr :: "string list \<Rightarrow> string" where
  "pythonListRepr values = ''['' @ join_with '', '' (map quoted values) @ '']''"

definition requestSizeContentCheck ::
  "SecurityConfig \<Rightarrow> guardRequest \<Rightarrow> ('q, 'r) world \<Rightarrow> ('q, 'r) outcome" where
  "requestSizeContentCheck cfg req w =
     (case st_RouteConfig (w_st w) of
        None \<Rightarrow> (Inr None, w)
      | Some rc \<Rightarrow>
          (case size_violation rc req of
             Inl e \<Rightarrow> (Inl e, w)
           | Inr (Some reason) \<Rightarrow>
               passive_or_block cfg req ''request_size_content'' reason 413 ''Request too large''
                 (emitBusEvent cfg ''content_filtered'' (blockedOrLoggedAction (sc_PassiveMode cfg)) reason
                    (stash reason [] w))
           | Inr None \<Rightarrow>
               (if rc_AllowedContentTypes rc \<noteq> [] \<and> media_type req \<notin> set (rc_AllowedContentTypes rc) then
                  (let logReason = ''Invalid content type: '' @ media_type req in
                   passive_or_block cfg req ''request_size_content''
                     (''Content type not in allowed types: '' @ pythonListRepr (rc_AllowedContentTypes rc))
                     415 ''Unsupported content type''
                     (emitBusEvent cfg ''content_filtered'' (blockedOrLoggedAction (sc_PassiveMode cfg))
                        (''Content type not in allowed types: '' @ pythonListRepr (rc_AllowedContentTypes rc))
                        (stash logReason [] w)))
                else (Inr None, w))))"

definition requiredHeadersApplies :: "RouteConfig list \<Rightarrow> bool" where
  "requiredHeadersApplies routes = anyRoute routes (\<lambda>rc. rc_RequiredHeaders rc \<noteq> [])"

definition requiredHeaders_report ::
  "SecurityConfig \<Rightarrow> guardRequest \<Rightarrow> string \<Rightarrow> ('q, 'r) world \<Rightarrow> ('q, 'r) outcome" where
  "requiredHeaders_report cfg req reason w =
     passive_or_block cfg req ''required_headers'' reason 400 reason
       (stash reason [] (emitAccessDeniedEvent cfg reason w))"

text \<open>The first entry the request violates, with the reason.\<close>

fun header_violation :: "RequiredHeader list \<Rightarrow> Headers \<Rightarrow> string option" where
  "header_violation [] h = None"
| "header_violation (entry # rest) h =
     (let actual = hd_val h (rqh_Name entry) in
      if actual = [] then Some (''Missing required header: '' @ rqh_Name entry)
      else if rqh_Value entry \<noteq> ''required'' \<and> actual \<noteq> rqh_Value entry
           then Some (''Header '' @ quoted (rqh_Name entry) @ '' does not match the required value'')
           else header_violation rest h)"

definition requiredHeadersCheck ::
  "SecurityConfig \<Rightarrow> guardRequest \<Rightarrow> ('q, 'r) world \<Rightarrow> ('q, 'r) outcome" where
  "requiredHeadersCheck cfg req w =
     (case st_RouteConfig (w_st w) of
        None \<Rightarrow> (Inr None, w)
      | Some rc \<Rightarrow>
          (case header_violation (rc_RequiredHeaders rc) (rq_Headers req) of
             None \<Rightarrow> (Inr None, w)
           | Some reason \<Rightarrow> requiredHeaders_report cfg req reason w))"

section \<open>Authentication\<close>

definition authenticationApplies :: "RouteConfig list \<Rightarrow> bool" where
  "authenticationApplies routes =
     anyRoute routes (\<lambda>rc. rc_AuthRequired rc \<noteq> [] \<or> rc_APIKeyRequired rc \<or> rc_AuthorizationHeaderRequired rc \<noteq> [])"

text \<open>The credential, empty on failure, and the reason of the failure.\<close>

definition extractCredential :: "string \<Rightarrow> string \<Rightarrow> string \<times> string" where
  "extractCredential authHeader authType =
     (if authType = ''bearer'' then
        (if \<not> has_prefix authHeader ''Bearer '' then ([], ''Missing or invalid Bearer token'')
         else (drop (length ''Bearer '') authHeader, []))
      else if authType = ''basic'' then
        (if \<not> has_prefix authHeader ''Basic '' then ([], ''Missing or invalid Basic authentication'')
         else (drop (length ''Basic '') authHeader, []))
      else if authHeader = [] then ([], ''Missing '' @ authType @ '' authentication'')
      else (authHeader, []))"

definition handleAuthFailure ::
  "SecurityConfig \<Rightarrow> guardRequest \<Rightarrow> string \<Rightarrow> ('q, 'r) world \<Rightarrow> ('q, 'r) outcome" where
  "handleAuthFailure cfg req authReason w =
     (let reason = ''Authentication failure: '' @ authReason in
      passive_or_block cfg req ''authentication'' reason 401 ''Authentication required''
        (emitAccessDeniedEvent cfg authReason (stash reason [] w)))"

definition isEmptyPrincipal :: "principal \<Rightarrow> bool" where
  "isEmptyPrincipal v = (case v of PString s \<Rightarrow> s = [] | POther _ \<Rightarrow> False)"

text \<open>The verdict of the verifier: the reason of a failure, or the principal.\<close>

definition verify_credential ::
  "AuthVerifier option \<Rightarrow> guardRequest \<Rightarrow> string \<Rightarrow> string + principal" where
  "verify_credential verifier req credential =
     (case verifier of
        None \<Rightarrow> Inl ''No auth verifier configured''
      | Some v \<Rightarrow>
          (case v req credential of
             Inl _ \<Rightarrow> Inl ''Authentication error''
           | Inr None \<Rightarrow> Inl ''Authentication failed''
           | Inr (Some p) \<Rightarrow> if isEmptyPrincipal p then Inl ''Authentication failed'' else Inr p))"

definition or_else :: "'a option \<Rightarrow> 'a option \<Rightarrow> 'a option" where
  "or_else a b = (case a of None \<Rightarrow> b | Some _ \<Rightarrow> a)"

text \<open>The verifier, the credential and the reason it is missing for.\<close>

definition route_credential ::
  "SecurityConfig \<Rightarrow> RouteConfig \<Rightarrow> guardRequest \<Rightarrow> AuthVerifier option \<times> string \<times> string" where
  "route_credential cfg rc req =
     (if rc_AuthRequired rc \<noteq> [] then
        (or_else (rc_AuthVerifier rc) (sc_AuthVerifier cfg),
         extractCredential (hd_val (rq_Headers req) ''Authorization'') (rc_AuthRequired rc))
      else
        (or_else (rc_APIKeyVerifier rc) (sc_AuthVerifier cfg),
         hd_val (rq_Headers req) (rc_APIKeyHeader rc), ''Missing API key''))"

definition authenticationCheck ::
  "SecurityConfig \<Rightarrow> guardRequest \<Rightarrow> ('q, 'r) world \<Rightarrow> ('q, 'r) outcome" where
  "authenticationCheck cfg req w =
     (case st_RouteConfig (w_st w) of
        None \<Rightarrow> (Inr None, w)
      | Some rc \<Rightarrow>
          (if rc_AuthorizationHeaderRequired rc \<noteq> [] then
             (case extractCredential (hd_val (rq_Headers req) ''Authorization'')
                     (rc_AuthorizationHeaderRequired rc) of
                (credential, reason) \<Rightarrow>
                  if credential = [] then handleAuthFailure cfg req reason w else (Inr None, w))
           else if rc_AuthRequired rc = [] \<and> \<not> rc_APIKeyRequired rc then (Inr None, w)
           else
             (case route_credential cfg rc req of
                (verifier, credential, reason) \<Rightarrow>
                  if credential = [] then handleAuthFailure cfg req reason w
                  else
                    (case verify_credential verifier req credential of
                       Inl failure \<Rightarrow> handleAuthFailure cfg req failure w
                     | Inr p \<Rightarrow> (Inr None, w\<lparr>w_st := (w_st w)\<lparr>st_AuthPrincipal := Some p\<rparr>\<rparr>)))))"

section \<open>Referrer\<close>

definition referrerApplies :: "RouteConfig list \<Rightarrow> bool" where
  "referrerApplies routes = anyRoute routes (\<lambda>rc. rc_RequireReferrer rc \<noteq> [])"

definition normalizeAllowedReferrerDomain :: "check_env \<Rightarrow> string \<Rightarrow> string" where
  "normalizeAllowedReferrerDomain env entry =
     (case (if contains_sub entry ''://'' then en_urlHost env entry else None) of
        Some host \<Rightarrow> lower_ascii host
      | None \<Rightarrow> cut_before (lower_ascii entry) CHR ''/'')"

definition isReferrerDomainAllowed :: "check_env \<Rightarrow> string \<Rightarrow> string list \<Rightarrow> bool" where
  "isReferrerDomainAllowed env referrer allowedDomains =
     (case en_urlHost env referrer of
        None \<Rightarrow> False
      | Some host \<Rightarrow>
          list_ex (\<lambda>d. let normalized = normalizeAllowedReferrerDomain env d in
                       lower_ascii host = normalized \<or> has_suffix (lower_ascii host) (CHR ''.'' # normalized))
            allowedDomains)"

definition referrerCheck ::
  "check_env \<Rightarrow> SecurityConfig \<Rightarrow> guardRequest \<Rightarrow> ('q, 'r) world \<Rightarrow> ('q, 'r) outcome" where
  "referrerCheck env cfg req w =
     (case st_RouteConfig (w_st w) of
        None \<Rightarrow> (Inr None, w)
      | Some rc \<Rightarrow>
          (let referrer = hd_val (rq_Headers req) ''Referer'' in
           if rc_RequireReferrer rc = [] then (Inr None, w)
           else if referrer = [] then
             passive_or_block cfg req ''referrer'' ''Missing referrer header'' 403 ''Referrer required''
               (emitAccessDeniedEvent cfg ''Missing referrer header'' (stash ''Missing referrer header'' [] w))
           else if \<not> isReferrerDomainAllowed env referrer (rc_RequireReferrer rc) then
             (let reason = ''Invalid referrer: '' @ referrer in
              passive_or_block cfg req ''referrer'' reason 403 ''Invalid referrer''
                (emitAccessDeniedEvent cfg reason (stash reason [] w)))
           else (Inr None, w)))"

section \<open>Time windows\<close>

definition timeWindowApplies :: "RouteConfig list \<Rightarrow> bool" where
  "timeWindowApplies routes = anyRoute routes (\<lambda>rc. rc_TimeRestrictions rc \<noteq> [])"

text \<open>\<open>Format("15:04")\<close> of a minute of the day.\<close>

definition two_digits :: "nat \<Rightarrow> string" where
  "two_digits n = [dec_char (n div 10), dec_char (n mod 10)]"

definition clock_text :: "nat \<Rightarrow> string" where
  "clock_text minute = two_digits (minute div 60) @ '':'' @ two_digits (minute mod 60)"

definition checkTimeWindow :: "check_env \<Rightarrow> (string \<times> string) list \<Rightarrow> bool" where
  "checkTimeWindow env restrictions =
     (case (map_of restrictions ''start'', map_of restrictions ''end'') of
        (Some start, Some stop) \<Rightarrow>
          (let zone = (case map_of restrictions ''timezone'' of None \<Rightarrow> [] | Some z \<Rightarrow> z);
               current = clock_text (en_minute env zone)
           in if start > stop then current \<ge> start \<or> current \<le> stop
              else start \<le> current \<and> current \<le> stop)
      | _ \<Rightarrow> True)"

definition timeWindowCheck ::
  "check_env \<Rightarrow> SecurityConfig \<Rightarrow> guardRequest \<Rightarrow> ('q, 'r) world \<Rightarrow> ('q, 'r) outcome" where
  "timeWindowCheck env cfg req w =
     (case st_RouteConfig (w_st w) of
        None \<Rightarrow> (Inr None, w)
      | Some rc \<Rightarrow>
          (if rc_TimeRestrictions rc \<noteq> [] \<and> \<not> checkTimeWindow env (rc_TimeRestrictions rc) then
             passive_or_block cfg req ''time_window'' ''Access outside allowed time window'' 403
               ''Access not allowed at this time'' (stash ''Access outside allowed time window'' [] w)
           else (Inr None, w)))"

section \<open>User agents\<close>

definition userAgentApplies :: "SecurityConfig \<Rightarrow> RouteConfig list \<Rightarrow> bool" where
  "userAgentApplies cfg routes \<longleftrightarrow>
     sc_BlockedUserAgents cfg \<noteq> [] \<or> sc_EnableDynamicRules cfg
     \<or> anyRoute routes (\<lambda>rc. rc_BlockedUserAgents rc \<noteq> [])"

definition maxUserAgentMatchLength :: nat where
  "maxUserAgentMatchLength = 512"

definition userAgentMatchesBlockedPattern :: "check_env \<Rightarrow> string \<Rightarrow> string list \<Rightarrow> bool" where
  "userAgentMatchesBlockedPattern env userAgent patterns =
     list_ex (\<lambda>p. en_regex env p (take maxUserAgentMatchLength userAgent) = Some True) patterns"

definition userAgentCheck ::
  "check_env \<Rightarrow> SecurityConfig \<Rightarrow> guardRequest \<Rightarrow> ('q, 'r) world \<Rightarrow> ('q, 'r) outcome" where
  "userAgentCheck env cfg req w =
     (if st_IsWhitelisted (w_st w) \<or> st_IsExempt (w_st w) then (Inr None, w)
      else
        (let routePatterns = (case st_RouteConfig (w_st w) of None \<Rightarrow> [] | Some rc \<Rightarrow> rc_BlockedUserAgents rc);
             userAgent = hd_val (rq_Headers req) ''User-Agent'';
             redacted = en_redact env userAgent;
             reason = ''Blocked user agent: '' @ redacted
         in if \<not> userAgentMatchesBlockedPattern env userAgent routePatterns
               \<and> \<not> userAgentMatchesBlockedPattern env userAgent (sc_BlockedUserAgents cfg)
            then (Inr None, w)
            else
              passive_or_block cfg req ''user_agent'' reason 403 ''User-Agent not allowed''
                ((if routePatterns \<noteq> []
                  then emitAccessDeniedEvent cfg (''User agent '' @ quoted redacted @ '' blocked'')
                  else emitBusEvent cfg ''user_agent_blocked'' (blockedOrLoggedAction (sc_PassiveMode cfg))
                         (''User agent '' @ quoted redacted @ '' in global blocklist''))
                   (stash reason [] w))))"

section \<open>Custom checks\<close>

definition customValidatorsApplies :: "RouteConfig list \<Rightarrow> bool" where
  "customValidatorsApplies routes = anyRoute routes (\<lambda>rc. rc_CustomValidators rc \<noteq> [])"

fun run_validators ::
  "SecurityConfig \<Rightarrow> guardRequest \<Rightarrow> (guardRequest \<Rightarrow> Response option) list \<Rightarrow> ('q, 'r) world
     \<Rightarrow> ('q, 'r) outcome" where
  "run_validators cfg req [] w = (Inr None, w)"
| "run_validators cfg req (validator # vs) w =
     (case validator req of
        None \<Rightarrow> run_validators cfg req vs w
      | Some resp \<Rightarrow>
          (let w1 = emitAccessDeniedEvent cfg ''Custom validation failed''
                      (dispatchBlockHook cfg req ''custom_validators'' ''Custom validation failed'' [] w)
           in if \<not> sc_PassiveMode cfg
              then (Inr (Some resp),
                    fireBlockHook (has_hook (Some cfg)) req ''custom_validators'' ''Custom validation failed''
                      ''custom_validation'' False (rp_StatusCode resp) w1)
              else run_validators cfg req vs w1))"

definition customValidatorsCheck ::
  "SecurityConfig \<Rightarrow> guardRequest \<Rightarrow> ('q, 'r) world \<Rightarrow> ('q, 'r) outcome" where
  "customValidatorsCheck cfg req w =
     (case st_RouteConfig (w_st w) of
        None \<Rightarrow> (Inr None, w)
      | Some rc \<Rightarrow> run_validators cfg req (rc_CustomValidators rc) w)"

definition customRequestCheck ::
  "SecurityConfig \<Rightarrow> guardRequest \<Rightarrow> ('q, 'r) world \<Rightarrow> ('q, 'r) outcome" where
  "customRequestCheck cfg req w =
     (case sc_CustomRequestCheck cfg of
        None \<Rightarrow> (Inr None, w)
      | Some f \<Rightarrow>
          (case f req of
             None \<Rightarrow> (Inr None, w)
           | Some resp \<Rightarrow>
               (let w1 = emitBusEvent cfg ''custom_request_check'' (blockedOrLoggedAction (sc_PassiveMode cfg))
                           ''Custom request check returned blocking response'' w in
                if sc_PassiveMode cfg then (Inr None, w1)
                else (Inr (Some (applyModifier (sc_CustomResponseModifier cfg) resp)), w1))))"

text \<open>The request log writes a log line only.\<close>

definition requestLoggingCheck :: "guardRequest \<Rightarrow> ('q, 'r) world \<Rightarrow> ('q, 'r) outcome" where
  "requestLoggingCheck req w = (Inr None, w)"

section \<open>Cloud providers\<close>

definition cloudBlockingEnabled :: "SecurityConfig \<Rightarrow> bool" where
  "cloudBlockingEnabled cfg \<longleftrightarrow> sc_BlockCloudProviders cfg \<noteq> [] \<or> sc_EnableDynamicRules cfg"

definition cloudApplies :: "SecurityConfig \<Rightarrow> RouteConfig list \<Rightarrow> bool" where
  "cloudApplies cfg routes \<longleftrightarrow>
     cloudBlockingEnabled cfg \<or> anyRoute routes (\<lambda>rc. rc_BlockCloudProviders rc \<noteq> [])"

definition routeCloudsOverride :: "RouteConfig option \<Rightarrow> bool" where
  "routeCloudsOverride route = (case route of None \<Rightarrow> False | Some rc \<Rightarrow> rc_BlockCloudProviders rc \<noteq> [])"

definition cloudProvidersToCheck :: "RouteConfig option \<Rightarrow> string list \<Rightarrow> string list" where
  "cloudProvidersToCheck route global =
     (case route of
        None \<Rightarrow> global
      | Some rc \<Rightarrow> if rc_BlockCloudProviders rc \<noteq> [] then rc_BlockCloudProviders rc else global)"

text \<open>\<open>ScheduleRefresh\<close> starts a refresh unless one is in flight.\<close>

definition ScheduleRefresh :: "cloud_state \<Rightarrow> bool \<times> cloud_state" where
  "ScheduleRefresh cs =
     (if cs_inflight cs then (False, cs)
      else (True, cs\<lparr>cs_inflight := True, cs_scheduled := cs_scheduled cs + 1\<rparr>))"

definition cloudIPRefreshCheck ::
  "check_env \<Rightarrow> SecurityConfig \<Rightarrow> guardRequest \<Rightarrow> ('q, 'r) world \<Rightarrow> ('q, 'r) outcome" where
  "cloudIPRefreshCheck env cfg req w =
     (let providers = cloudProvidersToCheck (st_RouteConfig (w_st w)) (sc_BlockCloudProviders cfg);
          cs = w_cloud w; previous = cs_stamp cs
      in if providers = [] \<or> en_nowUnix env - previous \<le> sc_CloudIPRefreshInterval cfg then (Inr None, w)
         else
           (case ScheduleRefresh (cs\<lparr>cs_stamp := en_nowUnix env\<rparr>) of
              (scheduled, cs1) \<Rightarrow>
                (Inr None, w\<lparr>w_cloud := (if scheduled then cs1 else cs1\<lparr>cs_stamp := previous\<rparr>)\<rparr>)))"

definition emitCloudBlockEvents ::
  "check_env \<Rightarrow> SecurityConfig \<Rightarrow> string \<Rightarrow> string list \<Rightarrow> RouteConfig option \<Rightarrow> ('q, 'r) world \<Rightarrow> ('q, 'r) world" where
  "emitCloudBlockEvents env cfg ip providers route w =
     (if \<not> sc_bus cfg then w
      else
        (let w1 = (case en_cloudDetails env ip providers of
                     None \<Rightarrow> w
                   | Some (provider, _) \<Rightarrow>
                       w\<lparr>w_handler := w_handler w @
                         [\<lparr>he_type = ''cloud_blocked'', he_handler = ''cloud'', he_ip = ip,
                           he_action = blockedOrLoggedAction (sc_PassiveMode cfg),
                           he_reason = ''IP belongs to blocked cloud provider: '' @ provider, he_duration = None\<rparr>]\<rparr>)
         in if routeCloudsOverride route
            then emitAccessDeniedEvent cfg (''Cloud provider IP '' @ ip @ '' blocked'') w1 else w1))"

definition cloudProviderCheck ::
  "check_env \<Rightarrow> SecurityConfig \<Rightarrow> guardRequest \<Rightarrow> ('q, 'r) world \<Rightarrow> ('q, 'r) outcome" where
  "cloudProviderCheck env cfg req w =
     (let st = w_st w; route = st_RouteConfig st; ip = resolveClientIP req st;
          providers = cloudProvidersToCheck route (sc_BlockCloudProviders cfg)
      in if st_IsWhitelisted st \<or> (st_IsExempt st \<and> routeCloudsOverride route) \<or> ip = []
            \<or> ShouldBypassCheck ''clouds'' route \<or> providers = [] \<or> \<not> en_isCloud env ip providers
         then (Inr None, w)
         else
           (let w1 = emitCloudBlockEvents env cfg ip providers route
                       (dispatchBlockHook cfg req ''cloud_provider'' (''Blocked cloud provider IP: '' @ ip) [] w)
            in if \<not> sc_PassiveMode cfg
               then (Inr (Some (createErrorResponse cfg 403 ''Cloud provider IP not allowed'')), w1)
               else (Inr None, w1)))"

section \<open>What the emitters change\<close>

text \<open>\<open>world_simps\<close>: the hook list and the request state after each emitter.\<close>

named_theorems world_simps

lemma emitBusEvent_hooks [world_simps]: "w_hooks (emitBusEvent cfg t a r w) = w_hooks w"
  "w_st (emitBusEvent cfg t a r w) = w_st w" "w_ban (emitBusEvent cfg t a r w) = w_ban w"
  "w_counts (emitBusEvent cfg t a r w) = w_counts w"
  by (simp_all add: emitBusEvent_def)

lemma emitAccessDeniedEvent_hooks [world_simps]: "w_hooks (emitAccessDeniedEvent cfg r w) = w_hooks w"
  "w_st (emitAccessDeniedEvent cfg r w) = w_st w"
  by (simp_all add: emitAccessDeniedEvent_def world_simps)

lemma stash_hooks [world_simps]: "w_hooks (stash r t w) = w_hooks w"
  "w_st (stash r t w) = stashBlock r t (w_st w)" "w_ban (stash r t w) = w_ban w"
  "w_counts (stash r t w) = w_counts w"
  by (simp_all add: stash_def)

lemma SendHTTPSViolationEvent_hooks [world_simps]: "w_hooks (SendHTTPSViolationEvent cfg rt w) = w_hooks w"
  by (simp add: SendHTTPSViolationEvent_def world_simps)

lemma fireBlockHook_excluded [world_simps]:
  "name0 \<in> set onBlockExcludedCheckNames \<Longrightarrow> fireBlockHook h req name0 r t p s w = w"
  by (simp add: fireBlockHook_def)

lemma dispatch_active_hooks [world_simps]:
  "\<not> sc_PassiveMode cfg \<Longrightarrow> w_hooks (dispatchBlockHook cfg req n r t w) = w_hooks w"
  by (simp add: dispatchBlockHook_def world_simps)

lemma emitCloudBlockEvents_hooks [world_simps]: "w_hooks (emitCloudBlockEvents env cfg ip ps rt w) = w_hooks w"
  by (auto simp: emitCloudBlockEvents_def Let_def world_simps split: option.splits)

section \<open>Active and passive checks\<close>

text \<open>A check that leaves the hook to the pipeline, and one that never answers with a response.\<close>

definition keeps_hooks :: "('q, 'r) world \<Rightarrow> ('q, 'r) outcome \<Rightarrow> bool" where
  "keeps_hooks w r \<longleftrightarrow> w_hooks (snd r) = w_hooks w"

definition no_response :: "('q, 'r) outcome \<Rightarrow> bool" where
  "no_response r \<longleftrightarrow> (case fst r of Inl _ \<Rightarrow> True | Inr resp \<Rightarrow> resp = None)"

named_theorems check_facts

lemma passive_or_block_active [check_facts]:
  "\<not> sc_PassiveMode cfg \<Longrightarrow> keeps_hooks w (passive_or_block cfg req n r s m w1) \<longleftrightarrow> w_hooks w1 = w_hooks w"
  by (simp add: passive_or_block_def keeps_hooks_def)

lemma passive_or_block_passive [check_facts]:
  "sc_PassiveMode cfg \<Longrightarrow> no_response (passive_or_block cfg req n r s m w)"
  by (simp add: passive_or_block_def no_response_def)

lemma keeps_hooks_pair [check_facts]: "keeps_hooks w (r, w1) \<longleftrightarrow> w_hooks w1 = w_hooks w"
  by (simp add: keeps_hooks_def)

lemma no_response_pair [check_facts]: "no_response (Inl e, w)" "no_response (Inr None, w)"
  "\<not> no_response (Inr (Some r), w)"
  by (simp_all add: no_response_def)

lemmas guard_check_defs =
  routeConfigCheck_def emergencyModeCheck_def httpsEnforcementCheck_def requestSizeContentCheck_def
  requiredHeadersCheck_def requiredHeaders_report_def authenticationCheck_def handleAuthFailure_def
  referrerCheck_def timeWindowCheck_def userAgentCheck_def requestLoggingCheck_def
  customRequestCheck_def cloudIPRefreshCheck_def cloudProviderCheck_def

lemma route_check_active:
  assumes "\<not> sc_PassiveMode cfg"
  shows "keeps_hooks w (routeConfigCheck cfg rg req w)" "keeps_hooks w (emergencyModeCheck cfg req w)"
    "keeps_hooks w (httpsEnforcementCheck cfg req w)" "keeps_hooks w (requestLoggingCheck req w)"
    "keeps_hooks w (requiredHeadersCheck cfg req w)" "keeps_hooks w (timeWindowCheck env cfg req w)"
  using assms by (auto simp: guard_check_defs Let_def check_facts world_simps split: option.splits)

lemma size_check_active:
  assumes "\<not> sc_PassiveMode cfg" shows "keeps_hooks w (requestSizeContentCheck cfg req w)"
  using assms by (auto simp: guard_check_defs Let_def check_facts world_simps split: option.splits sum.splits)

lemma auth_check_active:
  assumes "\<not> sc_PassiveMode cfg" shows "keeps_hooks w (authenticationCheck cfg req w)"
  using assms
  by (auto simp: guard_check_defs Let_def check_facts world_simps split: option.splits sum.splits prod.splits)

lemma referrer_check_active:
  assumes "\<not> sc_PassiveMode cfg" shows "keeps_hooks w (referrerCheck env cfg req w)"
  using assms by (auto simp: guard_check_defs Let_def check_facts world_simps split: option.splits)

lemma agent_check_active:
  assumes "\<not> sc_PassiveMode cfg" shows "keeps_hooks w (userAgentCheck env cfg req w)"
  using assms by (simp add: guard_check_defs Let_def check_facts world_simps)

lemma validators_active:
  assumes "\<not> sc_PassiveMode cfg" shows "keeps_hooks w (run_validators cfg req vs w)"
  using assms
  by (induction vs) (auto simp: Let_def check_facts world_simps onBlockExcludedCheckNames_def split: option.splits)

lemma custom_check_active:
  assumes "\<not> sc_PassiveMode cfg"
  shows "keeps_hooks w (customValidatorsCheck cfg req w)" "keeps_hooks w (customRequestCheck cfg req w)"
  using assms validators_active[OF assms]
  by (auto simp: customValidatorsCheck_def customRequestCheck_def Let_def check_facts world_simps split: option.splits)

lemma cloud_check_active:
  assumes "\<not> sc_PassiveMode cfg"
  shows "keeps_hooks w (cloudIPRefreshCheck env cfg req w)" "keeps_hooks w (cloudProviderCheck env cfg req w)"
  using assms by (auto simp: guard_check_defs Let_def check_facts world_simps split: option.splits prod.splits)

lemmas checks_active =
  route_check_active size_check_active auth_check_active referrer_check_active agent_check_active
  custom_check_active cloud_check_active

lemma route_check_passive:
  assumes "sc_PassiveMode cfg"
  shows "no_response (routeConfigCheck cfg rg req w)" "no_response (emergencyModeCheck cfg req w)"
    "no_response (httpsEnforcementCheck cfg req w)" "no_response (requestLoggingCheck req w)"
    "no_response (requiredHeadersCheck cfg req w)" "no_response (timeWindowCheck env cfg req w)"
  using assms by (auto simp: guard_check_defs Let_def check_facts split: option.splits)

lemma size_check_passive:
  assumes "sc_PassiveMode cfg" shows "no_response (requestSizeContentCheck cfg req w)"
  using assms by (auto simp: guard_check_defs Let_def check_facts split: option.splits sum.splits)

lemma auth_check_passive:
  assumes "sc_PassiveMode cfg" shows "no_response (authenticationCheck cfg req w)"
  using assms by (auto simp: guard_check_defs Let_def check_facts split: option.splits sum.splits prod.splits)

lemma referrer_check_passive:
  assumes "sc_PassiveMode cfg" shows "no_response (referrerCheck env cfg req w)"
  using assms by (auto simp: guard_check_defs Let_def check_facts split: option.splits)

lemma agent_check_passive:
  assumes "sc_PassiveMode cfg" shows "no_response (userAgentCheck env cfg req w)"
  using assms by (simp add: guard_check_defs Let_def check_facts)

lemma validators_passive:
  assumes "sc_PassiveMode cfg" shows "no_response (run_validators cfg req vs w)"
  using assms by (induction vs arbitrary: w) (auto simp: Let_def check_facts split: option.splits)

lemma custom_check_passive:
  assumes "sc_PassiveMode cfg"
  shows "no_response (customValidatorsCheck cfg req w)" "no_response (customRequestCheck cfg req w)"
  using assms validators_passive[OF assms]
  by (auto simp: customValidatorsCheck_def customRequestCheck_def Let_def check_facts split: option.splits)

lemma cloud_check_passive:
  assumes "sc_PassiveMode cfg"
  shows "no_response (cloudIPRefreshCheck env cfg req w)" "no_response (cloudProviderCheck env cfg req w)"
  using assms by (auto simp: guard_check_defs Let_def check_facts split: option.splits prod.splits)

lemmas checks_passive =
  route_check_passive size_check_passive auth_check_passive referrer_check_passive agent_check_passive
  custom_check_passive cloud_check_passive

end
