(* ===== verification/Access.thy ===== *)
theory Access
  imports Checks
begin

text \<open>
  The checks of \<open>guardcore/pipeline.go\<close> that share the ban manager, the rate limiter and the counters of
  suspicious requests: address and country rules with the escalation of a denied attack, rate limits,
  and suspicious activity. The counters (\<open>suspiciousCountStore\<close>) are an association list from address to
  categories. The rate limiter of the world carries its own link to the ban manager, which the check
  used here neither reads nor writes.
\<close>

section \<open>Counters of suspicious requests\<close>

definition per_ip :: "counts \<Rightarrow> string \<Rightarrow> (string \<times> int) list" where
  "per_ip store ip = (case map_of store ip of None \<Rightarrow> [] | Some m \<Rightarrow> m)"

definition countFor :: "counts \<Rightarrow> string \<Rightarrow> string \<Rightarrow> int" where
  "countFor store ip category =
     (case map_of (per_ip store ip) category of None \<Rightarrow> 0 | Some n \<Rightarrow> n)"

definition totalCountFor :: "counts \<Rightarrow> string \<Rightarrow> int" where
  "totalCountFor store ip = sum_list (map snd (per_ip store ip))"

definition bump :: "string \<Rightarrow> (string \<times> int) list \<Rightarrow> (string \<times> int) list" where
  "bump category m = AList.update category ((case map_of m category of None \<Rightarrow> 0 | Some n \<Rightarrow> n) + 1) m"

definition recordCategories :: "string \<Rightarrow> string list \<Rightarrow> counts \<Rightarrow> counts" where
  "recordCategories ip categories store = AList.update ip (fold bump categories (per_ip store ip)) store"

section \<open>Country rules\<close>

datatype countryVerdict = countryNoRules | countryDenied | countryAllowed

definition containsCountry :: "string list \<Rightarrow> string \<Rightarrow> bool" where
  "containsCountry entries code = list_ex (\<lambda>e. e = code) entries"

definition routeCountryAccessDetail ::
  "string \<Rightarrow> RouteConfig option \<Rightarrow> (string \<Rightarrow> string option) option \<Rightarrow> countryVerdict \<times> string \<times> string" where
  "routeCountryAccessDetail ip route resolver =
     (case (resolver, route) of
        (Some f, Some rc) \<Rightarrow>
          (let code = f ip in
           if rc_BlockedCountries rc \<noteq> []
              \<and> (case code of None \<Rightarrow> False | Some c \<Rightarrow> c \<noteq> [] \<and> containsCountry (rc_BlockedCountries rc) c)
           then (countryDenied, the code, ''country_blacklist'')
           else if rc_WhitelistCountries rc \<noteq> [] then
             (case code of
                None \<Rightarrow> (countryDenied, [], [])
              | Some c \<Rightarrow>
                  (if c = [] then (countryDenied, [], [])
                   else if containsCountry (rc_WhitelistCountries rc) c then (countryAllowed, c, [])
                   else (countryDenied, c, ''country_whitelist'')))
           else (countryNoRules, [], []))
      | _ \<Rightarrow> (countryNoRules, [], []))"

definition routeCountryAccess ::
  "string \<Rightarrow> RouteConfig option \<Rightarrow> (string \<Rightarrow> string option) option \<Rightarrow> countryVerdict" where
  "routeCountryAccess ip route resolver = fst (routeCountryAccessDetail ip route resolver)"

definition genericListBlockReason :: "string \<Rightarrow> string" where
  "genericListBlockReason ip = ''IP '' @ ip @ '' not in global allowlist/blocklist''"

text \<open>The reason of a block, or \<open>None\<close>.\<close>

definition globalCountryVerdict :: "SecurityConfig \<Rightarrow> string \<Rightarrow> string option" where
  "globalCountryVerdict cfg ip =
     (let blocked = sc_BlockedCountries cfg; allowed = sc_WhitelistCountries cfg in
      if blocked = [] \<and> allowed = [] then None
      else
        (case sc_GeoIPHandler cfg of
           None \<Rightarrow> None
         | Some resolver \<Rightarrow>
             (if (case ParseAddr ip of None \<Rightarrow> False | Some a \<Rightarrow> addr_loopback a) then None
              else
                (case resolver ip of
                   None \<Rightarrow> if allowed \<noteq> [] then Some (genericListBlockReason ip) else None
                 | Some country \<Rightarrow>
                     (if allowed \<noteq> [] then
                        (if containsCountry allowed country then None
                         else Some (''IP from blocked country: '' @ country))
                      else if containsCountry blocked country
                           then Some (''IP from blocked country: '' @ country)
                           else None)))))"

section \<open>Escalation\<close>

definition scan_of :: "check_env \<Rightarrow> guardRequest \<Rightarrow> RequestState \<Rightarrow> scan_request" where
  "scan_of env req st =
     \<lparr>sq_path = gr_Path req, sq_query = QueryParams req, sq_headers = rq_Headers req, sq_body = en_body env req,
      sq_clientIP = resolveClientIP req st\<rparr>"

definition detect_request ::
  "check_env \<Rightarrow> SecurityConfig \<Rightarrow> guardRequest \<Rightarrow> RequestState \<Rightarrow> string list \<times> string" where
  "detect_request env cfg req st =
     detectThreat (en_detect env) (newDetectionScanBudget (sc_MaxScanValues cfg) (sc_MaxScanChars cfg))
       (resolveDetectionExclusions (Some (sc_Detection cfg)) (map_option rc_Detection (st_RouteConfig st)))
       (scan_of env req st)"

definition category_ban :: "SecurityConfig \<Rightarrow> string \<Rightarrow> int \<times> int" where
  "category_ban cfg category =
     (case map_of (sc_ThreatBanConfig cfg) category of
        None \<Rightarrow> (sc_AutoBanThreshold cfg, sc_AutoBanDuration cfg)
      | Some e \<Rightarrow> (tb_Threshold e, tb_Duration e))"

text \<open>A ban through the manager of the world. The bool of the source is the sum's right side.\<close>

definition ban_call ::
  "check_env \<Rightarrow> string \<Rightarrow> int \<Rightarrow> string \<Rightarrow> 'r IPBanManager \<Rightarrow> ('q, 'r) world \<Rightarrow> (go_error + bool) \<times> ('q, 'r) world" where
  "ban_call env ip duration reason b w =
     (case Ban (rl_float (en_rl env)) ip duration reason (en_now env) b of
        (r, b1) \<Rightarrow> (r, w\<lparr>w_ban := Some b1\<rparr>))"

definition ban_failed :: "SecurityConfig \<Rightarrow> string \<Rightarrow> ('q, 'r) world \<Rightarrow> ('q, 'r) world" where
  "ban_failed cfg ip w =
     emitBusEvent cfg ''ip_ban_failed'' ''ban_not_applied'' (''Escalation ban failed for '' @ ip) w"

text \<open>\<open>applyThresholdBan\<close>: a panic of the manager, or the flags \<open>banned\<close> and \<open>failed\<close>.\<close>

definition ban_outcome ::
  "SecurityConfig \<Rightarrow> guardRequest \<Rightarrow> string \<Rightarrow> string \<Rightarrow> (go_error + bool) \<times> ('q, 'r) world
     \<Rightarrow> (go_error + bool \<times> bool) \<times> ('q, 'r) world" where
  "ban_outcome cfg req ip reason r =
     (case r of
        (Inl Panic, w) \<Rightarrow> (Inl Panic, w)
      | (Inl _, w) \<Rightarrow> (Inr (False, True), ban_failed cfg ip w)
      | (Inr False, w) \<Rightarrow> (Inr (False, False), w)
      | (Inr True, w) \<Rightarrow> (Inr (True, False), dispatchBlockHook cfg req ''ip_security'' reason [] w))"

definition total_ban ::
  "check_env \<Rightarrow> SecurityConfig \<Rightarrow> guardRequest \<Rightarrow> string \<Rightarrow> string \<Rightarrow> 'r IPBanManager \<Rightarrow> ('q, 'r) world
     \<Rightarrow> (go_error + bool \<times> bool) \<times> ('q, 'r) world" where
  "total_ban env cfg req ip triggerInfo b w =
     (if totalCountFor (w_counts w) ip < sc_AutoBanThreshold cfg then (Inr (False, False), w)
      else ban_outcome cfg req ip
             (''IP banned due to suspicious activity: '' @ ip @ '' - '' @ triggerInfo)
             (ban_call env ip (sc_AutoBanDuration cfg) ''penetration_attempt'' b w))"

fun category_bans ::
  "check_env \<Rightarrow> SecurityConfig \<Rightarrow> guardRequest \<Rightarrow> string \<Rightarrow> string \<Rightarrow> string list \<Rightarrow> 'r IPBanManager \<Rightarrow> ('q, 'r) world
     \<Rightarrow> (go_error + bool \<times> bool) \<times> ('q, 'r) world" where
  "category_bans env cfg req ip triggerInfo [] b w = total_ban env cfg req ip triggerInfo b w"
| "category_bans env cfg req ip triggerInfo (category # rest) b w =
     (if countFor (w_counts w) ip category < fst (category_ban cfg category)
      then category_bans env cfg req ip triggerInfo rest b w
      else ban_outcome cfg req ip
             (''IP banned due to '' @ category @ '' threshold: '' @ ip @ '' - '' @ triggerInfo)
             (ban_call env ip (snd (category_ban cfg category)) (''penetration:'' @ category) b w))"

definition applyThresholdBan ::
  "check_env \<Rightarrow> SecurityConfig \<Rightarrow> guardRequest \<Rightarrow> string \<Rightarrow> string list \<Rightarrow> string \<Rightarrow> ('q, 'r) world
     \<Rightarrow> (go_error + bool \<times> bool) \<times> ('q, 'r) world" where
  "applyThresholdBan env cfg req ip categories triggerInfo w =
     (case (if sc_EnableIPBanning cfg then w_ban w else None) of
        None \<Rightarrow> (Inr (False, False), w)
      | Some b \<Rightarrow> category_bans env cfg req ip triggerInfo categories b w)"

definition escalateIdentityViolation ::
  "check_env \<Rightarrow> SecurityConfig \<Rightarrow> guardRequest \<Rightarrow> string \<Rightarrow> ('q, 'r) world \<Rightarrow> go_error option \<times> ('q, 'r) world" where
  "escalateIdentityViolation env cfg req ip w =
     (case detect_request env cfg req (w_st w) of
        (categories, triggerInfo) \<Rightarrow>
          if ip = [] \<or> st_IsWhitelisted (w_st w) \<or> categories = [] \<or> triggerInfo = ''disabled_by_decorator''
          then (None, w)
          else
            (case applyThresholdBan env cfg req ip categories triggerInfo
                    (w\<lparr>w_counts := recordCategories ip categories (w_counts w)\<rparr>) of
               (Inl e, w1) \<Rightarrow> (Some e, w1)
             | (Inr (banned, failed), w1) \<Rightarrow>
                 (None,
                  if failed then w1
                  else emitBusEvent cfg ''penetration_attempt'' (if banned then ''banned'' else ''tracked'')
                         (''Identity violation escalated: '' @ triggerInfo) w1)))"

section \<open>The address check\<close>

definition fireGeoEvent :: "SecurityConfig \<Rightarrow> GeoEvent \<Rightarrow> ('q, 'r) world \<Rightarrow> ('q, 'r) world" where
  "fireGeoEvent cfg ev w = (if sc_OnGeoEvent cfg \<or> sc_bus cfg then w\<lparr>w_geo := w_geo w @ [ev]\<rparr> else w)"

definition deny ::
  "check_env \<Rightarrow> SecurityConfig \<Rightarrow> guardRequest \<Rightarrow> string \<Rightarrow> string \<Rightarrow> ('q, 'r) world \<Rightarrow> ('q, 'r) outcome" where
  "deny env cfg req ip accessReason w =
     (let reason = ''IP not allowed: '' @ ip @ '' - '' @ accessReason;
          w1 = emitBusEvent cfg ''ip_blocked'' (blockedOrLoggedAction (sc_PassiveMode cfg)) accessReason
                 (stash reason [] w)
      in if sc_PassiveMode cfg then (Inr None, firePassiveBlockHook cfg req ''ip_security'' reason [] w1)
         else
           (case escalateIdentityViolation env cfg req ip w1 of
              (Some e, w2) \<Rightarrow> (Inl e, w2)
            | (None, w2) \<Rightarrow> (Inr (Some (createErrorResponse cfg 403 ''Forbidden'')), w2)))"

definition denyRoute ::
  "SecurityConfig \<Rightarrow> guardRequest \<Rightarrow> string \<Rightarrow> ('q, 'r) world \<Rightarrow> ('q, 'r) outcome" where
  "denyRoute cfg req ip w =
     (let reason = ''IP not allowed by route config: '' @ ip in
      passive_or_block cfg req ''ip_security'' reason 403 ''Forbidden'' (stash reason [] w))"

definition set_flags :: "bool \<Rightarrow> bool \<Rightarrow> ('q, 'r) world \<Rightarrow> ('q, 'r) world" where
  "set_flags whitelisted exempt w =
     w\<lparr>w_st := (w_st w)\<lparr>st_IsWhitelisted := whitelisted, st_IsExempt := exempt\<rparr>\<rparr>"

definition checkGlobal ::
  "check_env \<Rightarrow> SecurityConfig \<Rightarrow> guardRequest \<Rightarrow> string \<Rightarrow> bool \<Rightarrow> bool \<Rightarrow> ('q, 'r) world \<Rightarrow> ('q, 'r) outcome" where
  "checkGlobal env cfg req ip routeOverridesIPLists skipCountries w =
     (let exempt = \<not> routeOverridesIPLists \<and> ipMatchesList ip (sc_ExemptIPs cfg);
          w1 = (if sc_Whitelist cfg \<noteq> [] then set_flags (\<not> routeOverridesIPLists) exempt w else w);
          skip = skipCountries \<or> sc_Whitelist cfg \<noteq> []
      in if sc_Whitelist cfg \<noteq> [] \<and> \<not> ipMatchesList ip (sc_Whitelist cfg)
         then deny env cfg req ip (genericListBlockReason ip) w
         else if sc_Blacklist cfg \<noteq> [] \<and> ipMatchesList ip (sc_Blacklist cfg)
         then deny env cfg req ip (genericListBlockReason ip) w1
         else
           (case (if skip then None else globalCountryVerdict cfg ip) of
              Some reason \<Rightarrow> deny env cfg req ip reason w1
            | None \<Rightarrow> (Inr None, w1\<lparr>w_st := (w_st w1)\<lparr>st_IsExempt := exempt\<rparr>\<rparr>)))"

definition classifyRouteIPDenial ::
  "RouteConfig \<Rightarrow> (string \<Rightarrow> string option) option \<Rightarrow> string \<Rightarrow> string \<times> string" where
  "classifyRouteIPDenial rc resolver ip =
     (if routeCountryAccess ip (Some rc) resolver \<noteq> countryDenied
         \<or> rc_IPWhitelist rc \<noteq> [] \<or> rc_IPBlacklist rc \<noteq> []
      then (''access_control'', ''ip_restriction'')
      else if rc_BlockedCountries rc \<noteq> []
              \<and> (case Option.bind resolver (\<lambda>f. f ip) of
                   None \<Rightarrow> False | Some c \<Rightarrow> c \<noteq> [] \<and> containsCountry (rc_BlockedCountries rc) c)
      then (''block_countries'', ''country_restriction'')
      else (''allow_countries'', ''country_restriction''))"

definition route_lists_block :: "RouteConfig \<Rightarrow> string \<Rightarrow> bool" where
  "route_lists_block rc ip \<longleftrightarrow>
     (rc_IPBlacklist rc \<noteq> [] \<and> ipMatchesList ip (rc_IPBlacklist rc))
     \<or> (rc_IPWhitelist rc \<noteq> [] \<and> \<not> ipMatchesList ip (rc_IPWhitelist rc))"

definition geo_event :: "string \<Rightarrow> string \<Rightarrow> string \<Rightarrow> string \<Rightarrow> string \<Rightarrow> (string \<times> string) option \<Rightarrow> GeoEvent" where
  "geo_event eventType ip reason country rule cl =
     \<lparr>ge_EventType = eventType, ge_IPAddress = ip, ge_Reason = reason, ge_Country = country,
      ge_RuleType = rule, ge_Classification = cl\<rparr>"

definition checkRouteIPAccess ::
  "SecurityConfig \<Rightarrow> guardRequest \<Rightarrow> string \<Rightarrow> RouteConfig \<Rightarrow> ('q, 'r) world \<Rightarrow> ('q, 'r) outcome" where
  "checkRouteIPAccess cfg req ip rc w =
     (case routeCountryAccessDetail ip (Some rc) (sc_GeoIPHandler cfg) of
        (cv, country, ruleType) \<Rightarrow>
          (let denied = (cv = countryDenied);
               reason = (if ruleType = ''country_whitelist'' then ''Country '' @ country @ '' not in allowed list''
                         else ''Country '' @ country @ '' is blocked'');
               w1 = (if denied then fireGeoEvent cfg (geo_event ''country_blocked'' ip reason country ruleType None) w
                     else w)
           in if denied \<or> route_lists_block rc ip
              then denyRoute cfg req ip
                     (fireGeoEvent cfg
                        (geo_event ''decorator_violation'' ip (''IP '' @ ip @ '' blocked'') [] []
                           (Some (classifyRouteIPDenial rc (sc_GeoIPHandler cfg) ip))) w1)
              else (Inr None, w1)))"

text \<open>The ban probe: not asked when the request bypasses it or there is no manager.\<close>

definition probe_ban ::
  "check_env \<Rightarrow> string \<Rightarrow> ('q, 'r) world \<Rightarrow> (go_error + bool) \<times> ('q, 'r) world" where
  "probe_ban env ip w0 =
     (let w = w0\<lparr>w_st := snd (HasBypass ''ip_ban'' (w_st w0))\<rparr> in
      case (if fst (HasBypass ''ip_ban'' (w_st w0)) then None else w_ban w) of
        None \<Rightarrow> (Inr False, w)
      | Some b \<Rightarrow>
          (case IsIPBanned (rl_float (en_rl env)) ip (en_now env) b of
             (r, b1) \<Rightarrow> (r, w\<lparr>w_ban := Some b1\<rparr>)))"

definition route_then_global ::
  "check_env \<Rightarrow> SecurityConfig \<Rightarrow> guardRequest \<Rightarrow> string \<Rightarrow> ('q, 'r) world \<Rightarrow> ('q, 'r) outcome" where
  "route_then_global env cfg req ip w =
     (case st_RouteConfig (w_st w) of
        None \<Rightarrow> checkGlobal env cfg req ip False False w
      | Some rc \<Rightarrow>
          (case checkRouteIPAccess cfg req ip rc w of
             (Inr None, w1) \<Rightarrow>
               checkGlobal env cfg req ip (rc_IPWhitelist rc \<noteq> [])
                 (routeCountryAccess ip (Some rc) (sc_GeoIPHandler cfg) = countryAllowed) w1
           | blocked \<Rightarrow> blocked))"

definition ipSecurityCheck ::
  "check_env \<Rightarrow> SecurityConfig \<Rightarrow> guardRequest \<Rightarrow> ('q, 'r) world \<Rightarrow> ('q, 'r) outcome" where
  "ipSecurityCheck env cfg req w0 =
     (let ip = resolveClientIP req (w_st w0) in
      if ip = [] then (Inr None, w0)
      else
        (case probe_ban env ip w0 of
           (Inl e, w) \<Rightarrow> (Inl e, w)
         | (Inr True, w) \<Rightarrow>
             (let reason = ''Banned IP attempted access: '' @ ip in
              passive_or_block cfg req ''ip_security'' reason 403 ''IP address banned''
                (emitBusEvent cfg ''ip_blocked'' (blockedOrLoggedAction (sc_PassiveMode cfg)) reason
                   (stash reason [] w)))
         | (Inr False, w) \<Rightarrow>
             (if st_ExclusionScoped (w_st w) then checkGlobal env cfg req ip False False w
              else if fst (HasBypass ''ip'' (w_st w)) then (Inr None, w)
              else route_then_global env cfg req ip w)))"

section \<open>Rate limits\<close>

definition routeRateConfigFrom :: "RouteConfig option \<Rightarrow> RouteRateConfig option" where
  "routeRateConfigFrom route =
     (case route of
        None \<Rightarrow> None
      | Some rc \<Rightarrow>
          (if rc_RateLimit rc = 0 then None
           else Some \<lparr>rrc_RateLimit = Some (rc_RateLimit rc),
                      rrc_RateLimitWindow = (if rc_RateLimitWindow rc \<noteq> 0 then Some (rc_RateLimitWindow rc) else None),
                      rrc_GeoRateLimits = rc_GeoRateLimits rc\<rparr>))"

definition emitRateLimitEvent ::
  "check_env \<Rightarrow> SecurityConfig \<Rightarrow> guardRequest \<Rightarrow> string \<Rightarrow> RateLimitOutcome \<Rightarrow> ('q, 'r) world \<Rightarrow> ('q, 'r) world" where
  "emitRateLimitEvent env cfg req ip oc w =
     (let w1 = (if sc_bus cfg
                then w\<lparr>w_handler := w_handler w @
                       [\<lparr>he_type = ''rate_limited'', he_handler = ''rate_limit'', he_ip = ip,
                         he_action = blockedOrLoggedAction (sc_PassiveMode cfg),
                         he_reason = ''Rate limit exceeded: '' @ dec_int (o_Count oc) @ '' requests in ''
                                     @ dec_int (sc_RateLimitWindow cfg) @ ''s window'', he_duration = None\<rparr>]\<rparr>
                else w);
          limits = dec_int (o_Limit oc) @ '' requests per '' @ dec_int (o_Window oc) @ ''s''
      in if o_Tier oc = ''endpoint''
         then emitBusEvent cfg ''dynamic_rule_violation'' (blockedOrLoggedAction (sc_PassiveMode cfg))
                (''Endpoint-specific rate limit exceeded: '' @ limits @ '' for '' @ en_redact env (gr_Path req)) w1
         else if o_Tier oc = ''route''
         then emitAccessDeniedEvent cfg (''Route-specific rate limit exceeded: '' @ limits) w1
         else if o_Tier oc = ''geo''
         then emitAccessDeniedEvent cfg
                (''Geo rate limit exceeded for '' @ (if o_Country oc = [] then ''unknown'' else o_Country oc)
                 @ '': '' @ limits) w1
         else w1)"

definition rateLimitCheck ::
  "check_env \<Rightarrow> SecurityConfig \<Rightarrow> guardRequest \<Rightarrow> ('q, 'r) world \<Rightarrow> ('q, 'r) outcome" where
  "rateLimitCheck env cfg req w0 =
     (let st = w_st w0; flagged = st_IsWhitelisted st \<or> st_IsExempt st;
          w = (if flagged then w0 else w0\<lparr>w_st := snd (HasBypass ''rate_limit'' st)\<rparr>);
          ip = resolveClientIP req (w_st w)
      in if flagged \<or> fst (HasBypass ''rate_limit'' st) \<or> ip = [] then (Inr None, w)
         else
           (case CheckRateLimit (en_rl env) ip (gr_Path req) (routeRateConfigFrom (st_RouteConfig (w_st w))) None
                   (en_tiers env) (w_rl w) of
              (Inl e, rl) \<Rightarrow> (Inl e, w\<lparr>w_rl := rl\<rparr>)
            | (Inr oc, rl) \<Rightarrow>
                (let w1 = w\<lparr>w_rl := rl\<rparr> in
                 if \<not> o_Blocked oc then (Inr None, w1)
                 else
                   (let reason = ''Rate limit exceeded for IP: '' @ ip @ '' ('' @ dec_int (o_Count oc)
                                 @ '' requests in '' @ dec_int (o_Window oc) @ ''s window)'';
                        w2 = emitRateLimitEvent env cfg req ip oc (stash reason [] w1)
                    in if sc_PassiveMode cfg
                       then (Inr None, firePassiveBlockHook cfg req ''rate_limit'' reason [] w2)
                       else (Inr (Some (SetHeader ''Retry-After'' (dec_int (o_Window oc))
                                          (createErrorResponse cfg 429 ''Too many requests''))), w2)))))"

section \<open>Suspicious activity\<close>

text \<open>\<open>registerViolations\<close>: whether a ban was applied, or the panic of the manager. A failed or refused
  ban goes on with the next category.\<close>

fun registerViolations ::
  "check_env \<Rightarrow> SecurityConfig \<Rightarrow> string \<Rightarrow> string list \<Rightarrow> ('q, 'r) world \<Rightarrow> (go_error + bool) \<times> ('q, 'r) world" where
  "registerViolations env cfg ip [] w = (Inr False, w)"
| "registerViolations env cfg ip (category # rest) w =
     (case (if sc_EnableIPBanning cfg then w_ban w else None) of
        None \<Rightarrow> (Inr False, w)
      | Some b \<Rightarrow>
          (if countFor (w_counts w) ip category < fst (category_ban cfg category)
           then registerViolations env cfg ip rest w
           else
             (case ban_call env ip (snd (category_ban cfg category)) (''penetration:'' @ category) b w of
                (Inl Panic, w1) \<Rightarrow> (Inl Panic, w1)
              | (Inl _, w1) \<Rightarrow> registerViolations env cfg ip rest (ban_failed cfg ip w1)
              | (Inr False, w1) \<Rightarrow> registerViolations env cfg ip rest w1
              | (Inr True, w1) \<Rightarrow> (Inr True, w1))))"

definition emitDetectionEvent ::
  "bool \<Rightarrow> SecurityConfig \<Rightarrow> string \<Rightarrow> string \<Rightarrow> ('q, 'r) world \<Rightarrow> ('q, 'r) world" where
  "emitDetectionEvent inertBus cfg action reason w =
     (if inertBus then w else emitBusEvent cfg ''penetration_attempt'' action reason w)"

definition penetration_enabled :: "SecurityConfig \<Rightarrow> RouteConfig option \<Rightarrow> bool" where
  "penetration_enabled cfg route =
     (case route of None \<Rightarrow> sc_EnablePenetrationDetection cfg | Some rc \<Rightarrow> rc_EnableSuspiciousDetection rc)"

definition suspiciousActivityCheck ::
  "bool \<Rightarrow> check_env \<Rightarrow> SecurityConfig \<Rightarrow> guardRequest \<Rightarrow> ('q, 'r) world \<Rightarrow> ('q, 'r) outcome" where
  "suspiciousActivityCheck inertBus env cfg req w0 =
     (let ip = resolveClientIP req (w_st w0) in
      if st_IsWhitelisted (w_st w0) \<or> ip = [] then (Inr None, w0)
      else
        (let w = w0\<lparr>w_st := snd (HasBypass ''penetration'' (w_st w0))\<rparr> in
         if fst (HasBypass ''penetration'' (w_st w0)) \<or> \<not> penetration_enabled cfg (st_RouteConfig (w_st w))
         then (Inr None, w)
         else
           (case detect_request env cfg req (w_st w) of
              (categories, triggerInfo) \<Rightarrow>
                if categories = [] then (Inr None, w)
                else
                  (let w1 = w\<lparr>w_counts := recordCategories ip categories (w_counts w)\<rparr> in
                   if sc_PassiveMode cfg then
                     (Inr None,
                      firePassiveBlockHook cfg req ''suspicious_activity''
                        (''Suspicious activity detected: '' @ ip) triggerInfo
                        (emitDetectionEvent inertBus cfg ''logged_only''
                           (''Suspicious pattern detected (passive mode): '' @ triggerInfo) w1))
                   else
                     (case registerViolations env cfg ip categories
                             (emitDetectionEvent inertBus cfg ''request_blocked''
                                (''Penetration attempt detected: '' @ triggerInfo)
                                (stash (''Suspicious activity detected for IP: '' @ ip @ '' - '' @ triggerInfo) [] w1)) of
                        (Inl e, w2) \<Rightarrow> (Inl e, w2)
                      | (Inr True, w2) \<Rightarrow> (Inr (Some (createErrorResponse cfg 403 ''IP has been banned'')), w2)
                      | (Inr False, w2) \<Rightarrow>
                          (Inr (Some (createErrorResponse cfg 400 ''Suspicious activity detected'')), w2))))))"

section \<open>Frames\<close>

lemma ban_call_frame [world_simps]:
  "w_hooks (snd (ban_call env ip d r b w)) = w_hooks w" "w_st (snd (ban_call env ip d r b w)) = w_st w"
  "w_counts (snd (ban_call env ip d r b w)) = w_counts w"
  by (simp_all add: ban_call_def split: prod.splits)

lemma ban_failed_frame [world_simps]: "w_hooks (ban_failed cfg ip w) = w_hooks w"
  "w_st (ban_failed cfg ip w) = w_st w" "w_counts (ban_failed cfg ip w) = w_counts w"
  "w_ban (ban_failed cfg ip w) = w_ban w"
  by (simp_all add: ban_failed_def world_simps)

lemma ban_outcome_active:
  "\<not> sc_PassiveMode cfg \<Longrightarrow> w_hooks (snd (ban_outcome cfg req ip reason r)) = w_hooks (snd r)"
  by (auto simp: ban_outcome_def world_simps split: prod.splits sum.splits go_error.splits bool.splits)

lemma category_bans_active:
  "\<not> sc_PassiveMode cfg \<Longrightarrow> w_hooks (snd (category_bans env cfg req ip t cs b w)) = w_hooks w"
  by (induction cs) (auto simp: total_ban_def ban_outcome_active world_simps)

lemma applyThresholdBan_active:
  "\<not> sc_PassiveMode cfg \<Longrightarrow> w_hooks (snd (applyThresholdBan env cfg req ip cs t w)) = w_hooks w"
  by (auto simp: applyThresholdBan_def category_bans_active split: option.splits)

lemma escalate_active:
  assumes "\<not> sc_PassiveMode cfg"
  shows "w_hooks (snd (escalateIdentityViolation env cfg req ip w)) = w_hooks w"
  using applyThresholdBan_active[OF assms, of env req ip _ _ "w\<lparr>w_counts := _\<rparr>"]
  by (auto simp: escalateIdentityViolation_def world_simps split: prod.splits sum.splits)
    (metis select_convs surjective_pairing snd_conv)+

lemma fireGeoEvent_frame [world_simps]: "w_hooks (fireGeoEvent cfg ev w) = w_hooks w"
  "w_st (fireGeoEvent cfg ev w) = w_st w" "w_ban (fireGeoEvent cfg ev w) = w_ban w"
  by (simp_all add: fireGeoEvent_def)

lemma set_flags_frame [world_simps]: "w_hooks (set_flags a b w) = w_hooks w" "w_ban (set_flags a b w) = w_ban w"
  by (simp_all add: set_flags_def)

lemma emitRateLimitEvent_frame [world_simps]: "w_hooks (emitRateLimitEvent env cfg req ip oc w) = w_hooks w"
  by (auto simp: emitRateLimitEvent_def Let_def world_simps)

lemma emitDetectionEvent_frame [world_simps]: "w_hooks (emitDetectionEvent b cfg a r w) = w_hooks w"
  "w_ban (emitDetectionEvent b cfg a r w) = w_ban w" "w_counts (emitDetectionEvent b cfg a r w) = w_counts w"
  by (simp_all add: emitDetectionEvent_def world_simps)

lemma deny_active:
  assumes "\<not> sc_PassiveMode cfg"
  shows "w_hooks (snd (deny env cfg req ip r w)) = w_hooks w"
proof -
  have "w_hooks w2 = w_hooks v" if "escalateIdentityViolation env cfg req ip v = (e, w2)" for v e w2
    using escalate_active[OF assms, of env req ip v] that by simp
  note esc = this
  show ?thesis using assms
    by (auto dest!: esc simp: deny_def Let_def world_simps split: prod.splits option.splits)
qed

lemma checkGlobal_active:
  "\<not> sc_PassiveMode cfg \<Longrightarrow> w_hooks (snd (checkGlobal env cfg req ip o1 s w)) = w_hooks w"
  by (auto simp: checkGlobal_def Let_def deny_active world_simps split: option.splits)

lemma checkRouteIPAccess_active:
  "\<not> sc_PassiveMode cfg \<Longrightarrow> w_hooks (snd (checkRouteIPAccess cfg req ip rc w)) = w_hooks w"
  by (auto simp: checkRouteIPAccess_def denyRoute_def passive_or_block_def Let_def world_simps split: prod.splits)

lemma probe_ban_frame [world_simps]: "w_hooks (snd (probe_ban env ip w)) = w_hooks w"
  by (auto simp: probe_ban_def Let_def split: option.splits prod.splits)

lemma route_then_global_active:
  assumes "\<not> sc_PassiveMode cfg"
  shows "w_hooks (snd (route_then_global env cfg req ip w)) = w_hooks w"
proof (cases "st_RouteConfig (w_st w)")
  case (Some rc)
  obtain r w1 where r: "checkRouteIPAccess cfg req ip rc w = (r, w1)" by (meson surj_pair)
  then have "w_hooks w1 = w_hooks w" using checkRouteIPAccess_active[OF assms, of req ip rc w] by simp
  then show ?thesis using Some r
    by (auto simp: route_then_global_def checkGlobal_active[OF assms] split: sum.splits option.splits)
qed (simp add: route_then_global_def checkGlobal_active[OF assms])

lemma ip_check_active:
  assumes "\<not> sc_PassiveMode cfg" shows "keeps_hooks w (ipSecurityCheck env cfg req w)"
proof -
  let ?ip = "resolveClientIP req (w_st w)"
  obtain r w1 where r: "probe_ban env ?ip w = (r, w1)" by (meson surj_pair)
  have h: "w_hooks w1 = w_hooks w" using probe_ban_frame[of env ?ip w] r by simp
  show ?thesis using assms h
    by (auto simp: ipSecurityCheck_def Let_def r keeps_hooks_def passive_or_block_def world_simps
        checkGlobal_active route_then_global_active split: sum.splits bool.splits)
qed

lemma rate_check_active:
  assumes "\<not> sc_PassiveMode cfg" shows "keeps_hooks w (rateLimitCheck env cfg req w)"
  using assms
  by (auto simp: rateLimitCheck_def Let_def check_facts world_simps split: prod.splits sum.splits)

lemma registerViolations_hooks [world_simps]:
  "w_hooks (snd (registerViolations env cfg ip cs w)) = w_hooks w"
proof (induction cs arbitrary: w)
  case (Cons c cs)
  show ?case
  proof (cases "if sc_EnableIPBanning cfg then w_ban w else None")
    case (Some b)
    obtain r w1 where r: "ban_call env ip (snd (category_ban cfg c)) (''penetration:'' @ c) b w = (r, w1)"
      by (meson surj_pair)
    then have "w_hooks w1 = w_hooks w" using ban_call_frame(1) by (metis snd_conv)
    then show ?thesis using Some r Cons.IH
      by (auto simp: world_simps split: sum.splits bool.splits go_error.splits)
  qed simp
qed simp

lemma suspicious_check_active:
  assumes "\<not> sc_PassiveMode cfg" shows "keeps_hooks w (suspiciousActivityCheck ib env cfg req w)"
proof -
  have "w_hooks w2 = w_hooks v" if "registerViolations env cfg ip cs v = (r, w2)" for ip cs v r w2
    using registerViolations_hooks[of env cfg ip cs v] that by simp
  note reg = this
  show ?thesis using assms
    by (auto dest!: reg simp: suspiciousActivityCheck_def Let_def check_facts world_simps
        split: prod.splits sum.splits bool.splits)
qed

lemma deny_passive: "sc_PassiveMode cfg \<Longrightarrow> fst (deny env cfg req ip r w) = Inr None"
  by (simp add: deny_def Let_def)

lemma checkGlobal_passive: "sc_PassiveMode cfg \<Longrightarrow> fst (checkGlobal env cfg req ip o1 s w) = Inr None"
  by (auto simp: checkGlobal_def Let_def deny_passive split: option.splits)

lemma checkRouteIPAccess_passive:
  "sc_PassiveMode cfg \<Longrightarrow> fst (checkRouteIPAccess cfg req ip rc w) = Inr None"
  by (auto simp: checkRouteIPAccess_def denyRoute_def passive_or_block_def Let_def split: prod.splits)

lemma route_then_global_passive:
  "sc_PassiveMode cfg \<Longrightarrow> fst (route_then_global env cfg req ip w) = Inr None"
  using checkRouteIPAccess_passive[of cfg req ip _ w]
  by (auto simp: route_then_global_def checkGlobal_passive split: option.splits prod.splits sum.splits)
    (metis fst_conv sum.distinct(1) sum.inject(2) option.distinct(1))+

lemma ip_check_passive:
  "sc_PassiveMode cfg \<Longrightarrow> no_response (ipSecurityCheck env cfg req w)"
  by (auto simp: ipSecurityCheck_def Let_def no_response_def passive_or_block_def checkGlobal_passive
      route_then_global_passive split: prod.splits sum.splits bool.splits)

lemma rate_check_passive:
  "sc_PassiveMode cfg \<Longrightarrow> no_response (rateLimitCheck env cfg req w)"
  by (auto simp: rateLimitCheck_def Let_def check_facts split: prod.splits sum.splits)

lemma suspicious_check_passive:
  "sc_PassiveMode cfg \<Longrightarrow> no_response (suspiciousActivityCheck ib env cfg req w)"
  by (auto simp: suspiciousActivityCheck_def Let_def check_facts split: prod.splits)

lemmas access_active = ip_check_active rate_check_active suspicious_check_active
lemmas access_passive = ip_check_passive rate_check_passive suspicious_check_passive

end
