(* ===== verification/Behavior.thy ===== *)
theory Behavior
  imports Access
begin

text \<open>
  The behavioural rules of \<open>guardcore/behavior.go\<close>: validation, the tracker with its sliding windows in
  Redis or in bounded local maps, response patterns, the dispatch of actions and the three processors.
  The tracker shares the ban manager, the counters and the Redis server of the world (the state of the
  server is the one the rate limiter holds). Go picks the victim of an eviction in an unspecified map
  order: the environment names it. The JSON decoder, the regular expressions, \<open>strings.ToLower\<close>,
  \<open>strings.EqualFold\<close> and the redaction are parameters; log lines and event metadata are left out.
\<close>

section \<open>Rules\<close>

definition ValidBehaviorRuleTypes :: "string list" where
  "ValidBehaviorRuleTypes = [''usage'', ''return_pattern'', ''frequency'']"

definition ValidBehaviorActions :: "string list" where
  "ValidBehaviorActions = [''ban'', ''log'', ''throttle'', ''alert'']"

definition DefaultBehaviorWindow :: int where "DefaultBehaviorWindow = 3600"
definition DefaultBehaviorAction :: string where "DefaultBehaviorAction = ''log''"
definition DefaultBehaviorBanDurationSeconds :: int where "DefaultBehaviorBanDurationSeconds = 3600"
definition maxTrackedEndpoints :: nat where "maxTrackedEndpoints = 10000"
definition maxTrackedClientsPerEndpoint :: nat where "maxTrackedClientsPerEndpoint = 10000"
definition DefaultBehaviorMaxResponseBodyInspectBytes :: int where
  "DefaultBehaviorMaxResponseBodyInspectBytes = 262144"

datatype rule_error = BadRuleType string | BadThreshold int | BadWindow int | BadAction string | BadBanDuration int

definition with_defaults :: "BehaviorRuleConfig \<Rightarrow> BehaviorRuleConfig" where
  "with_defaults rule =
     rule\<lparr>br_Window := (if br_Window rule = 0 then DefaultBehaviorWindow else br_Window rule),
          br_Action := (if br_Action rule = [] then DefaultBehaviorAction else br_Action rule)\<rparr>"

definition ValidateBehaviorRuleConfig :: "BehaviorRuleConfig \<Rightarrow> rule_error + BehaviorRuleConfig" where
  "ValidateBehaviorRuleConfig rule0 =
     (let rule = with_defaults rule0 in
      if br_RuleType rule0 \<notin> set ValidBehaviorRuleTypes then Inl (BadRuleType (br_RuleType rule0))
      else if br_Threshold rule0 < 1 then Inl (BadThreshold (br_Threshold rule0))
      else if br_Window rule < 1 then Inl (BadWindow (br_Window rule))
      else if br_Action rule \<notin> set ValidBehaviorActions then Inl (BadAction (br_Action rule))
      else if br_BanDuration rule < 0 then Inl (BadBanDuration (br_BanDuration rule))
      else Inr rule)"

definition returnPatternRequiresResponseBody :: "string \<Rightarrow> bool" where
  "returnPatternRequiresResponseBody pattern \<longleftrightarrow> \<not> has_prefix pattern ''status:''"

text \<open>The first rule that can never match because the scan flag is off.\<close>

definition validateBehaviorRulesAgainstScanFlag ::
  "BehaviorRuleConfig list \<Rightarrow> bool \<Rightarrow> BehaviorRuleConfig option" where
  "validateBehaviorRulesAgainstScanFlag rules scanResponseBody =
     find (\<lambda>rule. br_RuleType rule = ''return_pattern'' \<and> br_Pattern rule \<noteq> []
                  \<and> returnPatternRequiresResponseBody (br_Pattern rule) \<and> \<not> scanResponseBody) rules"

section \<open>The tracker\<close>

datatype json =
  JNull | JBool bool | JNumber string | JString string | JArray "json list" | JObject "(string \<times> json) list"

text \<open>\<open>RecordSlidingWindowHit\<close> takes namespace, key, now, window start and window. A number of \<open>json\<close>
  carries its default format, and \<open>bv_show\<close> formats arrays and objects.\<close>

record 'q behavior_env =
  bv_redis :: "(string \<Rightarrow> string \<Rightarrow> real \<Rightarrow> real \<Rightarrow> int \<Rightarrow> 'q \<Rightarrow> (string + int) \<times> 'q) option"
  bv_victim :: "string list \<Rightarrow> nat"
  bv_hash :: "string \<Rightarrow> string"
  bv_json :: "string \<Rightarrow> json option"
  bv_show :: "json \<Rightarrow> string"
  bv_regex :: "string \<Rightarrow> string \<Rightarrow> bool option"
  bv_lower :: "string \<Rightarrow> string"
  bv_equalFold :: "string \<Rightarrow> string \<Rightarrow> bool"
  bv_redact :: "string \<Rightarrow> string"
  bv_clock :: real

definition evictOneKey :: "(string list \<Rightarrow> nat) \<Rightarrow> (string \<times> 'v) list \<Rightarrow> (string \<times> 'v) list" where
  "evictOneKey victim m =
     (if m = [] then []
      else AList.delete (map fst m ! (victim (map fst m) mod length m)) m)"

definition make_room :: "(string list \<Rightarrow> nat) \<Rightarrow> nat \<Rightarrow> string \<Rightarrow> (string \<times> 'v) list \<Rightarrow> (string \<times> 'v) list" where
  "make_room victim cap key m =
     (if map_of m key = None \<and> length m \<ge> cap then evictOneKey victim m else m)"

definition trackLocal ::
  "(string list \<Rightarrow> nat) \<Rightarrow> string \<Rightarrow> string \<Rightarrow> real \<Rightarrow> real \<Rightarrow> tracker_store \<Rightarrow> nat \<times> tracker_store" where
  "trackLocal victim bucket key now windowStart store =
     (let store1 = make_room victim maxTrackedEndpoints bucket store;
          rows = (case map_of store1 bucket of None \<Rightarrow> [] | Some r \<Rightarrow> r);
          timestamps = (case map_of rows key of None \<Rightarrow> [] | Some ts \<Rightarrow> ts);
          rows1 = make_room victim maxTrackedClientsPerEndpoint key rows;
          timestamps1 = filter (\<lambda>ts. ts \<ge> windowStart) timestamps @ [now]
      in (length timestamps1, AList.update bucket (AList.update key timestamps1 rows1) store1))"

text \<open>The answer of Redis: \<open>None\<close> when the local store decides.\<close>

definition redis_verdict ::
  "'q behavior_env \<Rightarrow> SecurityConfig \<Rightarrow> string \<Rightarrow> string \<Rightarrow> int \<Rightarrow> int \<Rightarrow> real \<Rightarrow> ('q, 'r) world
     \<Rightarrow> bool option \<times> ('q, 'r) world" where
  "redis_verdict bv cfg namespace key window threshold now w =
     (case bv_redis bv of
        None \<Rightarrow> (None, w)
      | Some record_hit \<Rightarrow>
          (case record_hit namespace key now (now - of_int window) window (rl_rstate (w_rl w)) of
             (answer, q) \<Rightarrow>
               (case answer of
                  Inr count \<Rightarrow> Some (count > threshold)
                | Inl _ \<Rightarrow> if sc_RedisFailOpen cfg then None else Some False,
                w\<lparr>w_rl := (w_rl w)\<lparr>rl_rstate := q\<rparr>\<rparr>)))"

definition TrackEndpointUsage ::
  "'q behavior_env \<Rightarrow> SecurityConfig \<Rightarrow> string \<Rightarrow> string \<Rightarrow> BehaviorRuleConfig \<Rightarrow> real \<Rightarrow> ('q, 'r) world
     \<Rightarrow> bool \<times> ('q, 'r) world" where
  "TrackEndpointUsage bv cfg endpointID clientIP rule now w0 =
     (case redis_verdict bv cfg ''behavior_usage''
             (''behavior:usage:'' @ bv_hash bv endpointID @ '':'' @ bv_hash bv clientIP)
             (br_Window rule) (br_Threshold rule) now w0 of
        (Some tripped, w) \<Rightarrow> (tripped, w)
      | (None, w) \<Rightarrow>
          (case trackLocal (bv_victim bv) endpointID clientIP now (now - of_int (br_Window rule)) (w_usage w) of
             (count, store) \<Rightarrow> (int count > br_Threshold rule, w\<lparr>w_usage := store\<rparr>)))"

text \<open>\<open>fmt.Sscanf\<close> with \<open>%d\<close>: blanks but no newline, a sign, decimal digits within 64 bits; the rest of the
  text stays unread.\<close>

fun skip_blanks :: "nat list \<Rightarrow> nat list" where
  "skip_blanks [] = []"
| "skip_blanks (r # rs) = (if r \<noteq> 10 \<and> is_space r then skip_blanks rs else r # rs)"

definition scan_int :: "string \<Rightarrow> int option" where
  "scan_int s =
     (let rs = skip_blanks (runes s);
          neg = (rs \<noteq> [] \<and> hd rs = 45);
          ds = takeWhile (\<lambda>r. 48 \<le> r \<and> r \<le> 57) (if neg \<or> (rs \<noteq> [] \<and> hd rs = 43) then tl rs else rs);
          n = foldl (\<lambda>a r. a * 10 + (int r - 48)) 0 ds; z = (if neg then - n else n)
      in if ds = [] \<or> z < - (2 ^ 63) \<or> z \<ge> 2 ^ 63 then None else Some z)"

definition parseStatusPattern :: "string \<Rightarrow> int option" where
  "parseStatusPattern pattern =
     scan_int (if has_prefix pattern ''status:'' then drop (length ''status:'') pattern else pattern)"

definition jsonScalarToString :: "'q behavior_env \<Rightarrow> json \<Rightarrow> string" where
  "jsonScalarToString bv v =
     (case v of
        JString s \<Rightarrow> s
      | JBool b \<Rightarrow> if b then ''true'' else ''false''
      | JNumber text \<Rightarrow> text
      | JNull \<Rightarrow> ''None''
      | _ \<Rightarrow> bv_show bv v)"

definition matchJSONArray :: "'q behavior_env \<Rightarrow> json \<Rightarrow> string \<Rightarrow> string \<Rightarrow> bool" where
  "matchJSONArray bv current part expected =
     (case current of
        JObject entries \<Rightarrow>
          (case map_of entries part of
             Some (JArray items) \<Rightarrow> list_ex (\<lambda>item. bv_equalFold bv (jsonScalarToString bv item) expected) items
           | _ \<Rightarrow> False)
      | _ \<Rightarrow> False)"

fun walk_json :: "'q behavior_env \<Rightarrow> json \<Rightarrow> string list \<Rightarrow> string \<Rightarrow> bool" where
  "walk_json bv current [] expected = bv_equalFold bv (jsonScalarToString bv current) expected"
| "walk_json bv current (part # parts) expected =
     (if has_suffix part ''[]'' then matchJSONArray bv current (take (length part - 2) part) expected
      else
        (case current of
           JObject entries \<Rightarrow>
             (case map_of entries part of None \<Rightarrow> False | Some next_value \<Rightarrow> walk_json bv next_value parts expected)
         | _ \<Rightarrow> False))"

text \<open>\<open>strings.Cut\<close> at the first occurrence of a separator, and \<open>strings.Trim\<close> of quotes.\<close>

fun cut_sub :: "string \<Rightarrow> string \<Rightarrow> (string \<times> string) option" where
  "cut_sub sep [] = (if sep = [] then Some ([], []) else None)"
| "cut_sub sep (c # s) =
     (if has_prefix (c # s) sep then Some ([], drop (length sep) (c # s))
      else map_option (\<lambda>(a, b). (c # a, b)) (cut_sub sep s))"

definition trim_quotes :: "string \<Rightarrow> string" where
  "trim_quotes s =
     (let q = (\<lambda>c. c = CHR 0x22 \<or> c = CHR 0x27) in rev (dropWhile q (rev (dropWhile q s))))"

definition matchJSONPattern :: "'q behavior_env \<Rightarrow> json \<Rightarrow> string \<Rightarrow> bool" where
  "matchJSONPattern bv data pattern =
     (case cut_sub ''=='' pattern of
        None \<Rightarrow> False
      | Some (path, expected) \<Rightarrow>
          walk_json bv data (split_on CHR ''.'' (trim_space path)) (trim_quotes (trim_space expected)))"

text \<open>\<open>CheckResponsePattern\<close>: \<open>None\<close> stands for the body that could not be inspected. A nil response makes
  the status pattern panic, which is recovered as no match.\<close>

definition CheckResponsePattern ::
  "'q behavior_env \<Rightarrow> SecurityConfig \<Rightarrow> Response option \<Rightarrow> string \<Rightarrow> bool option" where
  "CheckResponsePattern bv cfg resp pattern =
     (if has_prefix pattern ''status:'' then
        Some (case (resp, parseStatusPattern pattern) of
                (Some r, Some expected) \<Rightarrow> rp_StatusCode r = expected
              | _ \<Rightarrow> False)
      else if \<not> sc_BehaviorScanResponseBody cfg then None
      else
        (let limit = (if sc_BehaviorMaxResponseBodyInspectBytes cfg \<le> 0 then DefaultBehaviorMaxResponseBodyInspectBytes
                      else sc_BehaviorMaxResponseBodyInspectBytes cfg);
             body = (case resp of None \<Rightarrow> [] | Some r \<Rightarrow> take (nat limit) (rp_Body r))
         in if (case resp of None \<Rightarrow> True | Some r \<Rightarrow> rp_Body r = []) then Some False
            else if has_prefix pattern ''json:'' then
              Some (case bv_json bv body of
                      None \<Rightarrow> False
                    | Some data \<Rightarrow> matchJSONPattern bv data (drop (length ''json:'') pattern))
            else if has_prefix pattern ''regex:'' then
              Some (bv_regex bv (drop (length ''regex:'') pattern) body = Some True)
            else Some (contains_sub (bv_lower bv body) (bv_lower bv pattern))))"

definition TrackReturnPattern ::
  "'q behavior_env \<Rightarrow> SecurityConfig \<Rightarrow> string \<Rightarrow> string \<Rightarrow> Response option \<Rightarrow> BehaviorRuleConfig \<Rightarrow> real \<Rightarrow> int
     \<Rightarrow> ('q, 'r) world \<Rightarrow> bool \<times> ('q, 'r) world" where
  "TrackReturnPattern bv cfg endpointID clientIP resp rule now effectiveThreshold0 w0 =
     (let effectiveThreshold = (if effectiveThreshold0 \<le> 0 then br_Threshold rule else effectiveThreshold0) in
      if br_Pattern rule = [] \<or> CheckResponsePattern bv cfg resp (br_Pattern rule) \<noteq> Some True then (False, w0)
      else
        (case redis_verdict bv cfg ''behavior_returns''
                (''behavior:return:'' @ bv_hash bv endpointID @ '':'' @ bv_hash bv clientIP @ '':''
                 @ bv_hash bv (br_Pattern rule))
                (br_Window rule) effectiveThreshold now w0 of
           (Some tripped, w) \<Rightarrow> (tripped, w)
         | (None, w) \<Rightarrow>
             (case trackLocal (bv_victim bv) (endpointID @ '':'' @ br_Pattern rule) clientIP now
                     (now - of_int (br_Window rule)) (w_returns w) of
                (count, store) \<Rightarrow> (int count > effectiveThreshold, w\<lparr>w_returns := store\<rparr>))))"

definition GetRecentEventCount :: "string \<Rightarrow> int \<Rightarrow> real \<Rightarrow> tracker_store \<Rightarrow> nat" where
  "GetRecentEventCount ip windowSeconds now store =
     (if ip = [] then 0
      else sum_list (map (\<lambda>(bucket, clients).
             length (filter (\<lambda>ts. ts \<ge> now - of_int windowSeconds)
               (case map_of clients ip of None \<Rightarrow> [] | Some l \<Rightarrow> l))) store))"

section \<open>Actions\<close>

definition emitBehaviorEvent ::
  "SecurityConfig \<Rightarrow> string \<Rightarrow> string \<Rightarrow> string \<Rightarrow> ('q, 'r) world \<Rightarrow> ('q, 'r) world" where
  "emitBehaviorEvent cfg clientIP details actionTaken w =
     (if sc_bus cfg
      then w\<lparr>w_handler := w_handler w @
             [\<lparr>he_type = ''behavioral_violation'', he_handler = ''behavior'', he_ip = clientIP, he_action = actionTaken,
               he_reason = ''Behavioral rule violated: '' @ details, he_duration = None\<rparr>]\<rparr>
      else w)"

text \<open>\<open>ApplyAction\<close>: the panic of the ban manager, if any.\<close>

definition ApplyAction ::
  "check_env \<Rightarrow> SecurityConfig \<Rightarrow> BehaviorRuleConfig \<Rightarrow> string \<Rightarrow> string \<Rightarrow> ('q, 'r) world
     \<Rightarrow> go_error option \<times> ('q, 'r) world" where
  "ApplyAction env cfg rule clientIP details w =
     (if sc_PassiveMode cfg then (None, emitBehaviorEvent cfg clientIP details ''logged_only'' w)
      else if br_Action rule = ''ban'' then
        (let duration = (if br_BanDuration rule \<le> 0 then DefaultBehaviorBanDurationSeconds else br_BanDuration rule) in
         case w_ban w of
           None \<Rightarrow> (None, emitBehaviorEvent cfg clientIP details ''tracked'' w)
         | Some b \<Rightarrow>
             (case ban_call env clientIP duration ''behavioral_violation'' b w of
                (Inl Panic, w1) \<Rightarrow> (Some Panic, w1)
              | (Inr True, w1) \<Rightarrow> (None, emitBehaviorEvent cfg clientIP details ''ban'' w1)
              | (_, w1) \<Rightarrow> (None, emitBehaviorEvent cfg clientIP details ''tracked'' w1)))
      else if br_Action rule \<in> {''alert'', ''log'', ''throttle''}
      then (None, emitBehaviorEvent cfg clientIP details (br_Action rule) w)
      else (None, w))"

section \<open>The processors\<close>

definition GetEndpointID :: "'q behavior_env \<Rightarrow> guardRequest \<Rightarrow> RequestState \<Rightarrow> string" where
  "GetEndpointID bv req st =
     (let extra = (case map_of (st_Extras st) ''guard_endpoint_id'' of None \<Rightarrow> [] | Some s \<Rightarrow> s) in
      if st_GuardRouteID st \<noteq> [] then st_GuardRouteID st
      else if extra \<noteq> [] then extra
      else rq_Method req @ '':'' @ bv_redact bv (gr_Path req))"

definition routeRulesForStage :: "BehaviorRuleConfig list \<Rightarrow> string list \<Rightarrow> BehaviorRuleConfig list" where
  "routeRulesForStage rules kinds = filter (\<lambda>rule. br_RuleType rule \<in> set kinds) rules"

text \<open>One tripped rule: the event and the action.\<close>

definition trip ::
  "check_env \<Rightarrow> SecurityConfig \<Rightarrow> BehaviorRuleConfig \<Rightarrow> string \<Rightarrow> string \<Rightarrow> string \<Rightarrow> ('q, 'r) world
     \<Rightarrow> go_error option \<times> ('q, 'r) world" where
  "trip env cfg rule clientIP reason details w =
     ApplyAction env cfg rule clientIP details
       (emitBusEvent cfg ''decorator_violation'' (blockedOrLoggedAction (sc_PassiveMode cfg)) reason w)"

text \<open>A loop over rules: \<open>track\<close> says whether a rule tripped, \<open>texts\<close> gives its reason and details.\<close>

fun run_rules ::
  "check_env \<Rightarrow> SecurityConfig \<Rightarrow> string \<Rightarrow> (BehaviorRuleConfig \<Rightarrow> ('q, 'r) world \<Rightarrow> bool \<times> ('q, 'r) world)
     \<Rightarrow> (BehaviorRuleConfig \<Rightarrow> string \<times> string) \<Rightarrow> BehaviorRuleConfig list \<Rightarrow> ('q, 'r) world
     \<Rightarrow> go_error option \<times> ('q, 'r) world" where
  "run_rules env cfg clientIP track texts [] w = (None, w)"
| "run_rules env cfg clientIP track texts (rule # rules) w =
     (case track rule w of
        (False, w1) \<Rightarrow> run_rules env cfg clientIP track texts rules w1
      | (True, w1) \<Rightarrow>
          (case trip env cfg rule clientIP (fst (texts rule)) (snd (texts rule)) w1 of
             (Some e, w2) \<Rightarrow> (Some e, w2)
           | (None, w2) \<Rightarrow> run_rules env cfg clientIP track texts rules w2))"

definition usage_texts :: "BehaviorRuleConfig \<Rightarrow> string \<times> string" where
  "usage_texts rule =
     (let details = dec_int (br_Threshold rule) @ '' calls in '' @ dec_int (br_Window rule) @ ''s'' in
      (''Behavioral '' @ br_RuleType rule @ '' threshold exceeded: '' @ details,
       ''Usage threshold exceeded: '' @ details))"

definition ProcessUsageRules ::
  "'q behavior_env \<Rightarrow> check_env \<Rightarrow> SecurityConfig \<Rightarrow> guardRequest \<Rightarrow> string \<Rightarrow> RouteConfig option \<Rightarrow> ('q, 'r) world
     \<Rightarrow> go_error option \<times> ('q, 'r) world" where
  "ProcessUsageRules bv env cfg req clientIP route w =
     (let endpointID = GetEndpointID bv req (w_st w) in
      if st_ExclusionScoped (w_st w) then (None, w)
      else
        (case route of
           None \<Rightarrow> (None, w)
         | Some rc \<Rightarrow>
             run_rules env cfg clientIP (\<lambda>rule. TrackEndpointUsage bv cfg endpointID clientIP rule (bv_clock bv))
               usage_texts (routeRulesForStage (rc_BehaviorRules rc) [''usage'', ''frequency'']) w))"

definition return_details :: "BehaviorRuleConfig \<Rightarrow> int \<Rightarrow> string" where
  "return_details rule threshold =
     dec_int threshold @ '' for '' @ quoted (br_Pattern rule) @ '' in '' @ dec_int (br_Window rule) @ ''s''"

definition ProcessReturnRules ::
  "'q behavior_env \<Rightarrow> check_env \<Rightarrow> SecurityConfig \<Rightarrow> guardRequest \<Rightarrow> Response option \<Rightarrow> string \<Rightarrow> RouteConfig option
     \<Rightarrow> ('q, 'r) world \<Rightarrow> go_error option \<times> ('q, 'r) world" where
  "ProcessReturnRules bv env cfg req resp clientIP route w =
     (let endpointID = GetEndpointID bv req (w_st w);
          texts = (\<lambda>rule. (''Return pattern threshold exceeded: '' @ return_details rule (br_Threshold rule),
                           ''Return pattern threshold exceeded: '' @ return_details rule (br_Threshold rule)))
      in if st_ExclusionScoped (w_st w) then (None, w)
         else
           (case route of
              None \<Rightarrow> (None, w)
            | Some rc \<Rightarrow>
                run_rules env cfg clientIP
                  (\<lambda>rule. TrackReturnPattern bv cfg endpointID clientIP resp rule (bv_clock bv) 0)
                  texts (routeRulesForStage (rc_BehaviorRules rc) [''return_pattern'']) w))"

definition collectCorrelatedCategories :: "counts \<Rightarrow> string \<Rightarrow> string list" where
  "collectCorrelatedCategories store clientIP =
     sort (map fst (filter (\<lambda>(category, n). n > 0) (per_ip store clientIP)))"

definition effective_threshold :: "bool \<Rightarrow> BehaviorRuleConfig \<Rightarrow> int" where
  "effective_threshold correlationActive rule =
     (if correlationActive then max 1 (br_Threshold rule div 2) else br_Threshold rule)"

definition ProcessGlobalReturnRules ::
  "'q behavior_env \<Rightarrow> check_env \<Rightarrow> SecurityConfig \<Rightarrow> guardRequest \<Rightarrow> Response option \<Rightarrow> string
     \<Rightarrow> ('q, 'r) world \<Rightarrow> go_error option \<times> ('q, 'r) world" where
  "ProcessGlobalReturnRules bv env cfg req resp clientIP w =
     (let endpointID = GetEndpointID bv req (w_st w);
          hits = collectCorrelatedCategories (w_counts w) clientIP \<noteq> [];
          active = (\<lambda>rule. br_CorrelateWithDetection rule \<and> hits);
          reason = (\<lambda>rule. ''Global return pattern threshold exceeded: ''
                      @ return_details rule (effective_threshold (active rule) rule)
                      @ (if active rule then '' (correlated)'' else []))
      in if st_ExclusionScoped (w_st w) then (None, w)
         else
           run_rules env cfg clientIP
             (\<lambda>rule. TrackReturnPattern bv cfg endpointID clientIP resp rule (bv_clock bv)
                       (effective_threshold (active rule) rule))
             (\<lambda>rule. (reason rule, reason rule))
             (routeRulesForStage (sc_GlobalBehaviorRules cfg) [''return_pattern'']) w)"

text \<open>\<open>Engine.ProcessResponse\<close>, on a response that is there.\<close>

definition ProcessResponse ::
  "'q behavior_env \<Rightarrow> check_env \<Rightarrow> SecurityConfig \<Rightarrow> guardRequest \<Rightarrow> Response \<Rightarrow> ('q, 'r) world
     \<Rightarrow> go_error option \<times> ('q, 'r) world" where
  "ProcessResponse bv env cfg req resp w =
     (let clientIP = resolveClientIP req (w_st w) in
      case ProcessReturnRules bv env cfg req (Some resp) clientIP (st_RouteConfig (w_st w)) w of
        (Some e, w1) \<Rightarrow> (Some e, w1)
      | (None, w1) \<Rightarrow> ProcessGlobalReturnRules bv env cfg req (Some resp) clientIP w1)"

section \<open>The local windows\<close>

definition row_of :: "tracker_store \<Rightarrow> string \<Rightarrow> string \<Rightarrow> real list" where
  "row_of store bucket key =
     (case map_of store bucket of
        None \<Rightarrow> []
      | Some r \<Rightarrow> (case map_of r key of None \<Rightarrow> [] | Some ts \<Rightarrow> ts))"

text \<open>Both levels of a store are dictionaries within their caps.\<close>

definition tracker_bounded :: "tracker_store \<Rightarrow> bool" where
  "tracker_bounded store \<longleftrightarrow>
     distinct (map fst store) \<and> length store \<le> maxTrackedEndpoints
     \<and> (\<forall>(bucket, rows) \<in> set store.
           distinct (map fst rows) \<and> length rows \<le> maxTrackedClientsPerEndpoint)"

lemma length_update_dict:
  "length (AList.update k v m) = (if k \<in> fst ` set m then length m else Suc (length m))"
  by (induction m) auto

lemma length_delete_dict: "distinct (map fst m) \<Longrightarrow> k \<in> fst ` set m \<Longrightarrow> length (AList.delete k m) < length m"
  using length_filter_less[of _ m "\<lambda>(k', _). k \<noteq> k'"] by (auto simp: AList.delete_eq)

lemma evictOneKey_dict:
  assumes "distinct (map fst m)"
  shows "distinct (map fst (evictOneKey victim m))" and "set (evictOneKey victim m) \<subseteq> set m"
    and "m \<noteq> [] \<Longrightarrow> length (evictOneKey victim m) < length m"
proof -
  show "distinct (map fst (evictOneKey victim m))"
    using assms by (simp add: evictOneKey_def distinct_delete)
  show "set (evictOneKey victim m) \<subseteq> set m" by (auto simp: evictOneKey_def AList.delete_eq)
  assume ne: "m \<noteq> []"
  let ?i = "victim (map fst m) mod length m"
  have "?i < length m" using ne by simp
  then have "map fst m ! ?i \<in> fst ` set m" by simp
  then show "length (evictOneKey victim m) < length m"
    using length_delete_dict[OF assms] ne by (simp add: evictOneKey_def)
qed

lemma make_room_dict:
  assumes "distinct (map fst m)" "length m \<le> cap" "0 < cap"
  shows "distinct (map fst (make_room victim cap k m))" "set (make_room victim cap k m) \<subseteq> set m"
    "k \<notin> fst ` set m \<Longrightarrow> length (make_room victim cap k m) < cap"
    "k \<in> fst ` set m \<Longrightarrow> make_room victim cap k m = m"
proof -
  show "distinct (map fst (make_room victim cap k m))" "set (make_room victim cap k m) \<subseteq> set m"
    using evictOneKey_dict(1,2)[OF assms(1)] assms(1) by (auto simp: make_room_def)
  show "k \<in> fst ` set m \<Longrightarrow> make_room victim cap k m = m"
    by (auto simp: make_room_def map_of_eq_None_iff)
  assume "k \<notin> fst ` set m"
  then show "length (make_room victim cap k m) < cap"
    using evictOneKey_dict(3)[OF assms(1), of victim] assms(2,3)
    by (fastforce simp: make_room_def map_of_eq_None_iff)
qed

lemma insert_row_dict:
  assumes "distinct (map fst m)" "length m \<le> cap" "0 < cap"
  shows "distinct (map fst (AList.update k v (make_room victim cap k m)))"
    and "length (AList.update k v (make_room victim cap k m)) \<le> cap"
    and "set (AList.update k v (make_room victim cap k m)) \<subseteq> insert (k, v) (set m)"
proof -
  note r = make_room_dict[OF assms, where k = k and victim = victim]
  show "distinct (map fst (AList.update k v (make_room victim cap k m)))" using r(1) by (rule distinct_update)
  show "length (AList.update k v (make_room victim cap k m)) \<le> cap"
    using r(2-4) assms(2) by (cases "k \<in> fst ` set m") (auto simp: length_update_dict)
  have "set (AList.update k v xs) \<subseteq> insert (k, v) (set xs)" for xs by (induction xs) auto
  then show "set (AList.update k v (make_room victim cap k m)) \<subseteq> insert (k, v) (set m)" using r(2) by blast
qed

lemma trackLocal_bounded:
  assumes "tracker_bounded store"
  shows "tracker_bounded (snd (trackLocal victim bucket key now start store))"
proof -
  let ?s1 = "make_room victim maxTrackedEndpoints bucket store"
  let ?rows = "case map_of ?s1 bucket of None \<Rightarrow> [] | Some r \<Rightarrow> r"
  have s: "distinct (map fst store)" "length store \<le> maxTrackedEndpoints" "0 < maxTrackedEndpoints"
    using assms by (simp_all add: tracker_bounded_def maxTrackedEndpoints_def)
  have "distinct (map fst ?rows) \<and> length ?rows \<le> maxTrackedClientsPerEndpoint"
    using make_room_dict(2)[OF s, where k = bucket and victim = victim] assms
    by (auto simp: tracker_bounded_def split: option.split dest!: map_of_SomeD)
  then have rows: "distinct (map fst ?rows)" "length ?rows \<le> maxTrackedClientsPerEndpoint"
    "0 < maxTrackedClientsPerEndpoint" by (simp_all add: maxTrackedClientsPerEndpoint_def)
  show ?thesis
    using insert_row_dict[OF s, where k = bucket and victim = victim] insert_row_dict[OF rows, where k = key and victim = victim] assms
    unfolding tracker_bounded_def trackLocal_def Let_def snd_conv by blast
qed

text \<open>The row of a client after one hit, and the rows of the others when nothing has to be evicted.\<close>

lemma lookup_make_room: "map_of (make_room victim cap k m) k = map_of m k"
  by (auto simp: make_room_def evictOneKey_def AList.delete_conv')

lemma make_room_id:
  assumes "distinct (map fst m)" "fst ` set m \<subseteq> B" "k \<in> B" "finite B" "card B \<le> cap"
  shows "make_room victim cap k m = m"
proof (cases "k \<in> fst ` set m")
  case False
  then have "fst ` set m \<subset> B" using assms(2,3) by blast
  then have "length m < card B"
    using psubset_card_mono[OF assms(4)] distinct_card[OF assms(1)] by (metis length_map list.set_map)
  then show ?thesis using assms(5) by (auto simp: make_room_def)
qed (auto simp: make_room_def map_of_eq_None_iff)

lemma own_row: "row_of (snd (trackLocal victim b k t start s)) b k = filter (\<lambda>u. u \<ge> start) (row_of s b k) @ [t]"
  unfolding trackLocal_def Let_def row_of_def snd_conv lookup_make_room
  by (cases "map_of s b") (simp_all add: map_of_update split: option.split)

lemma track_count: "fst (trackLocal victim b k t start s) = Suc (length (filter (\<lambda>u. u \<ge> start) (row_of s b k)))"
  unfolding trackLocal_def Let_def row_of_def fst_conv lookup_make_room by (simp split: option.split)

text \<open>A store whose buckets and clients stay within the sets \<open>B\<close> and \<open>K\<close>, small enough to need no eviction.\<close>

definition fits :: "string set \<Rightarrow> string set \<Rightarrow> tracker_store \<Rightarrow> bool" where
  "fits B K s \<longleftrightarrow>
     distinct (map fst s) \<and> fst ` set s \<subseteq> B \<and> (\<forall>(b, r) \<in> set s. distinct (map fst r) \<and> fst ` set r \<subseteq> K)"

lemma set_update_dict: "set (AList.update k v xs) \<subseteq> insert (k, v) (set xs)"
  by (induction xs) auto

lemma keys_update_dict: "fst ` set (AList.update k v xs) = insert k (fst ` set xs)"
  by (induction xs) auto

lemma trackLocal_fits:
  assumes s: "fits B K s" "finite B" "finite K" "card B \<le> maxTrackedEndpoints" "card K \<le> maxTrackedClientsPerEndpoint"
    and hit: "b \<in> B" "k \<in> K"
  shows "fits B K (snd (trackLocal victim b k t start s))"
    and "(b', k') \<noteq> (b, k) \<Longrightarrow> row_of (snd (trackLocal victim b k t start s)) b' k' = row_of s b' k'"
proof -
  let ?rows = "case map_of s b of None \<Rightarrow> [] | Some r \<Rightarrow> r"
  have store: "distinct (map fst s)" "fst ` set s \<subseteq> B" using s(1) by (simp_all add: fits_def)
  have "(b, r) \<in> set s \<Longrightarrow> distinct (map fst r) \<and> fst ` set r \<subseteq> K" for r using s(1) unfolding fits_def by blast
  then have "map_of s b = Some r \<Longrightarrow> distinct (map fst r) \<and> fst ` set r \<subseteq> K" for r by (blast dest: map_of_SomeD)
  then have rows: "distinct (map fst ?rows)" "fst ` set ?rows \<subseteq> K" by (cases "map_of s b"; simp)+
  define ts where "ts = filter (\<lambda>u. u \<ge> start) (row_of s b k) @ [t]"
  define r1 where "r1 = AList.update k ts ?rows"
  have eq: "snd (trackLocal victim b k t start s) = AList.update b r1 s"
    using make_room_id[OF store hit(1) s(2,4), of victim] make_room_id[OF rows hit(2) s(3,5), of victim]
    by (simp add: trackLocal_def Let_def ts_def r1_def row_of_def split: option.splits)
  have "distinct (map fst r1)" "fst ` set r1 \<subseteq> K"
    unfolding r1_def keys_update_dict using rows hit(2) by (auto intro: distinct_update)
  moreover have "\<forall>(b, r) \<in> set s. distinct (map fst r) \<and> fst ` set r \<subseteq> K" using s(1) by (simp add: fits_def)
  ultimately have "\<forall>(b, r) \<in> set (AList.update b r1 s). distinct (map fst r) \<and> fst ` set r \<subseteq> K"
    using set_update_dict[of b r1 s] by blast
  then show "fits B K (snd (trackLocal victim b k t start s))"
    unfolding eq fits_def keys_update_dict using store hit(1) by (auto intro: distinct_update)
  assume "(b', k') \<noteq> (b, k)"
  then show "row_of (snd (trackLocal victim b k t start s)) b' k' = row_of s b' k'"
    unfolding eq r1_def by (auto simp: row_of_def map_of_update split: option.split)
qed

text \<open>A history of hits: endpoint, client, time and window of each.\<close>

type_synonym hit = "string \<times> string \<times> real \<times> int"

fun track_hits :: "(string list \<Rightarrow> nat) \<Rightarrow> hit list \<Rightarrow> tracker_store \<Rightarrow> tracker_store" where
  "track_hits victim [] s = s"
| "track_hits victim ((b, k, t, window) # hist) s =
     track_hits victim hist (snd (trackLocal victim b k t (t - of_int window) s))"

fun times_at :: "string \<Rightarrow> string \<Rightarrow> hit list \<Rightarrow> real list" where
  "times_at b k [] = []"
| "times_at b k ((b', k', t, _) # hist) = (if b' = b \<and> k' = k then t # times_at b k hist else times_at b k hist)"

lemma track_hits_row:
  assumes "fits B K s" "finite B" "finite K" "card B \<le> maxTrackedEndpoints" "card K \<le> maxTrackedClientsPerEndpoint"
    and "\<forall>(b, k, _) \<in> set hist. b \<in> B \<and> k \<in> K"
    and "\<forall>(b', k', t, window) \<in> set hist. b' = b \<and> k' = k \<longrightarrow> t - of_int window \<le> c"
  shows "filter (\<lambda>u. u \<ge> c) (row_of (track_hits victim hist s) b k)
      = filter (\<lambda>u. u \<ge> c) (row_of s b k @ times_at b k hist)"
  using assms(1,6,7)
proof (induction hist arbitrary: s)
  case (Cons h hist)
  obtain b1 k1 t window where h: "h = (b1, k1, t, window)" by (cases h) auto
  let ?s = "snd (trackLocal victim b1 k1 t (t - of_int window) s)"
  have fits: "fits B K ?s"
    using trackLocal_fits(1)[OF Cons.prems(1) assms(2-5)] Cons.prems(2) h by auto
  have "filter (\<lambda>u. u \<ge> c) (row_of ?s b k) = filter (\<lambda>u. u \<ge> c) (row_of s b k @ times_at b k [h])"
  proof (cases "b1 = b \<and> k1 = k")
    case True
    then have "t - of_int window \<le> c" using Cons.prems(3) h by auto
    then have "filter (\<lambda>u. u \<ge> c) (filter (\<lambda>u. u \<ge> t - of_int window) xs) = filter (\<lambda>u. u \<ge> c) xs" for xs
      by (induction xs) auto
    then show ?thesis using True h by (simp add: own_row)
  next
    case False
    then have "row_of ?s b k = row_of s b k"
      using trackLocal_fits(2)[OF Cons.prems(1) assms(2-5)] Cons.prems(2) h by auto
    then show ?thesis using False h by simp
  qed
  moreover have "times_at b k (h # hist) = times_at b k [h] @ times_at b k hist" using h by simp
  ultimately show ?case using Cons.IH[OF fits] Cons.prems(2,3) h by simp
qed simp

section \<open>What the processors leave alone\<close>

lemmas tracking = TrackEndpointUsage_def TrackReturnPattern_def redis_verdict_def

lemma track_frame:
  "w_st (snd (TrackEndpointUsage bv cfg e ip rule now w)) = w_st w"
  "w_ban (snd (TrackEndpointUsage bv cfg e ip rule now w)) = w_ban w"
  "w_returns (snd (TrackEndpointUsage bv cfg e ip rule now w)) = w_returns w"
  "w_ban (snd (TrackReturnPattern bv cfg e ip resp rule now n w)) = w_ban w"
  "w_usage (snd (TrackReturnPattern bv cfg e ip resp rule now n w)) = w_usage w"
  by (simp_all add: tracking Let_def split: option.split prod.split sum.split)

lemma track_bounded:
  "tracker_bounded (w_usage w) \<Longrightarrow> tracker_bounded (w_usage (snd (TrackEndpointUsage bv cfg e ip rule now w)))"
  "tracker_bounded (w_returns w) \<Longrightarrow>
     tracker_bounded (w_returns (snd (TrackReturnPattern bv cfg e ip resp rule now n w)))"
  by (simp_all add: tracking Let_def case_prod_beta trackLocal_bounded split: option.split sum.split)

lemma ApplyAction_frame:
  "w_usage (snd (ApplyAction env cfg rule ip d w)) = w_usage w"
  "w_returns (snd (ApplyAction env cfg rule ip d w)) = w_returns w"
  "sc_PassiveMode cfg \<Longrightarrow> w_ban (snd (ApplyAction env cfg rule ip d w)) = w_ban w
     \<and> fst (ApplyAction env cfg rule ip d w) = None"
  by (auto simp: ApplyAction_def emitBehaviorEvent_def Let_def ban_call_def split: option.split prod.split sum.split
      go_error.split bool.split)

text \<open>An invariant of the world that every track and every action keeps is kept by a loop over rules.\<close>

lemma run_rules_keeps:
  assumes "\<And>rule w. P w \<Longrightarrow> P (snd (track rule w))"
    and "\<And>rule d w. P w \<Longrightarrow> P (snd (ApplyAction env cfg rule ip d w))"
    and "\<And>a r w. P w \<Longrightarrow> P (emitBusEvent cfg ''decorator_violation'' a r w)"
  shows "P w \<Longrightarrow> P (snd (run_rules env cfg ip track texts rules w))"
proof (induction rules arbitrary: w)
  case (Cons rule rules)
  obtain t w1 where t: "track rule w = (t, w1)" by (meson surj_pair)
  then have w1: "P w1" using assms(1)[OF Cons.prems, of rule] by simp
  show ?case
  proof (cases t)
    case True
    obtain e w2 where e: "trip env cfg rule ip (fst (texts rule)) (snd (texts rule)) w1 = (e, w2)" by (meson surj_pair)
    then have "P w2"
      using assms(2)[OF assms(3)[OF w1], of rule "snd (texts rule)" "blockedOrLoggedAction (sc_PassiveMode cfg)"
          "fst (texts rule)"] by (simp add: trip_def)
    then show ?thesis using t True e Cons.IH[of w2] by (simp split: option.split)
  qed (use t w1 Cons.IH in simp)
qed simp

lemma run_rules_no_panic:
  assumes "\<And>rule (w :: ('q, 'r) world). fst (ApplyAction env cfg rule ip (snd (texts rule)) w) = None"
  shows "fst (run_rules env cfg ip track texts rules (w :: ('q, 'r) world)) = None"
proof (induction rules arbitrary: w)
  case (Cons rule rules)
  obtain t w1 where t: "track rule w = (t, w1)" by (meson surj_pair)
  obtain e w2 where e: "trip env cfg rule ip (fst (texts rule)) (snd (texts rule)) w1 = (e, w2)" by (meson surj_pair)
  have "e = None" using arg_cong[OF e, of fst] by (simp add: trip_def assms)
  then show ?case using Cons.IH t e by (cases t) simp_all
qed simp

lemma emitBus_stores:
  "w_usage (emitBusEvent cfg t a r w) = w_usage w" "w_returns (emitBusEvent cfg t a r w) = w_returns w"
  "w_ban (emitBusEvent cfg t a r w) = w_ban w"
  by (simp_all add: emitBusEvent_def)

definition stores_bounded :: "('q, 'r) world \<Rightarrow> bool" where
  "stores_bounded w \<longleftrightarrow> tracker_bounded (w_usage w) \<and> tracker_bounded (w_returns w)"

lemma track_stores:
  "w_usage (snd (TrackReturnPattern bv cfg e ip resp rule now n w)) = w_usage w"
  "stores_bounded w \<Longrightarrow> stores_bounded (snd (TrackEndpointUsage bv cfg e ip rule now w))"
  "stores_bounded w \<Longrightarrow> stores_bounded (snd (TrackReturnPattern bv cfg e ip resp rule now n w))"
  by (simp_all add: stores_bounded_def track_frame track_bounded)

lemmas processors =
  ProcessUsageRules_def ProcessReturnRules_def ProcessGlobalReturnRules_def ProcessResponse_def

lemma act_stores:
  "stores_bounded w \<Longrightarrow> stores_bounded (snd (ApplyAction env cfg rule ip d w))"
  "stores_bounded w \<Longrightarrow> stores_bounded (emitBusEvent cfg t a r w)"
  by (simp_all add: stores_bounded_def ApplyAction_frame emitBus_stores)

lemmas loop_stores = run_rules_keeps[where P = stores_bounded, OF _ act_stores]

lemma usage_keeps_stores: "stores_bounded w \<Longrightarrow> stores_bounded (snd (ProcessUsageRules bv env cfg req ip route w))"
  by (simp add: processors Let_def track_stores loop_stores split: option.split)

lemma response_keeps_stores: "stores_bounded w \<Longrightarrow> stores_bounded (snd (ProcessResponse bv env cfg req resp w))"
proof -
  have a: "stores_bounded w \<Longrightarrow> stores_bounded (snd (ProcessReturnRules bv env cfg req r ip route w))" for r ip route w
    by (simp add: processors Let_def track_stores loop_stores split: option.split)
  have b: "stores_bounded w \<Longrightarrow> stores_bounded (snd (ProcessGlobalReturnRules bv env cfg req r ip w))" for r ip w
    by (simp add: processors Let_def track_stores loop_stores)
  assume w: "stores_bounded w"
  show ?thesis
    using a[OF w, of "Some resp"] b[OF a[OF w, of "Some resp"]]
    by (simp add: ProcessResponse_def Let_def split: prod.split option.split) (metis snd_conv)
qed

text \<open>In passive mode the processors neither ban nor panic.\<close>

lemma passive_actions:
  assumes "sc_PassiveMode cfg"
  shows "w_ban w = b \<Longrightarrow> w_ban (snd (ApplyAction env cfg rule ip d w)) = b"
    and "w_ban w = b \<Longrightarrow> w_ban (emitBusEvent cfg t a r w) = b"
    and "fst (ApplyAction env cfg rule ip d w) = None"
  using assms by (simp_all add: ApplyAction_frame emitBus_stores)

lemma passive_processors:
  assumes p: "sc_PassiveMode cfg"
  shows "fst (ProcessUsageRules bv env cfg req ip route w) = None
    \<and> w_ban (snd (ProcessUsageRules bv env cfg req ip route w)) = w_ban w"
    and "fst (ProcessReturnRules bv env cfg req r ip route w) = None
    \<and> w_ban (snd (ProcessReturnRules bv env cfg req r ip route w)) = w_ban w"
    and "fst (ProcessGlobalReturnRules bv env cfg req r ip w) = None
    \<and> w_ban (snd (ProcessGlobalReturnRules bv env cfg req r ip w)) = w_ban w"
proof -
  note none = run_rules_no_panic[OF passive_actions(3)[OF p]]
  note keeps = run_rules_keeps[where P = "\<lambda>v. w_ban v = w_ban w", OF _ passive_actions(1,2)[OF p]]
  show "fst (ProcessUsageRules bv env cfg req ip route w) = None
    \<and> w_ban (snd (ProcessUsageRules bv env cfg req ip route w)) = w_ban w"
    by (simp add: processors Let_def none keeps track_frame split: option.split)
  show "fst (ProcessReturnRules bv env cfg req r ip route w) = None
    \<and> w_ban (snd (ProcessReturnRules bv env cfg req r ip route w)) = w_ban w"
    by (simp add: processors Let_def none keeps track_frame split: option.split)
  show "fst (ProcessGlobalReturnRules bv env cfg req r ip w) = None
    \<and> w_ban (snd (ProcessGlobalReturnRules bv env cfg req r ip w)) = w_ban w"
    by (simp add: processors Let_def none keeps track_frame)
qed

text \<open>A loop in which no rule trips.\<close>

lemma run_rules_quiet:
  assumes "\<And>rule v. rule \<in> set rules \<Longrightarrow> P v \<Longrightarrow> \<not> fst (track rule v) \<and> P (snd (track rule v))" "P w"
  shows "fst (run_rules env cfg ip track texts rules w) = None \<and> P (snd (run_rules env cfg ip track texts rules w))"
  using assms
proof (induction rules arbitrary: w)
  case (Cons rule rules)
  obtain w1 where "track rule w = (False, w1)" "P w1"
    using Cons.prems(1)[of rule w] Cons.prems(2) by (metis (full_types) list.set_intros(1) prod.collapse)
  then show ?case using Cons.IH[of w1] Cons.prems(1) by simp
qed simp

text \<open>Tracking in the local store.\<close>

lemma local_usage:
  assumes "bv_redis bv = None"
  shows "TrackEndpointUsage bv cfg e ip rule now w =
     (br_Threshold rule < 1 + int (length (filter (\<lambda>u. u \<ge> now - of_int (br_Window rule)) (row_of (w_usage w) e ip))),
      w\<lparr>w_usage := snd (trackLocal (bv_victim bv) e ip now (now - of_int (br_Window rule)) (w_usage w))\<rparr>)"
  by (simp add: TrackEndpointUsage_def redis_verdict_def assms case_prod_beta track_count)

text \<open>An environment without Redis for the witnesses.\<close>

definition wt_bv :: "unit behavior_env" where
  "wt_bv = \<lparr>bv_redis = None, bv_victim = (\<lambda>_. 0), bv_hash = (\<lambda>s. s), bv_json = (\<lambda>_. None), bv_show = (\<lambda>_. []),
     bv_regex = (\<lambda>_ _. None), bv_lower = lower_ascii, bv_equalFold = (\<lambda>a b. lower_ascii a = lower_ascii b),
     bv_redact = (\<lambda>s. s), bv_clock = 0\<rparr>"

end
