(* ===== verification/Decisions.thy ===== *)
theory Decisions
  imports Access
begin

text \<open>
  What the checks of \<open>Checks\<close> and \<open>Access\<close> decide: the counters of suspicious requests count exactly, an
  address is admitted exactly under the access rule, an automatic ban holds for the next requests of
  the client, and time windows are intervals of the day, across midnight too.
\<close>

section \<open>Counters\<close>

lemma per_ip_record:
  "per_ip (recordCategories ip cs store) other =
     (if other = ip then fold bump cs (per_ip store ip) else per_ip store other)"
  by (simp add: per_ip_def recordCategories_def map_of_update)

lemma sum_bump: "sum_list (map snd (bump c m)) = sum_list (map snd m) + 1"
proof -
  have "sum_list (map snd (AList.update c v m)) = sum_list (map snd m)
      + v - (case map_of m c of None \<Rightarrow> 0 | Some n \<Rightarrow> n)" for v :: int
    by (induction m) auto
  then show ?thesis by (simp add: bump_def split: option.split)
qed

lemma sum_bumps: "sum_list (map snd (fold bump cs m)) = sum_list (map snd m) + int (length cs)"
  by (induction cs arbitrary: m) (simp_all add: sum_bump)

lemma count_bumps:
  "(case map_of (fold bump cs m) c of None \<Rightarrow> 0 | Some n \<Rightarrow> n)
     = (case map_of m c of None \<Rightarrow> 0 | Some n \<Rightarrow> n) + int (count_list cs c)"
  by (induction cs arbitrary: m) (simp_all add: bump_def map_of_update split: option.split)

text \<open>Recording the categories of a request adds to each counter of its client the number of times
  the category occurs, to the client's total the number of categories, and leaves other clients alone.\<close>

theorem recordCategories_counts:
  "countFor (recordCategories ip cs store) other c
     = countFor store other c + (if other = ip then int (count_list cs c) else 0)
   \<and> totalCountFor (recordCategories ip cs store) other
     = totalCountFor store other + (if other = ip then int (length cs) else 0)"
  by (simp add: countFor_def totalCountFor_def per_ip_record count_bumps sum_bumps)

section \<open>The access rule\<close>

text \<open>The rule in closed form: what the lists and the countries of an address have to satisfy.\<close>

definition country_of :: "SecurityConfig \<Rightarrow> string \<Rightarrow> string option" where
  "country_of cfg ip = Option.bind (sc_GeoIPHandler cfg) (\<lambda>f. f ip)"

definition country_ok :: "SecurityConfig \<Rightarrow> string \<Rightarrow> bool" where
  "country_ok cfg ip \<longleftrightarrow>
     sc_GeoIPHandler cfg = None \<or> (\<exists>a. ParseAddr ip = Some a \<and> addr_loopback a)
     \<or> (if sc_WhitelistCountries cfg \<noteq> []
        then \<exists>c. country_of cfg ip = Some c \<and> c \<in> set (sc_WhitelistCountries cfg)
        else \<forall>c. country_of cfg ip = Some c \<longrightarrow> c \<notin> set (sc_BlockedCountries cfg))"

definition global_ok :: "SecurityConfig \<Rightarrow> string \<Rightarrow> bool \<Rightarrow> bool" where
  "global_ok cfg ip skipCountries \<longleftrightarrow>
     \<not> ipMatchesList ip (sc_Blacklist cfg)
     \<and> (if sc_Whitelist cfg \<noteq> [] then ipMatchesList ip (sc_Whitelist cfg)
        else skipCountries \<or> country_ok cfg ip)"

definition route_country_ok :: "SecurityConfig \<Rightarrow> string \<Rightarrow> RouteConfig \<Rightarrow> bool" where
  "route_country_ok cfg ip rc \<longleftrightarrow>
     sc_GeoIPHandler cfg = None
     \<or> (\<forall>c. country_of cfg ip = Some c \<and> c \<noteq> [] \<longrightarrow> c \<notin> set (rc_BlockedCountries rc))
       \<and> (rc_WhitelistCountries rc = []
          \<or> (\<exists>c. country_of cfg ip = Some c \<and> c \<noteq> [] \<and> c \<in> set (rc_WhitelistCountries rc)))"

definition route_ok :: "SecurityConfig \<Rightarrow> string \<Rightarrow> RouteConfig \<Rightarrow> bool" where
  "route_ok cfg ip rc \<longleftrightarrow>
     \<not> ipMatchesList ip (rc_IPBlacklist rc)
     \<and> (rc_IPWhitelist rc = [] \<or> ipMatchesList ip (rc_IPWhitelist rc))
     \<and> route_country_ok cfg ip rc"

definition route_clears_country :: "SecurityConfig \<Rightarrow> RouteConfig \<Rightarrow> bool" where
  "route_clears_country cfg rc \<longleftrightarrow> sc_GeoIPHandler cfg \<noteq> None \<and> rc_WhitelistCountries rc \<noteq> []"

definition access_ok :: "SecurityConfig \<Rightarrow> RequestState \<Rightarrow> string \<Rightarrow> bool" where
  "access_ok cfg st ip \<longleftrightarrow>
     (if st_ExclusionScoped st then global_ok cfg ip False
      else fst (HasBypass ''ip'' st)
        \<or> (case st_RouteConfig st of
             None \<Rightarrow> global_ok cfg ip False
           | Some rc \<Rightarrow> route_ok cfg ip rc \<and> global_ok cfg ip (route_clears_country cfg rc)))"

lemma containsCountry_iff [simp]: "containsCountry entries c \<longleftrightarrow> c \<in> set entries"
  by (induction entries) (auto simp: containsCountry_def)

lemma ipMatchesList_Nil [simp]: "\<not> ipMatchesList ip []"
  by (simp add: ipMatchesList_def split: option.splits)

lemma globalCountryVerdict_iff: "globalCountryVerdict cfg ip = None \<longleftrightarrow> country_ok cfg ip"
  by (auto simp: globalCountryVerdict_def country_ok_def country_of_def Let_def split: option.splits)

lemma routeCountry_iff:
  "routeCountryAccess ip (Some rc) (sc_GeoIPHandler cfg) = countryDenied \<longleftrightarrow> \<not> route_country_ok cfg ip rc"
  by (auto simp: routeCountryAccess_def routeCountryAccessDetail_def route_country_ok_def country_of_def Let_def
      split: option.splits)

lemma routeCountry_allowed:
  "route_country_ok cfg ip rc \<Longrightarrow>
   routeCountryAccess ip (Some rc) (sc_GeoIPHandler cfg) = countryAllowed \<longleftrightarrow> route_clears_country cfg rc"
  by (auto simp: routeCountryAccess_def routeCountryAccessDetail_def route_country_ok_def country_of_def
      route_clears_country_def Let_def split: option.splits)

lemma deny_blocks: "\<not> sc_PassiveMode cfg \<Longrightarrow> fst (deny env cfg req ip r w) \<noteq> Inr None"
  by (simp add: deny_def Let_def split: prod.splits option.splits)

lemma checkGlobal_decides:
  assumes "\<not> sc_PassiveMode cfg"
  shows "fst (checkGlobal env cfg req ip o1 skip w) = Inr None \<longleftrightarrow> global_ok cfg ip skip"
  by (auto simp: deny_blocks[OF assms] checkGlobal_def global_ok_def Let_def globalCountryVerdict_iff[symmetric] split: option.splits)

lemma checkRoute_decides:
  assumes "\<not> sc_PassiveMode cfg"
  shows "fst (checkRouteIPAccess cfg req ip rc w) = Inr None \<longleftrightarrow> route_ok cfg ip rc"
proof -
  obtain v c t where d: "routeCountryAccessDetail ip (Some rc) (sc_GeoIPHandler cfg) = (v, c, t)"
    by (metis prod_cases3)
  then have "v = countryDenied \<longleftrightarrow> \<not> route_country_ok cfg ip rc"
    using routeCountry_iff[of ip rc cfg] by (simp add: routeCountryAccess_def)
  then show ?thesis using assms
    by (auto simp: checkRouteIPAccess_def d Let_def denyRoute_def passive_or_block_def route_lists_block_def route_ok_def)
qed

lemma checkRoute_state: "fst (checkRouteIPAccess cfg req ip rc w) = Inr None \<Longrightarrow> \<not> sc_PassiveMode cfg
    \<Longrightarrow> snd (checkRouteIPAccess cfg req ip rc w) = w"
  by (auto simp: checkRouteIPAccess_def Let_def denyRoute_def passive_or_block_def split: prod.splits if_splits)

lemma HasBypass_again: "fst (HasBypass b (snd (HasBypass a st))) = fst (HasBypass b st)"
  by (simp add: HasBypass_def fill_bypass_def Let_def split: option.splits)

lemma HasBypass_frame [simp]: "st_RouteConfig (snd (HasBypass a st)) = st_RouteConfig st"
  "st_ExclusionScoped (snd (HasBypass a st)) = st_ExclusionScoped st"
  by (simp_all add: HasBypass_def fill_bypass_def Let_def split: option.splits)

lemma fill_bypass_frame [simp]: "st_RouteConfig (fill_bypass st) = st_RouteConfig st"
  "st_ExclusionScoped (fill_bypass st) = st_ExclusionScoped st" "st_ClientIP (fill_bypass st) = st_ClientIP st"
  "st_IsWhitelisted (fill_bypass st) = st_IsWhitelisted st" "st_IsExempt (fill_bypass st) = st_IsExempt st"
  by (simp_all add: fill_bypass_def split: option.splits)

lemma probe_ban_st: "w_st (snd (probe_ban env ip w)) = snd (HasBypass ''ip_ban'' (w_st w))"
  by (simp add: probe_ban_def Let_def split: option.splits prod.splits)

lemma route_then_global_decides:
  assumes "\<not> sc_PassiveMode cfg"
  shows "fst (route_then_global env cfg req ip w) = Inr None \<longleftrightarrow>
    (case st_RouteConfig (w_st w) of
       None \<Rightarrow> global_ok cfg ip False
     | Some rc \<Rightarrow> route_ok cfg ip rc \<and> global_ok cfg ip (route_clears_country cfg rc))"
proof (cases "st_RouteConfig (w_st w)")
  case (Some rc)
  obtain r w1 where r: "checkRouteIPAccess cfg req ip rc w = (r, w1)" by (meson surj_pair)
  have "r = Inr None \<longleftrightarrow> route_ok cfg ip rc" using checkRoute_decides[OF assms, of req ip rc w] r by simp
  moreover have "routeCountryAccess ip (Some rc) (sc_GeoIPHandler cfg) = countryAllowed
      \<longleftrightarrow> route_clears_country cfg rc" if "route_ok cfg ip rc"
    using that routeCountry_allowed[of cfg ip rc] by (simp add: route_ok_def)
  ultimately show ?thesis using Some r
    by (auto simp: route_then_global_def checkGlobal_decides[OF assms] split: sum.splits option.splits)
qed (simp add: route_then_global_def checkGlobal_decides[OF assms])

lemma address_check_decides:
  assumes "\<not> sc_PassiveMode cfg" "resolveClientIP req (w_st w) \<noteq> []"
    and "fst (probe_ban env (resolveClientIP req (w_st w)) w) = Inr False"
  shows "fst (ipSecurityCheck env cfg req w) = Inr None \<longleftrightarrow> access_ok cfg (w_st w) (resolveClientIP req (w_st w))"
proof -
  let ?ip = "resolveClientIP req (w_st w)"
  obtain w1 where p: "probe_ban env ?ip w = (Inr False, w1)" using assms(3) by (metis prod.collapse)
  then have st: "w_st w1 = snd (HasBypass ''ip_ban'' (w_st w))" using probe_ban_st[of env ?ip w] by simp
  show ?thesis using assms(2)
    by (simp add: ipSecurityCheck_def Let_def p st access_ok_def HasBypass_again
        checkGlobal_decides[OF assms(1)] route_then_global_decides[OF assms(1)])
qed

text \<open>C2: In active mode, a request with a client address that the ban manager does not report passes the
  address check exactly when its address satisfies the access rule.\<close>

theorem ip_security_decides:
  assumes "\<not> sc_PassiveMode cfg" "resolveClientIP req (w_st w) \<noteq> []"
    and "fst (probe_ban env (resolveClientIP req (w_st w)) w) = Inr False"
  shows "fst (ipSecurityCheck env cfg req w) = Inr None \<longleftrightarrow> access_ok cfg (w_st w) (resolveClientIP req (w_st w))"
  using assms by (rule address_check_decides)

definition wt_cfg :: SecurityConfig where
  "wt_cfg =
     \<lparr>sc_TrustedProxies = [], sc_TrustedProxyDepth = 1, sc_ExcludePaths = [''/static''],
      sc_TrustXForwardedProto = False, sc_Whitelist = [], sc_ExemptIPs = [], sc_Blacklist = [''10.0.0.1''],
      sc_RedisFailOpen = False, sc_EnableIPBanning = True, sc_AutoBanThreshold = 10, sc_AutoBanDuration = 60,
      sc_ThreatBanConfig = [(''xss'', \<lparr>tb_Threshold = 1, tb_Duration = 60\<rparr>)],
      sc_EnableRateLimitAutoBan = False, sc_EnableRateLimiting = False, sc_RateLimit = 10,
      sc_RateLimitWindow = 60, sc_EndpointRateLimits = [], sc_EnablePenetrationDetection = True,
      sc_Detection = \<lparr>dc_ExcludedDetectionParams = [], dc_ExcludedDetectionBodyFields = [],
        dc_ExcludedDetectionHeaders = [], dc_EnabledDetectionCategories = [], dc_DetectionScanBody = None\<rparr>,
      sc_MaxScanValues = 100, sc_MaxScanChars = 1000, sc_PassiveMode = False, sc_FailSecure = True,
      sc_RouteResolutionStrict = False, sc_CustomErrorResponses = [], sc_SecurityHeaders = None,
      sc_OnBlock = True, sc_MutedCheckLogs = [], sc_EnforceHTTPS = False, sc_EmergencyMode = False,
      sc_EmergencyWhitelist = [], sc_AuthVerifier = None, sc_EnableDynamicRules = False, sc_DynamicRulesCachePath = '''', sc_IPInfoToken = '''',
      sc_BlockCloudProviders = [], sc_BlockedUserAgents = [], sc_WhitelistCountries = [],
      sc_BlockedCountries = [], sc_GeoIPHandler = None, sc_OnGeoEvent = False, sc_CustomRequestCheck = None,
      sc_CustomResponseModifier = None, sc_LogRequestLevel = [], sc_CloudIPRefreshInterval = 3600,
      sc_GlobalBehaviorRules = [], sc_BehaviorScanResponseBody = False,
      sc_BehaviorMaxResponseBodyInspectBytes = 0, sc_revision = 0, sc_bus = False\<rparr>"

definition wt_check_env :: "real \<Rightarrow> check_env" where
  "wt_check_env now =
     \<lparr>en_rl = wt_env, en_now = now, en_tiers = (\<lambda>_. now), en_nowUnix = 0, en_minute = (\<lambda>_. 60),
      en_regex = (\<lambda>_ _. None), en_urlHost = (\<lambda>_. None), en_detect = wt_engine,
      en_body = (\<lambda>_. []), en_isCloud = (\<lambda>_ _. False), en_cloudDetails = (\<lambda>_ _. None), en_redact = id\<rparr>"

definition wt_world :: "(unit, unit) world" where
  "wt_world =
     \<lparr>w_st = new_state\<lparr>st_ClientIP := ''10.0.0.1''\<rparr>, w_ban = Some (NewIPBanManager None () []),
      w_rl = NewRateLimitManager DefaultRateLimitConfig True ''guard_core:'' () None,
      w_counts = [], w_cloud = \<lparr>cs_stamp = 0, cs_inflight = False, cs_scheduled = 0\<rparr>,
      w_usage = [], w_returns = [], w_hooks = [],
      w_events = [], w_handler = [], w_geo = []\<rparr>"

lemma canonicalize_10001 [simp]: "canonicalizeIPString ''10.0.0.1'' = ''10.0.0.1''"
  by (simp add: canonicalizeIPString_def parse_v4_10001 addr_String_def v4_text_def dec.simps dec_char_def
      char_of_def bit_0)

lemma wt_client [simp]: "resolveClientIP req (w_st wt_world) = ''10.0.0.1''"
  by (simp add: resolveClientIP_def wt_world_def)

lemma wt_state: "st_ExclusionScoped (w_st wt_world) = False" "st_RouteConfig (w_st wt_world) = None"
  "fst (HasBypass name0 (w_st wt_world)) = False" "st_IsWhitelisted (w_st wt_world) = False"
  by (simp_all add: wt_world_def new_state_def HasBypass_def fill_bypass_def Let_def)

lemma fresh_not_banned: "fst (IsIPBanned ft ip now (NewIPBanManager None () [])) = Inr False"
  by (subst IsIPBanned_fst[OF New_ok])
    (simp add: Let_def local_live_def network_live_def redis_live_def redisUsable_def NewIPBanManager_def)

lemma matches_10001: "ipMatchesList ''10.0.0.1'' [''10.0.0.1'']"
  by (simp add: ipMatchesList_def ip_entry_matches_def parse_v4_10001 has_suffix_def addr_String_def v4_text_def
      dec.simps dec_char_def char_of_def bit_0)

lemma wt_probe: "fst (probe_ban (wt_check_env 0) ''10.0.0.1'' wt_world) = Inr False"
  using fresh_not_banned[of "rl_float (en_rl (wt_check_env 0))" "''10.0.0.1''" "en_now (wt_check_env 0)"]
  by (auto simp: probe_ban_def Let_def wt_world_def HasBypass_def new_state_def fill_bypass_def split: prod.splits)

theorem ip_security_decides_witness:
  "fst (ipSecurityCheck (wt_check_env 0) wt_cfg (wt_get []) wt_world) \<noteq> Inr None"
proof -
  from ip_security_decides[of wt_cfg "wt_get []" wt_world, unfolded wt_client, OF _ _ wt_probe] show ?thesis
    by (simp add: access_ok_def global_ok_def wt_state wt_cfg_def matches_10001)
qed

section \<open>A ban outlives the request that caused it\<close>

lemma ban_call_ban: "w_ban (snd (ban_call env ip d r b w)) = Some (snd (Ban (rl_float (en_rl env)) ip d r (en_now env) b))"
  "fst (ban_call env ip d r b w) = fst (Ban (rl_float (en_rl env)) ip d r (en_now env) b)"
  by (simp_all add: ban_call_def split: prod.splits)

lemma registerViolations_bans:
  assumes "registerViolations env cfg ip categories w = (Inr True, w1)" "pred_option cache_ok (w_ban w)"
    "CHR ''/'' \<notin> set (CanonicalizeIP ip)"
    "\<forall>c \<in> set categories. t \<le> en_now env + of_int (snd (category_ban cfg c))"
    "t \<le> millis (en_now env) + of_int LOCAL_CACHE_TTL_CAP_SECONDS"
  shows "\<exists>b. w_ban w1 = Some b \<and> cache_ok b \<and> local_live (CanonicalizeIP ip) t b"
  using assms(1,2,4)
proof (induction categories arbitrary: w)
  case (Cons c cs)
  then obtain b where b: "(if sc_EnableIPBanning cfg then w_ban w else None) = Some b"
    by (auto split: option.splits)
  then have w: "w_ban w = Some b" "cache_ok b" using Cons.prems(2) by (simp_all split: if_splits)
  obtain r w2 where r: "ban_call env ip (snd (category_ban cfg c)) (''penetration:'' @ c) b w = (r, w2)"
    by (meson surj_pair)
  define reason where "reason = ''penetration:'' @ c"
  let ?ban = "Ban (rl_float (en_rl env)) ip (snd (category_ban cfg c)) reason (en_now env) b"
  have call: "w_ban w2 = Some (snd ?ban)" "r = fst ?ban"
    using ban_call_ban[of env ip "snd (category_ban cfg c)" "''penetration:'' @ c" b w] r
    by (simp_all add: reason_def)
  have ok: "pred_option cache_ok (w_ban w2)" using Ban_ok[OF w(2)] call(1) by simp
  have t: "\<forall>c \<in> set cs. t \<le> en_now env + of_int (snd (category_ban cfg c))" using Cons.prems(3) by simp
  show ?case
  proof (cases "countFor (w_counts w) ip c < fst (category_ban cfg c)")
    case True
    then show ?thesis using Cons.prems(1) b Cons.IH[OF _ Cons.prems(2) t] by simp
  next
    case False
    show ?thesis
    proof (cases "r = Inr True")
      case True
      then have "w1 = w2" "fst ?ban = Inr True" using Cons.prems(1) b False r call by simp_all
      then show ?thesis using Ban_local_live[OF w(2) _ assms(3) _ assms(5)] Cons.prems(3) call(1) by auto
    next
      case no: False
      then have "registerViolations env cfg ip cs w2 = (Inr True, w1)
          \<or> registerViolations env cfg ip cs (ban_failed cfg ip w2) = (Inr True, w1)"
        using Cons.prems(1) b False r by (auto split: sum.splits go_error.splits bool.splits)
      then show ?thesis using Cons.IH[OF _ _ t] ok by (auto simp: world_simps)
    qed
  qed
qed simp


definition wt_attacked :: "(unit, unit) world" where
  "wt_attacked = wt_world\<lparr>w_counts := recordCategories ''10.0.0.1'' [''xss''] []\<rparr>"

lemma wt_category: "category_ban wt_cfg ''xss'' = (1, 60)"
  by (simp add: category_ban_def wt_cfg_def)

lemma wt_registers:
  "fst (registerViolations (wt_check_env 0) wt_cfg ''10.0.0.1'' [''xss''] wt_attacked) = Inr True"
proof -
  have c: "countFor (w_counts wt_attacked) ''10.0.0.1'' ''xss'' = 1"
    by (simp add: wt_attacked_def countFor_def per_ip_def recordCategories_def bump_def)
  have b: "sc_EnableIPBanning wt_cfg" "w_ban wt_attacked = Some (NewIPBanManager None () [])"
    by (simp_all add: wt_cfg_def wt_attacked_def wt_world_def)
  have "fst (ban_call (wt_check_env 0) ''10.0.0.1'' 60 (''penetration:'' @ ''xss'')
      (NewIPBanManager None () []) wt_attacked) = Inr True"
    using Ban_10001 by (simp only: ban_call_ban(2)) (simp add: wt_check_env_def wt_env_def)
  then obtain w1 where "ban_call (wt_check_env 0) ''10.0.0.1'' 60 (''penetration:'' @ ''xss'')
      (NewIPBanManager None () []) wt_attacked = (Inr True, w1)" by (metis prod.collapse)
  then show ?thesis by (simp add: b c wt_category)
qed


section \<open>Identity flags of a denied request\<close>

text \<open>A client on the global allow list that the deny list names is refused, yet its request ends
  marked as allow-listed (and exempt when an exempt entry names it), and the attack it carries is not
  counted, although the comment of \<open>checkGlobal\<close> has the exempt flag set only after every deny check.\<close>

theorem denied_request_keeps_allow_flags:
  assumes "\<not> sc_PassiveMode cfg" "ipMatchesList ip (sc_Whitelist cfg)" "ipMatchesList ip (sc_Blacklist cfg)"
  shows "fst (checkGlobal env cfg req ip False skip w) = Inr (Some (createErrorResponse cfg 403 ''Forbidden''))
    \<and> st_IsWhitelisted (w_st (snd (checkGlobal env cfg req ip False skip w)))
    \<and> st_IsExempt (w_st (snd (checkGlobal env cfg req ip False skip w))) = ipMatchesList ip (sc_ExemptIPs cfg)
    \<and> w_counts (snd (checkGlobal env cfg req ip False skip w)) = w_counts w"
proof -
  let ?w = "set_flags True (ipMatchesList ip (sc_ExemptIPs cfg)) w"
  let ?w1 = "emitBusEvent cfg ''ip_blocked'' (blockedOrLoggedAction False) (genericListBlockReason ip)
      (stash (''IP not allowed: '' @ ip @ '' - '' @ genericListBlockReason ip) [] ?w)"
  have "checkGlobal env cfg req ip False skip w = deny env cfg req ip (genericListBlockReason ip) ?w"
    using assms by (auto simp: checkGlobal_def Let_def)
  moreover have "escalateIdentityViolation env cfg req ip ?w1 = (None, ?w1)"
    by (simp add: escalateIdentityViolation_def world_simps set_flags_def stashBlock_def split: prod.splits)
  ultimately have "checkGlobal env cfg req ip False skip w
      = (Inr (Some (createErrorResponse cfg 403 ''Forbidden'')), ?w1)"
    using assms(1) by (simp add: deny_def Let_def)
  then show ?thesis by (simp add: world_simps set_flags_def stashBlock_def)
qed

theorem denied_request_keeps_allow_flags_witness:
  "st_IsWhitelisted (w_st (snd (checkGlobal (wt_check_env 0) (wt_cfg\<lparr>sc_Whitelist := [''10.0.0.1'']\<rparr>) (wt_get [])
      ''10.0.0.1'' False False wt_world)))"
  using denied_request_keeps_allow_flags[of "wt_cfg\<lparr>sc_Whitelist := [''10.0.0.1'']\<rparr>" "''10.0.0.1''"
      "wt_check_env 0" "wt_get []" False wt_world]
  by (simp add: wt_cfg_def matches_10001)

section \<open>Time windows\<close>

lemma dec_char_less: "a < 10 \<Longrightarrow> b < 10 \<Longrightarrow> dec_char a < dec_char b \<longleftrightarrow> a < b"
  by (simp add: less_char_def dec_char_def)

lemma dec_char_eq: "a < 10 \<Longrightarrow> b < 10 \<Longrightarrow> dec_char a = dec_char b \<longleftrightarrow> a = b"
  using dec_char_less[of a b] dec_char_less[of b a] by (metis less_irrefl linorder_neqE_nat)

lemma less_div_mod:
  "a < b \<longleftrightarrow> a div k < b div k \<or> a div k = b div k \<and> a mod k < b mod k" for a b k :: nat
proof (cases "a div k" "b div k" rule: linorder_cases)
  case equal
  then have "k * (a div k) = k * (b div k)" by simp
  then show ?thesis using equal mult_div_mod_eq[of k a] mult_div_mod_eq[of k b] by linarith
qed (use div_le_mono[of a b k] div_le_mono[of b a k] in \<open>auto simp: not_less[symmetric]\<close>)

lemma two_digits_less:
  assumes "a < 100" "b < 100"
  shows "two_digits a @ xs < two_digits b @ ys \<longleftrightarrow> a < b \<or> a = b \<and> xs < ys"
proof -
  have d: "a div 10 < 10" "b div 10 < 10" using assms by simp_all
  have m: "a mod 10 < 10" "b mod 10 < 10" by simp_all
  have eq: "a = b \<longleftrightarrow> a div 10 = b div 10 \<and> a mod 10 = b mod 10" by (metis mult_div_mod_eq)
  show ?thesis unfolding eq less_div_mod[of a b 10] two_digits_def
    by (simp only: append_Cons append_Nil Cons_less_Cons dec_char_less[OF d] dec_char_eq[OF d] dec_char_less[OF m]
        dec_char_eq[OF m]) blast
qed

lemma clock_text_less:
  assumes "a < 1440" "b < 1440"
  shows "clock_text a < clock_text b \<longleftrightarrow> a < b"
proof -
  have d: "a div 60 < 100" "b div 60 < 100" "a mod 60 < 100" "b mod 60 < 100"
    using assms by (auto intro: less_mult_imp_div_less less_trans[OF mod_less_divisor])
  have e: "two_digits (a mod 60) < two_digits (b mod 60) \<longleftrightarrow> a mod 60 < b mod 60"
    using two_digits_less[OF d(3,4), of "[]" "[]"] by simp
  show ?thesis unfolding less_div_mod[of a b 60] clock_text_def two_digits_less[OF d(1,2)]
    by (simp add: e)
qed

lemma clock_text_le: "a < 1440 \<Longrightarrow> b < 1440 \<Longrightarrow> clock_text a \<le> clock_text b \<longleftrightarrow> a \<le> b"
  using clock_text_less[of b a] by (simp add: linorder_not_less[symmetric])

text \<open>A route restricted to clock times is open exactly from the start to the end minute, both
  included, and a window whose start is later than its end runs over midnight.\<close>

theorem time_window_interval:
  assumes "map_of restrictions ''start'' = Some (clock_text a)" "map_of restrictions ''end'' = Some (clock_text b)"
    and "map_of restrictions ''timezone'' = Some zone" "a < 1440" "b < 1440" "en_minute env zone < 1440"
  shows "checkTimeWindow env restrictions \<longleftrightarrow>
    (if a \<le> b then a \<le> en_minute env zone \<and> en_minute env zone \<le> b
     else a \<le> en_minute env zone \<or> en_minute env zone \<le> b)"
  using assms(4-6)
  by (auto simp: checkTimeWindow_def assms(1-3) Let_def clock_text_less clock_text_le)

theorem time_window_interval_witness:
  "checkTimeWindow (wt_check_env 0)
     [(''start'', clock_text 1320), (''end'', clock_text 360), (''timezone'', ''UTC'')]"
  by (subst time_window_interval[where a = 1320 and b = 360 and zone = "''UTC''"])
    (simp_all add: wt_check_env_def)

end
