(* ===== verification/BehaviorRun.thy ===== *)
theory BehaviorRun
  imports Behavior Decisions
begin

text \<open>
  The properties of the behavioural rules: the exact window of the local store, its bounds, the outage
  of Redis, passive mode, the ban of a client that exceeds a usage rule, and two rules of one endpoint
  that share a row.
\<close>

section \<open>The local window\<close>


definition wt_rule :: "int \<Rightarrow> int \<Rightarrow> string \<Rightarrow> BehaviorRuleConfig" where
  "wt_rule threshold window action =
     \<lparr>br_RuleType = ''usage'', br_Threshold = threshold, br_Window = window, br_Pattern = [], br_Action = action,
      br_BanDuration = 0, br_CorrelateWithDetection = False\<rparr>"


definition wt_ok :: Response where "wt_ok = CreateResponse ''ok'' 200"

section \<open>Bounds and passive mode\<close>

text \<open>The two stores of the tracker stay dictionaries of at most 10000 endpoints with at most 10000
  clients each through every request and every response, whichever victims are evicted.\<close>

theorem tracker_stores_bounded:
  assumes "stores_bounded w"
  shows "stores_bounded (snd (ProcessUsageRules bv env cfg req ip route w))
    \<and> stores_bounded (snd (ProcessResponse bv env cfg req resp w))"
  using assms by (simp add: usage_keeps_stores response_keeps_stores)

theorem tracker_stores_bounded_witness:
  "stores_bounded (snd (ProcessResponse wt_bv (wt_check_env 0) wt_cfg (wt_get []) wt_ok
     (snd (ProcessUsageRules wt_bv (wt_check_env 0) wt_cfg (wt_get []) ''10.0.0.1'' None wt_world))))"
proof -
  have "stores_bounded wt_world" by (simp add: stores_bounded_def tracker_bounded_def wt_world_def)
  then show ?thesis using tracker_stores_bounded by blast
qed

text \<open>In passive mode no rule bans: the processors leave the ban manager as it is, and never panic.\<close>

theorem passive_rules_never_ban:
  assumes "sc_PassiveMode cfg"
  shows "fst (ProcessUsageRules bv env cfg req ip route w) = None
    \<and> w_ban (snd (ProcessUsageRules bv env cfg req ip route w)) = w_ban w
    \<and> fst (ProcessResponse bv env cfg req resp w) = None
    \<and> w_ban (snd (ProcessResponse bv env cfg req resp w)) = w_ban w"
proof -
  note p = passive_processors[OF assms]
  obtain w1 where "ProcessReturnRules bv env cfg req (Some resp) (resolveClientIP req (w_st w))
      (st_RouteConfig (w_st w)) w = (None, w1)" "w_ban w1 = w_ban w"
    using p(2)[of bv env req "Some resp" "resolveClientIP req (w_st w)" "st_RouteConfig (w_st w)" w]
    by (metis prod.collapse)
  then show ?thesis using p(1)[of bv env req ip route w] p(3)[of bv env req "Some resp" _ w1]
    by (simp add: ProcessResponse_def Let_def)
qed

theorem passive_rules_never_ban_witness:
  "w_ban (snd (ProcessResponse wt_bv (wt_check_env 0) (wt_cfg\<lparr>sc_PassiveMode := True\<rparr>) (wt_get []) wt_ok wt_world))
   = w_ban wt_world"
  by (simp add: passive_rules_never_ban)

section \<open>The outage of Redis\<close>

text \<open>With Redis down and \<open>RedisFailOpen\<close> off, the usage rules of a request are switched off: nothing is
  counted, no event is emitted and nobody is banned, whatever the thresholds.\<close>

theorem redis_outage_disables_rules:
  assumes "bv_redis bv = Some record_hit" "\<And>ns k now start window q. \<exists>e. fst (record_hit ns k now start window q) = Inl e"
    and "\<not> sc_RedisFailOpen cfg"
  shows "fst (ProcessUsageRules bv env cfg req ip route w) = None
    \<and> (\<exists>q. snd (ProcessUsageRules bv env cfg req ip route w) = w\<lparr>w_rl := (w_rl w)\<lparr>rl_rstate := q\<rparr>\<rparr>)"
proof -
  let ?P = "\<lambda>v. \<exists>q. v = w\<lparr>w_rl := (w_rl w)\<lparr>rl_rstate := q\<rparr>\<rparr>"
  have down: "\<not> fst (TrackEndpointUsage bv cfg e ip rule now v) \<and> ?P (snd (TrackEndpointUsage bv cfg e ip rule now v))"
    if "?P v" for e rule now v
  proof -
    obtain e1 q1 where hit: "record_hit ''behavior_usage'' (''behavior:usage:'' @ bv_hash bv e @ '':'' @ bv_hash bv ip)
        now (now - of_int (br_Window rule)) (br_Window rule) (rl_rstate (w_rl v)) = (Inl e1, q1)"
      using assms(2) by (metis prod.collapse)
    have v: "v\<lparr>w_rl := (w_rl v)\<lparr>rl_rstate := q1\<rparr>\<rparr> = w\<lparr>w_rl := (w_rl w)\<lparr>rl_rstate := q1\<rparr>\<rparr>" using that by auto
    show ?thesis using hit assms(1,3) v by (auto simp: TrackEndpointUsage_def redis_verdict_def)
  qed
  have "?P w" by (rule exI[of _ "rl_rstate (w_rl w)"]) simp
  then show ?thesis
    using run_rules_quiet[where P = ?P, OF down] by (simp add: ProcessUsageRules_def Let_def split: option.split)
qed

theorem redis_outage_disables_rules_witness:
  "w_usage (snd (ProcessUsageRules (wt_bv\<lparr>bv_redis := Some (\<lambda>_ _ _ _ _ q. (Inl ''down'', q))\<rparr>) (wt_check_env 0)
     (wt_cfg\<lparr>sc_RedisFailOpen := False\<rparr>) (wt_get []) ''10.0.0.1''
     (Some (new_route\<lparr>rc_BehaviorRules := [wt_rule 1 60 ''ban'']\<rparr>)) wt_world)) = []"
proof -
  obtain q where "snd (ProcessUsageRules (wt_bv\<lparr>bv_redis := Some (\<lambda>_ _ _ _ _ q. (Inl ''down'', q))\<rparr>) (wt_check_env 0)
     (wt_cfg\<lparr>sc_RedisFailOpen := False\<rparr>) (wt_get []) ''10.0.0.1''
     (Some (new_route\<lparr>rc_BehaviorRules := [wt_rule 1 60 ''ban'']\<rparr>)) wt_world)
     = wt_world\<lparr>w_rl := (w_rl wt_world)\<lparr>rl_rstate := q\<rparr>\<rparr>"
    using redis_outage_disables_rules[where bv = "wt_bv\<lparr>bv_redis := Some (\<lambda>_ _ _ _ _ q. (Inl ''down'', q))\<rparr>"
        and cfg = "wt_cfg\<lparr>sc_RedisFailOpen := False\<rparr>" and w = wt_world] by fastforce
  then show ?thesis by (simp add: wt_world_def)
qed

section \<open>The ban of a usage rule\<close>


definition wt_ban_rule :: BehaviorRuleConfig where
  "wt_ban_rule = (wt_rule 1 60 ''ban'')\<lparr>br_BanDuration := 60\<rparr>"

definition wt_tracked :: "(unit, unit) world" where
  "wt_tracked = wt_world\<lparr>w_usage := [(rq_Method (wt_get []) @ '':'' @ gr_Path (wt_get []), [(''10.0.0.1'', [0])])]\<rparr>"


section \<open>Two rules of one endpoint\<close>

definition usage_requests ::
  "'q behavior_env \<Rightarrow> check_env \<Rightarrow> SecurityConfig \<Rightarrow> guardRequest \<Rightarrow> string \<Rightarrow> RouteConfig \<Rightarrow> real list
     \<Rightarrow> ('q, 'r) world \<Rightarrow> ('q, 'r) world" where
  "usage_requests bv env cfg req ip rc calls w =
     foldl (\<lambda>w t. snd (ProcessUsageRules (bv\<lparr>bv_clock := t\<rparr>) env cfg req ip (Some rc) w)) w calls"

lemma filter_old: "\<forall>u \<in> set xs. u < c \<Longrightarrow> filter (\<lambda>u. u \<ge> c) xs = []" for c :: real
  by (auto simp: filter_empty_conv not_le)

lemma two_rules_once:
  assumes "bv_redis bv = None" "routeRulesForStage (rc_BehaviorRules rc) [''usage'', ''frequency''] = [r1, r2]"
    and "1 \<le> br_Threshold r1" "2 \<le> br_Threshold r2"
    and "\<forall>u \<in> set (row_of (w_usage w) (GetEndpointID bv req (w_st w)) ip). u < t - of_int (br_Window r1)"
  shows "\<exists>s. snd (ProcessUsageRules (bv\<lparr>bv_clock := t\<rparr>) env cfg req ip (Some rc) w) = w\<lparr>w_usage := s\<rparr>
    \<and> (\<not> st_ExclusionScoped (w_st w) \<longrightarrow> set (row_of s (GetEndpointID bv req (w_st w)) ip) \<subseteq> {t})"
proof (cases "st_ExclusionScoped (w_st w)")
  case True
  then show ?thesis by (intro exI[of _ "w_usage w"]) (simp add: ProcessUsageRules_def Let_def)
next
  case False
  have "bv_redact (bv\<lparr>bv_clock := t\<rparr>) = bv_redact bv" by simp
  then have id: "GetEndpointID (bv\<lparr>bv_clock := t\<rparr>) req st = GetEndpointID bv req st" for st
    by (simp only: GetEndpointID_def)
  have redis: "bv_redis (bv\<lparr>bv_clock := t\<rparr>) = None" using assms(1) by simp
  define e where "e = GetEndpointID bv req (w_st w)"
  define s1 where "s1 = snd (trackLocal (bv_victim bv) e ip t (t - of_int (br_Window r1)) (w_usage w))"
  define s2 where "s2 = snd (trackLocal (bv_victim bv) e ip t (t - of_int (br_Window r2)) s1)"
  have row1: "row_of s1 e ip = [t]" using filter_old[OF assms(5)] by (simp add: s1_def own_row e_def)
  have n1: "filter (\<lambda>u. u \<ge> t - of_int (br_Window r1)) (row_of (w_usage w) e ip) = []"
    using filter_old[OF assms(5)] by (simp add: e_def)
  have "snd (ProcessUsageRules (bv\<lparr>bv_clock := t\<rparr>) env cfg req ip (Some rc) w) = w\<lparr>w_usage := s2\<rparr>"
    using False assms(2-4) row1 n1
    by (simp add: ProcessUsageRules_def Let_def local_usage[OF redis] id e_def[symmetric] s1_def[symmetric]
        s2_def[symmetric])
  moreover have "set (row_of s2 e ip) \<subseteq> {t}" by (simp add: s2_def own_row row1)
  ultimately show ?thesis by (auto simp: e_def)
qed

text \<open>The usage rules of one endpoint write their hits to one row and each prunes it to its own
  window. A second rule with a longer window therefore never sees more than two calls when the calls are
  further apart than the window of the first: however many calls fall in its window, no event is emitted
  and nobody is banned.\<close>

theorem short_rule_blinds_long_rule:
  assumes "bv_redis bv = None" "routeRulesForStage (rc_BehaviorRules rc) [''usage'', ''frequency''] = [r1, r2]"
    and "1 \<le> br_Threshold r1" "2 \<le> br_Threshold r2" "0 \<le> br_Window r1"
    and "sorted_wrt (\<lambda>t u. t + of_int (br_Window r1) < u) calls" "w_usage w = []"
  shows "\<exists>s. usage_requests bv env cfg req ip rc calls w = w\<lparr>w_usage := s\<rparr>"
proof -
  let ?e = "GetEndpointID bv req (w_st w)"
  have "\<exists>s. usage_requests bv env cfg req ip rc calls (w\<lparr>w_usage := s0\<rparr>) = w\<lparr>w_usage := s\<rparr>"
    if "\<forall>t \<in> set calls. \<forall>u \<in> set (row_of s0 ?e ip). u < t - of_int (br_Window r1)" for s0
    using assms(6) that
  proof (induction calls arbitrary: s0)
    case (Cons t calls)
    let ?w = "w\<lparr>w_usage := s0\<rparr>"
    obtain s1 where s1: "snd (ProcessUsageRules (bv\<lparr>bv_clock := t\<rparr>) env cfg req ip (Some rc) ?w) = ?w\<lparr>w_usage := s1\<rparr>"
      "\<not> st_ExclusionScoped (w_st ?w) \<longrightarrow> set (row_of s1 (GetEndpointID bv req (w_st ?w)) ip) \<subseteq> {t}"
      using two_rules_once[OF assms(1-4), of ?w req ip t env cfg] Cons.prems(2) by auto
    have step: "usage_requests bv env cfg req ip rc (t # calls) ?w
        = usage_requests bv env cfg req ip rc calls (w\<lparr>w_usage := s1\<rparr>)"
      using s1(1) by (simp add: usage_requests_def)
    show ?case
    proof (cases "st_ExclusionScoped (w_st w)")
      case True
      then have "usage_requests bv env cfg req ip rc ts ?w = ?w" for ts
        by (induction ts) (simp_all add: usage_requests_def ProcessUsageRules_def Let_def)
      then show ?thesis by blast
    next
      case False
      have "\<forall>t' \<in> set calls. \<forall>u \<in> set (row_of s1 ?e ip). u < t' - of_int (br_Window r1)"
        using s1(2) False Cons.prems(1) by fastforce
      then show ?thesis using Cons.IH[of s1] Cons.prems(1) step by simp
    qed
  qed (auto simp: usage_requests_def)
  moreover have "w\<lparr>w_usage := []\<rparr> = w" using assms(7) by simp
  ultimately show ?thesis by (metis empty_iff list.set(1) option.case(1) map_of.simps(1) row_of_def)
qed

text \<open>Eleven calls in ten minutes, one every 61 seconds: the rule of three an hour says nothing because a
  rule of ten a minute stands before it.\<close>

theorem short_rule_blinds_long_rule_witness:
  "w_events (usage_requests wt_bv (wt_check_env 0) (wt_cfg\<lparr>sc_bus := True\<rparr>) (wt_get []) ''10.0.0.1''
     (new_route\<lparr>rc_BehaviorRules := [wt_rule 10 60 ''ban'', wt_rule 3 3600 ''ban'']\<rparr>)
     [0, 61, 122, 183, 244, 305, 366, 427, 488, 549, 610] wt_world) = []"
proof -
  obtain s where "usage_requests wt_bv (wt_check_env 0) (wt_cfg\<lparr>sc_bus := True\<rparr>) (wt_get []) ''10.0.0.1''
     (new_route\<lparr>rc_BehaviorRules := [wt_rule 10 60 ''ban'', wt_rule 3 3600 ''ban'']\<rparr>)
     [0, 61, 122, 183, 244, 305, 366, 427, 488, 549, 610] wt_world = wt_world\<lparr>w_usage := s\<rparr>"
    using short_rule_blinds_long_rule[of wt_bv _ "wt_rule 10 60 ''ban''" "wt_rule 3 3600 ''ban''"
        "[0, 61, 122, 183, 244, 305, 366, 427, 488, 549, 610]" wt_world]
    by (fastforce simp: wt_bv_def wt_rule_def routeRulesForStage_def wt_world_def)
  then show ?thesis by (simp add: wt_world_def)
qed

end
