(* ===== verification/RedosParser.thy ===== *)
theory RedosParser
  imports Intervals PathMatch
begin

text \<open>
  The regular-expression parser of the ReDoS safety layer: \<open>guardcore/redos_parser.go\<close> and
  \<open>redos_escape.go\<close>. A pattern is its bytes, flags are a set, an error is its message with its position.
  The nesting counter of the source is the number of group levels that are left, so the recursion of
  the group parser is structural; the two loops run on a step bound that \<open>parseRedosPattern_total\<close>
  shows to be enough. The tables of the \<open>unicode\<close> package (case mapping, letters, digits, numbers) are a
  record of functions. The category of a class node is never read and left out.
\<close>

section \<open>Nodes and flags\<close>

datatype re_flag = flagIgnoreCase | flagMultiline | flagDotAll | flagASCII | flagLocale | flagVerbose

type_synonym reFlags = "re_flag set"

definition maxRepeat :: nat where "maxRepeat = 4294967296"
definition maxGroupNestingDepth :: nat where "maxGroupNestingDepth = 20"

datatype anchor_kind = atBeginning | atEnd | atBoundary | atNonBoundary | atBeginString | atEndString

datatype category_kind = catDigit | catNotDigit | catSpace | catNotSpace | catWord | catNotWord

text \<open>Group index 0 is a group that does not capture.\<close>

datatype reNode =
  opLiteral int interval_set reFlags
| opNotLiteral int reFlags
| opAny interval_set reFlags
| opIn interval_set reFlags
| opRepeat (rep_min: nat) (rep_max: nat) (rep_lazy: bool) (rep_body: "reNode list") reFlags
| opBranch "reNode list list" reFlags
| opSubPattern nat string "reNode list" reFlags
| opAssert (look_behind: bool) (look_negative: bool) "reNode list" reFlags
| opAt anchor_kind reFlags
| opGroupRef nat string reFlags

datatype redosParseError = redosParseError (pe_msg: string) (pe_pos: nat) | StepBound

record parsedPattern =
  pp_nodes :: "reNode list"
  pp_groups :: nat
  pp_groupNames :: "(string \<times> nat) list"
  pp_flags :: reFlags

record reParser =
  rx_src :: string
  rx_pos :: nat
  rx_groups :: nat
  rx_openGroups :: "nat set"
  rx_groupNames :: "(string \<times> nat) list"
  rx_flags :: reFlags
  rx_overflow :: bool

type_synonym 'a parsed = "redosParseError + 'a \<times> reParser"

definition and_then :: "'a parsed \<Rightarrow> ('a \<Rightarrow> reParser \<Rightarrow> 'b parsed) \<Rightarrow> 'b parsed" where
  "and_then r f = (case r of Inl e \<Rightarrow> Inl e | Inr (x, p) \<Rightarrow> f x p)"

definition parseErrorAt :: "string \<Rightarrow> nat \<Rightarrow> redosParseError + 'b" where
  "parseErrorAt msg pos = Inl (redosParseError msg pos)"

definition peek :: "reParser \<Rightarrow> char option" where
  "peek p = (if rx_pos p < length (rx_src p) then Some (rx_src p ! rx_pos p) else None)"

definition advance :: "nat \<Rightarrow> reParser \<Rightarrow> reParser" where
  "advance n p = p\<lparr>rx_pos := rx_pos p + n\<rparr>"

definition rest :: "reParser \<Rightarrow> string" where
  "rest p = drop (rx_pos p) (rx_src p)"

section \<open>Character members\<close>

record unicode_tables =
  u_lower :: "int \<Rightarrow> int"
  u_upper :: "int \<Rightarrow> int"
  u_digit :: "int \<Rightarrow> bool"
  u_letter :: "int \<Rightarrow> bool"
  u_number :: "int \<Rightarrow> bool"

definition ascii_digit :: "int \<Rightarrow> bool" where
  "ascii_digit r \<longleftrightarrow> 48 \<le> r \<and> r \<le> 57"

definition ascii_space :: "int \<Rightarrow> bool" where
  "ascii_space r \<longleftrightarrow> r \<in> {32, 9, 10, 13, 12, 11}"

definition ascii_word :: "int \<Rightarrow> bool" where
  "ascii_word r \<longleftrightarrow> r = 95 \<or> ascii_digit r \<or> (97 \<le> r \<and> r \<le> 122) \<or> (65 \<le> r \<and> r \<le> 90)"

definition unicode_word :: "unicode_tables \<Rightarrow> int \<Rightarrow> bool" where
  "unicode_word u r \<longleftrightarrow> r = 95 \<or> u_letter u r \<or> u_number u r"

fun categoryPredicate :: "unicode_tables \<Rightarrow> category_kind \<Rightarrow> bool \<Rightarrow> int \<Rightarrow> bool" where
  "categoryPredicate u catDigit ascii r = (if ascii then ascii_digit r else u_digit u r)"
| "categoryPredicate u catNotDigit ascii r = (if ascii then \<not> ascii_digit r else \<not> u_digit u r)"
| "categoryPredicate u catSpace ascii r = (if ascii then ascii_space r else is_space (nat r))"
| "categoryPredicate u catNotSpace ascii r = (if ascii then \<not> ascii_space r else \<not> is_space (nat r))"
| "categoryPredicate u catWord ascii r = (if ascii then ascii_word r else unicode_word u r)"
| "categoryPredicate u catNotWord ascii r = (if ascii then \<not> ascii_word r else \<not> unicode_word u r)"

text \<open>The loop of \<open>computeCategoryIntervals\<close>; \<open>start\<close> is the source's index when it is not negative.\<close>

fun category_loop :: "(int \<Rightarrow> bool) \<Rightarrow> int list \<Rightarrow> int option \<Rightarrow> redos_interval list \<Rightarrow> redos_interval list" where
  "category_loop pred [] start pairs =
     (case start of None \<Rightarrow> pairs | Some s \<Rightarrow> pairs @ [\<lparr>low = s, high = maxCodePoint\<rparr>])"
| "category_loop pred (cp # cps) start pairs =
     (if pred cp then category_loop pred cps (case start of None \<Rightarrow> Some cp | Some s \<Rightarrow> Some s) pairs
      else
        (case start of
           None \<Rightarrow> category_loop pred cps None pairs
         | Some s \<Rightarrow> category_loop pred cps None (pairs @ [\<lparr>low = s, high = cp - 1\<rparr>])))"

definition computeCategoryIntervals :: "unicode_tables \<Rightarrow> category_kind \<Rightarrow> bool \<Rightarrow> interval_set" where
  "computeCategoryIntervals u category ascii =
     newIntervalSet (category_loop (categoryPredicate u category ascii) [0..maxCodePoint] None [])"

definition anyIntervals :: "reFlags \<Rightarrow> interval_set" where
  "anyIntervals flags =
     (if flagDotAll \<in> flags then fullIntervals else iv_difference fullIntervals (singleInterval 10))"

definition expand_member :: "unicode_tables \<Rightarrow> int \<Rightarrow> redos_interval list" where
  "expand_member u cp =
     \<lparr>low = cp, high = cp\<rparr>
     # (if u_lower u cp \<noteq> cp then [\<lparr>low = u_lower u cp, high = u_lower u cp\<rparr>] else [])
     @ (if u_upper u cp \<noteq> cp then [\<lparr>low = u_upper u cp, high = u_upper u cp\<rparr>] else [])"

definition expand_interval :: "unicode_tables \<Rightarrow> redos_interval \<Rightarrow> redos_interval list" where
  "expand_interval u iv =
     (let ceiling = (if low iv + 4096 > high iv + 1 then high iv + 1 else low iv + 4096) in
      concat (map (expand_member u) [low iv..ceiling - 1])
      @ (if high iv \<ge> ceiling then [\<lparr>low = ceiling, high = high iv\<rparr>] else []))"

definition expandIgnoreCase :: "unicode_tables \<Rightarrow> interval_set \<Rightarrow> reFlags \<Rightarrow> interval_set" where
  "expandIgnoreCase u iv flags =
     (if flagIgnoreCase \<notin> flags then iv else newIntervalSet (concat (map (expand_interval u) iv)))"

definition categoryIntervalsFor :: "unicode_tables \<Rightarrow> category_kind \<Rightarrow> reFlags \<Rightarrow> interval_set" where
  "categoryIntervalsFor u category flags =
     (let ascii = (flagASCII \<in> flags); iv = computeCategoryIntervals u category ascii in
      if flagIgnoreCase \<in> flags \<and> \<not> ascii then expandIgnoreCase u iv flags else iv)"

definition literalNode :: "unicode_tables \<Rightarrow> int \<Rightarrow> reParser \<Rightarrow> reNode" where
  "literalNode u ch p = opLiteral ch (expandIgnoreCase u (singleInterval ch) (rx_flags p)) (rx_flags p)"

definition byte_rune :: "char \<Rightarrow> int" where
  "byte_rune c = int (byte c)"

section \<open>Quantifiers and verbose text\<close>

definition is_digits :: "string \<Rightarrow> bool" where
  "is_digits s = list_all is_digit s"

fun parse_decimal_from :: "nat \<Rightarrow> string \<Rightarrow> nat option" where
  "parse_decimal_from n [] = Some n"
| "parse_decimal_from n (c # cs) =
     (if \<not> is_digit c then None
      else if n * 10 + digit_val c > maxRepeat then None
      else parse_decimal_from (n * 10 + digit_val c) cs)"

definition parseDecimal :: "string \<Rightarrow> nat option" where
  "parseDecimal s = parse_decimal_from 0 s"

text \<open>A quantifier: lower and upper bound and the bytes it takes, or \<open>None\<close> for a literal brace.\<close>

definition brace_quantifier :: "reParser \<Rightarrow> (nat \<times> nat \<times> nat) option \<times> reParser" where
  "brace_quantifier p =
     (case index_byte (rest p) (CHR ''}'') of
        None \<Rightarrow> (None, p)
      | Some e \<Rightarrow>
          (let parts = split_on (CHR '','') (slice (rx_src p) (rx_pos p + 1) (rx_pos p + e));
               lowStr = hd parts; highStr = last parts
           in if length parts > 2 \<or> (lowStr = [] \<and> highStr = []) then (None, p)
              else
                (case (parseDecimal lowStr, parseDecimal highStr) of
                   (Some lo, Some hi) \<Rightarrow>
                     (let hmax = (if highStr = [] then maxRepeat else hi) in
                      if lo > hmax then (None, p) else (Some (lo, hmax, e + 1), advance (e + 1) p))
                 | (l, h) \<Rightarrow>
                     (None, p\<lparr>rx_overflow :=
                        rx_overflow p \<or> (l = None \<and> is_digits lowStr) \<or> (h = None \<and> is_digits highStr)\<rparr>))))"

definition parseQuantifier :: "reParser \<Rightarrow> (nat \<times> nat \<times> nat) option \<times> reParser" where
  "parseQuantifier p =
     (case peek p of
        Some c \<Rightarrow>
          (if c = CHR ''*'' then (Some (0, maxRepeat, 1), advance 1 p)
           else if c = CHR ''+'' then (Some (1, maxRepeat, 1), advance 1 p)
           else if c = CHR ''?'' then (Some (0, 1, 1), advance 1 p)
           else if c = CHR 0x7B then brace_quantifier p
           else (None, p))
      | None \<Rightarrow> (None, p))"

text \<open>The probe restores the position and keeps the overflow mark.\<close>

definition probeQuantifier :: "reParser \<Rightarrow> bool \<times> reParser" where
  "probeQuantifier p =
     (case parseQuantifier p of (q, p1) \<Rightarrow> (q \<noteq> None, p1\<lparr>rx_pos := rx_pos p\<rparr>))"

definition verbose_space :: "char \<Rightarrow> bool" where
  "verbose_space c \<longleftrightarrow> byte c \<in> {32, 9, 10, 13, 12, 11}"

function skip_verbose_text :: "string \<Rightarrow> string" where
  "skip_verbose_text [] = []"
| "skip_verbose_text (c # cs) =
     (if verbose_space c then skip_verbose_text cs
      else if c = CHR ''#'' then
        (case index_byte (c # cs) (CHR 0x0A) of None \<Rightarrow> [] | Some k \<Rightarrow> skip_verbose_text (drop k cs))
      else c # cs)"
  by pat_completeness auto
termination by (relation "measure length") auto

definition skipVerbose :: "reParser \<Rightarrow> reParser" where
  "skipVerbose p =
     (if flagVerbose \<notin> rx_flags p then p
      else advance (length (rest p) - length (skip_verbose_text (rest p))) p)"

section \<open>Escapes and classes\<close>

definition is_octal :: "char \<Rightarrow> bool" where
  "is_octal c \<longleftrightarrow> 48 \<le> byte c \<and> byte c \<le> 55"

definition is_letter :: "char \<Rightarrow> bool" where
  "is_letter c \<longleftrightarrow> (97 \<le> byte c \<and> byte c \<le> 122) \<or> (65 \<le> byte c \<and> byte c \<le> 90)"

definition bad_escape :: "char \<Rightarrow> string" where
  "bad_escape c = ''bad escape '' @ [CHR 0x5C, c]"

fun escapeCategory :: "char \<Rightarrow> category_kind" where
  "escapeCategory c =
     (if c = CHR ''d'' then catDigit else if c = CHR ''D'' then catNotDigit
      else if c = CHR ''w'' then catWord else if c = CHR ''W'' then catNotWord
      else if c = CHR ''s'' then catSpace else if c = CHR ''S'' then catNotSpace else catDigit)"

definition is_category :: "char \<Rightarrow> bool" where
  "is_category c \<longleftrightarrow> c \<in> set ''dDwWsS''"

definition simpleEscapeChar :: "char \<Rightarrow> int option" where
  "simpleEscapeChar c =
     (if c = CHR ''n'' then Some 10 else if c = CHR ''r'' then Some 13 else if c = CHR ''t'' then Some 9
      else if c = CHR ''f'' then Some 12 else if c = CHR ''v'' then Some 11 else if c = CHR ''a'' then Some 7
      else None)"

definition octal_value :: "string \<Rightarrow> nat" where
  "octal_value ds = foldl (\<lambda>v c. v * 8 + (byte c - 48)) 0 ds"

definition parseOctalDigits :: "string \<Rightarrow> nat \<Rightarrow> redosParseError + int" where
  "parseOctalDigits digits start =
     (if octal_value digits > 255
      then parseErrorAt (''octal escape value '' @ [CHR 0x5C] @ digits @ '' outside of range 0-0o377'') start
      else Inr (int (octal_value digits)))"

definition mapWidth :: "nat \<Rightarrow> string" where
  "mapWidth width = (if width = 2 then ''x'' else if width = 4 then ''u'' else ''U'')"

definition parseHexEscape :: "nat \<Rightarrow> nat \<Rightarrow> reParser \<Rightarrow> int parsed" where
  "parseHexEscape start width p =
     (if rx_pos p + width > length (rx_src p)
      then parseErrorAt (''incomplete escape '' @ [CHR 0x5C] @ mapWidth width) start
      else
        (let txt = slice (rx_src p) (rx_pos p) (rx_pos p + width);
             val = foldl (\<lambda>v c. v * 16 + hexValue c) 0 txt
         in if \<not> list_all isHexDigit txt then parseErrorAt ''incomplete escape'' start
            else if int val > maxCodePoint
            then parseErrorAt (''invalid escape value '' @ [CHR 0x5C] @ txt) start
            else Inr (int val, advance width p)))"

definition parseGroupReference :: "nat \<Rightarrow> string \<Rightarrow> reParser \<Rightarrow> reNode parsed" where
  "parseGroupReference start digits p =
     (let group = foldl (\<lambda>v c. v * 10 + digit_val c) 0 digits in
      if group < rx_groups p then
        (if group \<in> rx_openGroups p then parseErrorAt ''cannot refer to an open group'' start
         else Inr (opGroupRef group [] (rx_flags p), p))
      else parseErrorAt (''invalid group reference '' @ dec group) start)"

text \<open>Up to two more octal digits after the position.\<close>

definition more_octal :: "reParser \<Rightarrow> string" where
  "more_octal p = takeWhile is_octal (take 2 (rest p))"

definition parseDecimalEscape :: "unicode_tables \<Rightarrow> nat \<Rightarrow> reParser \<Rightarrow> reNode parsed" where
  "parseDecimalEscape u start p =
     (let c = rx_src p ! rx_pos p; p1 = advance 1 p in
      if c = CHR ''0'' then
        (let ds = more_octal p1 in
         case parseOctalDigits (c # ds) start of
           Inl e \<Rightarrow> Inl e
         | Inr ch \<Rightarrow> Inr (literalNode u ch p, advance (length ds) p1))
      else
        (case peek p1 of
           Some d \<Rightarrow>
             (if \<not> is_digit d then parseGroupReference start [c] p1
              else
                (case peek (advance 1 p1) of
                   Some e \<Rightarrow>
                     (if is_octal c \<and> is_octal d \<and> is_octal e then
                        (case parseOctalDigits [c, d, e] start of
                           Inl err \<Rightarrow> Inl err
                         | Inr ch \<Rightarrow> Inr (literalNode u ch p, advance 2 p1))
                      else parseGroupReference start [c, d] (advance 1 p1))
                 | None \<Rightarrow> parseGroupReference start [c, d] (advance 1 p1)))
         | None \<Rightarrow> parseGroupReference start [c] p1))"

definition hex_width :: "char \<Rightarrow> nat" where
  "hex_width c = (if c = CHR ''x'' then 2 else if c = CHR ''u'' then 4 else 8)"

definition parseEscapeAtom :: "unicode_tables \<Rightarrow> reParser \<Rightarrow> reNode parsed" where
  "parseEscapeAtom u p0 =
     (let start = rx_pos p0; p = advance 1 p0 in
      case peek p of
        None \<Rightarrow> parseErrorAt ''bad escape (end of pattern)'' start
      | Some c \<Rightarrow>
          (if is_category c
           then Inr (opIn (categoryIntervalsFor u (escapeCategory c) (rx_flags p)) (rx_flags p), advance 1 p)
           else if c = CHR ''b'' then Inr (opAt atBoundary (rx_flags p), advance 1 p)
           else if c = CHR ''B'' then Inr (opAt atNonBoundary (rx_flags p), advance 1 p)
           else if c = CHR ''A'' then Inr (opAt atBeginString (rx_flags p), advance 1 p)
           else if c = CHR ''Z'' then Inr (opAt atEndString (rx_flags p), advance 1 p)
           else if is_digit c then parseDecimalEscape u start p
           else if c \<in> set ''xuU''
           then and_then (parseHexEscape start (hex_width c) (advance 1 p)) (\<lambda>ch q. Inr (literalNode u ch q, q))
           else if c = CHR ''N'' then parseErrorAt (''unknown extension '' @ [CHR 0x5C] @ ''N'') start
           else if is_letter c then
             (case simpleEscapeChar c of
                None \<Rightarrow> parseErrorAt (bad_escape c) start
              | Some ch \<Rightarrow> Inr (literalNode u ch p, advance 1 p))
           else Inr (literalNode u (byte_rune c) p, advance 1 p)))"

text \<open>A member of a class: a character, or the set of a category.\<close>

definition parseClassAtom :: "unicode_tables \<Rightarrow> reParser \<Rightarrow> (int + interval_set) parsed" where
  "parseClassAtom u p0 =
     (let c = rx_src p0 ! rx_pos p0; start = rx_pos p0; p = advance 1 p0 in
      if c \<noteq> CHR 0x5C then Inr (Inl (byte_rune c), p)
      else
        (case peek p of
           None \<Rightarrow> parseErrorAt ''bad escape (end of pattern)'' start
         | Some e \<Rightarrow>
             (if is_category e
              then Inr (Inr (categoryIntervalsFor u (escapeCategory e) (rx_flags p)), advance 1 p)
              else if e = CHR ''b'' then Inr (Inl 8, advance 1 p)
              else if e \<in> set ''xuU''
              then and_then (parseHexEscape start (hex_width e) (advance 1 p)) (\<lambda>ch q. Inr (Inl ch, q))
              else if is_octal e then
                (let ds = e # more_octal (advance 1 p) in
                 if octal_value ds > 255
                 then parseErrorAt (''octal escape value '' @ ds @ '' outside of range 0-0o377'') start
                 else Inr (Inl (int (octal_value ds)), advance (length ds) p))
              else if e = CHR ''N'' then parseErrorAt (''unknown extension '' @ [CHR 0x5C] @ ''N'') start
              else if is_letter e then
                (case simpleEscapeChar e of
                   None \<Rightarrow> parseErrorAt (bad_escape e) start
                 | Some ch \<Rightarrow> Inr (Inl ch, advance 1 p))
              else Inr (Inl (byte_rune e), advance 1 p))))"

definition is_range :: "reParser \<Rightarrow> bool" where
  "is_range p \<longleftrightarrow>
     rx_pos p + 1 < length (rx_src p) \<and> rx_src p ! rx_pos p = CHR ''-'' \<and> rx_src p ! (rx_pos p + 1) \<noteq> CHR '']''"

text \<open>The members of a class up to its bracket; the first number bounds the steps.\<close>

fun class_loop :: "unicode_tables \<Rightarrow> nat \<Rightarrow> bool \<Rightarrow> interval_set \<Rightarrow> nat \<Rightarrow> reParser \<Rightarrow> interval_set parsed" where
  "class_loop u start is_first members 0 p = Inl StepBound"
| "class_loop u start is_first members (Suc n) p =
     (case peek p of
        None \<Rightarrow> parseErrorAt ''unterminated character set'' start
      | Some c \<Rightarrow>
          (if c = CHR '']'' \<and> \<not> is_first then Inr (members, advance 1 p)
           else
             and_then (parseClassAtom u p) (\<lambda>a p1.
               case a of
                 Inr iv \<Rightarrow> class_loop u start False (iv_union members iv) n p1
               | Inl lo \<Rightarrow>
                   (if is_range p1 then
                      and_then (parseClassAtom u (advance 1 p1)) (\<lambda>b p2.
                        case b of
                          Inr _ \<Rightarrow> parseErrorAt ''bad character range'' start
                        | Inl hi \<Rightarrow>
                            (if hi < lo then parseErrorAt ''bad character range'' start
                             else class_loop u start False
                                    (iv_union members (expandIgnoreCase u (rangeIntervals lo hi) (rx_flags p2))) n p2))
                    else
                      class_loop u start False
                        (iv_union members (expandIgnoreCase u (singleInterval lo) (rx_flags p1))) n p1))))"

definition parseCharClass :: "unicode_tables \<Rightarrow> reParser \<Rightarrow> reNode parsed" where
  "parseCharClass u p0 =
     (let start = rx_pos p0; p1 = advance 1 p0; negated = (peek p1 = Some (CHR ''^''));
          p = (if negated then advance 1 p1 else p1)
      in and_then (class_loop u start True emptyIntervals (Suc (length (rx_src p))) p) (\<lambda>members q.
           Inr (opIn (if negated then iv_complement members else members) (rx_flags q), q)))"

section \<open>Groups\<close>

text \<open>The parser of a group body is a parameter of the rest: the position of the parenthesis and the state
  after the header.\<close>

type_synonym body_parser = "nat \<Rightarrow> reParser \<Rightarrow> reNode list parsed"

definition capture :: "body_parser \<Rightarrow> nat \<Rightarrow> string \<Rightarrow> reParser \<Rightarrow> reNode option parsed" where
  "capture body at0 name p =
     (let idx = rx_groups p;
          p1 = p\<lparr>rx_groups := idx + 1, rx_openGroups := insert idx (rx_openGroups p)\<rparr>
      in and_then (body at0 p1) (\<lambda>nodes q.
           Inr (Some (opSubPattern idx name nodes (rx_flags q)), q\<lparr>rx_openGroups := rx_openGroups q - {idx}\<rparr>)))"

definition parseGroupNameToken :: "char \<Rightarrow> reParser \<Rightarrow> string" where
  "parseGroupNameToken end_byte p = takeWhile (\<lambda>c. c \<noteq> end_byte) (rest p)"

definition name_char :: "nat \<Rightarrow> char \<Rightarrow> bool" where
  "name_char i c \<longleftrightarrow> c = CHR ''_'' \<or> is_letter c \<or> (i > 0 \<and> is_digit c)"

definition quote_name :: "string \<Rightarrow> string" where
  "quote_name s = [CHR 0x27] @ s @ [CHR 0x27]"

definition validateGroupNameError :: "string \<Rightarrow> nat \<Rightarrow> redosParseError option" where
  "validateGroupNameError name pos =
     (if name = [] then Some (redosParseError ''missing group name'' pos)
      else if list_all (\<lambda>(i, c). name_char i c) (enumerate 0 name) then None
      else Some (redosParseError (''bad character in group name '' @ quote_name name) pos))"

definition parseNamedGroup :: "body_parser \<Rightarrow> nat \<Rightarrow> reParser \<Rightarrow> reNode option parsed" where
  "parseNamedGroup body at0 p0 =
     (let p = advance 1 p0; nameStart = rx_pos p; name = parseGroupNameToken (CHR ''>'') p;
          p1 = advance (length name) p
      in case validateGroupNameError name nameStart of
           Some e \<Rightarrow> Inl e
         | None \<Rightarrow>
             (if peek p1 \<noteq> Some (CHR ''>'') then parseErrorAt ''missing >, unterminated name'' at0
              else if map_of (rx_groupNames p1) name \<noteq> None
              then parseErrorAt (''redefinition of group name '' @ quote_name name) nameStart
              else capture body at0 name
                     ((advance 1 p1)\<lparr>rx_groupNames := (name, rx_groups p1) # rx_groupNames p1\<rparr>)))"

definition parseNamedReference :: "nat \<Rightarrow> reParser \<Rightarrow> reNode option parsed" where
  "parseNamedReference at0 p0 =
     (let p = advance 1 p0; name = parseGroupNameToken (CHR '')'') p; p1 = advance (length name) p in
      case validateGroupNameError name (rx_pos p1 - length name) of
        Some e \<Rightarrow> Inl e
      | None \<Rightarrow>
          (if peek p1 \<noteq> Some (CHR '')'') then parseErrorAt ''missing ), unterminated name'' at0
           else
             (case map_of (rx_groupNames p1) name of
                None \<Rightarrow> parseErrorAt (''unknown group name '' @ quote_name name) (at0 + 3)
              | Some idx \<Rightarrow> Inr (Some (opGroupRef idx name (rx_flags p1)), advance 1 p1))))"

definition look_around :: "body_parser \<Rightarrow> nat \<Rightarrow> bool \<Rightarrow> bool \<Rightarrow> reParser \<Rightarrow> reNode option parsed" where
  "look_around body at0 negative behind p =
     and_then (body at0 p) (\<lambda>nodes q. Inr (Some (opAssert behind negative nodes (rx_flags q)), q))"

definition flag_of :: "char \<Rightarrow> re_flag option" where
  "flag_of c =
     (if c = CHR ''i'' then Some flagIgnoreCase else if c = CHR ''m'' then Some flagMultiline
      else if c = CHR ''s'' then Some flagDotAll else if c = CHR ''a'' then Some flagASCII
      else if c = CHR ''L'' then Some flagLocale else if c = CHR ''x'' then Some flagVerbose else None)"

text \<open>The loop of \<open>parseInlineFlags\<close> over the text after the question mark.\<close>

fun inline_flags ::
  "body_parser \<Rightarrow> nat \<Rightarrow> reFlags \<Rightarrow> reFlags \<Rightarrow> bool \<Rightarrow> string \<Rightarrow> reParser \<Rightarrow> reNode option parsed" where
  "inline_flags body at0 add remove negative [] p = parseErrorAt ''unknown flag'' at0"
| "inline_flags body at0 add remove negative (c # cs) p =
     (case flag_of c of
        Some f \<Rightarrow>
          inline_flags body at0 (if negative then add else insert f add) (if negative then insert f remove else remove)
            negative cs (advance 1 p)
      | None \<Rightarrow>
          (if c = CHR ''u'' then inline_flags body at0 add remove negative cs (advance 1 p)
           else if c = CHR ''-'' then
             (if negative then parseErrorAt ''global flags not at the start of the expression'' at0
              else inline_flags body at0 add remove True cs (advance 1 p))
           else if c = CHR '':'' then
             (let saved = rx_flags p in
              and_then (body at0 ((advance 1 p)\<lparr>rx_flags := (saved \<union> add) - remove\<rparr>)) (\<lambda>nodes q.
                Inr (Some (opSubPattern 0 [] nodes saved), q\<lparr>rx_flags := saved\<rparr>)))
           else if c = CHR '')'' then
             (if at0 \<noteq> 0 then parseErrorAt ''global flags not at the start of the expression'' at0
              else Inr (None, (advance 1 p)\<lparr>rx_flags := (rx_flags p \<union> add) - remove\<rparr>))
           else parseErrorAt ''unknown flag'' (rx_pos p)))"

definition parse_extension :: "body_parser \<Rightarrow> nat \<Rightarrow> char \<Rightarrow> reParser \<Rightarrow> reNode option parsed" where
  "parse_extension body at0 c p =
     (if c = CHR ''P'' then
        (let p1 = advance 1 p in
         case peek p1 of
           None \<Rightarrow> parseErrorAt ''unknown extension ?P'' at0
         | Some d \<Rightarrow>
             (if d = CHR ''<'' then parseNamedGroup body at0 p1
              else if d = CHR ''='' then parseNamedReference at0 p1
              else parseErrorAt (''unknown extension ?P'' @ encode_rune (byte d)) at0))
      else if c = CHR ''<'' then
        (let p1 = advance 1 p in
         if peek p1 \<in> {Some (CHR ''=''), Some (CHR ''!'')}
         then look_around body at0 (peek p1 = Some (CHR ''!'')) True (advance 1 p1)
         else parseErrorAt ''unknown extension ?<'' at0)
      else if c = CHR ''='' then look_around body at0 False False (advance 1 p)
      else if c = CHR ''!'' then look_around body at0 True False (advance 1 p)
      else if c = CHR '':'' then
        and_then (body at0 (advance 1 p)) (\<lambda>nodes q. Inr (Some (opSubPattern 0 [] nodes (rx_flags q)), q))
      else if c = CHR ''#'' then
        (case index_byte (rest p) (CHR '')'') of
           None \<Rightarrow> parseErrorAt ''missing ), unterminated comment'' at0
         | Some e \<Rightarrow> Inr (None, advance (e + 1) p))
      else if c = CHR ''>'' then parseErrorAt ''unknown extension ?>'' at0
      else if c = CHR ''('' then parseErrorAt ''unknown extension ?('' at0
      else inline_flags body at0 {} {} False (rest p) p)"

definition parseGroup :: "body_parser \<Rightarrow> reParser \<Rightarrow> reNode option parsed" where
  "parseGroup body p0 =
     (let at0 = rx_pos p0; p = advance 1 p0 in
      case peek p of
        None \<Rightarrow> parseErrorAt ''missing ), unterminated subpattern'' at0
      | Some c \<Rightarrow>
          (if c \<noteq> CHR ''?'' then capture body at0 [] p
           else
             (case peek (advance 1 p) of
                None \<Rightarrow> parseErrorAt ''unknown extension'' at0
              | Some d \<Rightarrow> parse_extension body at0 d (advance 1 p))))"

section \<open>Atoms, items, sequences, alternations\<close>

definition some_node :: "reNode parsed \<Rightarrow> reNode option parsed" where
  "some_node r = and_then r (\<lambda>x p. Inr (Some x, p))"

definition parseAtom :: "unicode_tables \<Rightarrow> body_parser \<Rightarrow> reParser \<Rightarrow> reNode option parsed" where
  "parseAtom u body p =
     (let c = rx_src p ! rx_pos p in
      if c \<in> set ''*+?'' then parseErrorAt ''nothing to repeat'' (rx_pos p)
      else if c = CHR 0x7B then
        (case probeQuantifier p of
           (True, _) \<Rightarrow> parseErrorAt ''nothing to repeat'' (rx_pos p)
         | (False, p1) \<Rightarrow> Inr (Some (literalNode u (byte_rune c) p1), advance 1 p1))
      else if c = CHR ''^'' then Inr (Some (opAt atBeginning (rx_flags p)), advance 1 p)
      else if c = CHR ''$'' then Inr (Some (opAt atEnd (rx_flags p)), advance 1 p)
      else if c = CHR ''['' then some_node (parseCharClass u p)
      else if c = CHR ''('' then parseGroup body p
      else if c = CHR '')'' then Inr (None, p)
      else if c = CHR 0x5C then some_node (parseEscapeAtom u p)
      else if c = CHR ''.'' then Inr (Some (opAny (anyIntervals (rx_flags p)) (rx_flags p)), advance 1 p)
      else Inr (Some (literalNode u (byte_rune c) p), advance 1 p))"

definition is_at :: "reNode \<Rightarrow> bool" where
  "is_at n \<longleftrightarrow> (case n of opAt _ _ \<Rightarrow> True | _ \<Rightarrow> False)"

definition is_repeat :: "reNode \<Rightarrow> bool" where
  "is_repeat n \<longleftrightarrow> (case n of opRepeat _ _ _ _ _ \<Rightarrow> True | _ \<Rightarrow> False)"

text \<open>The quantifier after an atom.\<close>

definition quantify :: "reNode \<Rightarrow> reParser \<Rightarrow> reNode option parsed" where
  "quantify atom p =
     (case parseQuantifier p of
        (None, p1) \<Rightarrow>
          (if rx_overflow p1 then parseErrorAt ''the repetition number is too large'' (rx_pos p1)
           else Inr (Some atom, p1))
      | (Some (qmin, qmax, qlen), p1) \<Rightarrow>
          (if is_at atom then parseErrorAt ''nothing to repeat'' (rx_pos p1 - qlen)
           else if is_repeat atom then parseErrorAt ''multiple repeat'' (rx_pos p1 - qlen)
           else
             (let lazy = (peek p1 = Some (CHR ''?'')); p2 = (if lazy then advance 1 p1 else p1);
                  node = opRepeat qmin qmax lazy [atom] (rx_flags p1)
              in case peek p2 of
                   None \<Rightarrow> Inr (Some node, p2)
                 | Some c \<Rightarrow>
                     (if c \<in> set ''*+?'' then parseErrorAt ''multiple repeat'' (rx_pos p2)
                      else if c = CHR 0x7B then
                        (case probeQuantifier p2 of
                           (True, p3) \<Rightarrow> parseErrorAt ''multiple repeat'' (rx_pos p3)
                         | (False, p3) \<Rightarrow> Inr (Some node, p3))
                      else Inr (Some node, p2)))))"

definition parseItem :: "unicode_tables \<Rightarrow> body_parser \<Rightarrow> reParser \<Rightarrow> reNode option parsed" where
  "parseItem u body p0 =
     (let p = skipVerbose p0 in
      if peek p = None then Inr (None, p)
      else
        and_then (parseAtom u body p) (\<lambda>a p1.
          case a of
            None \<Rightarrow> Inr (None, p1)
          | Some atom \<Rightarrow>
              (let p2 = skipVerbose p1 in
               case peek p2 of
                 None \<Rightarrow> Inr (Some atom, p2)
               | Some c \<Rightarrow>
                   (if c \<in> set ''*+?'' \<or> c = CHR 0x7B then quantify atom p2 else Inr (Some atom, p2)))))"

fun sequence_loop :: "(reParser \<Rightarrow> reNode option parsed) \<Rightarrow> nat \<Rightarrow> reParser \<Rightarrow> reNode list parsed" where
  "sequence_loop item 0 p = Inl StepBound"
| "sequence_loop item (Suc n) p =
     (case peek p of
        None \<Rightarrow> Inr ([], p)
      | Some c \<Rightarrow>
          (if c = CHR ''|'' \<or> c = CHR '')'' then Inr ([], p)
           else
             and_then (item p) (\<lambda>x p1.
               and_then (sequence_loop item n p1) (\<lambda>nodes p2.
                 Inr ((case x of None \<Rightarrow> nodes | Some node \<Rightarrow> node # nodes), p2)))))"

definition parseSequence :: "unicode_tables \<Rightarrow> body_parser \<Rightarrow> reParser \<Rightarrow> reNode list parsed" where
  "parseSequence u body p = sequence_loop (parseItem u body) (Suc (length (rx_src p))) p"

fun branch_loop :: "(reParser \<Rightarrow> reNode list parsed) \<Rightarrow> nat \<Rightarrow> reParser \<Rightarrow> reNode list list parsed" where
  "branch_loop sequence 0 p = Inl StepBound"
| "branch_loop sequence (Suc n) p =
     and_then (sequence p) (\<lambda>nodes p1.
       if peek p1 = Some (CHR ''|'')
       then and_then (branch_loop sequence n (advance 1 p1)) (\<lambda>branches p2. Inr (nodes # branches, p2))
       else Inr ([nodes], p1))"

definition parseAlternations :: "unicode_tables \<Rightarrow> body_parser \<Rightarrow> reParser \<Rightarrow> reNode list parsed" where
  "parseAlternations u body p =
     and_then (branch_loop (parseSequence u body) (Suc (length (rx_src p))) p) (\<lambda>branches q.
       Inr (if length branches = 1 then hd branches else [opBranch branches (rx_flags q)], q))"

text \<open>\<open>parseGroupBody\<close> with the number of levels that may still be opened.\<close>

fun parseGroupBody :: "unicode_tables \<Rightarrow> nat \<Rightarrow> body_parser" where
  "parseGroupBody u 0 at0 p =
     parseErrorAt ''sorry, but this version only supports 20 nested parentheses'' at0"
| "parseGroupBody u (Suc levels) at0 p =
     and_then (parseAlternations u (parseGroupBody u levels) p) (\<lambda>nodes q.
       if peek q \<noteq> Some (CHR '')'') then parseErrorAt ''missing ), unterminated subpattern'' at0
       else Inr (nodes, advance 1 q))"

definition parseRedosPattern :: "unicode_tables \<Rightarrow> string \<Rightarrow> reFlags \<Rightarrow> redosParseError + parsedPattern" where
  "parseRedosPattern u pattern flags =
     (case parseAlternations u (parseGroupBody u maxGroupNestingDepth)
             \<lparr>rx_src = pattern, rx_pos = 0, rx_groups = 1, rx_openGroups = {}, rx_groupNames = [],
              rx_flags = flags, rx_overflow = False\<rparr> of
        Inl e \<Rightarrow> Inl e
      | Inr (nodes, p) \<Rightarrow>
          (if peek p \<noteq> None then parseErrorAt ''unbalanced parenthesis'' (rx_pos p)
           else Inr \<lparr>pp_nodes = nodes, pp_groups = rx_groups p, pp_groupNames = rx_groupNames p,
                     pp_flags = rx_flags p\<rparr>))"

section \<open>Well-formed trees\<close>

definition tables_ok :: "unicode_tables \<Rightarrow> bool" where
  "tables_ok u \<longleftrightarrow>
     (\<forall>cp \<in> {minCodePoint..maxCodePoint}.
        u_lower u cp \<in> {minCodePoint..maxCodePoint} \<and> u_upper u cp \<in> {minCodePoint..maxCodePoint})"

text \<open>What the layers behind the parser rely on: canonical member sets, quantifiers with ordered bounds on
  a single atom that is neither an anchor nor a quantifier, alternations with at least two branches and
  references to groups that were opened.\<close>

fun wf_node :: "nat \<Rightarrow> reNode \<Rightarrow> bool" where
  "wf_node g (opLiteral ch iv fl) \<longleftrightarrow> code_set iv \<and> ch \<in> ivs_set iv"
| "wf_node g (opNotLiteral ch fl) \<longleftrightarrow> True"
| "wf_node g (opAny iv fl) \<longleftrightarrow> code_set iv"
| "wf_node g (opIn iv fl) \<longleftrightarrow> code_set iv"
| "wf_node g (opRepeat lo hi lz ns fl) \<longleftrightarrow>
     lo \<le> hi \<and> hi \<le> maxRepeat
     \<and> (\<exists>n. ns = [n] \<and> \<not> is_at n \<and> \<not> is_repeat n) \<and> (\<forall>n \<in> set ns. wf_node g n)"
| "wf_node g (opBranch nss fl) \<longleftrightarrow> length nss \<ge> 2 \<and> (\<forall>ns \<in> set nss. \<forall>n \<in> set ns. wf_node g n)"
| "wf_node g (opSubPattern i name ns fl) \<longleftrightarrow> i < g \<and> (\<forall>n \<in> set ns. wf_node g n)"
| "wf_node g (opAssert bh ng ns fl) \<longleftrightarrow> (\<forall>n \<in> set ns. wf_node g n)"
| "wf_node g (opAt k fl) \<longleftrightarrow> True"
| "wf_node g (opGroupRef i name fl) \<longleftrightarrow> i < g"

text \<open>The number of groups and assertions around the innermost node is at most \<open>d\<close>.\<close>

fun within_depth :: "nat \<Rightarrow> reNode \<Rightarrow> bool" where
  "within_depth d (opRepeat lo hi lz ns fl) \<longleftrightarrow> (\<forall>n \<in> set ns. within_depth d n)"
| "within_depth d (opBranch nss fl) \<longleftrightarrow> (\<forall>ns \<in> set nss. \<forall>n \<in> set ns. within_depth d n)"
| "within_depth d (opSubPattern i name ns fl) \<longleftrightarrow> 0 < d \<and> (\<forall>n \<in> set ns. within_depth (d - 1) n)"
| "within_depth d (opAssert bh ng ns fl) \<longleftrightarrow> 0 < d \<and> (\<forall>n \<in> set ns. within_depth (d - 1) n)"
| "within_depth d n \<longleftrightarrow> True"

lemma wf_node_mono: "wf_node g n \<Longrightarrow> g \<le> h \<Longrightarrow> wf_node h n"
  by (induction g n rule: wf_node.induct) auto

lemma code_set_any: "code_set (anyIntervals fl)"
  using code_set_difference[of fullIntervals "singleInterval 10"] code_set_full code_set_single[of 10]
  by (simp add: anyIntervals_def minCodePoint_def maxCodePoint_def)

lemma in_range_Un [simp]: "in_range_ivs (s @ t) \<longleftrightarrow> in_range_ivs s \<and> in_range_ivs t"
  "in_range_ivs (iv # t) \<longleftrightarrow> iv_set iv \<subseteq> {minCodePoint..maxCodePoint} \<and> in_range_ivs t"
  "in_range_ivs []"
  by (simp_all add: in_range_ivs_def)

lemma code_set_new:
  assumes "nonempty_ivs ps" "in_range_ivs ps"
  shows "code_set (newIntervalSet ps) \<and> ivs_set (newIntervalSet ps) = ivs_set ps"
  using normalize_ok[OF assms(1)] assms(2) by (simp add: newIntervalSet_def code_set_def in_range_ivs_def)

lemma expand_member_ok:
  assumes "tables_ok u" "cp \<in> {minCodePoint..maxCodePoint}"
  shows "nonempty_ivs (expand_member u cp)" "in_range_ivs (expand_member u cp)" "cp \<in> ivs_set (expand_member u cp)"
  using assms by (auto simp: expand_member_def tables_ok_def iv_set_def)

lemma concat_ok:
  assumes "\<And>x. x \<in> set xs \<Longrightarrow> nonempty_ivs (f x) \<and> in_range_ivs (f x)"
  shows "nonempty_ivs (concat (map f xs)) \<and> in_range_ivs (concat (map f xs))"
  using assms by (induction xs) auto

lemma ivs_set_concat: "ivs_set (concat (map f xs)) = (\<Union>x\<in>set xs. ivs_set (f x))"
  by (induction xs) auto

lemma expand_interval_ok:
  assumes "tables_ok u" "iv_set iv \<subseteq> {minCodePoint..maxCodePoint}"
  shows "nonempty_ivs (expand_interval u iv) \<and> in_range_ivs (expand_interval u iv)
    \<and> iv_set iv \<subseteq> ivs_set (expand_interval u iv)"
proof -
  define c where "c = (if low iv + 4096 > high iv + 1 then high iv + 1 else low iv + 4096)"
  have members: "cp \<in> {minCodePoint..maxCodePoint}" if "cp \<in> set [low iv..c - 1]" for cp
    using that assms(2) by (auto simp: iv_set_def c_def split: if_splits)
  have "nonempty_ivs (concat (map (expand_member u) [low iv..c - 1]))
      \<and> in_range_ivs (concat (map (expand_member u) [low iv..c - 1]))"
    using expand_member_ok(1,2)[OF assms(1) members] by (intro concat_ok) blast
  moreover have "cp \<in> ivs_set (concat (map (expand_member u) [low iv..c - 1]))" if "cp \<in> {low iv..c - 1}" for cp
    using expand_member_ok(3)[OF assms(1) members, of cp] that by (auto simp: ivs_set_concat)
  moreover have "iv_set iv \<subseteq> {low iv..c - 1} \<union> {c..high iv}" by (auto simp: iv_set_def)
  moreover have "expand_interval u iv = concat (map (expand_member u) [low iv..c - 1])
      @ (if high iv \<ge> c then [\<lparr>low = c, high = high iv\<rparr>] else [])"
    by (simp add: expand_interval_def Let_def c_def)
  moreover have "high iv \<ge> c \<Longrightarrow> iv_set \<lparr>low = c, high = high iv\<rparr> \<subseteq> iv_set iv"
    by (auto simp: iv_set_def c_def split: if_splits)
  ultimately show ?thesis using assms(2) by (auto simp: iv_set_def)
qed

lemma expand_ok:
  assumes "tables_ok u" "code_set s"
  shows "code_set (expandIgnoreCase u s fl) \<and> ivs_set s \<subseteq> ivs_set (expandIgnoreCase u s fl)"
proof (cases "flagIgnoreCase \<in> fl")
  case True
  have e: "nonempty_ivs (expand_interval u iv) \<and> in_range_ivs (expand_interval u iv)
      \<and> iv_set iv \<subseteq> ivs_set (expand_interval u iv)" if "iv \<in> set s" for iv
    using expand_interval_ok[OF assms(1), of iv] assms(2) that by (auto simp: code_set_def in_range_ivs_def ivs_set_def)
  then have "nonempty_ivs (concat (map (expand_interval u) s)) \<and> in_range_ivs (concat (map (expand_interval u) s))"
    by (intro concat_ok) blast
  moreover have "ivs_set s \<subseteq> ivs_set (concat (map (expand_interval u) s))"
    using e by (fastforce simp: ivs_set_concat ivs_set_def[of s])
  ultimately show ?thesis using True code_set_new by (simp add: expandIgnoreCase_def)
qed (use assms in \<open>simp add: expandIgnoreCase_def\<close>)

lemma category_loop_ok:
  assumes "sorted cps" "\<forall>cp \<in> set cps. cp \<in> {minCodePoint..maxCodePoint}" "nonempty_ivs pairs" "in_range_ivs pairs"
    and "\<forall>st. start = Some st \<longrightarrow> minCodePoint \<le> st \<and> st \<le> maxCodePoint \<and> (\<forall>cp \<in> set cps. st < cp)" "distinct cps"
  shows "nonempty_ivs (category_loop pred cps start pairs) \<and> in_range_ivs (category_loop pred cps start pairs)"
  using assms
proof (induction pred cps start pairs rule: category_loop.induct)
  case (2 pred cp cps start pairs)
  have lt: "\<forall>x \<in> set cps. cp < x" using "2.prems"(1,6) by (auto simp: order_less_le)
  show ?case
  proof (cases "pred cp")
    case True
    have "nonempty_ivs (category_loop pred cps (Some st) pairs) \<and> in_range_ivs (category_loop pred cps (Some st) pairs)"
      if "(case start of None \<Rightarrow> Some cp | Some s \<Rightarrow> Some s) = Some st" for st
      using "2.IH"(1)[OF True] "2.prems" lt that by (auto split: option.splits)
    then show ?thesis using True by (auto split: option.split)
  next
    case False
    show ?thesis
    proof (cases start)
      case None
      then show ?thesis using False "2.prems" "2.IH"(2) by auto
    next
      case (Some st)
      have "iv_set \<lparr>low = st, high = cp - 1\<rparr> \<subseteq> {minCodePoint..maxCodePoint}"
        using "2.prems"(2,5) Some by (auto simp: iv_set_def)
      then show ?thesis using False Some "2.prems" "2.IH"(3)[OF False Some] by auto
    qed
  qed
qed (auto split: option.split simp: iv_set_def)

lemma category_ok: "tables_ok u \<Longrightarrow> code_set (categoryIntervalsFor u c fl)"
proof -
  assume u: "tables_ok u"
  have "code_set (computeCategoryIntervals u c a)" for a
    unfolding computeCategoryIntervals_def
    by (rule code_set_new[THEN conjunct1]; rule category_loop_ok[THEN conjunct1] category_loop_ok[THEN conjunct2])
      (auto simp: minCodePoint_def)
  then show ?thesis using expand_ok[OF u] by (simp add: categoryIntervalsFor_def Let_def)
qed

section \<open>What every parser keeps\<close>

text \<open>A parser moves forward in its source, opens groups and keeps its names below the group counter; it
  never meets its step bound. \<open>parses p r Q\<close> says that of a result \<open>r\<close> obtained from \<open>p\<close>, and that a value
  satisfies \<open>Q\<close>.\<close>

definition names_ok :: "reParser \<Rightarrow> bool" where
  "names_ok p \<longleftrightarrow> 0 < rx_groups p \<and> (\<forall>(name, i) \<in> set (rx_groupNames p). i < rx_groups p)"

definition moves_to :: "reParser \<Rightarrow> reParser \<Rightarrow> bool" where
  "moves_to p q \<longleftrightarrow>
     rx_src q = rx_src p \<and> rx_pos p \<le> rx_pos q \<and> rx_groups p \<le> rx_groups q \<and> (names_ok p \<longrightarrow> names_ok q)"

definition parses :: "reParser \<Rightarrow> 'a parsed \<Rightarrow> ('a \<Rightarrow> reParser \<Rightarrow> bool) \<Rightarrow> bool" where
  "parses p r Q \<longleftrightarrow> (case r of Inl e \<Rightarrow> e \<noteq> StepBound | Inr (x, q) \<Rightarrow> moves_to p q \<and> Q x q)"

named_theorems parse_rules

lemma moves_refl [simp]: "moves_to p p"
  by (simp add: moves_to_def)

lemma moves_trans: "moves_to p q \<Longrightarrow> moves_to q r \<Longrightarrow> moves_to p r"
  by (simp add: moves_to_def)

lemma advance_simps [simp]:
  "rx_pos (advance n p) = rx_pos p + n" "rx_src (advance n p) = rx_src p" "rx_groups (advance n p) = rx_groups p"
  "rx_flags (advance n p) = rx_flags p" "rx_groupNames (advance n p) = rx_groupNames p"
  "rx_openGroups (advance n p) = rx_openGroups p" "rx_overflow (advance n p) = rx_overflow p"
  by (simp_all add: advance_def)

lemma moves_advance [simp]: "moves_to p q \<Longrightarrow> moves_to p (advance n q)"
  by (simp add: moves_to_def names_ok_def)

lemma is_repeat_simps [simp]:
  "\<not> is_repeat (literalNode u ch p)" "\<not> is_repeat (opIn iv f)" "\<not> is_repeat (opAt k f)" "\<not> is_repeat (opAny iv f)"
  "\<not> is_repeat (opGroupRef i nm f)" "\<not> is_repeat (opSubPattern i nm ns f)" "\<not> is_repeat (opAssert b n ns f)"
  by (simp_all add: is_repeat_def literalNode_def)

lemma moves_update [simp]:
  "moves_to p (q\<lparr>rx_flags := f\<rparr>) = moves_to p q" "moves_to p (q\<lparr>rx_overflow := b\<rparr>) = moves_to p q"
  "moves_to p (q\<lparr>rx_openGroups := g\<rparr>) = moves_to p q"
  by (simp_all add: moves_to_def names_ok_def)

lemma names_ok_simps [simp]:
  "names_ok (advance n p) = names_ok p" "names_ok (p\<lparr>rx_flags := f\<rparr>) = names_ok p"
  "names_ok (p\<lparr>rx_overflow := b\<rparr>) = names_ok p" "names_ok (p\<lparr>rx_openGroups := g\<rparr>) = names_ok p"
  by (simp_all add: names_ok_def)

lemma parses_err [simp, parse_rules]: "parses p (parseErrorAt m k) Q"
  by (simp add: parses_def parseErrorAt_def)

lemma parses_Inr [simp]: "parses p (Inr (x, q)) Q \<longleftrightarrow> moves_to p q \<and> Q x q"
  by (simp add: parses_def)

lemma parses_Inl [simp]: "parses p (Inl e) Q \<longleftrightarrow> e \<noteq> StepBound"
  by (simp add: parses_def)

lemma parses_bind:
  assumes "parses p r P" "\<And>x q. moves_to p q \<Longrightarrow> P x q \<Longrightarrow> parses q (f x q) Q"
  shows "parses p (and_then r f) Q"
  using assms moves_trans by (fastforce simp: parses_def and_then_def split: sum.splits)

lemma parses_later: "parses q r Q \<Longrightarrow> moves_to p q \<Longrightarrow> parses p r Q"
  using moves_trans by (fastforce simp: parses_def split: sum.splits)

lemma parses_weaken: "parses p r P \<Longrightarrow> (\<And>x q. moves_to p q \<Longrightarrow> P x q \<Longrightarrow> Q x q) \<Longrightarrow> parses p r Q"
  by (auto simp: parses_def split: sum.splits)

lemma parses_if [parse_rules]:
  "(b \<Longrightarrow> parses p x Q) \<Longrightarrow> (\<not> b \<Longrightarrow> parses p y Q) \<Longrightarrow> parses p (if b then x else y) Q"
  by simp

lemma parses_option [parse_rules]:
  "(v = None \<Longrightarrow> parses p x Q) \<Longrightarrow> (\<And>a. v = Some a \<Longrightarrow> parses p (f a) Q)
     \<Longrightarrow> parses p (case v of None \<Rightarrow> x | Some a \<Rightarrow> f a) Q"
  by (cases v) simp_all

abbreviation later :: "reParser \<Rightarrow> 'a \<Rightarrow> reParser \<Rightarrow> bool" where
  "later p x q \<equiv> rx_pos p < rx_pos q"

section \<open>Leaves\<close>

lemma brace_quantifier_ok:
  assumes "brace_quantifier p = (r, q)"
  shows "moves_to p q" "r = None \<Longrightarrow> rx_pos q = rx_pos p"
    "r = Some (lo, hi, n) \<Longrightarrow> lo \<le> hi \<and> hi \<le> maxRepeat \<and> rx_pos q = rx_pos p + n \<and> 0 < n"
proof -
  have bound: "parse_decimal_from m s = Some k \<Longrightarrow> m \<le> maxRepeat \<Longrightarrow> k \<le> maxRepeat" for m s k
    by (induction m s rule: parse_decimal_from.induct) (auto split: if_splits)
  have dec: "parseDecimal s = Some k \<Longrightarrow> k \<le> maxRepeat" for s k
    using bound[of 0 s k] by (simp add: parseDecimal_def)
  show "moves_to p q" "r = None \<Longrightarrow> rx_pos q = rx_pos p"
    "r = Some (lo, hi, n) \<Longrightarrow> lo \<le> hi \<and> hi \<le> maxRepeat \<and> rx_pos q = rx_pos p + n \<and> 0 < n"
    using assms dec
    by (auto simp: brace_quantifier_def Let_def split: option.splits if_splits prod.splits)
qed

lemma parseQuantifier_ok:
  assumes "parseQuantifier p = (r, q)"
  shows "moves_to p q" "r = None \<Longrightarrow> rx_pos q = rx_pos p"
    "r = Some (lo, hi, n) \<Longrightarrow> lo \<le> hi \<and> hi \<le> maxRepeat \<and> rx_pos p < rx_pos q"
  using assms brace_quantifier_ok[where p = p and r = r and q = q]
  by (auto simp: parseQuantifier_def maxRepeat_def split: option.splits if_splits)

lemma probeQuantifier_ok: "probeQuantifier p = (b, q) \<Longrightarrow> moves_to p q \<and> rx_pos q = rx_pos p"
  using parseQuantifier_ok(1)[of p]
  by (auto simp: probeQuantifier_def moves_to_def names_ok_def split: prod.splits)

lemma skip_verbose_length: "length (skip_verbose_text s) \<le> length s"
  by (induction s rule: skip_verbose_text.induct) (auto split: option.split)

lemma skipVerbose_ok: "moves_to p (skipVerbose p)" "skipVerbose p = p \<or> rx_pos p < rx_pos (skipVerbose p)"
  by (auto simp: skipVerbose_def advance_def moves_to_def names_ok_def)

lemma literal_ok:
  assumes "tables_ok u" "minCodePoint \<le> ch" "ch \<le> maxCodePoint"
  shows "wf_node g (literalNode u ch p)" "within_depth d (literalNode u ch p)"
    "\<not> is_repeat (literalNode u ch p)"
  using expand_ok[OF assms(1), of "singleInterval ch" "rx_flags p"] code_set_single[OF assms(2,3)]
  by (auto simp: literalNode_def is_repeat_def)

lemma byte_rune_range: "minCodePoint \<le> byte_rune c" "byte_rune c \<le> maxCodePoint"
proof -
  have "byte c < 256" by (rule nat_of_char_less_256)
  then show "minCodePoint \<le> byte_rune c" "byte_rune c \<le> maxCodePoint"
    unfolding byte_rune_def minCodePoint_def maxCodePoint_def by linarith+
qed

lemma octal_bound: "octal_value ds \<le> 255 \<Longrightarrow> int (octal_value ds) \<le> maxCodePoint"
  by (simp add: maxCodePoint_def)

lemma parseHexEscape_ok:
  "parses p (parseHexEscape start width p) (\<lambda>ch q. 0 \<le> ch \<and> ch \<le> maxCodePoint)"
  by (simp add: parseHexEscape_def Let_def)

abbreviation good :: "nat \<Rightarrow> reNode \<Rightarrow> reParser \<Rightarrow> bool" where
  "good d n q \<equiv> wf_node (rx_groups q) n \<and> within_depth d n \<and> \<not> is_repeat n"

lemma group_reference_ok:
  "parses p (parseGroupReference start ds p) (\<lambda>n q. q = p \<and> good d n q)"
  by (simp add: parseGroupReference_def Let_def is_repeat_def)

lemma parseDecimalEscape_ok:
  assumes "tables_ok u"
  shows "parses p (parseDecimalEscape u start p) (\<lambda>n q. rx_pos p < rx_pos q \<and> good d n q)"
proof -
  have ref: "parses p (parseGroupReference start ds (advance k p)) (\<lambda>n q. rx_pos p < rx_pos q \<and> good d n q)"
    if "0 < k" for ds k
    using parses_later[OF group_reference_ok[of "advance k p" start ds d] moves_advance[OF moves_refl]]
    by (rule parses_weaken) (use that in simp_all)
  have adv: "advance k (advance j p) = advance (j + k) p" for j k by (simp add: advance_def add.assoc)
  have lit: "good d (literalNode u (int (octal_value ds)) q) r" if "octal_value ds \<le> 255" for ds q r
    using literal_ok[OF assms, of "int (octal_value ds)"] that by (simp add: minCodePoint_def maxCodePoint_def)
  show ?thesis
    using ref[of 1] ref[of 2]
    by (auto simp: parseDecimalEscape_def Let_def adv parseOctalDigits_def lit not_less numeral_2_eq_2
        parseErrorAt_def split: option.split)
qed

lemma parseEscapeAtom_ok:
  assumes "tables_ok u"
  shows "parses p (parseEscapeAtom u p) (\<lambda>n q. rx_pos p < rx_pos q \<and> good d n q)"
proof -
  let ?p = "advance 1 p" and ?Q = "\<lambda>n q. rx_pos p < rx_pos q \<and> good d n q"
  have dec: "parses p (parseDecimalEscape u start ?p) ?Q" for start
    using parses_later[OF parseDecimalEscape_ok[OF assms, of ?p start d] moves_advance[OF moves_refl]] by (rule parses_weaken) simp
  have hex: "parses p (and_then (parseHexEscape start w (advance 1 ?p)) (\<lambda>ch q. Inr (literalNode u ch q, q))) ?Q" for start w
  proof (rule parses_later[OF parses_bind[OF parseHexEscape_ok]])
    fix ch q
    assume "moves_to (advance 1 ?p) q" "0 \<le> ch \<and> ch \<le> maxCodePoint"
    then show "parses q (Inr (literalNode u ch q, q)) ?Q"
      using literal_ok[OF assms, of ch] by (auto simp: moves_to_def minCodePoint_def)
  qed (simp add: moves_to_def names_ok_def)
  have simple: "simpleEscapeChar c = Some ch \<Longrightarrow> minCodePoint \<le> ch \<and> ch \<le> maxCodePoint" for c ch
    by (auto simp: simpleEscapeChar_def minCodePoint_def maxCodePoint_def split: if_splits)
  have m: "moves_to p (advance 1 ?p)" by (simp add: moves_to_def names_ok_def)
  have lits: "good d (literalNode u ch r) q" if "minCodePoint \<le> ch" "ch \<le> maxCodePoint" for ch r q
    using literal_ok[OF assms that] by blast
  show ?thesis
    unfolding parseEscapeAtom_def Let_def
    by (intro parse_rules dec hex)
      (simp_all add: m category_ok[OF assms] lits[OF byte_rune_range] simple lits)
qed

lemma parseClassAtom_ok:
  assumes "tables_ok u"
  shows "parses p (parseClassAtom u p) (\<lambda>a q. rx_pos p < rx_pos q
    \<and> (case a of Inl ch \<Rightarrow> minCodePoint \<le> ch \<and> ch \<le> maxCodePoint | Inr iv \<Rightarrow> code_set iv))"
proof -
  let ?Q = "\<lambda>a q. rx_pos p < rx_pos q
    \<and> (case a of Inl ch \<Rightarrow> minCodePoint \<le> ch \<and> ch \<le> maxCodePoint | Inr iv \<Rightarrow> code_set iv)"
  have hex: "parses p (and_then (parseHexEscape start w (advance 1 (advance 1 p))) (\<lambda>ch q. Inr (Inl ch, q))) ?Q" for start w
    by (rule parses_later[OF parses_bind[OF parseHexEscape_ok]])
      (auto simp: moves_to_def minCodePoint_def names_ok_def)
  have simple: "simpleEscapeChar c = Some ch \<Longrightarrow> minCodePoint \<le> ch \<and> ch \<le> maxCodePoint" for c ch
    by (auto simp: simpleEscapeChar_def minCodePoint_def maxCodePoint_def split: if_splits)
  show ?thesis
    unfolding parseClassAtom_def Let_def
    by (intro parse_rules hex)
      (simp_all add: category_ok[OF assms] byte_rune_range simple, simp_all add: minCodePoint_def maxCodePoint_def)
qed

section \<open>Classes and groups\<close>

lemma parseClassAtom_later:
  assumes "tables_ok u"
  shows "parses p (parseClassAtom u (advance 1 p)) (\<lambda>a q. rx_pos p < rx_pos q
    \<and> (case a of Inl ch \<Rightarrow> minCodePoint \<le> ch \<and> ch \<le> maxCodePoint | Inr iv \<Rightarrow> code_set iv))"
  using parses_later[OF parseClassAtom_ok[OF assms] moves_advance[OF moves_refl]] by (rule parses_weaken) auto

lemma parses_class_atom:
  "(\<And>ch. a = Inl ch \<Longrightarrow> parses p (f ch) Q) \<Longrightarrow> (\<And>iv. a = Inr iv \<Longrightarrow> parses p (g iv) Q)
     \<Longrightarrow> parses p (case a of Inl ch \<Rightarrow> f ch | Inr iv \<Rightarrow> g iv) Q"
  by (cases a) simp_all

declare class_loop.simps(2) [simp del]

lemma class_loop_ok:
  assumes "tables_ok u" "code_set members" "length (rx_src p) - rx_pos p < n"
  shows "parses p (class_loop u start first members n p) (\<lambda>iv q. rx_pos p < rx_pos q \<and> code_set iv)"
  using assms(2,3)
proof (induction n arbitrary: first members p)
  case (Suc n)
  let ?Q = "\<lambda>iv q. rx_pos p < rx_pos q \<and> code_set iv"
  have loop: "parses q (class_loop u start False s n q) ?Q"
    if "moves_to p q" "rx_pos p < rx_pos q" "code_set s" "peek p \<noteq> None" for s q
  proof (rule parses_weaken[OF Suc.IH[OF that(3)]])
    show "length (rx_src q) - rx_pos q < n"
      using Suc.prems(2) that by (auto simp: peek_def moves_to_def split: if_splits)
  qed (use that(2) in auto)
  have lits: "code_set (iv_union members (expandIgnoreCase u s fl))" if "code_set s" for s fl
    using code_set_union[OF Suc.prems(1)] expand_ok[OF assms(1) that] by blast
  show ?case
    unfolding class_loop.simps
  proof (intro parse_rules parses_bind[OF parseClassAtom_ok[OF assms(1)]]
      parses_bind[OF parseClassAtom_later[OF assms(1)]] parses_class_atom)
    fix c a q iv
    assume "peek p = Some c" "moves_to p q" "a = Inr iv"
      and "rx_pos p < rx_pos q \<and> (case a of Inl ch \<Rightarrow> minCodePoint \<le> ch \<and> ch \<le> maxCodePoint | Inr iv \<Rightarrow> code_set iv)"
    then show "parses q (class_loop u start False (iv_union members iv) n q) ?Q"
      using loop[of q "iv_union members iv"] code_set_union[OF Suc.prems(1)] by simp
  next
    fix c a q lo b q2 hi
    assume "peek p = Some c" "moves_to p q" "moves_to q q2" "rx_pos q < rx_pos q2
      \<and> (case b of Inl ch \<Rightarrow> minCodePoint \<le> ch \<and> ch \<le> maxCodePoint | Inr iv \<Rightarrow> code_set iv)"
      and "rx_pos p < rx_pos q \<and> (case a of Inl ch \<Rightarrow> minCodePoint \<le> ch \<and> ch \<le> maxCodePoint | Inr iv \<Rightarrow> code_set iv)"
    then show "parses q2 (class_loop u start False
        (iv_union members (expandIgnoreCase u (rangeIntervals lo hi) (rx_flags q2))) n q2) ?Q"
      using lits[OF code_set_range[THEN conjunct1]] by (intro loop) (auto simp: moves_to_def)
  next
    fix c a q lo
    assume "peek p = Some c" "moves_to p q" "a = Inl lo"
      and "rx_pos p < rx_pos q \<and> (case a of Inl ch \<Rightarrow> minCodePoint \<le> ch \<and> ch \<le> maxCodePoint | Inr iv \<Rightarrow> code_set iv)"
    then show "parses q (class_loop u start False
        (iv_union members (expandIgnoreCase u (singleInterval lo) (rx_flags q))) n q) ?Q"
      using loop[of q] lits code_set_single[of lo] by simp
  qed (use Suc.prems(1) in simp_all)
qed simp

lemma parseCharClass_ok:
  assumes "tables_ok u"
  shows "parses p (parseCharClass u p) (\<lambda>n q. rx_pos p < rx_pos q \<and> good d n q)"
  unfolding parseCharClass_def Let_def
  by (rule parses_later[OF parses_bind[OF class_loop_ok[OF assms]]])
    (auto simp: code_set_empty code_set_complement moves_to_def less_Suc_eq_le split: if_splits)

definition body_ok :: "nat \<Rightarrow> body_parser \<Rightarrow> bool" where
  "body_ok d body \<longleftrightarrow>
     (\<forall>k p. names_ok p \<longrightarrow>
        parses p (body k p) (\<lambda>ns q. 0 < d \<and> rx_pos p < rx_pos q
          \<and> (\<forall>n \<in> set ns. wf_node (rx_groups q) n \<and> within_depth (d - 1) n)))"

abbreviation good_opt :: "nat \<Rightarrow> reNode option \<Rightarrow> reParser \<Rightarrow> bool" where
  "good_opt d x q \<equiv> (case x of None \<Rightarrow> True | Some n \<Rightarrow> good d n q)"

lemma body_rule:
  assumes "body_ok d body" "names_ok p0" "moves_to p0 p"
    and "\<And>ns q. moves_to p0 q \<Longrightarrow> moves_to p q \<Longrightarrow> rx_pos p < rx_pos q
      \<Longrightarrow> 0 < d \<Longrightarrow> \<forall>n \<in> set ns. wf_node (rx_groups q) n \<and> within_depth (d - 1) n \<Longrightarrow> parses q (f ns q) Q"
  shows "parses p0 (and_then (body k p) f) Q"
proof -
  have "names_ok p" using assms(2,3) by (simp add: moves_to_def)
  then have "parses p (body k p) (\<lambda>ns q. 0 < d \<and> rx_pos p < rx_pos q
          \<and> (\<forall>n \<in> set ns. wf_node (rx_groups q) n \<and> within_depth (d - 1) n))"
    using assms(1) by (simp add: body_ok_def)
  then have "parses p (and_then (body k p) f) Q"
    by (rule parses_bind) (use assms(4) moves_trans[OF assms(3)] in blast)
  then show ?thesis using assms(3) by (rule parses_later)
qed

lemma capture_ok:
  assumes "body_ok d body" "names_ok p0" "moves_to p0 (p\<lparr>rx_groups := Suc (rx_groups p)\<rparr>)"
  shows "parses p0 (capture body k nm p) (\<lambda>x q. rx_pos p < rx_pos q \<and> good_opt d x q)"
  unfolding capture_def Let_def
  by (rule body_rule[OF assms(1,2)]) (use assms(3) in \<open>auto simp: moves_to_def names_ok_def\<close>)

lemma look_around_ok:
  assumes "body_ok d body" "names_ok p0" "moves_to p0 p"
  shows "parses p0 (look_around body k ng bh p) (\<lambda>x q. rx_pos p < rx_pos q \<and> good_opt d x q)"
  unfolding look_around_def by (rule body_rule[OF assms]) auto

lemma inline_flags_ok:
  assumes "body_ok d body" "names_ok p0" "moves_to p0 p" "0 < rx_groups p0"
  shows "parses p0 (inline_flags body k ad re ng cs p) (\<lambda>x q. rx_pos p < rx_pos q \<and> good_opt d x q)"
  using assms(3)
proof (induction cs arbitrary: ad re ng p)
  case (Cons c cs)
  have more: "parses p0 (inline_flags body k ad re ng cs (advance 1 p)) (\<lambda>x q. rx_pos p < rx_pos q \<and> good_opt d x q)"
    for ad re ng
    by (rule parses_weaken[OF Cons.IH]) (use Cons.prems in auto)
  have scoped: "parses p0 (and_then (body k ((advance 1 p)\<lparr>rx_flags := f\<rparr>)) (\<lambda>nodes q.
      Inr (Some (opSubPattern 0 [] nodes fl), q\<lparr>rx_flags := fl\<rparr>)))
      (\<lambda>x q. rx_pos p < rx_pos q \<and> good_opt d x q)" for f fl
    by (rule body_rule[OF assms(1,2)]) (use Cons.prems assms(4) in \<open>auto simp: moves_to_def\<close>)
  show ?case
    unfolding inline_flags.simps Let_def
    by (intro parse_rules more scoped) (use Cons.prems in \<open>simp_all add: moves_to_def names_ok_def\<close>)
qed simp

lemma named_reference_ok:
  assumes "names_ok p"
  shows "parses p (parseNamedReference k p) (\<lambda>x q. rx_pos p < rx_pos q \<and> good_opt d x q)"
proof -
  have "validateGroupNameError nm j = Some e \<Longrightarrow> e \<noteq> StepBound" for nm j e
    by (auto simp: validateGroupNameError_def split: if_splits)
  then show ?thesis
    using assms unfolding parseNamedReference_def Let_def
    by (intro parse_rules) (auto simp: names_ok_def moves_to_def dest!: map_of_SomeD)
qed

lemma named_group_ok:
  assumes "body_ok d body" "names_ok p"
  shows "parses p (parseNamedGroup body k p) (\<lambda>x q. rx_pos p < rx_pos q \<and> good_opt d x q)"
proof -
  have err: "validateGroupNameError nm j = Some e \<Longrightarrow> e \<noteq> StepBound" for nm j e
    by (auto simp: validateGroupNameError_def split: if_splits)
  have cap: "parses p (capture body k nm (q\<lparr>rx_groupNames := (nm, rx_groups q) # rx_groupNames q\<rparr>))
      (\<lambda>x r. rx_pos p < rx_pos r \<and> good_opt d x r)" if "moves_to p q" "rx_pos p < rx_pos q" for nm q
    by (rule parses_weaken[OF capture_ok[OF assms]]) (use that assms(2) in \<open>auto simp: moves_to_def names_ok_def\<close>)
  show ?thesis
    using err cap[of "advance 1 (advance (length (parseGroupNameToken (CHR ''>'') (advance 1 p))) (advance 1 p))"]
    unfolding parseNamedGroup_def Let_def by (intro parse_rules) simp_all
qed

lemma extension_ok:
  assumes "body_ok d body" "names_ok p0" "moves_to p0 p" "0 < rx_groups p0"
  shows "parses p0 (parse_extension body k c p) (\<lambda>x q. rx_pos p < rx_pos q \<and> good_opt d x q)"
proof -
  let ?Q = "\<lambda>x q. rx_pos p < rx_pos q \<and> good_opt d x q"
  have p: "names_ok p" using assms(2,3) by (simp add: moves_to_def)
  have m: "moves_to p0 (advance j (advance i p))" "moves_to p0 (advance i p)" for i j using assms(3) by simp_all
  have named: "parses p0 (parseNamedGroup body k (advance 1 p)) ?Q" "parses p0 (parseNamedReference k (advance 1 p)) ?Q"
    using parses_later[OF named_group_ok[OF assms(1), of "advance 1 p" k] m(2)]
      parses_later[OF named_reference_ok[of "advance 1 p" k d] m(2)] p by (auto elim: parses_weaken)
  have look: "parses p0 (look_around body k ng bh (advance i p)) ?Q"
    "parses p0 (look_around body k ng bh (advance j (advance i p))) ?Q" for ng bh i j
    by (rule parses_weaken[OF look_around_ok[OF assms(1,2) m(2)]], simp,
        rule parses_weaken[OF look_around_ok[OF assms(1,2) m(1)]], simp)
  have group: "parses p0 (and_then (body k (advance 1 p)) (\<lambda>nodes q. Inr (Some (opSubPattern 0 [] nodes (rx_flags q)), q))) ?Q"
    by (rule body_rule[OF assms(1,2) m(2)]) (use assms(4) in \<open>auto simp: moves_to_def\<close>)
  have inline: "parses p0 (inline_flags body k {} {} False (rest p) p) ?Q" by (rule inline_flags_ok[OF assms])
  show ?thesis
    unfolding parse_extension_def Let_def
    by (intro parse_rules named look group inline) (use m in simp_all)
qed

lemma parseGroup_ok:
  assumes "body_ok d body" "names_ok p" "0 < rx_groups p"
  shows "parses p (parseGroup body p) (\<lambda>x q. rx_pos p < rx_pos q \<and> good_opt d x q)"
proof -
  let ?Q = "\<lambda>x q. rx_pos p < rx_pos q \<and> good_opt d x q"
  have cap: "parses p (capture body (rx_pos p) [] (advance 1 p)) ?Q"
    by (rule parses_weaken[OF capture_ok[OF assms(1,2)]]) (use assms(2) in \<open>auto simp: moves_to_def names_ok_def\<close>)
  have ext: "parses p (parse_extension body (rx_pos p) c (advance 1 (advance 1 p))) ?Q" for c
    by (rule parses_weaken[OF extension_ok[OF assms(1,2) _ assms(3)]]) auto
  show ?thesis unfolding parseGroup_def Let_def by (intro parse_rules cap ext)
qed

section \<open>Atoms, items and sequences\<close>

lemma some_node_ok:
  "parses p r (\<lambda>n q. rx_pos p < rx_pos q \<and> good d n q)
     \<Longrightarrow> parses p (some_node r) (\<lambda>x q. rx_pos p < rx_pos q \<and> good_opt d x q)"
  unfolding some_node_def by (erule parses_bind) simp

text \<open>An atom moves forward unless it meets the closing parenthesis.\<close>

lemma parseAtom_ok:
  assumes "tables_ok u" "body_ok d body" "names_ok p" "0 < rx_groups p"
  shows "parses p (parseAtom u body p) (\<lambda>x q. good_opt d x q
    \<and> (rx_pos p < rx_pos q \<or> rx_src p ! rx_pos p = CHR '')'' \<and> x = None \<and> q = p))"
proof -
  let ?Q = "\<lambda>x q. good_opt d x q
    \<and> (rx_pos p < rx_pos q \<or> rx_src p ! rx_pos p = CHR '')'' \<and> x = None \<and> q = p)"
  have fwd: "parses p r (\<lambda>x q. rx_pos p < rx_pos q \<and> good_opt d x q) \<Longrightarrow> parses p r ?Q" for r
    by (erule parses_weaken) simp
  have lit: "good d (literalNode u (byte_rune c) r) q" for c r q
    using literal_ok[OF assms(1) byte_rune_range] by simp
  have probe: "parses p (case probeQuantifier p of (True, _) \<Rightarrow> parseErrorAt m k
      | (False, p1) \<Rightarrow> Inr (Some (literalNode u (byte_rune c) p1), advance 1 p1)) ?Q" for m k c
    using probeQuantifier_ok[of p] lit by (auto split: prod.split bool.split)
  show ?thesis
    unfolding parseAtom_def Let_def
    by (intro parse_rules probe fwd[OF some_node_ok[OF parseCharClass_ok[OF assms(1)]]]
        fwd[OF some_node_ok[OF parseEscapeAtom_ok[OF assms(1)]]] fwd[OF parseGroup_ok[OF assms(2-4)]])
      (simp_all add: code_set_any lit)
qed

lemma quantify_ok:
  assumes "good d atom p"
  shows "parses p (quantify atom p) (\<lambda>x q. rx_pos p \<le> rx_pos q
    \<and> (case x of None \<Rightarrow> True | Some n \<Rightarrow> wf_node (rx_groups q) n \<and> within_depth d n))"
proof -
  obtain r p1 where r: "parseQuantifier p = (r, p1)" by (meson surj_pair)
  note q = parseQuantifier_ok[OF r]
  show ?thesis
  proof (cases r)
    case None
    then show ?thesis
      using q(1,2) assms r by (auto simp: quantify_def moves_to_def intro: wf_node_mono)
  next
    case (Some b)
    then obtain lo hi n where b: "r = Some (lo, hi, n)" by (cases b) auto
    have node: "wf_node (rx_groups s) (opRepeat lo hi lz [atom] fl) \<and> within_depth d (opRepeat lo hi lz [atom] fl)"
      if "\<not> is_at atom" "moves_to p s" for lz fl s
      using that q(3)[OF b] assms by (auto simp: moves_to_def intro: wf_node_mono)
    define p2 where "p2 = (if peek p1 = Some (CHR ''?'') then advance 1 p1 else p1)"
    have p2: "moves_to p p2" using q(1) by (simp add: p2_def)
    obtain pb p3 where pr: "probeQuantifier p2 = (pb, p3)" by (meson surj_pair)
    have p3: "moves_to p p3" using moves_trans[OF p2] probeQuantifier_ok[OF pr] by blast
    have pos: "rx_pos p \<le> rx_pos p2" "rx_pos p \<le> rx_pos p3" using p2 p3 by (simp_all add: moves_to_def)
    have brace: "parses p (case probeQuantifier p2 of (True, s) \<Rightarrow> parseErrorAt m (rx_pos s)
        | (False, s) \<Rightarrow> Inr (Some (opRepeat lo hi lz [atom] fl), s)) (\<lambda>x q. rx_pos p \<le> rx_pos q
        \<and> (case x of None \<Rightarrow> True | Some n \<Rightarrow> wf_node (rx_groups q) n \<and> within_depth d n))"
      if "\<not> is_at atom" for m lz fl
      using node[OF that p3] p3 pos(2) unfolding pr by (cases pb) simp_all
    show ?thesis
      unfolding quantify_def r b prod.case option.case Let_def p2_def[symmetric]
      by (intro parse_rules brace; use node[OF _ p2] p2 pos(1) in simp)
  qed
qed

abbreviation wf_opt :: "nat \<Rightarrow> reNode option \<Rightarrow> reParser \<Rightarrow> bool" where
  "wf_opt d x q \<equiv> (case x of None \<Rightarrow> True | Some n \<Rightarrow> wf_node (rx_groups q) n \<and> within_depth d n)"

lemma parseItem_ok:
  assumes "tables_ok u" "body_ok d body" "names_ok p" "0 < rx_groups p" "peek p = Some c" "c \<noteq> CHR '')''"
  shows "parses p (parseItem u body p) (\<lambda>x q. rx_pos p < rx_pos q \<and> wf_opt d x q)"
proof -
  let ?v = "skipVerbose p" and ?Q = "\<lambda>x q. rx_pos p < rx_pos q \<and> wf_opt d x q"
  have v: "moves_to p ?v" "?v = p \<or> rx_pos p < rx_pos ?v" by (rule skipVerbose_ok)+
  have v2: "names_ok ?v" "0 < rx_groups ?v" using v(1) assms(3,4) by (auto simp: moves_to_def)
  have c: "rx_src p ! rx_pos p = c" using assms(5) by (simp add: peek_def split: if_splits)
  have rest_ok: "parses q (case x of None \<Rightarrow> Inr (None, q)
      | Some atom \<Rightarrow> (let p2 = skipVerbose q in
          case peek p2 of None \<Rightarrow> Inr (Some atom, p2)
          | Some c \<Rightarrow> (if c \<in> set ''*+?'' \<or> c = CHR 0x7B then quantify atom p2 else Inr (Some atom, p2)))) ?Q"
    if "good_opt d x q" "rx_pos p < rx_pos q" for x q
  proof (cases x)
    case (Some atom)
    have s: "moves_to q (skipVerbose q)" by (rule skipVerbose_ok)
    have g: "good d atom (skipVerbose q)"
      using s that(1) Some by (auto simp: moves_to_def intro: wf_node_mono)
    have "parses q (quantify atom (skipVerbose q)) ?Q"
      using parses_later[OF quantify_ok[OF g] s]
      by (rule parses_weaken) (use s that(2) in \<open>auto simp: moves_to_def\<close>)
    then show ?thesis unfolding Some option.case Let_def
      by (intro parse_rules) (use s g that(2) in \<open>auto simp: moves_to_def\<close>)
  qed (use that in simp)
  have "parses ?v (and_then (parseAtom u body ?v) (\<lambda>x q. case x of None \<Rightarrow> Inr (None, q)
      | Some atom \<Rightarrow> (let p2 = skipVerbose q in
          case peek p2 of None \<Rightarrow> Inr (Some atom, p2)
          | Some c \<Rightarrow> (if c \<in> set ''*+?'' \<or> c = CHR 0x7B then quantify atom p2 else Inr (Some atom, p2))))) ?Q"
    by (rule parses_bind[OF parseAtom_ok[OF assms(1,2) v2]], rule rest_ok)
      (use v c assms(6) in \<open>auto simp: moves_to_def\<close>)
  from parses_later[OF this v(1)] show ?thesis
    unfolding parseItem_def Let_def using v assms(5) by auto
qed

text \<open>The loops: the step bound is never met while it exceeds what is left of the source.\<close>

abbreviation all_wf :: "nat \<Rightarrow> reNode list \<Rightarrow> reParser \<Rightarrow> bool" where
  "all_wf d ns q \<equiv> (\<forall>n \<in> set ns. wf_node (rx_groups q) n \<and> within_depth d n)"

declare sequence_loop.simps(2) [simp del] branch_loop.simps(2) [simp del]

lemma peek_bound: "peek p = Some c \<Longrightarrow> rx_pos p < length (rx_src p)"
  by (simp add: peek_def split: if_splits)

lemma sequence_loop_ok:
  assumes item: "\<And>p c. names_ok p \<Longrightarrow> 0 < rx_groups p \<Longrightarrow> peek p = Some c \<Longrightarrow> c \<noteq> CHR '')''
      \<Longrightarrow> parses p (item p) (\<lambda>x q. rx_pos p < rx_pos q \<and> wf_opt d x q)"
    and "names_ok p" "0 < rx_groups p" "length (rx_src p) - rx_pos p < n"
  shows "parses p (sequence_loop item n p) (\<lambda>ns q. all_wf d ns q)"
  using assms(2-4)
proof (induction n arbitrary: p)
  case (Suc n)
  have step: "parses p (and_then (item p) (\<lambda>x p1. and_then (sequence_loop item n p1) (\<lambda>nodes p2.
      Inr ((case x of None \<Rightarrow> nodes | Some node \<Rightarrow> node # nodes), p2)))) (\<lambda>ns q. all_wf d ns q)"
    if c: "peek p = Some c" "\<not> (c = CHR ''|'' \<or> c = CHR '')'')" for c
  proof (rule parses_bind[OF item[OF Suc.prems(1,2) c(1)]])
    show "c \<noteq> CHR '')''" using c(2) by simp
  next
    fix x q
    assume q: "moves_to p q" "rx_pos p < rx_pos q \<and> wf_opt d x q"
    have "parses q (sequence_loop item n q) (\<lambda>ns q. all_wf d ns q)"
      by (rule Suc.IH) (use q Suc.prems peek_bound[OF c(1)] in \<open>auto simp: moves_to_def\<close>)
    then show "parses q (and_then (sequence_loop item n q) (\<lambda>nodes p2.
        Inr ((case x of None \<Rightarrow> nodes | Some node \<Rightarrow> node # nodes), p2))) (\<lambda>ns q. all_wf d ns q)"
      by (rule parses_bind) (use q in \<open>auto simp: moves_to_def intro: wf_node_mono split: option.splits\<close>)
  qed
  show ?case unfolding sequence_loop.simps by (intro parse_rules step) simp_all
qed simp

lemma branch_loop_ok:
  assumes sequence: "\<And>p. names_ok p \<Longrightarrow> 0 < rx_groups p \<Longrightarrow> parses p (sequence p) (\<lambda>ns q. all_wf d ns q)"
    and "names_ok p" "0 < rx_groups p" "length (rx_src p) - rx_pos p < n"
  shows "parses p (branch_loop sequence n p) (\<lambda>nss q. nss \<noteq> [] \<and> (\<forall>ns \<in> set nss. all_wf d ns q))"
  using assms(2-4)
proof (induction n arbitrary: p)
  case (Suc n)
  let ?Q = "\<lambda>nss q. nss \<noteq> [] \<and> (\<forall>ns \<in> set nss. all_wf d ns q)"
  show ?case
    unfolding branch_loop.simps
  proof (rule parses_bind[OF sequence[OF Suc.prems(1,2)]])
    fix ns q
    assume q: "moves_to p q" "all_wf d ns q"
    have "parses q (and_then (branch_loop sequence n (advance 1 q)) (\<lambda>branches p2. Inr (ns # branches, p2))) ?Q"
      if "peek q = Some (CHR ''|'')"
    proof (rule parses_later[OF parses_bind[OF Suc.IH]])
      show "names_ok (advance 1 q)" "0 < rx_groups (advance 1 q)"
        "length (rx_src (advance 1 q)) - rx_pos (advance 1 q) < n" "moves_to q (advance 1 q)"
        using q Suc.prems peek_bound[OF that] by (auto simp: moves_to_def)
    qed (use q in \<open>auto simp: moves_to_def intro: wf_node_mono\<close>)
    then show "parses q (if peek q = Some (CHR ''|'') then and_then (branch_loop sequence n (advance 1 q))
        (\<lambda>branches p2. Inr (ns # branches, p2)) else Inr ([ns], q)) ?Q"
      using q by simp
  qed
qed simp

lemma parseAlternations_ok:
  assumes "tables_ok u" "body_ok d body" "names_ok p" "0 < rx_groups p"
  shows "parses p (parseAlternations u body p) (\<lambda>ns q. all_wf d ns q)"
proof -
  have seq: "parses p (parseSequence u body p) (\<lambda>ns q. all_wf d ns q)"
    if "names_ok p" "0 < rx_groups p" for p
    unfolding parseSequence_def
    by (rule sequence_loop_ok[OF _ that]) (use parseItem_ok[OF assms(1,2)] in auto)
  show ?thesis
    unfolding parseAlternations_def
  proof (rule parses_bind[OF branch_loop_ok[OF seq assms(3,4)]])
    fix nss q
    assume "nss \<noteq> [] \<and> (\<forall>ns \<in> set nss. all_wf d ns q)"
    then show "parses q (Inr (if length nss = 1 then hd nss else [opBranch nss (rx_flags q)], q))
        (\<lambda>ns q. all_wf d ns q)"
      by (cases nss; cases "tl nss") auto
  qed simp_all
qed

lemma parseGroupBody_ok:
  assumes "tables_ok u"
  shows "body_ok d (parseGroupBody u d)"
proof (induction d)
  case (Suc d)
  have "parses p (parseGroupBody u (Suc d) k p) (\<lambda>ns q. 0 < Suc d \<and> rx_pos p < rx_pos q \<and> all_wf d ns q)"
    if "names_ok p" for k p
    unfolding parseGroupBody.simps
    by (rule parses_bind[OF parseAlternations_ok[OF assms Suc.IH that]])
      (use that in \<open>auto simp: names_ok_def moves_to_def\<close>)
  then show ?case by (simp add: body_ok_def)
qed (simp add: body_ok_def)

end
