(* ===== verification/RedosGrammar.thy ===== *)
theory RedosGrammar
  imports RedosParser
begin

text \<open>
  What the parser of \<open>redos_parser.go\<close> promises to the analyser behind it: it always answers, the tree
  it answers with is well formed and shallow, quoted text is read back as its bytes, and a counted
  quantifier is read back as its bounds.
\<close>

section \<open>The text that is left\<close>

lemma rest_advance [simp]: "rest (advance n p) = drop n (rest p)"
  by (simp add: rest_def advance_def add.commute)

lemma peek_rest: "peek p = (case rest p of [] \<Rightarrow> None | c # cs \<Rightarrow> Some c)"
  by (auto simp: peek_def rest_def Cons_nth_drop_Suc[symmetric])

lemma source_byte: "rest p = c # cs \<Longrightarrow> rx_src p ! rx_pos p = c"
  unfolding rest_def by (metis hd_drop_conv_nth drop_eq_Nil linorder_not_le list.distinct(1) list.sel(1))

lemma advance_add [simp]: "advance m (advance n p) = advance (n + m) p"
  by (simp add: advance_def add.assoc)

lemma advance_0 [simp]: "advance 0 p = p"
  by (simp add: advance_def)

section \<open>The parser answers, with a well-formed tree\<close>

abbreviation start_state :: "string \<Rightarrow> reFlags \<Rightarrow> reParser" where
  "start_state pattern flags \<equiv>
     \<lparr>rx_src = pattern, rx_pos = 0, rx_groups = 1, rx_openGroups = {}, rx_groupNames = [], rx_flags = flags,
      rx_overflow = False\<rparr>"

lemma start_ok:
  assumes "tables_ok u"
  shows "parses (start_state s fl) (parseAlternations u (parseGroupBody u k) (start_state s fl)) (\<lambda>ns q. all_wf k ns q)"
  by (rule parseAlternations_ok[OF assms parseGroupBody_ok[OF assms]]) (simp_all add: names_ok_def)

text \<open>C32: The ReDoS parser terminates on every pattern: with case tables that stay among the code points,
  the step bounds of its loops (one more than the length of the pattern) are never exhausted, so every
  answer is a tree or one of the source's own errors.\<close>

theorem parseRedosPattern_total:
  assumes "tables_ok u"
  shows "parseRedosPattern u pattern flags \<noteq> Inl StepBound"
  using start_ok[OF assms, of pattern flags maxGroupNestingDepth]
  by (auto simp: parseRedosPattern_def parses_def parseErrorAt_def split: sum.splits)

text \<open>C31: Every tree the parser returns is well formed: member sets are canonical and hold the literal, a
  quantifier has ordered bounds within the limit and applies to exactly one atom that is neither an anchor
  nor a quantifier, an alternation has two branches or more, group indices and references are below the
  group counter, and groups nest at most twenty deep.\<close>

theorem parsed_tree_well_formed:
  assumes "tables_ok u" "parseRedosPattern u pattern flags = Inr tree"
  shows "list_all (\<lambda>n. wf_node (pp_groups tree) n \<and> within_depth maxGroupNestingDepth n) (pp_nodes tree)
    \<and> list_all (\<lambda>(name, i). i < pp_groups tree) (pp_groupNames tree)"
  using start_ok[OF assms(1), of pattern flags maxGroupNestingDepth] assms(2)
  by (fastforce simp: parseRedosPattern_def parses_def parseErrorAt_def moves_to_def names_ok_def list_all_iff
      split: sum.splits if_splits)

section \<open>Quoted text\<close>

definition plain_byte :: "char \<Rightarrow> bool" where
  "plain_byte c \<longleftrightarrow> is_letter c \<or> is_digit c \<or> c = CHR ''_'' \<or> byte c \<ge> 128"

definition quote_byte :: "char \<Rightarrow> string" where
  "quote_byte c = (if plain_byte c then [c] else [CHR 0x5C, c])"

definition quote_text :: "string \<Rightarrow> string" where
  "quote_text s = concat (map quote_byte s)"

definition byte_literal :: "unicode_tables \<Rightarrow> reFlags \<Rightarrow> char \<Rightarrow> reNode" where
  "byte_literal u flags c = opLiteral (byte_rune c) (expandIgnoreCase u (singleInterval (byte_rune c)) flags) flags"

text \<open>A byte that starts an item of quoted text is neither skipped in verbose mode nor a quantifier.\<close>

definition item_byte :: "char \<Rightarrow> bool" where
  "item_byte c \<longleftrightarrow> plain_byte c \<or> c = CHR 0x5C"

lemma special_not_plain: "c \<in> set ''*+?^$[()|.#'' \<or> c = CHR 0x7B \<or> c = CHR 0x5C \<Longrightarrow> \<not> plain_byte c"
  by (auto simp: plain_byte_def is_letter_def is_digit_def)

lemma space_not_plain: "verbose_space c \<Longrightarrow> \<not> plain_byte c"
  unfolding verbose_space_def by (elim insertE emptyE) (auto simp: plain_byte_def is_letter_def is_digit_def)

lemma plain_not_special:
  "plain_byte c \<Longrightarrow> c \<notin> set ''*+?^$[()|.#'' \<and> c \<noteq> CHR 0x7B \<and> c \<noteq> CHR 0x5C \<and> \<not> verbose_space c"
  using special_not_plain[of c] space_not_plain[of c] by blast

lemma item_not_special:
  assumes "item_byte c"
  shows "c \<notin> set ''*+?()|#'' \<and> c \<noteq> CHR 0x7B \<and> \<not> verbose_space c"
proof -
  have "set ''*+?()|#'' \<subseteq> set ''*+?^$[()|.#''" by simp
  moreover have "CHR 0x5C \<notin> set ''*+?()|#''" "\<not> verbose_space (CHR 0x5C)" by (simp_all add: verbose_space_def)
  ultimately show ?thesis using assms plain_not_special[of c] unfolding item_byte_def by blast
qed

lemma quote_text_start: "quote_text s = [] \<or> item_byte (hd (quote_text s))"
  by (cases s) (auto simp: quote_text_def quote_byte_def item_byte_def)

lemma skip_item: "rest p = [] \<or> item_byte (hd (rest p)) \<Longrightarrow> skipVerbose p = p"
  using item_not_special[of "hd (rest p)"] by (cases "rest p") (auto simp: skipVerbose_def)

lemma parseEscapeAtom_quoted:
  assumes "rest p = CHR 0x5C # c # t" "\<not> plain_byte c"
  shows "parseEscapeAtom u p = Inr (byte_literal u (rx_flags p) c, advance 2 p)"
proof -
  have "\<not> is_letter c" "\<not> is_digit c" using assms(2) by (auto simp: plain_byte_def)
  then have "\<not> is_category c" "c \<notin> set ''bBAZxuUN''" "\<not> is_digit c" "\<not> is_letter c"
    by (auto simp: is_category_def is_letter_def)
  then show ?thesis
    using assms(1) by (simp add: parseEscapeAtom_def peek_rest Let_def literalNode_def byte_literal_def numeral_2_eq_2)
qed

lemma parseAtom_quoted:
  assumes "rest p = quote_byte c @ t"
  shows "parseAtom u body p = Inr (Some (byte_literal u (rx_flags p) c), advance (length (quote_byte c)) p)"
proof (cases "plain_byte c")
  case True
  then have "rest p = c # t" using assms by (simp add: quote_byte_def)
  then show ?thesis
    using plain_not_special[OF True] True source_byte[of p c t]
    by (auto simp: parseAtom_def Let_def quote_byte_def literalNode_def byte_literal_def)
next
  case False
  then have r: "rest p = CHR 0x5C # c # t" using assms by (simp add: quote_byte_def)
  show ?thesis
    using source_byte[OF r] parseEscapeAtom_quoted[OF r False] False
    by (simp add: parseAtom_def Let_def quote_byte_def some_node_def and_then_def numeral_2_eq_2)
qed

lemma parseItem_quoted:
  assumes "rest p = quote_text (c # s)"
  shows "parseItem u body p = Inr (Some (byte_literal u (rx_flags p) c), advance (length (quote_byte c)) p)"
proof -
  have r: "rest p = quote_byte c @ quote_text s" using assms by (simp add: quote_text_def)
  have q: "rest (advance (length (quote_byte c)) p) = quote_text s" using r by simp
  have skip: "skipVerbose p = p" "skipVerbose (advance (length (quote_byte c)) p) = advance (length (quote_byte c)) p"
    using quote_text_start[of "c # s"] quote_text_start[of s] assms q by (auto intro!: skip_item)
  have "peek p \<noteq> None" using r by (auto simp: peek_rest quote_byte_def)
  then show ?thesis
    using parseAtom_quoted[OF r, of u body] skip q quote_text_start[of s] item_not_special[of "hd (quote_text s)"]
    by (cases "quote_text s") (simp_all add: parseItem_def Let_def and_then_def peek_rest)
qed

lemma sequence_quoted:
  "rest p = quote_text s \<Longrightarrow> length s < n \<Longrightarrow>
     sequence_loop (parseItem u body) n p
       = Inr (map (byte_literal u (rx_flags p)) s, advance (length (quote_text s)) p)"
proof (induction s arbitrary: n p)
  case Nil
  then show ?case by (cases n) (simp_all add: sequence_loop.simps peek_rest quote_text_def)
next
  case (Cons c s)
  then obtain m where n: "n = Suc m" by (cases n) auto
  have r: "rest (advance (length (quote_byte c)) p) = quote_text s" using Cons.prems(1) by (simp add: quote_text_def)
  have head: "peek p = Some (hd (quote_text (c # s)))"
    using Cons.prems(1) by (auto simp: peek_rest quote_text_def quote_byte_def)
  have "item_byte (hd (quote_text (c # s)))" using quote_text_start[of "c # s"] by (auto simp: quote_text_def quote_byte_def)
  then show ?case
    using Cons.IH[OF r] Cons.prems(2) parseItem_quoted[OF Cons.prems(1), of u body] head item_not_special
    unfolding n by (simp add: sequence_loop.simps and_then_def quote_text_def)
qed

lemma length_quote_text: "length s \<le> length (quote_text s)"
  by (induction s) (simp_all add: quote_text_def quote_byte_def)

text \<open>Round trip of quoting: a text whose bytes other than letters, digits, underscore and non-ASCII are
  escaped with a backslash is parsed, under every set of flags, as the sequence of its own bytes, with no
  group opened and the flags unchanged.\<close>

theorem quoted_text_roundtrip:
  "parseRedosPattern u (quote_text s) flags =
     Inr \<lparr>pp_nodes = map (byte_literal u flags) s, pp_groups = 1, pp_groupNames = [], pp_flags = flags\<rparr>"
proof -
  let ?p = "start_state (quote_text s) flags" and ?q = "advance (length (quote_text s)) (start_state (quote_text s) flags)"
  have "sequence_loop (parseItem u body) (Suc (length (quote_text s))) ?p
      = Inr (map (byte_literal u flags) s, ?q)" for body
    using sequence_quoted[of ?p s] length_quote_text[of s] by (simp add: rest_def)
  moreover have "peek ?q = None" by (simp add: peek_rest rest_def advance_def)
  ultimately have "parseAlternations u body ?p = Inr (map (byte_literal u flags) s, ?q)" for body
    by (simp add: parseAlternations_def parseSequence_def branch_loop.simps and_then_def)
  then show ?thesis by (simp add: parseRedosPattern_def peek_rest rest_def)
qed

section \<open>Counted quantifiers\<close>

lemma parse_decimal_snoc:
  "d < 10 \<Longrightarrow> parse_decimal_from m (xs @ [dec_char d]) =
     (case parse_decimal_from m xs of None \<Rightarrow> None
      | Some k \<Rightarrow> if k * 10 + d > maxRepeat then None else Some (k * 10 + d))"
  by (induction m xs rule: parse_decimal_from.induct) simp_all

lemma parseDecimal_dec: "parseDecimal (dec n) = (if n \<le> maxRepeat then Some n else None)"
proof (induction n rule: dec.induct)
  case (1 n)
  show ?case
  proof (cases "n < 10")
    case True
    then show ?thesis by (subst dec.simps) (simp add: parseDecimal_def maxRepeat_def)
  next
    case False
    have "n mod 10 < 10" by simp
    note snoc = parse_decimal_snoc[OF this, of 0 "dec (n div 10)"]
    have eq: "n div 10 * 10 + n mod 10 = n" by simp
    show ?thesis
      using 1[OF False] snoc False eq by (subst dec.simps) (auto simp: parseDecimal_def)
  qed
qed

text \<open>A counted quantifier is read back as its bounds: on \<open>{lo,hi}\<close> the parser answers \<open>lo\<close> and
  \<open>hi\<close> and stands behind the brace when the bounds are ordered and within the limit; with bounds out of
  order it reads no quantifier at all and does not move, so the brace becomes a literal; beyond the limit
  it reads none and records the overflow, which \<open>quantify\<close> turns into an error.\<close>

theorem counted_quantifier_roundtrip:
  assumes "rest p = CHR 0x7B # dec lo @ CHR '','' # dec hi @ CHR 0x7D # t"
  shows "parseQuantifier p =
    (if lo \<le> maxRepeat \<and> hi \<le> maxRepeat then
       (if lo \<le> hi then (Some (lo, hi, length (dec lo) + length (dec hi) + 3), advance (length (dec lo) + length (dec hi) + 3) p)
        else (None, p))
     else (None, p\<lparr>rx_overflow := True\<rparr>))"
proof -
  let ?b = "dec lo @ CHR '','' # dec hi"
  have sep: "CHR '','' \<notin> set (dec n)" "CHR 0x7D \<notin> set (dec n)" for n
    using dec_bytes[of "CHR '',''" n] dec_bytes[of "CHR 0x7D" n] by (auto simp: is_digit_def)
  have "index_byte (CHR 0x7B # ?b @ CHR 0x7D # t) (CHR 0x7D) = Some (length (dec lo) + length (dec hi) + 2)"
    using sep by (simp add: index_byte_append_notin)
  moreover have "slice (rx_src p) (rx_pos p + 1) (rx_pos p + (length (dec lo) + length (dec hi) + 2)) = ?b"
  proof -
    have "drop (rx_pos p + 1) (rx_src p) = drop 1 (rest p)" by (simp add: rest_def)
    then show ?thesis unfolding slice_def using assms by simp
  qed
  moreover have "split_on CHR '','' ?b = [dec lo, dec hi]"
    using sep by (simp add: split_on_append split_on_id)
  moreover have "peek p = Some (CHR 0x7B)" using assms by (simp add: peek_rest)
  ultimately show ?thesis
    using assms dec_digits
    by (auto simp: parseQuantifier_def brace_quantifier_def parseDecimal_dec is_digits_def Let_def)
qed

definition ascii_tables :: unicode_tables where
  "ascii_tables =
     \<lparr>u_lower = (\<lambda>r. if 65 \<le> r \<and> r \<le> 90 then r + 32 else r), u_upper = (\<lambda>r. if 97 \<le> r \<and> r \<le> 122 then r - 32 else r),
      u_digit = ascii_digit, u_letter = (\<lambda>r. ascii_word r \<and> \<not> ascii_digit r \<and> r \<noteq> 95), u_number = ascii_digit\<rparr>"

lemma ascii_tables_ok: "tables_ok ascii_tables"
  by (simp add: tables_ok_def ascii_tables_def minCodePoint_def maxCodePoint_def)

lemmas parser_defs = parseRedosPattern_def parseAlternations_def parseSequence_def parseItem_def parseAtom_def
  parseGroup_def capture_def parse_extension_def quantify_def parseQuantifier_def and_then_def some_node_def
  peek_def advance_def rest_def skipVerbose_def literalNode_def is_at_def is_repeat_def expandIgnoreCase_def
  singleInterval_def byte_rune_def sequence_loop.simps branch_loop.simps

lemma sample_parse:
  "parseRedosPattern ascii_tables ''(a)*'' {} =
     Inr \<lparr>pp_nodes = [opRepeat 0 maxRepeat False
             [opSubPattern 1 [] [opLiteral 97 [\<lparr>low = 97, high = 97\<rparr>] {}] {}] {}],
           pp_groups = 2, pp_groupNames = [], pp_flags = {}\<rparr>"
  by (simp add: parser_defs maxGroupNestingDepth_def numeral_nat numeral_eq_Suc)

theorem parseRedosPattern_total_witness:
  "parseRedosPattern ascii_tables ''(?i)(a|b+'' {} \<noteq> Inl StepBound"
  by (rule parseRedosPattern_total[OF ascii_tables_ok])

theorem parsed_tree_well_formed_witness:
  "wf_node 2 (opRepeat 0 maxRepeat False [opSubPattern 1 [] [opLiteral 97 [\<lparr>low = 97, high = 97\<rparr>] {}] {}] {})"
  using parsed_tree_well_formed[OF ascii_tables_ok sample_parse] by simp

theorem counted_quantifier_roundtrip_witness:
  "parseQuantifier (start_state [CHR 0x7B, CHR ''3'', CHR '','', CHR ''2'', CHR 0x7D] {})
     = (None, start_state [CHR 0x7B, CHR ''3'', CHR '','', CHR ''2'', CHR 0x7D] {})"
  using counted_quantifier_roundtrip[of "start_state [CHR 0x7B, CHR ''3'', CHR '','', CHR ''2'', CHR 0x7D] {}" 3 2 "[]"]
  by (simp add: rest_def dec.simps dec_char_def maxRepeat_def char_of_def bit_0)

end
