(* ===== verification/Pipeline.thy ===== *)
theory Pipeline
  imports Behavior
begin

text \<open>
  The pipeline of \<open>guardcore/pipeline.go\<close> (assembly, staleness, execution, check errors), the dispatch of
  \<open>composition.go\<close> (\<open>Engine.Check\<close>) and the websocket handshake guard of \<open>websocket.go\<close>. The checks hold
  pointers to the configuration and the registry, so a check is a function of a context with their
  current values. A request reaches the pipeline with its state in the world. \<open>rebuildIfStale\<close> never
  returns an error, so \<open>handleRebuildError\<close> is dead code and left out; mutexes and log lines are left
  out, so the muted names are kept but never consulted. A request that passes runs the usage rules of
  \<open>Behavior\<close> with the environment \<open>cx_behavior\<close> of the context.
\<close>

section \<open>Checks and their assembly\<close>

record ('q, 'r) check_ctx =
  cx_env :: check_env
  cx_cfg :: SecurityConfig
  cx_routes :: RouteRegistry
  cx_behavior :: "'q behavior_env"

record ('q, 'r) SecurityCheck =
  ck_name :: string
  ck_excluded :: bool
  ck_body :: "('q, 'r) check_ctx \<Rightarrow> guardRequest \<Rightarrow> ('q, 'r) world \<Rightarrow> ('q, 'r) outcome"

definition spec ::
  "string \<Rightarrow> bool \<Rightarrow> bool \<Rightarrow> (('q, 'r) check_ctx \<Rightarrow> guardRequest \<Rightarrow> ('q, 'r) world \<Rightarrow> ('q, 'r) outcome)
     \<Rightarrow> bool \<times> ('q, 'r) SecurityCheck" where
  "spec name0 excluded applies body =
     (applies, \<lparr>ck_name = name0, ck_excluded = excluded, ck_body = body\<rparr>)"

text \<open>The seventeen slots in order, each with whether it applies.\<close>

definition check_specs :: "SecurityConfig \<Rightarrow> RouteConfig list \<Rightarrow> (bool \<times> ('q, 'r) SecurityCheck) list" where
  "check_specs cfg routes =
     [spec ''route_config'' True True (\<lambda>cx. routeConfigCheck (cx_cfg cx) (cx_routes cx)),
      spec ''emergency_mode'' False (sc_EmergencyMode cfg \<or> sc_EnableDynamicRules cfg)
        (\<lambda>cx. emergencyModeCheck (cx_cfg cx)),
      spec ''https_enforcement'' False (sc_EnforceHTTPS cfg \<or> anyRoute routes rc_RequireHTTPS)
        (\<lambda>cx. httpsEnforcementCheck (cx_cfg cx)),
      spec ''request_logging'' False (sc_LogRequestLevel cfg \<noteq> []) (\<lambda>cx. requestLoggingCheck),
      spec ''request_size_content'' False (requestSizeContentApplies routes)
        (\<lambda>cx. requestSizeContentCheck (cx_cfg cx)),
      spec ''required_headers'' False (requiredHeadersApplies routes) (\<lambda>cx. requiredHeadersCheck (cx_cfg cx)),
      spec ''authentication'' False (authenticationApplies routes) (\<lambda>cx. authenticationCheck (cx_cfg cx)),
      spec ''referrer'' False (referrerApplies routes) (\<lambda>cx. referrerCheck (cx_env cx) (cx_cfg cx)),
      spec ''custom_validators'' False (customValidatorsApplies routes)
        (\<lambda>cx. customValidatorsCheck (cx_cfg cx)),
      spec ''time_window'' False (timeWindowApplies routes) (\<lambda>cx. timeWindowCheck (cx_env cx) (cx_cfg cx)),
      spec ''cloud_ip_refresh'' False (cloudApplies cfg routes)
        (\<lambda>cx. cloudIPRefreshCheck (cx_env cx) (cx_cfg cx)),
      spec ''ip_security'' True True (\<lambda>cx. ipSecurityCheck (cx_env cx) (cx_cfg cx)),
      spec ''cloud_provider'' False (cloudApplies cfg routes)
        (\<lambda>cx. cloudProviderCheck (cx_env cx) (cx_cfg cx)),
      spec ''user_agent'' False (userAgentApplies cfg routes)
        (\<lambda>cx. userAgentCheck (cx_env cx) (cx_cfg cx)),
      spec ''rate_limit'' True (sc_EnableRateLimiting cfg \<or> sc_EndpointRateLimits cfg \<noteq> [])
        (\<lambda>cx. rateLimitCheck (cx_env cx) (cx_cfg cx)),
      spec ''suspicious_activity'' False
        (sc_EnablePenetrationDetection cfg \<or> anyRoute routes rc_EnableSuspiciousDetection)
        (\<lambda>cx. suspiciousActivityCheck False (cx_env cx) (cx_cfg cx)),
      spec ''custom_request'' False (sc_CustomRequestCheck cfg \<noteq> None)
        (\<lambda>cx. customRequestCheck (cx_cfg cx))]"

definition buildChecks :: "SecurityConfig \<Rightarrow> RouteRegistry \<Rightarrow> ('q, 'r) SecurityCheck list" where
  "buildChecks cfg registry = map snd (filter fst (check_specs cfg (RouteConfigs registry)))"

definition CheckNameValues :: "string list" where
  "CheckNameValues =
     [''route_config'', ''emergency_mode'', ''https_enforcement'', ''request_logging'',
      ''request_size_content'', ''required_headers'', ''authentication'', ''referrer'',
      ''custom_validators'', ''time_window'', ''cloud_ip_refresh'', ''ip_security'',
      ''cloud_provider'', ''user_agent'', ''rate_limit'', ''suspicious_activity'',
      ''custom_request'']"

section \<open>The pipeline\<close>

record ('q, 'r) SecurityCheckPipeline =
  pl_checks :: "('q, 'r) SecurityCheck list"
  pl_hasConfig :: bool
  pl_rebuild :: "(SecurityConfig \<Rightarrow> RouteRegistry \<Rightarrow> ('q, 'r) SecurityCheck list) option"
  pl_muted :: "string list"
  pl_builtRevision :: "64 word"
  pl_builtSignature :: "nat list"
  pl_hasRouteSource :: bool
  pl_builtRouteRevision :: "64 word"

definition containerSignature :: "SecurityConfig \<Rightarrow> nat list" where
  "containerSignature cfg =
     [length (sc_BlockCloudProviders cfg), length (sc_BlockedUserAgents cfg), length (sc_EndpointRateLimits cfg)]"

definition NewSecurityCheckPipeline ::
  "('q, 'r) SecurityCheck list \<Rightarrow> SecurityConfig option
     \<Rightarrow> (SecurityConfig \<Rightarrow> RouteRegistry \<Rightarrow> ('q, 'r) SecurityCheck list) option
     \<Rightarrow> ('q, 'r) SecurityCheckPipeline" where
  "NewSecurityCheckPipeline checks cfg rebuild =
     \<lparr>pl_checks = checks, pl_hasConfig = (cfg \<noteq> None), pl_rebuild = rebuild,
      pl_muted = (case cfg of None \<Rightarrow> [] | Some c \<Rightarrow> sc_MutedCheckLogs c),
      pl_builtRevision = (case cfg of None \<Rightarrow> 0 | Some c \<Rightarrow> sc_revision c),
      pl_builtSignature = (case cfg of None \<Rightarrow> [] | Some c \<Rightarrow> containerSignature c),
      pl_hasRouteSource = False, pl_builtRouteRevision = 0\<rparr>"

definition SetRouteRevisionSource ::
  "(unit \<Rightarrow> 64 word) option \<Rightarrow> ('q, 'r) SecurityCheckPipeline \<Rightarrow> ('q, 'r) SecurityCheckPipeline" where
  "SetRouteRevisionSource source p =
     (case source of
        None \<Rightarrow> p\<lparr>pl_hasRouteSource := False\<rparr>
      | Some f \<Rightarrow> p\<lparr>pl_hasRouteSource := True, pl_builtRouteRevision := f ()\<rparr>)"

definition BuildDefaultPipeline ::
  "SecurityConfig \<Rightarrow> RouteRegistry \<Rightarrow> ('q, 'r) SecurityCheckPipeline \<times> counts" where
  "BuildDefaultPipeline cfg routes =
     (SetRouteRevisionSource (Some (\<lambda>_. rg_revision routes))
        (NewSecurityCheckPipeline (buildChecks cfg routes) (Some cfg) (Some buildChecks)), [])"

definition isStale :: "('q, 'r) SecurityCheckPipeline \<Rightarrow> SecurityConfig \<Rightarrow> RouteRegistry \<Rightarrow> bool" where
  "isStale p cfg routes \<longleftrightarrow>
     pl_hasConfig p \<and> pl_rebuild p \<noteq> None
     \<and> (sc_revision cfg \<noteq> pl_builtRevision p
        \<or> containerSignature cfg \<noteq> pl_builtSignature p
        \<or> (pl_hasRouteSource p \<and> rg_revision routes \<noteq> pl_builtRouteRevision p))"

definition rebuildIfStale ::
  "('q, 'r) SecurityCheckPipeline \<Rightarrow> SecurityConfig \<Rightarrow> RouteRegistry \<Rightarrow> ('q, 'r) SecurityCheckPipeline" where
  "rebuildIfStale p cfg routes =
     (case (if isStale p cfg routes then pl_rebuild p else None) of
        None \<Rightarrow> p
      | Some build \<Rightarrow>
          p\<lparr>pl_checks := build cfg routes, pl_muted := sc_MutedCheckLogs cfg,
            pl_builtRevision := sc_revision cfg, pl_builtSignature := containerSignature cfg,
            pl_builtRouteRevision := (if pl_hasRouteSource p then rg_revision routes else 0)\<rparr>)"

definition CheckNames :: "('q, 'r) SecurityCheckPipeline \<Rightarrow> string list" where
  "CheckNames p = map ck_name (pl_checks p)"

text \<open>\<open>handleCheckError\<close>: the fail-secure response, or \<open>None\<close> to go on with the next check.\<close>

definition is_redis_error :: "go_error \<Rightarrow> bool" where
  "is_redis_error e = (case e of GuardRedisError _ _ \<Rightarrow> True | _ \<Rightarrow> False)"

definition handleCheckError :: "SecurityConfig option \<Rightarrow> go_error \<Rightarrow> Response option" where
  "handleCheckError cfg e =
     (if is_redis_error e \<and> (case cfg of None \<Rightarrow> False | Some c \<Rightarrow> sc_RedisFailOpen c) then None
      else if (case cfg of None \<Rightarrow> True | Some c \<Rightarrow> sc_FailSecure c)
      then Some (errorResponse cfg 500 (custom_message cfg 500 ''Security check failed''))
      else None)"

text \<open>The block hook of a blocking check, with the reason the check stashed.\<close>

definition announce_block ::
  "bool \<Rightarrow> guardRequest \<Rightarrow> string \<Rightarrow> Response \<Rightarrow> ('q, 'r) world \<Rightarrow> ('q, 'r) world" where
  "announce_block hook req name0 resp w =
     (case st_BlockStash (w_st w) of
        None \<Rightarrow> fireBlockHook hook req name0 [] [] False (rp_StatusCode resp) w
      | Some s \<Rightarrow> fireBlockHook hook req name0 (bk_Reason s) (bk_TriggerInfo s) False (rp_StatusCode resp) w)"

fun run_checks ::
  "('q, 'r) check_ctx \<Rightarrow> SecurityConfig option \<Rightarrow> bool \<Rightarrow> guardRequest \<Rightarrow> ('q, 'r) SecurityCheck list
     \<Rightarrow> ('q, 'r) world \<Rightarrow> Response option \<times> ('q, 'r) world" where
  "run_checks cx cfg exclusionScoped req [] w = (None, w)"
| "run_checks cx cfg exclusionScoped req (c # cs) w =
     (if exclusionScoped \<and> \<not> ck_excluded c then run_checks cx cfg exclusionScoped req cs w
      else
        (case ck_body c cx req w of
           (Inl e, w1) \<Rightarrow>
             (case handleCheckError cfg e of
                Some r \<Rightarrow> (Some r, w1)
              | None \<Rightarrow> run_checks cx cfg exclusionScoped req cs w1)
         | (Inr None, w1) \<Rightarrow> run_checks cx cfg exclusionScoped req cs w1
         | (Inr (Some r), w1) \<Rightarrow> (Some r, announce_block (has_hook cfg) req (ck_name c) r w1)))"

definition Execute ::
  "('q, 'r) check_ctx \<Rightarrow> guardRequest \<Rightarrow> ('q, 'r) SecurityCheckPipeline \<Rightarrow> ('q, 'r) world
     \<Rightarrow> Response option \<times> ('q, 'r) SecurityCheckPipeline \<times> ('q, 'r) world" where
  "Execute cx req p0 w =
     (let p = rebuildIfStale p0 (cx_cfg cx) (cx_routes cx);
          cfg = (if pl_hasConfig p then Some (cx_cfg cx) else None);
          r = run_checks cx cfg (st_ExclusionScoped (w_st w)) req (pl_checks p) w
      in (fst r, p, snd r))"

section \<open>The engine\<close>

record ('q, 'r) Engine =
  eg_pipeline :: "('q, 'r) SecurityCheckPipeline"
  eg_CORS :: "CORSPolicy option"
  eg_exclusions :: exclusionMatcher
  eg_emittedPaths :: "(string \<times> real) list"

definition resolveClientIdentity ::
  "SecurityConfig \<Rightarrow> guardRequest \<Rightarrow> ('q, 'r) world \<Rightarrow> ('q, 'r) world option" where
  "resolveClientIdentity cfg req w =
     (case extractClientIP
             \<lparr>ic_TrustedProxies = sc_TrustedProxies cfg, ic_TrustedProxyDepth = sc_TrustedProxyDepth cfg,
              ic_bus = sc_bus cfg\<rparr>
             \<lparr>ir_ClientHost = gr_ClientHost req, ir_ForwardedFor = hd_val (rq_Headers req) ''X-Forwarded-For'',
              ir_state = Some (st_ClientIP (w_st w)), ir_events = w_handler w\<rparr> of
        None \<Rightarrow> None
      | Some (_, r) \<Rightarrow>
          Some (w\<lparr>w_handler := ir_events r,
                  w_st := (w_st w)\<lparr>st_ClientIP := (case ir_state r of None \<Rightarrow> [] | Some ip \<Rightarrow> ip)\<rparr>\<rparr>))"

definition emitPathExcludedEvent ::
  "SecurityConfig \<Rightarrow> string \<Rightarrow> real \<Rightarrow> ('q, 'r) Engine \<Rightarrow> ('q, 'r) world
     \<Rightarrow> ('q, 'r) Engine \<times> ('q, 'r) world" where
  "emitPathExcludedEvent cfg path now e w =
     (if (case map_of (eg_emittedPaths e) path of None \<Rightarrow> False | Some stamp \<Rightarrow> now - stamp < 300) then (e, w)
      else
        (let paths = (if length (eg_emittedPaths e) \<ge> 1000 then [] else eg_emittedPaths e) in
         (e\<lparr>eg_emittedPaths := AList.update path now paths\<rparr>,
          emitBusEvent cfg ''path_excluded'' ''security_checks_bypassed''
            (''Path '' @ path @ '' excluded from security checks'') w)))"

definition inject_cors :: "CORSPolicy option \<Rightarrow> guardRequest \<Rightarrow> Response option \<Rightarrow> Response option" where
  "inject_cors cors req resp =
     (case cors of None \<Rightarrow> resp | Some p \<Rightarrow> map_option (injectResponseHeaders p (rq_Headers req)) resp)"

definition scope_exclusion ::
  "('q, 'r) check_ctx \<Rightarrow> guardRequest \<Rightarrow> ('q, 'r) Engine \<Rightarrow> ('q, 'r) world
     \<Rightarrow> ('q, 'r) Engine \<times> ('q, 'r) world" where
  "scope_exclusion cx req e w =
     (case em_matches (sc_ExcludePaths (cx_cfg cx)) (eg_exclusions e) (gr_Path req) of
        (hit, m) \<Rightarrow>
          (let e1 = e\<lparr>eg_exclusions := m\<rparr> in
           if hit
           then emitPathExcludedEvent (cx_cfg cx) (gr_Path req) (en_now (cx_env cx)) e1
                  (w\<lparr>w_st := (w_st w)\<lparr>st_ExclusionScoped := True\<rparr>\<rparr>)
           else (e1, w)))"

definition bypass_all :: "('q, 'r) check_ctx \<Rightarrow> ('q, 'r) world \<Rightarrow> bool" where
  "bypass_all cx w \<longleftrightarrow>
     (case rg_Get (cx_routes cx) (st_GuardRouteID (w_st w)) of
        None \<Rightarrow> False
      | Some rc \<Rightarrow> rc_HasBypass rc ''all'' \<and> \<not> sc_PassiveMode (cx_cfg cx))"

text \<open>\<open>Engine.Check\<close>; \<open>None\<close> is a panic of the identity resolution or of a ban by a usage rule, which
  nothing recovers.\<close>

definition usage_stage ::
  "('q, 'r) check_ctx \<Rightarrow> guardRequest \<Rightarrow> Response option \<Rightarrow> ('q, 'r) world \<Rightarrow> go_error option \<times> ('q, 'r) world" where
  "usage_stage cx req resp w =
     (if resp = None
      then ProcessUsageRules (cx_behavior cx) (cx_env cx) (cx_cfg cx) req (resolveClientIP req (w_st w))
             (st_RouteConfig (w_st w)) w
      else (None, w))"

definition Engine_Check ::
  "('q, 'r) check_ctx \<Rightarrow> guardRequest \<Rightarrow> ('q, 'r) Engine \<Rightarrow> ('q, 'r) world
     \<Rightarrow> (Response option \<times> ('q, 'r) Engine \<times> ('q, 'r) world) option" where
  "Engine_Check cx req e0 w0 =
     (case resolveClientIdentity (cx_cfg cx) req w0 of
        None \<Rightarrow> None
      | Some w \<Rightarrow>
          (case (if IsPreflight req then eg_CORS e0 else None) of
             Some cors \<Rightarrow>
               (case Execute cx req (eg_pipeline e0) w of
                  (Some blocking, p, w1) \<Rightarrow>
                    Some (Some (injectResponseHeaders cors (rq_Headers req) blocking), e0\<lparr>eg_pipeline := p\<rparr>, w1)
                | (None, p, w1) \<Rightarrow> Some (Some (buildPreflightResponse cors req), e0\<lparr>eg_pipeline := p\<rparr>, w1))
           | None \<Rightarrow>
               (case scope_exclusion cx req e0 w of
                  (e, w1) \<Rightarrow>
                    if bypass_all cx w1
                    then Some (None, e, emitBusEvent (cx_cfg cx) ''security_bypass'' ''all_checks_bypassed''
                                          ''Route configured to bypass all security checks'' w1)
                    else
                      (case Execute cx req (eg_pipeline e) w1 of
                         (resp, p, w2) \<Rightarrow>
                           (case usage_stage cx req resp w2 of
                              (Some _, _) \<Rightarrow> None
                            | (None, w3) \<Rightarrow>
                                Some (inject_cors (eg_CORS e) req resp, e\<lparr>eg_pipeline := p\<rparr>, w3))))))"

section \<open>Websocket handshakes\<close>

datatype WebSocketCloseReason =
  WSCloseIPBanned | WSCloseIPNotAllowed | WSCloseRateLimitExceeded | WSCloseClientAddressUnknown
| WSCloseSecurityCheckFailed | WSCloseSuspiciousActivity

fun ws_code :: "WebSocketCloseReason \<Rightarrow> nat \<times> string" where
  "ws_code WSCloseIPBanned = (1008, ''IP banned'')"
| "ws_code WSCloseIPNotAllowed = (1008, ''IP not allowed'')"
| "ws_code WSCloseRateLimitExceeded = (1008, ''Rate limit exceeded'')"
| "ws_code WSCloseClientAddressUnknown = (1008, ''Client address could not be determined'')"
| "ws_code WSCloseSecurityCheckFailed = (1013, ''Security check failed'')"
| "ws_code WSCloseSuspiciousActivity = (1008, ''Suspicious activity detected'')"

definition ws_country_denied :: "SecurityConfig \<Rightarrow> addr \<Rightarrow> string \<Rightarrow> bool" where
  "ws_country_denied cfg a ip \<longleftrightarrow>
     (sc_BlockedCountries cfg \<noteq> [] \<or> sc_WhitelistCountries cfg \<noteq> []) \<and> \<not> addr_loopback a
     \<and> (case sc_GeoIPHandler cfg of
          None \<Rightarrow> False
        | Some f \<Rightarrow>
            (case f ip of
               None \<Rightarrow> sc_WhitelistCountries cfg \<noteq> []
             | Some country \<Rightarrow>
                 (if country = [] then sc_WhitelistCountries cfg \<noteq> []
                  else if sc_WhitelistCountries cfg \<noteq> []
                  then \<not> containsCountry (sc_WhitelistCountries cfg) country
                  else containsCountry (sc_BlockedCountries cfg) country)))"

definition webSocketIPAllowed :: "check_env \<Rightarrow> SecurityConfig \<Rightarrow> string \<Rightarrow> bool" where
  "webSocketIPAllowed env cfg ip =
     (if ip = [] then sc_Whitelist cfg = [] \<and> sc_WhitelistCountries cfg = []
      else
        (case ParseAddr ip of
           None \<Rightarrow> False
         | Some a \<Rightarrow>
             (if sc_Whitelist cfg \<noteq> [] then ipMatchesList ip (sc_Whitelist cfg)
              else \<not> (sc_Blacklist cfg \<noteq> [] \<and> ipMatchesList ip (sc_Blacklist cfg))
                   \<and> \<not> ws_country_denied cfg a ip
                   \<and> \<not> (sc_BlockCloudProviders cfg \<noteq> [] \<and> en_isCloud env ip (sc_BlockCloudProviders cfg)))))"

definition guardWebSocketDetection ::
  "('q, 'r) check_ctx \<Rightarrow> guardRequest \<Rightarrow> ('q, 'r) Engine \<Rightarrow> ('q, 'r) world
     \<Rightarrow> WebSocketCloseReason option \<times> ('q, 'r) Engine \<times> ('q, 'r) world" where
  "guardWebSocketDetection cx req e w =
     (case em_matches (sc_ExcludePaths (cx_cfg cx)) (eg_exclusions e) (gr_Path req) of
        (hit, m) \<Rightarrow>
          (let w1 = (if hit then w\<lparr>w_st := (w_st w)\<lparr>st_ExclusionScoped := True\<rparr>\<rparr> else w);
               check = \<lparr>ck_name = ''suspicious_activity'', ck_excluded = False,
                        ck_body = (\<lambda>cx. suspiciousActivityCheck True (cx_env cx) (cx_cfg cx))\<rparr>
           in case Execute cx req (NewSecurityCheckPipeline [check] (Some (cx_cfg cx)) None) w1 of
                (None, _, w2) \<Rightarrow> (None, e\<lparr>eg_exclusions := m\<rparr>, w2)
              | (Some resp, _, w2) \<Rightarrow>
                  (Some (if rp_StatusCode resp = 500 then WSCloseSecurityCheckFailed
                         else WSCloseSuspiciousActivity), e\<lparr>eg_exclusions := m\<rparr>, w2)))"

text \<open>The rate limit of a handshake, on the limiter with the engine's one ban manager. \<open>None\<close> is a Go
  panic; the sum's left side is an ordinary error.\<close>

definition ws_rate_limit ::
  "('q, 'r) check_ctx \<Rightarrow> string \<Rightarrow> ('q, 'r) world \<Rightarrow> (go_error + bool) \<times> ('q, 'r) world" where
  "ws_rate_limit cx ip w =
     (case CheckRateLimitByIP (en_rl (cx_env cx)) ip ''ws'' (en_now (cx_env cx)) ((w_rl w)\<lparr>rl_ban := w_ban w\<rparr>) of
        (r, rl) \<Rightarrow> (r, w\<lparr>w_rl := rl, w_ban := rl_ban rl\<rparr>))"

text \<open>The outer \<open>None\<close> is a panic of the identity resolution, the ban manager or the limiter.\<close>

definition GuardWebSocket ::
  "('q, 'r) check_ctx \<Rightarrow> guardRequest \<Rightarrow> ('q, 'r) Engine \<Rightarrow> ('q, 'r) world
     \<Rightarrow> (WebSocketCloseReason option \<times> ('q, 'r) Engine \<times> ('q, 'r) world) option" where
  "GuardWebSocket cx req e w0 =
     (let cfg = cx_cfg cx in
      case resolveClientIdentity cfg req w0 of
        None \<Rightarrow> None
      | Some w \<Rightarrow>
          (let ip = resolveClientIP req (w_st w) in
           if ip = [] \<and> sc_FailSecure cfg then Some (Some WSCloseClientAddressUnknown, e, w)
           else
             (case (case w_ban w of
                      None \<Rightarrow> (Inr False, w)
                    | Some b \<Rightarrow>
                        (case IsIPBanned (rl_float (en_rl (cx_env cx))) ip (en_now (cx_env cx)) b of
                           (r, b1) \<Rightarrow> (r, w\<lparr>w_ban := Some b1\<rparr>))) of
                (Inl _, w1) \<Rightarrow> None
              | (Inr True, w1) \<Rightarrow> Some (Some WSCloseIPBanned, e, w1)
              | (Inr False, w1) \<Rightarrow>
                  (if \<not> webSocketIPAllowed (cx_env cx) cfg ip then Some (Some WSCloseIPNotAllowed, e, w1)
                   else
                     (let w2 = w1\<lparr>w_st := (w_st w1)\<lparr>st_IsWhitelisted := (ip \<noteq> [] \<and> sc_Whitelist cfg \<noteq> [])\<rparr>\<rparr> in
                      if ip = [] \<or> sc_Whitelist cfg \<noteq> [] then Some (guardWebSocketDetection cx req e w2)
                      else
                        (case ws_rate_limit cx ip w2 of
                           (Inl Panic, w3) \<Rightarrow> None
                         | (Inl _, w3) \<Rightarrow>
                             (if sc_FailSecure cfg then Some (Some WSCloseSecurityCheckFailed, e, w3)
                              else Some (guardWebSocketDetection cx req e w3))
                         | (Inr False, w3) \<Rightarrow> Some (Some WSCloseRateLimitExceeded, e, w3)
                         | (Inr True, w3) \<Rightarrow> Some (guardWebSocketDetection cx req e w3)))))))"

end
