(* ===== verification/PipelineRun.thy ===== *)
theory PipelineRun
  imports Pipeline Decisions
begin

text \<open>
  How the pipeline runs: a step relation on the checks left, equivalent to \<open>run_checks\<close>; which check
  decides; the hook of an active block; passive mode; excluded paths; and the staleness of the checks.
\<close>

section \<open>Steps\<close>

type_synonym ('q, 'r) pipe_state = "('q, 'r) SecurityCheck list \<times> ('q, 'r) world \<times> Response option"

definition enforced :: "bool \<Rightarrow> ('q, 'r) SecurityCheck \<Rightarrow> bool" where
  "enforced exclusionScoped c \<longleftrightarrow> \<not> exclusionScoped \<or> ck_excluded c"

inductive pipe_step ::
  "('q, 'r) check_ctx \<Rightarrow> SecurityConfig option \<Rightarrow> bool \<Rightarrow> guardRequest \<Rightarrow> ('q, 'r) pipe_state
     \<Rightarrow> ('q, 'r) pipe_state \<Rightarrow> bool"
  for cx cfg scoped req where
  skip: "\<not> enforced scoped c \<Longrightarrow> pipe_step cx cfg scoped req (c # cs, w, None) (cs, w, None)"
| pass: "enforced scoped c \<Longrightarrow> ck_body c cx req w = (Inr None, w1)
    \<Longrightarrow> pipe_step cx cfg scoped req (c # cs, w, None) (cs, w1, None)"
| tolerate: "enforced scoped c \<Longrightarrow> ck_body c cx req w = (Inl e, w1) \<Longrightarrow> handleCheckError cfg e = None
    \<Longrightarrow> pipe_step cx cfg scoped req (c # cs, w, None) (cs, w1, None)"
| fail: "enforced scoped c \<Longrightarrow> ck_body c cx req w = (Inl e, w1) \<Longrightarrow> handleCheckError cfg e = Some r
    \<Longrightarrow> pipe_step cx cfg scoped req (c # cs, w, None) ([], w1, Some r)"
| block: "enforced scoped c \<Longrightarrow> ck_body c cx req w = (Inr (Some r), w1)
    \<Longrightarrow> pipe_step cx cfg scoped req (c # cs, w, None)
          ([], announce_block (has_hook cfg) req (ck_name c) r w1, Some r)"

inductive_cases pipe_stepE: "pipe_step cx cfg scoped req (c # cs, w, None) s"
inductive_simps pipe_final [simp]: "pipe_step cx cfg scoped req ([], w, r) s"

lemma pipe_step_run:
  "pipe_step cx cfg scoped req (cs, w, None) (cs1, w1, r1) \<Longrightarrow>
   run_checks cx cfg scoped req cs w = (case r1 of None \<Rightarrow> run_checks cx cfg scoped req cs1 w1 | Some r \<Rightarrow> (Some r, w1))"
  by (erule pipe_step.cases) (auto simp: enforced_def)

lemma pipe_stuck: "pipe_step cx cfg scoped req (cs, w, Some r) s \<Longrightarrow> False"
  by (erule pipe_step.cases) auto

lemma pipe_progress: "\<exists>s. pipe_step cx cfg scoped req (c # cs, w, None) s"
proof -
  obtain o1 w1 where o1: "ck_body c cx req w = (o1, w1)" by (meson surj_pair)
  show ?thesis
  proof (cases "enforced scoped c")
    case True
    note step = pipe_step.pass[OF True] tolerate[OF True] fail[OF True] block[OF True]
    show ?thesis
    proof (cases o1)
      case (Inl e)
      then show ?thesis using step(2,3) o1 by (cases "handleCheckError cfg e") blast+
    next
      case (Inr answer)
      then show ?thesis using step(1,4) o1 by (cases answer) blast+
    qed
  qed (blast intro: pipe_step.skip)
qed

lemma run_steps: "(pipe_step cx cfg scoped req)\<^sup>*\<^sup>* (cs, w, None) ([], snd (run_checks cx cfg scoped req cs w),
    fst (run_checks cx cfg scoped req cs w))"
proof (induction cs arbitrary: w)
  case (Cons c cs)
  obtain cs1 w1 r1 where s: "pipe_step cx cfg scoped req (c # cs, w, None) (cs1, w1, r1)"
    using pipe_progress[of cx cfg scoped req c cs w] by (metis prod_cases3)
  have shape: "r1 \<noteq> None \<Longrightarrow> cs1 = []" "r1 = None \<Longrightarrow> cs1 = cs" using s by (auto elim: pipe_stepE)
  show ?case
  proof (cases r1)
    case None
    then show ?thesis using s shape pipe_step_run[OF s] Cons.IH[of w1]
      by (simp add: converse_rtranclp_into_rtranclp)
  next
    case (Some r)
    then show ?thesis using s shape pipe_step_run[OF s] by auto
  qed
qed simp

lemma steps_run:
  "(pipe_step cx cfg scoped req)\<^sup>*\<^sup>* s ([], w1, r) \<Longrightarrow>
   (case s of (cs, w, None) \<Rightarrow> run_checks cx cfg scoped req cs w = (r, w1)
    | (cs, w, Some r0) \<Rightarrow> r = Some r0 \<and> w1 = w)"
proof (induction rule: converse_rtranclp_induct)
  case (step s t)
  obtain cs w ro where s: "s = (cs, w, ro)" by (metis prod_cases3)
  obtain cs' w' ro' where t: "t = (cs', w', ro')" by (metis prod_cases3)
  have "ro = None" using step(1) s pipe_stuck by (cases ro) blast+
  then show ?case using pipe_step_run[of cx cfg scoped req cs w cs' w' ro'] step(1,3) s t
    by (auto split: option.splits)
qed (auto split: option.splits)


section \<open>Which check decides\<close>

definition stops :: "('q, 'r) check_ctx \<Rightarrow> SecurityConfig option \<Rightarrow> guardRequest \<Rightarrow> ('q, 'r) SecurityCheck
    \<Rightarrow> ('q, 'r) world \<Rightarrow> Response \<Rightarrow> bool" where
  "stops cx cfg req c w r \<longleftrightarrow>
     (case fst (ck_body c cx req w) of
        Inl e \<Rightarrow> handleCheckError cfg e = Some r
      | Inr answer \<Rightarrow> answer = Some r)"

lemma run_append_None:
  "run_checks cx cfg scoped req pre w = (None, w1) \<Longrightarrow>
   run_checks cx cfg scoped req (pre @ cs) w = run_checks cx cfg scoped req cs w1"
  by (induction pre arbitrary: w) (auto split: prod.splits sum.splits option.splits if_splits)

lemma run_append_Some:
  "fst (run_checks cx cfg scoped req pre w) = Some r \<Longrightarrow> fst (run_checks cx cfg scoped req (pre @ cs) w) = Some r"
  by (induction pre arbitrary: w) (auto split: prod.splits sum.splits option.splits if_splits)

lemma run_stop:
  "enforced scoped c \<Longrightarrow> stops cx cfg req c w r \<Longrightarrow> fst (run_checks cx cfg scoped req (c # cs) w) = Some r"
  by (auto simp: enforced_def stops_def split: prod.splits sum.splits option.splits)

lemma run_decided_iff:
  "fst (run_checks cx cfg scoped req cs w) = Some r \<longleftrightarrow>
     (\<exists>pre c post w1. cs = pre @ c # post \<and> run_checks cx cfg scoped req pre w = (None, w1)
        \<and> enforced scoped c \<and> stops cx cfg req c w1 r)"
proof
  show "fst (run_checks cx cfg scoped req cs w) = Some r \<Longrightarrow>
    \<exists>pre c post w1. cs = pre @ c # post \<and> run_checks cx cfg scoped req pre w = (None, w1)
        \<and> enforced scoped c \<and> stops cx cfg req c w1 r"
  proof (induction cs arbitrary: w)
    case (Cons c cs)
    show ?case
    proof (cases "enforced scoped c \<and> (\<exists>r. stops cx cfg req c w r)")
      case True
      then obtain r1 where "stops cx cfg req c w r1" by blast
      with True Cons.prems have "stops cx cfg req c w r" using run_stop by fastforce
      with True show ?thesis by (intro exI[of _ "[]"] exI[of _ c] exI[of _ cs] exI[of _ w]) simp
    next
      case False
      obtain w1 where one: "run_checks cx cfg scoped req [c] w = (None, w1)"
      proof (cases "enforced scoped c")
        case True
        then have "fst (run_checks cx cfg scoped req [c] w) = None" using False
          by (auto simp: enforced_def stops_def split: prod.splits sum.splits option.splits)
        then show ?thesis using that by (metis prod.collapse)
      qed (use that in \<open>simp add: enforced_def\<close>)
      from run_append_None[OF this, of cs] Cons.prems
      have "fst (run_checks cx cfg scoped req cs w1) = Some r" by simp
      from Cons.IH[OF this] obtain pre d post w2 where ih: "cs = pre @ d # post"
        "run_checks cx cfg scoped req pre w1 = (None, w2)" "enforced scoped d" "stops cx cfg req d w2 r" by blast
      have "run_checks cx cfg scoped req (c # pre) w = (None, w2)" using run_append_None[OF one, of pre] ih(2) by simp
      with ih show ?thesis by (metis append_Cons)
    qed
  qed simp
next
  assume "\<exists>pre c post w1. cs = pre @ c # post \<and> run_checks cx cfg scoped req pre w = (None, w1)
        \<and> enforced scoped c \<and> stops cx cfg req c w1 r"
  then show "fst (run_checks cx cfg scoped req cs w) = Some r" using run_append_None run_stop by metis
qed

text \<open>The response of a run is the one of the first enforced check that stops: all checks before it
  were passed, and it either answered with that response or failed and was not tolerated.\<close>

theorem first_stopping_check_decides:
  "fst (run_checks cx cfg scoped req cs w) = Some r \<longleftrightarrow>
     (\<exists>pre c post w1. cs = pre @ c # post \<and> run_checks cx cfg scoped req pre w = (None, w1)
        \<and> enforced scoped c \<and> stops cx cfg req c w1 r)"
  by (rule run_decided_iff)

text \<open>In a fail-secure configuration without the Redis exception, a request passes only when every
  enforced check ran on it and answered without error and without a response.\<close>

theorem passed_every_check:
  assumes "sc_FailSecure c0" "\<not> sc_RedisFailOpen c0" "fst (run_checks cx (Some c0) scoped req cs w) = None"
    and "cs = pre @ c # post" "enforced scoped c"
  shows "\<exists>w1. run_checks cx (Some c0) scoped req pre w = (None, w1) \<and> fst (ck_body c cx req w1) = Inr None"
proof -
  obtain r1 w1 where pre: "run_checks cx (Some c0) scoped req pre w = (r1, w1)" by (meson surj_pair)
  have "r1 = None"
  proof (rule ccontr)
    assume "r1 \<noteq> None"
    then obtain r where "fst (run_checks cx (Some c0) scoped req pre w) = Some r" using pre by auto
    from run_append_Some[OF this] show False using assms(3,4) by simp
  qed
  moreover have "\<not> stops cx (Some c0) req c w1 r" for r
    using assms(3-5) pre \<open>r1 = None\<close> run_append_None[of cx "Some c0" scoped req pre w w1 "c # post"]
      run_stop[OF assms(5), of cx "Some c0" req w1 r post] by auto
  then have "fst (ck_body c cx req w1) = Inr None"
    using assms(1,2) by (cases "fst (ck_body c cx req w1)") (auto simp: stops_def handleCheckError_def)
  ultimately show ?thesis using pre by blast
qed

definition logging_check :: "('q, 'r) SecurityCheck" where
  "logging_check = \<lparr>ck_name = ''request_logging'', ck_excluded = False, ck_body = (\<lambda>cx. requestLoggingCheck)\<rparr>"

definition wt_cx :: "SecurityConfig \<Rightarrow> (unit, unit) check_ctx" where
  "wt_cx cfg = \<lparr>cx_env = wt_check_env 59, cx_cfg = cfg, cx_routes = NewRouteRegistry, cx_behavior = wt_bv\<rparr>"

theorem passed_every_check_witness:
  "\<exists>w1. run_checks (wt_cx wt_cfg) (Some wt_cfg) False (wt_get []) [logging_check] wt_world = (None, w1)
     \<and> fst (ck_body logging_check (wt_cx wt_cfg) (wt_get []) w1) = Inr None"
  by (rule passed_every_check[where cs = "[logging_check, logging_check]" and post = "[]"])
    (simp_all add: wt_cfg_def logging_check_def requestLoggingCheck_def enforced_def)

section \<open>The built checks\<close>

text \<open>\<open>check_pool\<close>: every check the default pipeline can hold.\<close>

definition check_pool :: "SecurityConfig \<Rightarrow> RouteRegistry \<Rightarrow> ('q, 'r) SecurityCheck set" where
  "check_pool cfg routes = snd ` set (check_specs cfg (RouteConfigs routes))"

lemma built_subset: "set (buildChecks cfg routes) \<subseteq> check_pool cfg routes"
  by (auto simp: buildChecks_def check_pool_def)

lemmas pool_simps = check_pool_def check_specs_def spec_def

text \<open>A property of a check body: one case per slot.\<close>

lemma pool_active:
  assumes "c \<in> check_pool cfg routes" "\<not> sc_PassiveMode (cx_cfg cx)"
  shows "keeps_hooks w (ck_body c cx req w)"
  using assms(1) checks_active[OF assms(2)] access_active[OF assms(2)] by (auto simp: pool_simps)

lemma pool_passive:
  assumes "c \<in> check_pool cfg routes" "sc_PassiveMode (cx_cfg cx)"
  shows "no_response (ck_body c cx req w)"
  using assms(1) checks_passive[OF assms(2)] access_passive[OF assms(2)] by (auto simp: pool_simps)

lemma announce_hooks:
  "w_hooks (announce_block hook req n r w) = w_hooks w
   \<or> hook \<and> (\<exists>h. w_hooks (announce_block hook req n r w) = w_hooks w @ [h]
        \<and> hk_check h \<notin> set onBlockExcludedCheckNames \<and> \<not> hk_passive h
        \<and> hk_status h = blockHookStatusCode (rp_StatusCode r))"
  by (simp add: announce_block_def fireBlockHook_def Let_def split: option.split)

text \<open>What \<open>Execute\<close> relies on, whichever checks it runs: in active mode a check leaves the hook to the
  pipeline, and in passive mode it never answers with a response.\<close>

locale security_checks =
  fixes checks :: "('q, 'r) SecurityCheck set"
    and cx :: "('q, 'r) check_ctx"
  assumes leaves_hook: "c \<in> checks \<Longrightarrow> \<not> sc_PassiveMode (cx_cfg cx) \<Longrightarrow> keeps_hooks w (ck_body c cx req w)"
    and quiet: "c \<in> checks \<Longrightarrow> sc_PassiveMode (cx_cfg cx) \<Longrightarrow> no_response (ck_body c cx req w)"
begin

lemma run_active:
  assumes "set cs \<subseteq> checks" "\<not> sc_PassiveMode (cx_cfg cx)"
  shows "(case run_checks cx cfg scoped req cs w of
      (None, w1) \<Rightarrow> w_hooks w1 = w_hooks w
    | (Some r, w1) \<Rightarrow> w_hooks w1 = w_hooks w
        \<or> has_hook cfg \<and> (\<exists>h. w_hooks w1 = w_hooks w @ [h] \<and> hk_check h \<notin> set onBlockExcludedCheckNames
             \<and> \<not> hk_passive h \<and> hk_status h = blockHookStatusCode (rp_StatusCode r)))"
  using assms(1)
proof (induction cs arbitrary: w)
  case (Cons c cs)
  obtain o1 w1 where o1: "ck_body c cx req w = (o1, w1)" by (meson surj_pair)
  have h: "w_hooks w1 = w_hooks w" using leaves_hook[of c w req] Cons.prems assms(2) o1 by (simp add: keeps_hooks_def)
  have rest: "set cs \<subseteq> checks" using Cons.prems by simp
  note ih = Cons.IH[OF rest, of w] Cons.IH[OF rest, of w1]
  show ?case
  proof (cases "enforced scoped c")
    case True
    show ?thesis
    proof (cases "\<exists>r. o1 = Inr (Some r)")
      case True
      then obtain r where "o1 = Inr (Some r)" by blast
      then show ?thesis using \<open>enforced scoped c\<close> o1 h announce_hooks[of "has_hook cfg" req "ck_name c" r w1]
        by (auto simp: enforced_def)
    next
      case False
      then show ?thesis using \<open>enforced scoped c\<close> o1 h ih(2)
        by (auto simp: enforced_def split: option.splits sum.splits prod.splits)
    qed
  next
    case False
    then show ?thesis using ih(1) by (auto simp: enforced_def split: option.splits prod.splits)
  qed
qed simp

lemma run_passive:
  assumes "set cs \<subseteq> checks" "sc_PassiveMode (cx_cfg cx)" "fst (run_checks cx cfg scoped req cs w) = Some r"
  shows "\<exists>e. handleCheckError cfg e = Some r"
proof -
  obtain pre c post w1 where "cs = pre @ c # post" "stops cx cfg req c w1 r"
    using assms(3) unfolding run_decided_iff by blast
  then show ?thesis using quiet[of c req w1] assms(1,2) by (auto simp: stops_def no_response_def split: sum.splits)
qed

end

interpretation default_pool: security_checks "check_pool cfg routes" cx for cfg routes cx
  by unfold_locales (rule pool_active pool_passive; assumption)+

text \<open>The checks of a pipeline are those built for some configuration.\<close>

definition default_checks :: "('q, 'r) SecurityCheckPipeline \<Rightarrow> bool" where
  "default_checks p \<longleftrightarrow> pl_hasConfig p \<and> pl_rebuild p = Some buildChecks
     \<and> (\<exists>cfg routes. pl_checks p = buildChecks cfg routes)"

lemma default_BuildDefault: "default_checks (fst (BuildDefaultPipeline cfg routes))"
  by (auto simp: default_checks_def BuildDefaultPipeline_def SetRouteRevisionSource_def NewSecurityCheckPipeline_def)

lemma default_rebuild: "default_checks p \<Longrightarrow> default_checks (rebuildIfStale p cfg routes)"
  by (auto simp: default_checks_def rebuildIfStale_def)

lemma default_in_pool: "default_checks p \<Longrightarrow> \<exists>cfg routes. set (pl_checks p) \<subseteq> check_pool cfg routes"
  using built_subset unfolding default_checks_def by metis

lemma Execute_run:
  assumes "default_checks p" "Execute cx req p w = (resp, p1, w1)"
  shows "default_checks p1"
    and "run_checks cx (Some (cx_cfg cx)) (st_ExclusionScoped (w_st w)) req (pl_checks p1) w = (resp, w1)"
    and "p1 = rebuildIfStale p (cx_cfg cx) (cx_routes cx)"
proof -
  show p1: "p1 = rebuildIfStale p (cx_cfg cx) (cx_routes cx)" using assms(2) by (simp add: Execute_def Let_def)
  show q: "default_checks p1" using default_rebuild[OF assms(1)] p1 by simp
  then show "run_checks cx (Some (cx_cfg cx)) (st_ExclusionScoped (w_st w)) req (pl_checks p1) w = (resp, w1)"
    using assms(2) p1 unfolding default_checks_def by (auto simp: Execute_def Let_def)
qed

text \<open>C6: In active mode the block hook is called at most once per request: never for a request that
  passes, and for a refused one only on behalf of a check that is not excluded from the hook, with the
  status of the response and marked as not passive.\<close>

theorem active_mode_hooks:
  assumes "default_checks p" "\<not> sc_PassiveMode (cx_cfg cx)" "Execute cx req p w = (resp, p1, w1)"
  shows "w_hooks w1 = w_hooks w
    \<or> (\<exists>h r. w_hooks w1 = w_hooks w @ [h] \<and> resp = Some r \<and> \<not> hk_passive h
        \<and> hk_check h \<notin> set onBlockExcludedCheckNames \<and> hk_status h = blockHookStatusCode (rp_StatusCode r)
        \<and> sc_OnBlock (cx_cfg cx))"
proof -
  note run = Execute_run[OF assms(1,3)]
  obtain sc routes where "set (pl_checks p1) \<subseteq> check_pool sc routes" using default_in_pool[OF run(1)] by blast
  from default_pool.run_active[OF this assms(2), where req = req and cfg = "Some (cx_cfg cx)" and w = w
      and scoped = "st_ExclusionScoped (w_st w)"] show ?thesis
    unfolding run(2) by (auto simp: has_hook_def split: option.splits)
qed

theorem active_mode_hooks_witness:
  "length (w_hooks (snd (snd (Execute (wt_cx wt_cfg) (wt_get [])
     (fst (BuildDefaultPipeline wt_cfg NewRouteRegistry)) wt_world)))) \<le> 1"
proof -
  obtain resp p1 w1 where ex: "Execute (wt_cx wt_cfg) (wt_get [])
      (fst (BuildDefaultPipeline wt_cfg NewRouteRegistry)) wt_world = (resp, p1, w1)" by (metis prod_cases3)
  from active_mode_hooks[OF default_BuildDefault _ ex] show ?thesis
    unfolding ex by (auto simp: wt_cx_def wt_cfg_def wt_world_def)
qed

text \<open>C7: In passive mode the default pipeline never refuses a request on a verdict: the one response it can
  give is the 500 of a failed check in a fail-secure configuration.\<close>

theorem passive_mode_never_blocks:
  assumes "default_checks p" "sc_PassiveMode (cx_cfg cx)"
  shows "fst (Execute cx req p w) = None
    \<or> sc_FailSecure (cx_cfg cx)
      \<and> fst (Execute cx req p w) = Some (errorResponse (Some (cx_cfg cx)) 500
           (custom_message (Some (cx_cfg cx)) 500 ''Security check failed''))"
proof (cases "fst (Execute cx req p w)")
  case (Some r)
  then obtain p1 w1 where ex: "Execute cx req p w = (Some r, p1, w1)" by (metis prod.collapse)
  note run = Execute_run[OF assms(1) ex]
  obtain sc routes where "set (pl_checks p1) \<subseteq> check_pool sc routes" using default_in_pool[OF run(1)] by blast
  from default_pool.run_passive[OF this assms(2)] obtain e where "handleCheckError (Some (cx_cfg cx)) e = Some r"
    using run(2) by (metis fst_conv)
  then show ?thesis using Some by (auto simp: handleCheckError_def split: if_splits)
qed simp

theorem passive_mode_never_blocks_witness:
  "fst (Execute (wt_cx (wt_cfg\<lparr>sc_PassiveMode := True, sc_FailSecure := False\<rparr>)) (wt_get [])
     (fst (BuildDefaultPipeline wt_cfg NewRouteRegistry)) wt_world) = None"
  using passive_mode_never_blocks[OF default_BuildDefault, of "wt_cx (wt_cfg\<lparr>sc_PassiveMode := True, sc_FailSecure := False\<rparr>)"
      "wt_get []" wt_cfg NewRouteRegistry wt_world]
  by (simp add: wt_cx_def)

section \<open>Excluded paths\<close>

lemma run_scoped: "run_checks cx cfg True req cs w = run_checks cx cfg False req (filter ck_excluded cs) w"
  by (induction cs arbitrary: w) (auto split: prod.splits sum.splits option.splits)

text \<open>On an excluded path the default pipeline runs exactly the route configuration check, the address
  check and, when rate limits are configured, the rate limit check, in that order.\<close>

theorem excluded_path_runs_three_checks:
  "run_checks cx cfg True req (buildChecks sc routes) w
     = run_checks cx cfg False req (filter ck_excluded (buildChecks sc routes)) w
   \<and> map ck_name (filter ck_excluded (buildChecks sc routes :: ('q, 'r) SecurityCheck list))
     = [''route_config'', ''ip_security'']
       @ (if sc_EnableRateLimiting sc \<or> 0 < length (sc_EndpointRateLimits sc) then [''rate_limit''] else [])"
proof -
  have "filter ck_excluded (map snd (filter fst xs)) = map snd (filter fst (filter (ck_excluded \<circ> snd) xs))"
    for xs :: "(bool \<times> ('q, 'r) SecurityCheck) list"
    by (induction xs) auto
  moreover have "map ck_name (map snd (filter fst (filter (ck_excluded \<circ> snd)
      (check_specs sc (RouteConfigs routes) :: (bool \<times> ('q, 'r) SecurityCheck) list))))
    = [''route_config'', ''ip_security'']
       @ (if sc_EnableRateLimiting sc \<or> 0 < length (sc_EndpointRateLimits sc) then [''rate_limit''] else [])"
    by (simp add: check_specs_def spec_def)
  ultimately show ?thesis by (simp add: run_scoped buildChecks_def)
qed

text \<open>The checks built for any configuration are slots of the documented list of check names, each at
  most once and in its order.\<close>

theorem built_checks_in_order:
  "subseq (map ck_name (buildChecks cfg routes :: ('q, 'r) SecurityCheck list)) CheckNameValues
   \<and> distinct (map ck_name (buildChecks cfg routes :: ('q, 'r) SecurityCheck list))"
proof -
  have names: "map (ck_name \<circ> snd) (check_specs cfg rs :: (bool \<times> ('q, 'r) SecurityCheck) list) = CheckNameValues" for rs
    by (simp add: check_specs_def spec_def CheckNameValues_def)
  have "map ck_name (buildChecks cfg routes :: ('q, 'r) SecurityCheck list)
      = map (ck_name \<circ> snd) (filter fst (check_specs cfg (RouteConfigs routes) :: (bool \<times> ('q, 'r) SecurityCheck) list))"
    by (simp add: buildChecks_def)
  moreover have "subseq (map (ck_name \<circ> snd) (filter fst xs)) (map (ck_name \<circ> snd) xs)"
    for xs :: "(bool \<times> ('q, 'r) SecurityCheck) list"
    by (simp add: subseq_map)
  ultimately have sub: "subseq (map ck_name (buildChecks cfg routes :: ('q, 'r) SecurityCheck list)) CheckNameValues"
    using names by metis
  have "distinct (map (ck_name \<circ> snd) (check_specs cfg (RouteConfigs routes) :: (bool \<times> ('q, 'r) SecurityCheck) list))"
    unfolding names by (simp add: CheckNameValues_def)
  then have "distinct (map ck_name (buildChecks cfg routes :: ('q, 'r) SecurityCheck list))"
    using distinct_map_filter by (fastforce simp: buildChecks_def)
  with sub show ?thesis by blast
qed

section \<open>A pipeline follows its configuration\<close>

lemma rebuild_not_stale: "\<not> isStale (rebuildIfStale p cfg routes) cfg routes"
  by (auto simp: rebuildIfStale_def isStale_def split: option.splits)

definition built_for :: "SecurityConfig \<Rightarrow> RouteRegistry \<Rightarrow> ('q, 'r) SecurityCheckPipeline \<Rightarrow> bool" where
  "built_for cfg routes p \<longleftrightarrow>
     pl_hasConfig p \<and> pl_rebuild p = Some buildChecks \<and> pl_hasRouteSource p
     \<and> pl_checks p = buildChecks cfg routes \<and> pl_builtRevision p = sc_revision cfg
     \<and> pl_builtRouteRevision p = rg_revision routes \<and> pl_builtSignature p = containerSignature cfg"

text \<open>The revisions tell configurations apart as far as the checks depend on them.\<close>

definition revisions_honest :: "(SecurityConfig \<times> RouteRegistry) list \<Rightarrow> bool" where
  "revisions_honest hist \<longleftrightarrow>
     (\<forall>x \<in> set hist. \<forall>y \<in> set hist.
        sc_revision (fst x) = sc_revision (fst y) \<and> rg_revision (snd x) = rg_revision (snd y)
        \<and> containerSignature (fst x) = containerSignature (fst y)
        \<longrightarrow> map fst (check_specs (fst x) (RouteConfigs (snd x)) :: (bool \<times> (unit, unit) SecurityCheck) list)
          = map fst (check_specs (fst y) (RouteConfigs (snd y)) :: (bool \<times> (unit, unit) SecurityCheck) list))"

lemma built_by_flags:
  assumes "map fst (check_specs c (RouteConfigs r) :: (bool \<times> (unit, unit) SecurityCheck) list)
      = map fst (check_specs c' (RouteConfigs r') :: (bool \<times> (unit, unit) SecurityCheck) list)"
  shows "buildChecks c r = buildChecks c' r'"
  using assms by (simp add: buildChecks_def check_specs_def spec_def)

lemma built_for_rebuild:
  assumes "built_for cfg routes p" "revisions_honest hist" "(cfg, routes) \<in> set hist" "(cfg1, routes1) \<in> set hist"
  shows "built_for cfg1 routes1 (rebuildIfStale p cfg1 routes1)"
proof (cases "isStale p cfg1 routes1")
  case True
  then show ?thesis using assms(1) by (simp add: built_for_def rebuildIfStale_def)
next
  case False
  then have same: "sc_revision cfg1 = sc_revision cfg" "rg_revision routes1 = rg_revision routes"
    "containerSignature cfg1 = containerSignature cfg"
    using assms(1) by (auto simp: isStale_def built_for_def)
  have "buildChecks cfg1 routes1 = (buildChecks cfg routes :: ('a, 'b) SecurityCheck list)"
    using assms(2)[unfolded revisions_honest_def, rule_format, OF assms(4,3)] same by (intro built_by_flags) simp
  then show ?thesis using False assms(1) same by (simp add: built_for_def rebuildIfStale_def)
qed



section \<open>A banned client is refused\<close>

text \<open>What the ban probe of a request reads: the manager, the client and the bypass list.\<close>

definition client_view :: "('q, 'r) world \<Rightarrow> 'r IPBanManager option \<times> string \<times> string list \<times> string list option" where
  "client_view w = (w_ban w, st_ClientIP (w_st w), st_BypassChecks (w_st w), st_bypassSet (w_st w))"

named_theorems view_simps

lemma view_update [view_simps]:
  "client_view (w\<lparr>w_events := e\<rparr>) = client_view w" "client_view (w\<lparr>w_hooks := h\<rparr>) = client_view w"
  "client_view (w\<lparr>w_handler := hs\<rparr>) = client_view w" "client_view (w\<lparr>w_cloud := cl\<rparr>) = client_view w"
  "client_view (w\<lparr>w_st := (w_st w)\<lparr>st_AuthPrincipal := ap\<rparr>\<rparr>) = client_view w"
  by (simp_all add: client_view_def)

lemma view_emit [view_simps]:
  "client_view (emitBusEvent cfg t a r w) = client_view w"
  "client_view (emitAccessDeniedEvent cfg r w) = client_view w"
  "client_view (stash r t w) = client_view w"
  "client_view (fireBlockHook h req n r t p st w) = client_view w"
  "client_view (firePassiveBlockHook cfg req n r t w) = client_view w"
  "client_view (dispatchBlockHook cfg req n r t w) = client_view w"
  "client_view (SendHTTPSViolationEvent cfg rt w) = client_view w"
  by (simp_all add: emitBusEvent_def emitAccessDeniedEvent_def stash_def fireBlockHook_def firePassiveBlockHook_def
      dispatchBlockHook_def SendHTTPSViolationEvent_def client_view_def stashBlock_def Let_def)

lemma view_passive_or_block [view_simps]:
  "client_view (snd (passive_or_block cfg req n r st m w)) = client_view w"
  by (simp add: passive_or_block_def view_simps)

lemma view_route_checks:
  "client_view (snd (emergencyModeCheck cfg req w)) = client_view w"
  "client_view (snd (httpsEnforcementCheck cfg req w)) = client_view w"
  "client_view (snd (requestLoggingCheck req w)) = client_view w"
  "client_view (snd (requiredHeadersCheck cfg req w)) = client_view w"
  "client_view (snd (timeWindowCheck env cfg req w)) = client_view w"
  "client_view (snd (requestSizeContentCheck cfg req w)) = client_view w"
  "client_view (snd (referrerCheck env cfg req w)) = client_view w"
  by (auto simp: guard_check_defs Let_def view_simps split: option.splits sum.splits)

lemma view_auth: "client_view (snd (authenticationCheck cfg req w)) = client_view w"
  by (auto simp: guard_check_defs Let_def view_simps split: option.splits sum.splits prod.splits)

lemma view_validators: "client_view (snd (run_validators cfg req vs w)) = client_view w"
  by (induction vs arbitrary: w) (auto simp: Let_def view_simps split: option.splits)

lemma view_custom: "client_view (snd (customValidatorsCheck cfg req w)) = client_view w"
  by (auto simp: customValidatorsCheck_def view_validators split: option.splits)

lemma view_refresh: "client_view (snd (cloudIPRefreshCheck env cfg req w)) = client_view w"
  by (auto simp: cloudIPRefreshCheck_def Let_def view_simps split: prod.splits)

definition same_client :: "guardRequest \<Rightarrow> ('q, 'r) world \<Rightarrow> ('q, 'r) world \<Rightarrow> bool" where
  "same_client req w w1 \<longleftrightarrow>
     w_ban w1 = w_ban w \<and> resolveClientIP req (w_st w1) = resolveClientIP req (w_st w)
     \<and> st_BypassChecks (w_st w1) = st_BypassChecks (w_st w) \<and> st_bypassSet (w_st w1) = st_bypassSet (w_st w)"

lemma same_view: "client_view w1 = client_view w \<Longrightarrow> same_client req w w1"
  by (simp add: client_view_def same_client_def resolveClientIP_def)

lemma canonicalizeIPString_idem: "canonicalizeIPString (canonicalizeIPString s) = canonicalizeIPString s"
  by (auto simp: canonicalizeIPString_def netip.parse_print[OF ParseAddr_ok] split: option.splits)

lemma same_route_config: "same_client req w (snd (routeConfigCheck cfg rg req w))"
proof -
  let ?st = "(w_st w)\<lparr>st_RouteConfig := rg_Get rg (st_GuardRouteID (w_st w))\<rparr>"
  let ?w1 = "w\<lparr>w_st := (if resolveClientIP req ?st \<noteq> [] then ?st\<lparr>st_ClientIP := resolveClientIP req ?st\<rparr> else ?st)\<rparr>"
  have "client_view (snd (routeConfigCheck cfg rg req w)) = client_view ?w1"
    by (simp add: routeConfigCheck_def Let_def view_simps)
  moreover have "same_client req w ?w1"
    by (simp add: same_client_def resolveClientIP_def canonicalizeIPString_idem)
  ultimately show ?thesis by (auto simp: same_client_def client_view_def resolveClientIP_def)
qed

lemma same_trans: "same_client req w w1 \<Longrightarrow> same_client req w1 w2 \<Longrightarrow> same_client req w w2"
  by (simp add: same_client_def)

lemma run_same_client:
  assumes "\<And>c w. c \<in> set cs \<Longrightarrow> same_client req w (snd (ck_body c cx req w))"
    and "run_checks cx cfg scoped req cs w = (None, w1)"
  shows "same_client req w w1"
  using assms
proof (induction cs arbitrary: w)
  case (Cons c cs)
  obtain o1 w2 where o1: "ck_body c cx req w = (o1, w2)" by (meson surj_pair)
  have "same_client req w w2" using Cons.prems(1)[of c w] o1 by simp
  moreover have "same_client req v w1" if "run_checks cx cfg scoped req cs v = (None, w1)" for v
    using Cons.IH[OF Cons.prems(1) that] by simp
  moreover have "run_checks cx cfg scoped req cs w = (None, w1) \<or> run_checks cx cfg scoped req cs w2 = (None, w1)"
    using Cons.prems(2) o1 by (auto split: if_splits sum.splits option.splits)
  ultimately show ?case using same_trans by blast
qed (simp add: same_client_def)

lemma checks_before_address:
  "\<exists>pre post :: ('q, 'r) SecurityCheck list. buildChecks cfg routes
     = pre @ \<lparr>ck_name = ''ip_security'', ck_excluded = True,
              ck_body = (\<lambda>cx. ipSecurityCheck (cx_env cx) (cx_cfg cx))\<rparr> # post
     \<and> (\<forall>c \<in> set pre. \<forall>cx w. same_client req w (snd (ck_body c cx req w)))"
proof -
  let ?specs = "check_specs cfg (RouteConfigs routes) :: (bool \<times> ('q, 'r) SecurityCheck) list"
  let ?pre = "map snd (filter fst (take 11 ?specs))"
  have split: "?specs = take 11 ?specs @ spec ''ip_security'' True True (\<lambda>cx. ipSecurityCheck (cx_env cx) (cx_cfg cx))
      # drop 12 ?specs"
    using id_take_nth_drop[of 11 ?specs] by (simp add: check_specs_def)
  have "buildChecks cfg routes = ?pre @ \<lparr>ck_name = ''ip_security'', ck_excluded = True,
      ck_body = (\<lambda>cx. ipSecurityCheck (cx_env cx) (cx_cfg cx))\<rparr> # map snd (filter fst (drop 12 ?specs))"
    unfolding buildChecks_def by (subst split) (simp only: filter_append map_append filter.simps spec_def fst_conv
        snd_conv if_True list.map)
  moreover have "\<forall>c \<in> snd ` set (take 11 ?specs). \<forall>cx w. same_client req w (snd (ck_body c cx req w))"
    by (simp add: check_specs_def spec_def same_route_config same_view view_route_checks view_auth view_custom
        view_refresh)
  ultimately show ?thesis by fastforce
qed

lemma same_bypass: "same_client req w w1 \<Longrightarrow> fst (HasBypass n (w_st w1)) = fst (HasBypass n (w_st w))"
  by (auto simp: same_client_def HasBypass_def fill_bypass_def Let_def split: option.splits)

lemma banned_check_stops:
  assumes "resolveClientIP req (w_st w) \<noteq> []" "\<not> fst (HasBypass ''ip_ban'' (w_st w))" "w_ban w = Some b"
    and "fst (IsIPBanned (rl_float (en_rl env)) (resolveClientIP req (w_st w)) (en_now env) b) = Inr True"
    and "\<not> sc_PassiveMode cfg"
  shows "fst (ipSecurityCheck env cfg req w) = Inr (Some (createErrorResponse cfg 403 ''IP address banned''))"
  using assms by (auto simp: ipSecurityCheck_def Let_def probe_ban_def passive_or_block_def split: prod.splits)

lemma banned_run:
  assumes "resolveClientIP req (w_st w) \<noteq> []" "\<not> fst (HasBypass ''ip_ban'' (w_st w))" "w_ban w = Some b"
    and "fst (IsIPBanned (rl_float (en_rl (cx_env cx))) (resolveClientIP req (w_st w)) (en_now (cx_env cx)) b) = Inr True"
    and "\<not> sc_PassiveMode (cx_cfg cx)"
  shows "fst (run_checks cx cfg scoped req (buildChecks sc routes) w) \<noteq> None"
proof -
  let ?c = "\<lparr>ck_name = ''ip_security'', ck_excluded = True,
              ck_body = (\<lambda>cx. ipSecurityCheck (cx_env cx) (cx_cfg cx))\<rparr> :: ('a, 'b) SecurityCheck"
  obtain pre post :: "('a, 'b) SecurityCheck list" where split: "buildChecks sc routes = pre @ ?c # post"
    and same: "\<forall>c \<in> set pre. \<forall>cx w. same_client req w (snd (ck_body c cx req w))"
    using checks_before_address[of sc routes req] by blast
  obtain r1 w1 where r1: "run_checks cx cfg scoped req pre w = (r1, w1)" by (meson surj_pair)
  show ?thesis
  proof (cases r1)
    case (Some r)
    then show ?thesis using run_append_Some[of cx cfg scoped req pre w r] r1 by (simp add: split)
  next
    case None
    have client: "same_client req w w1" using run_same_client[of pre req cx cfg scoped w w1] same r1 None by auto
    have "fst (ipSecurityCheck (cx_env cx) (cx_cfg cx) req w1)
        = Inr (Some (createErrorResponse (cx_cfg cx) 403 ''IP address banned''))"
      using banned_check_stops[of req w1 b "cx_env cx" "cx_cfg cx"] assms client same_bypass[OF client]
      by (simp add: same_client_def)
    then have "stops cx cfg req ?c w1 (createErrorResponse (cx_cfg cx) 403 ''IP address banned'')"
      by (simp add: stops_def)
    moreover have "enforced scoped ?c" by (simp add: enforced_def)
    ultimately have "fst (run_checks cx cfg scoped req (?c # post) w1) \<noteq> None" by (simp only: run_stop) simp
    then show ?thesis unfolding split run_append_None[OF r1[unfolded None]] .
  qed
qed

lemma emitPathExcluded_frame:
  "eg_pipeline (fst (emitPathExcludedEvent cfg path now e w)) = eg_pipeline e"
  "w_st (snd (emitPathExcludedEvent cfg path now e w)) = w_st w"
  "w_ban (snd (emitPathExcludedEvent cfg path now e w)) = w_ban w"
  by (simp_all add: emitPathExcludedEvent_def Let_def emitBusEvent_def)

lemma scope_pipeline: "eg_pipeline (fst (scope_exclusion cx req e w)) = eg_pipeline e"
  by (simp add: scope_exclusion_def Let_def emitPathExcluded_frame split: prod.split)

lemma scope_client: "same_client req w (snd (scope_exclusion cx req e w))"
  "bypass_all cx (snd (scope_exclusion cx req e w)) = bypass_all cx w"
  by (simp_all add: scope_exclusion_def Let_def emitPathExcluded_frame same_client_def resolveClientIP_def
      bypass_all_def split: prod.split)

lemma banned_client_answered:
  assumes "default_checks (eg_pipeline e)" "\<not> sc_PassiveMode (cx_cfg cx)"
    and "resolveClientIdentity (cx_cfg cx) req w0 = Some w"
    and "resolveClientIP req (w_st w) \<noteq> []" "\<not> fst (HasBypass ''ip_ban'' (w_st w))" "w_ban w = Some b"
    and "fst (IsIPBanned (rl_float (en_rl (cx_env cx))) (resolveClientIP req (w_st w)) (en_now (cx_env cx)) b) = Inr True"
    and "\<not> bypass_all cx w"
  shows "\<exists>r e1 w1. Engine_Check cx req e w0 = Some (Some r, e1, w1)"
proof -
  have run: "fst (Execute cx req (eg_pipeline f) v) \<noteq> None"
    if "same_client req w v" "eg_pipeline f = eg_pipeline e" for v f
  proof -
    obtain r p1 v1 where ex: "Execute cx req (eg_pipeline f) v = (r, p1, v1)" by (metis prod_cases3)
    note facts = Execute_run[OF assms(1)[folded that(2)] ex]
    obtain c routes where "pl_checks p1 = buildChecks c routes" using facts(1) by (auto simp: default_checks_def)
    then have "r \<noteq> None"
      using banned_run[of req v b cx "Some (cx_cfg cx)" "st_ExclusionScoped (w_st v)" c routes]
        facts(2) assms(2,4-7) that(1) same_bypass[OF that(1)] by (simp add: same_client_def)
    then show ?thesis using ex by simp
  qed
  obtain e2 w2 where sc: "scope_exclusion cx req e w = (e2, w2)" by (meson surj_pair)
  then have e2: "eg_pipeline e2 = eg_pipeline e" "same_client req w w2" "bypass_all cx w2 = bypass_all cx w"
    using scope_pipeline[of cx req e w] scope_client[where cx = cx and req = req and e = e and w = w] by simp_all
  have "same_client req w w" by (simp add: same_client_def)
  obtain r1 p1 v1 where x1: "Execute cx req (eg_pipeline e) w = (Some r1, p1, v1)"
    using run[OF \<open>same_client req w w\<close> refl] by (metis not_Some_eq prod.collapse)
  obtain r2 p2 v2 where x2: "Execute cx req (eg_pipeline e2) w2 = (Some r2, p2, v2)"
    using run[OF e2(2,1)] by (metis not_Some_eq prod.collapse)
  show ?thesis
  proof (cases "if IsPreflight req then eg_CORS e else None")
    case None
    then show ?thesis using assms(3,8) sc e2(3) x2
      by (auto simp: Engine_Check_def usage_stage_def inject_cors_def split: option.split)
  next
    case (Some cors)
    then show ?thesis using assms(3) x1 by (auto simp: Engine_Check_def)
  qed
qed

text \<open>C1: In active mode the engine never passes a request whose client the ban manager reports, nor panics: whatever
  the configured checks, the path exclusions and the order, it answers with a response, unless the
  request bypasses the ban check or its route bypasses all checks. Preflights are no exception.\<close>

theorem banned_client_is_refused:
  assumes "default_checks (eg_pipeline e)" "\<not> sc_PassiveMode (cx_cfg cx)"
    and "resolveClientIdentity (cx_cfg cx) req w0 = Some w"
    and "resolveClientIP req (w_st w) \<noteq> []" "\<not> fst (HasBypass ''ip_ban'' (w_st w))" "w_ban w = Some b"
    and "fst (IsIPBanned (rl_float (en_rl (cx_env cx))) (resolveClientIP req (w_st w)) (en_now (cx_env cx)) b) = Inr True"
    and "\<not> bypass_all cx w"
  shows "\<exists>r e1 w1. Engine_Check cx req e w0 = Some (Some r, e1, w1)"
  by (rule banned_client_answered[OF assms])

definition wt_banned :: "(unit, unit) world" where
  "wt_banned = wt_world\<lparr>w_ban := Some (snd (Ban wt_float ''10.0.0.1'' 60 ''abuse'' 0 (NewIPBanManager None () [])))\<rparr>"

definition wt_eng :: "(unit, unit) Engine" where
  "wt_eng = \<lparr>eg_pipeline = fst (BuildDefaultPipeline wt_cfg NewRouteRegistry), eg_CORS = None,
     eg_exclusions = \<lparr>em_source = [], em_entries = []\<rparr>, eg_emittedPaths = []\<rparr>"

lemma wt_banned_reported:
  "fst (IsIPBanned wt_float ''10.0.0.1'' 59 (snd (Ban wt_float ''10.0.0.1'' 60 ''abuse'' 0 (NewIPBanManager None () []))))
   = Inr True"
proof -
  have "local_live (CanonicalizeIP ''10.0.0.1'') 59 (snd (Ban wt_float ''10.0.0.1'' 60 ''abuse'' 0 (NewIPBanManager None () [])))
      \<and> cache_ok (snd (Ban wt_float ''10.0.0.1'' 60 ''abuse'' 0 (NewIPBanManager None () [])))"
    by (rule Ban_local_live[OF New_ok Ban_10001]) (simp_all add: millis_def LOCAL_CACHE_TTL_CAP_SECONDS_def)
  then show ?thesis by (simp add: IsIPBanned_fst Let_def)
qed

theorem banned_client_is_refused_witness:
  "\<exists>r e1 w1. Engine_Check (wt_cx wt_cfg) (wt_get []) wt_eng wt_banned = Some (Some r, e1, w1)"
proof -
  have who: "resolveClientIdentity (cx_cfg (wt_cx wt_cfg)) (wt_get []) wt_banned = Some wt_banned"
    by (simp add: resolveClientIdentity_def extractClientIP_def wt_banned_def wt_world_def new_state_def)
  have "w_st wt_banned = w_st wt_world" by (simp add: wt_banned_def)
  then have st: "resolveClientIP (wt_get []) (w_st wt_banned) = ''10.0.0.1''"
    "\<not> fst (HasBypass ''ip_ban'' (w_st wt_banned))" "st_GuardRouteID (w_st wt_banned) = []"
    by (simp_all add: wt_state) (simp add: wt_world_def new_state_def)
  have cx: "\<not> sc_PassiveMode (cx_cfg (wt_cx wt_cfg))" "rl_float (en_rl (cx_env (wt_cx wt_cfg))) = wt_float"
    "en_now (cx_env (wt_cx wt_cfg)) = 59"
    by (simp_all add: wt_cx_def wt_cfg_def wt_check_env_def wt_env_def)
  have pl: "default_checks (eg_pipeline wt_eng)" by (simp add: wt_eng_def default_BuildDefault)
  have ban: "w_ban wt_banned = Some (snd (Ban wt_float ''10.0.0.1'' 60 ''abuse'' 0 (NewIPBanManager None () [])))"
    by (simp add: wt_banned_def)
  show ?thesis
    using banned_client_is_refused[OF pl cx(1) who _ st(2) ban] st cx wt_banned_reported
    by (simp add: bypass_all_def rg_Get_def)
qed

section \<open>Handshakes and requests disagree\<close>

text \<open>An address on both the global allow list and the deny list is refused by the address check of
  an ordinary request, while the handshake guard lets it through: there the allow list alone decides.\<close>

theorem handshake_ignores_deny_list:
  assumes "\<not> sc_PassiveMode cfg" "ipMatchesList ip (sc_Whitelist cfg)" "ipMatchesList ip (sc_Blacklist cfg)"
    and "st_ExclusionScoped (w_st w) \<or> st_RouteConfig (w_st w) = None" "\<not> fst (HasBypass ''ip'' (w_st w))"
    and "resolveClientIP req (w_st w) = ip" "fst (probe_ban env ip w) = Inr False"
  shows "webSocketIPAllowed env cfg ip \<and> fst (ipSecurityCheck env cfg req w) \<noteq> Inr None"
proof -
  obtain a where a: "ParseAddr ip = Some a" using assms(2) by (auto simp: ipMatchesList_def split: option.splits)
  then have ip: "ip \<noteq> []" by (auto simp: ParseAddr_def)
  have lists: "sc_Whitelist cfg \<noteq> []" "\<not> access_ok cfg (w_st w) ip"
    using assms(2-5) by (auto simp: access_ok_def global_ok_def)
  have "fst (ipSecurityCheck env cfg req w) \<noteq> Inr None"
    using address_check_decides[of cfg req w env, unfolded assms(6), OF assms(1) ip assms(7)] lists(2) by simp
  then show ?thesis using a ip lists(1) assms(2) by (simp add: webSocketIPAllowed_def)
qed

theorem handshake_ignores_deny_list_witness:
  "webSocketIPAllowed (wt_check_env 0) (wt_cfg\<lparr>sc_Whitelist := [''10.0.0.1'']\<rparr>) ''10.0.0.1''
   \<and> fst (ipSecurityCheck (wt_check_env 0) (wt_cfg\<lparr>sc_Whitelist := [''10.0.0.1'']\<rparr>) (wt_get []) wt_world) \<noteq> Inr None"
  using wt_probe by (intro handshake_ignores_deny_list) (simp_all add: wt_cfg_def matches_10001 wt_state)

end
