(* ===== verification/Cloud.thy ===== *)
theory Cloud
  imports Checks "HOL-Library.Multiset"
begin

text \<open>
  The address ranges of the cloud providers: \<open>guardcore/cloudproviders.go\<close> and the Redis start-up of
  \<open>checks_cloud.go\<close>. The Go maps of a range set and of the manager are association lists with distinct
  keys whose order stands for the order of one iteration. The three stores behind \<open>CloudIPStore\<close> are
  modelled, a store being a record of functions of the clock and of a state \<open>'s\<close>. An HTTP download followed by
  \<open>json.Unmarshal\<close> is a parameter that gives the decoded document or an error, the JSON coding of a list
  of strings is the record \<open>json_strings\<close>. The regular expressions that find the Azure link in the
  download page are left out, so are log lines; the flag of the background refresh and the stamp of the
  last one are \<open>cloud_state\<close> in \<open>Checks\<close>.
\<close>

section \<open>Selectors\<close>

definition AllCloudProviders :: "string list" where
  "AllCloudProviders = [''AWS'', ''GCP'', ''Azure'', ''DigitalOcean'', ''Linode'', ''Vultr'']"

definition ValidCloudProviders :: "string \<Rightarrow> bool" where
  "ValidCloudProviders p \<longleftrightarrow> p \<in> set AllCloudProviders"

text \<open>\<open>strings.Cut\<close> at the carve-out marker and at one byte.\<close>

fun cut_marker :: "string \<Rightarrow> string \<times> string option" where
  "cut_marker [] = ([], None)"
| "cut_marker (c # cs) =
     (if has_prefix (c # cs) '':!'' then ([], Some (drop 2 (c # cs)))
      else (case cut_marker cs of (p, r) \<Rightarrow> (c # p, r)))"

definition cut_byte :: "string \<Rightarrow> char \<Rightarrow> string \<times> string" where
  "cut_byte s c = (case index_byte s c of None \<Rightarrow> (s, []) | Some i \<Rightarrow> (take i s, drop (Suc i) s))"

type_synonym selector_sets = "string list \<times> (string \<times> string list) list"

definition add_selector :: "string \<Rightarrow> selector_sets \<Rightarrow> selector_sets" where
  "add_selector selector acc =
     (case (cut_marker selector, acc) of
        ((provider, region), (blocked, carveouts)) \<Rightarrow>
          (if provider = [] then acc
           else
             (List.insert provider blocked,
              (case region of
                 None \<Rightarrow> carveouts
               | Some r \<Rightarrow>
                   (if r = [] then carveouts
                    else
                      (let rs = (case map_of carveouts provider of None \<Rightarrow> [] | Some rs \<Rightarrow> rs) in
                       AList.update provider (List.insert r rs) carveouts))))))"

definition parseCloudSelectors :: "string list \<Rightarrow> selector_sets" where
  "parseCloudSelectors selectors = fold add_selector selectors ([], [])"

definition bareProviderNames :: "string list \<Rightarrow> string list" where
  "bareProviderNames selectors =
     sort (remdups (filter (\<lambda>p. p \<noteq> []) (map (\<lambda>s. fst (cut_marker s)) selectors)))"

section \<open>Range sets and their cached form\<close>

record cloudRangeSet =
  crs_networks :: "(string \<times> prefix_t) list"
  crs_regions :: "(string \<times> string) list"

datatype cloud_error =
  BadNetwork string | CorruptEntry string | Download string | NoFetcher string | StoreError string | NilRedis

definition newCloudRangeSet :: cloudRangeSet where
  "newCloudRangeSet = \<lparr>crs_networks = [], crs_regions = []\<rparr>"

definition parseCloudNetwork :: "string \<Rightarrow> (prefix_t \<times> string) option" where
  "parseCloudNetwork s = map_option (\<lambda>p. (Masked p, prefix_String (Masked p))) (ParsePrefix s)"

definition region_of :: "cloudRangeSet \<Rightarrow> string \<Rightarrow> string" where
  "region_of s key = (case map_of (crs_regions s) key of None \<Rightarrow> [] | Some r \<Rightarrow> r)"

definition add_network :: "string \<Rightarrow> prefix_t \<Rightarrow> string \<Rightarrow> cloudRangeSet \<Rightarrow> cloudRangeSet" where
  "add_network key network region s =
     s\<lparr>crs_networks := AList.update key network (crs_networks s),
       crs_regions := (if region = [] then crs_regions s else AList.update key region (crs_regions s))\<rparr>"

definition encodeCachedEntry :: "string \<Rightarrow> string \<Rightarrow> string" where
  "encodeCachedEntry network region = (if region \<noteq> [] then network @ ''|'' @ region else network)"

definition encodeCachedRanges :: "cloudRangeSet \<Rightarrow> string list" where
  "encodeCachedRanges s = sort (map (\<lambda>(key, _). encodeCachedEntry key (region_of s key)) (crs_networks s))"

fun decode_entries :: "string list \<Rightarrow> cloudRangeSet \<Rightarrow> cloud_error + cloudRangeSet" where
  "decode_entries [] s = Inr s"
| "decode_entries (entry # entries) s =
     (case cut_byte entry (CHR ''|'') of
        (p, region) \<Rightarrow>
          (case parseCloudNetwork p of
             None \<Rightarrow> Inl (CorruptEntry entry)
           | Some (masked, key) \<Rightarrow> decode_entries entries (add_network key masked region s)))"

definition decodeCachedEntries :: "string list \<Rightarrow> cloud_error + cloudRangeSet" where
  "decodeCachedEntries entries = decode_entries entries newCloudRangeSet"

definition decodeCachedRangesPayload :: "string \<Rightarrow> cloud_error + cloudRangeSet" where
  "decodeCachedRangesPayload payload = decodeCachedEntries (split_on (CHR '','') payload)"

section \<open>Documents of the providers\<close>

text \<open>The loops of the fetchers over the decoded documents: a strict one that stops at the first bad
  network, a lenient one that skips it.\<close>

fun strict_networks :: "(string \<times> string) list \<Rightarrow> cloudRangeSet \<Rightarrow> cloud_error + cloudRangeSet" where
  "strict_networks [] s = Inr s"
| "strict_networks ((p, region) # es) s =
     (case parseCloudNetwork p of
        None \<Rightarrow> Inl (BadNetwork p)
      | Some (masked, key) \<Rightarrow> strict_networks es (add_network key masked region s))"

fun lenient_networks :: "string list \<Rightarrow> cloudRangeSet \<Rightarrow> cloudRangeSet" where
  "lenient_networks [] s = s"
| "lenient_networks (p # ps) s =
     (case parseCloudNetwork p of
        None \<Rightarrow> lenient_networks ps s
      | Some (masked, key) \<Rightarrow> lenient_networks ps (add_network key masked [] s))"

record aws_prefix =
  aws_IPPrefix :: string
  aws_Service :: string
  aws_Region :: string

record gcp_prefix =
  gcp_IPv4Prefix :: string
  gcp_IPv6Prefix :: string
  gcp_Scope :: string

definition fetchAWSIPRanges :: "string + aws_prefix list \<Rightarrow> cloud_error + cloudRangeSet" where
  "fetchAWSIPRanges doc =
     (case doc of
        Inl e \<Rightarrow> Inl (Download e)
      | Inr es \<Rightarrow>
          strict_networks (map (\<lambda>e. (aws_IPPrefix e, aws_Region e)) (filter (\<lambda>e. aws_Service e = ''AMAZON'') es))
            newCloudRangeSet)"

definition gcp_entry :: "gcp_prefix \<Rightarrow> string \<times> string" where
  "gcp_entry e = (if gcp_IPv4Prefix e = [] then gcp_IPv6Prefix e else gcp_IPv4Prefix e, gcp_Scope e)"

definition fetchGCPIPRanges :: "string + gcp_prefix list \<Rightarrow> cloud_error + cloudRangeSet" where
  "fetchGCPIPRanges doc =
     (case doc of
        Inl e \<Rightarrow> Inl (Download e)
      | Inr es \<Rightarrow> strict_networks (filter (\<lambda>(p, _). p \<noteq> []) (map gcp_entry es)) newCloudRangeSet)"

definition csv_prefix :: "string \<Rightarrow> string" where
  "csv_prefix rawLine =
     (let line = trim_space rawLine in
      if line = [] \<or> has_prefix line ''#'' then [] else trim_space (cut_before line (CHR '','')))"

definition fetchCSVPrefixNetworks :: "string + string \<Rightarrow> cloud_error + cloudRangeSet" where
  "fetchCSVPrefixNetworks doc =
     (case doc of
        Inl e \<Rightarrow> Inl (Download e)
      | Inr body \<Rightarrow>
          Inr (lenient_networks (filter (\<lambda>p. p \<noteq> []) (map csv_prefix (split_on (CHR 0x0A) body))) newCloudRangeSet))"

definition fetchVultrIPRanges :: "string + string list \<Rightarrow> cloud_error + cloudRangeSet" where
  "fetchVultrIPRanges doc =
     (case doc of
        Inl e \<Rightarrow> Inl (Download e)
      | Inr ps \<Rightarrow> Inr (lenient_networks (filter (\<lambda>p. p \<noteq> []) ps) newCloudRangeSet))"

definition azureCloudServiceTagName :: string where
  "azureCloudServiceTagName = ''AzureCloud''"

definition selectAzureCloudPrefixes :: "(string \<times> string list) list \<Rightarrow> cloud_error + string list" where
  "selectAzureCloudPrefixes vals =
     (case map_of vals azureCloudServiceTagName of
        None \<Rightarrow> Inl (Download ''azure ServiceTags document has no AzureCloud tag'')
      | Some ps \<Rightarrow> Inr ps)"

text \<open>The tail of \<open>fetchAzureIPRanges\<close>, once the document is downloaded.\<close>

definition azure_ranges :: "string + (string \<times> string list) list \<Rightarrow> cloud_error + cloudRangeSet" where
  "azure_ranges doc =
     (case doc of
        Inl e \<Rightarrow> Inl (Download e)
      | Inr vals \<Rightarrow>
          (case selectAzureCloudPrefixes vals of
             Inl e \<Rightarrow> Inl e
           | Inr ps \<Rightarrow> strict_networks (map (\<lambda>p. (p, [])) ps) newCloudRangeSet))"

text \<open>\<open>downloadAzureServiceTags\<close>: the reading of the clock before and after an attempt, and the answer of an
  attempt under its time limit.\<close>

definition azureDownloadMaxAttempts :: nat where "azureDownloadMaxAttempts = 3"
definition azureDownloadAttemptTimeout :: real where "azureDownloadAttemptTimeout = 10"

function azure_attempts ::
  "(nat \<Rightarrow> real \<times> real) \<Rightarrow> (nat \<Rightarrow> real \<Rightarrow> (string \<times> int) + string) \<Rightarrow> real \<Rightarrow> nat \<Rightarrow> string + string" where
  "azure_attempts clock get deadline attempt =
     (let remaining = deadline - fst (clock attempt) in
      if remaining \<le> 0 then Inl ''azure IP ranges download exceeded max elapsed time''
      else
        (case get attempt (if remaining < azureDownloadAttemptTimeout then remaining else azureDownloadAttemptTimeout) of
           Inr body \<Rightarrow> Inr body
         | Inl (err, status) \<Rightarrow>
             (if 300 \<le> status \<and> status < 400 then Inl err
              else if attempt \<ge> azureDownloadMaxAttempts \<or> deadline - snd (clock attempt) \<le> 0 then Inl err
              else azure_attempts clock get deadline (attempt + 1))))"
  by pat_completeness auto
termination
  by (relation "measure (\<lambda>(clock, get, deadline, attempt). azureDownloadMaxAttempts - attempt)") auto

declare azure_attempts.simps [simp del]

definition downloadAzureServiceTags ::
  "(nat \<Rightarrow> real \<times> real) \<Rightarrow> (nat \<Rightarrow> real \<Rightarrow> (string \<times> int) + string) \<Rightarrow> real \<Rightarrow> string + string" where
  "downloadAzureServiceTags clock get deadline = azure_attempts clock get deadline 1"

text \<open>The order of the candidate links; \<open>date\<close> is \<open>parseServiceTagsDate\<close>.\<close>

definition compareServiceTagsKeys :: "(string \<Rightarrow> int option) \<Rightarrow> string \<Rightarrow> string \<Rightarrow> bool" where
  "compareServiceTagsKeys date a b =
     (if (date a \<noteq> None) \<noteq> (date b \<noteq> None) then date b \<noteq> None
      else if date a \<noteq> None \<and> date a \<noteq> date b then the (date a) < the (date b)
      else a < b)"

definition newest_candidate :: "(string \<Rightarrow> int option) \<Rightarrow> string list \<Rightarrow> string" where
  "newest_candidate date candidates =
     (case candidates of
        [] \<Rightarrow> []
      | c # cs \<Rightarrow> fold (\<lambda>candidate winner. if compareServiceTagsKeys date winner candidate then candidate else winner) cs c)"

record cloud_documents =
  cd_AWS :: "string + aws_prefix list"
  cd_GCP :: "string + gcp_prefix list"
  cd_Azure :: "string + (string \<times> string list) list"
  cd_DigitalOcean :: "string + string"
  cd_Linode :: "string + string"
  cd_Vultr :: "string + string list"

definition fetchProviderRanges :: "cloud_documents \<Rightarrow> string \<Rightarrow> cloud_error + cloudRangeSet" where
  "fetchProviderRanges docs provider =
     (if provider = ''AWS'' then fetchAWSIPRanges (cd_AWS docs)
      else if provider = ''GCP'' then fetchGCPIPRanges (cd_GCP docs)
      else if provider = ''Azure'' then azure_ranges (cd_Azure docs)
      else if provider = ''DigitalOcean'' then fetchCSVPrefixNetworks (cd_DigitalOcean docs)
      else if provider = ''Linode'' then fetchCSVPrefixNetworks (cd_Linode docs)
      else if provider = ''Vultr'' then fetchVultrIPRanges (cd_Vultr docs)
      else Inl (NoFetcher provider))"

section \<open>Stores\<close>

record 's CloudIPStore =
  cst_Get :: "real \<Rightarrow> string \<Rightarrow> 's \<Rightarrow> (cloud_error + string list option) \<times> 's"
  cst_Set :: "real \<Rightarrow> string \<Rightarrow> string list \<Rightarrow> int \<Rightarrow> 's \<Rightarrow> cloud_error option \<times> 's"

record InMemoryCloudIPStore =
  im_data :: "(string \<times> string list) list"
  im_expiresAt :: "(string \<times> real) list"

definition NewInMemoryCloudIPStore :: InMemoryCloudIPStore where
  "NewInMemoryCloudIPStore = \<lparr>im_data = [], im_expiresAt = []\<rparr>"

definition memory_Get ::
  "real \<Rightarrow> string \<Rightarrow> InMemoryCloudIPStore \<Rightarrow> (cloud_error + string list option) \<times> InMemoryCloudIPStore" where
  "memory_Get now provider s =
     (if (case map_of (im_expiresAt s) provider of None \<Rightarrow> False | Some e \<Rightarrow> \<not> now < e)
      then (Inr None, s\<lparr>im_data := AList.delete provider (im_data s),
                        im_expiresAt := AList.delete provider (im_expiresAt s)\<rparr>)
      else (Inr (map_of (im_data s) provider), s))"

definition memory_Set ::
  "real \<Rightarrow> string \<Rightarrow> string list \<Rightarrow> int \<Rightarrow> InMemoryCloudIPStore \<Rightarrow> cloud_error option \<times> InMemoryCloudIPStore" where
  "memory_Set now provider entries ttlSeconds s =
     (None, s\<lparr>im_data := AList.update provider entries (im_data s),
              im_expiresAt := (if ttlSeconds > 0 then AList.update provider (now + of_int ttlSeconds) (im_expiresAt s)
                               else AList.delete provider (im_expiresAt s))\<rparr>)"

definition memory_store :: "InMemoryCloudIPStore CloudIPStore" where
  "memory_store = \<lparr>cst_Get = memory_Get, cst_Set = memory_Set\<rparr>"

text \<open>\<open>json.Marshal\<close> of a string, \<open>json.Unmarshal\<close> of an array of strings.\<close>

record json_strings =
  js_quote :: "string \<Rightarrow> string"
  js_array :: "string \<Rightarrow> string list option"

definition encodeCloudIPv2Payload :: "json_strings \<Rightarrow> string list \<Rightarrow> string" where
  "encodeCloudIPv2Payload js entries = ''['' @ join_with '', '' (map (js_quote js) (sort entries)) @ '']''"

definition decodeCloudIPv2Payload :: "json_strings \<Rightarrow> string \<Rightarrow> string list option" where
  "decodeCloudIPv2Payload js raw = (if raw = [] then None else js_array js raw)"

definition RedisCloudIPStore :: "json_strings \<Rightarrow> 's RedisHandler \<Rightarrow> 's CloudIPStore" where
  "RedisCloudIPStore js h =
     \<lparr>cst_Get = (\<lambda>now provider s.
        (case rh_GetKey h ''cloud_ip_v2'' provider s of
           (Inl e, s1) \<Rightarrow> (Inl (StoreError e), s1)
         | (Inr raw, s1) \<Rightarrow> (Inr (decodeCloudIPv2Payload js raw), s1))),
      cst_Set = (\<lambda>now provider entries ttl s.
        (case rh_SetKey h ''cloud_ip_v2'' provider (encodeCloudIPv2Payload js entries) ttl s of
           (e, s1) \<Rightarrow> (map_option StoreError e, s1)))\<rparr>"

definition RedisCloudRangesStore :: "'s RedisHandler \<Rightarrow> 's CloudIPStore" where
  "RedisCloudRangesStore h =
     \<lparr>cst_Get = (\<lambda>now provider s.
        (case rh_GetKey h ''cloud_ranges_v2'' provider s of
           (Inl e, s1) \<Rightarrow> (Inl (StoreError e), s1)
         | (Inr raw, s1) \<Rightarrow> (Inr (if raw = [] then None else Some (split_on (CHR '','') raw)), s1))),
      cst_Set = (\<lambda>now provider entries ttl s.
        (case rh_SetKey h ''cloud_ranges_v2'' provider (join_with '','' (sort entries)) ttl s of
           (e, s1) \<Rightarrow> (map_option StoreError e, s1)))\<rparr>"

section \<open>The manager\<close>

record 's CloudManager =
  cm_store :: "'s CloudIPStore option"
  cm_redis :: "'s RedisHandler option"
  cm_state :: 's
  cm_ranges :: "(string \<times> cloudRangeSet) list"
  cm_lastUpdated :: "(string \<times> real) list"
  cm_warnedAt :: "(string \<times> real) list"

definition NewCloudManager :: "'s \<Rightarrow> 's CloudManager" where
  "NewCloudManager s =
     \<lparr>cm_store = None, cm_redis = None, cm_state = s, cm_ranges = [], cm_lastUpdated = [], cm_warnedAt = []\<rparr>"

definition effectiveStore :: "'s CloudManager \<Rightarrow> 's CloudIPStore option" where
  "effectiveStore m =
     (case cm_store m of Some st \<Rightarrow> Some st | None \<Rightarrow> map_option RedisCloudRangesStore (cm_redis m))"

definition installRanges :: "string \<Rightarrow> cloudRangeSet \<Rightarrow> real option \<Rightarrow> 's CloudManager \<Rightarrow> 's CloudManager" where
  "installRanges provider s stamp m =
     m\<lparr>cm_ranges := AList.update provider s (cm_ranges m),
       cm_lastUpdated := (case stamp of None \<Rightarrow> cm_lastUpdated m
                          | Some now \<Rightarrow> AList.update provider now (cm_lastUpdated m))\<rparr>"

definition ensureProviderEntry :: "string \<Rightarrow> 's CloudManager \<Rightarrow> 's CloudManager" where
  "ensureProviderEntry provider m =
     (if map_of (cm_ranges m) provider = None
      then m\<lparr>cm_ranges := AList.update provider newCloudRangeSet (cm_ranges m)\<rparr> else m)"

definition use_state :: "'s \<Rightarrow> 's CloudManager \<Rightarrow> 's CloudManager" where
  "use_state s m = m\<lparr>cm_state := s\<rparr>"

text \<open>The body of the loop of \<open>RefreshAsync\<close>: a download, then the look into the store before it.\<close>

definition download_provider ::
  "(string \<Rightarrow> cloud_error + cloudRangeSet) \<Rightarrow> real \<Rightarrow> int \<Rightarrow> string \<Rightarrow> 's CloudManager \<Rightarrow> 's CloudManager" where
  "download_provider fetch now ttl provider m =
     (case fetch provider of
        Inl e \<Rightarrow> ensureProviderEntry provider m
      | Inr s \<Rightarrow>
          (if crs_networks s = [] then m
           else
             installRanges provider s (Some now)
               (case effectiveStore m of
                  None \<Rightarrow> m
                | Some st \<Rightarrow> use_state (snd (cst_Set st now provider (encodeCachedRanges s) ttl (cm_state m))) m)))"

definition refresh_provider ::
  "(string \<Rightarrow> cloud_error + cloudRangeSet) \<Rightarrow> real \<Rightarrow> int \<Rightarrow> string \<Rightarrow> 's CloudManager \<Rightarrow> 's CloudManager" where
  "refresh_provider fetch now ttl provider m =
     (case effectiveStore m of
        None \<Rightarrow> download_provider fetch now ttl provider m
      | Some st \<Rightarrow>
          (case cst_Get st now provider (cm_state m) of
             (Inl e, s1) \<Rightarrow> ensureProviderEntry provider (use_state s1 m)
           | (Inr None, s1) \<Rightarrow> download_provider fetch now ttl provider (use_state s1 m)
           | (Inr (Some entries), s1) \<Rightarrow>
               (case decodeCachedEntries entries of
                  Inl e \<Rightarrow> ensureProviderEntry provider (use_state s1 m)
                | Inr s \<Rightarrow> installRanges provider s None (use_state s1 m))))"

definition RefreshAsync ::
  "(string \<Rightarrow> cloud_error + cloudRangeSet) \<Rightarrow> real \<Rightarrow> string list \<Rightarrow> int \<Rightarrow> 's CloudManager \<Rightarrow> 's CloudManager" where
  "RefreshAsync fetch now providers ttl m = fold (refresh_provider fetch now ttl) (bareProviderNames providers) m"

definition cloud_InitializeRedis ::
  "json_strings \<Rightarrow> (string \<Rightarrow> cloud_error + cloudRangeSet) \<Rightarrow> real \<Rightarrow> 's RedisHandler option \<Rightarrow> string list \<Rightarrow> int
     \<Rightarrow> 's CloudManager \<Rightarrow> cloud_error option \<times> 's CloudManager" where
  "cloud_InitializeRedis js fetch now redis providers ttl m =
     (case redis of
        None \<Rightarrow> (Some NilRedis, m)
      | Some h \<Rightarrow>
          (let m1 = m\<lparr>cm_redis := Some h\<rparr>;
               m2 = (if cm_store m1 = None then m1\<lparr>cm_store := Some (RedisCloudIPStore js h)\<rparr> else m1)
           in (None, RefreshAsync fetch now providers ttl m2)))"

section \<open>Lookups\<close>

definition in_network :: "addr \<Rightarrow> prefix_t \<Rightarrow> bool" where
  "in_network a network \<longleftrightarrow> prefix_contains network (unmap a) \<or> prefix_contains network a"

definition carved_out :: "selector_sets \<Rightarrow> string \<Rightarrow> cloudRangeSet \<Rightarrow> string \<Rightarrow> bool" where
  "carved_out sel provider s key =
     (case map_of (snd sel) provider of
        None \<Rightarrow> False
      | Some rs \<Rightarrow> rs \<noteq> [] \<and> region_of s key \<in> set rs)"

definition provider_matches :: "addr \<Rightarrow> selector_sets \<Rightarrow> 's CloudManager \<Rightarrow> string \<Rightarrow> bool" where
  "provider_matches a sel m provider =
     (case map_of (cm_ranges m) provider of
        None \<Rightarrow> False
      | Some s \<Rightarrow> list_ex (\<lambda>(key, network). in_network a network \<and> \<not> carved_out sel provider s key) (crs_networks s))"

text \<open>The providers the loop meets with no range before it finds a match are warned about, once in five
  minutes.\<close>

definition warnEmptyRanges :: "real \<Rightarrow> string \<Rightarrow> 's CloudManager \<Rightarrow> 's CloudManager" where
  "warnEmptyRanges now provider m =
     (case map_of (cm_warnedAt m) provider of
        None \<Rightarrow> m\<lparr>cm_warnedAt := AList.update provider now (cm_warnedAt m)\<rparr>
      | Some t \<Rightarrow> if now - t < 300 then m else m\<lparr>cm_warnedAt := AList.update provider now (cm_warnedAt m)\<rparr>)"

definition empty_provider :: "'s CloudManager \<Rightarrow> string \<Rightarrow> bool" where
  "empty_provider m provider =
     (case map_of (cm_ranges m) provider of None \<Rightarrow> False | Some s \<Rightarrow> crs_networks s = [])"

definition IsCloudIP :: "real \<Rightarrow> string \<Rightarrow> string list \<Rightarrow> 's CloudManager \<Rightarrow> bool \<times> 's CloudManager" where
  "IsCloudIP now ip selectors m =
     (case ParseAddr (stripIPBrackets ip) of
        None \<Rightarrow> (False, m)
      | Some a \<Rightarrow>
          (let sel = parseCloudSelectors selectors;
               before = takeWhile (\<lambda>p. \<not> provider_matches a sel m p) (fst sel)
           in (list_ex (provider_matches a sel m) (fst sel),
               fold (warnEmptyRanges now) (filter (empty_provider m) before) m)))"

definition GetCloudProviderDetails :: "string \<Rightarrow> string list \<Rightarrow> 's CloudManager \<Rightarrow> (string \<times> string) option" where
  "GetCloudProviderDetails ip selectors m =
     (case ParseAddr (stripIPBrackets ip) of
        None \<Rightarrow> None
      | Some a \<Rightarrow>
          find (\<lambda>_. True)
            (concat (map (\<lambda>provider.
               case map_of (cm_ranges m) provider of
                 None \<Rightarrow> []
               | Some s \<Rightarrow> map (\<lambda>(key, _). (provider, key)) (filter (\<lambda>(_, network). in_network a network) (crs_networks s)))
               (bareProviderNames selectors))))"

record CloudProviderStatus =
  ps_Ready :: bool
  ps_LastRefreshed :: "real option"
  ps_Entries :: nat

definition cloud_Status :: "'s CloudManager \<Rightarrow> (string \<times> CloudProviderStatus) list" where
  "cloud_Status m =
     map (\<lambda>provider.
       (let n = (case map_of (cm_ranges m) provider of None \<Rightarrow> 0 | Some s \<Rightarrow> length (crs_networks s)) in
        (provider, \<lparr>ps_Ready = n > 0, ps_LastRefreshed = map_of (cm_lastUpdated m) provider, ps_Entries = n\<rparr>)))
       AllCloudProviders"

section \<open>Networks are read back from their text\<close>

lemma dec_value_snoc: "d < 10 \<Longrightarrow> dec_value acc (xs @ [dec_char d]) = map_option (\<lambda>k. k * 10 + d) (dec_value acc xs)"
  by (induction acc xs rule: dec_value.induct) simp_all

lemma dec_value_dec: "dec_value 0 (dec n) = Some n"
proof (induction n rule: dec.induct)
  case (1 n)
  then show ?case by (subst dec.simps) (simp add: dec_value_snoc)
qed

lemma dec_no_leading_zero: "0 < n \<Longrightarrow> hd (dec n) \<noteq> CHR ''0''"
proof (induction n rule: dec.induct)
  case (1 n)
  have "dec_char n \<noteq> CHR ''0''" if "0 < n" "n < 10"
    using dec_char_digit(2)[OF that(2)] that(1) by (auto simp: digit_val_def)
  then show ?case using 1 by (subst dec.simps) simp
qed

definition network_ok :: "prefix_t \<Rightarrow> bool" where
  "network_ok p \<longleftrightarrow> prefix_ok p \<and> snd p \<le> bitlen (fst p) \<and> Masked p = p"

lemma ParsePrefix_String:
  assumes "network_ok p"
  shows "ParsePrefix (prefix_String p) = Some p"
proof -
  obtain a n where p: "p = (a, n)" by (cases p)
  have a: "addr_ok a" "addr_zone a = []" "n \<le> bitlen a" using assms p by (simp_all add: network_ok_def prefix_ok_def)
  have sep: "CHR ''/'' \<notin> set (rev (dec n))" using dec_bytes[of "CHR ''/''" n] by (auto simp: is_digit_def)
  have idx: "last_index_byte (addr_String a @ ''/'' @ dec n) CHR ''/'' = Some (length (addr_String a))"
    using index_byte_append_notin[OF sep, of "CHR ''/'' # rev (addr_String a)"] by (simp add: last_index_byte_def)
  have lead: "length (dec n) > 1 \<Longrightarrow> hd (dec n) \<noteq> CHR ''0'' \<and> is_digit (hd (dec n))"
    using dec_no_leading_zero[of n] dec_bytes[of "hd (dec n)" n]
    by (cases "n = 0") (auto simp: dec.simps[of 0])
  have "PrefixFrom a n = (a, n)" using a(2) by (cases a) (simp_all add: PrefixFrom_def addr_zone_def)
  then show ?thesis
    using parse_String[OF a(1)] a(2,3) lead
    by (auto simp: ParsePrefix_def p prefix_String_def idx[simplified] Let_def dec_value_dec)
qed

lemma Masked_idem: "Masked (Masked p) = Masked p"
  by (simp add: Masked_def mask_addr_mask)

lemma parseCloudNetwork_ok:
  assumes "parseCloudNetwork s = Some (network, key)"
  shows "network_ok network \<and> key = prefix_String network"
proof -
  obtain p where p: "ParsePrefix s = Some p" "network = Masked p" "key = prefix_String (Masked p)"
    using assms by (auto simp: parseCloudNetwork_def)
  have "snd p \<le> bitlen (fst p)"
    using p(1) by (auto simp: ParsePrefix_def Let_def PrefixFrom_def bitlen_def split: option.splits if_splits addr.splits)
  then have "snd (Masked p) \<le> bitlen (fst (Masked p))"
    by (simp add: Masked_def mask_addr_def bitlen_def split: addr.splits)
  then show ?thesis
    using p Masked_ok[OF ParsePrefix_ok[OF p(1)]] by (simp add: network_ok_def Masked_idem)
qed

lemma parseCloudNetwork_key: "network_ok p \<Longrightarrow> parseCloudNetwork (prefix_String p) = Some (p, prefix_String p)"
  by (simp add: parseCloudNetwork_def ParsePrefix_String network_ok_def)

lemma network_text:
  assumes "network_ok p" "c \<in> set (prefix_String p)"
  shows "c = CHR ''.'' \<or> c = CHR '':'' \<or> c = CHR ''/'' \<or> hex_digit c \<noteq> None"
proof -
  have ok: "addr_ok (fst p)" "addr_zone (fst p) = []" using assms(1) by (simp_all add: network_ok_def prefix_ok_def)
  have "c = CHR ''.'' \<or> c = CHR '':'' \<or> hex_digit c \<noteq> None" if c: "c \<in> set (addr_String (fst p))"
  proof (cases "is4in6 (fst p)")
    case True
    then obtain os where os: "unmap (fst p) = V4 os" "addr_ok (V4 os)"
      using unmap_ok[OF ok(1)] by (cases "fst p") (auto simp: unmap_def)
    have "hex_digit CHR ''f'' \<noteq> None" by (simp add: hex_digit_def is_digit_def)
    then show ?thesis
      using True c os v4_text_set[OF os(2), of c] ok(2)
      by (cases "fst p") (auto simp: addr_String_def addr_zone_def zone_suffix_def)
  next
    case False
    then show ?thesis
      using c ok v4_text_set[of _ c] v6_text_set[of _ "[]" c]
      by (cases "fst p") (auto simp: addr_String_def addr_zone_def zone_suffix_def)
  qed
  moreover have "c \<in> set (dec n) \<Longrightarrow> hex_digit c \<noteq> None" for n
    using dec_bytes[of c n] by (auto simp: hex_digit_def)
  ultimately show ?thesis using assms(2) by (auto simp: prefix_String_def)
qed

lemma network_text_seps:
  "network_ok p \<Longrightarrow> CHR ''|'' \<notin> set (prefix_String p)" "network_ok p \<Longrightarrow> CHR '','' \<notin> set (prefix_String p)"
  using network_text[of p "CHR ''|''"] network_text[of p "CHR '',''"] by (auto simp: hex_digit_def is_digit_def)

section \<open>The cached form is read back\<close>

definition ranges_ok :: "cloudRangeSet \<Rightarrow> bool" where
  "ranges_ok s \<longleftrightarrow>
     distinct (map fst (crs_networks s))
     \<and> list_all (\<lambda>(key, network). network_ok network \<and> key = prefix_String network) (crs_networks s)"

lemma new_ranges_ok: "ranges_ok newCloudRangeSet"
  by (simp add: ranges_ok_def newCloudRangeSet_def)

lemma set_update_subset: "set (AList.update k v xs) \<subseteq> insert (k, v) (set xs)"
  by (induction xs) auto

lemma add_network_ok:
  assumes "parseCloudNetwork t = Some ((a, n), key)" "ranges_ok s"
  shows "ranges_ok (add_network key (a, n) region s)"
proof -
  have "network_ok (a, n) \<and> key = prefix_String (a, n)" using parseCloudNetwork_ok[OF assms(1)] by simp
  moreover have "distinct (map fst (AList.update key (a, n) (crs_networks s)))"
    using assms(2) by (intro distinct_update) (simp add: ranges_ok_def)
  moreover have "\<forall>(k, n) \<in> set (crs_networks s). network_ok n \<and> k = prefix_String n"
    using assms(2) by (simp add: ranges_ok_def list_all_iff)
  ultimately show ?thesis
    using set_update_subset[of key "(a, n)" "crs_networks s"]
    unfolding ranges_ok_def add_network_def list_all_iff by (auto dest!: subsetD)
qed

lemma decode_ok: "decode_entries es s = Inr s' \<Longrightarrow> ranges_ok s \<Longrightarrow> ranges_ok s'"
proof (induction es arbitrary: s)
  case (Cons e es)
  show ?case
    using Cons.prems Cons.IH[OF _ add_network_ok] by (auto simp: case_prod_unfold split: option.splits)
qed simp

lemma strict_ok: "strict_networks es s = Inr s' \<Longrightarrow> ranges_ok s \<Longrightarrow> ranges_ok s'"
proof (induction es arbitrary: s)
  case (Cons e es)
  show ?case
    using Cons.prems Cons.IH[OF _ add_network_ok] by (cases e) (auto simp: case_prod_unfold split: option.splits)
qed simp

lemma lenient_ok: "ranges_ok s \<Longrightarrow> ranges_ok (lenient_networks ps s)"
  by (induction ps arbitrary: s) (auto simp: case_prod_unfold split: option.splits intro: add_network_ok)

lemma fetched_ok: "fetchProviderRanges docs provider = Inr s \<Longrightarrow> ranges_ok s"
  using new_ranges_ok lenient_ok[OF new_ranges_ok] strict_ok[OF _ new_ranges_ok]
  by (auto simp: fetchProviderRanges_def fetchAWSIPRanges_def fetchGCPIPRanges_def azure_ranges_def
      fetchCSVPrefixNetworks_def fetchVultrIPRanges_def split: if_splits sum.splits)

text \<open>Two range sets hold the same networks with the same regions.\<close>

definition same_ranges :: "cloudRangeSet \<Rightarrow> cloudRangeSet \<Rightarrow> bool" where
  "same_ranges s t \<longleftrightarrow>
     map_of (crs_networks s) = map_of (crs_networks t)
     \<and> (\<forall>key \<in> dom (map_of (crs_networks s)). region_of s key = region_of t key)"

lemma cut_encoded: "CHR ''|'' \<notin> set k \<Longrightarrow> cut_byte (encodeCachedEntry k r) (CHR ''|'') = (k, r)"
  by (simp add: cut_byte_def encodeCachedEntry_def index_byte_append_notin index_byte_notin)

lemma decode_encoded:
  "list_all (\<lambda>(k, n). network_ok n \<and> k = prefix_String n) ns \<Longrightarrow>
     decode_entries (map (\<lambda>(k, n). encodeCachedEntry k (r k)) ns) s
       = Inr (fold (\<lambda>(k, n). add_network k n (r k)) ns s)"
proof (induction ns arbitrary: s)
  case (Cons kn ns)
  obtain k n where kn: "kn = (k, n)" by (cases kn)
  then have "network_ok n" "k = prefix_String n" using Cons.prems by simp_all
  then have "cut_byte (encodeCachedEntry k (r k)) (CHR ''|'') = (k, r k)" "parseCloudNetwork k = Some (n, k)"
    using cut_encoded network_text_seps(1) parseCloudNetwork_key by simp_all
  then show ?case using Cons kn by simp
qed simp

lemma region_add: "region_of (add_network k n r s) key = (if key = k \<and> r \<noteq> [] then r else region_of s key)"
  by (simp add: region_of_def add_network_def update_conv' split: option.split)

lemma networks_add: "map_of (crs_networks (add_network k n r s)) = (map_of (crs_networks s))(k \<mapsto> n)"
  by (simp add: add_network_def update_conv')

lemma region_added:
  "region_of (fold (\<lambda>(k, n). add_network k n (r k)) ns s) key
     = (if key \<in> fst ` set ns \<and> r key \<noteq> [] then r key else region_of s key)"
  by (induction ns arbitrary: s) (auto simp: region_add split: prod.splits)

lemma networks_added:
  "distinct (map fst ns) \<Longrightarrow>
     map_of (crs_networks (fold (\<lambda>(k, n). add_network k n (r k)) ns s)) = map_of (crs_networks s) ++ map_of ns"
proof (induction ns arbitrary: s)
  case (Cons kn ns)
  obtain k n where kn: "kn = (k, n)" by (cases kn)
  have "map_of ns k = None" using Cons.prems kn by (simp add: map_of_eq_None_iff)
  then show ?case using Cons kn by (auto simp: networks_add map_add_def fun_eq_iff split: option.split)
qed (simp add: map_add_def)

lemma sort_map: "sort (map f xs) = map f (sort_key f xs)"
  by (rule properties_for_sort) simp_all

lemma map_of_perm: "mset xs = mset ys \<Longrightarrow> distinct (map fst xs) \<Longrightarrow> map_of xs = map_of ys"
  by (metis distinct_map map_of_inject_set mset_eq_imp_distinct_iff mset_eq_setD mset_map)

lemma mset_map_split: "mset es = mset (map f xs) \<Longrightarrow> \<exists>ys. es = map f ys \<and> mset ys = mset xs"
proof (induction es arbitrary: xs)
  case (Cons e es)
  then obtain x where x: "x \<in> set xs" "f x = e" by (metis image_iff list.set_intros(1) mset_eq_setD set_map)
  have "mset xs = add_mset x (mset (remove1 x xs))" using x(1) by simp
  then have "image_mset f (mset xs) = add_mset (f x) (image_mset f (mset (remove1 x xs)))" by (metis image_mset_add_mset)
  then have "mset es = mset (map f (remove1 x xs))" using Cons.prems x(2) by simp
  then obtain ys where "es = map f ys" "mset ys = mset (remove1 x xs)" using Cons.IH by blast
  then show ?case using x by (intro exI[of _ "x # ys"]) simp
qed simp

text \<open>Whatever order a store gives the entries back in, they decode to the same ranges.\<close>

lemma decode_permuted:
  assumes "ranges_ok s" "mset es = mset (encodeCachedRanges s)"
  shows "\<exists>s'. decodeCachedEntries es = Inr s' \<and> same_ranges s s' \<and> ranges_ok s'"
proof -
  let ?e = "\<lambda>(k, n). encodeCachedEntry k (region_of s k)"
  have "mset es = mset (map ?e (crs_networks s))" using assms(2) by (simp add: encodeCachedRanges_def)
  then obtain ns where ns: "es = map ?e ns" "mset ns = mset (crs_networks s)" using mset_map_split by blast
  have set: "set ns = set (crs_networks s)" using ns(2) by (rule mset_eq_setD)
  have d: "distinct (map fst ns)" "map_of ns = map_of (crs_networks s)"
    using assms(1) ns(2) map_of_perm[of "crs_networks s" ns] mset_eq_imp_distinct_iff[of "map fst ns" "map fst (crs_networks s)"]
    unfolding ranges_ok_def by simp_all
  define s' where "s' = fold (\<lambda>(k, n). add_network k n (region_of s k)) ns newCloudRangeSet"
  have "decodeCachedEntries es = Inr s'"
    unfolding decodeCachedEntries_def ns(1) s'_def
    by (rule decode_encoded) (use assms(1) set in \<open>auto simp: ranges_ok_def list_all_iff\<close>)
  moreover have "same_ranges s s'"
    using d(2) set unfolding same_ranges_def s'_def networks_added[OF d(1)] region_added
    by (force simp: newCloudRangeSet_def region_of_def dest: map_of_SomeD)
  moreover have "ranges_ok s'"
    using decode_ok[OF _ new_ranges_ok] calculation(1) by (simp add: decodeCachedEntries_def)
  ultimately show ?thesis by blast
qed

section \<open>What a lookup answers\<close>

definition carved_regions :: "selector_sets \<Rightarrow> string \<Rightarrow> string list" where
  "carved_regions sel provider = (case map_of (snd sel) provider of None \<Rightarrow> [] | Some rs \<Rightarrow> rs)"

lemma add_selector_sets:
  "set (fst (add_selector sel acc)) = set (fst acc) \<union> (if fst (cut_marker sel) = [] then {} else {fst (cut_marker sel)})"
  "set (carved_regions (add_selector sel acc) p) = set (carved_regions acc p)
     \<union> {r. r \<noteq> [] \<and> p \<noteq> [] \<and> cut_marker sel = (p, Some r)}"
  by (cases acc; cases "cut_marker sel";
      auto simp: add_selector_def carved_regions_def update_conv' split: option.splits)+

lemma fold_selector_sets:
  "set (fst (fold add_selector ss acc)) = set (fst acc) \<union> ({p. p \<noteq> []} \<inter> (\<lambda>sel. fst (cut_marker sel)) ` set ss)"
  "set (carved_regions (fold add_selector ss acc) p) = set (carved_regions acc p)
     \<union> {r. r \<noteq> [] \<and> p \<noteq> [] \<and> (p, Some r) \<in> cut_marker ` set ss}"
  by (induction ss arbitrary: acc) (auto simp: add_selector_sets)

lemma blocked_providers:
  "set (fst (parseCloudSelectors ss)) = {p. p \<noteq> []} \<inter> (\<lambda>sel. fst (cut_marker sel)) ` set ss"
  by (simp add: parseCloudSelectors_def fold_selector_sets)

lemma carved_out_iff:
  "carved_out (parseCloudSelectors ss) p s key \<longleftrightarrow>
     p \<noteq> [] \<and> region_of s key \<noteq> [] \<and> (p, Some (region_of s key)) \<in> cut_marker ` set ss"
proof -
  have "carved_out sel p s key \<longleftrightarrow> region_of s key \<in> set (carved_regions sel p)" for sel
    by (auto simp: carved_out_def carved_regions_def split: option.split)
  then show ?thesis
    using fold_selector_sets(2)[of ss "([], [])" p] by (auto simp: parseCloudSelectors_def carved_regions_def)
qed

text \<open>C34: A cloud lookup answers yes exactly when the text is an address that lies, itself or unmapped, in a
  range of a provider some selector names, and no selector of that provider carves the region of the range out.\<close>

theorem IsCloudIP_iff:
  "fst (IsCloudIP now ip selectors m) \<longleftrightarrow>
     (\<exists>a provider s key network.
        ParseAddr (stripIPBrackets ip) = Some a
        \<and> provider \<noteq> [] \<and> (\<exists>sel \<in> set selectors. fst (cut_marker sel) = provider)
        \<and> map_of (cm_ranges m) provider = Some s \<and> (key, network) \<in> set (crs_networks s)
        \<and> (prefix_contains network a \<or> prefix_contains network (unmap a))
        \<and> \<not> (region_of s key \<noteq> [] \<and> (provider, Some (region_of s key)) \<in> cut_marker ` set selectors))"
proof (cases "ParseAddr (stripIPBrackets ip)")
  case (Some a)
  have matches: "provider_matches a sel m p \<longleftrightarrow>
      (\<exists>s key network. map_of (cm_ranges m) p = Some s \<and> (key, network) \<in> set (crs_networks s)
        \<and> in_network a network \<and> \<not> carved_out sel p s key)" for sel p
    by (auto simp: provider_matches_def list_ex_iff split: option.split)
  have kept: "p \<noteq> [] \<Longrightarrow> \<not> carved_out (parseCloudSelectors selectors) p s key \<longleftrightarrow>
      \<not> (region_of s key \<noteq> [] \<and> (p, Some (region_of s key)) \<in> cut_marker ` set selectors)" for p s key
    by (force simp: carved_out_iff)
  have "fst (IsCloudIP now ip selectors m) \<longleftrightarrow>
      (\<exists>p \<in> set (fst (parseCloudSelectors selectors)). provider_matches a (parseCloudSelectors selectors) m p)"
    by (simp add: IsCloudIP_def Some Let_def list_ex_iff)
  also have "\<dots> \<longleftrightarrow> (\<exists>p s key network. p \<noteq> [] \<and> (\<exists>sel \<in> set selectors. fst (cut_marker sel) = p)
      \<and> map_of (cm_ranges m) p = Some s \<and> (key, network) \<in> set (crs_networks s) \<and> in_network a network
      \<and> \<not> carved_out (parseCloudSelectors selectors) p s key)"
    unfolding blocked_providers matches by blast
  also have "\<dots> \<longleftrightarrow> (\<exists>p s key network. p \<noteq> [] \<and> (\<exists>sel \<in> set selectors. fst (cut_marker sel) = p)
      \<and> map_of (cm_ranges m) p = Some s \<and> (key, network) \<in> set (crs_networks s) \<and> in_network a network
      \<and> \<not> (region_of s key \<noteq> [] \<and> (p, Some (region_of s key)) \<in> cut_marker ` set selectors))"
    using kept by (simp cong: conj_cong)
  finally show ?thesis unfolding Some in_network_def by blast
qed (simp add: IsCloudIP_def)

section \<open>Refreshing\<close>

lemma use_state_simps [simp]:
  "cm_ranges (use_state x m) = cm_ranges m" "cm_store (use_state x m) = cm_store m"
  "cm_redis (use_state x m) = cm_redis m" "cm_state (use_state x m) = x" "effectiveStore (use_state x m) = effectiveStore m"
  by (simp_all add: use_state_def effectiveStore_def split: option.split)

lemma install_simps [simp]:
  "cm_ranges (installRanges p s st m) = AList.update p s (cm_ranges m)"
  "effectiveStore (installRanges p s st m) = effectiveStore m" "cm_state (installRanges p s st m) = cm_state m"
  "cm_store (installRanges p s st m) = cm_store m"
  "effectiveStore (ensureProviderEntry p m) = effectiveStore m" "cm_store (ensureProviderEntry p m) = cm_store m"
  "cm_state (ensureProviderEntry p m) = cm_state m"
  by (simp_all add: installRanges_def effectiveStore_def ensureProviderEntry_def split: option.split)

lemma ensure_ranges:
  "map_of (cm_ranges (ensureProviderEntry p m)) q =
     (if q = p \<and> map_of (cm_ranges m) p = None then Some newCloudRangeSet else map_of (cm_ranges m) q)"
  by (auto simp: ensureProviderEntry_def update_conv')

definition manager_ok :: "'s CloudManager \<Rightarrow> bool" where
  "manager_ok m \<longleftrightarrow> (\<forall>p s. map_of (cm_ranges m) p = Some s \<longrightarrow> ranges_ok s)"

lemma ensure_ok: "manager_ok m \<Longrightarrow> manager_ok (ensureProviderEntry p m)"
  by (auto simp: manager_ok_def ensure_ranges new_ranges_ok)

lemma install_ok: "manager_ok m \<Longrightarrow> ranges_ok s \<Longrightarrow> manager_ok (installRanges p s st m)"
  by (auto simp: manager_ok_def update_conv')

lemma use_state_ok [simp]: "manager_ok (use_state x m) = manager_ok m"
  by (simp add: manager_ok_def)

lemma refresh_provider_ok:
  assumes "manager_ok m" "\<And>p s. fetch p = Inr s \<Longrightarrow> ranges_ok s"
  shows "manager_ok (refresh_provider fetch now ttl p m)"
proof -
  have d: "manager_ok n \<Longrightarrow> manager_ok (download_provider fetch now ttl p n)" for n :: "'a CloudManager"
    using assms(2) by (auto simp: download_provider_def intro!: ensure_ok install_ok split: sum.split option.split)
  have e: "decodeCachedEntries es = Inr s \<Longrightarrow> ranges_ok s" for es s
    using decode_ok[OF _ new_ranges_ok] by (simp add: decodeCachedEntries_def)
  show ?thesis
    using assms(1) by (auto simp: refresh_provider_def intro!: d ensure_ok install_ok e split: option.split prod.split sum.split)
qed

text \<open>Whatever the stores answer and the providers publish, the ranges a refresh installs are canonical:
  every network is masked and filed under its own text, so a lookup never meets a malformed range.\<close>

theorem refresh_keeps_ranges_canonical:
  assumes "manager_ok m"
  shows "manager_ok (RefreshAsync (fetchProviderRanges docs) now providers ttl m)"
proof -
  have "manager_ok m \<Longrightarrow> manager_ok (fold (refresh_provider (fetchProviderRanges docs) now ttl) ps m)" for ps
    by (induction ps arbitrary: m) (auto intro: refresh_provider_ok fetched_ok)
  then show ?thesis using assms by (simp add: RefreshAsync_def)
qed

definition unusable :: "cloud_error + string list option \<Rightarrow> bool" where
  "unusable r = (case r of Inl e \<Rightarrow> True | Inr None \<Rightarrow> True | Inr (Some es) \<Rightarrow> (case decodeCachedEntries es of Inl e \<Rightarrow> True | Inr s \<Rightarrow> False))"

lemma refresh_outage_step:
  assumes "\<And>p s. fetch p \<noteq> Inr s" "\<And>st p s. effectiveStore m = Some st \<Longrightarrow> unusable (fst (cst_Get st now p s))"
  shows "map_of (cm_ranges (refresh_provider fetch now ttl p m)) q =
      (if q = p \<and> map_of (cm_ranges m) p = None then Some newCloudRangeSet else map_of (cm_ranges m) q)
    \<and> effectiveStore (refresh_provider fetch now ttl p m) = effectiveStore m"
proof -
  have d: "download_provider fetch now ttl p n = ensureProviderEntry p n" for n :: "'a CloudManager"
    using assms(1)[of p] by (simp add: download_provider_def split: sum.split)
  show ?thesis
  proof (cases "effectiveStore m")
    case None
    then show ?thesis by (simp add: refresh_provider_def d ensure_ranges)
  next
    case (Some st)
    obtain r s1 where r: "cst_Get st now p (cm_state m) = (r, s1)" by (meson surj_pair)
    then have "unusable r" using assms(2)[OF Some, of p "cm_state m"] by simp
    then have "refresh_provider fetch now ttl p m = ensureProviderEntry p (use_state s1 m)"
      by (auto simp: refresh_provider_def Some r d unusable_def split: sum.splits option.splits)
    then show ?thesis using Some by (simp add: ensure_ranges)
  qed
qed

text \<open>An outage takes nothing away: when every download fails and the store, if there is one, has no usable
  entry, every provider keeps the ranges it had and the asked providers without ranges are entered empty.\<close>

theorem refresh_outage_keeps_ranges:
  assumes "\<And>p s. fetch p \<noteq> Inr s" "\<And>st p s. effectiveStore m = Some st \<Longrightarrow> unusable (fst (cst_Get st now p s))"
  shows "map_of (cm_ranges (RefreshAsync fetch now providers ttl m)) q =
    (if q \<in> set (bareProviderNames providers) \<and> map_of (cm_ranges m) q = None then Some newCloudRangeSet
     else map_of (cm_ranges m) q)"
proof -
  have "(\<And>st p s. effectiveStore n = Some st \<Longrightarrow> unusable (fst (cst_Get st now p s))) \<Longrightarrow>
      map_of (cm_ranges (fold (refresh_provider fetch now ttl) ps n)) q =
      (if q \<in> set ps \<and> map_of (cm_ranges n) q = None then Some newCloudRangeSet else map_of (cm_ranges n) q)"
    for ps and n :: "'a CloudManager"
  proof (induction ps arbitrary: n)
    case (Cons p ps)
    note step = refresh_outage_step[where fetch = fetch and m = n and now = now and ttl = ttl and p = p, OF assms(1)]
    have "map_of (cm_ranges (fold (refresh_provider fetch now ttl) ps (refresh_provider fetch now ttl p n))) q =
      (if q \<in> set ps \<and> map_of (cm_ranges (refresh_provider fetch now ttl p n)) q = None then Some newCloudRangeSet
       else map_of (cm_ranges (refresh_provider fetch now ttl p n)) q)"
      by (rule Cons.IH) (use step Cons.prems in auto)
    then show ?case using step Cons.prems by auto
  qed simp
  then show ?thesis using assms(2) by (simp add: RefreshAsync_def)
qed

section \<open>The store contract\<close>

text \<open>What the manager relies on: entries that were stored are given back, in some order, until they expire.\<close>

locale cloud_store =
  fixes st :: "'s CloudIPStore"
  assumes set_accepts: "fst (cst_Set st now p es ttl s) = None"
    and get_after_set: "now \<le> t \<Longrightarrow> t < now + of_int ttl \<Longrightarrow>
      \<exists>es' s'. cst_Get st t p (snd (cst_Set st now p es ttl s)) = (Inr (Some es'), s') \<and> mset es' = mset es"
begin

lemma cached_refresh:
  assumes "cm_store m = Some st" "fetch p = Inr s" "crs_networks s \<noteq> []" "ranges_ok s"
    and "now \<le> t" "t < now + of_int ttl"
  shows "\<exists>s'. map_of (cm_ranges (refresh_provider fetch' t ttl' p (download_provider fetch now ttl p m))) p = Some s'
    \<and> same_ranges s s'"
proof -
  let ?m = "download_provider fetch now ttl p m"
  have st: "effectiveStore m = Some st" using assms(1) by (simp add: effectiveStore_def)
  have state: "cm_state ?m = snd (cst_Set st now p (encodeCachedRanges s) ttl (cm_state m))" "effectiveStore ?m = Some st"
    using assms(2,3) st by (simp_all add: download_provider_def)
  obtain es' x where es': "cst_Get st t p (cm_state ?m) = (Inr (Some es'), x)" "mset es' = mset (encodeCachedRanges s)"
    unfolding state(1) using get_after_set[OF assms(5,6)] by blast
  obtain s' where "decodeCachedEntries es' = Inr s'" "same_ranges s s'"
    using decode_permuted[OF assms(4) es'(2)] by blast
  then show ?thesis using es'(1) state(2) by (simp add: refresh_provider_def update_conv')
qed

end

interpretation memory: cloud_store memory_store
  by unfold_locales (auto simp: memory_store_def memory_Set_def memory_Get_def update_conv' split: if_splits)

text \<open>With the in-memory store, ranges that were downloaded are served from the cache until their time is up:
  a refresh before that installs the same networks and regions without looking at the provider.\<close>

theorem memory_cache_serves_ranges:
  assumes "cm_store m = Some memory_store" "fetch p = Inr s" "crs_networks s \<noteq> []" "ranges_ok s"
    and "now \<le> t" "t < now + of_int ttl"
  shows "\<exists>s'. map_of (cm_ranges (refresh_provider fetch' t ttl' p (download_provider fetch now ttl p m))) p = Some s'
    \<and> same_ranges s s'"
  by (rule memory.cached_refresh[where fetch = fetch and p = p and s = s and now = now and ttl = ttl]) (use assms in simp_all)

section \<open>From a published range to a verdict\<close>

lemma Masked_contains: "prefix_contains (Masked p) a = prefix_contains p a"
  by (cases "fst p"; cases a) (simp_all add: prefix_contains_def Masked_def mask_addr_mask,
      simp_all add: mask_addr_def bitlen_def mask_fields_mask)

lemma add_network_keeps:
  assumes "map_of (crs_networks s) key = Some network" "ranges_ok s" "parseCloudNetwork t = Some (n, k)"
  shows "map_of (crs_networks (add_network k n r s)) key = Some network"
proof -
  have a: "network_ok network" "key = prefix_String network"
    using assms(2) map_of_SomeD[OF assms(1)] by (auto simp: ranges_ok_def list_all_iff)
  have "n = network" if "k = key"
    using that a parseCloudNetwork_ok[OF assms(3)] parseCloudNetwork_key[of network] parseCloudNetwork_key[of n]
    by simp
  then show ?thesis using assms(1) by (simp add: networks_add)
qed

lemma strict_networks_keep:
  "strict_networks es s = Inr s' \<Longrightarrow> ranges_ok s \<Longrightarrow> map_of (crs_networks s) key = Some network
     \<Longrightarrow> map_of (crs_networks s') key = Some network"
proof (induction es arbitrary: s)
  case (Cons e es)
  obtain t r where e: "e = (t, r)" by (cases e)
  then obtain n k where p: "parseCloudNetwork t = Some (n, k)" "strict_networks es (add_network k n r s) = Inr s'"
    using Cons.prems(1) by (auto split: option.splits)
  show ?case
    using Cons.IH[OF p(2)] add_network_keeps[OF Cons.prems(3,2) p(1)] add_network_ok[of t "fst n" "snd n" k s r] p(1) Cons.prems(2)
    by simp
qed simp

lemma strict_networks_all:
  assumes "strict_networks es s = Inr s'" "ranges_ok s" "(t, r) \<in> set es"
  shows "\<exists>n k. parseCloudNetwork t = Some (n, k) \<and> map_of (crs_networks s') k = Some n"
  using assms
proof (induction es arbitrary: s)
  case (Cons e es)
  obtain u q where e: "e = (u, q)" by (cases e)
  then obtain n k where p: "parseCloudNetwork u = Some (n, k)" "strict_networks es (add_network k n q s) = Inr s'"
    using Cons.prems(1) by (auto split: option.splits)
  have ok: "ranges_ok (add_network k n q s)" using add_network_ok[of u "fst n" "snd n" k s q] p(1) Cons.prems(2) by simp
  show ?case
  proof (cases "(t, r) = e")
    case True
    then show ?thesis using strict_networks_keep[OF p(2) ok, of k n] p(1) e by (simp add: networks_add)
  next
    case False
    then show ?thesis using Cons.IH[OF p(2) ok] Cons.prems(3) by simp
  qed
qed simp

lemma AWS_names: "bareProviderNames [''AWS''] = [''AWS'']" "cut_marker ''AWS'' = (''AWS'', None)"
  by (simp_all add: bareProviderNames_def has_prefix_def)


section \<open>The Azure link\<close>

lemma fold_choice: "fold (\<lambda>x w. if f w x then x else w) cs c \<in> set (c # cs)"
  by (induction cs arbitrary: c) auto

lemma compare_keys_total: "compareServiceTagsKeys date a b \<or> compareServiceTagsKeys date b a \<or> a = b"
  by (cases "date a"; cases "date b") (auto simp: compareServiceTagsKeys_def)

lemma compare_keys_trans:
  "compareServiceTagsKeys date a b \<Longrightarrow> compareServiceTagsKeys date b c \<Longrightarrow> compareServiceTagsKeys date a c"
  by (cases "date a"; cases "date b"; cases "date c") (auto simp: compareServiceTagsKeys_def split: if_splits)

lemma compare_keys_irrefl: "\<not> compareServiceTagsKeys date a a"
  by (simp add: compareServiceTagsKeys_def)

lemma compare_keys_unbeaten:
  "\<not> compareServiceTagsKeys date a b \<Longrightarrow> \<not> compareServiceTagsKeys date b c \<Longrightarrow> \<not> compareServiceTagsKeys date a c"
  using compare_keys_total[of date a b] compare_keys_trans[of date b a c] by blast

lemma newest_unbeaten:
  "x \<in> set (c # cs) \<Longrightarrow>
     \<not> compareServiceTagsKeys date (fold (\<lambda>x w. if compareServiceTagsKeys date w x then x else w) cs c) x"
proof (induction cs arbitrary: c x)
  case (Cons d cs)
  let ?w = "if compareServiceTagsKeys date c d then d else c"
  let ?f = "fold (\<lambda>x w. if compareServiceTagsKeys date w x then x else w) cs ?w"
  have w: "\<not> compareServiceTagsKeys date ?f ?w" by (rule Cons.IH) (rule list.set_intros(1))
  have "\<not> compareServiceTagsKeys date ?f y" if "y \<in> {c, d}" for y
  proof -
    have "\<not> compareServiceTagsKeys date ?w y"
      using that compare_keys_trans[of date c d c] compare_keys_irrefl[of date] by (cases "compareServiceTagsKeys date c d") auto
    with w show ?thesis by (rule compare_keys_unbeaten)
  qed
  moreover have "\<not> compareServiceTagsKeys date ?f x" if "x \<in> set cs"
    by (rule Cons.IH) (rule list.set_intros(2)[OF that])
  ultimately have "x \<in> {c, d} \<or> x \<in> set cs \<Longrightarrow> \<not> compareServiceTagsKeys date ?f x" by blast
  then show ?case using Cons.prems by (simp split del: if_split)
qed (simp add: compare_keys_irrefl)

theorem newest_candidate_best:
  assumes "candidates \<noteq> []"
  shows "newest_candidate date candidates \<in> set candidates
    \<and> (\<forall>c \<in> set candidates. \<not> compareServiceTagsKeys date (newest_candidate date candidates) c)"
  using assms newest_unbeaten[where date = date] fold_choice[where f = "compareServiceTagsKeys date"]
  by (cases candidates) (simp_all add: newest_candidate_def)

text \<open>The document comes from one of at most three attempts, none longer than ten seconds.\<close>

lemma azure_attempts_bounded:
  "azure_attempts clock get deadline attempt = Inr body \<Longrightarrow> 1 \<le> attempt \<Longrightarrow> attempt \<le> azureDownloadMaxAttempts \<Longrightarrow>
     \<exists>k t. k \<le> azureDownloadMaxAttempts \<and> t \<le> azureDownloadAttemptTimeout \<and> get k t = Inr body"
proof (induction clock get deadline attempt rule: azure_attempts.induct)
  case (1 clock get deadline attempt)
  let ?r = "deadline - fst (clock attempt)"
  let ?t = "if ?r < azureDownloadAttemptTimeout then ?r else azureDownloadAttemptTimeout"
  show ?case
  proof (cases "get attempt ?t")
    case (Inr b)
    have "?t \<le> azureDownloadAttemptTimeout" by simp
    moreover have "b = body" using 1(2) Inr by (subst (asm) azure_attempts.simps) (simp add: Let_def split: if_splits)
    ultimately show ?thesis using Inr 1(4) by blast
  next
    case (Inl e)
    obtain err status where e: "e = (err, status)" by (cases e)
    have "azure_attempts clock get deadline (attempt + 1) = Inr body \<and> \<not> ?r \<le> 0 \<and> \<not> (300 \<le> status \<and> status < 400)
        \<and> \<not> (azureDownloadMaxAttempts \<le> attempt \<or> deadline - snd (clock attempt) \<le> 0)"
      using 1(2) Inl e by (subst (asm) azure_attempts.simps) (simp add: Let_def split: if_splits)
    then show ?thesis using 1(1)[OF refl _ Inl e[symmetric]] 1(3) by simp
  qed
qed

section \<open>Witnesses\<close>

definition wt_network :: prefix_t where
  "wt_network = (V4 [10, 0, 0, 0], 8)"

definition wt_ranges :: cloudRangeSet where
  "wt_ranges = \<lparr>crs_networks = [(prefix_String wt_network, wt_network)], crs_regions = []\<rparr>"

lemma wt_network_ok: "network_ok wt_network"
  by (simp add: wt_network_def network_ok_def prefix_ok_def addr_zone_def bitlen_def Masked_def mask_addr_def)

lemma wt_ranges_ok: "ranges_ok wt_ranges"
  by (simp add: wt_ranges_def ranges_ok_def wt_network_ok)

definition wt_docs :: cloud_documents where
  "wt_docs =
     \<lparr>cd_AWS = Inr [\<lparr>aws_IPPrefix = prefix_String wt_network, aws_Service = ''AMAZON'', aws_Region = ''eu''\<rparr>],
      cd_GCP = Inl ''down'', cd_Azure = Inl ''down'', cd_DigitalOcean = Inl ''down'', cd_Linode = Inr ''not a range'',
      cd_Vultr = Inl ''down''\<rparr>"

theorem refresh_keeps_ranges_canonical_witness:
  "manager_ok (RefreshAsync (fetchProviderRanges wt_docs) 0 [''AWS'', ''Linode''] 60 (NewCloudManager ()))"
  by (rule refresh_keeps_ranges_canonical) (simp add: manager_ok_def NewCloudManager_def)

theorem refresh_outage_keeps_ranges_witness:
  "map_of (cm_ranges (RefreshAsync (\<lambda>p. Inl (Download ''down'')) 0 [''AWS'', ''GCP'']
      60 ((NewCloudManager ())\<lparr>cm_ranges := [(''AWS'', wt_ranges)]\<rparr>))) ''AWS'' = Some wt_ranges"
  by (subst refresh_outage_keeps_ranges) (simp_all add: effectiveStore_def NewCloudManager_def)

theorem memory_cache_serves_ranges_witness:
  "\<exists>s'. map_of (cm_ranges (refresh_provider (\<lambda>p. Inl (Download ''down'')) 30 60 ''AWS''
      (download_provider (\<lambda>p. Inr wt_ranges) 0 60 ''AWS''
        ((NewCloudManager NewInMemoryCloudIPStore)\<lparr>cm_store := Some memory_store\<rparr>)))) ''AWS'' = Some s'
    \<and> same_ranges wt_ranges s'"
  by (rule memory_cache_serves_ranges[where fetch = "\<lambda>p. Inr wt_ranges"])
    (simp_all add: wt_ranges_ok, simp add: wt_ranges_def)


end
