(* ===== verification/SusPatterns.thy ===== *)
theory SusPatterns
  imports IPBan
begin

text \<open>
  The runtime registry of detection patterns: \<open>guardcore/suspatterns_registry.go\<close>. A compiled entry is its
  source; the safety chain of a pattern, the \<open>regexp2\<close> compiler and matcher, the redaction of a source and the
  shipped corpus scan are parameters. The Go set of the custom patterns is a list without repetitions beside
  the insertion order. The transport of the agent may panic, which is the outcome \<open>None\<close>; the lock is released
  by then. Log lines and the performance monitor are left out.
\<close>

section \<open>Environment and state\<close>

record sus_event =
  sv_type :: string
  sv_ip :: string
  sv_action :: string
  sv_reason :: string
  sv_pattern :: string
  sv_kind :: string
  sv_total :: nat

record sus_env =
  se_safe :: "string \<Rightarrow> bool"
  se_compiles :: "string \<Rightarrow> bool"
  se_redact :: "string \<Rightarrow> string"
  se_find :: "string \<Rightarrow> string \<Rightarrow> (string \<times> nat) option"
  se_panics :: "sus_event \<Rightarrow> bool"

record 'r SusPatternsManager =
  sm_patterns :: "string list"
  sm_compiled :: "string list"
  sm_custom :: "string list"
  sm_customOrder :: "string list"
  sm_compiledCustom :: "string list"
  sm_redis :: "'r RedisHandler option"
  sm_rstate :: 'r
  sm_agent :: bool
  sm_events :: "sus_event list"

definition NewSusPatternsManager :: "'r \<Rightarrow> 'r SusPatternsManager" where
  "NewSusPatternsManager r =
     \<lparr>sm_patterns = [], sm_compiled = [], sm_custom = [], sm_customOrder = [], sm_compiledCustom = [], sm_redis = None,
      sm_rstate = r, sm_agent = False, sm_events = []\<rparr>"

definition patternKind :: "bool \<Rightarrow> string" where
  "patternKind custom = (if custom then ''custom'' else ''default'')"

definition patternKindCapitalized :: "bool \<Rightarrow> string" where
  "patternKindCapitalized custom = (if custom then ''Custom'' else ''Default'')"

text \<open>\<open>sendPatternEvent\<close>: \<open>None\<close> when the transport panics.\<close>

definition sendPatternEvent ::
  "sus_env \<Rightarrow> sus_event \<Rightarrow> 'r SusPatternsManager \<Rightarrow> unit option \<times> 'r SusPatternsManager" where
  "sendPatternEvent env e m =
     (if \<not> sm_agent m then (Some (), m)
      else if se_panics env e then (None, m)
      else (Some (), m\<lparr>sm_events := sm_events m @ [e]\<rparr>))"

definition pattern_event :: "sus_env \<Rightarrow> bool \<Rightarrow> bool \<Rightarrow> string \<Rightarrow> nat \<Rightarrow> sus_event" where
  "pattern_event env added custom pattern count =
     \<lparr>sv_type = (if added then ''pattern_added'' else ''pattern_removed''), sv_ip = ''system'',
      sv_action = (if added then ''pattern_added'' else ''pattern_removed''),
      sv_reason = patternKindCapitalized custom
        @ (if added then '' pattern added to detection system'' else '' pattern removed from detection system''),
      sv_pattern = se_redact env pattern, sv_kind = patternKind custom, sv_total = count\<rparr>"

text \<open>The custom set goes to Redis as one comma-joined text; a failure is logged.\<close>

definition persist_custom :: "'r SusPatternsManager \<Rightarrow> 'r SusPatternsManager" where
  "persist_custom m =
     (case sm_redis m of
        None \<Rightarrow> m
      | Some h \<Rightarrow>
          m\<lparr>sm_rstate := snd (rh_SetKey h ''patterns'' ''custom'' (join_with '','' (sm_customOrder m)) 0 (sm_rstate m))\<rparr>)"

definition register_pattern :: "string \<Rightarrow> bool \<Rightarrow> 'r SusPatternsManager \<Rightarrow> 'r SusPatternsManager" where
  "register_pattern pattern custom m =
     (if custom then
        persist_custom
          (if pattern \<in> set (sm_custom m) then m
           else m\<lparr>sm_custom := pattern # sm_custom m, sm_customOrder := sm_customOrder m @ [pattern],
                  sm_compiledCustom := sm_compiledCustom m @ [pattern]\<rparr>)
      else m\<lparr>sm_patterns := sm_patterns m @ [pattern], sm_compiled := sm_compiled m @ [pattern]\<rparr>)"

definition pattern_total :: "bool \<Rightarrow> 'r SusPatternsManager \<Rightarrow> nat" where
  "pattern_total custom m = (if custom then length (sm_customOrder m) else length (sm_patterns m))"

definition AddPattern ::
  "sus_env \<Rightarrow> string \<Rightarrow> bool \<Rightarrow> 'r SusPatternsManager \<Rightarrow> bool option \<times> 'r SusPatternsManager" where
  "AddPattern env pattern custom m =
     (if \<not> se_safe env pattern \<or> \<not> se_compiles env pattern then (Some False, m)
      else
        (let m1 = register_pattern pattern custom m in
         case sendPatternEvent env (pattern_event env True custom pattern (pattern_total custom m1)) m1 of
           (r, m2) \<Rightarrow> (map_option (\<lambda>_. True) r, m2)))"

text \<open>Removal: the first occurrence in the order, every compiled entry of the source.\<close>

definition unregister_pattern :: "string \<Rightarrow> bool \<Rightarrow> 'r SusPatternsManager \<Rightarrow> bool \<times> 'r SusPatternsManager" where
  "unregister_pattern pattern custom m =
     (if custom then
        (if pattern \<in> set (sm_custom m)
         then (True, persist_custom
                 (m\<lparr>sm_custom := removeAll pattern (sm_custom m), sm_customOrder := remove1 pattern (sm_customOrder m),
                    sm_compiledCustom := removeAll pattern (sm_compiledCustom m)\<rparr>))
         else (False, m))
      else
        (case index_byte (sm_patterns m) pattern of
           None \<Rightarrow> (False, m)
         | Some i \<Rightarrow>
             (let m1 = m\<lparr>sm_patterns := take i (sm_patterns m) @ drop (i + 1) (sm_patterns m)\<rparr> in
              if i < length (sm_compiled m)
              then (True, m1\<lparr>sm_compiled := take i (sm_compiled m) @ drop (i + 1) (sm_compiled m)\<rparr>)
              else (False, m1))))"

definition RemovePattern ::
  "sus_env \<Rightarrow> string \<Rightarrow> bool \<Rightarrow> 'r SusPatternsManager \<Rightarrow> bool option \<times> 'r SusPatternsManager" where
  "RemovePattern env pattern custom m =
     (case unregister_pattern pattern custom m of
        (False, m1) \<Rightarrow> (Some False, m1)
      | (True, m1) \<Rightarrow>
          (case sendPatternEvent env (pattern_event env False custom pattern (pattern_total custom m1)) m1 of
             (r, m2) \<Rightarrow> (map_option (\<lambda>_. True) r, m2)))"

text \<open>The loop of \<open>InitializeRedis\<close> over the persisted text; \<open>None\<close> is a panic of the transport.\<close>

fun restore_patterns ::
  "sus_env \<Rightarrow> string list \<Rightarrow> 'r SusPatternsManager \<Rightarrow> unit option \<times> 'r SusPatternsManager" where
  "restore_patterns env [] m = (Some (), m)"
| "restore_patterns env (p # ps) m =
     (if p = [] \<or> p \<in> set (sm_custom m) then restore_patterns env ps m
      else
        (case AddPattern env p True m of
           (None, m1) \<Rightarrow> (None, m1)
         | (Some _, m1) \<Rightarrow> restore_patterns env ps m1))"

definition sus_InitializeRedis ::
  "sus_env \<Rightarrow> 'r RedisHandler option \<Rightarrow> 'r SusPatternsManager \<Rightarrow> unit option \<times> 'r SusPatternsManager" where
  "sus_InitializeRedis env handler m0 =
     (let m = m0\<lparr>sm_redis := handler\<rparr> in
      case handler of
        None \<Rightarrow> (Some (), m)
      | Some h \<Rightarrow>
          (case rh_GetKey h ''patterns'' ''custom'' (sm_rstate m) of
             (Inl e, r) \<Rightarrow> (Some (), m\<lparr>sm_rstate := r\<rparr>)
           | (Inr cached, r) \<Rightarrow>
               (if cached = [] then (Some (), m\<lparr>sm_rstate := r\<rparr>)
                else restore_patterns env (split_on (CHR '','') cached) (m\<lparr>sm_rstate := r\<rparr>))))"

definition SetAgentHandler :: "bool \<Rightarrow> 'r SusPatternsManager \<Rightarrow> 'r SusPatternsManager" where
  "SetAgentHandler handler m = m\<lparr>sm_agent := handler\<rparr>"

definition GetDefaultPatterns :: "'r SusPatternsManager \<Rightarrow> string list" where
  "GetDefaultPatterns m = sm_patterns m"

definition GetCustomPatterns :: "'r SusPatternsManager \<Rightarrow> string list" where
  "GetCustomPatterns m = sm_customOrder m"

definition GetAllPatterns :: "'r SusPatternsManager \<Rightarrow> string list" where
  "GetAllPatterns m = sm_patterns m @ sm_customOrder m"

definition ClearCustomPatterns :: "'r SusPatternsManager \<Rightarrow> 'r SusPatternsManager" where
  "ClearCustomPatterns m = m\<lparr>sm_custom := [], sm_customOrder := [], sm_compiledCustom := []\<rparr>"

definition SeedCustomPattern :: "sus_env \<Rightarrow> string \<Rightarrow> 'r SusPatternsManager \<Rightarrow> 'r SusPatternsManager" where
  "SeedCustomPattern env pattern m =
     (if \<not> se_compiles env pattern then m
      else m\<lparr>sm_custom := List.insert pattern (sm_custom m), sm_customOrder := sm_customOrder m @ [pattern],
             sm_compiledCustom := sm_compiledCustom m @ [pattern]\<rparr>)"

definition sus_Reset :: "'r SusPatternsManager \<Rightarrow> 'r SusPatternsManager" where
  "sus_Reset m = (ClearCustomPatterns m)\<lparr>sm_redis := None, sm_agent := False\<rparr>"

section \<open>Detection\<close>

datatype threat = RegexThreat (th_pattern: string) (th_match: string) (th_position: nat) (th_category: string)
  | SemanticThreat (th_attack: string)

record DetectResult =
  dr_IsThreat :: bool
  dr_ThreatScore :: real
  dr_Threats :: "threat list"

definition scanCustomPatterns :: "sus_env \<Rightarrow> string \<Rightarrow> 'r SusPatternsManager \<Rightarrow> threat list" where
  "scanCustomPatterns env content m =
     List.map_filter (\<lambda>source.
       map_option (\<lambda>(found, position). RegexThreat source found position ''custom'') (se_find env source content))
       (sm_compiled m @ sm_compiledCustom m)"

text \<open>The verdict of \<open>Detect\<close>: the corpus result extended by the threats of the registry.\<close>

definition merge_threats :: "DetectResult \<Rightarrow> threat list \<Rightarrow> DetectResult" where
  "merge_threats result custom =
     (if custom = [] then result
      else result\<lparr>dr_Threats := dr_Threats result @ custom, dr_IsThreat := True,
                  dr_ThreatScore := dr_ThreatScore result + real (length custom)\<rparr>)"

definition sus_Detect ::
  "sus_env \<Rightarrow> (string \<Rightarrow> DetectResult) \<Rightarrow> string \<Rightarrow> 'r SusPatternsManager \<Rightarrow> DetectResult" where
  "sus_Detect env corpus content m = merge_threats (corpus content) (scanCustomPatterns env content m)"

definition DetectPatternMatch ::
  "sus_env \<Rightarrow> (string \<Rightarrow> DetectResult) \<Rightarrow> string \<Rightarrow> 'r SusPatternsManager \<Rightarrow> bool \<times> string" where
  "DetectPatternMatch env corpus content m =
     (let result = sus_Detect env corpus content m in
      if \<not> dr_IsThreat result then (False, [])
      else
        (case dr_Threats result of
           [] \<Rightarrow> (True, ''unknown'')
         | RegexThreat p _ _ _ # _ \<Rightarrow> (True, se_redact env p)
         | SemanticThreat a # _ \<Rightarrow> (True, ''semantic:'' @ a)))"

definition threat_category :: "threat \<Rightarrow> string" where
  "threat_category t = (case t of RegexThreat _ _ _ c \<Rightarrow> c | SemanticThreat a \<Rightarrow> a)"

text \<open>First-seen order: each category at its first occurrence.\<close>

definition collectThreatCategories :: "threat list \<Rightarrow> string list" where
  "collectThreatCategories threats =
     foldl (\<lambda>cs t. if threat_category t = [] \<or> threat_category t \<in> set cs then cs else cs @ [threat_category t])
       [] threats"

section \<open>The registry stays consistent\<close>

definition registry_ok :: "'r SusPatternsManager \<Rightarrow> bool" where
  "registry_ok m \<longleftrightarrow>
     sm_compiled m = sm_patterns m \<and> sm_compiledCustom m = sm_customOrder m
     \<and> set (sm_custom m) = set (sm_customOrder m) \<and> distinct (sm_customOrder m)"

lemma persist_simps [simp]:
  "sm_patterns (persist_custom m) = sm_patterns m" "sm_compiled (persist_custom m) = sm_compiled m"
  "sm_custom (persist_custom m) = sm_custom m" "sm_customOrder (persist_custom m) = sm_customOrder m"
  "sm_compiledCustom (persist_custom m) = sm_compiledCustom m" "registry_ok (persist_custom m) = registry_ok m"
  "sm_redis (persist_custom m) = sm_redis m" "sm_agent (persist_custom m) = sm_agent m"
  by (simp_all add: persist_custom_def registry_ok_def split: option.split)

lemma send_simps:
  assumes "sendPatternEvent env e m = (r, m1)"
  shows "sm_patterns m1 = sm_patterns m" "sm_custom m1 = sm_custom m" "sm_customOrder m1 = sm_customOrder m"
    "registry_ok m1 = registry_ok m" "sm_redis m1 = sm_redis m" "sm_rstate m1 = sm_rstate m" "sm_agent m1 = sm_agent m"
    "sm_compiled m1 = sm_compiled m" "sm_compiledCustom m1 = sm_compiledCustom m" "\<not> sm_agent m \<Longrightarrow> r = Some ()"
  using assms by (auto simp: sendPatternEvent_def registry_ok_def split: if_splits)

lemma register_ok: "registry_ok m \<Longrightarrow> registry_ok (register_pattern p c m)"
  by (auto simp: register_pattern_def registry_ok_def)

lemma unregister_ok:
  assumes "registry_ok m"
  shows "registry_ok (snd (unregister_pattern p c m))"
proof (cases c)
  case True
  have "removeAll p (sm_customOrder m) = remove1 p (sm_customOrder m)"
    using assms by (simp add: registry_ok_def distinct_remove1_removeAll)
  then show ?thesis using assms True by (auto simp: unregister_pattern_def registry_ok_def)
next
  case False
  then show ?thesis using assms by (auto simp: unregister_pattern_def registry_ok_def Let_def split: option.split)
qed

datatype sus_op = Add string bool | Remove string bool | Clear | SReset | Attach bool

fun sus_step :: "sus_env \<Rightarrow> sus_op \<Rightarrow> 'r SusPatternsManager \<Rightarrow> 'r SusPatternsManager" where
  "sus_step env (Add p c) m = snd (AddPattern env p c m)"
| "sus_step env (Remove p c) m = snd (RemovePattern env p c m)"
| "sus_step env Clear m = ClearCustomPatterns m"
| "sus_step env SReset m = sus_Reset m"
| "sus_step env (Attach b) m = SetAgentHandler b m"

lemma sus_step_ok: "registry_ok m \<Longrightarrow> registry_ok (sus_step env opn m)"
proof (cases opn)
  case (Add p c)
  assume "registry_ok m"
  then show ?thesis using Add register_ok[of m p c]
    by (auto simp: AddPattern_def Let_def dest: send_simps(4) split: prod.split)
next
  case (Remove p c)
  assume "registry_ok m"
  then show ?thesis using Remove unregister_ok[of m p c]
    by (auto simp: RemovePattern_def dest: send_simps(4) split: prod.split bool.split)
qed (auto simp: ClearCustomPatterns_def sus_Reset_def SetAgentHandler_def registry_ok_def)

text \<open>The registry scans exactly what it lists: over any sequence of additions, removals, clears and resets,
  panicking transports included, the compiled entries are the listed patterns in the same order.\<close>

lemma registry_scans_its_patterns:
  assumes "registry_ok m"
  shows "sm_compiled (fold (sus_step env) ops m) @ sm_compiledCustom (fold (sus_step env) ops m)
    = GetAllPatterns (fold (sus_step env) ops m)"
proof -
  have "registry_ok m \<Longrightarrow> registry_ok (fold (sus_step env) ops m)"
    by (induction ops arbitrary: m) (auto intro: sus_step_ok)
  then show ?thesis using assms by (simp add: registry_ok_def GetAllPatterns_def)
qed

section \<open>Persistence\<close>

lemma restore_all:
  assumes "\<not> sm_agent m" "list_all (\<lambda>p. p \<noteq> [] \<and> se_safe env p \<and> se_compiles env p) ps"
    "distinct ps" "set ps \<inter> set (sm_custom m) = {}"
  shows "sm_customOrder (snd (restore_patterns env ps m)) = sm_customOrder m @ ps"
  using assms
proof (induction ps arbitrary: m)
  case (Cons p ps)
  let ?m1 = "register_pattern p True m"
  have agent: "\<not> sm_agent ?m1" using Cons.prems(1) by (simp add: register_pattern_def)
  then have "AddPattern env p True m = (Some True, ?m1)"
    using Cons.prems by (simp add: AddPattern_def sendPatternEvent_def)
  moreover have "sm_customOrder ?m1 = sm_customOrder m @ [p]" "set (sm_custom ?m1) = insert p (set (sm_custom m))"
    using Cons.prems(4) by (simp_all add: register_pattern_def)
  ultimately show ?case using Cons.IH[OF agent] Cons.prems by auto
qed simp

text \<open>Round trip of the registry through Redis: when no custom pattern is empty or contains a comma, a new
  process that attaches to the Redis the patterns were persisted in restores them all, in order.\<close>

theorem custom_patterns_restored:
  assumes "registry_ok m" "sm_customOrder m \<noteq> []"
    "list_all (\<lambda>p. p \<noteq> [] \<and> CHR '','' \<notin> set p \<and> se_safe env p \<and> se_compiles env p) (sm_customOrder m)"
    and "fst (rh_GetKey h ''patterns'' ''custom'' r) = Inr (join_with '','' (sm_customOrder m))"
  shows "GetCustomPatterns (snd (sus_InitializeRedis env (Some h) (NewSusPatternsManager r))) = GetCustomPatterns m"
proof -
  obtain r1 where g: "rh_GetKey h ''patterns'' ''custom'' r = (Inr (join_with '','' (sm_customOrder m)), r1)"
    using assms(4) by (metis prod.collapse)
  have "split_on (CHR '','') (join_with '','' (sm_customOrder m)) = sm_customOrder m"
    by (rule split_join) (use assms(2,3) in \<open>auto simp: list_all_iff\<close>)
  moreover have "join_with '','' (sm_customOrder m) \<noteq> []"
    using assms(2,3) by (cases "sm_customOrder m"; cases "tl (sm_customOrder m)") auto
  ultimately show ?thesis
    using assms(1,3) g
    by (simp add: sus_InitializeRedis_def NewSusPatternsManager_def GetCustomPatterns_def)
      (subst restore_all; auto simp: registry_ok_def list_all_iff)
qed

definition wt_sus :: sus_env where
  "wt_sus = \<lparr>se_safe = (\<lambda>_. True), se_compiles = (\<lambda>_. True), se_redact = id, se_find = (\<lambda>_ _. None), se_panics = (\<lambda>_. False)\<rparr>"

definition wt_store :: "string RedisHandler" where
  "wt_store =
     \<lparr>rh_Prefix = [], rh_Enabled = True, rh_GetKey = (\<lambda>_ _ r. (Inr r, r)), rh_SetKey = (\<lambda>_ _ v _ _. (None, v)),
      rh_Delete = (\<lambda>_ _ r. (None, [])), rh_DeletePattern = (\<lambda>_ r. (None, [])), rh_admin = None\<rparr>"

theorem custom_patterns_restored_witness:
  "GetCustomPatterns (snd (sus_InitializeRedis wt_sus (Some wt_store) (NewSusPatternsManager ''a,b''))) = [''a'', ''b'']"
proof -
  let ?m = "register_pattern ''b'' True (register_pattern ''a'' True (NewSusPatternsManager ()))"
  have order: "sm_customOrder ?m = [''a'', ''b'']" "registry_ok ?m"
    by (auto simp: register_pattern_def NewSusPatternsManager_def persist_custom_def registry_ok_def)
  show ?thesis
    using custom_patterns_restored[OF order(2), of wt_sus wt_store "''a,b''"] order(1)
    by (simp add: wt_sus_def wt_store_def GetCustomPatterns_def)
qed

text \<open>A pattern with a comma does not survive: it comes back as its pieces.\<close>

lemma comma_pattern_restored_in_pieces:
  assumes "p \<noteq> []" "q \<noteq> []" "CHR '','' \<notin> set p" "CHR '','' \<notin> set q" "p \<noteq> q"
    "se_safe env p \<and> se_compiles env p" "se_safe env q \<and> se_compiles env q"
    and "fst (rh_GetKey h ''patterns'' ''custom'' r) = Inr (join_with '','' [p @ '','' @ q])"
  shows "GetCustomPatterns (snd (sus_InitializeRedis env (Some h) (NewSusPatternsManager r))) = [p, q]"
proof -
  obtain r1 where g: "rh_GetKey h ''patterns'' ''custom'' r = (Inr (p @ '','' @ q), r1)"
    using assms(8) by (metis prod.collapse join_with.simps(2))
  then show ?thesis
    using assms(1-7)
    by (simp add: sus_InitializeRedis_def NewSusPatternsManager_def GetCustomPatterns_def split_on_append_sep split_on_id
        del: restore_patterns.simps) (subst restore_all; simp)
qed

lemma detect_iff:
  "dr_IsThreat (sus_Detect env corpus content m) \<longleftrightarrow>
     dr_IsThreat (corpus content) \<or> (\<exists>p \<in> set (sm_compiled m @ sm_compiledCustom m). se_find env p content \<noteq> None)"
  by (auto simp: sus_Detect_def merge_threats_def scanCustomPatterns_def List.map_filter_def filter_empty_conv)

end
