(* ===== verification/DynamicRules.thy ===== *)
theory DynamicRules
  imports Cloud SusPatterns
begin

text \<open>
  The dynamic rules of the agent: \<open>guardcore/dynamicrules.go\<close> and the two list helpers of \<open>config.go\<close> it
  uses. The manager shares the configuration, the ban manager, the pattern registry and Redis with the rest of
  the engine, so the state holds all of them; a pointer field is an option and a nil slice is the empty list. One
  operation reads the clock once. \<open>strings.ToUpper\<close>, \<open>regexp.Compile\<close> and the JSON coding of the
  snapshot are parameters, a send of the bus succeeds, fails or panics as the environment says, and the cache
  file is an entry of a list of files that can be unreadable or unwritable. Log lines are left out; so is the
  goroutine of \<open>Start\<close> and \<open>Stop\<close>, which calls \<open>UpdateRules\<close> at intervals.
\<close>

section \<open>Rules\<close>

record DynamicRules =
  dy_RuleID :: string
  dy_Version :: int
  dy_Timestamp :: real
  dy_ExpiresAt :: "real option"
  dy_TTL :: int
  dy_IPBlacklist :: "string list"
  dy_IPWhitelist :: "string list"
  dy_IPBanDuration :: int
  dy_BlockedCountries :: "string list"
  dy_WhitelistCountries :: "string list"
  dy_GlobalRateLimit :: "int option"
  dy_GlobalRateWindow :: "int option"
  dy_EndpointRateLimits :: "(string \<times> int \<times> int) list"
  dy_BlockedCloudProviders :: "string list"
  dy_BlockedUserAgents :: "string list"
  dy_SuspiciousPatterns :: "string list"
  dy_EnablePenetrationDetection :: "bool option"
  dy_EnableIPBanning :: "bool option"
  dy_EnableRateLimiting :: "bool option"
  dy_AutoBanThreshold :: "int option"
  dy_AutoBanDuration :: "int option"
  dy_EnableRateLimitAutoBan :: "bool option"
  dy_EmergencyMode :: bool
  dy_EmergencyWhitelist :: "string list"

definition normalize :: "DynamicRules \<Rightarrow> DynamicRules" where
  "normalize r =
     r\<lparr>dy_TTL := (if dy_TTL r = 0 then 300 else dy_TTL r),
       dy_IPBanDuration := (if dy_IPBanDuration r = 0 then 3600 else dy_IPBanDuration r)\<rparr>"

definition below_one :: "int option \<Rightarrow> bool" where
  "below_one v = (case v of None \<Rightarrow> False | Some n \<Rightarrow> n < 1)"

definition validate :: "DynamicRules \<Rightarrow> string option" where
  "validate r =
     (if below_one (dy_AutoBanThreshold r) then Some ''auto_ban_threshold must be >= 1''
      else if below_one (dy_AutoBanDuration r) then Some ''auto_ban_duration must be >= 1''
      else None)"

definition LastKnownRulesSnapshotSchemaVersion :: int where
  "LastKnownRulesSnapshotSchemaVersion = 1"

record lastKnownRulesSnapshot =
  lk_SchemaVersion :: int
  lk_Rules :: DynamicRules

record snapshot_codec =
  jc_marshal :: "lastKnownRulesSnapshot \<Rightarrow> string"
  jc_decode :: "string \<Rightarrow> lastKnownRulesSnapshot option"

definition DumpLastKnownRulesSnapshot :: "snapshot_codec \<Rightarrow> DynamicRules \<Rightarrow> string" where
  "DumpLastKnownRulesSnapshot jc rules =
     jc_marshal jc \<lparr>lk_SchemaVersion = LastKnownRulesSnapshotSchemaVersion, lk_Rules = normalize rules\<rparr>"

definition LoadLastKnownRulesSnapshot :: "snapshot_codec \<Rightarrow> string \<Rightarrow> DynamicRules option" where
  "LoadLastKnownRulesSnapshot jc payload =
     (case jc_decode jc payload of
        None \<Rightarrow> None
      | Some s \<Rightarrow>
          (if lk_SchemaVersion s \<noteq> LastKnownRulesSnapshotSchemaVersion then None
           else if validate (lk_Rules s) \<noteq> None then None
           else Some (normalize (lk_Rules s))))"

section \<open>Environment and state\<close>

record configSnapshot =
  sn_blockedCountries :: "string list"
  sn_whitelistCountries :: "string list"
  sn_rateLimit :: int
  sn_rateLimitWindow :: int
  sn_endpointRateLimits :: "(string \<times> RateLimitEntry) list"
  sn_blockCloudProviders :: "string list"
  sn_blockedUserAgents :: "string list"
  sn_enablePenetrationDetection :: bool
  sn_enableIPBanning :: bool
  sn_enableRateLimiting :: bool
  sn_emergencyMode :: bool
  sn_emergencyWhitelist :: "string list"
  sn_autoBanThreshold :: int
  sn_autoBanDuration :: int
  sn_enableRateLimitAutoBan :: bool

text \<open>The events with what their metadata carries.\<close>

datatype dyn_event =
  RulesUpdated string int int
| RulesApplied string int nat nat bool
| EmergencyActivated nat "string list"

datatype send_result = Sent | SendError | SendPanic

record dyn_env =
  dx_now :: real
  dx_ft :: float_text
  dx_upper :: "string \<Rightarrow> string"
  dx_regex :: "string \<Rightarrow> bool"
  dx_sus :: sus_env
  dx_send :: "dyn_event \<Rightarrow> send_result"
  dx_codec :: snapshot_codec
  dx_readable :: bool
  dx_writable :: bool

record 'r DynamicRuleManager =
  dm_cfg :: SecurityConfig
  dm_redis :: "'r RedisHandler option"
  dm_rstate :: 'r
  dm_ban :: "'r IPBanManager option"
  dm_sus :: "'r SusPatternsManager"
  dm_files :: "(string \<times> string) list"
  dm_bus :: bool
  dm_events :: "dyn_event list"
  currentRules :: "DynamicRules option"
  lastUpdate :: real
  activeBase :: "configSnapshot option"
  lastSkipped :: "(string \<times> int) option"
  hydrated :: bool
  applying :: bool

definition NewDynamicRuleManager ::
  "SecurityConfig \<Rightarrow> 'r RedisHandler option \<Rightarrow> 'r \<Rightarrow> 'r IPBanManager option \<Rightarrow> 'r SusPatternsManager
     \<Rightarrow> (string \<times> string) list \<Rightarrow> bool \<Rightarrow> 'r DynamicRuleManager" where
  "NewDynamicRuleManager cfg redis r ban sus files bus =
     \<lparr>dm_cfg = cfg, dm_redis = redis, dm_rstate = r, dm_ban = ban, dm_sus = sus, dm_files = files, dm_bus = bus,
      dm_events = [], currentRules = None, lastUpdate = 0, activeBase = None, lastSkipped = None, hydrated = False,
      applying = False\<rparr>"

definition BumpRevision :: "SecurityConfig \<Rightarrow> SecurityConfig" where
  "BumpRevision cfg = cfg\<lparr>sc_revision := sc_revision cfg + 1\<rparr>"

definition captureSnapshot :: "SecurityConfig \<Rightarrow> configSnapshot" where
  "captureSnapshot cfg =
     \<lparr>sn_blockedCountries = sc_BlockedCountries cfg, sn_whitelistCountries = sc_WhitelistCountries cfg,
      sn_rateLimit = sc_RateLimit cfg, sn_rateLimitWindow = sc_RateLimitWindow cfg,
      sn_endpointRateLimits = sc_EndpointRateLimits cfg, sn_blockCloudProviders = sc_BlockCloudProviders cfg,
      sn_blockedUserAgents = sc_BlockedUserAgents cfg,
      sn_enablePenetrationDetection = sc_EnablePenetrationDetection cfg, sn_enableIPBanning = sc_EnableIPBanning cfg,
      sn_enableRateLimiting = sc_EnableRateLimiting cfg, sn_emergencyMode = sc_EmergencyMode cfg,
      sn_emergencyWhitelist = sc_EmergencyWhitelist cfg, sn_autoBanThreshold = sc_AutoBanThreshold cfg,
      sn_autoBanDuration = sc_AutoBanDuration cfg, sn_enableRateLimitAutoBan = sc_EnableRateLimitAutoBan cfg\<rparr>"

definition restoreSnapshot :: "configSnapshot \<Rightarrow> SecurityConfig \<Rightarrow> SecurityConfig" where
  "restoreSnapshot s cfg =
     cfg\<lparr>sc_BlockedCountries := sn_blockedCountries s, sc_WhitelistCountries := sn_whitelistCountries s,
         sc_RateLimit := sn_rateLimit s, sc_RateLimitWindow := sn_rateLimitWindow s,
         sc_EndpointRateLimits := sn_endpointRateLimits s, sc_BlockCloudProviders := sn_blockCloudProviders s,
         sc_BlockedUserAgents := sn_blockedUserAgents s,
         sc_EnablePenetrationDetection := sn_enablePenetrationDetection s, sc_EnableIPBanning := sn_enableIPBanning s,
         sc_EnableRateLimiting := sn_enableRateLimiting s, sc_EmergencyMode := sn_emergencyMode s,
         sc_EmergencyWhitelist := sn_emergencyWhitelist s, sc_AutoBanThreshold := sn_autoBanThreshold s,
         sc_AutoBanDuration := sn_autoBanDuration s, sc_EnableRateLimitAutoBan := sn_enableRateLimitAutoBan s\<rparr>"

section \<open>Gates\<close>

definition hasExpired :: "real \<Rightarrow> DynamicRules \<Rightarrow> bool" where
  "hasExpired now rules = (case dy_ExpiresAt rules of None \<Rightarrow> False | Some e \<Rightarrow> now > e)"

definition shouldUpdateRules :: "DynamicRules \<Rightarrow> 'r DynamicRuleManager \<Rightarrow> bool" where
  "shouldUpdateRules rules m =
     (case currentRules m of
        None \<Rightarrow> True
      | Some current \<Rightarrow> \<not> (dy_RuleID rules = dy_RuleID current \<and> dy_Version rules \<le> dy_Version current))"

definition rejectIfAlreadyExpired :: "real \<Rightarrow> DynamicRules \<Rightarrow> 'r DynamicRuleManager \<Rightarrow> bool \<times> 'r DynamicRuleManager" where
  "rejectIfAlreadyExpired now rules m =
     (if \<not> hasExpired now rules then (False, m)
      else (True, m\<lparr>lastSkipped := Some (dy_RuleID rules, dy_Version rules)\<rparr>))"

definition checkRuleExpiry :: "real \<Rightarrow> 'r DynamicRuleManager \<Rightarrow> 'r DynamicRuleManager" where
  "checkRuleExpiry now m =
     (case currentRules m of
        None \<Rightarrow> m
      | Some rules \<Rightarrow>
          (if \<not> hasExpired now rules then m
           else
             (let m1 = (case activeBase m of
                          None \<Rightarrow> m
                        | Some b \<Rightarrow> m\<lparr>dm_cfg := BumpRevision (restoreSnapshot b (dm_cfg m))\<rparr>)
              in m1\<lparr>currentRules := None, activeBase := None\<rparr>)))"

definition currentRulesVersion :: "'r DynamicRuleManager \<Rightarrow> int" where
  "currentRulesVersion m = (case currentRules m of None \<Rightarrow> 0 | Some r \<Rightarrow> dy_Version r)"

text \<open>\<open>SendHandlerEvent\<close> on the manager's bus: whether the transport panicked, and the events that went out.\<close>

definition bus_send :: "dyn_env \<Rightarrow> dyn_event \<Rightarrow> 'r DynamicRuleManager \<Rightarrow> bool \<times> 'r DynamicRuleManager" where
  "bus_send env e m =
     (if \<not> dm_bus m then (False, m)
      else
        (case dx_send env e of
           Sent \<Rightarrow> (False, m\<lparr>dm_events := dm_events m @ [e]\<rparr>)
         | SendError \<Rightarrow> (False, m)
         | SendPanic \<Rightarrow> (True, m)))"

definition sendRuleEvent :: "dyn_env \<Rightarrow> dyn_event \<Rightarrow> 'r DynamicRuleManager \<Rightarrow> 'r DynamicRuleManager" where
  "sendRuleEvent env e m = snd (bus_send env e m)"

section \<open>Application\<close>

fun ban_ips :: "dyn_env \<Rightarrow> int \<Rightarrow> string list \<Rightarrow> 'r IPBanManager \<Rightarrow> bool \<times> 'r IPBanManager" where
  "ban_ips env duration [] b = (False, b)"
| "ban_ips env duration (ip # ips) b =
     (case Ban (dx_ft env) ip duration ''dynamic_rule'' (dx_now env) b of
        (Inl Panic, b1) \<Rightarrow> (True, b1)
      | (_, b1) \<Rightarrow> ban_ips env duration ips b1)"

definition unban_ips :: "string list \<Rightarrow> 'r IPBanManager \<Rightarrow> 'r IPBanManager" where
  "unban_ips ips b = fold (\<lambda>ip b. snd (Unban ip b)) ips b"

definition applyIPRules :: "dyn_env \<Rightarrow> DynamicRules \<Rightarrow> 'r DynamicRuleManager \<Rightarrow> bool \<times> 'r DynamicRuleManager" where
  "applyIPRules env rules m =
     (case dm_ban m of
        None \<Rightarrow> (False, m)
      | Some b \<Rightarrow>
          (case ban_ips env (dy_IPBanDuration rules) (dy_IPBlacklist rules) b of
             (True, b1) \<Rightarrow> (True, m\<lparr>dm_ban := Some b1\<rparr>)
           | (False, b1) \<Rightarrow> (False, m\<lparr>dm_ban := Some (unban_ips (dy_IPWhitelist rules) b1)\<rparr>)))"

definition normalizeCountryList :: "(string \<Rightarrow> string) \<Rightarrow> string list \<Rightarrow> string list" where
  "normalizeCountryList upper entries = foldl (\<lambda>out e. if upper e \<in> set out then out else out @ [upper e]) [] entries"

definition country_config :: "dyn_env \<Rightarrow> DynamicRules \<Rightarrow> SecurityConfig \<Rightarrow> SecurityConfig" where
  "country_config env rules cfg =
     (if sc_GeoIPHandler cfg = None \<and> sc_IPInfoToken cfg = [] then cfg
      else
        cfg\<lparr>sc_BlockedCountries := (if dy_BlockedCountries rules = [] then sc_BlockedCountries cfg
                                    else normalizeCountryList (dx_upper env) (dy_BlockedCountries rules)),
            sc_WhitelistCountries := (if dy_WhitelistCountries rules = [] then sc_WhitelistCountries cfg
                                      else normalizeCountryList (dx_upper env) (dy_WhitelistCountries rules))\<rparr>)"

definition blocking_config :: "dyn_env \<Rightarrow> DynamicRules \<Rightarrow> SecurityConfig \<Rightarrow> SecurityConfig" where
  "blocking_config env rules cfg =
     (let c1 = country_config env rules cfg;
          c2 = (if dy_BlockedCloudProviders rules = [] then c1
                else c1\<lparr>sc_BlockCloudProviders :=
                          filter (\<lambda>p. ValidCloudProviders (fst (cut_marker p))) (dy_BlockedCloudProviders rules)\<rparr>)
      in if dy_BlockedUserAgents rules = [] then c2
         else c2\<lparr>sc_BlockedUserAgents := filter (dx_regex env) (dy_BlockedUserAgents rules)\<rparr>)"

fun add_patterns :: "dyn_env \<Rightarrow> string list \<Rightarrow> 'r SusPatternsManager \<Rightarrow> bool \<times> 'r SusPatternsManager" where
  "add_patterns env [] s = (False, s)"
| "add_patterns env (p # ps) s =
     (case AddPattern (dx_sus env) p False s of
        (None, s1) \<Rightarrow> (True, s1)
      | (Some _, s1) \<Rightarrow> add_patterns env ps s1)"

definition applyBlockingRules :: "dyn_env \<Rightarrow> DynamicRules \<Rightarrow> 'r DynamicRuleManager \<Rightarrow> bool \<times> 'r DynamicRuleManager" where
  "applyBlockingRules env rules m =
     (case add_patterns env (dy_SuspiciousPatterns rules) (dm_sus m) of
        (panicked, s) \<Rightarrow> (panicked, m\<lparr>dm_cfg := blocking_config env rules (dm_cfg m), dm_sus := s\<rparr>))"

definition applyRateLimitRules :: "DynamicRules \<Rightarrow> SecurityConfig \<Rightarrow> SecurityConfig" where
  "applyRateLimitRules rules cfg =
     (let c1 = (case dy_GlobalRateLimit rules of
                  None \<Rightarrow> cfg
                | Some limit \<Rightarrow>
                    (if limit > 0 then
                       cfg\<lparr>sc_RateLimit := limit,
                           sc_RateLimitWindow :=
                             (case dy_GlobalRateWindow rules of
                                None \<Rightarrow> sc_RateLimitWindow cfg
                              | Some w \<Rightarrow> if w > 0 then w else sc_RateLimitWindow cfg)\<rparr>
                     else cfg))
      in if dy_EndpointRateLimits rules = [] then c1
         else c1\<lparr>sc_EndpointRateLimits :=
                   map (\<lambda>(e, limit, w). (e, \<lparr>re_Requests = limit, re_Window = w\<rparr>)) (dy_EndpointRateLimits rules)\<rparr>)"

definition set_or :: "'a option \<Rightarrow> 'a \<Rightarrow> 'a" where
  "set_or v old = (case v of None \<Rightarrow> old | Some x \<Rightarrow> x)"

definition applyFeatureToggles :: "DynamicRules \<Rightarrow> SecurityConfig \<Rightarrow> SecurityConfig" where
  "applyFeatureToggles rules cfg =
     cfg\<lparr>sc_EnablePenetrationDetection := set_or (dy_EnablePenetrationDetection rules) (sc_EnablePenetrationDetection cfg),
         sc_EnableIPBanning := set_or (dy_EnableIPBanning rules) (sc_EnableIPBanning cfg),
         sc_EnableRateLimiting := set_or (dy_EnableRateLimiting rules) (sc_EnableRateLimiting cfg),
         sc_EnableRateLimitAutoBan := set_or (dy_EnableRateLimitAutoBan rules) (sc_EnableRateLimitAutoBan cfg),
         sc_AutoBanThreshold := set_or (dy_AutoBanThreshold rules) (sc_AutoBanThreshold cfg),
         sc_AutoBanDuration := set_or (dy_AutoBanDuration rules) (sc_AutoBanDuration cfg)\<rparr>"

text \<open>Go divides towards zero, which the maximum with one hides.\<close>

definition emergency_config :: "string list \<Rightarrow> SecurityConfig \<Rightarrow> SecurityConfig" where
  "emergency_config whitelist cfg =
     cfg\<lparr>sc_EmergencyMode := True, sc_EmergencyWhitelist := whitelist,
         sc_AutoBanThreshold := max 1 (sc_AutoBanThreshold cfg div 2)\<rparr>"

definition activateEmergencyMode ::
  "dyn_env \<Rightarrow> string list \<Rightarrow> 'r DynamicRuleManager \<Rightarrow> bool \<times> 'r DynamicRuleManager" where
  "activateEmergencyMode env whitelist m =
     bus_send env (EmergencyActivated (length whitelist) (take 10 whitelist))
       (m\<lparr>dm_cfg := emergency_config whitelist (dm_cfg m)\<rparr>)"

text \<open>A step of an application and the next one, unless it panicked.\<close>

definition then_step ::
  "bool \<times> 'm \<Rightarrow> ('m \<Rightarrow> bool \<times> 'm) \<Rightarrow> bool \<times> 'm" where
  "then_step r f = (if fst r then r else f (snd r))"

definition apply_steps :: "dyn_env \<Rightarrow> DynamicRules \<Rightarrow> 'r DynamicRuleManager \<Rightarrow> bool \<times> 'r DynamicRuleManager" where
  "apply_steps env rules m =
     then_step (then_step (applyIPRules env rules m) (applyBlockingRules env rules)) (\<lambda>m1.
       let m2 = m1\<lparr>dm_cfg := applyFeatureToggles rules (applyRateLimitRules rules (dm_cfg m1))\<rparr> in
       if dy_EmergencyMode rules then activateEmergencyMode env (dy_EmergencyWhitelist rules) m2 else (False, m2))"

definition dyn_redis :: "'r DynamicRuleManager \<Rightarrow> 'r RedisHandler option" where
  "dyn_redis m = (case dm_redis m of None \<Rightarrow> None | Some h \<Rightarrow> if rh_Enabled h then Some h else None)"

definition writeAtomicFile :: "dyn_env \<Rightarrow> string \<Rightarrow> string \<Rightarrow> (string \<times> string) list \<Rightarrow> (string \<times> string) list" where
  "writeAtomicFile env path payload files = (if dx_writable env then AList.update path payload files else files)"

definition persistLastKnownRules :: "dyn_env \<Rightarrow> DynamicRules \<Rightarrow> 'r DynamicRuleManager \<Rightarrow> 'r DynamicRuleManager" where
  "persistLastKnownRules env rules m =
     (let payload = DumpLastKnownRulesSnapshot (dx_codec env) rules;
          m1 = (case dyn_redis m of
                  None \<Rightarrow> m
                | Some h \<Rightarrow> m\<lparr>dm_rstate := snd (rh_SetKey h ''dynamic_rules'' ''last_known'' payload 0 (dm_rstate m))\<rparr>)
      in if sc_DynamicRulesCachePath (dm_cfg m1) = [] then m1
         else m1\<lparr>dm_files := writeAtomicFile env (sc_DynamicRulesCachePath (dm_cfg m1)) payload (dm_files m1)\<rparr>)"

definition applyRulesLocked ::
  "dyn_env \<Rightarrow> DynamicRules \<Rightarrow> 'r DynamicRuleManager \<Rightarrow> string option \<times> 'r DynamicRuleManager" where
  "applyRulesLocked env rules m =
     (if applying m then (Some ''dynamic rule application already in flight'', m)
      else
        (let snapshot = captureSnapshot (dm_cfg m) in
         case apply_steps env rules (m\<lparr>applying := True\<rparr>) of
           (True, m1) \<Rightarrow>
             (Some ''dynamic rule application failed: snapshot restored'',
              m1\<lparr>dm_cfg := restoreSnapshot snapshot (dm_cfg m1), applying := False\<rparr>)
         | (False, m1) \<Rightarrow>
             (let m2 = (if currentRules m1 = None \<and> activeBase m1 = None then m1\<lparr>activeBase := Some snapshot\<rparr> else m1);
                  m3 = persistLastKnownRules env rules m2
              in (None, m3\<lparr>dm_cfg := BumpRevision (dm_cfg m3), applying := False\<rparr>))))"

definition take_effect :: "dyn_env \<Rightarrow> DynamicRules \<Rightarrow> 'r DynamicRuleManager \<Rightarrow> 'r DynamicRuleManager" where
  "take_effect env rules m = m\<lparr>currentRules := Some rules, lastUpdate := dx_now env\<rparr>"

definition UpdateRules ::
  "dyn_env \<Rightarrow> string + DynamicRules option \<Rightarrow> 'r DynamicRuleManager \<Rightarrow> string option \<times> 'r DynamicRuleManager" where
  "UpdateRules env fetched m0 =
     (if \<not> sc_EnableDynamicRules (dm_cfg m0) then (None, m0)
      else
        (let m = checkRuleExpiry (dx_now env) m0 in
         case fetched of
           Inl e \<Rightarrow> (Some (''fetch dynamic rules: '' @ e), m)
         | Inr None \<Rightarrow> (None, m)
         | Inr (Some delivered) \<Rightarrow>
             (case validate delivered of
                Some e \<Rightarrow> (Some e, m)
              | None \<Rightarrow>
                  (let rules = normalize delivered in
                   case rejectIfAlreadyExpired (dx_now env) rules m of
                     (True, m1) \<Rightarrow> (None, m1)
                   | (False, m1) \<Rightarrow>
                       (if \<not> shouldUpdateRules rules m1 then (None, m1)
                        else
                          (let m2 = sendRuleEvent env
                                      (RulesUpdated (dy_RuleID rules) (dy_Version rules) (currentRulesVersion m1)) m1
                           in case applyRulesLocked env rules m2 of
                                (Some e, m3) \<Rightarrow> (Some e, m3)
                              | (None, m3) \<Rightarrow>
                                  (None, sendRuleEvent env
                                     (RulesApplied (dy_RuleID rules) (dy_Version rules) (length (dy_IPBlacklist rules))
                                        (length (dy_BlockedCountries rules)) (dy_EmergencyMode rules))
                                     (take_effect env rules m3))))))))"

section \<open>Hydration\<close>

definition usable_rules :: "dyn_env \<Rightarrow> string \<Rightarrow> DynamicRules option" where
  "usable_rules env payload =
     (if payload = [] then None
      else
        (case LoadLastKnownRulesSnapshot (dx_codec env) payload of
           None \<Rightarrow> None
         | Some rules \<Rightarrow> if hasExpired (dx_now env) rules then None else Some rules))"

definition readRedisPayload :: "'r DynamicRuleManager \<Rightarrow> string \<times> 'r DynamicRuleManager" where
  "readRedisPayload m =
     (case dyn_redis m of
        None \<Rightarrow> ([], m)
      | Some h \<Rightarrow>
          (case rh_GetKey h ''dynamic_rules'' ''last_known'' (dm_rstate m) of
             (Inl e, r) \<Rightarrow> ([], m\<lparr>dm_rstate := r\<rparr>)
           | (Inr raw, r) \<Rightarrow> (raw, m\<lparr>dm_rstate := r\<rparr>)))"

definition readFilePayload :: "dyn_env \<Rightarrow> string \<Rightarrow> (string \<times> string) list \<Rightarrow> string" where
  "readFilePayload env path files =
     (if \<not> dx_readable env then [] else (case map_of files path of None \<Rightarrow> [] | Some data \<Rightarrow> data))"

definition loadLastKnownRules :: "dyn_env \<Rightarrow> 'r DynamicRuleManager \<Rightarrow> DynamicRules option \<times> 'r DynamicRuleManager" where
  "loadLastKnownRules env m0 =
     (case readRedisPayload m0 of
        (payload, m) \<Rightarrow>
          (case usable_rules env payload of
             Some rules \<Rightarrow> (Some rules, m)
           | None \<Rightarrow>
               (if sc_DynamicRulesCachePath (dm_cfg m) = [] then (None, m)
                else (usable_rules env (readFilePayload env (sc_DynamicRulesCachePath (dm_cfg m)) (dm_files m)), m))))"

definition HydrateLastKnownRules :: "dyn_env \<Rightarrow> 'r DynamicRuleManager \<Rightarrow> 'r DynamicRuleManager" where
  "HydrateLastKnownRules env m0 =
     (if hydrated m0 then m0
      else
        (case loadLastKnownRules env (m0\<lparr>hydrated := True\<rparr>) of
           (None, m) \<Rightarrow> m
         | (Some rules, m) \<Rightarrow>
             (case applyRulesLocked env rules m of
                (Some e, m1) \<Rightarrow> m1
              | (None, m1) \<Rightarrow> take_effect env rules m1)))"

section \<open>Matching events\<close>

record SecurityEvent =
  ev_type :: string
  ev_ip :: string
  ev_country :: string

definition eventMatchesIP :: "SecurityEvent \<Rightarrow> DynamicRules \<Rightarrow> bool" where
  "eventMatchesIP e rules \<longleftrightarrow>
     ev_ip e \<noteq> [] \<and> (ev_ip e \<in> set (dy_IPBlacklist rules) \<or> ev_ip e \<in> set (dy_IPWhitelist rules))"

definition eventMatchesCountry :: "SecurityEvent \<Rightarrow> DynamicRules \<Rightarrow> bool" where
  "eventMatchesCountry e rules \<longleftrightarrow> ev_country e \<noteq> [] \<and> ev_country e \<in> set (dy_BlockedCountries rules)"

definition eventMatchesType :: "SecurityEvent \<Rightarrow> DynamicRules \<Rightarrow> bool" where
  "eventMatchesType e rules \<longleftrightarrow>
     (if ev_type e = ''rate_limited'' then dy_GlobalRateLimit rules \<noteq> None \<or> dy_EndpointRateLimits rules \<noteq> []
      else if ev_type e = ''cloud_blocked'' then dy_BlockedCloudProviders rules \<noteq> []
      else if ev_type e = ''user_agent_blocked'' then dy_BlockedUserAgents rules \<noteq> []
      else False)"

definition MatchEvent :: "SecurityEvent \<Rightarrow> 'r DynamicRuleManager \<Rightarrow> (string \<times> int) option" where
  "MatchEvent e m =
     (case currentRules m of
        None \<Rightarrow> None
      | Some rules \<Rightarrow>
          (if eventMatchesIP e rules \<or> eventMatchesCountry e rules \<or> eventMatchesType e rules
           then Some (dy_RuleID rules, dy_Version rules) else None))"

end
