(* ===== verification/DynamicRun.thy ===== *)
theory DynamicRun
  imports PipelineRun DynamicRules
begin

text \<open>
  What the dynamic rules promise: an update is applied whole or the configuration stays as it was, an expired rule
  leaves no trace in the configuration, a delivery is applied once, the last rules survive a restart, and how an
  applied rule reaches the requests through the ban manager, the pipeline and the rate limiter.
\<close>

section \<open>Configuration steps touch only what a snapshot holds\<close>

named_theorems snapshot_simps

lemma restore_restore [snapshot_simps]: "restoreSnapshot s (restoreSnapshot t c) = restoreSnapshot s c"
  by (simp add: restoreSnapshot_def)

lemma restore_country [snapshot_simps]: "restoreSnapshot s (country_config env r c) = restoreSnapshot s c"
  by (simp add: restoreSnapshot_def country_config_def)

lemma restore_blocking [snapshot_simps]: "restoreSnapshot s (blocking_config env r c) = restoreSnapshot s c"
proof -
  have "restoreSnapshot s (d\<lparr>sc_BlockCloudProviders := x\<rparr>) = restoreSnapshot s d"
    "restoreSnapshot s (d\<lparr>sc_BlockedUserAgents := y\<rparr>) = restoreSnapshot s d" for d x y
    by (simp_all add: restoreSnapshot_def)
  then show ?thesis by (simp add: blocking_config_def Let_def restore_country)
qed

lemma restore_rates [snapshot_simps]: "restoreSnapshot s (applyRateLimitRules r c) = restoreSnapshot s c"
proof -
  have "restoreSnapshot s (d\<lparr>sc_EndpointRateLimits := x\<rparr>) = restoreSnapshot s d"
    "restoreSnapshot s (d\<lparr>sc_RateLimit := y, sc_RateLimitWindow := z\<rparr>) = restoreSnapshot s d" for d x y z
    by (simp_all add: restoreSnapshot_def)
  then show ?thesis by (simp add: applyRateLimitRules_def Let_def split: option.split)
qed

lemma restore_toggles [snapshot_simps]:
  "restoreSnapshot s (applyFeatureToggles r c) = restoreSnapshot s c"
  "restoreSnapshot s (emergency_config wl c) = restoreSnapshot s c"
  by (simp_all add: restoreSnapshot_def applyFeatureToggles_def emergency_config_def)

lemma restore_bump [snapshot_simps]:
  "restoreSnapshot s (BumpRevision c) = BumpRevision (restoreSnapshot s c)"
  "captureSnapshot (BumpRevision c) = captureSnapshot c"
  by (simp_all add: restoreSnapshot_def captureSnapshot_def BumpRevision_def)

lemma restore_capture [snapshot_simps]: "restoreSnapshot (captureSnapshot c) c = c"
  by (simp add: restoreSnapshot_def captureSnapshot_def)

section \<open>What each step of an application leaves alone\<close>

text \<open>The bookkeeping fields of the manager.\<close>

definition books :: "'r DynamicRuleManager \<Rightarrow> DynamicRules option \<times> real \<times> configSnapshot option \<times> bool \<times> bool \<times> 'r RedisHandler option \<times> 'r \<times> (string \<times> string) list" where
  "books m = (currentRules m, lastUpdate m, activeBase m, hydrated m, applying m, dm_redis m, dm_rstate m, dm_files m)"

lemma bus_send_frame:
  "dm_cfg (snd (bus_send env e m)) = dm_cfg m" "books (snd (bus_send env e m)) = books m"
  "dm_ban (snd (bus_send env e m)) = dm_ban m" "dm_sus (snd (bus_send env e m)) = dm_sus m"
  "dm_cfg (sendRuleEvent env e m) = dm_cfg m" "books (sendRuleEvent env e m) = books m"
  "dm_ban (sendRuleEvent env e m) = dm_ban m" "dm_sus (sendRuleEvent env e m) = dm_sus m"
  by (simp_all add: bus_send_def sendRuleEvent_def books_def split: send_result.split)

lemma applyIPRules_frame:
  "dm_cfg (snd (applyIPRules env r m)) = dm_cfg m" "books (snd (applyIPRules env r m)) = books m"
  "dm_sus (snd (applyIPRules env r m)) = dm_sus m"
  by (simp_all add: applyIPRules_def books_def split: option.split prod.split bool.split)

lemma applyBlockingRules_frame:
  "dm_cfg (snd (applyBlockingRules env r m)) = blocking_config env r (dm_cfg m)"
  "books (snd (applyBlockingRules env r m)) = books m" "dm_ban (snd (applyBlockingRules env r m)) = dm_ban m"
  by (simp_all add: applyBlockingRules_def books_def split: prod.split)

lemma books_cfg [simp]: "books (m\<lparr>dm_cfg := c\<rparr>) = books m"
  by (simp add: books_def)

lemma then_step_frame: "P (snd r) \<Longrightarrow> (\<And>m. P m \<Longrightarrow> P (snd (f m))) \<Longrightarrow> P (snd (then_step r f))"
  by (simp add: then_step_def)

lemma apply_steps_frame:
  "restoreSnapshot s (dm_cfg (snd (apply_steps env r m))) = restoreSnapshot s (dm_cfg m)
    \<and> books (snd (apply_steps env r m)) = books m"
  unfolding apply_steps_def activateEmergencyMode_def Let_def
  by (intro then_step_frame[where P = "\<lambda>n. restoreSnapshot s (dm_cfg n) = restoreSnapshot s (dm_cfg m) \<and> books n = books m"])
    (simp_all add: applyIPRules_frame applyBlockingRules_frame bus_send_frame snapshot_simps)

text \<open>The configuration a rule asks for.\<close>

definition ruled_config :: "dyn_env \<Rightarrow> DynamicRules \<Rightarrow> SecurityConfig \<Rightarrow> SecurityConfig" where
  "ruled_config env r c =
     (let d = applyFeatureToggles r (applyRateLimitRules r (blocking_config env r c)) in
      if dy_EmergencyMode r then emergency_config (dy_EmergencyWhitelist r) d else d)"

lemma apply_steps_done:
  assumes "apply_steps env r m = (False, m1)"
  shows "dm_cfg m1 = ruled_config env r (dm_cfg m)" "\<not> fst (applyIPRules env r m)"
    "dm_ban m1 = dm_ban (snd (applyIPRules env r m))"
  using assms
  by (auto simp: apply_steps_def then_step_def Let_def ruled_config_def activateEmergencyMode_def applyIPRules_frame
      applyBlockingRules_frame split: if_splits dest!: arg_cong[where f = snd] simp: bus_send_frame)

section \<open>A delivery is applied\<close>

text \<open>Nothing can panic: the ban manager's cache is consistent and no transport panics.\<close>

definition calm :: "dyn_env \<Rightarrow> 'r DynamicRuleManager \<Rightarrow> bool" where
  "calm env m \<longleftrightarrow>
     (case dm_ban m of None \<Rightarrow> True | Some b \<Rightarrow> cache_ok b)
     \<and> (sm_agent (dm_sus m) \<longrightarrow> (\<forall>e. \<not> se_panics (dx_sus env) e)) \<and> (dm_bus m \<longrightarrow> (\<forall>e. dx_send env e \<noteq> SendPanic))"

lemma ban_ips_calm: "cache_ok b \<Longrightarrow> \<not> fst (ban_ips env d ips b) \<and> cache_ok (snd (ban_ips env d ips b))"
proof (induction ips arbitrary: b)
  case (Cons ip ips)
  obtain o1 b1 where ban: "Ban (dx_ft env) ip d ''dynamic_rule'' (dx_now env) b = (o1, b1)" by (meson surj_pair)
  then have "o1 \<noteq> Inl Panic" "cache_ok b1"
    using Ban_ok[OF Cons.prems, of "dx_ft env" ip d "''dynamic_rule''" "dx_now env"] by simp_all
  then show ?case using Cons.IH[of b1] ban by (auto split: sum.splits go_error.splits)
qed simp

lemma add_patterns_calm:
  "sm_agent s \<longrightarrow> (\<forall>e. \<not> se_panics (dx_sus env) e) \<Longrightarrow> \<not> fst (add_patterns env ps s)"
proof (induction ps arbitrary: s)
  case (Cons p ps)
  obtain o1 s1 where add: "AddPattern (dx_sus env) p False s = (o1, s1)" by (meson surj_pair)
  have "o1 \<noteq> None \<and> sm_agent s1 = sm_agent s"
    using add Cons.prems
    by (auto simp: AddPattern_def Let_def sendPatternEvent_def register_pattern_def split: if_splits)
  then show ?case using add Cons.IH[of s1] Cons.prems by (auto split: option.splits)
qed simp

lemma bus_send_calm: "dm_bus m \<longrightarrow> (\<forall>e. dx_send env e \<noteq> SendPanic) \<Longrightarrow> \<not> fst (bus_send env e m)"
  by (auto simp: bus_send_def split: send_result.split)

lemma apply_steps_calm:
  assumes "calm env m" shows "\<not> fst (apply_steps env r m)"
proof -
  have ip: "\<not> fst (applyIPRules env r m)"
  proof (cases "dm_ban m")
    case (Some b)
    then show ?thesis using assms ban_ips_calm[of b env "dy_IPBanDuration r" "dy_IPBlacklist r"]
      by (auto simp: applyIPRules_def calm_def split: prod.split bool.split)
  qed (simp add: applyIPRules_def)
  have same: "dm_sus (snd (applyIPRules env r m)) = dm_sus m" "dm_bus (snd (applyIPRules env r m)) = dm_bus m"
    by (simp_all add: applyIPRules_def split: option.split prod.split bool.split)
  have "\<not> fst (applyBlockingRules env r n) \<and> dm_bus (snd (applyBlockingRules env r n)) = dm_bus m"
    if "dm_sus n = dm_sus m" "dm_bus n = dm_bus m" for n
    using assms that add_patterns_calm[of "dm_sus m" env "dy_SuspiciousPatterns r"]
    by (auto simp: applyBlockingRules_def calm_def split: prod.split)
  then show ?thesis
    using ip same assms bus_send_calm
    by (auto simp: apply_steps_def then_step_def Let_def activateEmergencyMode_def calm_def)
qed

lemma persist_frame:
  "dm_cfg (persistLastKnownRules env r m) = dm_cfg m" "currentRules (persistLastKnownRules env r m) = currentRules m"
  "activeBase (persistLastKnownRules env r m) = activeBase m" "dm_ban (persistLastKnownRules env r m) = dm_ban m"
  "hydrated (persistLastKnownRules env r m) = hydrated m" "lastUpdate (persistLastKnownRules env r m) = lastUpdate m"
  by (simp_all add: persistLastKnownRules_def Let_def split: option.split)

text \<open>An application either takes place whole or leaves the configuration and the bookkeeping as they were.\<close>

lemma apply_outcome:
  assumes "\<not> applying m"
  obtains (applied) m1 where "applyRulesLocked env r m = (None, m1)" "dm_cfg m1 = BumpRevision (ruled_config env r (dm_cfg m))"
      "currentRules m1 = currentRules m" "\<not> applying m1"
      "activeBase m1 = (if currentRules m = None \<and> activeBase m = None then Some (captureSnapshot (dm_cfg m)) else activeBase m)"
      "\<not> fst (applyIPRules env r m)" "dm_ban m1 = dm_ban (snd (applyIPRules env r m))"
  | (failed) m1 where "applyRulesLocked env r m = (Some ''dynamic rule application failed: snapshot restored'', m1)"
      "dm_cfg m1 = dm_cfg m" "currentRules m1 = currentRules m" "activeBase m1 = activeBase m" "\<not> applying m1"
      "fst (apply_steps env r (m\<lparr>applying := True\<rparr>))"
proof -
  let ?m = "m\<lparr>applying := True\<rparr>"
  obtain p m1 where st: "apply_steps env r ?m = (p, m1)" by (meson surj_pair)
  have frame: "restoreSnapshot (captureSnapshot (dm_cfg m)) (dm_cfg m1) = dm_cfg m" "books m1 = books ?m"
    using apply_steps_frame[of "captureSnapshot (dm_cfg m)" env r ?m] st by (simp_all add: snapshot_simps)
  have ips: "fst (applyIPRules env r ?m) = fst (applyIPRules env r m)"
    "dm_ban (snd (applyIPRules env r ?m)) = dm_ban (snd (applyIPRules env r m))"
    by (simp_all add: applyIPRules_def split: option.split prod.split bool.split)
  show ?thesis
  proof (cases p)
    case True
    then show ?thesis using failed[of "m1\<lparr>dm_cfg := dm_cfg m, applying := False\<rparr>"] assms st frame
      by (simp add: applyRulesLocked_def Let_def books_def)
  next
    case False
    then have "apply_steps env r ?m = (False, m1)" using st by simp
    from apply_steps_done[OF this] show ?thesis using False applied assms st frame(2) ips
      by (simp add: applyRulesLocked_def Let_def books_def persist_frame)
  qed
qed

text \<open>The manager once an expired rule is dropped, which is the first thing an update does.\<close>

definition due :: "dyn_env \<Rightarrow> 'r DynamicRuleManager \<Rightarrow> 'r DynamicRuleManager" where
  "due env m = (if sc_EnableDynamicRules (dm_cfg m) then checkRuleExpiry (dx_now env) m else m)"

lemma expiry_frame:
  "applying (checkRuleExpiry now m) = applying m" "dm_ban (checkRuleExpiry now m) = dm_ban m"
  "dm_sus (checkRuleExpiry now m) = dm_sus m" "dm_bus (checkRuleExpiry now m) = dm_bus m"
  "calm env (checkRuleExpiry now m) = calm env m"
  by (simp_all add: checkRuleExpiry_def calm_def Let_def split: option.split)

lemma sent_fields [simp]:
  "currentRules (sendRuleEvent env e m) = currentRules m" "activeBase (sendRuleEvent env e m) = activeBase m"
  "applying (sendRuleEvent env e m) = applying m" "hydrated (sendRuleEvent env e m) = hydrated m"
  "dm_files (sendRuleEvent env e m) = dm_files m" "dm_rstate (sendRuleEvent env e m) = dm_rstate m"
  "lastUpdate (sendRuleEvent env e m) = lastUpdate m" "dm_cfg (sendRuleEvent env e m) = dm_cfg m"
  "dm_ban (sendRuleEvent env e m) = dm_ban m" "dm_sus (sendRuleEvent env e m) = dm_sus m"
  "dm_redis (sendRuleEvent env e m) = dm_redis m" "dm_bus (sendRuleEvent env e m) = dm_bus m"
  by (simp_all add: bus_send_def sendRuleEvent_def split: send_result.split)

lemma calm_updates [simp]:
  "calm env (m\<lparr>applying := x\<rparr>) = calm env m" "calm env (m\<lparr>hydrated := x\<rparr>) = calm env m"
  "calm env (sendRuleEvent env2 e m) = calm env m" "calm env (due env2 m) = calm env m"
  by (simp_all add: calm_def due_def expiry_frame(1-4))

lemma applyIPRules_sent: "dm_ban n = dm_ban m \<Longrightarrow>
    fst (applyIPRules env r n) = fst (applyIPRules env r m)
    \<and> dm_ban (snd (applyIPRules env r n)) = dm_ban (snd (applyIPRules env r m))"
  by (simp add: applyIPRules_def split: option.split prod.split bool.split)

lemma update_outcome:
  assumes "\<not> applying m"
  obtains (applied) r where "fetched = Inr (Some r)" "fst (UpdateRules env fetched m) = None"
      "sc_EnableDynamicRules (dm_cfg m)" "validate r = None" "shouldUpdateRules (normalize r) (due env m)"
      "currentRules (snd (UpdateRules env fetched m)) = Some (normalize r)"
      "dm_cfg (snd (UpdateRules env fetched m)) = BumpRevision (ruled_config env (normalize r) (dm_cfg (due env m)))"
      "activeBase (snd (UpdateRules env fetched m))
         = (if currentRules (due env m) = None \<and> activeBase (due env m) = None
            then Some (captureSnapshot (dm_cfg (due env m))) else activeBase (due env m))"
      "\<not> applying (snd (UpdateRules env fetched m))" "\<not> fst (applyIPRules env (normalize r) m)"
      "dm_ban (snd (UpdateRules env fetched m)) = dm_ban (snd (applyIPRules env (normalize r) m))"
  | (kept) "dm_cfg (snd (UpdateRules env fetched m)) = dm_cfg (due env m)"
      "currentRules (snd (UpdateRules env fetched m)) = currentRules (due env m)"
      "activeBase (snd (UpdateRules env fetched m)) = activeBase (due env m)"
      "\<not> applying (snd (UpdateRules env fetched m))"
      "\<And>r. fetched = Inr (Some r) \<Longrightarrow> sc_EnableDynamicRules (dm_cfg m) \<Longrightarrow> validate r = None
         \<Longrightarrow> \<not> hasExpired (dx_now env) (normalize r) \<Longrightarrow> shouldUpdateRules (normalize r) (due env m) \<Longrightarrow> \<not> calm env m"
proof (cases "\<exists>r. fetched = Inr (Some r) \<and> sc_EnableDynamicRules (dm_cfg m) \<and> validate r = None
    \<and> \<not> hasExpired (dx_now env) (normalize r) \<and> shouldUpdateRules (normalize r) (due env m)")
  case False
  have "dm_cfg (snd (UpdateRules env fetched m)) = dm_cfg (due env m)
      \<and> currentRules (snd (UpdateRules env fetched m)) = currentRules (due env m)
      \<and> activeBase (snd (UpdateRules env fetched m)) = activeBase (due env m) \<and> \<not> applying (snd (UpdateRules env fetched m))"
    using False assms
    by (auto simp: UpdateRules_def due_def Let_def rejectIfAlreadyExpired_def expiry_frame split: sum.split option.split)
  then show ?thesis using False by (intro kept) auto
next
  case True
  then obtain r where r: "fetched = Inr (Some r)" "sc_EnableDynamicRules (dm_cfg m)" "validate r = None"
    "\<not> hasExpired (dx_now env) (normalize r)" "shouldUpdateRules (normalize r) (due env m)" by blast
  let ?e = "RulesUpdated (dy_RuleID (normalize r)) (dy_Version (normalize r)) (currentRulesVersion (due env m))"
  let ?m = "sendRuleEvent env ?e (due env m)"
  have m: "\<not> applying ?m" "dm_cfg ?m = dm_cfg (due env m)" "currentRules ?m = currentRules (due env m)"
    "activeBase ?m = activeBase (due env m)" "dm_ban ?m = dm_ban m"
    using assms by (simp_all add: due_def expiry_frame)
  have upd: "UpdateRules env fetched m = (case applyRulesLocked env (normalize r) ?m of
        (Some e, m3) \<Rightarrow> (Some e, m3)
      | (None, m3) \<Rightarrow> (None, sendRuleEvent env
           (RulesApplied (dy_RuleID (normalize r)) (dy_Version (normalize r)) (length (dy_IPBlacklist (normalize r)))
              (length (dy_BlockedCountries (normalize r))) (dy_EmergencyMode (normalize r))) (take_effect env (normalize r) m3)))"
    using r by (simp add: UpdateRules_def due_def Let_def rejectIfAlreadyExpired_def)
  from m(1) show ?thesis
  proof (cases rule: apply_outcome[where env = env and r = "normalize r"])
    case (applied m1)
    then show ?thesis
      using that(1)[OF r(1)] r m upd applyIPRules_sent[OF m(5), of env "normalize r"]
      by (simp add: take_effect_def)
  next
    case (failed m1)
    have "\<not> calm env m"
    proof
      assume "calm env m"
      then have "calm env (?m\<lparr>applying := True\<rparr>)" by simp
      then show False using failed(6) apply_steps_calm by blast
    qed
    then show ?thesis using that(2) failed m upd by simp
  qed
qed

lemma payload_frame: "\<exists>s. snd (readRedisPayload m) = m\<lparr>dm_rstate := s\<rparr>"
  by (cases "dyn_redis m") (auto simp: readRedisPayload_def split: prod.split sum.split intro: exI[of _ "dm_rstate m"])

lemma payload_hydrated: "fst (readRedisPayload (m\<lparr>hydrated := x\<rparr>)) = fst (readRedisPayload m)"
proof -
  have redis: "dyn_redis (m\<lparr>hydrated := x\<rparr>) = dyn_redis m" by (simp add: dyn_redis_def)
  show ?thesis
  proof (cases "dyn_redis m")
    case (Some h)
    then show ?thesis using redis
      by (cases "rh_GetKey h ''dynamic_rules'' ''last_known'' (dm_rstate m)") (simp add: readRedisPayload_def split: sum.split)
  qed (simp add: readRedisPayload_def redis)
qed

lemma load_reads: "snd (loadLastKnownRules env m) = snd (readRedisPayload m)"
  by (simp add: loadLastKnownRules_def split: prod.split option.split)

lemma loaded_frame:
  assumes "loadLastKnownRules env m = (r, m1)"
  shows "dm_cfg m1 = dm_cfg m" "currentRules m1 = currentRules m" "activeBase m1 = activeBase m"
    "applying m1 = applying m" "dm_files m1 = dm_files m" "calm env2 m1 = calm env2 m"
proof -
  obtain s where "m1 = m\<lparr>dm_rstate := s\<rparr>" using payload_frame[of m] load_reads[of env m] assms by auto
  then show "dm_cfg m1 = dm_cfg m" "currentRules m1 = currentRules m" "activeBase m1 = activeBase m"
    "applying m1 = applying m" "dm_files m1 = dm_files m" "calm env2 m1 = calm env2 m"
    by (simp_all add: calm_def)
qed

lemma hydrate_outcome:
  assumes "\<not> applying m"
  obtains (applied) r where "currentRules (HydrateLastKnownRules env m) = Some r" "\<not> applying (HydrateLastKnownRules env m)"
      "dm_cfg (HydrateLastKnownRules env m) = BumpRevision (ruled_config env r (dm_cfg m))"
      "activeBase (HydrateLastKnownRules env m)
         = (if currentRules m = None \<and> activeBase m = None then Some (captureSnapshot (dm_cfg m)) else activeBase m)"
      "fst (loadLastKnownRules env (m\<lparr>hydrated := True\<rparr>)) = Some r"
  | (kept) "dm_cfg (HydrateLastKnownRules env m) = dm_cfg m" "currentRules (HydrateLastKnownRules env m) = currentRules m"
      "activeBase (HydrateLastKnownRules env m) = activeBase m" "\<not> applying (HydrateLastKnownRules env m)"
      "fst (loadLastKnownRules env (m\<lparr>hydrated := True\<rparr>)) = None \<or> hydrated m \<or> \<not> calm env m"
proof -
  obtain o1 m1 where load: "loadLastKnownRules env (m\<lparr>hydrated := True\<rparr>) = (o1, m1)" by (meson surj_pair)
  note frame = loaded_frame[OF load, simplified]
  show ?thesis
  proof (cases "hydrated m \<or> o1 = None")
    case True
    then show ?thesis using kept assms load frame by (auto simp: HydrateLastKnownRules_def)
  next
    case False
    then obtain r where r: "o1 = Some r" "\<not> hydrated m" by auto
    have "\<not> applying m1" using frame assms by simp
    then show ?thesis
    proof (cases rule: apply_outcome[where env = env and r = r])
      case (applied m2)
      then show ?thesis using that(1)[of r] r load frame by (simp add: HydrateLastKnownRules_def take_effect_def)
    next
      case (failed m2)
      have "\<not> calm env m" using failed(6) apply_steps_calm[of env "m1\<lparr>applying := True\<rparr>" r] frame by auto
      then show ?thesis using that(2) failed r load frame by (simp add: HydrateLastKnownRules_def)
    qed
  qed
qed

section \<open>Promises of an update\<close>

lemma delivery_lands:
  assumes "sc_EnableDynamicRules (dm_cfg m)" "\<not> applying m" "calm env m" "validate r = None"
    and "\<not> hasExpired (dx_now env) (normalize r)" "shouldUpdateRules (normalize r) (checkRuleExpiry (dx_now env) m)"
  shows "fst (UpdateRules env (Inr (Some r)) m) = None
    \<and> currentRules (snd (UpdateRules env (Inr (Some r)) m)) = Some (normalize r)
    \<and> dm_cfg (snd (UpdateRules env (Inr (Some r)) m))
        = BumpRevision (ruled_config env (normalize r) (dm_cfg (checkRuleExpiry (dx_now env) m)))"
  using assms(2)
  by (cases rule: update_outcome[where env = env and fetched = "Inr (Some r)"]) (use assms in \<open>auto simp: due_def\<close>)

definition wt_rule :: DynamicRules where
  "wt_rule =
     \<lparr>dy_RuleID = ''r1'', dy_Version = 1, dy_Timestamp = 0, dy_ExpiresAt = Some 70, dy_TTL = 60,
      dy_IPBlacklist = [''10.0.0.1''], dy_IPWhitelist = [], dy_IPBanDuration = 60, dy_BlockedCountries = [],
      dy_WhitelistCountries = [], dy_GlobalRateLimit = Some 5, dy_GlobalRateWindow = None, dy_EndpointRateLimits = [],
      dy_BlockedCloudProviders = [], dy_BlockedUserAgents = [], dy_SuspiciousPatterns = [],
      dy_EnablePenetrationDetection = None, dy_EnableIPBanning = None, dy_EnableRateLimiting = None,
      dy_AutoBanThreshold = None, dy_AutoBanDuration = None, dy_EnableRateLimitAutoBan = None, dy_EmergencyMode = True,
      dy_EmergencyWhitelist = []\<rparr>"

definition wt_dyn_env :: "real \<Rightarrow> dyn_env" where
  "wt_dyn_env now =
     \<lparr>dx_now = now, dx_ft = wt_float, dx_upper = id, dx_regex = (\<lambda>_. True),
      dx_sus = \<lparr>se_safe = (\<lambda>_. True), se_compiles = (\<lambda>_. True), se_redact = id, se_find = (\<lambda>_ _. None),
        se_panics = (\<lambda>_. False)\<rparr>,
      dx_send = (\<lambda>_. Sent),
      dx_codec = \<lparr>jc_marshal = (\<lambda>_. ''s''), jc_decode = (\<lambda>_. Some \<lparr>lk_SchemaVersion = 1, lk_Rules = wt_rule\<rparr>)\<rparr>,
      dx_readable = True, dx_writable = True\<rparr>"

definition wt_dyn_cfg :: SecurityConfig where
  "wt_dyn_cfg = wt_cfg\<lparr>sc_EnableDynamicRules := True, sc_DynamicRulesCachePath := ''/rules''\<rparr>"

definition wt_dyn :: "unit DynamicRuleManager" where
  "wt_dyn = NewDynamicRuleManager wt_dyn_cfg None () (Some (NewIPBanManager None () [])) (NewSusPatternsManager ()) [] True"

lemma wt_rule_facts:
  "normalize wt_rule = wt_rule" "validate wt_rule = None" "\<not> hasExpired 0 wt_rule" "dy_EmergencyMode wt_rule"
  "dy_IPBlacklist wt_rule = [] @ [''10.0.0.1'']" "dy_IPWhitelist wt_rule = []" "dy_IPBanDuration wt_rule = 60"
  "dy_EmergencyWhitelist wt_rule = []" "dy_ExpiresAt wt_rule = Some 70" "dy_AutoBanThreshold wt_rule = None"
  by (simp_all add: wt_rule_def normalize_def validate_def below_one_def hasExpired_def)

lemma wt_dyn_facts:
  "sc_EnableDynamicRules (dm_cfg wt_dyn)" "\<not> applying wt_dyn" "calm (wt_dyn_env t) wt_dyn" "currentRules wt_dyn = None"
  "checkRuleExpiry t wt_dyn = wt_dyn" "due (wt_dyn_env t) wt_dyn = wt_dyn" "shouldUpdateRules wt_rule wt_dyn"
  "dm_ban wt_dyn = Some (NewIPBanManager None () [])" "dx_now (wt_dyn_env t) = t" "dx_ft (wt_dyn_env t) = wt_float"
  "sc_DynamicRulesCachePath (dm_cfg wt_dyn) = ''/rules''" "\<not> hydrated wt_dyn"
  by (simp_all add: wt_dyn_def NewDynamicRuleManager_def wt_dyn_cfg_def calm_def New_ok NewSusPatternsManager_def
      checkRuleExpiry_def due_def shouldUpdateRules_def wt_dyn_env_def)

lemma wt_lands:
  "fst (UpdateRules (wt_dyn_env 0) (Inr (Some wt_rule)) wt_dyn) = None"
  "currentRules (snd (UpdateRules (wt_dyn_env 0) (Inr (Some wt_rule)) wt_dyn)) = Some wt_rule"
  "dm_cfg (snd (UpdateRules (wt_dyn_env 0) (Inr (Some wt_rule)) wt_dyn))
     = BumpRevision (ruled_config (wt_dyn_env 0) wt_rule wt_dyn_cfg)"
  using delivery_lands[OF wt_dyn_facts(1,2) wt_dyn_facts(3)[of 0], of wt_rule]
  by (simp_all add: wt_rule_facts wt_dyn_facts) (simp add: wt_dyn_def NewDynamicRuleManager_def)

text \<open>A valid, unexpired delivery that is newer than the active rule is applied when no transport panics: the
  update reports no error, the rule becomes the active one and the configuration is the one the rule asks for,
  under a new revision.\<close>

theorem delivery_is_applied:
  assumes "sc_EnableDynamicRules (dm_cfg m)" "\<not> applying m" "calm env m" "validate r = None"
    and "\<not> hasExpired (dx_now env) (normalize r)" "shouldUpdateRules (normalize r) (checkRuleExpiry (dx_now env) m)"
  shows "fst (UpdateRules env (Inr (Some r)) m) = None
    \<and> currentRules (snd (UpdateRules env (Inr (Some r)) m)) = Some (normalize r)
    \<and> dm_cfg (snd (UpdateRules env (Inr (Some r)) m))
        = BumpRevision (ruled_config env (normalize r) (dm_cfg (checkRuleExpiry (dx_now env) m)))"
  by (rule delivery_lands[OF assms])

theorem delivery_is_applied_witness:
  "currentRules (snd (UpdateRules (wt_dyn_env 0) (Inr (Some wt_rule)) wt_dyn)) = Some wt_rule"
  using delivery_is_applied[OF wt_dyn_facts(1,2) wt_dyn_facts(3)[of 0], of wt_rule] by (simp add: wt_rule_facts wt_dyn_facts)

text \<open>C39: An update is all or nothing for the configuration and the active rule: either the delivery is applied
  whole and no error is reported, or both stay what they were once an expired rule is dropped.\<close>

theorem update_all_or_nothing:
  assumes "\<not> applying m"
  shows "dm_cfg (snd (UpdateRules env fetched m)) = dm_cfg (due env m)
      \<and> currentRules (snd (UpdateRules env fetched m)) = currentRules (due env m)
    \<or> (\<exists>r. fetched = Inr (Some r) \<and> fst (UpdateRules env fetched m) = None \<and> validate r = None
        \<and> shouldUpdateRules (normalize r) (due env m)
        \<and> currentRules (snd (UpdateRules env fetched m)) = Some (normalize r)
        \<and> dm_cfg (snd (UpdateRules env fetched m)) = BumpRevision (ruled_config env (normalize r) (dm_cfg (due env m))))"
  using assms by (cases rule: update_outcome[where env = env and fetched = fetched]) auto

theorem update_all_or_nothing_witness:
  "dm_cfg (snd (UpdateRules (wt_dyn_env 0) (Inl ''timeout'') wt_dyn)) = dm_cfg wt_dyn"
  using update_all_or_nothing[OF wt_dyn_facts(2), where env = "wt_dyn_env 0" and fetched = "Inl ''timeout''"]
  by (simp add: wt_dyn_facts)

section \<open>Expiry\<close>

text \<open>Two configurations that agree up to the revision.\<close>

definition same_settings :: "SecurityConfig \<Rightarrow> SecurityConfig \<Rightarrow> bool" where
  "same_settings c d \<longleftrightarrow> c\<lparr>sc_revision := 0\<rparr> = d\<lparr>sc_revision := 0\<rparr>"

lemma same_settings_bump [simp]: "same_settings (BumpRevision c) d = same_settings c d"
  by (simp add: same_settings_def BumpRevision_def)

lemma same_settings_refl [simp]: "same_settings c c"
  by (simp add: same_settings_def)

lemma snapshot_revision: "captureSnapshot (c\<lparr>sc_revision := v\<rparr>) = captureSnapshot c"
  by (simp add: captureSnapshot_def)

lemma same_settings_snapshot: "same_settings c d \<Longrightarrow> captureSnapshot c = captureSnapshot d"
  unfolding same_settings_def by (metis snapshot_revision)

lemma restore_ruled [snapshot_simps]: "restoreSnapshot s (ruled_config env r c) = restoreSnapshot s c"
  by (simp add: ruled_config_def Let_def snapshot_simps)

definition base_kept :: "SecurityConfig \<Rightarrow> 'r DynamicRuleManager \<Rightarrow> bool" where
  "base_kept c0 m \<longleftrightarrow>
     \<not> applying m \<and> same_settings (restoreSnapshot (captureSnapshot c0) (dm_cfg m)) c0
     \<and> activeBase m = map_option (\<lambda>_. captureSnapshot c0) (currentRules m)
     \<and> (currentRules m = None \<longrightarrow> same_settings (dm_cfg m) c0)"

datatype dyn_op = Update dyn_env "string + DynamicRules option" | Hydrate dyn_env

fun dyn_step :: "dyn_op \<Rightarrow> 'r DynamicRuleManager \<Rightarrow> 'r DynamicRuleManager" where
  "dyn_step (Update env fetched) m = snd (UpdateRules env fetched m)"
| "dyn_step (Hydrate env) m = HydrateLastKnownRules env m"

lemma New_base_kept: "base_kept c0 (NewDynamicRuleManager c0 redis r ban sus files bus)"
  by (simp add: base_kept_def NewDynamicRuleManager_def snapshot_simps)

lemma base_kept_due: "base_kept c0 m \<Longrightarrow> base_kept c0 (due env m)"
  by (auto simp: base_kept_def due_def checkRuleExpiry_def Let_def snapshot_simps split: option.split)

lemma base_kept_step: "base_kept c0 m \<Longrightarrow> base_kept c0 (dyn_step opn m)"
proof (cases opn)
  case (Update env fetched)
  assume base: "base_kept c0 m"
  then have "\<not> applying m" by (simp add: base_kept_def)
  then show ?thesis
    by (cases rule: update_outcome[where env = env and fetched = fetched])
      (use Update base_kept_due[OF base, of env] same_settings_snapshot[of "dm_cfg (due env m)" c0]
        in \<open>auto simp: base_kept_def snapshot_simps\<close>)
next
  case (Hydrate env)
  assume base: "base_kept c0 m"
  then have "\<not> applying m" by (simp add: base_kept_def)
  then show ?thesis
    by (cases rule: hydrate_outcome[where env = env])
      (use Hydrate base same_settings_snapshot[of "dm_cfg m" c0] in \<open>auto simp: base_kept_def snapshot_simps\<close>)
qed

lemma base_kept_run: "base_kept c0 (fold dyn_step ops (NewDynamicRuleManager c0 redis r ban sus files bus))"
proof -
  have "base_kept c0 m \<Longrightarrow> base_kept c0 (fold dyn_step ops m)" for m
    by (induction ops arbitrary: m) (auto intro: base_kept_step)
  from this[OF New_base_kept] show ?thesis .
qed

text \<open>C36: An expired rule leaves no trace: after any history of updates and hydrations, a rule touches only settings
  the snapshot holds, and the next update past the expiry puts the configuration the manager was created with
  back, up to its revision, even if several rules replaced one another in between.\<close>

theorem expired_rule_leaves_no_trace:
  assumes "m = fold dyn_step ops (NewDynamicRuleManager c0 redis r ban sus files bus)" "sc_EnableDynamicRules c0"
    and "\<forall>x. currentRules m = Some x \<longrightarrow> hasExpired (dx_now env) x" "\<forall>x. fetched \<noteq> Inr (Some x)"
  shows "same_settings (restoreSnapshot (captureSnapshot c0) (dm_cfg m)) c0
    \<and> same_settings (dm_cfg (snd (UpdateRules env fetched m))) c0
    \<and> currentRules (snd (UpdateRules env fetched m)) = None"
proof -
  have base: "base_kept c0 m" unfolding assms(1) by (rule base_kept_run)
  then have same: "same_settings (restoreSnapshot (captureSnapshot c0) (dm_cfg m)) c0" and idle: "\<not> applying m"
    by (simp_all add: base_kept_def)
  have "sc_EnableDynamicRules (c\<lparr>sc_revision := 0\<rparr>) = sc_EnableDynamicRules c"
    "sc_EnableDynamicRules (restoreSnapshot s c) = sc_EnableDynamicRules c" for s c
    by (simp_all add: restoreSnapshot_def)
  then have on: "sc_EnableDynamicRules (dm_cfg m)" using same assms(2) unfolding same_settings_def by metis
  have "currentRules (due env m) = None" using on assms(3)
    by (auto simp: due_def checkRuleExpiry_def Let_def split: option.split)
  moreover have "dm_cfg (snd (UpdateRules env fetched m)) = dm_cfg (due env m)
      \<and> currentRules (snd (UpdateRules env fetched m)) = currentRules (due env m)"
    using idle by (cases rule: update_outcome[where env = env and fetched = fetched]) (use assms(4) in auto)
  ultimately show ?thesis using base_kept_due[OF base, of env] same by (simp add: base_kept_def)
qed

theorem expired_rule_leaves_no_trace_witness:
  "same_settings (dm_cfg (snd (UpdateRules (wt_dyn_env 80) (Inr None)
     (fold dyn_step [Update (wt_dyn_env 0) (Inr (Some wt_rule))] wt_dyn)))) wt_dyn_cfg"
proof -
  have "sc_EnableDynamicRules wt_dyn_cfg" by (simp add: wt_dyn_cfg_def)
  from expired_rule_leaves_no_trace[OF refl this, of "[Update (wt_dyn_env 0) (Inr (Some wt_rule))]" None "()"
      "Some (NewIPBanManager None () [])" "NewSusPatternsManager ()" "[]" True "wt_dyn_env 80" "Inr None",
      folded wt_dyn_def]
  show ?thesis by (simp add: wt_lands wt_dyn_facts hasExpired_def wt_rule_facts)
qed

section \<open>Restarts\<close>

lemma outside_snapshot [simp]:
  "sc_EnableDynamicRules (restoreSnapshot s c) = sc_EnableDynamicRules c"
  "sc_PassiveMode (restoreSnapshot s c) = sc_PassiveMode c"
  "sc_RouteResolutionStrict (restoreSnapshot s c) = sc_RouteResolutionStrict c"
  "sc_DynamicRulesCachePath (restoreSnapshot s c) = sc_DynamicRulesCachePath c"
  "createErrorResponse (restoreSnapshot s c) st t = createErrorResponse c st t"
  by (simp_all add: restoreSnapshot_def createErrorResponse_def errorResponse_def custom_message_def)

lemma kept_outside: "restoreSnapshot s c = restoreSnapshot s d \<Longrightarrow> (\<And>c. f (restoreSnapshot s c) = f c) \<Longrightarrow> f c = f d"
  by metis

lemma normalize_idem [simp]: "normalize (normalize r) = normalize r"
  by (simp add: normalize_def)

lemma validate_normalize [simp]: "validate (normalize r) = validate r"
  by (simp add: normalize_def validate_def)

text \<open>The coding of the snapshot of these rules is not empty and is read back.\<close>

definition lossless :: "snapshot_codec \<Rightarrow> DynamicRules \<Rightarrow> bool" where
  "lossless jc rules \<longleftrightarrow>
     (let s = \<lparr>lk_SchemaVersion = LastKnownRulesSnapshotSchemaVersion, lk_Rules = normalize rules\<rparr>
      in jc_decode jc (jc_marshal jc s) = Some s \<and> jc_marshal jc s \<noteq> [])"

lemma dump_load:
  "lossless (dx_codec env) r \<Longrightarrow> validate r = None \<Longrightarrow> \<not> hasExpired (dx_now env) (normalize r)
   \<Longrightarrow> usable_rules env (DumpLastKnownRulesSnapshot (dx_codec env) r) = Some (normalize r)"
  by (simp add: usable_rules_def lossless_def DumpLastKnownRulesSnapshot_def LoadLastKnownRulesSnapshot_def Let_def)

lemma persist_files:
  "dm_files (persistLastKnownRules env r n)
     = (if sc_DynamicRulesCachePath (dm_cfg n) = [] then dm_files n
        else writeAtomicFile env (sc_DynamicRulesCachePath (dm_cfg n)) (DumpLastKnownRulesSnapshot (dx_codec env) r) (dm_files n))"
  by (cases "dyn_redis n") (simp_all add: persistLastKnownRules_def Let_def)

lemma applied_file:
  fixes m :: "'r DynamicRuleManager"
  assumes "applyRulesLocked env r m = (None, m1)" "\<not> applying m"
    and "sc_DynamicRulesCachePath (dm_cfg m) \<noteq> []" "dx_writable env"
  shows "map_of (dm_files m1) (sc_DynamicRulesCachePath (dm_cfg m)) = Some (DumpLastKnownRulesSnapshot (dx_codec env) r)"
proof -
  let ?m = "m\<lparr>applying := True\<rparr>"
  obtain m2 where st: "apply_steps env r ?m = (False, m2)"
    using assms(1,2) by (auto simp: applyRulesLocked_def Let_def split: prod.splits bool.splits)
  have "restoreSnapshot (captureSnapshot c) (dm_cfg m2) = restoreSnapshot (captureSnapshot c) (dm_cfg m)" for c
    using apply_steps_frame[of "captureSnapshot c" env r ?m] st by simp
  then have path: "sc_DynamicRulesCachePath (dm_cfg m2) = sc_DynamicRulesCachePath (dm_cfg m)" by (rule kept_outside) simp
  have "map_of (dm_files (persistLastKnownRules env r n)) (sc_DynamicRulesCachePath (dm_cfg m))
      = Some (DumpLastKnownRulesSnapshot (dx_codec env) r)" if "dm_cfg n = dm_cfg m2" for n :: "'r DynamicRuleManager"
    using assms(3,4) path[folded that]
    by (simp add: persist_files writeAtomicFile_def update_conv')
  then show ?thesis using assms(1,2) st by (auto simp: applyRulesLocked_def Let_def)
qed

lemma update_files:
  assumes "sc_EnableDynamicRules (dm_cfg m)" "\<not> applying m" "calm env m" "validate r = None"
    and "\<not> hasExpired (dx_now env) (normalize r)" "shouldUpdateRules (normalize r) (due env m)"
    and "sc_DynamicRulesCachePath (dm_cfg (due env m)) \<noteq> []" "dx_writable env"
  shows "map_of (dm_files (snd (UpdateRules env (Inr (Some r)) m))) (sc_DynamicRulesCachePath (dm_cfg (due env m)))
    = Some (DumpLastKnownRulesSnapshot (dx_codec env) (normalize r))"
proof -
  let ?e = "RulesUpdated (dy_RuleID (normalize r)) (dy_Version (normalize r)) (currentRulesVersion (due env m))"
  let ?m = "sendRuleEvent env ?e (due env m)"
  have m: "\<not> applying ?m" "calm env (?m\<lparr>applying := True\<rparr>)" using assms(2,3) by (simp_all add: due_def expiry_frame)
  obtain m3 where m3: "applyRulesLocked env (normalize r) ?m = (None, m3)"
    using m(1) by (cases rule: apply_outcome[where env = env and r = "normalize r"])
      (use m(2) apply_steps_calm in blast)+
  have "dm_files (snd (UpdateRules env (Inr (Some r)) m)) = dm_files m3"
    using assms(1,4-6) m3 by (simp add: UpdateRules_def due_def Let_def rejectIfAlreadyExpired_def take_effect_def)
  then show ?thesis using applied_file[OF m3 m(1)] assms(7,8) by simp
qed

lemma cache_path_due: "sc_DynamicRulesCachePath (dm_cfg (due env m)) = sc_DynamicRulesCachePath (dm_cfg m)"
  by (simp add: due_def checkRuleExpiry_def Let_def BumpRevision_def restoreSnapshot_def split: option.split)

text \<open>C40: The last rules survive a restart through the cache file: a manager that finds the file the applied
  update wrote, with no usable entry in Redis, starts with the same active rule and with the configuration the
  rule asks for, as long as the rule has not expired meanwhile.\<close>

theorem last_rules_survive_restart:
  assumes "sc_EnableDynamicRules (dm_cfg m)" "\<not> applying m" "calm env m" "validate r = None"
    and "\<not> hasExpired (dx_now env) (normalize r)" "shouldUpdateRules (normalize r) (due env m)"
    and "sc_DynamicRulesCachePath (dm_cfg m) \<noteq> []" "dx_writable env" "lossless (dx_codec env) r"
    and "\<not> hydrated n" "\<not> applying n" "calm env2 n" "dm_files n = dm_files (snd (UpdateRules env (Inr (Some r)) m))"
    and "sc_DynamicRulesCachePath (dm_cfg n) = sc_DynamicRulesCachePath (dm_cfg m)"
    and "usable_rules env2 (fst (readRedisPayload n)) = None" "dx_readable env2" "dx_codec env2 = dx_codec env"
    and "\<not> hasExpired (dx_now env2) (normalize r)"
  shows "currentRules (HydrateLastKnownRules env2 n) = Some (normalize r)
    \<and> dm_cfg (HydrateLastKnownRules env2 n) = BumpRevision (ruled_config env2 (normalize r) (dm_cfg n))"
proof -
  let ?n = "n\<lparr>hydrated := True\<rparr>"
  have stored: "readFilePayload env2 (sc_DynamicRulesCachePath (dm_cfg m)) (dm_files n)
      = DumpLastKnownRulesSnapshot (dx_codec env) (normalize r)"
    using update_files[OF assms(1-6)] assms(7,8,13,16) by (simp add: readFilePayload_def cache_path_due)
  have loaded: "usable_rules env2 (DumpLastKnownRulesSnapshot (dx_codec env) (normalize r)) = Some (normalize r)"
    using dump_load[of env2 "normalize r"] assms(4,9,17,18) by (simp add: lossless_def)
  have "fst (readRedisPayload ?n) = fst (readRedisPayload n)" by (rule payload_hydrated)
  moreover obtain s where "snd (readRedisPayload ?n) = ?n\<lparr>dm_rstate := s\<rparr>" using payload_frame[of ?n] ..
  ultimately have "readRedisPayload ?n = (fst (readRedisPayload n), ?n\<lparr>dm_rstate := s\<rparr>)"
    by (intro prod_eqI) (simp_all only: fst_conv snd_conv)
  then have "fst (loadLastKnownRules env2 ?n) = Some (normalize r)"
    using assms(7,14,15) stored loaded by (simp add: loadLastKnownRules_def)
  then show ?thesis using assms(10-12) by (cases rule: hydrate_outcome[OF assms(11), where env = env2]) auto
qed

theorem last_rules_survive_restart_witness:
  "currentRules (HydrateLastKnownRules (wt_dyn_env 10)
     (wt_dyn\<lparr>dm_files := dm_files (snd (UpdateRules (wt_dyn_env 0) (Inr (Some wt_rule)) wt_dyn))\<rparr>)) = Some wt_rule"
proof -
  let ?n = "wt_dyn\<lparr>dm_files := dm_files (snd (UpdateRules (wt_dyn_env 0) (Inr (Some wt_rule)) wt_dyn))\<rparr>"
  have n: "\<not> hydrated ?n" "\<not> applying ?n" "calm (wt_dyn_env 10) ?n"
    "sc_DynamicRulesCachePath (dm_cfg ?n) = sc_DynamicRulesCachePath (dm_cfg wt_dyn)"
    using wt_dyn_facts by (simp_all add: calm_def)
  have redis: "usable_rules (wt_dyn_env 10) (fst (readRedisPayload ?n)) = None"
    by (simp add: readRedisPayload_def dyn_redis_def wt_dyn_def NewDynamicRuleManager_def usable_rules_def)
  have env: "dx_writable (wt_dyn_env 0)" "lossless (dx_codec (wt_dyn_env 0)) wt_rule" "dx_readable (wt_dyn_env 10)"
    "dx_codec (wt_dyn_env 10) = dx_codec (wt_dyn_env 0)"
    by (simp_all add: wt_dyn_env_def lossless_def wt_rule_facts LastKnownRulesSnapshotSchemaVersion_def)
  show ?thesis
    using last_rules_survive_restart[OF wt_dyn_facts(1-3) _ _ _ _ env(1,2) n(1-3) _ n(4) redis env(3,4)]
    by (simp add: wt_rule_facts wt_dyn_facts hasExpired_def)
qed

section \<open>Emergency mode closes the service\<close>

lemma emergency_first:
  assumes "sc_EmergencyMode c \<or> sc_EnableDynamicRules c"
  obtains rest :: "('q, 'r) SecurityCheck list" where "buildChecks c routes =
     \<lparr>ck_name = ''route_config'', ck_excluded = True,
       ck_body = (\<lambda>cx. routeConfigCheck (cx_cfg cx) (cx_routes cx))\<rparr>
     # \<lparr>ck_name = ''emergency_mode'', ck_excluded = False, ck_body = (\<lambda>cx. emergencyModeCheck (cx_cfg cx))\<rparr> # rest"
  using assms by (auto simp: buildChecks_def check_specs_def spec_def)

lemma bump_outside [simp]:
  "sc_EnableDynamicRules (BumpRevision c) = sc_EnableDynamicRules c" "sc_PassiveMode (BumpRevision c) = sc_PassiveMode c"
  "createErrorResponse (BumpRevision c) st t = createErrorResponse c st t"
  by (simp_all add: BumpRevision_def createErrorResponse_def errorResponse_def custom_message_def)

text \<open>An update that made the rule the active one.\<close>

definition took_over :: "dyn_env \<Rightarrow> DynamicRules \<Rightarrow> 'r DynamicRuleManager \<Rightarrow> bool" where
  "took_over env r m \<longleftrightarrow>
     \<not> applying m \<and> currentRules (due env m) \<noteq> Some (normalize r)
     \<and> currentRules (snd (UpdateRules env (Inr (Some r)) m)) = Some (normalize r)"

lemma took_over_applied:
  assumes "took_over env r m"
  shows "sc_EnableDynamicRules (dm_cfg m)"
    "dm_cfg (snd (UpdateRules env (Inr (Some r)) m)) = BumpRevision (ruled_config env (normalize r) (dm_cfg (due env m)))"
    "\<not> fst (applyIPRules env (normalize r) m)"
    "dm_ban (snd (UpdateRules env (Inr (Some r)) m)) = dm_ban (snd (applyIPRules env (normalize r) m))"
proof -
  have idle: "\<not> applying m" using assms by (simp add: took_over_def)
  then show "sc_EnableDynamicRules (dm_cfg m)"
    "dm_cfg (snd (UpdateRules env (Inr (Some r)) m)) = BumpRevision (ruled_config env (normalize r) (dm_cfg (due env m)))"
    "\<not> fst (applyIPRules env (normalize r) m)"
    "dm_ban (snd (UpdateRules env (Inr (Some r)) m)) = dm_ban (snd (applyIPRules env (normalize r) m))"
    by (cases rule: update_outcome[OF idle, where env = env and fetched = "Inr (Some r)"];
      use assms in \<open>auto simp: took_over_def\<close>)+
qed

lemma emergency_settings:
  assumes "dy_EmergencyMode r"
  shows "sc_EmergencyMode (BumpRevision (ruled_config env (normalize r) c))"
    "sc_EmergencyWhitelist (BumpRevision (ruled_config env (normalize r) c)) = dy_EmergencyWhitelist r"
  using assms by (simp_all add: ruled_config_def Let_def emergency_config_def BumpRevision_def normalize_def)

lemma route_check_passes:
  assumes "\<not> st_RouteUnresolved (w_st w)" "resolveClientIP req (w_st w) \<noteq> []"
  obtains w1 where "routeConfigCheck cfg rg req w = (Inr None, w1)" "st_ClientIP (w_st w1) = resolveClientIP req (w_st w)"
proof -
  have "resolveClientIP req ((w_st w)\<lparr>st_RouteConfig := x\<rparr>) = resolveClientIP req (w_st w)" for x
    by (simp add: resolveClientIP_def)
  then show ?thesis using that assms by (simp add: routeConfigCheck_def Let_def)
qed

lemma emergency_refuses:
  assumes "sc_EmergencyMode cfg" "\<not> sc_PassiveMode cfg" "st_ClientIP (w_st w) \<noteq> []"
    "\<not> ipMatchesList (st_ClientIP (w_st w)) (sc_EmergencyWhitelist cfg)"
  shows "fst (emergencyModeCheck cfg req w) = Inr (Some (createErrorResponse cfg 503 ''Service temporarily unavailable''))"
  using assms by (simp add: emergencyModeCheck_def Let_def passive_or_block_def)

text \<open>C38: An emergency rule closes the service at once: the next request of the pipeline, however it was built
  before the rule arrived, is answered 503 in active mode unless its client is on the rule's emergency list or its
  path is excluded.\<close>

theorem emergency_rule_closes_service:
  fixes p :: "('q, 'r) SecurityCheckPipeline"
  assumes "took_over env r m" "dy_EmergencyMode r"
    and "cx_cfg cx = dm_cfg (snd (UpdateRules env (Inr (Some r)) m))" "\<not> sc_PassiveMode (cx_cfg cx)"
    and "built_for c routes p" "sc_EnableDynamicRules c" "\<not> st_ExclusionScoped (w_st w)" "\<not> st_RouteUnresolved (w_st w)"
    and "resolveClientIP req (w_st w) \<noteq> []" "\<not> ipMatchesList (resolveClientIP req (w_st w)) (dy_EmergencyWhitelist r)"
  shows "fst (Execute cx req p w) = Some (createErrorResponse (cx_cfg cx) 503 ''Service temporarily unavailable'')"
proof -
  let ?p = "rebuildIfStale p (cx_cfg cx) (cx_routes cx)"
  have em: "sc_EmergencyMode (cx_cfg cx)" "sc_EmergencyWhitelist (cx_cfg cx) = dy_EmergencyWhitelist r"
    using took_over_applied(2)[OF assms(1)] assms(3) emergency_settings[OF assms(2)] by simp_all
  obtain c1 routes1 where p: "pl_checks ?p = buildChecks c1 routes1" "sc_EmergencyMode c1 \<or> sc_EnableDynamicRules c1"
    using assms(5,6) em(1) by (cases "isStale p (cx_cfg cx) (cx_routes cx)") (auto simp: rebuildIfStale_def built_for_def)
  obtain rest :: "('q, 'r) SecurityCheck list" where rest: "buildChecks c1 routes1 =
     \<lparr>ck_name = ''route_config'', ck_excluded = True, ck_body = (\<lambda>cx. routeConfigCheck (cx_cfg cx) (cx_routes cx))\<rparr>
     # \<lparr>ck_name = ''emergency_mode'', ck_excluded = False, ck_body = (\<lambda>cx. emergencyModeCheck (cx_cfg cx))\<rparr> # rest"
    using p(2) by (rule emergency_first)
  obtain w1 where w1: "routeConfigCheck (cx_cfg cx) (cx_routes cx) req w = (Inr None, w1)"
    "st_ClientIP (w_st w1) = resolveClientIP req (w_st w)"
    using assms(8,9) by (rule route_check_passes)
  have "fst (emergencyModeCheck (cx_cfg cx) req w1)
      = Inr (Some (createErrorResponse (cx_cfg cx) 503 ''Service temporarily unavailable''))"
    by (rule emergency_refuses) (use em assms(4,9,10) w1(2) in simp_all)
  then show ?thesis using w1(1) assms(7) by (auto simp: Execute_def Let_def p(1) rest split: prod.splits)
qed

lemma wt_took_over: "took_over (wt_dyn_env 0) wt_rule wt_dyn"
  by (simp add: took_over_def wt_dyn_facts wt_lands wt_rule_facts)

theorem emergency_rule_closes_service_witness:
  "fst (Execute (wt_cx (BumpRevision (ruled_config (wt_dyn_env 0) wt_rule wt_dyn_cfg))) (wt_get [])
     (fst (BuildDefaultPipeline wt_dyn_cfg NewRouteRegistry)) wt_world)
   = Some (createErrorResponse (BumpRevision (ruled_config (wt_dyn_env 0) wt_rule wt_dyn_cfg)) 503
       ''Service temporarily unavailable'')"
proof -
  let ?c = "BumpRevision (ruled_config (wt_dyn_env 0) wt_rule wt_dyn_cfg)"
  have "sc_PassiveMode ?c = sc_PassiveMode wt_dyn_cfg"
    by (simp, rule kept_outside[where s = "captureSnapshot wt_dyn_cfg"]) (simp_all add: snapshot_simps)
  then have active: "\<not> sc_PassiveMode (cx_cfg (wt_cx ?c))" by (simp add: wt_cx_def wt_dyn_cfg_def wt_cfg_def)
  have built: "built_for wt_dyn_cfg NewRouteRegistry (fst (BuildDefaultPipeline wt_dyn_cfg NewRouteRegistry))"
    by (simp add: built_for_def BuildDefaultPipeline_def SetRouteRevisionSource_def NewSecurityCheckPipeline_def)
  have "\<not> ipMatchesList ''10.0.0.1'' []" by (simp add: ipMatchesList_def split: option.split)
  moreover have "\<not> st_RouteUnresolved (w_st wt_world)" by (simp add: wt_world_def new_state_def)
  moreover have "cx_cfg (wt_cx ?c) = ?c" "sc_EnableDynamicRules wt_dyn_cfg" by (simp_all add: wt_cx_def wt_dyn_cfg_def)
  ultimately show ?thesis
    using emergency_rule_closes_service[OF wt_took_over wt_rule_facts(4) _ active built, of wt_world "wt_get []"]
    by (simp add: wt_lands wt_state wt_rule_facts)
qed

section \<open>Black lists reach the requests\<close>

lemma ban_ips_last:
  "\<not> fst (ban_ips env d ips b) \<Longrightarrow>
   snd (ban_ips env d (ips @ [ip]) b)
     = snd (Ban (dx_ft env) ip d ''dynamic_rule'' (dx_now env) (snd (ban_ips env d ips b)))"
proof (induction ips arbitrary: b)
  case Nil
  then show ?case by (simp split: prod.split sum.split go_error.split)
next
  case (Cons x xs)
  then show ?case by (auto split: prod.splits sum.splits go_error.splits)
qed



section \<open>Rate limits do not\<close>

text \<open>Two configurations that agree on every setting no rule touches.\<close>

definition same_outside :: "SecurityConfig \<Rightarrow> SecurityConfig \<Rightarrow> bool" where
  "same_outside c d \<longleftrightarrow> (\<forall>s. same_settings (restoreSnapshot s c) (restoreSnapshot s d))"

lemma same_outside_trans: "same_outside c d \<Longrightarrow> same_outside d e \<Longrightarrow> same_outside c e"
  by (simp add: same_outside_def same_settings_def)

lemma update_same_outside:
  assumes "\<not> applying m" shows "same_outside (dm_cfg (snd (UpdateRules env fetched m))) (dm_cfg m)"
proof -
  have due: "same_outside (dm_cfg (due env m)) (dm_cfg m)"
    by (simp add: due_def checkRuleExpiry_def Let_def same_outside_def snapshot_simps split: option.split)
  have ruled: "same_outside (BumpRevision (ruled_config env r c)) c" for r c
    by (simp add: same_outside_def snapshot_simps)
  show ?thesis using assms
    by (cases rule: update_outcome[where env = env and fetched = fetched])
      (use due same_outside_trans[OF ruled due] in simp_all)
qed

lemma same_outside_field:
  assumes "same_outside c d" "\<And>c s. f (restoreSnapshot s c) = f c" "\<And>c v. f (c\<lparr>sc_revision := v\<rparr>) = f c"
  shows "f c = f d"
proof -
  have "(restoreSnapshot (captureSnapshot c) c)\<lparr>sc_revision := 0\<rparr> = (restoreSnapshot (captureSnapshot c) d)\<lparr>sc_revision := 0\<rparr>"
    using assms(1) by (simp add: same_outside_def same_settings_def)
  then have "f ((restoreSnapshot (captureSnapshot c) c)\<lparr>sc_revision := 0\<rparr>)
      = f ((restoreSnapshot (captureSnapshot c) d)\<lparr>sc_revision := 0\<rparr>)" by simp
  then show ?thesis by (simp only: assms(2,3))
qed

lemma bus_keeps_limiter:
  "w_rl (emitBusEvent cfg t a r w) = w_rl w" "w_rl (emitAccessDeniedEvent cfg r w) = w_rl w" "w_rl (stash r t w) = w_rl w"
  "w_rl (firePassiveBlockHook cfg req n r t w) = w_rl w"
  by (simp_all add: emitBusEvent_def emitAccessDeniedEvent_def stash_def firePassiveBlockHook_def fireBlockHook_def Let_def)

lemma emit_keeps_limiter: "w_rl (emitRateLimitEvent env cfg req ip oc w) = w_rl w"
  by (simp add: emitRateLimitEvent_def bus_keeps_limiter Let_def)

lemma rate_check_reads:
  assumes "sc_PassiveMode c = sc_PassiveMode d" "\<And>st t. createErrorResponse c st t = createErrorResponse d st t"
  shows "fst (rateLimitCheck cenv c req w) = fst (rateLimitCheck cenv d req w)
    \<and> w_rl (snd (rateLimitCheck cenv c req w)) = w_rl (snd (rateLimitCheck cenv d req w))"
proof -
  define st where "st = w_st w"
  define w1 where "w1 = (if st_IsWhitelisted st \<or> st_IsExempt st then w else w\<lparr>w_st := snd (HasBypass ''rate_limit'' st)\<rparr>)"
  obtain o1 rl where "CheckRateLimit (en_rl cenv) (resolveClientIP req (w_st w1)) (gr_Path req)
      (routeRateConfigFrom (st_RouteConfig (w_st w1))) None (en_tiers cenv) (w_rl w1) = (o1, rl)"
    by (meson surj_pair)
  then show ?thesis using assms unfolding rateLimitCheck_def Let_def st_def[symmetric] w1_def[symmetric]
    by (cases o1) (simp_all add: emit_keeps_limiter bus_keeps_limiter)
qed

text \<open>No rate limit of a rule reaches the requests: whatever an update delivers, the rate limit check gives the
  same verdict on every request, and the limiter ends in the same state, as under the configuration before it.\<close>

theorem dynamic_limits_not_enforced:
  assumes "\<not> applying m"
  shows "fst (rateLimitCheck cenv (dm_cfg (snd (UpdateRules env fetched m))) req w) = fst (rateLimitCheck cenv (dm_cfg m) req w)
    \<and> w_rl (snd (rateLimitCheck cenv (dm_cfg (snd (UpdateRules env fetched m))) req w))
       = w_rl (snd (rateLimitCheck cenv (dm_cfg m) req w))"
proof (rule rate_check_reads)
  note same = update_same_outside[OF assms, of env fetched]
  show "sc_PassiveMode (dm_cfg (snd (UpdateRules env fetched m))) = sc_PassiveMode (dm_cfg m)"
    by (rule same_outside_field[OF same]) simp_all
  show "createErrorResponse (dm_cfg (snd (UpdateRules env fetched m))) st t = createErrorResponse (dm_cfg m) st t" for st t
    by (rule same_outside_field[OF same]) (simp, simp add: createErrorResponse_def errorResponse_def custom_message_def)
qed

theorem dynamic_limits_not_enforced_witness:
  "fst (rateLimitCheck (wt_check_env 0) (dm_cfg (snd (UpdateRules (wt_dyn_env 0) (Inr (Some wt_rule)) wt_dyn))) (wt_get []) wt_world)
   = fst (rateLimitCheck (wt_check_env 0) wt_dyn_cfg (wt_get []) wt_world)
   \<and> sc_RateLimit (dm_cfg (snd (UpdateRules (wt_dyn_env 0) (Inr (Some wt_rule)) wt_dyn))) = 5"
proof -
  have "dm_cfg wt_dyn = wt_dyn_cfg" by (simp add: wt_dyn_def NewDynamicRuleManager_def)
  moreover have "sc_RateLimit (BumpRevision (ruled_config (wt_dyn_env 0) wt_rule c)) = 5" for c
    by (simp add: ruled_config_def Let_def emergency_config_def BumpRevision_def applyFeatureToggles_def
        applyRateLimitRules_def wt_rule_def)
  ultimately show ?thesis
    using dynamic_limits_not_enforced[OF wt_dyn_facts(2), of "wt_check_env 0" "wt_dyn_env 0" "Inr (Some wt_rule)" "wt_get []" wt_world]
    by (simp add: wt_lands)
qed

section \<open>What a failed or repeated rule leaves behind\<close>

text \<open>A failed application restores the configuration only: the bans the rule brought stay.\<close>

lemma steps_keep_bans: "dm_ban (snd (apply_steps env r m)) = dm_ban (snd (applyIPRules env r m))"
  by (simp add: apply_steps_def then_step_def Let_def activateEmergencyMode_def bus_send_frame applyBlockingRules_frame)

theorem failed_update_keeps_bans:
  assumes "\<not> applying m"
    and "fst (applyRulesLocked env r m) \<noteq> None"
  shows "dm_cfg (snd (applyRulesLocked env r m)) = dm_cfg m
    \<and> dm_ban (snd (applyRulesLocked env r m)) = dm_ban (snd (applyIPRules env r m))"
proof -
  let ?m = "m\<lparr>applying := True\<rparr>"
  obtain m1 where st: "apply_steps env r ?m = (True, m1)"
    using assms by (auto simp: applyRulesLocked_def Let_def split: prod.splits bool.splits)
  have "restoreSnapshot (captureSnapshot (dm_cfg m)) (dm_cfg m1) = dm_cfg m"
    using apply_steps_frame[of "captureSnapshot (dm_cfg m)" env r ?m] st by (simp add: snapshot_simps)
  moreover have "dm_ban m1 = dm_ban (snd (applyIPRules env r m))"
    using steps_keep_bans[of env r ?m] st applyIPRules_sent[of ?m m env r] by simp
  ultimately show ?thesis using assms(1) st by (simp add: applyRulesLocked_def Let_def)
qed

text \<open>A run of emergency versions, each delivered before the one in force expires.\<close>

fun emergency_run :: "(dyn_env \<times> DynamicRules) list \<Rightarrow> 'r DynamicRuleManager \<Rightarrow> bool" where
  "emergency_run [] m \<longleftrightarrow> True"
| "emergency_run ((env, r) # us) m \<longleftrightarrow>
     took_over env r m \<and> due env m = m \<and> dy_EmergencyMode r \<and> dy_AutoBanThreshold r = None
     \<and> emergency_run us (snd (UpdateRules env (Inr (Some r)) m))"

lemma emergency_halves:
  assumes "dy_EmergencyMode r" "dy_AutoBanThreshold r = None"
  shows "sc_AutoBanThreshold (BumpRevision (ruled_config env (normalize r) c)) = max 1 (sc_AutoBanThreshold c div 2)"
proof -
  have "sc_AutoBanThreshold (applyRateLimitRules x d) = sc_AutoBanThreshold d" for x d
    by (simp add: applyRateLimitRules_def Let_def split: option.split)
  moreover have "sc_AutoBanThreshold (blocking_config env x d) = sc_AutoBanThreshold d" for x d
    by (simp add: blocking_config_def country_config_def Let_def)
  ultimately show ?thesis using assms
    by (simp add: ruled_config_def Let_def emergency_config_def BumpRevision_def applyFeatureToggles_def set_or_def normalize_def)
qed

text \<open>Every new version of an emergency rule halves the ban threshold again.\<close>

theorem emergency_versions_compound:
  assumes "emergency_run us m" "1 \<le> sc_AutoBanThreshold (dm_cfg m)"
  shows "sc_AutoBanThreshold (dm_cfg (fold (\<lambda>(env, r) m. snd (UpdateRules env (Inr (Some r)) m)) us m))
    = max 1 (sc_AutoBanThreshold (dm_cfg m) div 2 ^ length us)"
  using assms
proof (induction us arbitrary: m)
  case (Cons u us)
  obtain env r where u: "u = (env, r)" by (meson surj_pair)
  let ?m = "snd (UpdateRules env (Inr (Some r)) m)" and ?t = "sc_AutoBanThreshold (dm_cfg m)"
  have t: "sc_AutoBanThreshold (dm_cfg ?m) = max 1 (?t div 2)"
    using Cons.prems(1) u took_over_applied(2)[of env r m] emergency_halves[of r env "dm_cfg m"] by simp
  have "max 1 (max 1 (?t div 2) div 2 ^ k) = max 1 (?t div 2 ^ Suc k)" for k
  proof (cases "?t div 2 \<ge> 1")
    case True
    then show ?thesis by (simp add: zdiv_zmult2_eq)
  next
    case False
    then have t1: "?t = 1" using Cons.prems(2) by linarith
    have "(1 :: int) div 2 ^ n \<le> 1" for n using zdiv_mono2[of 1 1 "2 ^ n"] by simp
    from this[of "Suc k"] have "max 1 ((1 :: int) div 2 ^ Suc k) = 1" by (rule max_absorb1)
    then show ?thesis by (simp add: t1)
  qed
  then show ?case using Cons.IH[of ?m] Cons.prems(1) u t by simp
qed simp

end
