(* ===== verification/Runes.thy ===== *)
theory Runes
  imports Utf8
begin

text \<open>
  Rune slices of Go: \<open>string(rs)\<close> for a slice of runes, what \<open>[]rune(s)\<close> yields, and how the two compose.
\<close>

definition rune_text :: "nat list \<Rightarrow> string" where
  "rune_text rs = concat (map encode_rune rs)"

lemma scalar3:
  assumes "x \<le> 15" "y < 64" "z < 64" "x = 13 \<longrightarrow> y \<le> 31"
  shows "scalar (x * 4096 + y * 64 + z)"
proof (cases "14 \<le> x")
  case True
  then have "57344 \<le> x * 4096 + y * 64 + z" "x * 4096 + y * 64 + z < 1114112" using assms by linarith+
  then show ?thesis by (simp add: scalar_def)
next
  case False
  have "x * 4096 + y * 64 + z < 55296"
  proof (cases "x = 13")
    case True
    then show ?thesis using assms by simp
  next
    case False
    then have "x \<le> 12" using \<open>\<not> 14 \<le> x\<close> by linarith
    then show ?thesis using assms by linarith
  qed
  then show ?thesis by (simp add: scalar_def)
qed

lemma scalar4:
  assumes "x \<le> 4" "y < 64" "z < 64" "v < 64" "x = 0 \<longrightarrow> 16 \<le> y" "x = 4 \<longrightarrow> y \<le> 15"
  shows "scalar (x * 262144 + y * 4096 + z * 64 + v)"
proof -
  have "57344 \<le> x * 262144 + y * 4096 + z * 64 + v" using assms by (cases x) simp_all
  moreover have "x * 262144 + y * 4096 + z * 64 + v < 1114112"
  proof (cases "x = 4")
    case True
    then show ?thesis using assms by simp
  next
    case False
    then have "x \<le> 3" using assms(1) by linarith
    then show ?thesis using assms by linarith
  qed
  ultimately show ?thesis by (simp add: scalar_def)
qed

lemma decode_scalar: "scalar (fst (decode_rune s))"
proof (cases s)
  case (Cons a r)
  have c: "cont b \<Longrightarrow> byte b - 128 < 64" for b by (auto simp: cont_def)
  have err: "scalar rune_error" by (simp add: scalar_def rune_error_def)
  have "scalar ((byte a - 192) * 64 + (byte b - 128))" if "byte a \<le> 223" "cont b" for b
  proof -
    have "(byte a - 192) * 64 + (byte b - 128) < 55296" using that(1) c[OF that(2)] by linarith
    then show ?thesis by (simp add: scalar_def)
  qed
  moreover have "scalar ((byte a - 224) * 4096 + (byte b - 128) * 64 + (byte d - 128))"
    if "byte a \<le> 239" "224 \<le> byte a" "cont b" "cont d" "byte a = 237 \<longrightarrow> byte b \<le> 159" for b d
    by (rule scalar3) (use that c in auto)
  moreover have "scalar ((byte a - 240) * 262144 + (byte b - 128) * 4096 + (byte d - 128) * 64 + (byte e - 128))"
    if "byte a \<le> 244" "240 \<le> byte a" "cont b" "cont d" "cont e" "byte a = 240 \<longrightarrow> 144 \<le> byte b" "byte a = 244 \<longrightarrow> byte b \<le> 143"
    for b d e
    by (rule scalar4) (use that c in auto)
  moreover have "scalar (byte a)" if "byte a < 128" using that by (simp add: scalar_def)
  ultimately show ?thesis using err by (auto simp: Cons decode_rune.simps Let_def split: list.split)
qed (simp add: scalar_def rune_error_def)

lemma runes_scalar: "r \<in> set (runes s) \<Longrightarrow> scalar r"
proof (induction s rule: runes.induct)
  case (1 s)
  then show ?case using decode_scalar[of s] by (subst (asm) (2) runes.simps) (auto split: if_splits)
qed

lemma rune_text_scalars: "\<forall>r \<in> set rs. scalar r \<Longrightarrow> rune_text rs = concat (map encode_scalar rs)"
  by (simp add: rune_text_def encode_rune_def cong: map_cong)

lemma runes_rune_text:
  assumes "\<forall>r \<in> set rs. scalar r"
  shows "runes (rune_text rs) = rs"
  using assms by (simp add: rune_text_scalars runes_encode)

text \<open>An ASCII text is the encoding of its bytes.\<close>

lemma rune_text_ascii: "\<forall>c \<in> set s. byte c < 128 \<Longrightarrow> rune_text (map of_char s) = s"
  by (induction s) (auto simp: rune_text_def encode_rune_def encode_scalar_def scalar_def)

lemma rune_text_Nil: "rune_text [] = []"
  by (simp add: rune_text_def)

lemma rune_text_append: "rune_text (xs @ ys) = rune_text xs @ rune_text ys"
  by (simp add: rune_text_def)

lemma rune_text_Cons: "scalar r \<Longrightarrow> rune_text (r # rs) = encode_scalar r @ rune_text rs"
  by (simp add: rune_text_def encode_rune_def)

lemma runes_ascii: "\<forall>c \<in> set s. byte c < 128 \<Longrightarrow> runes s = map byte s"
  using rune_text_ascii[of s] runes_rune_text[of "map byte s"] by (fastforce simp: scalar_def)

lemma char_of_iff: "n < 256 \<Longrightarrow> char_of n = c \<longleftrightarrow> byte c = (n :: nat)"
  by auto

section \<open>Collapsing white space\<close>

text \<open>The loop that writes one blank for a run of white space, once another rune follows.\<close>

fun squeeze :: "bool \<Rightarrow> nat list \<Rightarrow> nat list" where
  "squeeze inSpace [] = []"
| "squeeze inSpace (r # rs) =
     (if is_space r then squeeze True rs else (if inSpace then [32] else []) @ r # squeeze False rs)"

lemma squeeze_runes: "r \<in> set (squeeze b rs) \<Longrightarrow> r = 32 \<or> (\<not> is_space r \<and> r \<in> set rs)"
  by (induction b rs rule: squeeze.induct) (auto split: if_splits)

lemma squeeze_last: "squeeze b rs \<noteq> [] \<Longrightarrow> last (squeeze b rs) \<noteq> 32"
  by (induction b rs rule: squeeze.induct) (auto simp: is_space_def split: if_splits)

lemma squeeze_singles:
  "successively (\<lambda>x y. \<not> (x = 32 \<and> y = 32)) (squeeze b rs)
   \<and> (\<not> b \<and> rs \<noteq> [] \<and> \<not> is_space (hd rs) \<longrightarrow> hd (squeeze b rs) \<noteq> 32)"
proof (induction b rs rule: squeeze.induct)
  case (2 b r rs)
  show ?case
  proof (cases "is_space r")
    case False
    then have r: "r \<noteq> 32" by (auto simp: is_space_def)
    have "successively (\<lambda>x y. \<not> (x = 32 \<and> y = 32)) (r # squeeze False rs)"
      using 2(2)[OF False] r by (cases "squeeze False rs") auto
    then show ?thesis using False r by simp
  qed (use 2 in simp)
qed simp

end
