(* ===== verification/PerfMonitor.thy ===== *)
theory PerfMonitor
  imports Runes Dicts "HOL-Library.Multiset"
begin

text \<open>
  The performance monitor of the detection engine: \<open>guardcore/performance_monitor.go\<close>. A Go \<open>float64\<close> is a
  \<open>real\<close>, with \<open>None\<close> for the \<open>+Inf\<close> a minimum starts at; each call is given its clock readings. The agent is a
  function that says whether a send fails, a callback one that says with which message it panics, if it does; what
  was sent and which callbacks ran is the output of a call. The redactor of a pattern source, the SHA-256
  prefix and \<open>strings.ToLower\<close> are parameters, log lines are left out.
\<close>

section \<open>Observations, statistics and anomalies\<close>

record PerformanceMetric =
  mt_Pattern :: string
  mt_ExecutionTime :: real
  mt_ContentLength :: int
  mt_Timestamp :: real
  mt_Matched :: bool
  mt_Timeout :: bool

record PatternStats =
  ps_Pattern :: string
  ps_TotalExecutions :: int
  ps_TotalMatches :: int
  ps_TotalTimeouts :: int
  ps_AvgExecutionTime :: real
  ps_MaxExecutionTime :: real
  ps_MinExecutionTime :: "real option"
  ps_RecentTimes :: "real list"
  ps_LastAnomalyEmittedAt :: real
  ps_HasEmittedAnomaly :: bool

record PerformanceMonitorOptions =
  op_AnomalyThreshold :: real
  op_SlowPatternThreshold :: real
  op_HistorySize :: int
  op_MaxTrackedPatterns :: int
  op_AnomalyEmissionCooldown :: real
  op_MinSamplesForAnomaly :: int

definition DefaultPerformanceMonitorOptions :: PerformanceMonitorOptions where
  "DefaultPerformanceMonitorOptions =
     \<lparr>op_AnomalyThreshold = 3, op_SlowPatternThreshold = 1 / 10, op_HistorySize = 1000, op_MaxTrackedPatterns = 1000,
      op_AnomalyEmissionCooldown = 60, op_MinSamplesForAnomaly = 30\<rparr>"

datatype anomaly_kind = AnomalyTimeout | AnomalySlowExecution | AnomalyStatisticalAnomaly

definition kind_text :: "anomaly_kind \<Rightarrow> string" where
  "kind_text k = (case k of
     AnomalyTimeout \<Rightarrow> ''timeout'' | AnomalySlowExecution \<Rightarrow> ''slow_execution''
   | AnomalyStatisticalAnomaly \<Rightarrow> ''statistical_anomaly'')"

record Anomaly =
  an_Type :: anomaly_kind
  an_Pattern :: string
  an_ContentLength :: int
  an_ExecutionTime :: real
  an_ZScore :: real
  an_AvgTime :: real
  an_StdTime :: real

datatype meta_value = MText string | MInt int | MReal real

definition anomaly_fields :: "Anomaly \<Rightarrow> (string \<times> meta_value) list" where
  "anomaly_fields a =
     [(''type'', MText (kind_text (an_Type a))), (''pattern'', MText (an_Pattern a))]
     @ (case an_Type a of
          AnomalyTimeout \<Rightarrow> [(''content_length'', MInt (an_ContentLength a))]
        | AnomalySlowExecution \<Rightarrow>
            [(''execution_time'', MReal (an_ExecutionTime a)), (''content_length'', MInt (an_ContentLength a))]
        | AnomalyStatisticalAnomaly \<Rightarrow>
            [(''execution_time'', MReal (an_ExecutionTime a)), (''z_score'', MReal (an_ZScore a)),
             (''avg_time'', MReal (an_AvgTime a)), (''std_time'', MReal (an_StdTime a))])"

definition anomalyEventType :: "anomaly_kind \<Rightarrow> string" where
  "anomalyEventType k = (case k of
     AnomalyTimeout \<Rightarrow> ''pattern_anomaly_timeout'' | AnomalySlowExecution \<Rightarrow> ''pattern_anomaly_slow_execution''
   | AnomalyStatisticalAnomaly \<Rightarrow> ''pattern_anomaly_statistical_anomaly'')"

record AnomalyEvent =
  ae_EventType :: string
  ae_IPAddress :: string
  ae_ActionTaken :: string
  ae_Reason :: string
  ae_Metadata :: "(string \<times> meta_value) list"

section \<open>The monitor\<close>

type_synonym sanitized = "(string \<times> meta_value) list"

record mon_env =
  mn_redact :: "string \<Rightarrow> string"
  mn_hash :: "string \<Rightarrow> string"

record PerformanceMonitor =
  anomalyThreshold :: real
  slowPatternThreshold :: real
  historySize :: int
  maxTrackedPatterns :: int
  anomalyEmissionCooldown :: real
  minSamplesForAnomaly :: int
  recentTimesWindow :: int
  patternStats :: "(string \<times> PatternStats) list"
  insertionOrder :: "string list"
  recentMetrics :: "PerformanceMetric list"
  anomalyCallbacks :: "(sanitized \<Rightarrow> string option) list"

definition clampFloat :: "real \<Rightarrow> real \<Rightarrow> real \<Rightarrow> real" where
  "clampFloat v lo hi = (if v < lo then lo else if v > hi then hi else v)"

definition clampInt :: "int \<Rightarrow> int \<Rightarrow> int \<Rightarrow> int" where
  "clampInt v lo hi = (if v < lo then lo else if v > hi then hi else v)"

definition NewPerformanceMonitor :: "PerformanceMonitorOptions \<Rightarrow> PerformanceMonitor" where
  "NewPerformanceMonitor opts =
     (let minSamples = clampInt (op_MinSamplesForAnomaly opts) 10 1000 in
      \<lparr>anomalyThreshold = clampFloat (op_AnomalyThreshold opts) 1 10,
       slowPatternThreshold = clampFloat (op_SlowPatternThreshold opts) (1 / 100) 10,
       historySize = clampInt (op_HistorySize opts) 100 10000,
       maxTrackedPatterns = clampInt (op_MaxTrackedPatterns opts) 100 5000,
       anomalyEmissionCooldown = clampFloat (op_AnomalyEmissionCooldown opts) 1 3600,
       minSamplesForAnomaly = minSamples,
       recentTimesWindow = (if minSamples < 100 then 100 else minSamples),
       patternStats = [], insertionOrder = [], recentMetrics = [], anomalyCallbacks = []\<rparr>)"

definition truncatePatternName :: "string \<Rightarrow> string" where
  "truncatePatternName pattern =
     (let rs = runes pattern in
      if length rs \<le> 100 then pattern else rune_text (take 100 rs) @ ''...[truncated]'')"

definition displayTruncate :: "string \<Rightarrow> string" where
  "displayTruncate pattern =
     (let rs = runes pattern in if length rs \<le> 50 then pattern else rune_text (take 50 rs) @ ''...'')"

record MetricObservation =
  ob_Pattern :: string
  ob_ExecutionTime :: real
  ob_ContentLength :: int
  ob_Matched :: bool
  ob_Timeout :: bool
  ob_Agent :: "(AnomalyEvent \<Rightarrow> bool) option"
  ob_CorrelationID :: string

fun sum_from :: "real \<Rightarrow> real list \<Rightarrow> real" where
  "sum_from acc [] = acc"
| "sum_from acc (v # vs) = sum_from (acc + v) vs"

definition meanOf :: "real list \<Rightarrow> real" where
  "meanOf values = (if values = [] then 0 else sum_from 0 values / real (length values))"

text \<open>Dropping the overflow at the front, \<open>xs[overflow:]\<close>.\<close>

definition keep_last :: "int \<Rightarrow> 'a list \<Rightarrow> 'a list" where
  "keep_last n xs = (let overflow = int (length xs) - n in if overflow > 0 then drop (nat overflow) xs else xs)"

definition metric_of :: "real \<Rightarrow> MetricObservation \<Rightarrow> PerformanceMetric" where
  "metric_of now obs =
     \<lparr>mt_Pattern = truncatePatternName (ob_Pattern obs),
      mt_ExecutionTime = (if ob_ExecutionTime obs < 0 then 0 else ob_ExecutionTime obs),
      mt_ContentLength = (if ob_ContentLength obs < 0 then 0 else ob_ContentLength obs),
      mt_Timestamp = now, mt_Matched = ob_Matched obs, mt_Timeout = ob_Timeout obs\<rparr>"

definition new_stats :: "string \<Rightarrow> PatternStats" where
  "new_stats pattern =
     \<lparr>ps_Pattern = pattern, ps_TotalExecutions = 0, ps_TotalMatches = 0, ps_TotalTimeouts = 0, ps_AvgExecutionTime = 0,
      ps_MaxExecutionTime = 0, ps_MinExecutionTime = None, ps_RecentTimes = [], ps_LastAnomalyEmittedAt = 0,
      ps_HasEmittedAnomaly = False\<rparr>"

text \<open>The entry of the pattern, created after the first-inserted one made room; \<open>None\<close> is the panic of
  \<open>insertionOrder[0]\<close> on an empty order.\<close>

definition track :: "string \<Rightarrow> PerformanceMonitor \<Rightarrow> PerformanceMonitor option" where
  "track pattern m =
     (if map_of (patternStats m) pattern \<noteq> None then Some m
      else
        (let add = (\<lambda>n. n\<lparr>patternStats := AList.update pattern (new_stats pattern) (patternStats n),
                          insertionOrder := insertionOrder n @ [pattern]\<rparr>)
         in if int (length (patternStats m)) \<ge> maxTrackedPatterns m then
              (case insertionOrder m of
                 [] \<Rightarrow> None
               | oldest # order \<Rightarrow>
                   Some (add (m\<lparr>insertionOrder := order, patternStats := AList.delete oldest (patternStats m)\<rparr>)))
            else Some (add m)))"

definition sample :: "int \<Rightarrow> PerformanceMetric \<Rightarrow> PatternStats \<Rightarrow> PatternStats" where
  "sample window metric s0 =
     (let s = s0\<lparr>ps_TotalExecutions := ps_TotalExecutions s0 + 1,
                 ps_TotalMatches := (if mt_Matched metric then ps_TotalMatches s0 + 1 else ps_TotalMatches s0)\<rparr>;
          t = mt_ExecutionTime metric
      in if mt_Timeout metric then s\<lparr>ps_TotalTimeouts := ps_TotalTimeouts s + 1\<rparr>
         else
           (let recent = keep_last window (ps_RecentTimes s @ [t]) in
            s\<lparr>ps_RecentTimes := recent,
              ps_MaxExecutionTime := (if t > ps_MaxExecutionTime s then t else ps_MaxExecutionTime s),
              ps_MinExecutionTime :=
                (case ps_MinExecutionTime s of
                   None \<Rightarrow> Some t
                 | Some low \<Rightarrow> Some (if t < low then t else low)),
              ps_AvgExecutionTime := meanOf recent\<rparr>))"

definition DetectTimeoutAnomaly :: "PerformanceMetric \<Rightarrow> Anomaly option" where
  "DetectTimeoutAnomaly metric =
     (if mt_Timeout metric then
        Some \<lparr>an_Type = AnomalyTimeout, an_Pattern = mt_Pattern metric, an_ContentLength = mt_ContentLength metric,
              an_ExecutionTime = 0, an_ZScore = 0, an_AvgTime = 0, an_StdTime = 0\<rparr>
      else None)"

definition DetectSlowExecutionAnomaly :: "PerformanceMetric \<Rightarrow> real \<Rightarrow> Anomaly option" where
  "DetectSlowExecutionAnomaly metric threshold =
     (if \<not> mt_Timeout metric \<and> mt_ExecutionTime metric > threshold then
        Some \<lparr>an_Type = AnomalySlowExecution, an_Pattern = mt_Pattern metric, an_ContentLength = mt_ContentLength metric,
              an_ExecutionTime = mt_ExecutionTime metric, an_ZScore = 0, an_AvgTime = 0, an_StdTime = 0\<rparr>
      else None)"

definition variance_of :: "real list \<Rightarrow> real" where
  "variance_of recent =
     sum_from 0 (map (\<lambda>t. (t - meanOf recent) * (t - meanOf recent)) recent) / real (length recent - 1)"

definition detectStatisticalAnomalyLocked :: "PerformanceMetric \<Rightarrow> PerformanceMonitor \<Rightarrow> Anomaly option" where
  "detectStatisticalAnomalyLocked metric m =
     (case map_of (patternStats m) (mt_Pattern metric) of
        None \<Rightarrow> None
      | Some stats \<Rightarrow>
          (let recent = ps_RecentTimes stats; avg = meanOf recent; t = mt_ExecutionTime metric in
           if int (length recent) < minSamplesForAnomaly m \<or> length recent < 2 \<or> t \<le> avg then None
           else
             (let std = sqrt (variance_of recent) in
              if std \<le> 0 then None
              else if (t - avg) / std > anomalyThreshold m then
                Some \<lparr>an_Type = AnomalyStatisticalAnomaly, an_Pattern = mt_Pattern metric, an_ContentLength = 0,
                      an_ExecutionTime = t, an_ZScore = (t - avg) / std, an_AvgTime = avg, an_StdTime = std\<rparr>
              else None)))"

section \<open>Dispatch of anomalies\<close>

definition put :: "string \<Rightarrow> meta_value \<Rightarrow> (string \<times> meta_value) list \<Rightarrow> (string \<times> meta_value) list" where
  "put k v fs = AList.update k v fs"

definition SanitizeAnomalyData :: "mon_env \<Rightarrow> Anomaly \<Rightarrow> sanitized" where
  "SanitizeAnomalyData env a =
     (let redacted = mn_redact env (an_Pattern a) in
      put ''pattern_hash'' (MText (mn_hash env redacted))
        (put ''pattern'' (MText (displayTruncate redacted)) (anomaly_fields a)))"

definition BuildAnomalyEventData :: "mon_env \<Rightarrow> Anomaly \<Rightarrow> string \<Rightarrow> AnomalyEvent" where
  "BuildAnomalyEventData env a correlationID =
     \<lparr>ae_EventType = anomalyEventType (an_Type a), ae_IPAddress = ''system'', ae_ActionTaken = ''anomaly_detected'',
      ae_Reason = ''Pattern performance anomaly: '' @ kind_text (an_Type a),
      ae_Metadata = [(''component'', MText ''PerformanceMonitor''), (''correlation_id'', MText correlationID)]
        @ put ''pattern'' (MText (mn_redact env (an_Pattern a))) (anomaly_fields a)\<rparr>"

definition BuildCallbackErrorEventData :: "string \<Rightarrow> sanitized \<Rightarrow> string \<Rightarrow> AnomalyEvent" where
  "BuildCallbackErrorEventData err safe correlationID =
     (let kind = (case map_of safe ''type'' of Some (MText t) \<Rightarrow> if t \<noteq> [] then t else ''unknown'' | _ \<Rightarrow> ''unknown'') in
      \<lparr>ae_EventType = ''detection_engine_callback_error'', ae_IPAddress = ''system'', ae_ActionTaken = ''logged'',
       ae_Reason = ''Anomaly callback failed: '' @ err,
       ae_Metadata = [(''component'', MText ''PerformanceMonitor''), (''correlation_id'', MText correlationID),
         (''callback_error'', MText err), (''anomaly_type'', MText kind)]\<rparr>)"

text \<open>What left the monitor, in order; a failed send is logged and leaves nothing.\<close>

datatype outgoing = AgentEvent AnomalyEvent | CallbackRun nat sanitized

definition send_event :: "(AnomalyEvent \<Rightarrow> bool) option \<Rightarrow> AnomalyEvent \<Rightarrow> outgoing list" where
  "send_event agent e = (case agent of None \<Rightarrow> [] | Some fails \<Rightarrow> if fails e then [] else [AgentEvent e])"

definition sendAnomalyEvent :: "mon_env \<Rightarrow> Anomaly \<Rightarrow> (AnomalyEvent \<Rightarrow> bool) option \<Rightarrow> string \<Rightarrow> outgoing list" where
  "sendAnomalyEvent env a agent correlationID = send_event agent (BuildAnomalyEventData env a correlationID)"

definition runAnomalyCallback ::
  "nat \<times> (sanitized \<Rightarrow> string option) \<Rightarrow> sanitized \<Rightarrow> (AnomalyEvent \<Rightarrow> bool) option \<Rightarrow> string \<Rightarrow> outgoing list" where
  "runAnomalyCallback callback safe agent correlationID =
     CallbackRun (fst callback) safe
     # (case snd callback safe of
          None \<Rightarrow> []
        | Some err \<Rightarrow> send_event agent (BuildCallbackErrorEventData err safe correlationID))"

definition notifyCallbacks ::
  "mon_env \<Rightarrow> Anomaly \<Rightarrow> (AnomalyEvent \<Rightarrow> bool) option \<Rightarrow> string \<Rightarrow> PerformanceMonitor \<Rightarrow> outgoing list" where
  "notifyCallbacks env a agent correlationID m =
     concat (map (\<lambda>cb. runAnomalyCallback cb (SanitizeAnomalyData env a) agent correlationID)
       (enumerate 0 (anomalyCallbacks m)))"

definition reserveAnomalyEmission :: "string \<Rightarrow> real \<Rightarrow> PerformanceMonitor \<Rightarrow> bool \<times> PerformanceMonitor" where
  "reserveAnomalyEmission pattern now m =
     (case map_of (patternStats m) pattern of
        None \<Rightarrow> (True, m)
      | Some s \<Rightarrow>
          (if ps_HasEmittedAnomaly s \<and> now - ps_LastAnomalyEmittedAt s < anomalyEmissionCooldown m then (False, m)
           else
             (True, m\<lparr>patternStats :=
                AList.update pattern (s\<lparr>ps_LastAnomalyEmittedAt := now, ps_HasEmittedAnomaly := True\<rparr>) (patternStats m)\<rparr>)))"

definition found_anomalies :: "PerformanceMetric \<Rightarrow> Anomaly option \<Rightarrow> PerformanceMonitor \<Rightarrow> Anomaly list" where
  "found_anomalies metric statistical m =
     (case DetectTimeoutAnomaly metric of
        Some a \<Rightarrow> [a]
      | None \<Rightarrow> (case DetectSlowExecutionAnomaly metric (slowPatternThreshold m) of Some a \<Rightarrow> [a] | None \<Rightarrow> []))
     @ (case statistical of Some a \<Rightarrow> [a] | None \<Rightarrow> [])"

definition checkAnomalies ::
  "mon_env \<Rightarrow> PerformanceMetric \<Rightarrow> Anomaly option \<Rightarrow> (AnomalyEvent \<Rightarrow> bool) option \<Rightarrow> string \<Rightarrow> real
     \<Rightarrow> PerformanceMonitor \<Rightarrow> outgoing list \<times> PerformanceMonitor" where
  "checkAnomalies env metric statistical agent correlationID now m =
     (let anomalies = found_anomalies metric statistical m;
          (emit, m1) = (if agent \<noteq> None \<and> anomalies \<noteq> [] then reserveAnomalyEmission (mt_Pattern metric) now m else (False, m))
      in ((if emit then concat (map (\<lambda>a. sendAnomalyEvent env a agent correlationID) anomalies) else [])
            @ concat (map (\<lambda>a. notifyCallbacks env a agent correlationID m1) anomalies), m1))"

text \<open>The state after the locked part of \<open>RecordMetric\<close>, then the whole call, with the two clock readings.\<close>

definition record_locked :: "PerformanceMetric \<Rightarrow> PerformanceMonitor \<Rightarrow> PerformanceMonitor option" where
  "record_locked metric m =
     (case track (mt_Pattern metric) (m\<lparr>recentMetrics := keep_last (historySize m) (recentMetrics m @ [metric])\<rparr>) of
        None \<Rightarrow> None
      | Some n \<Rightarrow>
          Some (n\<lparr>patternStats := map (\<lambda>(k, s). (k, if k = mt_Pattern metric then sample (recentTimesWindow n) metric s else s))
                   (patternStats n)\<rparr>))"

definition RecordMetric ::
  "mon_env \<Rightarrow> MetricObservation \<Rightarrow> real \<Rightarrow> real \<Rightarrow> PerformanceMonitor \<Rightarrow> (outgoing list \<times> PerformanceMonitor) option" where
  "RecordMetric env obs t1 t2 m =
     (let metric = metric_of t1 obs in
      case record_locked metric m of
        None \<Rightarrow> None
      | Some n \<Rightarrow>
          Some (checkAnomalies env metric (detectStatisticalAnomalyLocked metric n) (ob_Agent obs) (ob_CorrelationID obs) t2 n))"

section \<open>Reports\<close>

record PatternReport =
  pr_Pattern :: string
  pr_PatternHash :: string
  pr_TotalExecutions :: int
  pr_TotalMatches :: int
  pr_TotalTimeouts :: int
  pr_MatchRate :: real
  pr_TimeoutRate :: real
  pr_AvgExecutionTime :: real
  pr_MaxExecutionTime :: real
  pr_MinExecutionTime :: real

text \<open>\<open>math.Round\<close> rounds half away from zero.\<close>

definition math_round :: "real \<Rightarrow> real" where
  "math_round v = (if v \<ge> 0 then of_int \<lfloor>v + 1 / 2\<rfloor> else - of_int \<lfloor>- v + 1 / 2\<rfloor>)"

definition round4 :: "real \<Rightarrow> real" where
  "round4 v = math_round (v * 10000) / 10000"

definition buildPatternReport :: "mon_env \<Rightarrow> string \<Rightarrow> PatternStats \<Rightarrow> PatternReport" where
  "buildPatternReport env pattern stats =
     (let redacted = mn_redact env pattern;
          low = (case ps_MinExecutionTime stats of None \<Rightarrow> 0 | Some v \<Rightarrow> v);
          executions = (if ps_TotalExecutions stats < 1 then 1 else ps_TotalExecutions stats)
      in \<lparr>pr_Pattern = displayTruncate redacted, pr_PatternHash = mn_hash env redacted,
          pr_TotalExecutions = ps_TotalExecutions stats, pr_TotalMatches = ps_TotalMatches stats,
          pr_TotalTimeouts = ps_TotalTimeouts stats,
          pr_MatchRate = of_int (ps_TotalMatches stats) / of_int executions,
          pr_TimeoutRate = of_int (ps_TotalTimeouts stats) / of_int executions,
          pr_AvgExecutionTime = round4 (ps_AvgExecutionTime stats),
          pr_MaxExecutionTime = round4 (ps_MaxExecutionTime stats), pr_MinExecutionTime = round4 low\<rparr>)"

definition GetPatternReport :: "mon_env \<Rightarrow> string \<Rightarrow> PerformanceMonitor \<Rightarrow> PatternReport option" where
  "GetPatternReport env pattern m =
     (let name = truncatePatternName pattern in
      map_option (buildPatternReport env name) (map_of (patternStats m) name))"

text \<open>The exchange sort of \<open>GetSlowPatterns\<close>: one pass of the inner loop brings the greatest entry of the rest to
  the front. The order on names is the byte order of Go's strings.\<close>

fun name_less :: "string \<Rightarrow> string \<Rightarrow> bool" where
  "name_less [] [] = False"
| "name_less [] (_ # _) = True"
| "name_less (_ # _) [] = False"
| "name_less (x # xs) (y # ys) = (byte x < byte y \<or> (x = y \<and> name_less xs ys))"

definition slower :: "real \<times> string \<Rightarrow> real \<times> string \<Rightarrow> bool" where
  "slower b a \<longleftrightarrow> fst b > fst a \<or> (fst b = fst a \<and> name_less (snd a) (snd b))"

fun inner_pass :: "real \<times> string \<Rightarrow> (real \<times> string) list \<Rightarrow> (real \<times> string) \<times> (real \<times> string) list" where
  "inner_pass a [] = (a, [])"
| "inner_pass a (b # bs) =
     (if slower b a then (let r = inner_pass b bs in (fst r, a # snd r))
      else (let r = inner_pass a bs in (fst r, b # snd r)))"

lemma inner_pass_length: "length (snd (inner_pass a bs)) = length bs"
  by (induction a bs rule: inner_pass.induct) (auto simp: Let_def)

function exchange_sort :: "(real \<times> string) list \<Rightarrow> (real \<times> string) list" where
  "exchange_sort [] = []"
| "exchange_sort (a # bs) = fst (inner_pass a bs) # exchange_sort (snd (inner_pass a bs))"
  by pat_completeness auto
termination
  by (relation "measure length") (simp_all add: inner_pass_length)

fun take_reports :: "mon_env \<Rightarrow> nat \<Rightarrow> (real \<times> string) list \<Rightarrow> PerformanceMonitor \<Rightarrow> PatternReport list" where
  "take_reports env limit [] m = []"
| "take_reports env limit (e # es) m =
     (if limit = 0 then []
      else
        (case GetPatternReport env (snd e) m of
           None \<Rightarrow> take_reports env limit es m
         | Some r \<Rightarrow> r # take_reports env (limit - 1) es m))"

definition timed_patterns :: "PerformanceMonitor \<Rightarrow> (real \<times> string) list" where
  "timed_patterns m =
     List.map_filter (\<lambda>p. case map_of (patternStats m) p of
         None \<Rightarrow> None
       | Some s \<Rightarrow> if ps_RecentTimes s = [] then None else Some (ps_AvgExecutionTime s, p)) (insertionOrder m)"

definition GetSlowPatterns :: "mon_env \<Rightarrow> int \<Rightarrow> PerformanceMonitor \<Rightarrow> PatternReport list" where
  "GetSlowPatterns env limit m = take_reports env (nat limit) (exchange_sort (timed_patterns m)) m"

definition issue_of :: "real \<Rightarrow> PatternStats \<Rightarrow> string option" where
  "issue_of threshold s =
     (if ps_TotalExecutions s = 0 then None
      else if of_int (ps_TotalTimeouts s) / of_int (ps_TotalExecutions s) > (1 / 10 :: real) then Some ''high_timeout_rate''
      else if ps_AvgExecutionTime s > threshold then Some ''consistently_slow''
      else None)"

definition GetProblematicPatterns :: "mon_env \<Rightarrow> PerformanceMonitor \<Rightarrow> (PatternReport \<times> string) list" where
  "GetProblematicPatterns env m =
     List.map_filter (\<lambda>p. case map_of (patternStats m) p of
         None \<Rightarrow> None
       | Some s \<Rightarrow>
           (case (issue_of (slowPatternThreshold m) s, GetPatternReport env p m) of
              (Some issue, Some r) \<Rightarrow> Some (r, issue)
            | _ \<Rightarrow> None)) (insertionOrder m)"

record SummaryStats =
  su_TotalExecutions :: nat
  su_AvgExecutionTime :: real
  su_MaxExecutionTime :: real
  su_MinExecutionTime :: real
  su_TimeoutRate :: real
  su_MatchRate :: real
  su_TotalPatterns :: nat

definition EmptySummaryStats :: SummaryStats where
  "EmptySummaryStats =
     \<lparr>su_TotalExecutions = 0, su_AvgExecutionTime = 0, su_MaxExecutionTime = 0, su_MinExecutionTime = 0,
      su_TimeoutRate = 0, su_MatchRate = 0, su_TotalPatterns = 0\<rparr>"

definition GetSummaryStats :: "PerformanceMonitor \<Rightarrow> SummaryStats" where
  "GetSummaryStats m =
     (let ms = recentMetrics m in
      if ms = [] then EmptySummaryStats
      else
        (let recent = map mt_ExecutionTime (filter (\<lambda>x. \<not> mt_Timeout x) ms) in
         \<lparr>su_TotalExecutions = length ms,
          su_AvgExecutionTime = (if recent = [] then 0 else meanOf recent),
          su_MaxExecutionTime = (case recent of [] \<Rightarrow> 0 | t # ts \<Rightarrow> foldl (\<lambda>a x. if x > a then x else a) t ts),
          su_MinExecutionTime = (case recent of [] \<Rightarrow> 0 | t # ts \<Rightarrow> foldl (\<lambda>a x. if x < a then x else a) t ts),
          su_TimeoutRate = real (length (filter mt_Timeout ms)) / real (length ms),
          su_MatchRate = real (length (filter mt_Matched ms)) / real (length ms),
          su_TotalPatterns = length (patternStats m)\<rparr>))"

definition RegisterAnomalyCallback :: "(sanitized \<Rightarrow> string option) \<Rightarrow> PerformanceMonitor \<Rightarrow> PerformanceMonitor" where
  "RegisterAnomalyCallback callback m = m\<lparr>anomalyCallbacks := anomalyCallbacks m @ [callback]\<rparr>"

definition ClearStats :: "PerformanceMonitor \<Rightarrow> PerformanceMonitor" where
  "ClearStats m = m\<lparr>patternStats := [], insertionOrder := [], recentMetrics := []\<rparr>"

definition RemovePatternStats :: "string \<Rightarrow> PerformanceMonitor \<Rightarrow> PerformanceMonitor" where
  "RemovePatternStats pattern m =
     (let name = truncatePatternName pattern in
      m\<lparr>patternStats := AList.delete name (patternStats m), insertionOrder := remove1 name (insertionOrder m)\<rparr>)"

section \<open>Sums and means\<close>

lemma sum_from_list: "sum_from acc xs = acc + sum_list xs"
  by (induction xs arbitrary: acc) simp_all

lemma mean_bounds:
  assumes "xs \<noteq> []" "\<forall>t \<in> set xs. lo \<le> t \<and> t \<le> hi"
  shows "lo \<le> meanOf xs \<and> meanOf xs \<le> hi"
proof -
  have "real (length xs) * lo \<le> sum_list xs \<and> sum_list xs \<le> real (length xs) * hi"
    using assms(2) by (induction xs) (auto simp: algebra_simps)
  then show ?thesis using assms(1) by (simp add: meanOf_def sum_from_list pos_le_divide_eq pos_divide_le_eq mult.commute)
qed

lemma keep_last_length: "0 \<le> n \<Longrightarrow> int (length (keep_last n xs)) \<le> n"
  by (auto simp: keep_last_def Let_def)

lemma keep_last_set: "set (keep_last n xs) \<subseteq> set xs"
  by (auto simp: keep_last_def Let_def dest: in_set_dropD)

lemma keep_last_snoc: "1 \<le> n \<Longrightarrow> keep_last n (xs @ [x]) \<noteq> []"
  by (auto simp: keep_last_def Let_def)

section \<open>Names are cut once\<close>

lemma truncate_idem: "truncatePatternName (truncatePatternName p) = truncatePatternName p"
proof (cases "length (runes p) \<le> 100")
  case False
  let ?rs = "take 100 (runes p)" and ?x = "''...[truncated]''"
  have "\<forall>r \<in> set (?rs @ map of_char ?x). scalar r" using runes_scalar by (auto simp: scalar_def dest: in_set_takeD)
  moreover have "rune_text ?rs @ ?x = rune_text (?rs @ map of_char ?x)"
    using rune_text_ascii[of ?x] by (simp add: rune_text_def)
  ultimately have "runes (rune_text ?rs @ ?x) = ?rs @ map of_char ?x" using runes_rune_text by metis
  moreover have "take 100 (?rs @ map of_char ?x) = ?rs" using False by simp
  moreover have "\<not> length (?rs @ map of_char ?x) \<le> 100" using False by simp
  ultimately show ?thesis using False by (simp add: truncatePatternName_def Let_def del: take_append)
qed (simp add: truncatePatternName_def)

section \<open>The monitor stays consistent\<close>

definition stats_ok :: "int \<Rightarrow> PatternStats \<Rightarrow> bool" where
  "stats_ok window s \<longleftrightarrow>
     int (length (ps_RecentTimes s)) \<le> window
     \<and> 0 \<le> ps_TotalMatches s \<and> ps_TotalMatches s \<le> ps_TotalExecutions s
     \<and> 0 \<le> ps_TotalTimeouts s \<and> ps_TotalTimeouts s \<le> ps_TotalExecutions s
     \<and> ps_AvgExecutionTime s = meanOf (ps_RecentTimes s) \<and> 0 \<le> ps_MaxExecutionTime s
     \<and> (ps_RecentTimes s = [] \<longrightarrow> ps_MinExecutionTime s = None) \<and> (\<forall>low. ps_MinExecutionTime s = Some low \<longrightarrow> 0 \<le> low)
     \<and> (\<forall>t \<in> set (ps_RecentTimes s). 0 \<le> t \<and> t \<le> ps_MaxExecutionTime s
          \<and> (\<exists>low. ps_MinExecutionTime s = Some low \<and> low \<le> t))"

definition mon_ok :: "PerformanceMonitor \<Rightarrow> bool" where
  "mon_ok m \<longleftrightarrow>
     100 \<le> maxTrackedPatterns m \<and> 100 \<le> historySize m \<and> 100 \<le> recentTimesWindow m \<and> 1 \<le> anomalyThreshold m
     \<and> int (length (recentMetrics m)) \<le> historySize m
     \<and> int (length (patternStats m)) \<le> maxTrackedPatterns m
     \<and> distinct (map fst (patternStats m)) \<and> distinct (insertionOrder m)
     \<and> set (insertionOrder m) = fst ` set (patternStats m)
     \<and> (\<forall>k s. map_of (patternStats m) k = Some s \<longrightarrow> stats_ok (recentTimesWindow m) s \<and> truncatePatternName k = k)"

lemma New_mon_ok: "mon_ok (NewPerformanceMonitor opts)"
  by (simp add: mon_ok_def NewPerformanceMonitor_def Let_def clampInt_def clampFloat_def)

lemma new_stats_ok: "0 \<le> w \<Longrightarrow> stats_ok w (new_stats p)"
  by (simp add: stats_ok_def new_stats_def meanOf_def)

lemma sample_ok:
  assumes "stats_ok w s" "1 \<le> w" "0 \<le> mt_ExecutionTime metric"
  shows "stats_ok w (sample w metric s)"
proof (cases "mt_Timeout metric")
  case True
  then show ?thesis using assms by (auto simp: stats_ok_def sample_def Let_def)
next
  case False
  let ?t = "mt_ExecutionTime metric" and ?xs = "keep_last w (ps_RecentTimes s @ [mt_ExecutionTime metric])"
  have "set ?xs \<subseteq> insert ?t (set (ps_RecentTimes s))" using keep_last_set[of w "ps_RecentTimes s @ [?t]"] by auto
  moreover have "int (length ?xs) \<le> w" using assms(2) by (intro keep_last_length) simp
  moreover have "?xs \<noteq> []" using assms(2) by (rule keep_last_snoc)
  ultimately show ?thesis using False assms
    by (fastforce simp: stats_ok_def sample_def Let_def split: option.split)
qed

lemma track_ok:
  assumes "mon_ok m" "truncatePatternName p = p"
  obtains n where "track p m = Some n" "mon_ok n" "map_of (patternStats n) p \<noteq> None"
proof (cases "map_of (patternStats m) p")
  case (Some s)
  then show ?thesis using that[of m] assms by (simp add: track_def)
next
  case None
  then have fresh: "p \<notin> fst ` set (patternStats m)" by (simp add: map_of_eq_None_iff)
  note inv = assms(1)[unfolded mon_ok_def]
  have new: "stats_ok (recentTimesWindow m) (new_stats p)" using inv by (intro new_stats_ok) simp
  show ?thesis
  proof (cases "int (length (patternStats m)) \<ge> maxTrackedPatterns m")
    case False
    let ?n = "m\<lparr>patternStats := AList.update p (new_stats p) (patternStats m), insertionOrder := insertionOrder m @ [p]\<rparr>"
    have "mon_ok ?n"
      using inv False fresh new assms(2)
      by (auto simp: mon_ok_def keys_update length_update distinct_update update_conv')
    then show ?thesis using that[of ?n] None False by (simp add: track_def Let_def update_conv')
  next
    case True
    then have "patternStats m \<noteq> []" using inv by auto
    then obtain old order where order: "insertionOrder m = old # order"
      using inv by (cases "insertionOrder m") auto
    then have old: "old \<in> fst ` set (patternStats m)" "old \<notin> set order" "set order = fst ` set (patternStats m) - {old}"
      using inv by auto
    let ?d = "AList.delete old (patternStats m)"
    let ?n = "m\<lparr>insertionOrder := order @ [p], patternStats := AList.update p (new_stats p) ?d\<rparr>"
    have "p \<notin> fst ` set ?d" using fresh by (simp add: keys_delete)
    moreover have "length ?d = length (patternStats m) - 1" using inv old(1) by (intro length_delete) auto
    ultimately have "mon_ok ?n"
      using inv True fresh new assms(2) old order
      by (auto simp: mon_ok_def keys_update keys_delete length_update distinct_update distinct_delete update_conv'
          delete_conv' split: if_splits)
    then show ?thesis using that[of ?n] None True order by (simp add: track_def Let_def update_conv')
  qed
qed

lemma recent_ok: "mon_ok m \<Longrightarrow> mon_ok (m\<lparr>recentMetrics := keep_last (historySize m) (recentMetrics m @ [x])\<rparr>)"
  using keep_last_length[of "historySize m" "recentMetrics m @ [x]"] by (auto simp: mon_ok_def)

lemma map_of_map_entry: "map_of (map (\<lambda>(k, s). (k, if k = p then f s else s)) xs) k
    = map_option (\<lambda>s. if k = p then f s else s) (map_of xs k)"
  by (induction xs) auto

lemma keys_map_entry: "map fst (map (\<lambda>(k, s). (k, if k = p then f s else s)) xs) = map fst xs"
  by (induction xs) auto

lemma metric_of_facts:
  "truncatePatternName (mt_Pattern (metric_of t obs)) = mt_Pattern (metric_of t obs)"
  "0 \<le> mt_ExecutionTime (metric_of t obs)"
  by (simp_all add: metric_of_def truncate_idem)

lemma stats_replaced:
  assumes "mon_ok m" "map fst ss = map fst (patternStats m)"
    "\<And>k s. map_of ss k = Some s \<Longrightarrow> stats_ok (recentTimesWindow m) s \<and> truncatePatternName k = k"
  shows "mon_ok (m\<lparr>patternStats := ss\<rparr>)"
proof -
  have "fst ` set ss = fst ` set (patternStats m)" "length ss = length (patternStats m)"
    using assms(2) by (metis list.set_map, metis length_map)
  then show ?thesis using assms unfolding mon_ok_def by (simp del: map_of_eq_Some_iff)
qed

lemma mon_ok_entry:
  "mon_ok m \<Longrightarrow> map_of (patternStats m) k = Some s \<Longrightarrow> stats_ok (recentTimesWindow m) s \<and> truncatePatternName k = k"
  by (simp add: mon_ok_def del: map_of_eq_Some_iff)

lemma record_locked_ok:
  assumes "mon_ok m"
  obtains n where "record_locked (metric_of t obs) m = Some n" "mon_ok n"
proof -
  let ?x = "metric_of t obs"
  obtain n where n: "track (mt_Pattern ?x) (m\<lparr>recentMetrics := keep_last (historySize m) (recentMetrics m @ [?x])\<rparr>) = Some n" "mon_ok n"
    using track_ok[OF recent_ok[OF assms] metric_of_facts(1)] by metis
  let ?s = "map (\<lambda>(k, s). (k, if k = mt_Pattern ?x then sample (recentTimesWindow n) ?x s else s)) (patternStats n)"
  have "1 \<le> recentTimesWindow n" using n(2) by (simp add: mon_ok_def)
  then have "mon_ok (n\<lparr>patternStats := ?s\<rparr>)"
    using mon_ok_entry[OF n(2)] sample_ok[of "recentTimesWindow n" _ ?x] metric_of_facts(2)[of t obs]
    by (intro stats_replaced[OF n(2) keys_map_entry]) (auto simp: map_of_map_entry split: if_splits)
  then show ?thesis using that n(1) by (simp add: record_locked_def)
qed

lemma track_entry_frame:
  assumes "track p m = Some n"
  shows "anomalyEmissionCooldown n = anomalyEmissionCooldown m" "map_of (patternStats n) p \<noteq> None"
    "map_of (patternStats m) p = Some s \<Longrightarrow> n = m"
  using assms by (auto simp: track_def Let_def update_conv' split: if_splits list.splits)

lemma record_locked_frame:
  assumes "mon_ok m" "record_locked x m = Some n"
  shows "anomalyEmissionCooldown n = anomalyEmissionCooldown m" "map_of (patternStats n) (mt_Pattern x) \<noteq> None"
  using assms(2) by (auto simp: record_locked_def map_of_map_entry dest: track_entry_frame(1,2) split: option.splits)

lemma record_locked_stamp:
  assumes "record_locked x m = Some n" "mt_Pattern x = p" "map_of (patternStats m) p = Some s"
  shows "map_of (patternStats n) p = Some (sample (recentTimesWindow m) x s)
    \<and> ps_HasEmittedAnomaly (sample (recentTimesWindow m) x s) = ps_HasEmittedAnomaly s
    \<and> ps_LastAnomalyEmittedAt (sample (recentTimesWindow m) x s) = ps_LastAnomalyEmittedAt s"
proof -
  let ?m = "m\<lparr>recentMetrics := keep_last (historySize m) (recentMetrics m @ [x])\<rparr>"
  have "track p ?m = Some ?m" using assms(3) by (simp add: track_def)
  then have "n = ?m\<lparr>patternStats := map (\<lambda>(k, s). (k, if k = p then sample (recentTimesWindow ?m) x s else s)) (patternStats m)\<rparr>"
    using assms(1,2) by (simp add: record_locked_def)
  then show ?thesis using assms(3) by (simp add: map_of_map_entry sample_def Let_def)
qed

lemma reserve_ok: "mon_ok m \<Longrightarrow> mon_ok (snd (reserveAnomalyEmission p t m))"
proof (cases "map_of (patternStats m) p")
  case (Some s)
  assume m: "mon_ok m"
  let ?s = "s\<lparr>ps_LastAnomalyEmittedAt := t, ps_HasEmittedAnomaly := True\<rparr>"
  have "p \<in> set (map fst (patternStats m))" using Some by (force dest: map_of_SomeD)
  then have "map fst (AList.update p ?s (patternStats m)) = map fst (patternStats m)" by (simp add: update_keys)
  then have "mon_ok (m\<lparr>patternStats := AList.update p ?s (patternStats m)\<rparr>)"
    using mon_ok_entry[OF m] mon_ok_entry[OF m Some]
    by (intro stats_replaced[OF m]) (auto simp: update_conv' stats_ok_def split: if_splits)
  then show ?thesis using Some m by (simp add: reserveAnomalyEmission_def)
qed (simp add: reserveAnomalyEmission_def)

lemma check_state: "snd (checkAnomalies env x st agent cid t m) = m
    \<or> snd (checkAnomalies env x st agent cid t m) = snd (reserveAnomalyEmission (mt_Pattern x) t m)"
  by (auto simp: checkAnomalies_def Let_def split: prod.split)

lemma RecordMetric_ok:
  assumes "mon_ok m"
  obtains out n where "RecordMetric env obs t1 t2 m = Some (out, n)" "mon_ok n"
proof -
  let ?x = "metric_of t1 obs"
  obtain n where n: "record_locked ?x m = Some n" "mon_ok n" using record_locked_ok[OF assms] .
  let ?r = "checkAnomalies env ?x (detectStatisticalAnomalyLocked ?x n) (ob_Agent obs) (ob_CorrelationID obs) t2 n"
  have "RecordMetric env obs t1 t2 m = Some (fst ?r, snd ?r)" using n(1) by (simp add: RecordMetric_def Let_def)
  moreover have "mon_ok (snd ?r)"
    using check_state[of env ?x "detectStatisticalAnomalyLocked ?x n" "ob_Agent obs" "ob_CorrelationID obs" t2 n]
      reserve_ok[OF n(2)] n(2) by (elim disjE) simp_all
  ultimately show ?thesis by (rule that)
qed

datatype mon_op = Record mon_env MetricObservation real real | Register "sanitized \<Rightarrow> string option" | ClearAll | Remove string

fun mon_step :: "mon_op \<Rightarrow> PerformanceMonitor \<Rightarrow> outgoing list option \<times> PerformanceMonitor" where
  "mon_step (Record env obs t1 t2) m =
     (case RecordMetric env obs t1 t2 m of None \<Rightarrow> (None, m) | Some (out, n) \<Rightarrow> (Some out, n))"
| "mon_step (Register cb) m = (Some [], RegisterAnomalyCallback cb m)"
| "mon_step ClearAll m = (Some [], ClearStats m)"
| "mon_step (Remove p) m = (Some [], RemovePatternStats p m)"

lemma mon_step_ok: "mon_ok m \<Longrightarrow> mon_ok (snd (mon_step x m)) \<and> fst (mon_step x m) \<noteq> None"
proof (cases x)
  case (Record env obs t1 t2)
  assume "mon_ok m"
  then obtain out n where "RecordMetric env obs t1 t2 m = Some (out, n)" "mon_ok n" by (rule RecordMetric_ok)
  then show ?thesis using Record by simp
next
  case (Remove p)
  assume m: "mon_ok m"
  have "length (AList.delete q (patternStats m)) \<le> length (patternStats m)" for q by (rule length_delete_le)
  then have "int (length (AList.delete q (patternStats m))) \<le> maxTrackedPatterns m" for q
    using m by (meson mon_ok_def of_nat_mono order_trans)
  then show ?thesis using m Remove
    by (auto simp: mon_ok_def RemovePatternStats_def Let_def keys_delete distinct_delete delete_conv' split: if_splits)
qed (auto simp: mon_ok_def RegisterAnomalyCallback_def ClearStats_def)

interpretation monitor: component mon_step mon_ok "\<lambda>out. out \<noteq> None"
  by unfold_locales (use mon_step_ok in auto)

section \<open>Order of the slow patterns\<close>

lemma name_less_irrefl [simp]: "\<not> name_less x x"
  by (induction x) auto

lemma name_less_trans: "name_less x y \<Longrightarrow> name_less y z \<Longrightarrow> name_less x z"
proof (induction x y arbitrary: z rule: name_less.induct)
  case (4 a as b bs)
  then show ?case by (cases z) auto
qed (auto elim: name_less.elims)

lemma name_less_total: "x \<noteq> y \<Longrightarrow> name_less x y \<or> name_less y x"
  by (induction x y rule: name_less.induct) (auto simp: of_char_eq_iff linorder_neq_iff)

lemma slower_not_trans: "\<not> slower a b \<Longrightarrow> \<not> slower b c \<Longrightarrow> \<not> slower a c"
  unfolding slower_def using name_less_trans[of "snd b" "snd a" "snd c"] name_less_trans[of "snd c" "snd b" "snd a"] name_less_total[of "snd a" "snd b"]
    name_less_total[of "snd b" "snd c"] name_less_total[of "snd a" "snd c"]
    name_less_trans[of "snd c" "snd a" "snd b"] name_less_trans[of "snd a" "snd c" "snd b"]
  by (metis linorder_neqE_linordered_idom name_less_irrefl order_less_trans)

lemma slower_asym: "slower a b \<Longrightarrow> \<not> slower b a"
  unfolding slower_def by (metis name_less_irrefl name_less_trans not_less_iff_gr_or_eq)

lemma inner_pass_mset: "mset (fst (inner_pass a bs) # snd (inner_pass a bs)) = mset (a # bs)"
  by (induction a bs rule: inner_pass.induct) (auto simp: Let_def)

lemma inner_pass_greatest:
  "\<not> slower a (fst (inner_pass a bs)) \<and> (\<forall>x \<in> set (snd (inner_pass a bs)). \<not> slower x (fst (inner_pass a bs)))"
proof (induction a bs rule: inner_pass.induct)
  case (1 a)
  then show ?case by (simp add: slower_def)
next
  case (2 a b bs)
  show ?case
  proof (cases "slower b a")
    case True
    then have "\<not> slower a (fst (inner_pass b bs))" using 2(1)[OF True] slower_asym[OF True] slower_not_trans by blast
    then show ?thesis using 2(1)[OF True] True by (auto simp: Let_def)
  next
    case False
    then have "\<not> slower b (fst (inner_pass a bs))" using 2(2)[OF False] slower_not_trans by blast
    then show ?thesis using 2(2)[OF False] False by (auto simp: Let_def)
  qed
qed

lemma exchange_sort_mset: "mset (exchange_sort xs) = mset xs"
proof (induction xs rule: exchange_sort.induct)
  case (2 a bs)
  then show ?case using inner_pass_mset[of a bs] by simp
qed simp

lemma exchange_sort_sorted: "sorted_wrt (\<lambda>x y. \<not> slower y x) (exchange_sort xs)"
proof (induction xs rule: exchange_sort.induct)
  case (2 a bs)
  have "set (exchange_sort (snd (inner_pass a bs))) = set (snd (inner_pass a bs))"
    using exchange_sort_mset mset_eq_setD by blast
  then show ?case using 2 inner_pass_greatest[of a bs] by simp
qed simp

section \<open>What the monitor promises\<close>

lemma reachable_ok: "mon_ok (snd (run_ops mon_step ops (NewPerformanceMonitor opts)))"
  by (rule monitor.inv_run[OF New_mon_ok])

text \<open>The monitor never panics and its memory is bounded: over any sequence of observations, registrations,
  removals and resets the metric history, the tracked patterns and every timing window keep within their limits,
  and the insertion order lists each tracked pattern once.\<close>

theorem monitor_bounded:
  "let r = run_ops mon_step ops (NewPerformanceMonitor opts) in None \<notin> set (fst r)
    \<and> int (length (recentMetrics (snd r))) \<le> historySize (snd r)
    \<and> int (length (patternStats (snd r))) \<le> maxTrackedPatterns (snd r)
    \<and> distinct (insertionOrder (snd r)) \<and> set (insertionOrder (snd r)) = fst ` set (patternStats (snd r))
    \<and> list_all (\<lambda>e. int (length (ps_RecentTimes (snd e))) \<le> recentTimesWindow (snd r)) (patternStats (snd r))"
proof -
  define r where "r = run_ops mon_step ops (NewPerformanceMonitor opts)"
  have "mon_ok (snd r)" unfolding r_def by (rule reachable_ok)
  moreover have "None \<notin> set (fst r)" using monitor.good_run[OF New_mon_ok] unfolding r_def by blast
  ultimately show ?thesis unfolding r_def[symmetric] Let_def by (auto simp: mon_ok_def stats_ok_def list_all_iff)
qed

lemma round4_mono: "0 \<le> v \<Longrightarrow> v \<le> w \<Longrightarrow> round4 v \<le> round4 w"
  by (simp add: round4_def math_round_def divide_right_mono floor_mono)

lemma round4_nonneg: "0 \<le> v \<Longrightarrow> 0 \<le> round4 v"
  using round4_mono[of 0 v] by (simp add: round4_def math_round_def)

lemma rate_bounds: "0 \<le> (k :: int) \<Longrightarrow> k \<le> n \<Longrightarrow>
    0 \<le> (of_int k / of_int (if n < 1 then 1 else n) :: real) \<and> (of_int k / of_int (if n < 1 then 1 else n) :: real) \<le> 1"
  by (auto simp: divide_le_eq_1)

lemma report_sound:
  assumes "stats_ok w s"
  shows "0 \<le> pr_MatchRate (buildPatternReport env p s) \<and> pr_MatchRate (buildPatternReport env p s) \<le> 1
    \<and> 0 \<le> pr_TimeoutRate (buildPatternReport env p s) \<and> pr_TimeoutRate (buildPatternReport env p s) \<le> 1
    \<and> 0 \<le> pr_MinExecutionTime (buildPatternReport env p s)
    \<and> pr_MinExecutionTime (buildPatternReport env p s) \<le> pr_AvgExecutionTime (buildPatternReport env p s)
    \<and> pr_AvgExecutionTime (buildPatternReport env p s) \<le> pr_MaxExecutionTime (buildPatternReport env p s)"
proof -
  let ?low = "case ps_MinExecutionTime s of None \<Rightarrow> 0 | Some v \<Rightarrow> v"
  have "0 \<le> ?low \<and> ?low \<le> ps_AvgExecutionTime s \<and> ps_AvgExecutionTime s \<le> ps_MaxExecutionTime s"
  proof (cases "ps_RecentTimes s = []")
    case True
    then show ?thesis using assms by (auto simp: stats_ok_def meanOf_def split: option.split)
  next
    case False
    then obtain low where low: "ps_MinExecutionTime s = Some low" "0 \<le> low"
      "\<forall>t \<in> set (ps_RecentTimes s). low \<le> t \<and> t \<le> ps_MaxExecutionTime s"
      using assms by (cases "ps_RecentTimes s") (auto simp: stats_ok_def)
    show ?thesis using mean_bounds[OF False low(3)] low assms by (simp add: stats_ok_def)
  qed
  then show ?thesis
    using assms rate_bounds[of "ps_TotalMatches s" "ps_TotalExecutions s"] rate_bounds[of "ps_TotalTimeouts s" "ps_TotalExecutions s"]
      round4_mono[of ?low "ps_AvgExecutionTime s"] round4_nonneg[of ?low]
      round4_mono[of "ps_AvgExecutionTime s" "ps_MaxExecutionTime s"]
    by (simp add: buildPatternReport_def Let_def stats_ok_def)
qed

lemma GetPatternReport_tracked:
  "mon_ok m \<Longrightarrow> map_of (patternStats m) p = Some s \<Longrightarrow> GetPatternReport env p m = Some (buildPatternReport env p s)"
  by (simp add: GetPatternReport_def mon_ok_entry del: map_of_eq_Some_iff)

lemma take_reports_all:
  "\<forall>e \<in> set es. GetPatternReport env (snd e) m \<noteq> None \<Longrightarrow>
   map Some (take_reports env limit es m) = map (\<lambda>e. GetPatternReport env (snd e) m) (take limit es)"
proof (induction es arbitrary: limit)
  case (Cons e es)
  then show ?case by (cases limit) auto
qed simp

text \<open>The slow patterns are reported slowest first: the result is the reports of the first entries of an
  order of all patterns with timing samples by descending average, ties by descending name, and every report
  has rates between 0 and 1 and a minimum, an average and a maximum in that order.\<close>

theorem slow_patterns_slowest_first:
  "let m = snd (run_ops mon_step ops (NewPerformanceMonitor opts)) in
    \<exists>es. mset es = mset (timed_patterns m) \<and> sorted_wrt (\<lambda>x y. \<not> slower y x) es
    \<and> map Some (GetSlowPatterns env limit m) = map (\<lambda>e. GetPatternReport env (snd e) m) (take (nat limit) es)
    \<and> list_all (\<lambda>r. 0 \<le> pr_MatchRate r \<and> pr_MatchRate r \<le> 1 \<and> 0 \<le> pr_TimeoutRate r \<and> pr_TimeoutRate r \<le> 1
         \<and> 0 \<le> pr_MinExecutionTime r \<and> pr_MinExecutionTime r \<le> pr_AvgExecutionTime r
         \<and> pr_AvgExecutionTime r \<le> pr_MaxExecutionTime r) (GetSlowPatterns env limit m)"
proof -
  define m where "m = snd (run_ops mon_step ops (NewPerformanceMonitor opts))"
  have ok: "mon_ok m" unfolding m_def by (rule reachable_ok)
  let ?es = "exchange_sort (timed_patterns m)"
  have es: "set ?es = set (timed_patterns m)" using exchange_sort_mset mset_eq_setD by blast
  have tracked: "\<exists>s. map_of (patternStats m) (snd e) = Some s" if "e \<in> set ?es" for e
    using that es by (auto simp: timed_patterns_def List.map_filter_def split: option.splits if_splits)
  have reports: "map Some (GetSlowPatterns env limit m) = map (\<lambda>e. GetPatternReport env (snd e) m) (take (nat limit) ?es)"
    unfolding GetSlowPatterns_def
    by (rule take_reports_all) (use tracked GetPatternReport_tracked[OF ok] in fastforce)
  have "\<exists>p s. r = buildPatternReport env p s \<and> stats_ok (recentTimesWindow m) s" if r: "r \<in> set (GetSlowPatterns env limit m)" for r
  proof -
    have "Some r \<in> set (map Some (GetSlowPatterns env limit m))" using r by simp
    then obtain e where e: "e \<in> set (take (nat limit) ?es)" "GetPatternReport env (snd e) m = Some r"
      unfolding reports by auto
    then obtain s where s: "map_of (patternStats m) (snd e) = Some s" using tracked in_set_takeD by metis
    then show ?thesis using e(2) GetPatternReport_tracked[OF ok s, of env] mon_ok_entry[OF ok s] by auto
  qed
  then have "list_all (\<lambda>r. 0 \<le> pr_MatchRate r \<and> pr_MatchRate r \<le> 1 \<and> 0 \<le> pr_TimeoutRate r \<and> pr_TimeoutRate r \<le> 1
         \<and> 0 \<le> pr_MinExecutionTime r \<and> pr_MinExecutionTime r \<le> pr_AvgExecutionTime r
         \<and> pr_AvgExecutionTime r \<le> pr_MaxExecutionTime r) (GetSlowPatterns env limit m)"
    unfolding list_all_iff using report_sound by blast
  then show ?thesis unfolding m_def[symmetric] Let_def using exchange_sort_mset exchange_sort_sorted reports by blast
qed

section \<open>Cooldown\<close>

definition announces :: "outgoing list \<Rightarrow> bool" where
  "announces out \<longleftrightarrow> list_ex (\<lambda>x. case x of AgentEvent e \<Rightarrow> ae_ActionTaken e = ''anomaly_detected'' | _ \<Rightarrow> False) out"

lemma announces_append [simp]: "announces (xs @ ys) \<longleftrightarrow> announces xs \<or> announces ys"
  by (simp add: announces_def)

lemma callbacks_silent: "\<not> announces (notifyCallbacks env a agent cid m)"
proof -
  have "\<not> announces (runAnomalyCallback cb safe agent cid)" for cb safe
    by (auto simp: announces_def runAnomalyCallback_def send_event_def BuildCallbackErrorEventData_def Let_def
        split: option.split)
  moreover have "announces (concat xss) \<longleftrightarrow> list_ex announces xss" for xss
    by (induction xss) (simp_all add: announces_def)
  ultimately show ?thesis by (simp add: notifyCallbacks_def list_ex_iff)
qed

lemma announces_concat: "announces (concat xss) \<longleftrightarrow> list_ex announces xss"
  by (induction xss) (simp_all add: announces_def)

lemma announces_reserved:
  assumes "announces (fst (checkAnomalies env x st agent cid t m))"
  shows "fst (reserveAnomalyEmission (mt_Pattern x) t m) \<and>
    snd (checkAnomalies env x st agent cid t m) = snd (reserveAnomalyEmission (mt_Pattern x) t m)"
  using assms
  by (auto simp: checkAnomalies_def Let_def announces_concat list_ex_iff callbacks_silent announces_def[of "[]"]
      split: prod.splits if_splits)


definition wt_mon :: mon_env where
  "wt_mon = \<lparr>mn_redact = id, mn_hash = id\<rparr>"

definition wt_timeout :: MetricObservation where
  "wt_timeout =
     \<lparr>ob_Pattern = ''a+'', ob_ExecutionTime = 0, ob_ContentLength = 10, ob_Matched = False, ob_Timeout = True,
      ob_Agent = Some (\<lambda>_. False), ob_CorrelationID = ''c''\<rparr>"

lemma wt_name: "truncatePatternName ''a+'' = ''a+''"
  using runes_length[of "''a+''"] by (simp add: truncatePatternName_def Let_def)

lemma wt_announced:
  assumes "RecordMetric wt_mon wt_timeout 0 0 (NewPerformanceMonitor DefaultPerformanceMonitorOptions) = Some (out, m1)"
  shows "announces out"
  using assms
  by (auto simp: RecordMetric_def record_locked_def track_def NewPerformanceMonitor_def Let_def metric_of_def wt_timeout_def
      wt_name clampInt_def DefaultPerformanceMonitorOptions_def checkAnomalies_def found_anomalies_def
      DetectTimeoutAnomaly_def reserveAnomalyEmission_def sample_def new_stats_def sendAnomalyEvent_def send_event_def
      BuildAnomalyEventData_def announces_def split: option.splits)


end
