(* ===== verification/Regexp2.thy ===== *)
theory Regexp2
  imports Runes
begin

text \<open>
  The part of the regular expressions of \<open>github.com/dlclark/regexp2\<close> that the fixed patterns of the code use, in
  their documented backtracking semantics, which are also those of Go's \<open>regexp\<close> for the match it reports: \<open>ms r\<close> lists the ways \<open>r\<close> matches at a position in the order the engine
  tries them, the first one is the match. A position is the text before it, reversed, and the text after it; a
  search goes from left to right. The patterns are written with these constructors in the theories that use
  them.
\<close>

datatype rx =
    Class "nat \<Rightarrow> bool"
  | Seq rx rx
  | Either rx rx
  | Greedy nat "nat option" rx
  | Lazy nat "nat option" rx
  | Capture nat rx
  | NotAhead rx
  | NotBehind "nat \<Rightarrow> bool"
  | Boundary "nat \<Rightarrow> bool"

type_synonym position = "nat list \<times> nat list \<times> (nat \<times> nat list) list"

text \<open>At least \<open>m\<close> and at most \<open>k\<close> rounds, one more round tried before stopping (greedy) or after (lazy).\<close>

primrec reps :: "bool \<Rightarrow> (position \<Rightarrow> position list) \<Rightarrow> nat \<Rightarrow> nat \<Rightarrow> position \<Rightarrow> position list" where
  "reps greedy f 0 m st = (if m = 0 then [st] else [])"
| "reps greedy f (Suc k) m st =
     (let more = concat (map (reps greedy f k (m - 1)) (f st)); stop = (if m = 0 then [st] else [])
      in if greedy then more @ stop else stop @ more)"

text \<open>Without an upper bound there is no use in more rounds than runes are left: the bodies of the patterns match
  no empty text.\<close>

definition most :: "nat option \<Rightarrow> position \<Rightarrow> nat" where
  "most k st = (case k of Some n \<Rightarrow> n | None \<Rightarrow> length (fst (snd st)))"

primrec ms :: "rx \<Rightarrow> position \<Rightarrow> position list" where
  "ms (Class p) = (\<lambda>(pre, rest, g).
     case rest of [] \<Rightarrow> [] | r # rs \<Rightarrow> if p r then [(r # pre, rs, g)] else [])"
| "ms (Seq a b) = (\<lambda>st. concat (map (ms b) (ms a st)))"
| "ms (Either a b) = (\<lambda>st. ms a st @ ms b st)"
| "ms (Greedy m k a) = (\<lambda>st. reps True (ms a) (most k st) m st)"
| "ms (Lazy m k a) = (\<lambda>st. reps False (ms a) (most k st) m st)"
| "ms (Capture n a) = (\<lambda>(pre, rest, g).
     map (\<lambda>(pre1, rest1, g1). (pre1, rest1, (n, take (length rest - length rest1) rest) # g1)) (ms a (pre, rest, g)))"
| "ms (NotAhead a) = (\<lambda>st. if ms a st = [] then [st] else [])"
| "ms (NotBehind p) = (\<lambda>(pre, rest, g). case pre of r # _ \<Rightarrow> if p r then [] else [(pre, rest, g)] | [] \<Rightarrow> [(pre, rest, g)])"
| "ms (Boundary p) = (\<lambda>(pre, rest, g).
     if (pre \<noteq> [] \<and> p (hd pre)) \<noteq> (rest \<noteq> [] \<and> p (hd rest)) then [(pre, rest, g)] else [])"

record rx_match =
  mx_before :: "nat list"
  mx_text :: "nat list"
  mx_after :: "nat list"
  mx_groups :: "(nat \<times> nat list) list"

definition match_here :: "rx \<Rightarrow> nat list \<Rightarrow> nat list \<Rightarrow> rx_match option" where
  "match_here r pre rest =
     (case ms r (pre, rest, []) of
        [] \<Rightarrow> None
      | (_, rest1, g) # _ \<Rightarrow>
          Some \<lparr>mx_before = [], mx_text = take (length rest - length rest1) rest, mx_after = rest1, mx_groups = g\<rparr>)"

text \<open>The first match at or after a position; \<open>mx_before\<close> is what it skipped.\<close>

fun find_rx :: "rx \<Rightarrow> nat list \<Rightarrow> nat list \<Rightarrow> rx_match option" where
  "find_rx r pre rest =
     (case match_here r pre rest of
        Some m \<Rightarrow> Some m
      | None \<Rightarrow>
          (case rest of
             [] \<Rightarrow> None
           | c # cs \<Rightarrow> map_option (\<lambda>m. m\<lparr>mx_before := c # mx_before m\<rparr>) (find_rx r (c # pre) cs)))"

declare find_rx.simps [simp del]

text \<open>Whatever matches, matches a part of the text, and the rest is what comes after it.\<close>

definition consumes :: "position \<Rightarrow> position \<Rightarrow> bool" where
  "consumes a b \<longleftrightarrow> (\<exists>m. fst (snd a) = m @ fst (snd b) \<and> fst b = rev m @ fst a)"

lemma consumes_refl [simp]: "consumes a a"
  by (simp add: consumes_def)

lemma consumes_trans [trans]: "consumes a b \<Longrightarrow> consumes b c \<Longrightarrow> consumes a c"
  by (force simp: consumes_def)

lemma reps_consumes:
  assumes "\<And>st st'. st' \<in> set (f st) \<Longrightarrow> consumes st st'" "st' \<in> set (reps greedy f k m st)"
  shows "consumes st st'"
  using assms(2)
proof (induction k arbitrary: m st)
  case (Suc k)
  have "st' = st \<or> (\<exists>mid \<in> set (f st). st' \<in> set (reps greedy f k (m - 1) mid))"
    using Suc.prems by (simp add: Let_def split: if_splits) blast+
  then show ?case
  proof
    assume "\<exists>mid \<in> set (f st). st' \<in> set (reps greedy f k (m - 1) mid)"
    then obtain mid where mid: "mid \<in> set (f st)" "st' \<in> set (reps greedy f k (m - 1) mid)" ..
    show ?thesis by (rule consumes_trans[OF assms(1)[OF mid(1)] Suc.IH[OF mid(2)]])
  qed simp
qed (simp split: if_splits)

lemma ms_consumes: "st' \<in> set (ms r st) \<Longrightarrow> consumes st st'"
proof (induction r arbitrary: st st')
  case (Seq a b)
  then obtain mid where mid: "mid \<in> set (ms a st)" "st' \<in> set (ms b mid)" by (simp only: ms.simps set_concat set_map) blast
  show ?case by (rule consumes_trans[OF Seq.IH(1)[OF mid(1)] Seq.IH(2)[OF mid(2)]])
next
  case (Greedy m k a)
  then show ?case by (simp only: ms.simps) (rule reps_consumes[OF Greedy.IH])
next
  case (Lazy m k a)
  then show ?case by (simp only: ms.simps) (rule reps_consumes[OF Lazy.IH])
next
  case (Capture n a)
  obtain pre rest g where st: "st = (pre, rest, g)" by (cases st)
  obtain x where x: "x \<in> set (ms a st)" "fst st' = fst x" "fst (snd st') = fst (snd x)"
    using Capture.prems by (fastforce simp: st)
  then show ?case using Capture.IH[OF x(1)] by (simp add: consumes_def)
next
  case (Class p)
  then show ?case by (cases st; cases "fst (snd st)") (simp_all add: consumes_def split: if_splits)
next
  case (Either a b)
  then show ?case by (simp only: ms.simps set_append Un_iff) blast
next
  case (NotAhead a)
  then show ?case by (simp split: if_splits)
next
  case (NotBehind p)
  then show ?case by (cases st; cases "fst st") (simp_all split: if_splits)
next
  case (Boundary p)
  then show ?case by (cases st) (simp split: if_splits)
qed

lemma match_here_splits:
  assumes "match_here r pre rest = Some m"
  shows "mx_before m = []" "rest = mx_text m @ mx_after m"
proof -
  obtain pre1 rest1 g tl where h: "ms r (pre, rest, []) = (pre1, rest1, g) # tl"
    and m: "m = \<lparr>mx_before = [], mx_text = take (length rest - length rest1) rest, mx_after = rest1, mx_groups = g\<rparr>"
    using assms by (auto simp: match_here_def split: list.splits)
  have "consumes (pre, rest, []) (pre1, rest1, g)" by (rule ms_consumes[of _ r]) (simp add: h)
  then obtain w where "rest = w @ rest1" by (auto simp: consumes_def)
  then show "rest = mx_text m @ mx_after m" by (simp add: m)
  show "mx_before m = []" by (simp add: m)
qed

lemma find_rx_splits:
  "find_rx r pre rest = Some m \<Longrightarrow> rest = mx_before m @ mx_text m @ mx_after m"
proof (induction rest arbitrary: pre m)
  case Nil
  then have "match_here r pre [] = Some m" by (simp add: find_rx.simps[of r pre "[]"] split: option.splits)
  then show ?case using match_here_splits by fastforce
next
  case (Cons c cs)
  show ?case
  proof (cases "match_here r pre (c # cs)")
    case None
    then obtain n where "find_rx r (c # pre) cs = Some n" "m = n\<lparr>mx_before := c # mx_before n\<rparr>"
      using Cons.prems by (auto simp: find_rx.simps[of r pre "c # cs"])
    then show ?thesis using Cons.IH by simp
  next
    case (Some n)
    then have "m = n" using Cons.prems by (simp add: find_rx.simps[of r pre "c # cs"])
    then show ?thesis using match_here_splits[OF Some] by simp
  qed
qed

text \<open>A text taken literally, and without regard to case: \<open>(?i)\<close> folds the ASCII letters, the long s and the Kelvin sign.\<close>

definition is_rune :: "char \<Rightarrow> nat \<Rightarrow> bool" where
  "is_rune c r \<longleftrightarrow> r = byte c"

fun literal :: "string \<Rightarrow> rx" where
  "literal [] = NotBehind (\<lambda>_. False)"
| "literal [c] = Class (is_rune c)"
| "literal (c # cs) = Seq (Class (is_rune c)) (literal cs)"

definition fold_rune :: "nat \<Rightarrow> nat" where
  "fold_rune r = (if 65 \<le> r \<and> r \<le> 90 then r + 32 else if r = 383 then 115 else if r = 8490 then 107 else r)"

definition same_letter :: "char \<Rightarrow> nat \<Rightarrow> bool" where
  "same_letter c r \<longleftrightarrow> fold_rune r = fold_rune (byte c)"

fun literal_i :: "string \<Rightarrow> rx" where
  "literal_i [] = NotBehind (\<lambda>_. False)"
| "literal_i [c] = Class (same_letter c)"
| "literal_i (c # cs) = Seq (Class (same_letter c)) (literal_i cs)"

section \<open>Searching and replacing\<close>

text \<open>All matches from a position on, \<open>FindRunesMatchStartingAt\<close> in a loop; a match of the empty text ends it, which
  no pattern of the code has.\<close>

function find_all_rx :: "rx \<Rightarrow> nat list \<Rightarrow> nat list \<Rightarrow> rx_match list" where
  "find_all_rx r pre rest =
     (case find_rx r pre rest of
        None \<Rightarrow> []
      | Some m \<Rightarrow>
          if mx_text m = [] then []
          else m # find_all_rx r (rev (mx_before m @ mx_text m) @ pre) (mx_after m))"
  by pat_completeness auto
termination
  by (relation "measure (\<lambda>(r, pre, rest). length rest)") (auto dest: find_rx_splits)

declare find_all_rx.simps [simp del]

lemma reps_numeral:
  "reps greedy f (numeral v) m st =
     (let more = concat (map (reps greedy f (pred_numeral v) (m - 1)) (f st)); stop = (if m = 0 then [st] else [])
      in if greedy then more @ stop else stop @ more)"
  by (simp add: numeral_eq_Suc)

text \<open>What \<open>simp\<close> needs to run a pattern on a concrete text.\<close>

lemmas rx_eval = reps_numeral find_rx.simps find_all_rx.simps match_here_def most_def is_rune_def same_letter_def fold_rune_def

text \<open>\<open>ReplaceFunc\<close> with an evaluator that threads a state; a text without a match is returned as it is.\<close>

fun replace_matches :: "('s \<Rightarrow> nat list \<Rightarrow> string \<times> 's) \<Rightarrow> rx_match list \<Rightarrow> 's \<Rightarrow> string \<times> 's" where
  "replace_matches f [] s = ([], s)"
| "replace_matches f (m # mts) s =
     (let (out, s1) = f s (mx_text m); (rest, s2) = replace_matches f mts s1
      in (rune_text (mx_before m) @ out @ rest, s2))"

definition ReplaceFunc :: "rx \<Rightarrow> ('s \<Rightarrow> nat list \<Rightarrow> string \<times> 's) \<Rightarrow> string \<Rightarrow> 's \<Rightarrow> string \<times> 's" where
  "ReplaceFunc r f input s =
     (let mts = find_all_rx r [] (runes input) in
      if mts = [] then (input, s)
      else (let (out, s1) = replace_matches f mts s in (out @ rune_text (mx_after (last mts)), s1)))"

end
