(* ===== verification/Base64.thy ===== *)
theory Base64
  imports Regexp2 Complex_Main
begin

text \<open>
  Base64 candidates of the preprocessor: \<open>guardcore/base64decode.go\<close> with the fixed patterns it searches for and
  the \<open>StdEncoding\<close> of \<open>encoding/base64\<close>. \<open>unicode.IsPrint\<close> and the gzip reader are parameters. A ratio of two
  counts is a \<open>real\<close>.
\<close>

section \<open>The patterns\<close>

definition alnum_rune :: "nat \<Rightarrow> bool" where
  "alnum_rune r \<longleftrightarrow> (65 \<le> r \<and> r \<le> 90) \<or> (97 \<le> r \<and> r \<le> 122) \<or> (48 \<le> r \<and> r \<le> 57)"

definition data_rune :: "nat \<Rightarrow> bool" where
  "data_rune r \<longleftrightarrow> alnum_rune r \<or> r = 43 \<or> r = 47 \<or> r = 95 \<or> r = 45"

definition b64_separator :: "nat \<Rightarrow> bool" where
  "b64_separator r \<longleftrightarrow> r < 128 \<and> \<not> data_rune r"

definition widened_separator :: "nat \<Rightarrow> bool" where
  "widened_separator r \<longleftrightarrow> r < 128 \<and> \<not> (alnum_rune r \<or> r = 43 \<or> r = 47 \<or> r = 61 \<or> r = 13 \<or> r = 10)"

definition hex_rune :: "nat \<Rightarrow> bool" where
  "hex_rune r \<longleftrightarrow> (48 \<le> r \<and> r \<le> 57) \<or> (97 \<le> r \<and> r \<le> 102) \<or> (65 \<le> r \<and> r \<le> 70)"

definition eq_sign :: rx where
  "eq_sign = Class (\<lambda>r. r = 61)"

definition b64RunUnit :: rx where
  "b64RunUnit = Seq (Class data_rune) (Greedy 0 None (Class b64_separator))"

definition b64BaseRE :: rx where
  "b64BaseRE = Seq (NotBehind data_rune) (Seq
     (Either (Seq (Greedy 12 None b64RunUnit) (Greedy 0 (Some 2) eq_sign))
     (Either (Seq (Greedy 11 None b64RunUnit) eq_sign)
        (Seq (Greedy 10 None b64RunUnit) (Seq eq_sign eq_sign))))
     (NotAhead (Class (\<lambda>r. data_rune r \<or> r = 61))))"

definition b64RunRE :: rx where
  "b64RunRE = Seq (NotBehind data_rune) (Seq (Greedy 12 None (Class data_rune))
     (Seq (Greedy 0 (Some 2) eq_sign) (NotAhead (Class (\<lambda>r. data_rune r \<or> r = 61)))))"

definition b64SubFloorRE :: rx where
  "b64SubFloorRE = Seq (NotBehind data_rune) (Seq (Greedy 1 (Some 11) (Class data_rune)) (NotAhead (Class data_rune)))"

definition b64HexLiteralRE :: rx where
  "b64HexLiteralRE = Seq (Class (\<lambda>r. r = 48)) (Seq (Class (\<lambda>r. r = 120 \<or> r = 88)) (Greedy 1 None (Class hex_rune)))"

definition b64WidenedMarkerRE :: rx where
  "b64WidenedMarkerRE = Class widened_separator"

definition shortBase64TokenRE :: rx where
  "shortBase64TokenRE = Greedy 4 None (Class (\<lambda>r. alnum_rune r \<or> r = 43 \<or> r = 47))"

definition isHexLiteral :: "string \<Rightarrow> bool" where
  "isHexLiteral token \<longleftrightarrow> find_rx b64HexLiteralRE [] (runes token) \<noteq> None"

definition findAllStrings :: "rx \<Rightarrow> string \<Rightarrow> string list" where
  "findAllStrings r s = map (\<lambda>m. rune_text (mx_text m)) (find_all_rx r [] (runes s))"

section \<open>The codec\<close>

definition b64_val :: "char \<Rightarrow> nat option" where
  "b64_val c =
     (let r = byte c in
      if 65 \<le> r \<and> r \<le> 90 then Some (r - 65)
      else if 97 \<le> r \<and> r \<le> 122 then Some (r - 71)
      else if 48 \<le> r \<and> r \<le> 57 then Some (r + 4)
      else if r = 43 then Some 62
      else if r = 47 then Some 63
      else None)"

text \<open>\<open>StdEncoding.DecodeString\<close>; its inputs here hold no line breaks. Left-over bits are not checked.\<close>

fun b64_decode :: "string \<Rightarrow> string option" where
  "b64_decode [] = Some []"
| "b64_decode (a # b # c # d # s) =
     (case (b64_val a, b64_val b) of
        (Some x, Some y) \<Rightarrow>
          (if d = CHR ''='' then
             (if s \<noteq> [] then None
              else if c = CHR ''='' then Some [char_of (x * 4 + y div 16)]
              else
                (case b64_val c of
                   None \<Rightarrow> None
                 | Some z \<Rightarrow> Some [char_of (x * 4 + y div 16), char_of (y mod 16 * 16 + z div 4)]))
           else
             (case (b64_val c, b64_val d) of
                (Some z, Some w) \<Rightarrow>
                  map_option (\<lambda>r. char_of (x * 4 + y div 16) # char_of (y mod 16 * 16 + z div 4)
                                # char_of (z mod 4 * 64 + w) # r) (b64_decode s)
              | _ \<Rightarrow> None))
      | _ \<Rightarrow> None)"
| "b64_decode _ = None"

record b64_env =
  be_isPrint :: "nat \<Rightarrow> bool"
  be_gunzip :: "string \<Rightarrow> nat \<Rightarrow> string option"

definition printableRatio :: "b64_env \<Rightarrow> string \<Rightarrow> real" where
  "printableRatio env t =
     (if t = [] then 0
      else real (length (filter (\<lambda>r. r = 32 \<or> be_isPrint env r) (runes t))) / real (length (runes t)))"

definition replacementCharRatio :: "string \<Rightarrow> real" where
  "replacementCharRatio t =
     (if t = [] then 0 else real (length (filter (\<lambda>r. r = 65533) (runes t))) / real (length (runes t)))"

definition gzip_magic :: "string \<Rightarrow> bool" where
  "gzip_magic raw \<longleftrightarrow> length raw \<ge> 2 \<and> byte (raw ! 0) = 31 \<and> byte (raw ! 1) = 139"

definition boundedGunzip :: "b64_env \<Rightarrow> string \<Rightarrow> nat \<Rightarrow> string option" where
  "boundedGunzip env raw maxOutputBytes = (if \<not> gzip_magic raw then None else be_gunzip env raw maxOutputBytes)"

record b64Decoder =
  gunzipAttemptsLeft :: nat
  maxGunzipOutput :: nat

definition decodeUTF8Replace :: "string \<Rightarrow> string" where
  "decodeUTF8Replace raw = rune_text (runes raw)"

definition pad64 :: "string \<Rightarrow> string" where
  "pad64 cleaned = cleaned @ replicate ((4 - length cleaned mod 4) mod 4) (CHR ''='')"

definition decodeCleaned :: "b64_env \<Rightarrow> b64Decoder \<Rightarrow> string \<Rightarrow> real \<Rightarrow> string option \<times> b64Decoder" where
  "decodeCleaned env d cleaned minPrintableRatio =
     (case b64_decode (pad64 cleaned) of
        None \<Rightarrow> (None, d)
      | Some raw0 \<Rightarrow>
          (let tries = gzip_magic raw0 \<and> gunzipAttemptsLeft d > 0;
               d1 = (if tries then d\<lparr>gunzipAttemptsLeft := gunzipAttemptsLeft d - 1\<rparr> else d);
               raw = (if tries then
                        (case boundedGunzip env raw0 (maxGunzipOutput d) of Some g \<Rightarrow> g | None \<Rightarrow> raw0)
                      else raw0);
               decoded = decodeUTF8Replace raw
           in if replacementCharRatio decoded > 2 / 10 then (None, d1)
              else if printableRatio env decoded \<ge> minPrintableRatio then (Some decoded, d1)
              else (None, d1)))"

section \<open>Tokens\<close>

definition urlsafeTranslate :: "string \<Rightarrow> string" where
  "urlsafeTranslate cleaned = rune_text (map (\<lambda>r. if r = 45 then 43 else if r = 95 then 47 else r) (runes cleaned))"

definition containsAny :: "string \<Rightarrow> string \<Rightarrow> bool" where
  "containsAny s chars \<longleftrightarrow> list_ex (\<lambda>r. r \<in> set (runes chars)) (runes s)"

definition removeAll_runes :: "string \<Rightarrow> string \<Rightarrow> string" where
  "removeAll_runes s chars = rune_text (filter (\<lambda>r. \<not> containsAny (rune_text [r]) chars) (runes s))"

definition removeAllSeparators :: "string \<Rightarrow> string" where
  "removeAllSeparators token =
     rune_text (filter (\<lambda>r. (65 \<le> r \<and> r \<le> 90) \<or> (97 \<le> r \<and> r \<le> 122) \<or> (48 \<le> r \<and> r \<le> 57)
        \<or> r = 43 \<or> r = 47 \<or> r = 95 \<or> r = 45) (runes token))"

definition decodeToken :: "b64_env \<Rightarrow> b64Decoder \<Rightarrow> string \<Rightarrow> real \<Rightarrow> string option \<times> b64Decoder" where
  "decodeToken env d token minPrintableRatio =
     (if isHexLiteral token then (None, d)
      else
        (let cleaned = removeAllSeparators token;
             (first, d1) = decodeCleaned env d (urlsafeTranslate cleaned) minPrintableRatio
         in case first of
              Some t \<Rightarrow> (Some t, d1)
            | None \<Rightarrow>
                (if containsAny cleaned ''-_''
                 then decodeCleaned env d1 (removeAll_runes cleaned ''-_'') minPrintableRatio
                 else (None, d1))))"

definition b64FallbackPrintableRatioThreshold :: real where
  "b64FallbackPrintableRatioThreshold = 95 / 100"

definition decodeRuns :: "b64_env \<Rightarrow> b64Decoder \<Rightarrow> string \<Rightarrow> string \<times> b64Decoder" where
  "decodeRuns env d token =
     ReplaceFunc b64RunRE
       (\<lambda>d m. case decodeToken env d (rune_text m) b64FallbackPrintableRatioThreshold of
          (Some t, d1) \<Rightarrow> (t, d1) | (None, d1) \<Rightarrow> (rune_text m, d1))
       token d"

definition b64MinRunLength :: nat where
  "b64MinRunLength = 12"

definition replaceCandidate :: "b64_env \<Rightarrow> b64Decoder \<Rightarrow> nat list \<Rightarrow> string \<times> b64Decoder" where
  "replaceCandidate env d m =
     (let token = rune_text m;
          threshold = (if find_rx b64WidenedMarkerRE [] (runes token) \<noteq> None then b64FallbackPrintableRatioThreshold
                       else 1 / 2);
          (decoded, d1) = decodeToken env d token threshold;
          (base, d2) = (case decoded of Some t \<Rightarrow> (t, d1) | None \<Rightarrow> decodeRuns env d1 token);
          fragments = concat (findAllStrings b64SubFloorRE token)
      in if length fragments < b64MinRunLength then (base, d2)
         else
           (case decodeToken env d2 fragments b64FallbackPrintableRatioThreshold of
              (None, d3) \<Rightarrow> (base, d3)
            | (Some reassembled, d3) \<Rightarrow>
                (if contains_sub base reassembled then (base, d3) else (base @ '' '' @ reassembled, d3))))"

definition decodeBase64Candidates :: "b64_env \<Rightarrow> string \<Rightarrow> nat \<Rightarrow> nat \<Rightarrow> string \<times> nat" where
  "decodeBase64Candidates env content attemptsLeft maxOutput =
     (let (out, d) = ReplaceFunc b64BaseRE (replaceCandidate env) content
            \<lparr>gunzipAttemptsLeft = attemptsLeft, maxGunzipOutput = maxOutput\<rparr>
      in (out, gunzipAttemptsLeft d))"

section \<open>Short tokens\<close>

definition shortBase64DecodeToken :: "string \<Rightarrow> string option" where
  "shortBase64DecodeToken token =
     (if length token > 11 then None
      else
        (case b64_decode (pad64 token) of
           None \<Rightarrow> None
         | Some raw \<Rightarrow> if utf8_valid raw then Some raw else None))"

definition isQualifyingFragment :: "b64_env \<Rightarrow> string \<Rightarrow> bool" where
  "isQualifyingFragment env t \<longleftrightarrow> \<not> printableRatio env t < 95 / 100 \<and> containsAny t ''${}#''"

definition buildShortBase64AdditiveView ::
  "b64_env \<Rightarrow> (string \<Rightarrow> string) \<Rightarrow> (string \<Rightarrow> string) \<Rightarrow> string \<Rightarrow> string" where
  "buildShortBase64AdditiveView env normal trunc content =
     (if content = [] then []
      else
        (let tokens = take 20000 (findAllStrings shortBase64TokenRE (trunc (normal content)));
             fragments = List.map_filter (\<lambda>t. case shortBase64DecodeToken t of
                 Some f \<Rightarrow> if isQualifyingFragment env f then Some f else None
               | None \<Rightarrow> None) tokens
         in join_with [CHR 0x0A] fragments))"

section \<open>The codec undoes an encoder\<close>

text \<open>Base64 without padding, the specification the decoder is compared with.\<close>

definition b64_char :: "nat \<Rightarrow> char" where
  "b64_char n =
     char_of (if n < 26 then n + 65 else if n < 52 then n + 71 else if n < 62 then n - 4 else if n = 62 then 43 else 47)"

fun b64_digits :: "string \<Rightarrow> string" where
  "b64_digits [] = []"
| "b64_digits [a] = [b64_char (byte a div 4), b64_char (byte a mod 4 * 16)]"
| "b64_digits [a, b] =
     [b64_char (byte a div 4), b64_char (byte a mod 4 * 16 + byte b div 16), b64_char (byte b mod 16 * 4)]"
| "b64_digits (a # b # c # s) =
     b64_char (byte a div 4) # b64_char (byte a mod 4 * 16 + byte b div 16)
     # b64_char (byte b mod 16 * 4 + byte c div 64) # b64_char (byte c mod 64) # b64_digits s"

lemma b64_val_char: "n < 64 \<Longrightarrow> b64_val (b64_char n) = Some n \<and> b64_char n \<noteq> CHR ''=''"
proof -
  assume n: "n < 64"
  define c where
    "c = (if n < 26 then n + 65 else if n < 52 then n + 71 else if n < 62 then n - 4 else if n = 62 then 43 else (47 :: nat))"
  have c: "c < 256" "b64_char n = char_of c" "c \<noteq> 61" using n by (auto simp: c_def b64_char_def)
  have "b64_val (char_of c) = Some n" unfolding b64_val_def Let_def byte_char_of[OF c(1)] using n by (auto simp: c_def)
  moreover have "byte (b64_char n) \<noteq> byte (CHR ''='')" using c by simp
  ultimately show ?thesis using c(2) by metis
qed

lemma sextets:
  "byte a div 4 < 64" "byte b div 16 < 16" "byte c div 64 < 4"
  "byte a mod 4 * 16 + byte b div 16 < 64" "byte b mod 16 * 4 + byte c div 64 < 64"
proof -
  have byte: "byte x < 256" for x :: char by simp
  show q: "byte a div 4 < 64" "byte b div 16 < 16" "byte c div 64 < 4"
    using byte[of a] byte[of b] byte[of c] by (simp_all add: less_mult_imp_div_less)
  have "byte a mod 4 \<le> 3" "byte b mod 16 \<le> 15" by (simp_all flip: less_Suc_eq_le)
  then show "byte a mod 4 * 16 + byte b div 16 < 64" "byte b mod 16 * 4 + byte c div 64 < 64" using q by linarith+
qed

lemma pad64_Cons4: "pad64 (a # b # c # d # s) = a # b # c # d # pad64 s"
  by (simp add: pad64_def)

lemma b64_decode_digits: "b64_decode (pad64 (b64_digits s)) = Some s"
proof (induction s rule: b64_digits.induct)
  case (2 a)
  have "byte a mod 4 * 16 < 64" using sextets(4)[of a "char_of 0"] by simp
  then show ?case using sextets(1)[of a] by (simp add: pad64_def b64_val_char replicate_numeral)
next
  case (3 a b)
  have "byte b mod 16 * 4 < 64" using sextets(5)[of b "char_of 0"] by simp
  then show ?case using sextets(1)[of a] sextets(2)[of b] sextets(4)[of a b] by (simp add: pad64_def b64_val_char)
next
  case (4 a b c s)
  have "byte c mod 64 < 64" by simp
  then show ?case using 4 sextets(1)[of a] sextets(2)[of b] sextets(3)[of c] sextets(4)[of a b] sextets(5)[of b c] by (simp add: pad64_Cons4 b64_val_char)
qed (simp add: pad64_def)

text \<open>A text the ratios accept: a non-empty sequence of printable runes.\<close>

definition readable :: "b64_env \<Rightarrow> nat list \<Rightarrow> bool" where
  "readable env rs \<longleftrightarrow> rs \<noteq> [] \<and> list_all (\<lambda>r. scalar r \<and> r \<noteq> 65533 \<and> (r = 32 \<or> be_isPrint env r)) rs"

lemma encode_scalar_head: "scalar r \<Longrightarrow> \<not> cont (hd (encode_scalar r))"
  by (auto simp: encode_scalar_def cont_def scalar_def)

lemma rune_text_no_gzip:
  assumes "\<forall>r \<in> set rs. scalar r"
  shows "\<not> gzip_magic (rune_text rs)"
proof
  assume g: "gzip_magic (rune_text rs)"
  then obtain r rs1 where rs: "rs = r # rs1" by (cases rs) (auto simp: gzip_magic_def rune_text_def)
  define e where "e = encode_scalar r"
  have t: "rune_text rs = e @ rune_text rs1" using assms rs by (simp add: rune_text_def encode_rune_def e_def)
  have "byte (hd e) = 31" using g by (cases e) (simp_all add: t gzip_magic_def e_def)
  then have e1: "e = [char_of (31 :: nat)]" using assms rs
    by (auto simp: e_def encode_scalar_def scalar_def split: if_splits)
  have g1: "gzip_magic (char_of (31 :: nat) # rune_text rs1)" using g by (simp add: t e1)
  then obtain r2 rs2 where rs1: "rs1 = r2 # rs2" by (cases rs1) (auto simp: gzip_magic_def rune_text_def)
  then have t1: "rune_text rs1 = encode_scalar r2 @ rune_text rs2" using assms rs by (simp add: rune_text_def encode_rune_def)
  have "byte (hd (encode_scalar r2)) = 139"
    using g1 unfolding t1 by (cases "encode_scalar r2") (auto simp: gzip_magic_def)
  then show False using encode_scalar_head[of r2] assms rs rs1 by (simp add: cont_def)
qed

lemma decodeCleaned_readable:
  assumes "readable env rs" "p \<le> 1"
  shows "decodeCleaned env d (b64_digits (rune_text rs)) p = (Some (rune_text rs), d)"
proof -
  have sc: "\<forall>r \<in> set rs. scalar r" and pr: "filter (\<lambda>r. r = 32 \<or> be_isPrint env r) rs = rs" "filter (\<lambda>r. r = 65533) rs = []"
    using assms(1) by (auto simp: readable_def list_all_iff filter_id_conv filter_empty_conv)
  have "rs \<noteq> []" using assms(1) by (simp add: readable_def)
  then have "printableRatio env (rune_text rs) = 1" "replacementCharRatio (rune_text rs) = 0" "rune_text rs \<noteq> []"
    using runes_rune_text[OF sc] pr by (auto simp: printableRatio_def replacementCharRatio_def rune_text_def)
  then show ?thesis using assms(2) rune_text_no_gzip[OF sc]
    by (simp add: decodeCleaned_def b64_decode_digits Let_def decodeUTF8Replace_def runes_rune_text[OF sc])
qed

definition std_rune :: "nat \<Rightarrow> nat" where
  "std_rune r = (if r = 45 then 43 else if r = 95 then 47 else r)"

lemma data_rune_ascii: "data_rune r \<Longrightarrow> r < 128"
  by (auto simp: data_rune_def alnum_rune_def)

lemma removeAllSeparators_eq: "removeAllSeparators token = rune_text (filter data_rune (runes token))"
proof -
  have "data_rune = (\<lambda>r. (65 \<le> r \<and> r \<le> 90) \<or> (97 \<le> r \<and> r \<le> 122) \<or> (48 \<le> r \<and> r \<le> 57) \<or> r = 43 \<or> r = 47 \<or> r = 95 \<or> r = 45)"
    by (simp add: fun_eq_iff data_rune_def alnum_rune_def)
  then show ?thesis by (simp add: removeAllSeparators_def)
qed

lemma decodeToken_spelled:
  assumes "readable env rs" "p \<le> 1" "\<not> isHexLiteral token"
    and "map std_rune (filter data_rune (runes token)) = map byte (b64_digits (rune_text rs))"
  shows "decodeToken env d token p = (Some (rune_text rs), d)"
proof -
  let ?xs = "filter data_rune (runes token)"
  have sc: "\<forall>r \<in> set ?xs. scalar r" by (auto simp: scalar_def dest!: data_rune_ascii)
  have "\<forall>r \<in> set (map std_rune ?xs). r < 128" by (auto simp: std_rune_def dest!: data_rune_ascii)
  then have ascii: "\<forall>c \<in> set (b64_digits (rune_text rs)). byte c < 128" unfolding assms(4) by simp
  have "urlsafeTranslate (removeAllSeparators token) = rune_text (map std_rune ?xs)"
    unfolding urlsafeTranslate_def removeAllSeparators_eq runes_rune_text[OF sc] by (simp add: std_rune_def cong: map_cong)
  also have "\<dots> = b64_digits (rune_text rs)" unfolding assms(4) by (rule rune_text_ascii[OF ascii])
  finally show ?thesis using assms(3) decodeCleaned_readable[OF assms(1,2)] by (simp add: decodeToken_def Let_def)
qed

section \<open>One candidate\<close>

lemma reps_class:
  "\<forall>r \<in> set es. p r \<Longrightarrow> length es \<le> k \<Longrightarrow> rest = [] \<or> \<not> p (hd rest) \<Longrightarrow>
   \<exists>tl. reps True (ms (Class p)) k 0 (pre, es @ rest, g) = (rev es @ pre, rest, g) # tl"
proof (induction es arbitrary: k pre)
  case Nil
  then show ?case by (cases k; cases rest) simp_all
next
  case (Cons e es)
  then obtain k1 where k: "k = Suc k1" by (cases k) auto
  obtain tl where "reps True (ms (Class p)) k1 0 (e # pre, es @ rest, g) = (rev es @ e # pre, rest, g) # tl"
    using Cons k by fastforce
  then show ?case using Cons.prems by (simp add: k Let_def)
qed

text \<open>A run of the alphabet and of ASCII separators that begins in the alphabet is taken whole.\<close>

lemma unit_run:
  "\<forall>r \<in> set rest. r < 128 \<Longrightarrow> rest \<noteq> [] \<Longrightarrow> data_rune (hd rest) \<Longrightarrow> m \<le> length (filter data_rune rest) \<Longrightarrow> length rest \<le> k \<Longrightarrow>
   \<exists>tl. reps True (ms b64RunUnit) k m (pre, rest, g) = (rev rest @ pre, [], g) # tl"
proof (induction rest arbitrary: pre m k rule: length_induct)
  case (1 rest)
  obtain d xs where rest: "rest = d # xs" using 1(3) by (cases rest) auto
  obtain k1 where k: "k = Suc k1" using 1(6) rest by (cases k) auto
  define es where "es = takeWhile b64_separator xs"
  define ys where "ys = dropWhile b64_separator xs"
  have xs: "xs = es @ ys" by (simp add: es_def ys_def)
  have es: "\<forall>r \<in> set es. b64_separator r" by (auto simp: es_def dest: set_takeWhileD)
  have sep: "ys = [] \<or> \<not> b64_separator (hd ys)" using hd_dropWhile[of b64_separator xs] by (auto simp: ys_def)
  moreover have "\<forall>r \<in> set ys. r < 128" using 1(2) by (simp add: rest xs)
  ultimately have ys: "ys = [] \<or> data_rune (hd ys)" by (cases ys) (auto simp: b64_separator_def)
  obtain tl1 where "reps True (ms (Class b64_separator)) (length xs) 0 (d # pre, xs, g) = (rev es @ d # pre, ys, g) # tl1"
    using reps_class[OF es _ sep, of "length xs" "d # pre" g] by (auto simp: xs)
  then have unit: "ms b64RunUnit (pre, rest, g) = (rev es @ d # pre, ys, g) # tl1"
    using 1(4) by (simp add: b64RunUnit_def rest most_def)
  have "filter data_rune es = []" using es by (auto simp: filter_empty_conv b64_separator_def)
  then have count: "length (filter data_rune rest) = Suc (length (filter data_rune ys))" using 1(4) by (simp add: rest xs)
  have "\<exists>tl. reps True (ms b64RunUnit) k1 (m - 1) (rev es @ d # pre, ys, g) = (rev ys @ rev es @ d # pre, [], g) # tl"
  proof (cases "ys = []")
    case True
    then have "m - 1 = 0" using 1(5) count by simp
    then show ?thesis using True by (cases k1) (simp_all add: b64RunUnit_def)
  next
    case False
    then show ?thesis using 1(1)[rule_format, of ys "m - 1" k1 "rev es @ d # pre"] 1(2,5,6) count ys k by (auto simp: rest xs)
  qed
  then show ?case using unit by (auto simp: k Let_def rest xs)
qed

lemma base_match:
  assumes "\<forall>r \<in> set rest. r < 128" "rest \<noteq> []" "data_rune (hd rest)" "12 \<le> length (filter data_rune rest)"
    and "pre = [] \<or> \<not> data_rune (hd pre)"
  shows "match_here b64BaseRE pre rest = Some \<lparr>mx_before = [], mx_text = rest, mx_after = [], mx_groups = []\<rparr>"
proof -
  obtain tl where "reps True (ms b64RunUnit) (length rest) 12 (pre, rest, []) = (rev rest @ pre, [], []) # tl"
    using unit_run[OF assms(1-4) order_refl] by blast
  moreover have "ms (Greedy 0 (Some 2) eq_sign) (rev rest @ pre, [], []) = [(rev rest @ pre, [], [])]"
    by (simp add: most_def eq_sign_def numeral_2_eq_2)
  moreover have "ms (NotBehind data_rune) (pre, rest, []) = [(pre, rest, [])]" using assms(5) by (cases pre) simp_all
  ultimately obtain tl2 where "ms b64BaseRE (pre, rest, []) = (rev rest @ pre, [], []) # tl2"
    by (simp add: b64BaseRE_def most_def)
  then show ?thesis by (simp add: match_here_def)
qed

lemma no_base_match: "rest = [] \<or> \<not> data_rune (hd rest) \<Longrightarrow> match_here b64BaseRE pre rest = None"
proof -
  assume "rest = [] \<or> \<not> data_rune (hd rest)"
  then have "ms b64RunUnit (p, rest, g) = []" for p g by (cases rest) (simp_all add: b64RunUnit_def)
  then have "0 < m \<Longrightarrow> reps True (ms b64RunUnit) k m (p, rest, g) = []" for k m p g by (cases k) simp_all
  then have "ms b64BaseRE (pre, rest, []) = []" by (cases pre) (simp_all add: b64BaseRE_def)
  then show ?thesis by (simp add: match_here_def)
qed

lemma find_base:
  assumes "\<forall>r \<in> set token. r < 128" "token \<noteq> []" "data_rune (hd token)" "12 \<le> length (filter data_rune token)"
  shows "\<forall>r \<in> set lead. \<not> data_rune r \<Longrightarrow> pre = [] \<or> \<not> data_rune (hd pre) \<Longrightarrow>
    find_rx b64BaseRE pre (lead @ token) = Some \<lparr>mx_before = lead, mx_text = token, mx_after = [], mx_groups = []\<rparr>"
proof (induction lead arbitrary: pre)
  case Nil
  then show ?case using base_match[OF assms] by (simp add: find_rx.simps[of b64BaseRE pre token])
next
  case (Cons c cs)
  then have "find_rx b64BaseRE (c # pre) (cs @ token) = Some \<lparr>mx_before = cs, mx_text = token, mx_after = [], mx_groups = []\<rparr>" by simp
  then show ?case using Cons.prems no_base_match[of "c # cs @ token" pre]
    by (simp add: find_rx.simps[of b64BaseRE pre "c # cs @ token"])
qed

lemma find_all_base:
  assumes "\<forall>r \<in> set token. r < 128" "token \<noteq> []" "data_rune (hd token)" "12 \<le> length (filter data_rune token)"
    and "\<forall>r \<in> set lead. \<not> data_rune r"
  shows "find_all_rx b64BaseRE [] (lead @ token) = [\<lparr>mx_before = lead, mx_text = token, mx_after = [], mx_groups = []\<rparr>]"
proof -
  have "find_rx b64BaseRE pre [] = None" for pre using no_base_match[of "[]"] by (simp add: find_rx.simps[of b64BaseRE pre "[]"])
  then have "find_all_rx b64BaseRE pre [] = []" for pre by (simp add: find_all_rx.simps[of b64BaseRE pre "[]"])
  then show ?thesis using find_base[OF assms, of "[]"] assms(2) by (simp add: find_all_rx.simps[of b64BaseRE "[]" "lead @ token"])
qed

lemma replaceCandidate_spelled:
  assumes "readable env rs" "\<not> isHexLiteral (rune_text m)"
    and "map std_rune (filter data_rune (runes (rune_text m))) = map byte (b64_digits (rune_text rs))"
  shows "\<exists>suffix. fst (replaceCandidate env d m) = rune_text rs @ suffix"
proof -
  let ?p = "if find_rx b64WidenedMarkerRE [] (runes (rune_text m)) \<noteq> None then b64FallbackPrintableRatioThreshold else 1 / 2"
  have "?p \<le> 1" by (simp add: b64FallbackPrintableRatioThreshold_def)
  from decodeToken_spelled[OF assms(1) this assms(2,3)] show ?thesis
    unfolding replaceCandidate_def Let_def by (simp split: prod.splits option.splits)
qed


definition wt_b64 :: b64_env where
  "wt_b64 = \<lparr>be_isPrint = (\<lambda>r. 32 \<le> r \<and> r < 127), be_gunzip = (\<lambda>_ _. None)\<rparr>"

lemma wt_script: "rune_text [60, 115, 99, 114, 105, 112, 116, 62, 49] = ''<script>1''"
  using rune_text_ascii[of "''<script>1''"] by simp


text \<open>The base64 of \<open>SLEEP(5)\<close> contains \<open>0xF\<close> and passes for a hexadecimal literal.\<close>

theorem hex_literal_shields_payload:
  "b64_decode ''U0xFRVAoNSk='' = Some ''SLEEP(5)''
   \<and> decodeBase64Candidates env ''U0xFRVAoNSk='' attempts maxOutput = (''U0xFRVAoNSk='', attempts)"
proof -
  let ?t = "''U0xFRVAoNSk=''"
  let ?rs = "[85, 48, 120, 70, 82, 86, 65, 111, 78, 83, 107, 61]"
  have t: "runes ?t = ?rs" "rune_text ?rs = ?t" using runes_ascii[of ?t] rune_text_ascii[of ?t] by simp_all
  have "find_all_rx b64BaseRE [] ?rs = [\<lparr>mx_before = [], mx_text = ?rs, mx_after = [], mx_groups = []\<rparr>]" by code_simp
  moreover have "find_all_rx b64RunRE [] ?rs = []" by code_simp
  moreover have "map mx_text (find_all_rx b64SubFloorRE [] ?rs) = [butlast ?rs]" by code_simp
  then have "length (concat (findAllStrings b64SubFloorRE ?t)) = 11"
    using rune_text_ascii[of "butlast ?t"] by (simp add: findAllStrings_def t flip: map_map[unfolded comp_def])
  moreover have "isHexLiteral ?t" by code_simp
  then have "decodeToken env d ?t p = (None, d)" for d p by (simp add: decodeToken_def)
  moreover have "b64_decode ?t = Some ''SLEEP(5)''" by (simp add: b64_val_def Let_def char_of_iff)
  ultimately show ?thesis
    by (simp add: decodeBase64Candidates_def ReplaceFunc_def replaceCandidate_def decodeRuns_def Let_def t rune_text_Nil
        b64MinRunLength_def)
qed

end
