(* ===== verification/Truncation.thy ===== *)
theory Truncation
  imports Regexp2 "HOL-Library.Multiset"
begin

text \<open>
  Truncation of a long content to what is scanned: \<open>guardcore/truncation.go\<close> and \<open>truncateSafely\<close> of
  \<open>guardcore/preprocessor.go\<close>, with \<open>scanText\<close> of \<open>guardcore/engine.go\<close>. Positions are counted in runes; the byte
  positions the code converts with \<open>runeOff\<close> do not appear. Regions are natural numbers: the code clips them at zero.
\<close>

section \<open>Texts and indicators\<close>

record scanText =
  st_s :: string
  st_rs :: "nat list"

definition newScanText :: "string \<Rightarrow> scanText" where
  "newScanText s = \<lparr>st_s = s, st_rs = runes s\<rparr>"

abbreviation st_n :: "scanText \<Rightarrow> nat" where
  "st_n t \<equiv> length (st_rs t)"

definition st_str :: "scanText \<Rightarrow> nat \<Rightarrow> nat \<Rightarrow> string" where
  "st_str t a b = (if a \<ge> min b (st_n t) then [] else rune_text (slice (st_rs t) a (min b (st_n t))))"

definition digit_rune :: "nat \<Rightarrow> bool" where
  "digit_rune r \<longleftrightarrow> 48 \<le> r \<and> r \<le> 57"

definition word_rune :: "nat \<Rightarrow> bool" where
  "word_rune r \<longleftrightarrow> (65 \<le> r \<and> r \<le> 90) \<or> (97 \<le> r \<and> r \<le> 122) \<or> digit_rune r \<or> r = 95"

definition folded_word_rune :: "nat \<Rightarrow> bool" where
  "folded_word_rune r \<longleftrightarrow> word_rune r \<or> r = 383 \<or> r = 8490"

definition not_newline :: "nat \<Rightarrow> bool" where
  "not_newline r \<longleftrightarrow> r \<noteq> 10"

definition chain_rune :: "nat \<Rightarrow> bool" where
  "chain_rune r \<longleftrightarrow> r = 59 \<or> r = 38 \<or> r = 124"

definition blank_rune :: "nat \<Rightarrow> bool" where
  "blank_rune r \<longleftrightarrow> r = 9 \<or> r = 10 \<or> r = 12 \<or> r = 13 \<or> r = 32"

definition hex_digit_rune :: "nat \<Rightarrow> bool" where
  "hex_digit_rune r \<longleftrightarrow> digit_rune r \<or> (97 \<le> r \<and> r \<le> 102) \<or> (65 \<le> r \<and> r \<le> 70)"

fun rx_seq :: "rx list \<Rightarrow> rx" where
  "rx_seq [] = NotBehind (\<lambda>_. False)"
| "rx_seq [a] = a"
| "rx_seq (a # as) = Seq a (rx_seq as)"

definition blanks :: rx where
  "blanks = Greedy 1 None (Class blank_rune)"

definition some_blanks :: rx where
  "some_blanks = Greedy 0 None (Class blank_rune)"

definition octet :: rx where
  "octet = Greedy 1 (Some 3) (Class digit_rune)"

lemmas rune_classes = digit_rune_def word_rune_def folded_word_rune_def not_newline_def chain_rune_def blank_rune_def
  hex_digit_rune_def blanks_def some_blanks_def octet_def

definition compiledIndicators :: "rx list" where
  "compiledIndicators =
     [literal_i ''<script'',
      literal_i ''javascript:'',
      rx_seq [literal_i ''on'', Greedy 1 None (Class folded_word_rune), literal ''=''],
      rx_seq [literal_i ''SELECT'', blanks, Lazy 0 (Some 50) (Class not_newline), blanks, literal_i ''FROM''],
      rx_seq [literal_i ''UNION'', blanks, literal_i ''SELECT''],
      literal ''../'',
      rx_seq [literal_i ''eval'', some_blanks, literal ''(''],
      rx_seq [literal_i ''exec'', some_blanks, literal ''(''],
      rx_seq [literal_i ''system'', some_blanks, literal ''(''],
      literal_i ''<?php'',
      literal ''<%'',
      literal ''{{'',
      literal ''{%'',
      literal_i ''<iframe'',
      literal_i ''<object'',
      literal_i ''<embed'',
      rx_seq [literal_i ''onerror'', some_blanks, literal ''=''],
      rx_seq [literal_i ''onload'', some_blanks, literal ''=''],
      literal ''${'',
      rx_seq [literal [CHR 0x5C], literal_i ''x'', Class hex_digit_rune, Class hex_digit_rune],
      rx_seq [literal ''%'', Class hex_digit_rune, Class hex_digit_rune],
      literal [CHR 0x60],
      literal ''$('',
      Class chain_rune,
      rx_seq [Boundary word_rune, octet, literal ''.'', octet, literal ''.'', octet, literal ''.'', octet, Boundary word_rune]]"

section \<open>Regions\<close>

type_synonym region = "nat \<times> nat"

fun spans :: "nat \<Rightarrow> rx_match list \<Rightarrow> region list" where
  "spans p [] = []"
| "spans p (m # mts) =
     (p + length (mx_before m), p + length (mx_before m) + length (mx_text m))
     # spans (p + length (mx_before m) + length (mx_text m)) mts"

definition indicator_spans :: "scanText \<Rightarrow> rx \<Rightarrow> region list" where
  "indicator_spans t re = spans 0 (find_all_rx re [] (st_rs t))"

definition with_context :: "scanText \<Rightarrow> region \<Rightarrow> region" where
  "with_context t loc = (fst loc - 100, min (snd loc + 100) (st_n t))"

definition add_regions :: "nat \<Rightarrow> scanText \<Rightarrow> rx \<Rightarrow> region list \<Rightarrow> region list" where
  "add_regions maxRegions t re regions = regions @ map (with_context t) (take maxRegions (indicator_spans t re))"

fun collect_regions :: "nat \<Rightarrow> scanText \<Rightarrow> rx list \<Rightarrow> region list \<Rightarrow> region list" where
  "collect_regions maxRegions t [] regions = regions"
| "collect_regions maxRegions t (re # res) regions =
     (let regions1 = add_regions maxRegions t re regions in
      if length regions1 \<ge> maxRegions then regions1 else collect_regions maxRegions t res regions1)"

text \<open>The insertion sort: an element sinks through the sorted elements before it, which are held in reverse.\<close>

definition region_less :: "region \<Rightarrow> region \<Rightarrow> bool" where
  "region_less a b \<longleftrightarrow> fst a < fst b \<or> (fst a = fst b \<and> snd a < snd b)"

fun sink :: "region \<Rightarrow> region list \<Rightarrow> region list" where
  "sink r [] = [r]"
| "sink r (p # ps) = (if region_less r p then p # sink r ps else r # p # ps)"

definition sortRegions :: "region list \<Rightarrow> region list" where
  "sortRegions regions = rev (fold sink regions [])"

fun merge_step :: "region \<Rightarrow> region list \<Rightarrow> region list" where
  "merge_step r [] = [r]"
| "merge_step r (l # older) =
     (if fst r \<le> snd l then (if snd r > snd l then (fst l, snd r) # older else l # older) else r # l # older)"

definition merge_regions :: "region list \<Rightarrow> region list" where
  "merge_regions regions = rev (fold merge_step regions [])"

definition extractAttackRegions :: "scanText \<Rightarrow> nat \<Rightarrow> region list" where
  "extractAttackRegions t maxContentLength =
     (let maxRegions = min (maxContentLength div 100) 100;
          regions = collect_regions maxRegions t compiledIndicators []
      in if regions = [] then [] else take maxRegions (merge_regions (sortRegions regions)))"

section \<open>The truncated text\<close>

fun concat_regions :: "nat list \<Rightarrow> region list \<Rightarrow> nat \<Rightarrow> nat list" where
  "concat_regions rs [] remaining = []"
| "concat_regions rs (r # regions) remaining =
     (let chunkLen = min (snd r - fst r) remaining;
          out = slice rs (fst r) (fst r + chunkLen)
      in if remaining - chunkLen = 0 then out else out @ concat_regions rs regions (remaining - chunkLen))"

definition extractAndConcatenateAttackRegions :: "scanText \<Rightarrow> region list \<Rightarrow> nat \<Rightarrow> string" where
  "extractAndConcatenateAttackRegions t regions budget = rune_text (concat_regions (st_rs t) regions budget)"

definition consumeGap :: "scanText \<Rightarrow> nat \<Rightarrow> nat \<Rightarrow> nat \<Rightarrow> string \<times> nat" where
  "consumeGap t lastEnd start gapBudget =
     (let gapLen = start - lastEnd in
      if gapLen \<le> gapBudget then (st_str t lastEnd start, gapBudget - gapLen)
      else
        (let chunkLen = gapBudget - 1;
             piece = (if chunkLen > 0 then st_str t lastEnd (lastEnd + chunkLen) else [])
         in (piece @ '' '', 0)))"

fun build_parts :: "scanText \<Rightarrow> region list \<Rightarrow> nat \<Rightarrow> nat \<Rightarrow> string" where
  "build_parts t [] lastEnd gapBudget =
     (if lastEnd < st_n t \<and> gapBudget > 0 then st_str t lastEnd (lastEnd + min (st_n t - lastEnd) gapBudget) else [])"
| "build_parts t (r # regions) lastEnd gapBudget =
     (let (piece, gb) = (if lastEnd < fst r \<and> gapBudget > 0 then consumeGap t lastEnd (fst r) gapBudget else ([], gapBudget))
      in piece @ st_str t (fst r) (snd r) @ build_parts t regions (snd r) gb)"

definition region_total :: "region list \<Rightarrow> nat" where
  "region_total regions = sum_list (map (\<lambda>r. snd r - fst r) regions)"

definition buildResultWithAttackRegionsAndContext :: "scanText \<Rightarrow> region list \<Rightarrow> nat \<Rightarrow> string" where
  "buildResultWithAttackRegionsAndContext t regions budget = build_parts t regions 0 (budget - region_total regions)"

definition fullScanTailBytes :: nat where
  "fullScanTailBytes = 4096"

definition capWithTail :: "nat list \<Rightarrow> nat \<Rightarrow> string" where
  "capWithTail rs maxFullScanBytes =
     (let tail = min fullScanTailBytes maxFullScanBytes; headLen = maxFullScanBytes - tail
      in rune_text (take headLen rs @ drop (length rs - tail) rs))"

record preprocessor =
  maxContentLength :: nat
  preserveAttackPatterns :: bool
  maxFullScanBytes :: nat

definition truncateSafely :: "preprocessor \<Rightarrow> string \<Rightarrow> string" where
  "truncateSafely p content =
     (let t = newScanText content in
      if st_n t \<le> maxFullScanBytes p then content
      else if \<not> preserveAttackPatterns p then st_str t 0 (maxFullScanBytes p)
      else
        (let regions = extractAttackRegions t (maxContentLength p) in
         if regions = [] then capWithTail (st_rs t) (maxFullScanBytes p)
         else if region_total regions \<ge> maxFullScanBytes p
         then extractAndConcatenateAttackRegions t regions (maxFullScanBytes p)
         else buildResultWithAttackRegionsAndContext t regions (maxFullScanBytes p)))"

section \<open>Regions are in bounds, sorted and disjoint\<close>

definition in_bounds :: "nat \<Rightarrow> region \<Rightarrow> bool" where
  "in_bounds n r \<longleftrightarrow> fst r \<le> snd r \<and> snd r \<le> n"

lemma spans_bounds:
  "r \<in> set (spans p (find_all_rx re pre rest)) \<Longrightarrow> p \<le> fst r \<and> fst r \<le> snd r \<and> snd r \<le> p + length rest"
proof (induction re pre rest arbitrary: p rule: find_all_rx.induct)
  case (1 re pre rest)
  show ?case
  proof (cases "find_rx re pre rest")
    case None
    then show ?thesis using 1(2) by (simp add: find_all_rx.simps[of re pre rest])
  next
    case (Some m)
    have len: "length rest = length (mx_before m) + length (mx_text m) + length (mx_after m)"
      using arg_cong[OF find_rx_splits[OF Some], of length] by simp
    show ?thesis
    proof (cases "mx_text m = []")
      case True
      then show ?thesis using 1(2) Some by (simp add: find_all_rx.simps[of re pre rest])
    next
      case False
      let ?q = "p + length (mx_before m) + length (mx_text m)"
      have "r = (p + length (mx_before m), ?q)
          \<or> r \<in> set (spans ?q (find_all_rx re (rev (mx_before m @ mx_text m) @ pre) (mx_after m)))"
        using 1(2) Some False by (simp add: find_all_rx.simps[of re pre rest])
      then show ?thesis using 1(1)[OF Some False, of ?q] len by auto
    qed
  qed
qed

lemma indicator_spans_bounds: "r \<in> set (indicator_spans t re) \<Longrightarrow> in_bounds (st_n t) r"
  using spans_bounds[of r 0 re "[]" "st_rs t"] by (simp add: indicator_spans_def in_bounds_def)

lemma with_context_bounds: "in_bounds (st_n t) r \<Longrightarrow> in_bounds (st_n t) (with_context t r)"
  by (auto simp: in_bounds_def with_context_def)

lemma collect_regions_bounds:
  "list_all (in_bounds (st_n t)) regions \<Longrightarrow> list_all (in_bounds (st_n t)) (collect_regions k t res regions)"
proof (induction k t res regions rule: collect_regions.induct)
  case (2 k t re res regions)
  have "list_all (in_bounds (st_n t)) (map (with_context t) (take k (indicator_spans t re)))"
    unfolding list_all_iff
  proof
    fix x assume "x \<in> set (map (with_context t) (take k (indicator_spans t re)))"
    then obtain r where "x = with_context t r" "r \<in> set (indicator_spans t re)" using in_set_takeD by force
    then show "in_bounds (st_n t) x" using with_context_bounds indicator_spans_bounds by simp
  qed
  then have "list_all (in_bounds (st_n t)) (add_regions k t re regions)" using 2(2) by (simp add: add_regions_def)
  then show ?case using 2(1) by (simp add: Let_def)
qed simp

text \<open>A search that was not cut short has collected every match.\<close>

lemma collect_regions_extends:
  "set regions \<subseteq> set (collect_regions k t res regions) \<and> length regions \<le> length (collect_regions k t res regions)"
proof (induction k t res regions rule: collect_regions.induct)
  case (2 k t re res regions)
  have "set regions \<subseteq> set (add_regions k t re regions)" "length regions \<le> length (add_regions k t re regions)"
    by (simp_all add: add_regions_def)
  then show ?case using 2 by (auto simp: Let_def)
qed simp

lemma collect_regions_all:
  "length (collect_regions k t res regions) < k \<Longrightarrow> re \<in> set res \<Longrightarrow> r \<in> set (indicator_spans t re) \<Longrightarrow>
   with_context t r \<in> set (collect_regions k t res regions)"
proof (induction k t res regions rule: collect_regions.induct)
  case (2 k t re1 res regions)
  let ?rs = "add_regions k t re1 regions"
  have short: "\<not> k \<le> length ?rs" using 2(2) by (auto simp: Let_def split: if_splits)
  have eq: "collect_regions k t (re1 # res) regions = collect_regions k t res ?rs" using short by (simp add: Let_def)
  show ?case
  proof (cases "re = re1")
    case True
    then have "with_context t r \<in> set ?rs" using 2(4) short by (simp add: add_regions_def)
    then show ?thesis unfolding eq using collect_regions_extends[of ?rs k t res] by blast
  next
    case False
    then show ?thesis using 2(1)[OF refl short] 2(2-4) unfolding eq by simp
  qed
qed simp

lemma sink_set: "set (sink r ps) = insert r (set ps)"
  by (induction ps) auto

lemma sink_mset: "mset (sink r ps) = mset (r # ps)"
  by (induction ps) auto

lemma region_less_trans: "\<not> region_less b a \<Longrightarrow> \<not> region_less c b \<Longrightarrow> \<not> region_less c a"
  by (auto simp: region_less_def)

lemma sink_sorted: "sorted_wrt (\<lambda>x y. \<not> region_less x y) ps \<Longrightarrow> sorted_wrt (\<lambda>x y. \<not> region_less x y) (sink r ps)"
proof (induction ps)
  case (Cons p ps)
  show ?case
  proof (cases "region_less r p")
    case True
    then have "\<not> region_less p r" by (auto simp: region_less_def)
    then show ?thesis using Cons True by (auto simp: sink_set)
  next
    case False
    have "\<not> region_less r y" if "y \<in> set ps" for y
      using region_less_trans[of p y r] False that Cons.prems by simp
    then show ?thesis using Cons.prems False by simp
  qed
qed simp

lemma fold_sink: "sorted_wrt (\<lambda>x y. \<not> region_less x y) acc \<Longrightarrow>
    sorted_wrt (\<lambda>x y. \<not> region_less x y) (fold sink rs acc) \<and> mset (fold sink rs acc) = mset rs + mset acc"
  by (induction rs arbitrary: acc) (auto simp: sink_sorted sink_mset)

lemma sortRegions_sorted:
  "sorted_wrt (\<lambda>x y. \<not> region_less y x) (sortRegions rs)" "mset (sortRegions rs) = mset rs"
  using fold_sink[of "[]" rs] by (simp_all add: sortRegions_def sorted_wrt_rev)

lemma set_sortRegions: "set (sortRegions rs) = set rs"
  using sortRegions_sorted(2) mset_eq_setD by blast

definition covered :: "region list \<Rightarrow> region \<Rightarrow> bool" where
  "covered acc r \<longleftrightarrow> list_ex (\<lambda>m. fst m \<le> fst r \<and> snd r \<le> snd m) acc"

definition tidy :: "nat \<Rightarrow> region list \<Rightarrow> bool" where
  "tidy n acc \<longleftrightarrow> list_all (in_bounds n) acc \<and> sorted_wrt (\<lambda>x y. snd y < fst x) acc"

lemma merge_step_tidy:
  assumes "tidy n acc" "in_bounds n r" "acc = [] \<or> fst (hd acc) \<le> fst r"
  shows "tidy n (merge_step r acc) \<and> fst (hd (merge_step r acc)) \<le> fst r \<and> covered (merge_step r acc) r
    \<and> (\<forall>x. covered acc x \<longrightarrow> covered (merge_step r acc) x) \<and> length (merge_step r acc) \<le> Suc (length acc)"
proof (cases acc)
  case Nil
  then show ?thesis using assms by (simp add: tidy_def covered_def)
next
  case (Cons l older)
  have l: "fst l \<le> fst r" "in_bounds n l" "list_all (\<lambda>y. snd y < fst l) older" "tidy n older"
    using assms by (auto simp: Cons tidy_def list_all_iff)
  consider "snd l < fst r" | "fst r \<le> snd l" "snd l < snd r" | "fst r \<le> snd l" "snd r \<le> snd l" by linarith
  then show ?thesis
  proof cases
    case 1
    then have "list_all (\<lambda>y. snd y < fst r) older" using l(1,3) by (auto simp: list_all_iff)
    then show ?thesis using 1 l assms(1,2) by (auto simp: Cons tidy_def covered_def list_all_iff)
  next
    case 2
    have m: "merge_step r acc = (fst l, snd r) # older" using 2 by (simp add: Cons)
    have "tidy n (merge_step r acc)" unfolding m using 2 l assms(2) by (auto simp: tidy_def list_all_iff in_bounds_def)
    moreover have "covered (merge_step r acc) x" if "covered acc x" for x
      unfolding m using that 2 by (auto simp: Cons covered_def)
    ultimately show ?thesis using l(1) by (simp add: m Cons covered_def)
  next
    case 3
    then show ?thesis using l(1) assms(1) by (simp add: Cons covered_def)
  qed
qed

lemma fold_merge_tidy:
  "tidy n acc \<Longrightarrow> list_all (in_bounds n) rs \<Longrightarrow> sorted_wrt (\<lambda>x y. fst x \<le> fst y) rs \<Longrightarrow>
   acc = [] \<or> list_all (\<lambda>r. fst (hd acc) \<le> fst r) rs \<Longrightarrow>
   tidy n (fold merge_step rs acc) \<and> (\<forall>x. covered acc x \<or> x \<in> set rs \<longrightarrow> covered (fold merge_step rs acc) x)
     \<and> length (fold merge_step rs acc) \<le> length rs + length acc"
proof (induction rs arbitrary: acc)
  case (Cons r rs)
  have s: "tidy n (merge_step r acc)" "fst (hd (merge_step r acc)) \<le> fst r" "covered (merge_step r acc) r"
    "\<forall>x. covered acc x \<longrightarrow> covered (merge_step r acc) x" "length (merge_step r acc) \<le> Suc (length acc)"
    using merge_step_tidy[of n acc r] Cons.prems by auto
  have "list_all (\<lambda>x. fst (hd (merge_step r acc)) \<le> fst x) rs" using s(2) Cons.prems(3) by (auto simp: list_all_iff)
  from Cons.IH[OF s(1) _ _ disjI2[OF this]] Cons.prems
  have "tidy n (fold merge_step rs (merge_step r acc))"
    "\<forall>x. covered (merge_step r acc) x \<or> x \<in> set rs \<longrightarrow> covered (fold merge_step rs (merge_step r acc)) x"
    "length (fold merge_step rs (merge_step r acc)) \<le> length rs + length (merge_step r acc)" by simp_all
  then show ?case using s by auto
qed simp

lemma merged_regions:
  assumes "list_all (in_bounds n) rs"
  shows "list_all (in_bounds n) (merge_regions (sortRegions rs))"
    "sorted_wrt (\<lambda>x y. snd x < fst y) (merge_regions (sortRegions rs))"
    "r \<in> set rs \<Longrightarrow> covered (merge_regions (sortRegions rs)) r"
    "length (merge_regions (sortRegions rs)) \<le> length rs"
proof -
  have "sorted_wrt (\<lambda>x y. fst x \<le> fst y) (sortRegions rs)"
    by (rule sorted_wrt_mono_rel[OF _ sortRegions_sorted(1)]) (auto simp: region_less_def)
  moreover have "list_all (in_bounds n) (sortRegions rs)" using assms by (simp add: list_all_iff set_sortRegions)
  moreover have "length (sortRegions rs) = length rs" using sortRegions_sorted(2) by (rule mset_eq_length)
  ultimately have f: "tidy n (fold merge_step (sortRegions rs) [])"
    "\<forall>x. x \<in> set rs \<longrightarrow> covered (fold merge_step (sortRegions rs) []) x"
    "length (fold merge_step (sortRegions rs) []) \<le> length rs"
    using fold_merge_tidy[of n "[]" "sortRegions rs"] by (simp_all add: tidy_def set_sortRegions)
  show "list_all (in_bounds n) (merge_regions (sortRegions rs))" "sorted_wrt (\<lambda>x y. snd x < fst y) (merge_regions (sortRegions rs))"
    using f(1) by (simp_all add: tidy_def merge_regions_def sorted_wrt_rev list_all_iff)
  show "r \<in> set rs \<Longrightarrow> covered (merge_regions (sortRegions rs)) r" "length (merge_regions (sortRegions rs)) \<le> length rs"
    using f(2,3) by (simp_all add: merge_regions_def covered_def list_ex_iff)
qed

lemma attack_regions:
  assumes "r \<in> set (extractAttackRegions t k)"
  shows "in_bounds (st_n t) r"
proof -
  let ?K = "min (k div 100) 100"
  have "list_all (in_bounds (st_n t)) (collect_regions ?K t compiledIndicators [])" by (rule collect_regions_bounds) simp
  from merged_regions(1)[OF this] show ?thesis using assms
    by (auto simp: extractAttackRegions_def Let_def list_all_iff split: if_splits dest: in_set_takeD)
qed

lemma attack_regions_cover:
  assumes "length (collect_regions (min (k div 100) 100) t compiledIndicators []) < min (k div 100) 100"
    and "re \<in> set compiledIndicators" "r \<in> set (indicator_spans t re)"
  shows "covered (extractAttackRegions t k) (with_context t r)"
proof -
  let ?K = "min (k div 100) 100"
  let ?rs = "collect_regions ?K t compiledIndicators []"
  have mem: "with_context t r \<in> set ?rs" by (rule collect_regions_all[OF assms])
  have b: "list_all (in_bounds (st_n t)) ?rs" by (rule collect_regions_bounds) simp
  have "length (merge_regions (sortRegions ?rs)) \<le> ?K" using merged_regions(4)[OF b] assms(1) by simp
  then have "extractAttackRegions t k = merge_regions (sortRegions ?rs)"
    using mem by (auto simp: extractAttackRegions_def Let_def simp del: collect_regions.simps)
  then show ?thesis using merged_regions(3)[OF b mem] by simp
qed

section \<open>What truncation keeps\<close>

text \<open>A text of at most \<open>k\<close> runes of the original or blanks.\<close>

definition text_within :: "nat list \<Rightarrow> nat \<Rightarrow> string \<Rightarrow> bool" where
  "text_within rs k s \<longleftrightarrow> (\<exists>xs. s = rune_text xs \<and> length xs \<le> k \<and> set xs \<subseteq> insert 32 (set rs))"

lemma text_within_append:
  assumes "text_within rs j s" "text_within rs k u"
  shows "text_within rs (j + k) (s @ u)"
proof -
  obtain xs ys where "s = rune_text xs" "length xs \<le> j" "set xs \<subseteq> insert 32 (set rs)"
    "u = rune_text ys" "length ys \<le> k" "set ys \<subseteq> insert 32 (set rs)"
    using assms by (auto simp: text_within_def)
  then show ?thesis unfolding text_within_def by (intro exI[of _ "xs @ ys"]) (simp add: rune_text_append)
qed

lemma text_withinI: "length xs \<le> k \<Longrightarrow> set xs \<subseteq> set rs \<Longrightarrow> text_within rs k (rune_text xs)"
  unfolding text_within_def by blast

lemma text_within_mono: "text_within rs j s \<Longrightarrow> j \<le> k \<Longrightarrow> text_within rs k s"
  unfolding text_within_def by fastforce

lemma text_within_Nil [simp]: "text_within rs k []"
  unfolding text_within_def by (rule exI[of _ "[]"]) (simp add: rune_text_def)

lemma set_slice_subset: "set (slice xs a b) \<subseteq> set xs"
  unfolding slice_def using set_take_subset set_drop_subset by (metis subset_trans)

lemma slice_le: "length (slice xs a b) \<le> b - a"
  by (simp add: slice_def)

lemma text_within_str: "text_within (st_rs t) (b - a) (st_str t a b)"
proof -
  have "text_within (st_rs t) (b - a) (rune_text (slice (st_rs t) a (min b (st_n t))))"
    unfolding text_within_def using set_slice_subset[of "st_rs t"] slice_le[of "st_rs t" a "min b (st_n t)"]
    by (intro exI[of _ "slice (st_rs t) a (min b (st_n t))"]) auto
  then show ?thesis by (simp add: st_str_def)
qed

lemma consumeGap_within:
  assumes "consumeGap t a b gap = (piece, rest)" "0 < gap"
  shows "\<exists>k. text_within (st_rs t) k piece \<and> k + rest \<le> gap"
proof (cases "b - a \<le> gap")
  case True
  then have "piece = st_str t a b" "rest = gap - (b - a)" using assms(1) by (simp_all add: consumeGap_def Let_def)
  then show ?thesis using text_within_str[of t b a] True by (intro exI[of _ "b - a"]) simp
next
  case False
  then have p: "piece = (if gap - 1 > 0 then st_str t a (a + (gap - 1)) else []) @ '' ''" "rest = 0"
    using assms(1) unfolding consumeGap_def Let_def by (simp_all only: if_False prod.inject)
  have "text_within (st_rs t) (gap - 1) (if gap - 1 > 0 then st_str t a (a + (gap - 1)) else [])"
    using text_within_str[of t "a + (gap - 1)" a] by (simp del: add_diff_assoc2 add_diff_assoc Nat.add_diff_assoc)
  moreover have "text_within (st_rs t) 1 '' ''"
    unfolding text_within_def using rune_text_ascii[of "'' ''"] by (intro exI[of _ "[32]"]) simp
  ultimately have "text_within (st_rs t) (gap - 1 + 1) piece" unfolding p(1) by (rule text_within_append)
  then show ?thesis using assms(2) p(2) by (intro exI[of _ gap]) simp
qed

lemma build_parts_within: "text_within (st_rs t) (gap + region_total regions) (build_parts t regions lastEnd gap)"
proof (induction regions arbitrary: lastEnd gap)
  case Nil
  have "text_within (st_rs t) (min (st_n t - lastEnd) gap) (st_str t lastEnd (lastEnd + min (st_n t - lastEnd) gap))"
    using text_within_str[of t "lastEnd + min (st_n t - lastEnd) gap" lastEnd] by simp
  then have "text_within (st_rs t) gap (st_str t lastEnd (lastEnd + min (st_n t - lastEnd) gap))"
    by (rule text_within_mono) simp
  then show ?case by (simp add: region_total_def)
next
  case (Cons r regions)
  obtain piece rest where p: "(if lastEnd < fst r \<and> gap > 0 then consumeGap t lastEnd (fst r) gap else ([], gap)) = (piece, rest)"
    by (cases "if lastEnd < fst r \<and> gap > 0 then consumeGap t lastEnd (fst r) gap else ([], gap)")
  have "\<exists>k. text_within (st_rs t) k piece \<and> k + rest \<le> gap"
    using p consumeGap_within[of t lastEnd "fst r" gap piece rest] by (auto split: if_splits intro!: exI[of _ 0])
  then obtain k where k: "text_within (st_rs t) k piece" "k + rest \<le> gap" by blast
  have "text_within (st_rs t) (k + ((snd r - fst r) + (rest + region_total regions))) (build_parts t (r # regions) lastEnd gap)"
    using text_within_append[OF k(1) text_within_append[OF text_within_str Cons.IH]] p by simp
  then show ?case by (rule text_within_mono) (use k(2) in \<open>simp add: region_total_def\<close>)
qed

lemma concat_regions_within: "length (concat_regions rs regions k) \<le> k \<and> set (concat_regions rs regions k) \<subseteq> set rs"
proof (induction rs regions k rule: concat_regions.induct)
  case (2 rs r regions k)
  define c where "c = min (snd r - fst r) k"
  define out where "out = slice rs (fst r) (fst r + c)"
  have o: "length out \<le> c" "set out \<subseteq> set rs" "c \<le> k" using slice_le[of rs "fst r" "fst r + c"] set_slice_subset
    by (simp_all add: out_def c_def)
  have eq: "concat_regions rs (r # regions) k = (if k - c = 0 then out else out @ concat_regions rs regions (k - c))"
    by (simp add: Let_def c_def out_def)
  show ?case
  proof (cases "k - c = 0")
    case False
    have "length (concat_regions rs regions (k - c)) \<le> k - c" "set (concat_regions rs regions (k - c)) \<subseteq> set rs"
      using 2[OF c_def out_def False] by simp_all
    then have "length (out @ concat_regions rs regions (k - c)) \<le> k" "set (out @ concat_regions rs regions (k - c)) \<subseteq> set rs"
      using o by (simp_all only: length_append set_append Un_subset_iff)
    then show ?thesis unfolding eq using False by simp
  qed (use o eq in simp)
qed simp

lemma truncated_within:
  assumes "maxFullScanBytes p < length (runes content)"
  shows "text_within (runes content) (maxFullScanBytes p) (truncateSafely p content)"
proof -
  let ?t = "newScanText content" and ?max = "maxFullScanBytes p"
  let ?regions = "extractAttackRegions ?t (maxContentLength p)"
  have rs: "st_rs ?t = runes content" by (simp add: newScanText_def)
  consider (plain) "\<not> preserveAttackPatterns p" | (none) "preserveAttackPatterns p" "?regions = []"
    | (many) "preserveAttackPatterns p" "?regions \<noteq> []" "region_total ?regions \<ge> ?max"
    | (few) "preserveAttackPatterns p" "?regions \<noteq> []" "region_total ?regions < ?max" by linarith
  then show ?thesis
  proof cases
    case plain
    then show ?thesis using assms text_within_str[of ?t ?max 0] by (simp add: truncateSafely_def Let_def rs)
  next
    case none
    let ?tail = "min fullScanTailBytes ?max"
    have "text_within (runes content) ?max
        (rune_text (take (?max - ?tail) (runes content) @ drop (length (runes content) - ?tail) (runes content)))"
      by (rule text_withinI) (use assms set_take_subset set_drop_subset in fastforce)+
    then show ?thesis using none assms by (simp add: truncateSafely_def Let_def rs capWithTail_def)
  next
    case many
    have "text_within (runes content) ?max (rune_text (concat_regions (runes content) ?regions ?max))"
      by (rule text_withinI) (use concat_regions_within in auto)
    then show ?thesis using many assms by (simp add: truncateSafely_def Let_def rs extractAndConcatenateAttackRegions_def)
  next
    case few
    then show ?thesis using assms build_parts_within[of ?t "?max - region_total ?regions" ?regions 0]
      by (simp add: truncateSafely_def Let_def rs buildResultWithAttackRegionsAndContext_def)
  qed
qed

lemma runes_within:
  assumes "text_within (runes content) k s"
  shows "length (runes s) \<le> k"
proof -
  obtain xs where xs: "s = rune_text xs" "length xs \<le> k" "set xs \<subseteq> insert 32 (set (runes content))"
    using assms by (auto simp: text_within_def)
  have "scalar r" if "r \<in> set xs" for r
  proof (cases "r = 32")
    case False
    then show ?thesis using that xs(3) runes_scalar[of r content] by auto
  qed (simp add: scalar_def)
  then have "runes s = xs" using xs(1) runes_rune_text by blast
  then show ?thesis using xs(2) by simp
qed

text \<open>What is scanned is bounded: for every content, invalid UTF-8 included, the truncated text has at most as many
  runes as the scan limit allows.\<close>

theorem truncated_within_limit: "length (runes (truncateSafely p content)) \<le> maxFullScanBytes p"
proof (cases "maxFullScanBytes p < length (runes content)")
  case True
  then show ?thesis using runes_within[OF truncated_within] by simp
qed (simp add: truncateSafely_def Let_def newScanText_def)

lemma slice_parts:
  assumes "a \<le> c" "c \<le> d" "d \<le> b"
  shows "slice xs a b = slice xs a c @ slice xs c d @ slice xs d b"
  using slice_append[of a c b xs] slice_append[of c d b xs] assms by simp

lemma st_str_slice: "in_bounds (st_n t) r \<Longrightarrow> st_str t (fst r) (snd r) = rune_text (slice (st_rs t) (fst r) (snd r))"
  by (auto simp: st_str_def in_bounds_def slice_def rune_text_def)

text \<open>A text made of runes of the original and blanks in which a given part is contiguous.\<close>

definition text_around :: "nat list \<Rightarrow> nat list \<Rightarrow> string \<Rightarrow> bool" where
  "text_around rs mid s \<longleftrightarrow> (\<exists>us vs. s = rune_text (us @ mid @ vs) \<and> set (us @ mid @ vs) \<subseteq> insert 32 (set rs))"

lemma text_around_extend:
  assumes "text_within rs j s" "text_around rs mid m" "text_within rs k u"
  shows "text_around rs mid (s @ m @ u)"
proof -
  obtain xs us vs ys where "s = rune_text xs" "set xs \<subseteq> insert 32 (set rs)" "m = rune_text (us @ mid @ vs)"
    "set (us @ mid @ vs) \<subseteq> insert 32 (set rs)" "u = rune_text ys" "set ys \<subseteq> insert 32 (set rs)"
    using assms by (auto simp: text_within_def text_around_def)
  then show ?thesis unfolding text_around_def by (intro exI[of _ "xs @ us"] exI[of _ "vs @ ys"]) (simp add: rune_text_append)
qed

lemma text_around_part:
  "set xs \<subseteq> set rs \<Longrightarrow> xs = us @ mid @ vs \<Longrightarrow> text_around rs mid (rune_text xs)"
  unfolding text_around_def by blast

lemma build_parts_keeps:
  "r \<in> set regions \<Longrightarrow> list_all (in_bounds (st_n t)) regions \<Longrightarrow> slice (st_rs t) (fst r) (snd r) = us @ mid @ vs \<Longrightarrow>
   text_around (st_rs t) mid (build_parts t regions lastEnd gap)"
proof (induction regions arbitrary: lastEnd gap)
  case (Cons r1 regions)
  obtain piece rest where p: "(if lastEnd < fst r1 \<and> gap > 0 then consumeGap t lastEnd (fst r1) gap else ([], gap)) = (piece, rest)"
    by (cases "if lastEnd < fst r1 \<and> gap > 0 then consumeGap t lastEnd (fst r1) gap else ([], gap)")
  have eq: "build_parts t (r1 # regions) lastEnd gap = piece @ st_str t (fst r1) (snd r1) @ build_parts t regions (snd r1) rest"
    using p by simp
  have "\<exists>k. text_within (st_rs t) k piece \<and> k + rest \<le> gap"
    using p consumeGap_within[of t lastEnd "fst r1" gap piece rest] by (auto split: if_splits intro!: exI[of _ 0])
  then obtain k where k: "text_within (st_rs t) k piece" by blast
  show ?case
  proof (cases "r = r1")
    case True
    have "text_around (st_rs t) mid (st_str t (fst r) (snd r))"
      using text_around_part[OF set_slice_subset Cons.prems(3)] st_str_slice[of t r] Cons.prems(2) True by simp
    then show ?thesis unfolding eq using text_around_extend[OF k _ build_parts_within] True by blast
  next
    case False
    then have "text_around (st_rs t) mid (build_parts t regions (snd r1) rest)"
      using Cons.IH Cons.prems by (simp add: list_all_iff)
    from text_around_extend[OF text_within_append[OF k text_within_str] this text_within_Nil]
    show ?thesis unfolding eq by simp
  qed
qed simp

lemma runes_around: "text_around (runes content) mid s \<Longrightarrow> \<exists>us vs. runes s = us @ mid @ vs"
proof -
  assume "text_around (runes content) mid s"
  then obtain us vs where s: "s = rune_text (us @ mid @ vs)" "set (us @ mid @ vs) \<subseteq> insert 32 (set (runes content))"
    by (auto simp: text_around_def)
  have "scalar r" if "r \<in> set (us @ mid @ vs)" for r
  proof (cases "r = 32")
    case False
    then show ?thesis using that s(2) runes_scalar[of r content] by blast
  qed (simp add: scalar_def)
  then have "runes s = us @ mid @ vs" unfolding s(1) using runes_rune_text by blast
  then show ?thesis by blast
qed

text \<open>C19: Truncation does not lose a detected indicator: if the searches were not cut short and the regions together are
  below the limit, every occurrence of every attack indicator is kept in one piece with up to a hundred runes of
  context on each side.\<close>

theorem indicators_survive_truncation:
  assumes "preserveAttackPatterns p"
    and "length (collect_regions (min (maxContentLength p div 100) 100) (newScanText content) compiledIndicators [])
      < min (maxContentLength p div 100) 100"
    and "region_total (extractAttackRegions (newScanText content) (maxContentLength p)) < maxFullScanBytes p"
    and "re \<in> set compiledIndicators" "(a, b) \<in> set (indicator_spans (newScanText content) re)"
  shows "\<exists>us vs. runes (truncateSafely p content)
    = us @ slice (runes content) (a - 100) (min (b + 100) (length (runes content))) @ vs"
proof (cases "maxFullScanBytes p < length (runes content)")
  case True
  let ?t = "newScanText content"
  let ?regions = "extractAttackRegions ?t (maxContentLength p)" and ?x = "with_context ?t (a, b)"
  have rs: "st_rs ?t = runes content" by (simp add: newScanText_def)
  have x: "in_bounds (st_n ?t) ?x" using with_context_bounds indicator_spans_bounds[OF assms(5)] by blast
  have "covered ?regions ?x" by (rule attack_regions_cover[OF assms(2,4,5)])
  then obtain r where r: "r \<in> set ?regions" "fst r \<le> fst ?x" "snd ?x \<le> snd r" by (auto simp: covered_def list_ex_iff)
  have bounds: "list_all (in_bounds (st_n ?t)) ?regions" using attack_regions by (simp add: list_all_iff)
  have "slice (st_rs ?t) (fst r) (snd r)
      = slice (st_rs ?t) (fst r) (fst ?x) @ slice (st_rs ?t) (fst ?x) (snd ?x) @ slice (st_rs ?t) (snd ?x) (snd r)"
    by (rule slice_parts) (use r(2,3) x in \<open>auto simp: in_bounds_def\<close>)
  from build_parts_keeps[OF r(1) bounds this, of 0 "maxFullScanBytes p - region_total ?regions"] r(1)
  have "text_around (runes content) (slice (runes content) (fst ?x) (snd ?x)) (truncateSafely p content)"
    using True assms(1,3) by (auto simp: truncateSafely_def Let_def buildResultWithAttackRegionsAndContext_def rs)
  from runes_around[OF this] show ?thesis by (simp add: with_context_def rs)
next
  case False
  let ?rs = "runes content" and ?b = "min (b + 100) (length (runes content))"
  have "a \<le> b \<and> b \<le> length ?rs"
    using indicator_spans_bounds[OF assms(5)] by (simp add: in_bounds_def newScanText_def)
  then have "slice ?rs 0 (length ?rs) = slice ?rs 0 (a - 100) @ slice ?rs (a - 100) ?b @ slice ?rs ?b (length ?rs)"
    by (intro slice_parts) auto
  moreover have "truncateSafely p content = content" using False by (simp add: truncateSafely_def Let_def newScanText_def)
  ultimately show ?thesis by (metis slice_full)
qed

definition wt_prep :: preprocessor where
  "wt_prep = \<lparr>maxContentLength = 1000, preserveAttackPatterns = True, maxFullScanBytes = 210\<rparr>"

theorem indicators_survive_truncation_witness:
  "\<exists>us vs. runes (truncateSafely wt_prep ''a;b'') = us @ [97, 59, 98] @ vs"
proof -
  let ?t = "newScanText ''a;b''"
  have t: "?t = \<lparr>st_s = ''a;b'', st_rs = [97, 59, 98]\<rparr>" by code_simp
  have c: "collect_regions 10 ?t compiledIndicators [] = [(0, 3)]"
    unfolding t by (simp add: compiledIndicators_def Let_def add_regions_def indicator_spans_def rx_eval rune_classes with_context_def)
  have "Class chain_rune \<in> set compiledIndicators" by (simp add: compiledIndicators_def)
  moreover have "(1, 2) \<in> set (indicator_spans ?t (Class chain_rune))"
    unfolding t by (simp add: indicator_spans_def rx_eval rune_classes)
  moreover have "runes ''a;b'' = [97, 59, 98]" using t by (simp add: newScanText_def)
  ultimately show ?thesis
    using indicators_survive_truncation[of wt_prep "''a;b''" "Class chain_rune" 1 2] c t
    by (simp add: wt_prep_def extractAttackRegions_def Let_def sortRegions_def merge_regions_def region_total_def slice_def)
qed

end
