(* ===== verification/Decoding.thy ===== *)
theory Decoding
  imports PathMatch Base64 Truncation
begin

unbundle bit_operations_syntax

text \<open>
  The views a value is scanned in: \<open>guardcore/encodings.go\<close> and \<open>guardcore/preprocessor.go\<close>. The escape patterns of
  the standard library's \<open>regexp\<close> have a fixed length or are runs, so each is a test at a position and \<open>replace_all\<close>
  is \<open>ReplaceAllStringFunc\<close>. NFKC, HTML unescaping, the word characters of \<open>regexp2\<close>, \<open>unicode.IsPrint\<close> and the gzip
  reader are parameters.
\<close>

section \<open>Escape sequences\<close>

text \<open>Left to right, at each position the replacement and the length of the match there, if any.\<close>

function replace_all :: "(string \<Rightarrow> (string \<times> nat) option) \<Rightarrow> string \<Rightarrow> string" where
  "replace_all f [] = []"
| "replace_all f (c # s) =
     (case f (c # s) of
        None \<Rightarrow> c # replace_all f s
      | Some (out, k) \<Rightarrow> out @ replace_all f (drop (k - 1) s))"
  by pat_completeness auto
termination
  by (relation "measure (\<lambda>(f, s). length s)") auto

text \<open>\<open>None\<close> is \<open>errBadHex\<close>.\<close>

fun parse_hex_from :: "nat \<Rightarrow> string \<Rightarrow> nat option" where
  "parse_hex_from v [] = Some v"
| "parse_hex_from v (c # s) =
     (if 48 \<le> byte c \<and> byte c \<le> 57 then parse_hex_from (v * 16 + (byte c - 48)) s
      else if 97 \<le> byte c \<and> byte c \<le> 102 then parse_hex_from (v * 16 + (byte c - 97 + 10)) s
      else if 65 \<le> byte c \<and> byte c \<le> 70 then parse_hex_from (v * 16 + (byte c - 65 + 10)) s
      else None)"

definition parseHex2 :: "string \<Rightarrow> nat option" where
  "parseHex2 s = parse_hex_from 0 s"

text \<open>One of the introductions followed by \<open>n\<close> hexadecimal digits: the digits and the length of the whole.\<close>

definition escape_at :: "string list \<Rightarrow> nat \<Rightarrow> string \<Rightarrow> (string \<times> nat) option" where
  "escape_at intros n s =
     (case find (\<lambda>i. has_prefix s i \<and> length s \<ge> length i + n \<and> list_all isHexDigit (take n (drop (length i) s))) intros of
        None \<Rightarrow> None
      | Some i \<Rightarrow> Some (take n (drop (length i) s), length i + n))"

definition decode_escapes :: "string list \<Rightarrow> nat \<Rightarrow> string \<Rightarrow> string" where
  "decode_escapes intros n content =
     replace_all (\<lambda>s. case escape_at intros n s of
         None \<Rightarrow> None
       | Some (digits, k) \<Rightarrow>
           (case parseHex2 digits of
              None \<Rightarrow> Some (take k s, k)
            | Some v \<Rightarrow> Some (rune_text [v], k))) content"

definition hexEscapeRE :: "string list" where
  "hexEscapeRE = [[CHR 0x5C, CHR ''x'']]"

definition unicodeEscapeRE :: "string list" where
  "unicodeEscapeRE = [[CHR 0x5C, CHR ''u'']]"

definition percentUEscapeRE :: "string list" where
  "percentUEscapeRE = [''%u'', ''%U'']"

definition ldapHexEscapeStdRE :: "string list" where
  "ldapHexEscapeStdRE = [[CHR 0x5C]]"

definition decodeHexEscapes :: "string \<Rightarrow> string" where
  "decodeHexEscapes content = decode_escapes hexEscapeRE 2 content"

definition decodeUnicodeEscapes :: "string \<Rightarrow> string" where
  "decodeUnicodeEscapes content = decode_escapes unicodeEscapeRE 4 content"

definition decodePercentUEscapes :: "string \<Rightarrow> string" where
  "decodePercentUEscapes content = decode_escapes percentUEscapeRE 4 content"

definition decodeLDAPHexEscapes :: "string \<Rightarrow> string" where
  "decodeLDAPHexEscapes content = decode_escapes ldapHexEscapeStdRE 2 content"

section \<open>Overlong UTF-8\<close>

record overlongLeadSpec =
  ol_length :: nat
  ol_mask :: nat
  ol_contMin :: nat
  ol_contMax :: nat

definition overlongLeadSpecs :: "nat \<Rightarrow> overlongLeadSpec option" where
  "overlongLeadSpecs b =
     (if b = 0xC0 \<or> b = 0xC1 then Some \<lparr>ol_length = 2, ol_mask = 0x1F, ol_contMin = 0x80, ol_contMax = 0xBF\<rparr>
      else if b = 0xE0 then Some \<lparr>ol_length = 3, ol_mask = 0x0F, ol_contMin = 0x80, ol_contMax = 0x9F\<rparr>
      else if b = 0xF0 then Some \<lparr>ol_length = 4, ol_mask = 0x07, ol_contMin = 0x80, ol_contMax = 0x8F\<rparr>
      else None)"

text \<open>The sequence at the front of the bytes, \<open>raw[index:]\<close> of the code.\<close>

fun decodeOverlongSequenceAt :: "string \<Rightarrow> (nat \<times> nat) option" where
  "decodeOverlongSequenceAt [] = None"
| "decodeOverlongSequenceAt (a # s) =
     (case overlongLeadSpecs (byte a) of
        None \<Rightarrow> None
      | Some spec \<Rightarrow>
          if ol_length spec > length (a # s) then None
          else
            (let continuations = take (ol_length spec - 1) s in
             if byte (hd continuations) < ol_contMin spec \<or> byte (hd continuations) > ol_contMax spec then None
             else if \<not> list_all (\<lambda>b. 0x80 \<le> byte b \<and> byte b \<le> 0xBF) (tl continuations) then None
             else Some (foldl (\<lambda>cp b. cp * 64 + byte b mod 64) (byte a AND ol_mask spec) continuations, ol_length spec)))"

function lenientOverlongUTF8Decode :: "string \<Rightarrow> string" where
  "lenientOverlongUTF8Decode [] = []"
| "lenientOverlongUTF8Decode (a # s) =
     (case decodeOverlongSequenceAt (a # s) of
        Some (ch, consumed) \<Rightarrow> rune_text [ch] @ lenientOverlongUTF8Decode (drop (consumed - 1) s)
      | None \<Rightarrow>
          if byte a < 0x80 then a # lenientOverlongUTF8Decode s else lenientOverlongUTF8Decode s)"
  by pat_completeness auto
termination
  by (relation "measure length") auto

definition decodeOverlongUTF8PercentRuns :: "string \<Rightarrow> string" where
  "decodeOverlongUTF8PercentRuns content =
     replace_all (\<lambda>s.
       if pct_at s then
         (let (raw, rest) = pct_run s; k = length s - length rest in
          Some (if utf8_valid raw then take k s else lenientOverlongUTF8Decode raw, k))
       else None) content"

section \<open>Percent encoding\<close>

function decodeUTF8Ignore :: "string \<Rightarrow> string" where
  "decodeUTF8Ignore raw =
     (if raw = [] then []
      else if invalid_at raw then decodeUTF8Ignore (tl raw)
      else rune_text [fst (decode_rune raw)] @ decodeUTF8Ignore (drop (snd (decode_rune raw)) raw))"
  by pat_completeness auto
termination
  by (relation "measure length") (auto dest: decode_rune_width)

declare decodeUTF8Ignore.simps [simp del]

function urlUnquote :: "string \<Rightarrow> string" where
  "urlUnquote content =
     (if content = [] then []
      else if hd content \<noteq> CHR ''%'' then
        take (snd (decode_rune content)) content @ urlUnquote (drop (snd (decode_rune content)) content)
      else if pct_at content then decodeUTF8Ignore (fst (pct_run content)) @ urlUnquote (snd (pct_run content))
      else CHR ''%'' # urlUnquote (tl content))"
  by pat_completeness auto
termination
  by (relation "measure length") (auto dest: decode_rune_width pct_run_shorter)

declare urlUnquote.simps [simp del]

section \<open>Normalisation\<close>

record decode_env = b64_env +
  de_nfkc :: "string \<Rightarrow> string"
  de_htmlUnescape :: "string \<Rightarrow> string"
  de_word :: "nat \<Rightarrow> bool"

definition lookalikeMap :: "nat \<Rightarrow> string option" where
  "lookalikeMap r =
     (if r \<in> {0x2044, 0xFF0F, 0x29F8, 0x2215} then Some ''/''
      else if r = 0x0130 then Some ''I''
      else if r = 0x0131 then Some ''i''
      else if r \<in> {0x200B, 0x200C, 0x200D, 0xFEFF, 0x00AD, 0x034F, 0x180E, 0xE000, 0xFFF0} then Some []
      else if r = 0x2028 \<or> r = 0x2029 then Some [CHR 0x0A]
      else if r = 0x01C0 \<or> r = 0xFF5C then Some ''|''
      else if r = 0x037E \<or> r = 0xFF1B then Some '';''
      else if r = 0x2216 then Some [CHR 0x5C]
      else if r = 0xFF1C then Some ''<''
      else if r = 0xFF1E then Some ''>''
      else if r = 0xFF06 then Some ''&''
      else None)"

definition normalizeUnicode :: "'z decode_env_scheme \<Rightarrow> string \<Rightarrow> string" where
  "normalizeUnicode env content =
     (let normalized = de_nfkc env content in
      if \<not> list_ex (\<lambda>r. lookalikeMap r \<noteq> None) (runes normalized) then normalized
      else concat (map (\<lambda>r. case lookalikeMap r of Some rep \<Rightarrow> rep | None \<Rightarrow> rune_text [r]) (runes normalized)))"

definition removeNullAndControlBytes :: "string \<Rightarrow> string" where
  "removeNullAndControlBytes content =
     rune_text (filter (\<lambda>r. r \<noteq> 0 \<and> \<not> (r < 32 \<and> r \<noteq> 9 \<and> r \<noteq> 10 \<and> r \<noteq> 13)) (runes content))"

definition removeExcessiveWhitespace :: "string \<Rightarrow> string" where
  "removeExcessiveWhitespace content =
     (let out = rune_text (squeeze False (runes content));
          trimmed = dropWhile (\<lambda>c. c = CHR '' '') out
      in rev (dropWhile (\<lambda>c. c = CHR '' '') (rev trimmed)))"

definition any_rune :: "nat \<Rightarrow> bool" where
  "any_rune r \<longleftrightarrow> True"

definition sqlCommentRE :: "'z decode_env_scheme \<Rightarrow> rx" where
  "sqlCommentRE env = Either
     (rx_seq [NotBehind (de_word env), literal ''/*'', NotAhead (literal ''!''), Capture 1 (Lazy 0 None (Class any_rune)),
              literal ''*/''])
     (rx_seq [literal ''/*'', NotAhead (literal ''!''), Capture 2 (Lazy 0 None (Class any_rune)), literal ''*/'',
              NotAhead (Class (de_word env))])"

definition comment_body :: "rx_match \<Rightarrow> nat list" where
  "comment_body m =
     (case map_of (mx_groups m) 1 of
        Some body \<Rightarrow> body
      | None \<Rightarrow> (case map_of (mx_groups m) 2 of Some body \<Rightarrow> body | None \<Rightarrow> []))"

definition line_comment_at :: "string \<Rightarrow> (string \<times> nat) option" where
  "line_comment_at s =
     (if has_prefix s ''--'' then Some ('' '', 2) else if has_prefix s ''#'' then Some ('' '', 1) else None)"

definition stripSQLComments :: "'z decode_env_scheme \<Rightarrow> string \<Rightarrow> string" where
  "stripSQLComments env content =
     (let rs = runes content; mts = find_all_rx (sqlCommentRE env) [] rs;
          out = concat (map (\<lambda>m. mx_before m @ [32] @ comment_body m @ [32]) mts)
                @ (if mts = [] then rs else mx_after (last mts))
      in replace_all line_comment_at (rune_text out))"

section \<open>The decode loop and the views\<close>

definition maxDecodeIterations :: nat where
  "maxDecodeIterations = 16"

definition maxGunzipAttemptsPerPass :: nat where
  "maxGunzipAttemptsPerPass = 8"

text \<open>One round of the loop: the percent runs first, then the other stages.\<close>

definition percent_stage :: "string \<Rightarrow> string" where
  "percent_stage content = urlUnquote (decodeOverlongUTF8PercentRuns content)"

definition later_stages :: "'z decode_env_scheme \<Rightarrow> nat \<Rightarrow> string \<times> nat \<Rightarrow> string \<times> nat" where
  "later_stages env maxBytes x =
     (let c1 = decodePercentUEscapes (de_htmlUnescape env (fst x));
          c2 = decodeUnicodeEscapes (decodeLDAPHexEscapes (decodeHexEscapes c1))
      in decodeBase64Candidates (b64_env.truncate env) (normalizeUnicode env c2) (snd x) maxBytes)"

definition decode_round :: "'z decode_env_scheme \<Rightarrow> nat \<Rightarrow> string \<times> nat \<Rightarrow> string \<times> nat" where
  "decode_round env maxBytes x = later_stages env maxBytes (percent_stage (fst x), snd x)"

text \<open>At most \<open>k\<close> more rounds, until one changes nothing; the flag says that the last round allowed still did.\<close>

fun decode_loop :: "'z decode_env_scheme \<Rightarrow> nat \<Rightarrow> nat \<Rightarrow> string \<times> nat \<Rightarrow> string \<times> bool" where
  "decode_loop env maxBytes 0 x = (fst x, True)"
| "decode_loop env maxBytes (Suc k) x =
     (let y = decode_round env maxBytes x in
      if fst y = fst x then (fst y, False) else decode_loop env maxBytes k y)"

definition decodeCommonEncodings :: "'z decode_env_scheme \<Rightarrow> preprocessor \<Rightarrow> string \<Rightarrow> string \<times> bool" where
  "decodeCommonEncodings env p content =
     (let r = decode_loop env (maxFullScanBytes p) maxDecodeIterations (content, maxGunzipAttemptsPerPass)
      in (stripSQLComments env (fst r), snd r))"

record preprocessed =
  pp_processed :: string
  pp_decoded :: string
  pp_budgetExhausted :: bool

definition preprocessWithDecoded :: "'z decode_env_scheme \<Rightarrow> preprocessor \<Rightarrow> string \<Rightarrow> preprocessed" where
  "preprocessWithDecoded env p content =
     (if content = [] then \<lparr>pp_processed = [], pp_decoded = [], pp_budgetExhausted = False\<rparr>
      else
        (let (decoded, exhausted) = decodeCommonEncodings env p (normalizeUnicode env content);
             processed = truncateSafely p (removeExcessiveWhitespace (removeNullAndControlBytes decoded))
         in \<lparr>pp_processed = processed, pp_decoded = decoded, pp_budgetExhausted = exhausted\<rparr>))"

definition preprocessSignalPreserving :: "'z decode_env_scheme \<Rightarrow> preprocessor \<Rightarrow> string \<Rightarrow> string" where
  "preprocessSignalPreserving env p content =
     (if content = [] then [] else truncateSafely p (normalizeUnicode env content))"

definition preprocessURLDecodedNewlinePreserving ::
  "'z decode_env_scheme \<Rightarrow> preprocessor \<Rightarrow> string \<Rightarrow> string \<times> bool" where
  "preprocessURLDecodedNewlinePreserving env p content =
     (if content = [] then ([], False)
      else
        (let (decoded, exhausted) = decodeCommonEncodings env p (normalizeUnicode env content)
         in (truncateSafely p decoded, exhausted)))"

section \<open>Percent encoding undone\<close>

text \<open>A text written as a sequence of scalars, each raw or with all its bytes percent-encoded in digits of either
  case.\<close>

type_synonym piece = "nat \<times> (char \<times> char) list"

definition piece_text :: "piece \<Rightarrow> string" where
  "piece_text p = (if snd p = [] then encode_scalar (fst p) else concat (map (\<lambda>(a, b). [CHR ''%'', a, b]) (snd p)))"

definition piece_ok :: "piece \<Rightarrow> bool" where
  "piece_ok p \<longleftrightarrow> scalar (fst p)
     \<and> (if snd p = [] then fst p \<noteq> 37
        else list_all (\<lambda>(a, b). isHexDigit a \<and> isHexDigit b) (snd p)
             \<and> map (\<lambda>(a, b). hexValue a * 16 + hexValue b) (snd p) = map byte (encode_scalar (fst p)))"

definition spell :: "piece list \<Rightarrow> string" where
  "spell ps = concat (map piece_text ps)"

lemma pct_run_escaped:
  assumes "list_all (\<lambda>(a, b). isHexDigit a \<and> isHexDigit b) hs"
  shows "pct_run (concat (map (\<lambda>(a, b). [CHR ''%'', a, b]) hs) @ s)
    = (map (\<lambda>(a, b). char_of (hexValue a * 16 + hexValue b)) hs @ fst (pct_run s), snd (pct_run s))"
  using assms
proof (induction hs)
  case (Cons h hs)
  obtain a b where h: "h = (a, b)" by (cases h)
  have "pct_run (CHR ''%'' # a # b # w) = (let r = pct_run w in (char_of (hexValue a * 16 + hexValue b) # fst r, snd r))" for w
    using Cons.prems h by simp
  then show ?case using Cons h by (simp add: Let_def)
qed simp

lemma piece_bytes:
  assumes "piece_ok p" "snd p \<noteq> []"
  shows "map (\<lambda>(a, b). char_of (hexValue a * 16 + hexValue b)) (snd p) = encode_scalar (fst p)"
proof -
  have "map (\<lambda>(a, b). char_of (hexValue a * 16 + hexValue b)) (snd p)
      = map char_of (map (\<lambda>(a, b). hexValue a * 16 + hexValue b) (snd p))" by (simp add: comp_def split_def)
  also have "\<dots> = map char_of (map byte (encode_scalar (fst p)))" using assms by (simp add: piece_ok_def)
  finally show ?thesis by (simp add: comp_def)
qed

lemma decodeUTF8Ignore_encode: "list_all scalar rs \<Longrightarrow> decodeUTF8Ignore (concat (map encode_scalar rs)) = rune_text rs"
proof (induction rs)
  case Nil
  then show ?case by (simp add: decodeUTF8Ignore.simps[of "[]"] rune_text_Nil)
next
  case (Cons r rs)
  have "rune_text (r # rs) = rune_text [r] @ rune_text rs" by (simp add: rune_text_def)
  then show ?case using Cons
    by (simp add: decodeUTF8Ignore.simps[of "encode_scalar _ @ _"] not_invalid_encode decode_encode_scalar)
qed

lemma no_pct_run: "hd s \<noteq> CHR ''%'' \<Longrightarrow> \<not> pct_at s \<and> pct_run s = ([], s)"
  by (cases s rule: pct_at.cases) auto

lemma encode_head_not_pct:
  assumes "scalar r" "r \<noteq> 37"
  shows "hd (encode_scalar r @ w) \<noteq> CHR ''%''"
proof (cases "r < 128")
  case True
  then have "encode_scalar r = [char_of r]" by (simp add: encode_scalar_def)
  then show ?thesis using assms(2) True by (auto simp: char_of_iff)
qed (use assms(1) in \<open>auto simp: encode_scalar_def scalar_def char_of_iff\<close>)

text \<open>The escaped pieces in front form one run.\<close>

lemma pct_run_spell:
  "list_all piece_ok ps \<Longrightarrow>
   pct_run (spell ps) = (concat (map (\<lambda>p. encode_scalar (fst p)) (takeWhile (\<lambda>p. snd p \<noteq> []) ps)),
                         spell (dropWhile (\<lambda>p. snd p \<noteq> []) ps))"
proof (induction ps)
  case Nil
  then show ?case by (simp add: spell_def)
next
  case (Cons p ps)
  show ?case
  proof (cases "snd p = []")
    case True
    then have ne: "fst p \<noteq> 37" "scalar (fst p)" using Cons.prems by (simp_all add: piece_ok_def)
    have "pct_run (encode_scalar (fst p) @ w) = ([], encode_scalar (fst p) @ w)" for w
      using no_pct_run encode_head_not_pct[OF ne(2,1)] by blast
    then show ?thesis using True by (simp add: spell_def piece_text_def)
  next
    case False
    then have "list_all (\<lambda>(a, b). isHexDigit a \<and> isHexDigit b) (snd p)" using Cons.prems by (simp add: piece_ok_def)
    from pct_run_escaped[OF this] show ?thesis using False Cons piece_bytes[of p]
      by (simp add: spell_def piece_text_def)
  qed
qed

lemma urlUnquote_raw:
  assumes "scalar r" "r \<noteq> 37"
  shows "urlUnquote (encode_scalar r @ w) = encode_scalar r @ urlUnquote w"
  using encode_head_not_pct[OF assms, of w] decode_encode_scalar[OF assms(1), of w]
  by (subst urlUnquote.simps) simp

lemma pct_at_spell: "piece_ok p \<Longrightarrow> snd p \<noteq> [] \<Longrightarrow> pct_at (spell (p # ps))"
  by (cases "snd p") (auto simp: spell_def piece_text_def piece_ok_def split: prod.splits)

lemma urlUnquote_pieces: "list_all piece_ok ps \<Longrightarrow> urlUnquote (spell ps) = rune_text (map fst ps)"
proof (induction ps rule: length_induct)
  case (1 ps)
  show ?case
  proof (cases ps)
    case Nil
    then show ?thesis by (simp add: spell_def urlUnquote.simps[of "[]"] rune_text_Nil)
  next
    case (Cons p qs)
    have "piece_ok p" and p: "list_all piece_ok qs" using 1(2) Cons by simp_all
    then have sc: "scalar (fst p)" by (simp add: piece_ok_def)
    show ?thesis
    proof (cases "snd p = []")
      case True
      then have "spell ps = encode_scalar (fst p) @ spell qs" "fst p \<noteq> 37"
        using 1(2) Cons by (simp_all add: spell_def piece_text_def piece_ok_def)
      then show ?thesis using urlUnquote_raw[OF sc] 1(1) p Cons by (simp add: rune_text_Cons sc)
    next
      case False
      define esc where "esc = takeWhile (\<lambda>p. snd p \<noteq> []) ps"
      define rest where "rest = dropWhile (\<lambda>p. snd p \<noteq> []) ps"
      have ps: "ps = esc @ rest" by (simp add: esc_def rest_def)
      have len: "length rest < length ps" using False Cons length_dropWhile_le[of _ qs] by (simp add: rest_def le_imp_less_Suc)
      have "list_all piece_ok esc" and ok2: "list_all piece_ok rest" using 1(2) unfolding ps list_all_append by simp_all
      then have ok1: "list_all scalar (map fst esc)" by (simp add: list_all_iff piece_ok_def)
      have run: "pct_run (spell ps) = (concat (map encode_scalar (map fst esc)), spell rest)"
        using pct_run_spell[OF 1(2)] by (simp add: esc_def rest_def comp_def)
      have at: "pct_at (spell ps)" using pct_at_spell[of p qs] 1(2) False Cons by simp
      then have "hd (spell ps) = CHR ''%''" "spell ps \<noteq> []" by (cases "spell ps" rule: pct_at.cases; simp)+
      then have "urlUnquote (spell ps) = decodeUTF8Ignore (concat (map encode_scalar (map fst esc))) @ urlUnquote (spell rest)"
        using at run by (subst urlUnquote.simps) simp
      then show ?thesis using decodeUTF8Ignore_encode[OF ok1] 1(1)[rule_format, OF len ok2]
        by (simp add: ps rune_text_append)
    qed
  qed
qed

text \<open>Percent decoding undoes percent encoding: a text in which any characters are written as the percent-encoded
  bytes of their UTF-8 form, in digits of either case, and the others, the percent sign apart, as they are, is decoded
  to its characters.\<close>

theorem urlUnquote_spell: "list_all piece_ok ps \<Longrightarrow> urlUnquote (spell ps) = rune_text (map fst ps)"
  by (rule urlUnquote_pieces)

theorem urlUnquote_spell_witness:
  "urlUnquote (spell [(60, []), (115, [(CHR ''7'', CHR ''3'')]), (8364, [(CHR ''e'', CHR ''2''), (CHR ''8'', CHR ''2''), (CHR ''A'', CHR ''c'')])])
    = rune_text [60, 115, 8364]"
  using urlUnquote_spell[of "[(60, []), (115, [(CHR ''7'', CHR ''3'')]),
      (8364, [(CHR ''e'', CHR ''2''), (CHR ''8'', CHR ''2''), (CHR ''A'', CHR ''c'')])]"]
  by (simp add: piece_ok_def scalar_def isHexDigit_def hexValue_def encode_scalar_def)

section \<open>The decode loop settles or is flagged\<close>

text \<open>The contents after \<open>k\<close> rounds.\<close>

definition rounds :: "'z decode_env_scheme \<Rightarrow> nat \<Rightarrow> string \<times> nat \<Rightarrow> nat \<Rightarrow> string" where
  "rounds env maxBytes x k = fst ((decode_round env maxBytes ^^ k) x)"

lemma rounds_Suc: "rounds env n x (Suc k) = rounds env n (decode_round env n x) k"
  by (simp add: rounds_def funpow_swap1)

lemma decode_loop_rounds:
  "\<exists>k \<le> b. fst (decode_loop env n b x) = rounds env n x k \<and> (\<forall>j < k. rounds env n x (Suc j) \<noteq> rounds env n x j)
     \<and> (if snd (decode_loop env n b x) then k = b else k < b \<and> rounds env n x (Suc k) = rounds env n x k)"
proof (induction b arbitrary: x)
  case 0
  then show ?case by (simp add: rounds_def)
next
  case (Suc b)
  let ?y = "decode_round env n x"
  have r0: "rounds env n x 0 = fst x" "rounds env n x (Suc 0) = fst ?y" by (simp_all add: rounds_def)
  show ?case
  proof (cases "fst ?y = fst x")
    case True
    then show ?thesis using r0 by (intro exI[of _ 0]) (simp add: Let_def)
  next
    case False
    obtain k where k: "k \<le> b" "fst (decode_loop env n b ?y) = rounds env n ?y k"
      "\<forall>j < k. rounds env n ?y (Suc j) \<noteq> rounds env n ?y j"
      "if snd (decode_loop env n b ?y) then k = b else k < b \<and> rounds env n ?y (Suc k) = rounds env n ?y k"
      using Suc.IH by blast
    have "\<forall>j < Suc k. rounds env n x (Suc j) \<noteq> rounds env n x j"
    proof (intro allI impI)
      fix j assume "j < Suc k"
      then show "rounds env n x (Suc j) \<noteq> rounds env n x j" using False k(3) r0 by (cases j) (simp_all add: rounds_Suc)
    qed
    moreover have "decode_loop env n (Suc b) x = decode_loop env n b ?y" using False by (simp add: Let_def)
    ultimately show ?thesis using k by (intro exI[of _ "Suc k"]) (simp only: rounds_Suc[of env n x] Suc_le_mono Suc_less_eq nat.inject)
  qed
qed

text \<open>C17: Decoding stops at the first round that changes nothing, and if none of the sixteen rounds does the result is
  flagged: what is scanned is either completely decoded or known not to be.\<close>

theorem decoding_settles_or_flags:
  "\<exists>k \<le> 16. fst (decodeCommonEncodings env p content) = stripSQLComments env (rounds env (maxFullScanBytes p) (content, 8) k)
     \<and> (\<forall>j < k. rounds env (maxFullScanBytes p) (content, 8) (Suc j) \<noteq> rounds env (maxFullScanBytes p) (content, 8) j)
     \<and> (if snd (decodeCommonEncodings env p content) then k = 16
        else k < 16 \<and> rounds env (maxFullScanBytes p) (content, 8) (Suc k) = rounds env (maxFullScanBytes p) (content, 8) k)"
proof -
  obtain k where "k \<le> 16" "fst (decode_loop env (maxFullScanBytes p) 16 (content, 8)) = rounds env (maxFullScanBytes p) (content, 8) k"
    "\<forall>j < k. rounds env (maxFullScanBytes p) (content, 8) (Suc j) \<noteq> rounds env (maxFullScanBytes p) (content, 8) j"
    "if snd (decode_loop env (maxFullScanBytes p) 16 (content, 8)) then k = 16
     else k < 16 \<and> rounds env (maxFullScanBytes p) (content, 8) (Suc k) = rounds env (maxFullScanBytes p) (content, 8) k"
    using decode_loop_rounds by metis
  then show ?thesis
    by (intro exI[of _ k]) (simp add: decodeCommonEncodings_def Let_def maxDecodeIterations_def maxGunzipAttemptsPerPass_def)
qed

section \<open>Nested percent encoding\<close>

definition pct_digit :: "nat \<Rightarrow> char" where
  "pct_digit n = char_of (if n < 10 then n + 48 else n + 55)"

definition pct_layer :: "string \<Rightarrow> string" where
  "pct_layer s = concat (map (\<lambda>c. [CHR ''%'', pct_digit (byte c div 16), pct_digit (byte c mod 16)]) s)"

definition ascii :: "string \<Rightarrow> bool" where
  "ascii s \<longleftrightarrow> list_all (\<lambda>c. byte c < 128) s"

lemma pct_digit_value: "n < 16 \<Longrightarrow> isHexDigit (pct_digit n) \<and> hexValue (pct_digit n) = n \<and> byte (pct_digit n) < 128"
proof -
  assume n: "n < 16"
  define b where "b = (if n < 10 then n + 48 else n + 55)"
  have b: "b < 256" "pct_digit n = char_of b" using n by (auto simp: b_def pct_digit_def)
  have "byte (pct_digit n) = b" unfolding b(2) by (rule byte_char_of[OF b(1)])
  then show ?thesis using n by (auto simp: isHexDigit_def hexValue_def b_def)
qed

lemma sixteenths: "byte c div 16 < 16" "byte c mod 16 < 16"
proof -
  have "byte c < 256" by simp
  then show "byte c div 16 < 16" "byte c mod 16 < 16" by (simp_all add: less_mult_imp_div_less)
qed

lemma hex_digit_plain: "isHexDigit c \<Longrightarrow> c \<noteq> CHR ''%'' \<and> c \<noteq> CHR ''u'' \<and> c \<noteq> CHR ''U'' \<and> c \<noteq> CHR 0x5C \<and> c \<noteq> CHR ''&''"
  by (auto simp: isHexDigit_def)

lemma pct_layer_spell: "ascii s \<Longrightarrow> \<exists>ps. list_all piece_ok ps \<and> pct_layer s = spell ps \<and> s = rune_text (map fst ps)"
proof (induction s)
  case Nil
  then show ?case by (intro exI[of _ "[]"]) (simp add: pct_layer_def spell_def rune_text_Nil)
next
  case (Cons c s)
  then obtain ps where ps: "list_all piece_ok ps" "pct_layer s = spell ps" "s = rune_text (map fst ps)" by (auto simp: ascii_def)
  let ?p = "(byte c, [(pct_digit (byte c div 16), pct_digit (byte c mod 16))])"
  have c: "byte c < 128" "scalar (byte c)" "encode_scalar (byte c) = [c]"
    using Cons.prems by (auto simp: ascii_def scalar_def encode_scalar_def)
  then have "piece_ok ?p" using pct_digit_value[OF sixteenths(1)[of c]] pct_digit_value[OF sixteenths(2)[of c]] by (simp add: piece_ok_def)
  moreover have "pct_layer (c # s) = spell (?p # ps)" using ps(2) by (simp add: pct_layer_def spell_def piece_text_def)
  moreover have "c # s = rune_text (map fst (?p # ps))" using ps(3) c by (simp add: rune_text_Cons)
  ultimately show ?case using ps(1) by (intro exI[of _ "?p # ps"]) simp
qed

lemma pct_layer_ascii: "ascii (pct_layer s)"
  using pct_digit_value sixteenths by (induction s) (auto simp: pct_layer_def ascii_def)

lemma replace_all_id: "(\<And>u v. s = u @ v \<Longrightarrow> v \<noteq> [] \<Longrightarrow> f v = None) \<Longrightarrow> replace_all f s = s"
proof (induction s)
  case (Cons c s)
  then have "replace_all f s = s" by (metis Cons_eq_appendI)
  then show ?case using Cons.prems[of "[]" "c # s"] by simp
qed simp

lemma decodeUTF8Ignore_ascii: "ascii s \<Longrightarrow> decodeUTF8Ignore s = s"
proof -
  assume "ascii s"
  then have "list_all scalar (map byte s)" "concat (map encode_scalar (map byte s)) = s"
    by (induction s) (auto simp: ascii_def scalar_def encode_scalar_def)
  then show ?thesis using decodeUTF8Ignore_encode[of "map byte s"] rune_text_ascii[of s] \<open>ascii s\<close>
    by (simp add: ascii_def list_all_iff)
qed

lemma utf8_valid_ascii: "ascii s \<Longrightarrow> utf8_valid s"
proof -
  assume "ascii s"
  then have "\<forall>r \<in> set (map byte s). scalar r" "concat (map encode_scalar (map byte s)) = s"
    by (induction s) (auto simp: ascii_def scalar_def encode_scalar_def)
  then show ?thesis using utf8_valid_encode[of "map byte s"] by simp
qed

lemma pct_run_layer: "pct_run (pct_layer s) = (s, [])"
proof (induction s)
  case (Cons c s)
  have "hexValue (pct_digit (byte c div 16)) * 16 + hexValue (pct_digit (byte c mod 16)) = byte c"
    using pct_digit_value[OF sixteenths(1)[of c]] pct_digit_value[OF sixteenths(2)[of c]] by simp
  then show ?case using Cons pct_digit_value[OF sixteenths(1)[of c]] pct_digit_value[OF sixteenths(2)[of c]]
    by (simp add: pct_layer_def Let_def)
qed (simp add: pct_layer_def)

lemma percent_stage_layer:
  assumes "ascii s"
  shows "percent_stage (pct_layer s) = s"
proof -
  obtain ps where ps: "list_all piece_ok ps" "pct_layer s = spell ps" "s = rune_text (map fst ps)"
    using pct_layer_spell[OF assms] by blast
  have "decodeOverlongUTF8PercentRuns (pct_layer s) = pct_layer s"
  proof (cases s)
    case (Cons c s1)
    have at: "pct_at (pct_layer s)"
      using pct_digit_value[OF sixteenths(1)[of c]] pct_digit_value[OF sixteenths(2)[of c]] by (simp add: Cons pct_layer_def)
    obtain d w where "pct_layer s = d # w" using Cons by (simp add: pct_layer_def)
    then show ?thesis using at pct_run_layer[of s] utf8_valid_ascii[OF assms]
      by (simp add: decodeOverlongUTF8PercentRuns_def)
  qed (simp add: decodeOverlongUTF8PercentRuns_def pct_layer_def)
  then show ?thesis using urlUnquote_pieces[OF ps(1)] ps(2,3) by (simp add: percent_stage_def)
qed

lemma urlUnquote_plain: "CHR ''%'' \<notin> set s \<Longrightarrow> urlUnquote s = s"
proof (induction s rule: urlUnquote.induct)
  case (1 content)
  show ?case
  proof (cases "content = []")
    case False
    then have h: "hd content \<noteq> CHR ''%''" using 1(4) by (metis hd_in_set)
    have "CHR ''%'' \<notin> set (drop (snd (decode_rune content)) content)" using 1(4) in_set_dropD by fast
    from 1(1)[OF False h this] show ?thesis using h by (subst urlUnquote.simps) simp
  qed (simp add: urlUnquote.simps[of "[]"])
qed

lemma no_pct_at: "CHR ''%'' \<notin> set s \<Longrightarrow> \<not> pct_at s"
  by (cases s rule: pct_at.cases) auto

lemma percent_stage_plain: "CHR ''%'' \<notin> set s \<Longrightarrow> percent_stage s = s"
proof -
  assume s: "CHR ''%'' \<notin> set s"
  have "decodeOverlongUTF8PercentRuns s = s"
    unfolding decodeOverlongUTF8PercentRuns_def by (rule replace_all_id) (use s no_pct_at in auto)
  then show ?thesis using urlUnquote_plain[OF s] by (simp add: percent_stage_def)
qed

text \<open>Texts the other stages have nothing to decode in.\<close>

definition inert :: "string \<Rightarrow> bool" where
  "inert s \<longleftrightarrow> ascii s \<and> CHR 0x5C \<notin> set s \<and> CHR ''&'' \<notin> set s
     \<and> (\<forall>u v. s = u @ v \<longrightarrow> \<not> has_prefix v ''%u'' \<and> \<not> has_prefix v ''%U'')"

lemma decode_escapes_id:
  assumes "\<And>u v i. s = u @ v \<Longrightarrow> i \<in> set intros \<Longrightarrow> \<not> has_prefix v i"
  shows "decode_escapes intros n s = s"
  unfolding decode_escapes_def
proof (rule replace_all_id)
  fix u v :: string assume s: "s = u @ v" "v \<noteq> []"
  have "\<not> has_prefix v i" if "i \<in> set intros" for i using assms[OF s(1) that] .
  then have "find (\<lambda>i. has_prefix v i \<and> length v \<ge> length i + n \<and> list_all isHexDigit (take n (drop (length i) v))) intros = None"
    by (auto simp: find_None_iff)
  then show "(case escape_at intros n v of None \<Rightarrow> None
      | Some (digits, k) \<Rightarrow> (case parseHex2 digits of None \<Rightarrow> Some (take k v, k) | Some w \<Rightarrow> Some (rune_text [w], k))) = None"
    by (simp add: escape_at_def)
qed

lemma no_backslash_prefix: "CHR 0x5C \<notin> set (u @ v) \<Longrightarrow> i \<noteq> [] \<Longrightarrow> hd i = CHR 0x5C \<Longrightarrow> \<not> has_prefix v i"
  by (cases i) (auto simp: has_prefix_iff)

lemma normalizeUnicode_ascii:
  assumes "ascii s" "de_nfkc env s = s"
  shows "normalizeUnicode env s = s"
proof -
  have "lookalikeMap r = None" if "r < 128" for r using that by (simp add: lookalikeMap_def)
  moreover have "\<forall>r \<in> set (runes s). r < 128" using runes_ascii[of s] assms(1) by (simp add: ascii_def list_all_iff)
  ultimately have "\<not> list_ex (\<lambda>r. lookalikeMap r \<noteq> None) (runes s)" by (auto simp: list_ex_iff)
  then show ?thesis using assms(2) by (simp add: normalizeUnicode_def Let_def)
qed

lemma later_stages_plain:
  assumes "de_htmlUnescape env x = s" "inert s" "de_nfkc env s = s"
  shows "later_stages env n (x, k) = decodeBase64Candidates (b64_env.truncate env) s k n"
proof -
  have "decodePercentUEscapes s = s"
    unfolding decodePercentUEscapes_def by (rule decode_escapes_id) (use assms(2) in \<open>auto simp: inert_def percentUEscapeRE_def\<close>)
  moreover have "decode_escapes [i] m s = s" if "i \<noteq> []" "hd i = CHR 0x5C" for i m
  proof (rule decode_escapes_id)
    fix u v j assume "s = u @ v" "j \<in> set [i]"
    then show "\<not> has_prefix v j" using no_backslash_prefix[of u v i] that assms(2) by (simp add: inert_def)
  qed
  then have "decodeHexEscapes s = s" "decodeLDAPHexEscapes s = s" "decodeUnicodeEscapes s = s"
    by (simp_all add: decodeHexEscapes_def decodeLDAPHexEscapes_def decodeUnicodeEscapes_def hexEscapeRE_def
        unicodeEscapeRE_def ldapHexEscapeStdRE_def)
  ultimately show ?thesis using assms normalizeUnicode_ascii[of s env] by (simp add: later_stages_def Let_def inert_def)
qed

lemmas later_stages_inert = later_stages_plain[where s = s and x = s for s]

lemma layer_chars: "c \<in> set (pct_layer s) \<Longrightarrow> c = CHR ''%'' \<or> isHexDigit c"
proof (induction s)
  case (Cons d s)
  then show ?case using pct_digit_value[OF sixteenths(1)[of d]] pct_digit_value[OF sixteenths(2)[of d]]
    by (auto simp: pct_layer_def)
qed (simp add: pct_layer_def)

lemma inert_layer: "inert (pct_layer s)"
proof -
  have hex: "isHexDigit (pct_digit (byte c div 16))" "isHexDigit (pct_digit (byte c mod 16))" for c
    using pct_digit_value sixteenths by simp_all
  have "CHR 0x5C \<notin> set (pct_layer s)" "CHR ''&'' \<notin> set (pct_layer s)"
    using layer_chars[of "CHR 0x5C" s] layer_chars[of "CHR ''&''" s] by (auto simp: isHexDigit_def)
  moreover have "\<not> has_prefix v [CHR ''%'', x]" if "pct_layer s = u @ v" "x = CHR ''u'' \<or> x = CHR ''U''" for u v x
    using that
  proof (induction s arbitrary: u)
    case Nil
    then show ?case by (simp add: pct_layer_def has_prefix_def)
  next
    case (Cons c s)
    let ?a = "pct_digit (byte c div 16)" and ?b = "pct_digit (byte c mod 16)"
    have l: "CHR ''%'' # ?a # ?b # pct_layer s = u @ v" using Cons.prems(1) by (simp add: pct_layer_def)
    consider "u = []" | "u = [CHR ''%'']" | "u = [CHR ''%'', ?a]" | u3 where "u = CHR ''%'' # ?a # ?b # u3"
      using l by (cases u rule: list.exhaust; cases "tl u" rule: list.exhaust; cases "tl (tl u)" rule: list.exhaust) auto
    then show ?case
    proof cases
      case 4
      then show ?thesis using l Cons.IH Cons.prems(2) by simp
    qed (use l hex[of c] hex_digit_plain[of ?a] hex_digit_plain[of ?b] Cons.prems(2) in \<open>auto simp: has_prefix_iff\<close>)
  qed
  ultimately show ?thesis by (simp add: inert_def pct_layer_ascii)
qed

lemma length_pct_layer: "length (pct_layer s) = 3 * length s"
  by (induction s) (simp_all add: pct_layer_def)

lemma layers_ascii: "ascii t \<Longrightarrow> ascii ((pct_layer ^^ i) t)"
  by (cases i) (simp_all add: pct_layer_ascii)

lemma layers_longer: "t \<noteq> [] \<Longrightarrow> (pct_layer ^^ i) t \<noteq> []"
proof (induction i)
  case (Suc i)
  then show ?case using length_pct_layer[of "(pct_layer ^^ i) t"] by (cases "pct_layer ((pct_layer ^^ i) t)") auto
qed simp

text \<open>A parameter that leaves alone what it has nothing to decode in, as NFKC and HTML unescaping do.\<close>

definition plain_params :: "'z decode_env_scheme \<Rightarrow> bool" where
  "plain_params env \<longleftrightarrow>
     (\<forall>s. ascii s \<longrightarrow> de_nfkc env s = s) \<and> (\<forall>s. ascii s \<and> CHR ''&'' \<notin> set s \<longrightarrow> de_htmlUnescape env s = s)"

lemma decode_round_layer:
  assumes "plain_params env" "inert t" "CHR ''%'' \<notin> set t" "decodeBase64Candidates (b64_env.truncate env) ((pct_layer ^^ (i - 1)) t) k n
      = ((pct_layer ^^ (i - 1)) t, k)"
  shows "decode_round env n ((pct_layer ^^ i) t, k) = ((pct_layer ^^ (i - 1)) t, k)"
proof -
  have asc: "ascii t" using assms(2) by (simp add: inert_def)
  have "percent_stage ((pct_layer ^^ i) t) = (pct_layer ^^ (i - 1)) t"
    using percent_stage_layer[OF layers_ascii[OF asc]] percent_stage_plain[OF assms(3)] by (cases i) simp_all
  moreover have "inert ((pct_layer ^^ (i - 1)) t)" using inert_layer assms(2) by (cases "i - 1") simp_all
  moreover from this have "de_nfkc env ((pct_layer ^^ (i - 1)) t) = (pct_layer ^^ (i - 1)) t"
    "de_htmlUnescape env ((pct_layer ^^ (i - 1)) t) = (pct_layer ^^ (i - 1)) t"
    using assms(1) by (simp_all add: plain_params_def inert_def)
  ultimately show ?thesis using assms(4) by (simp add: decode_round_def later_stages_inert)
qed

lemma decode_loop_layers:
  assumes "plain_params env" "inert t" "CHR ''%'' \<notin> set t" "t \<noteq> []"
    and "\<forall>i < max 1 j. decodeBase64Candidates (b64_env.truncate env) ((pct_layer ^^ i) t) k n = ((pct_layer ^^ i) t, k)"
  shows "decode_loop env n b ((pct_layer ^^ j) t, k) = ((pct_layer ^^ (j - b)) t, b \<le> j)"
  using assms(5)
proof (induction b arbitrary: j)
  case (Suc b)
  have r: "decode_round env n ((pct_layer ^^ j) t, k) = ((pct_layer ^^ (j - 1)) t, k)"
    by (rule decode_round_layer[OF assms(1-3)]) (use Suc.prems in auto)
  show ?case
  proof (cases j)
    case 0
    then show ?thesis using r by (simp add: Let_def)
  next
    case (Suc i)
    have "length ((pct_layer ^^ i) t) \<noteq> length ((pct_layer ^^ j) t)"
      using layers_longer[OF assms(4), of i] Suc by (simp add: length_pct_layer)
    then have "(pct_layer ^^ i) t \<noteq> (pct_layer ^^ j) t" by metis
    then show ?thesis using Suc.IH[of i] Suc.prems r Suc by (simp add: Let_def)
  qed
qed simp

text \<open>C16: Nested percent encodings are undone layer by layer: a plain text under fewer than sixteen of them is found again as
  it is, and from sixteen on the content is flagged. The base64 stage may not take one of the layers for base64.\<close>

theorem encoding_layers:
  assumes "plain_params env" "inert t" "CHR ''%'' \<notin> set t" "t \<noteq> []"
    and "\<forall>i < max 1 j. decodeBase64Candidates (b64_env.truncate env) ((pct_layer ^^ i) t) 8 (maxFullScanBytes p) = ((pct_layer ^^ i) t, 8)"
  shows "decodeCommonEncodings env p ((pct_layer ^^ j) t) = (stripSQLComments env ((pct_layer ^^ (j - 16)) t), 16 \<le> j)"
  unfolding decodeCommonEncodings_def maxDecodeIterations_def maxGunzipAttemptsPerPass_def
    decode_loop_layers[OF assms] by simp

definition wt_decode :: decode_env where
  "wt_decode = \<lparr>be_isPrint = (\<lambda>r. 32 \<le> r \<and> r < 127), be_gunzip = (\<lambda>_ _. None), de_nfkc = (\<lambda>s. s),
     de_htmlUnescape = (\<lambda>s. s), de_word = word_rune\<rparr>"

lemma wt_layers: "pct_layer ''<'' = ''%3C''" "pct_layer ''%3C'' = ''%25%33%43''"
  by (simp_all add: pct_layer_def pct_digit_def char_of_iff)

lemma wt_plain: "plain_params wt_decode" "inert ''<''"
  by (auto simp: plain_params_def wt_decode_def inert_def ascii_def has_prefix_def Cons_eq_append_conv append_eq_Cons_conv)

lemma wt_no_base64:
  "decodeBase64Candidates env ''<'' k n = (''<'', k)" "decodeBase64Candidates env ''%3C'' k n = (''%3C'', k)"
proof -
  have "find_all_rx b64BaseRE [] (runes ''<'') = []" "find_all_rx b64BaseRE [] (runes ''%3C'') = []"
    by (simp_all add: runes_ascii b64BaseRE_def b64RunUnit_def eq_sign_def data_rune_def alnum_rune_def b64_separator_def rx_eval Let_def)
  then show "decodeBase64Candidates env ''<'' k n = (''<'', k)" "decodeBase64Candidates env ''%3C'' k n = (''%3C'', k)"
    by (simp_all add: decodeBase64Candidates_def ReplaceFunc_def)
qed

theorem encoding_layers_witness:
  "decodeCommonEncodings wt_decode wt_prep ''%25%33%43'' = (stripSQLComments wt_decode ''<'', False)"
proof -
  have "\<forall>i < max 1 2. decodeBase64Candidates (b64_env.truncate wt_decode) ((pct_layer ^^ i) ''<'') 8 (maxFullScanBytes wt_prep)
      = ((pct_layer ^^ i) ''<'', 8)"
    by (auto simp: less_Suc_eq numeral_2_eq_2 wt_layers wt_no_base64)
  then show ?thesis
    using encoding_layers[of wt_decode "''<''" 2 wt_prep] by (simp add: numeral_2_eq_2 wt_layers wt_plain)
qed

theorem decoding_settles_or_flags_witness:
  "decodeCommonEncodings wt_decode wt_prep ''%3C'' = (stripSQLComments wt_decode ''<'', False)"
proof -
  let ?n = "maxFullScanBytes wt_prep" and ?d = "decodeCommonEncodings wt_decode wt_prep ''%3C''"
  let ?r = "rounds wt_decode ?n (''%3C'', 8)"
  have "decode_round wt_decode ?n (''%3C'', 8) = (''<'', 8)" "decode_round wt_decode ?n (''<'', 8) = (''<'', 8)"
    using decode_round_layer[OF wt_plain, of 1 8 ?n] decode_round_layer[OF wt_plain, of 0 8 ?n]
    by (simp_all add: wt_layers wt_no_base64)
  then have r: "?r 0 = ''%3C''" "?r 1 = ''<''" "?r 2 = ''<''" by (simp_all add: rounds_def numeral_2_eq_2)
  obtain k where k: "fst ?d = stripSQLComments wt_decode (?r k)" "\<forall>j < k. ?r (Suc j) \<noteq> ?r j"
    "if snd ?d then k = 16 else k < 16 \<and> ?r (Suc k) = ?r k"
    using decoding_settles_or_flags[of wt_decode wt_prep "''%3C''"] by blast
  have "\<not> 1 < k" using k(2) r by (auto simp: numeral_2_eq_2)
  moreover have "k \<noteq> 0" using k(3) r by (cases k) (auto split: if_splits)
  ultimately have "k = 1" by simp
  then show ?thesis using k(1,3) r(2) by (auto simp: prod_eq_iff split: if_splits)
qed

section \<open>What the views are free of\<close>

lemma lookalike_text:
  assumes "lookalikeMap r = Some rep"
  shows "\<exists>x. rep = rune_text x \<and> (\<forall>y \<in> set x. scalar y \<and> lookalikeMap y = None)"
proof -
  have c: "[c] = rune_text [byte c] \<and> scalar (byte c) \<and> lookalikeMap (byte c) = None" if "byte c < 128" for c
    using that rune_text_ascii[of "[c]"] by (simp add: scalar_def lookalikeMap_def)
  have "lookalikeMap r = None \<or> (length (the (lookalikeMap r)) \<le> 1 \<and> list_all (\<lambda>c. byte c < 128) (the (lookalikeMap r)))"
    unfolding lookalikeMap_def by (simp split: if_split)
  then have "length rep \<le> 1 \<and> list_all (\<lambda>c. byte c < 128) rep" using assms by simp
  then have "rep = [] \<or> (\<exists>c. rep = [c] \<and> byte c < 128)" by (cases rep) auto
  then show ?thesis
  proof
    assume "rep = []"
    then show ?thesis by (intro exI[of _ "[]"]) (simp add: rune_text_Nil)
  next
    assume "\<exists>c. rep = [c] \<and> byte c < 128"
    then obtain d where "rep = [d]" "byte d < 128" by blast
    then show ?thesis using c[of d] by (intro exI[of _ "[byte d]"]) simp
  qed
qed

lemma mapped_runes:
  assumes "\<And>r. r \<in> set rs \<Longrightarrow> \<exists>x. f r = rune_text x \<and> (\<forall>y \<in> set x. scalar y \<and> P y)"
  shows "\<forall>y \<in> set (runes (concat (map f rs))). P y"
proof -
  have "\<exists>xs. concat (map f rs) = rune_text xs \<and> (\<forall>y \<in> set xs. scalar y \<and> P y)"
    using assms
  proof (induction rs)
    case Nil
    then show ?case by (intro exI[of _ "[]"]) (simp add: rune_text_Nil)
  next
    case (Cons r rs)
    then obtain xs where xs: "concat (map f rs) = rune_text xs" "\<forall>y \<in> set xs. scalar y \<and> P y" by auto
    obtain x where "f r = rune_text x" "\<forall>y \<in> set x. scalar y \<and> P y" using Cons.prems[of r] by auto
    then show ?case using xs by (intro exI[of _ "x @ xs"]) (auto simp: rune_text_append)
  qed
  then show ?thesis using runes_rune_text by metis
qed

text \<open>Unicode normalisation leaves no look-alike: whatever the NFKC form of the content, its normalised form contains
  none of the characters of the look-alike table.\<close>

theorem no_lookalike_left: "list_all (\<lambda>r. lookalikeMap r = None) (runes (normalizeUnicode env content))"
proof (cases "list_ex (\<lambda>r. lookalikeMap r \<noteq> None) (runes (de_nfkc env content))")
  case True
  have "\<exists>x. (case lookalikeMap r of Some rep \<Rightarrow> rep | None \<Rightarrow> rune_text [r]) = rune_text x \<and> (\<forall>y \<in> set x. scalar y \<and> lookalikeMap y = None)"
    if "r \<in> set (runes (de_nfkc env content))" for r
  proof (cases "lookalikeMap r")
    case None
    then show ?thesis using runes_scalar[OF that] by (intro exI[of _ "[r]"]) simp
  qed (use lookalike_text in simp)
  from mapped_runes[OF this] show ?thesis using True by (simp add: normalizeUnicode_def Let_def list_all_iff)
next
  case False
  then show ?thesis by (auto simp: normalizeUnicode_def Let_def list_all_iff list_ex_iff)
qed

lemma trim_blanks:
  assumes "\<forall>r \<in> set ys. scalar r" "ys = [] \<or> last ys \<noteq> 32"
  shows "rev (dropWhile (\<lambda>c. c = CHR '' '') (rev (dropWhile (\<lambda>c. c = CHR '' '') (rune_text ys))))
    = rune_text (dropWhile (\<lambda>r. r = 32) ys)"
proof -
  have head: "hd (encode_scalar r @ w) \<noteq> CHR '' ''" if "scalar r" "r \<noteq> 32" for r w
  proof (cases "r < 128")
    case True
    then have "encode_scalar r = [char_of r]" by (simp add: encode_scalar_def)
    then show ?thesis using that(2) True by (auto simp: char_of_iff)
  qed (use that(1) in \<open>auto simp: encode_scalar_def scalar_def char_of_iff\<close>)
  have left: "dropWhile (\<lambda>c. c = CHR '' '') (rune_text zs) = rune_text (dropWhile (\<lambda>r. r = 32) zs)"
    if "\<forall>r \<in> set zs. scalar r" for zs
    using that
  proof (induction zs)
    case (Cons z zs)
    show ?case
    proof (cases "z = 32")
      case True
      then have "encode_scalar z = '' ''" by (simp add: encode_scalar_def char_of_iff)
      then show ?thesis using Cons True by (simp add: rune_text_Cons)
    next
      case False
      then show ?thesis using head[of z "rune_text zs"] Cons.prems encode_scalar_not_Nil[of z]
        by (cases "encode_scalar z @ rune_text zs") (simp_all add: rune_text_Cons)
    qed
  qed (simp add: rune_text_Nil)
  define zs where "zs = dropWhile (\<lambda>r. r = 32) ys"
  have split: "ys = takeWhile (\<lambda>r. r = 32) ys @ zs" by (simp add: zs_def)
  then have "zs = [] \<or> last zs = last ys" by (metis last_appendR)
  moreover have "set zs \<subseteq> set ys" using split by (metis Un_upper2 set_append)
  ultimately have zs: "zs = [] \<or> last zs \<noteq> 32" "\<forall>r \<in> set zs. scalar r" using assms by auto
  have "rune_text zs = [] \<or> last (rune_text zs) \<noteq> CHR '' ''"
  proof (cases zs rule: rev_cases)
    case (snoc ws z)
    have e: "rune_text zs = rune_text ws @ encode_scalar z" using zs(2) snoc by (simp add: rune_text_append rune_text_Cons rune_text_Nil)
    have "last (encode_scalar z) \<noteq> CHR '' ''"
      using zs snoc by (auto simp: encode_scalar_def scalar_def char_of_iff)
    then show ?thesis by (simp add: e)
  qed (simp add: rune_text_Nil)
  then have "dropWhile (\<lambda>c. c = CHR '' '') (rev (rune_text zs)) = rev (rune_text zs)"
    by (cases "rune_text zs" rule: rev_cases) auto
  then show ?thesis using left[OF assms(1)] by (simp add: zs_def)
qed

text \<open>The text the patterns see is clean: after control bytes and whitespace are handled it contains no control
  character and no space character but single blanks between other characters.\<close>

theorem cleaned_text:
  "let rs = runes (removeExcessiveWhitespace (removeNullAndControlBytes content)) in
     list_all (\<lambda>r. 32 \<le> r \<and> (is_space r \<longrightarrow> r = 32)) rs \<and> successively (\<lambda>x y. \<not> (x = 32 \<and> y = 32)) rs
     \<and> (rs = [] \<or> (hd rs \<noteq> 32 \<and> last rs \<noteq> 32))"
proof -
  let ?keep = "\<lambda>r. r \<noteq> 0 \<and> \<not> (r < 32 \<and> r \<noteq> 9 \<and> r \<noteq> 10 \<and> r \<noteq> 13)"
  define ks where "ks = filter ?keep (runes content)"
  define ys where "ys = squeeze False ks"
  define zs where "zs = dropWhile (\<lambda>r. r = 32) ys"
  have ks: "\<forall>r \<in> set ks. scalar r" "runes (removeNullAndControlBytes content) = ks"
    using runes_scalar runes_rune_text[of ks] by (auto simp: ks_def removeNullAndControlBytes_def)
  have ys: "\<forall>r \<in> set ys. scalar r \<and> 32 \<le> r \<and> (is_space r \<longrightarrow> r = 32)"
  proof
    fix r assume "r \<in> set ys"
    then consider "r = 32" | "\<not> is_space r" "r \<in> set ks" using squeeze_runes by (auto simp: ys_def)
    then show "scalar r \<and> 32 \<le> r \<and> (is_space r \<longrightarrow> r = 32)"
    proof cases
      case 2
      then have "?keep r" "scalar r" using ks(1) by (auto simp: ks_def)
      then show ?thesis using 2(1) by (auto simp: is_space_def)
    qed (simp add: scalar_def)
  qed
  have last: "ys = [] \<or> last ys \<noteq> 32" using squeeze_last by (auto simp: ys_def)
  have "removeExcessiveWhitespace (removeNullAndControlBytes content) = rune_text zs"
    using trim_blanks[OF _ last] ys by (simp add: removeExcessiveWhitespace_def Let_def ks(2) flip: ys_def zs_def)
  moreover have zsub: "\<forall>r \<in> set zs. r \<in> set ys" by (auto simp: zs_def dest: set_dropWhileD)
  ultimately have r: "runes (removeExcessiveWhitespace (removeNullAndControlBytes content)) = zs"
    using runes_rune_text[of zs] ys by simp
  obtain pre where pre: "ys = pre @ zs" unfolding zs_def by (metis takeWhile_dropWhile_id)
  have "successively (\<lambda>x y. \<not> (x = 32 \<and> y = 32)) zs"
    using squeeze_singles[of False ks] by (simp add: pre successively_append_iff flip: ys_def)
  moreover have "zs = [] \<or> (hd zs \<noteq> 32 \<and> last zs \<noteq> 32)"
    using hd_dropWhile[of "\<lambda>r. r = 32" ys, folded zs_def] last by (cases "zs = []") (simp_all add: pre)
  ultimately show ?thesis using ys zsub by (simp add: Let_def r list_all_iff)
qed

end
