(* ===== verification/Semantic.thy ===== *)
theory Semantic
  imports Truncation Complex_Main
begin

text \<open>
  The semantic analysis of a text: \<open>guardcore/semantic.go\<close>. Its patterns are those of Go's \<open>regexp\<close>, written with the
  constructors of \<open>Regexp2\<close>; \<open>(?i)\<close> folds a class as \<open>folded_word_rune\<close> shows. \<open>strings.ToLower\<close> and
  \<open>unicode.IsPrint\<close> are parameters; a \<open>float64\<close> is a \<open>real\<close>.
\<close>

section \<open>Patterns and keywords\<close>

record sem_env =
  se_lower :: "string \<Rightarrow> string"
  se_isPrint :: "nat \<Rightarrow> bool"

definition matches_rx :: "rx \<Rightarrow> string \<Rightarrow> bool" where
  "matches_rx re s \<longleftrightarrow> find_rx re [] (runes s) \<noteq> None"

definition findAllString :: "rx \<Rightarrow> string \<Rightarrow> string list" where
  "findAllString re s = map (\<lambda>m. rune_text (mx_text m)) (find_all_rx re [] (runes s))"

datatype attack = Xss | Sql | Command | Path | Template

definition attackKeywordOrder :: "attack list" where
  "attackKeywordOrder = [Xss, Sql, Command, Path, Template]"

definition attackKeywords :: "attack \<Rightarrow> string list" where
  "attackKeywords a = (case a of
     Xss \<Rightarrow> [''script'', ''javascript'', ''onerror'', ''onload'', ''onclick'', ''onmouseover'', ''alert'', ''eval'',
             ''document'', ''cookie'', ''window'', ''location'']
   | Sql \<Rightarrow> [''select'', ''union'', ''insert'', ''update'', ''delete'', ''drop'', ''from'', ''where'', ''order'', ''group'',
             ''having'', ''concat'', ''substring'', ''database'', ''table'', ''column'']
   | Command \<Rightarrow> [''exec'', ''system'', ''shell'', ''cmd'', ''bash'', ''powershell'', ''wget'', ''curl'', ''nc'', ''netcat'',
             ''chmod'', ''chown'', ''sudo'', ''passwd'']
   | Path \<Rightarrow> [''etc'', ''passwd'', ''shadow'', ''hosts'', ''proc'', ''boot'', ''win'', ''ini'']
   | Template \<Rightarrow> [''render'', ''template'', ''jinja'', ''mustache'', ''handlebars'', ''ejs'', ''pug'', ''twig''])"

datatype shape = TagLike | FunctionCall | CommandChain | PathTraversal | UrlPattern

definition attackStructureOrder :: "shape list" where
  "attackStructureOrder = [TagLike, FunctionCall, CommandChain, PathTraversal, UrlPattern]"

definition not_gt :: "nat \<Rightarrow> bool" where
  "not_gt r \<longleftrightarrow> r \<noteq> 62"

definition not_paren :: "nat \<Rightarrow> bool" where
  "not_paren r \<longleftrightarrow> r \<noteq> 41"

definition slash_rune :: "nat \<Rightarrow> bool" where
  "slash_rune r \<longleftrightarrow> r = 47 \<or> r = 92"

definition folded_letter :: "nat \<Rightarrow> bool" where
  "folded_letter r \<longleftrightarrow> (65 \<le> r \<and> r \<le> 90) \<or> (97 \<le> r \<and> r \<le> 122) \<or> r = 383 \<or> r = 8490"

definition structureRes :: "shape \<Rightarrow> rx" where
  "structureRes s = (case s of
     TagLike \<Rightarrow> rx_seq [literal ''<'', Greedy 1 None (Class not_gt), literal ''>'']
   | FunctionCall \<Rightarrow> rx_seq [Greedy 1 (Some 64) (Class folded_word_rune), some_blanks, literal ''('',
        Greedy 0 (Some 256) (Class not_paren), literal '')'']
   | CommandChain \<Rightarrow> Greedy 1 (Some 2) (Class chain_rune)
   | PathTraversal \<Rightarrow> rx_seq [Greedy 2 (Some 20) (literal ''.''), Class slash_rune]
   | UrlPattern \<Rightarrow> rx_seq [Greedy 1 (Some 32) (Class folded_letter), literal ''://''])"

definition wordTokenRE :: rx where
  "wordTokenRE = rx_seq [Boundary word_rune, Greedy 1 None (Class word_rune), Boundary word_rune]"

section \<open>Tokens\<close>

definition looksLikeBinaryContent :: "sem_env \<Rightarrow> string \<Rightarrow> bool" where
  "looksLikeBinaryContent env content \<longleftrightarrow> content \<noteq> []
     \<and> real (length (filter (\<lambda>r. r \<noteq> 9 \<and> r \<noteq> 13 \<and> r \<noteq> 10 \<and> (r = 65533 \<or> \<not> se_isPrint env r)) (runes content)))
         / real (length (runes content)) \<ge> 2 / 10"

text \<open>Up to and with the last closing bracket, nothing without one.\<close>

definition tagScanWindow :: "string \<Rightarrow> string" where
  "tagScanWindow content = rev (dropWhile (\<lambda>c. c \<noteq> CHR ''>'') (rev content))"

definition collapseSpaces :: "string \<Rightarrow> string" where
  "collapseSpaces content = rune_text (squeeze False (runes content))"

definition first_runes :: "nat \<Rightarrow> string \<Rightarrow> string" where
  "first_runes k content = (if length (runes content) > k then rune_text (take k (runes content)) else content)"

definition scan_content :: "shape \<Rightarrow> string \<Rightarrow> string" where
  "scan_content s content = (if s = TagLike then tagScanWindow content else content)"

fun structure_tokens :: "shape list \<Rightarrow> string \<Rightarrow> string list \<Rightarrow> nat \<Rightarrow> string list" where
  "structure_tokens [] content tokens special = tokens"
| "structure_tokens (s # ss) content tokens special =
     (let mts = take 10 (findAllString (structureRes s) (scan_content s content));
          special1 = special + length mts
      in if special1 \<ge> 50 then tokens @ mts else structure_tokens ss content (tokens @ mts) special1)"

definition semanticExtractTokens :: "sem_env \<Rightarrow> string \<Rightarrow> string list" where
  "semanticExtractTokens env content0 =
     (let content = collapseSpaces (first_runes 50000 content0);
          tokens = take 1000 (findAllString wordTokenRE (se_lower env content))
      in take 1000 (structure_tokens attackStructureOrder content tokens 0))"

section \<open>Entropy, encodings and obfuscation\<close>

definition calculateEntropy :: "string \<Rightarrow> real" where
  "calculateEntropy content =
     (if content = [] then 0
      else
        (let rs = take 10000 (runes content); len = real (length rs) in
         - (\<Sum>r \<in> set rs. real (count_list rs r) / len * log 2 (real (count_list rs r) / len))))"

definition base64_rune :: "nat \<Rightarrow> bool" where
  "base64_rune r \<longleftrightarrow> (65 \<le> r \<and> r \<le> 90) \<or> (97 \<le> r \<and> r \<le> 122) \<or> digit_rune r \<or> r = 43 \<or> r = 47"

definition entity_rune :: "nat \<Rightarrow> bool" where
  "entity_rune r \<longleftrightarrow> r = 35 \<or> word_rune r"

definition semanticLayerPatterns :: "rx list" where
  "semanticLayerPatterns =
     [rx_seq [literal ''%'', Class hex_digit_rune, Class hex_digit_rune],
      rx_seq [Greedy 4 None (Class base64_rune), Greedy 0 (Some 2) (literal ''='')],
      rx_seq [Greedy 0 (Some 1) (literal ''0x''), Greedy 4 None (Class hex_digit_rune)],
      rx_seq [literal [CHR 0x5C, CHR ''u''], Greedy 4 (Some 4) (Class hex_digit_rune)],
      rx_seq [literal ''&'', Greedy 1 None (Class entity_rune), literal '';'']]"

definition detectEncodingLayers :: "string \<Rightarrow> nat" where
  "detectEncodingLayers content =
     length (filter (\<lambda>re. matches_rx re (first_runes 10000 content)) semanticLayerPatterns)"

definition sqlBoostRE :: rx where
  "sqlBoostRE = rx_seq [Boundary word_rune,
     Either (literal_i ''union'') (Either (literal_i ''select'') (Either (literal_i ''from'') (literal_i ''where''))),
     Boundary word_rune]"

definition cmdBoostRE :: rx where
  "cmdBoostRE = Class chain_rune"

definition getStructuralPatternBoost :: "attack \<Rightarrow> string \<Rightarrow> real" where
  "getStructuralPatternBoost a content =
     (let boost = (\<lambda>re s. if matches_rx re s then 3 / 10 else 0) in
      case a of
        Xss \<Rightarrow> boost (structureRes TagLike) (tagScanWindow content)
      | Sql \<Rightarrow> boost sqlBoostRE content
      | Command \<Rightarrow> boost cmdBoostRE content
      | Path \<Rightarrow> boost (structureRes PathTraversal) content
      | Template \<Rightarrow> 0)"

definition special_rune :: "nat \<Rightarrow> bool" where
  "special_rune r \<longleftrightarrow> \<not> ((97 \<le> r \<and> r \<le> 122) \<or> (65 \<le> r \<and> r \<le> 90) \<or> digit_rune r \<or> blank_rune r)"

definition not_blank :: "nat \<Rightarrow> bool" where
  "not_blank r \<longleftrightarrow> \<not> blank_rune r"

definition nonWordCharRE :: rx where
  "nonWordCharRE = Class special_rune"

definition longRunRE :: rx where
  "longRunRE = Greedy 100 None (Class not_blank)"

definition detectObfuscation :: "sem_env \<Rightarrow> string \<Rightarrow> bool" where
  "detectObfuscation env content =
     (if looksLikeBinaryContent env content then False
      else calculateEntropy content > 45 / 10 \<or> detectEncodingLayers content > 2
        \<or> real (length (findAllString nonWordCharRE content)) / real (max (length (runes content)) 1) > 4 / 10
        \<or> matches_rx longRunRE content)"

section \<open>Suspicious patterns and injection risk\<close>

record suspicious =
  sp_type :: shape
  sp_pattern :: string
  sp_position :: nat
  sp_context :: string

definition extractSuspiciousPatterns :: "string \<Rightarrow> suspicious list" where
  "extractSuspiciousPatterns content =
     concat (map (\<lambda>s.
       (let st = newScanText (scan_content s content); ft = newScanText content in
        map (\<lambda>loc. \<lparr>sp_type = s, sp_pattern = st_str st (fst loc) (snd loc), sp_position = fst loc,
                     sp_context = st_str ft (fst loc - 20) (min (snd loc + 20) (st_n ft))\<rparr>)
          (indicator_spans st (structureRes s)))) attackStructureOrder)"

definition brace_rune :: "nat \<Rightarrow> bool" where
  "brace_rune r \<longleftrightarrow> r = 123 \<or> r = 125"

definition sigil_rune :: "nat \<Rightarrow> bool" where
  "sigil_rune r \<longleftrightarrow> r = 36 \<or> r = 64"

definition operator_rune :: "nat \<Rightarrow> bool" where
  "operator_rune r \<longleftrightarrow> r = 61 \<or> r = 43 \<or> r = 45 \<or> r = 42 \<or> r = 47"

definition doubledBraceRE :: rx where
  "doubledBraceRE = rx_seq [Class brace_rune, Greedy 0 None (Class not_newline), Class brace_rune]"

definition funcCallRE :: rx where
  "funcCallRE = rx_seq [Greedy 1 (Some 64) (Class word_rune), some_blanks, literal ''('',
     Greedy 0 (Some 256) (Class not_paren), literal '')'']"

definition dollarVarRE :: rx where
  "dollarVarRE = rx_seq [Class sigil_rune, Greedy 1 None (Class word_rune)]"

definition operatorRunRE :: rx where
  "operatorRunRE = Greedy 2 None (Class operator_rune)"

definition injectionKeywordREs :: "rx list" where
  "injectionKeywordREs =
     map (\<lambda>w. rx_seq [Boundary word_rune, literal_i w, Boundary word_rune])
       [''eval'', ''exec'', ''compile'', ''__import__'', ''globals'', ''locals'']"

definition codeInjectionRisk :: "string \<Rightarrow> real" where
  "codeInjectionRisk content =
     (let risk = (if matches_rx doubledBraceRE content then 2 / 10 else 0)
               + (if matches_rx funcCallRE content then 2 / 10 else 0)
               + (if matches_rx dollarVarRE content then 1 / 10 else 0)
               + (if matches_rx operatorRunRE content then 1 / 10 else 0)
               + (if list_ex (\<lambda>re. matches_rx re content) injectionKeywordREs then 2 / 10 else 0)
      in if risk > 1 then 1 else risk)"

section \<open>The analysis and its score\<close>

record analysis =
  al_attack_probabilities :: "(attack \<times> real) list"
  al_entropy :: real
  al_encoding_layers :: nat
  al_is_obfuscated :: bool
  al_suspicious_patterns :: "suspicious list"
  al_code_injection_risk :: real
  al_token_count :: nat

definition keyword_hits :: "string list \<Rightarrow> attack \<Rightarrow> nat" where
  "keyword_hits tokens a = length (filter (\<lambda>k. k \<in> set tokens) (attackKeywords a))"

definition attack_probability :: "string list \<Rightarrow> string \<Rightarrow> attack \<Rightarrow> real" where
  "attack_probability tokens content a =
     (let score = real (keyword_hits tokens a) / real (length (attackKeywords a)) + getStructuralPatternBoost a content
      in if score > 1 then 1 else score)"

definition semanticAnalyze :: "sem_env \<Rightarrow> string \<Rightarrow> analysis" where
  "semanticAnalyze env content =
     (let tokens = semanticExtractTokens env content in
      \<lparr>al_attack_probabilities = map (\<lambda>a. (a, attack_probability tokens content a)) attackKeywordOrder,
       al_entropy = calculateEntropy content, al_encoding_layers = detectEncodingLayers content,
       al_is_obfuscated = detectObfuscation env content, al_suspicious_patterns = extractSuspiciousPatterns content,
       al_code_injection_risk = codeInjectionRisk content, al_token_count = length tokens\<rparr>)"

definition semanticThreatScore :: "analysis \<Rightarrow> real" where
  "semanticThreatScore a =
     (let maxProb = fold max (map snd (al_attack_probabilities a)) 0;
          score = maxProb * (3 / 10)
            + (if al_is_obfuscated a then 2 / 10 else 0)
            + (if al_encoding_layers a > 0 then min (real (al_encoding_layers a) * (1 / 10)) (2 / 10) else 0)
            + al_code_injection_risk a * (2 / 10)
            + (if al_suspicious_patterns a \<noteq> [] then min (real (length (al_suspicious_patterns a)) * (5 / 100)) (1 / 10) else 0)
      in if score > 1 then 1 else score)"

end
