(* ===== verification/Noise.thy ===== *)
theory Noise
  imports Truncation
begin

text \<open>
  Binary content: the density of artifact runes around a match (\<open>guardcore/binaryprefix.go\<close>) and the printable runs of
  a binary payload (\<open>guardcore/binaryislands.go\<close>). The counts of the prefix sums are \<open>int32\<close>, which a scanned text
  cannot overflow; a ratio of \<open>float64\<close> is one of reals.
\<close>

section \<open>Artifacts and their density\<close>

definition isBinaryArtifactRune :: "nat \<Rightarrow> bool" where
  "isBinaryArtifactRune r \<longleftrightarrow>
     r \<le> 0x08 \<or> r = 0x0B \<or> r = 0x0C \<or> (0x0E \<le> r \<and> r \<le> 0x1F) \<or> r = 0x7F \<or> (0x80 \<le> r \<and> r \<le> 0xA2) \<or> r = 0xA4
     \<or> (0xA6 \<le> r \<and> r \<le> 0xA9) \<or> (0xAB \<le> r \<and> r \<le> 0xAF) \<or> r = 0xB4 \<or> (0xB6 \<le> r \<and> r \<le> 0xB8)
     \<or> (0xBB \<le> r \<and> r \<le> 0xBF) \<or> (0x0180 \<le> r \<and> r \<le> 0x024F) \<or> r = 0xFFFD"

fun prefix_counts :: "nat \<Rightarrow> nat list \<Rightarrow> nat list" where
  "prefix_counts n [] = []"
| "prefix_counts n (r # rs) =
     (let n1 = (if isBinaryArtifactRune r then Suc n else n) in n1 # prefix_counts n1 rs)"

definition buildBinaryPrefix :: "nat list \<Rightarrow> nat list" where
  "buildBinaryPrefix rs = 0 # prefix_counts 0 rs"

definition binaryDensityRadius :: nat where
  "binaryDensityRadius = 64"

definition binaryDensityLimit :: nat where
  "binaryDensityLimit = 4"

definition matchIsBinaryDense :: "nat list \<Rightarrow> nat \<Rightarrow> nat \<Rightarrow> bool" where
  "matchIsBinaryDense bp start end0 =
     (if bp = [] then False
      else
        (let high = min (end0 + binaryDensityRadius) (length bp - 1); low = start - binaryDensityRadius
         in int (bp ! high) - int (bp ! low) \<ge> int binaryDensityLimit))"

definition artifacts :: "nat list \<Rightarrow> nat" where
  "artifacts rs = length (filter isBinaryArtifactRune rs)"

lemma prefix_counts_length: "length (prefix_counts n rs) = length rs"
  by (induction n rs rule: prefix_counts.induct) (simp_all add: Let_def)

lemma prefix_counts_nth: "i < length rs \<Longrightarrow> prefix_counts n rs ! i = n + artifacts (take (Suc i) rs)"
proof (induction n rs arbitrary: i rule: prefix_counts.induct)
  case (2 n r rs)
  then show ?case by (cases i) (auto simp: Let_def artifacts_def)
qed simp

lemma buildBinaryPrefix_nth: "i \<le> length rs \<Longrightarrow> buildBinaryPrefix rs ! i = artifacts (take i rs)"
  by (cases i) (simp_all add: buildBinaryPrefix_def prefix_counts_nth artifacts_def)

text \<open>The prefix sums answer what they are for: a match is binary-dense exactly when the window of 64 runes on each
  side of it, clipped to the text, holds four artifact runes or more.\<close>

theorem dense_counts_window:
  assumes "start \<le> end0" "end0 \<le> length rs"
  shows "matchIsBinaryDense (buildBinaryPrefix rs) start end0 \<longleftrightarrow>
    4 \<le> length (filter isBinaryArtifactRune (slice rs (start - 64) (min (end0 + 64) (length rs))))"
proof -
  define low where "low = start - 64"
  define high where "high = min (end0 + 64) (length rs)"
  have le: "low \<le> high" "high \<le> length rs" using assms by (auto simp: low_def high_def)
  have n: "length (buildBinaryPrefix rs) = Suc (length rs)" "buildBinaryPrefix rs \<noteq> []"
    by (simp_all add: buildBinaryPrefix_def prefix_counts_length)
  have "take high rs = take low rs @ slice rs low high"
    using slice_append[of 0 low high rs] le by (simp add: slice_def)
  then have "artifacts (take high rs) = artifacts (take low rs) + artifacts (slice rs low high)"
    by (simp add: artifacts_def)
  then have "int (buildBinaryPrefix rs ! high) - int (buildBinaryPrefix rs ! low) = int (artifacts (slice rs low high))"
    using le by (simp add: buildBinaryPrefix_nth)
  then show ?thesis
    by (simp add: matchIsBinaryDense_def n Let_def binaryDensityRadius_def binaryDensityLimit_def
        flip: low_def high_def artifacts_def)
qed

theorem dense_counts_window_witness:
  "\<not> matchIsBinaryDense (buildBinaryPrefix [1, 2, 3, 65]) 3 4"
  using dense_counts_window[of 3 4 "[1, 2, 3, 65]"] by (simp add: slice_def isBinaryArtifactRune_def)

section \<open>Printable islands\<close>

definition binaryLikeArtifactRatio :: real where
  "binaryLikeArtifactRatio = 2 / 10"

definition valueIsBinaryLike :: "string \<Rightarrow> bool" where
  "valueIsBinaryLike content \<longleftrightarrow> content \<noteq> []
     \<and> real (length (filter isBinaryArtifactRune (runes content))) / real (length (runes content)) \<ge> binaryLikeArtifactRatio"

definition printableIslandRune :: "nat \<Rightarrow> bool" where
  "printableIslandRune r \<longleftrightarrow>
     r = 9 \<or> r = 10 \<or> r = 13 \<or> (0x20 \<le> r \<and> r \<le> 0x7E) \<or> (0xA1 \<le> r \<and> r \<le> 0xD7FF) \<or> (0xE000 \<le> r \<and> r \<le> 0xFFFC)
     \<or> (0xFFFE \<le> r \<and> r \<le> 0xFFFF) \<or> (0x10000 \<le> r \<and> r \<le> 0x10FFFF)"

text \<open>The loop with the run it is in, reversed; a printable rune is never one an invalid byte reads as, so the bytes of a
  run are its runes encoded.\<close>

fun islands_from :: "nat \<Rightarrow> nat list \<Rightarrow> nat list \<Rightarrow> nat list list" where
  "islands_from least run [] = (if run \<noteq> [] \<and> length run \<ge> least then [rev run] else [])"
| "islands_from least run (r # rs) =
     (if printableIslandRune r then islands_from least (r # run) rs
      else (if run \<noteq> [] \<and> length run \<ge> least then [rev run] else []) @ islands_from least [] rs)"

definition extractBinaryIslands :: "string \<Rightarrow> int \<Rightarrow> string list" where
  "extractBinaryIslands content minRunLength =
     (if minRunLength \<le> 1 then [content]
      else map rune_text (islands_from (nat minRunLength) [] (runes content)))"

definition maximal_run :: "(nat \<Rightarrow> bool) \<Rightarrow> nat list \<Rightarrow> nat list \<Rightarrow> bool" where
  "maximal_run p rs xs \<longleftrightarrow> (\<exists>pre post. rs = pre @ xs @ post \<and> xs \<noteq> [] \<and> list_all p xs
     \<and> (pre = [] \<or> \<not> p (last pre)) \<and> (post = [] \<or> \<not> p (hd post)))"

lemma maximal_run_all:
  assumes "list_all p a"
  shows "maximal_run p a xs \<longleftrightarrow> xs = a \<and> a \<noteq> []"
proof
  assume "maximal_run p a xs"
  then obtain pre post where m: "a = pre @ xs @ post" "xs \<noteq> []" "pre = [] \<or> \<not> p (last pre)" "post = [] \<or> \<not> p (hd post)"
    by (auto simp: maximal_run_def)
  have "pre = []" "post = []" using assms m by (force simp: list_all_iff)+
  then show "xs = a \<and> a \<noteq> []" using m by simp
next
  assume "xs = a \<and> a \<noteq> []"
  then show "maximal_run p a xs"
    unfolding maximal_run_def using assms by (intro exI[of _ "[]"]) simp
qed

lemma maximal_run_split:
  assumes "list_all p a" "\<not> p r"
  shows "maximal_run p (a @ r # b) xs \<longleftrightarrow> (xs = a \<and> a \<noteq> []) \<or> maximal_run p b xs"
proof
  assume "maximal_run p (a @ r # b) xs"
  then obtain pre post where m: "a @ r # b = pre @ xs @ post" "xs \<noteq> []" "list_all p xs"
    "pre = [] \<or> \<not> p (last pre)" "post = [] \<or> \<not> p (hd post)"
    by (auto simp: maximal_run_def)
  have nr: "r \<notin> set xs" using m(3) assms(2) by (auto simp: list_all_iff)
  from m(1) consider us where "a = pre @ us" "us @ r # b = xs @ post" | us where "pre = a @ us" "r # b = us @ xs @ post"
    by (auto simp: append_eq_append_conv2)
  then show "(xs = a \<and> a \<noteq> []) \<or> maximal_run p b xs"
  proof cases
    case 1
    have "pre = []" using 1(1) m(4) assms(1) by (force simp: list_all_iff)
    then have e: "a @ r # b = xs @ post" using 1 by simp
    then obtain vs where "a = xs @ vs" "post = vs @ r # b"
      using nr by (auto simp: append_eq_append_conv2 append_eq_Cons_conv Cons_eq_append_conv)
    moreover have "vs = []" using calculation m(5) assms(1) by (cases vs) (auto simp: list_all_iff)
    ultimately show ?thesis using m(2) by simp
  next
    case 2
    have "us \<noteq> []" using 2(2) nr m(2) by (cases xs) auto
    then obtain us' where us: "us = r # us'" "b = us' @ xs @ post" using 2(2) by (cases us) auto
    have "us' = [] \<or> \<not> p (last us')" using m(4) by (auto simp: 2(1) us(1))
    then show ?thesis using m(2,3,5) us(2) unfolding maximal_run_def by blast
  qed
next
  assume "(xs = a \<and> a \<noteq> []) \<or> maximal_run p b xs"
  then show "maximal_run p (a @ r # b) xs"
  proof
    assume "xs = a \<and> a \<noteq> []"
    then have "a @ r # b = [] @ xs @ (r # b) \<and> xs \<noteq> [] \<and> list_all p xs \<and> (r # b = [] \<or> \<not> p (hd (r # b)))"
      using assms by simp
    then show ?thesis unfolding maximal_run_def by blast
  next
    assume "maximal_run p b xs"
    then obtain pre post where m: "b = pre @ xs @ post" "xs \<noteq> []" "list_all p xs"
      "pre = [] \<or> \<not> p (last pre)" "post = [] \<or> \<not> p (hd post)"
      by (auto simp: maximal_run_def)
    show ?thesis unfolding maximal_run_def
      by (rule exI[of _ "a @ r # pre"], rule exI[of _ post]) (use m assms(2) in auto)
  qed
qed

lemma islands_from_iff:
  "list_all printableIslandRune run \<Longrightarrow> xs \<in> set (islands_from least run rs) \<longleftrightarrow>
    length xs \<ge> least \<and> maximal_run printableIslandRune (rev run @ rs) xs"
proof (induction least run rs rule: islands_from.induct)
  case (1 least run)
  then have "list_all printableIslandRune (rev run)" by simp
  from maximal_run_all[OF this] show ?case by auto
next
  case (2 least run r rs)
  show ?case
  proof (cases "printableIslandRune r")
    case True
    then show ?thesis using 2 by simp
  next
    case False
    have "list_all printableIslandRune (rev run)" using 2(3) by simp
    from maximal_run_split[OF this False, of rs xs] show ?thesis using 2(2)[OF False] False by auto
  qed
qed

text \<open>C23: The islands a binary payload is reduced to are exactly its maximal runs of printable runes that are long enough:
  text embedded in an upload is scanned in full, and nothing that is not printable is.\<close>

theorem islands_are_maximal_runs:
  assumes "1 < least"
  shows "s \<in> set (extractBinaryIslands content least) \<longleftrightarrow>
    (\<exists>xs. s = rune_text xs \<and> least \<le> int (length xs) \<and> maximal_run printableIslandRune (runes content) xs)"
  using assms islands_from_iff[of "[]" _ "nat least" "runes content"]
  by (auto simp: extractBinaryIslands_def nat_le_iff image_iff)

theorem islands_are_maximal_runs_witness:
  "extractBinaryIslands [CHR 0x01, CHR ''o'', CHR ''k'', CHR 0x02, CHR ''x''] 2 = [''ok'']
   \<and> (\<exists>xs. ''ok'' = rune_text xs \<and> (2::int) \<le> int (length xs)
        \<and> maximal_run printableIslandRune (runes [CHR 0x01, CHR ''o'', CHR ''k'', CHR 0x02, CHR ''x'']) xs)"
proof -
  have r: "runes [CHR 0x01, CHR ''o'', CHR ''k'', CHR 0x02, CHR ''x''] = [1, 111, 107, 2, 120]" by (simp add: runes_ascii)
  have t: "rune_text [111, 107] = ''ok''" using rune_text_ascii[of "''ok''"] by simp
  have e: "extractBinaryIslands [CHR 0x01, CHR ''o'', CHR ''k'', CHR 0x02, CHR ''x''] 2 = [''ok'']"
    by (simp add: extractBinaryIslands_def r printableIslandRune_def t)
  then show ?thesis
    using islands_are_maximal_runs[of 2 "''ok''" "[CHR 0x01, CHR ''o'', CHR ''k'', CHR 0x02, CHR ''x'']"] by simp
qed

end
