(* ===== verification/Finders.thy ===== *)
theory Finders
  imports Truncation
begin

text \<open>
  The hand-written finders of \<open>guardcore/matchers.go\<close> that stand for patterns \<open>regexp2\<close> backtracks on, next to these
  patterns. A finder yields the regions of its matches in order. What follows a position is a list, \<open>i\<close> its index;
  \<open>unicode.IsLetter\<close> and \<open>unicode.IsDigit\<close> are parameters.
\<close>

section \<open>Scanning for a pattern\<close>

text \<open>If \<open>h\<close> tells the length of the match at a position, the matches of the pattern are found by trying every
  position from left to right and continuing after each match.\<close>

function scan_with :: "(nat list \<Rightarrow> nat list \<Rightarrow> nat option) \<Rightarrow> nat \<Rightarrow> nat list \<Rightarrow> nat list \<Rightarrow> region list" where
  "scan_with h i pre [] = []"
| "scan_with h i pre (c # cs) =
     (case h pre (c # cs) of
        Some (Suc n) \<Rightarrow> (i, i + Suc n) # scan_with h (i + Suc n) (rev (take (Suc n) (c # cs)) @ pre) (drop n cs)
      | _ \<Rightarrow> scan_with h (Suc i) (c # pre) cs)"
  by pat_completeness auto
termination
  by (relation "measure (\<lambda>(h, i, pre, rest). length rest)") auto

definition decides :: "rx \<Rightarrow> (nat list \<Rightarrow> nat list \<Rightarrow> nat option) \<Rightarrow> bool" where
  "decides re h \<longleftrightarrow> (\<forall>pre rest. case h pre rest of
      None \<Rightarrow> match_here re pre rest = None
    | Some n \<Rightarrow> 0 < n \<and> n \<le> length rest
        \<and> (\<exists>g. match_here re pre rest = Some \<lparr>mx_before = [], mx_text = take n rest, mx_after = drop n rest, mx_groups = g\<rparr>))"

lemma spans_skip:
  assumes "match_here re pre (c # cs) = None"
  shows "spans i (find_all_rx re pre (c # cs)) = spans (Suc i) (find_all_rx re (c # pre) cs)"
proof -
  have f: "find_rx re pre (c # cs) = map_option (\<lambda>m. m\<lparr>mx_before := c # mx_before m\<rparr>) (find_rx re (c # pre) cs)"
    using assms by (simp add: find_rx.simps[of re pre "c # cs"])
  show ?thesis
  proof (cases "find_rx re (c # pre) cs")
    case None
    then show ?thesis using f by (simp add: find_all_rx.simps[of re pre "c # cs"] find_all_rx.simps[of re "c # pre" cs])
  next
    case (Some m)
    then show ?thesis using f by (simp add: find_all_rx.simps[of re pre "c # cs"] find_all_rx.simps[of re "c # pre" cs])
  qed
qed

lemma scan_with_spans:
  assumes "decides re h"
  shows "scan_with h i pre rest = spans i (find_all_rx re pre rest)"
proof (induction rest arbitrary: i pre rule: length_induct)
  case (1 rest)
  show ?case
  proof (cases rest)
    case Nil
    have "h pre [] = None" using assms[unfolded decides_def, rule_format, of pre "[]"] by (cases "h pre []") auto
    then have "match_here re pre [] = None" using assms[unfolded decides_def, rule_format, of pre "[]"] by simp
    then show ?thesis by (simp add: Nil find_all_rx.simps[of re pre "[]"] find_rx.simps[of re pre "[]"])
  next
    case (Cons c cs)
    show ?thesis
    proof (cases "h pre rest")
      case None
      then have "match_here re pre (c # cs) = None"
        using assms[unfolded decides_def, rule_format, of pre rest] by (simp add: Cons)
      from spans_skip[OF this, of i] show ?thesis using None 1(1) by (simp add: Cons)
    next
      case (Some k)
      then obtain g where k: "0 < k" "k \<le> length rest"
        and m: "match_here re pre rest = Some \<lparr>mx_before = [], mx_text = take k rest, mx_after = drop k rest, mx_groups = g\<rparr>"
        using assms[unfolded decides_def, rule_format, of pre rest] by auto
      obtain n where n: "k = Suc n" using k(1) by (cases k) auto
      have "take k rest \<noteq> []" using k by (simp add: Cons n)
      then have "find_all_rx re pre rest
          = \<lparr>mx_before = [], mx_text = take k rest, mx_after = drop k rest, mx_groups = g\<rparr>
            # find_all_rx re (rev (take k rest) @ pre) (drop k rest)"
        using m by (subst find_all_rx.simps) (simp add: find_rx.simps[of re pre rest])
      then have "spans i (find_all_rx re pre rest)
          = (i, i + k) # spans (i + k) (find_all_rx re (rev (take k rest) @ pre) (drop k rest))"
        using k by (simp add: min_def)
      then show ?thesis using 1(1)[rule_format, of "drop k rest" "i + k" "rev (take k rest) @ pre"] Some
        by (simp add: Cons n)
    qed
  qed
qed

section \<open>Delimited bodies with escapes\<close>

text \<open>\<open>(?:[^...\\\n]|\\.)*\<close> and a closing rune: \<open>p\<close> holds of the plain runes of the body.\<close>

fun scan_body :: "(nat \<Rightarrow> bool) \<Rightarrow> nat \<Rightarrow> nat list \<Rightarrow> nat option" where
  "scan_body p close [] = None"
| "scan_body p close (c # cs) =
     (if c = close then Some 1
      else if c = 92 then
        (case cs of
           [] \<Rightarrow> None
         | d # ds \<Rightarrow> if d = 10 then None else map_option (\<lambda>k. k + 2) (scan_body p close ds))
      else if p c then map_option Suc (scan_body p close cs)
      else None)"

definition is_code :: "nat \<Rightarrow> nat \<Rightarrow> bool" where
  "is_code k r \<longleftrightarrow> r = k"

definition body_rx :: "(nat \<Rightarrow> bool) \<Rightarrow> rx" where
  "body_rx p = Either (Class p) (Seq (Class (is_code 92)) (Class not_newline))"

lemma scan_body_bounds: "scan_body p close cs = Some n \<Longrightarrow> 0 < n \<and> n \<le> length cs"
  by (induction p close cs arbitrary: n rule: scan_body.induct) (auto split: if_splits list.splits)

lemma body_step:
  assumes "\<not> p 92"
  shows "ms (body_rx p) (pre, c # cs, g) =
    (if p c then [(c # pre, cs, g)]
     else if c = 92 then (case cs of [] \<Rightarrow> [] | d # ds \<Rightarrow> if d = 10 then [] else [(d # 92 # pre, ds, g)])
     else [])"
  using assms by (auto simp: body_rx_def is_code_def not_newline_def split: list.splits)

lemma concat_map_nested: "concat (map f (concat (map g xs))) = concat (map (\<lambda>x. concat (map f (g x))) xs)"
  by (induction xs) simp_all

lemma body_loop:
  "\<not> p close \<Longrightarrow> \<not> p 92 \<Longrightarrow> close \<noteq> 92 \<Longrightarrow> length rest \<le> k \<Longrightarrow>
    concat (map (ms (Class (is_code close))) (reps True (ms (body_rx p)) k 0 (pre, rest, g)))
    = (case scan_body p close rest of None \<Rightarrow> [] | Some n \<Rightarrow> [(rev (take n rest) @ pre, drop n rest, g)])"
proof (induction p close rest arbitrary: k pre rule: scan_body.induct)
  case (1 p close)
  then show ?case by (cases k) (simp_all add: body_rx_def)
next
  case (2 p close c cs)
  note pr = 2(3,4,5)
  obtain k1 where k: "k = Suc k1" "length cs \<le> k1" using 2(6) by (cases k) auto
  let ?loop = "\<lambda>k st. concat (map (ms (Class (is_code close))) (reps True (ms (body_rx p)) k 0 st))"
  have step: "?loop k (pre, c # cs, g) = concat (map (?loop k1) (ms (body_rx p) (pre, c # cs, g))) @ ms (Class (is_code close)) (pre, c # cs, g)"
    by (simp add: k(1) Let_def concat_map_nested)
  consider "c = close" | "c \<noteq> close" "c = 92" | "c \<noteq> close" "c \<noteq> 92" "p c" | "c \<noteq> close" "c \<noteq> 92" "\<not> p c" by blast
  then show ?case
  proof cases
    case 1
    then show ?thesis unfolding step using pr by (simp add: body_step is_code_def)
  next
    case c: 2
    show ?thesis
    proof (cases "cs = [] \<or> hd cs = 10")
      case True
      then show ?thesis using c pr unfolding step by (cases cs) (simp_all add: body_step is_code_def)
    next
      case False
      then obtain d ds where ds: "cs = d # ds" "d \<noteq> 10" by (cases cs) auto
      have "?loop k1 (d # 92 # pre, ds, g)
          = (case scan_body p close ds of None \<Rightarrow> [] | Some n \<Rightarrow> [(rev (take n ds) @ d # 92 # pre, drop n ds, g)])"
        using 2(1)[OF c ds pr, of k1 "d # 92 # pre"] k(2) ds(1) by simp
      then show ?thesis unfolding step using c ds pr by (simp add: body_step is_code_def split: option.split)
    qed
  next
    case c: 3
    have "?loop k1 (c # pre, cs, g)
        = (case scan_body p close cs of None \<Rightarrow> [] | Some n \<Rightarrow> [(rev (take n cs) @ c # pre, drop n cs, g)])"
      using 2(2)[OF c pr k(2)] .
    then show ?thesis unfolding step using c pr by (simp add: body_step is_code_def split: option.split)
  next
    case 4
    then show ?thesis unfolding step using pr by (simp add: body_step is_code_def)
  qed
qed


lemma body_ms:
  assumes "\<not> p close" "\<not> p 92" "close \<noteq> 92"
  shows "ms (Seq (Greedy 0 None (body_rx p)) (Class (is_code close))) (pre, rest, g)
    = (case scan_body p close rest of None \<Rightarrow> [] | Some n \<Rightarrow> [(rev (take n rest) @ pre, drop n rest, g)])"
  using body_loop[OF assms, of rest "length rest" pre g] by (simp only: ms.simps most_def option.case fst_conv snd_conv order_refl simp_thms)

lemma scan_body_cong:
  "(\<And>c. c \<noteq> close \<Longrightarrow> c \<noteq> 92 \<Longrightarrow> p c = q c) \<Longrightarrow> scan_body p close cs = scan_body q close cs"
  by (induction p close cs rule: scan_body.induct) (auto split: list.splits)

section \<open>Dollar substitutions\<close>

definition scanDollarSubstitutionBody :: "nat \<Rightarrow> nat \<Rightarrow> nat list \<Rightarrow> nat option" where
  "scanDollarSubstitutionBody closeRune twin cs = scan_body (\<lambda>c. \<not> (c = 10 \<or> c = twin)) closeRune cs"

definition dollar_at :: "nat list \<Rightarrow> nat list \<Rightarrow> nat option" where
  "dollar_at pre rest =
     (case rest of
        c # d # ds \<Rightarrow>
          if c \<noteq> 36 then None
          else if d = 40 then map_option (\<lambda>k. 2 + k) (scanDollarSubstitutionBody 41 40 ds)
          else if d = 123 then map_option (\<lambda>k. 2 + k) (scanDollarSubstitutionBody 125 123 ds)
          else None
      | _ \<Rightarrow> None)"

definition gluedDollarSubstitutionCandidateFinditer :: "string \<Rightarrow> region list" where
  "gluedDollarSubstitutionCandidateFinditer t = scan_with dollar_at 0 [] (runes t)"

text \<open>The pattern the comment names: \<open>\$\((?:[^()\\\n]|\\.)*\)|\$\{(?:[^{}\\\n]|\\.)*\}\<close>.\<close>

definition not_in :: "nat list \<Rightarrow> nat \<Rightarrow> bool" where
  "not_in ks r \<longleftrightarrow> r \<notin> set ks"

definition dollar_pattern :: rx where
  "dollar_pattern = Either
     (Seq (Class (is_code 36)) (Seq (Class (is_code 40)) (Seq (Greedy 0 None (body_rx (not_in [40, 41, 92, 10]))) (Class (is_code 41)))))
     (Seq (Class (is_code 36)) (Seq (Class (is_code 123)) (Seq (Greedy 0 None (body_rx (not_in [123, 125, 92, 10]))) (Class (is_code 125)))))"

lemma ms_code: "ms (Class (is_code k)) (pre, rest, g)
    = (case rest of [] \<Rightarrow> [] | c # cs \<Rightarrow> if c = k then [(c # pre, cs, g)] else [])"
  by (simp add: is_code_def split: list.split)

lemma ms_code_then: "ms (Seq (Class (is_code k)) b) (pre, rest, g)
    = (case rest of [] \<Rightarrow> [] | c # cs \<Rightarrow> if c = k then ms b (c # pre, cs, g) else [])"
  by (simp add: is_code_def split: list.split)

lemma dollar_ms:
  "ms dollar_pattern (pre, rest, g)
    = (case dollar_at pre rest of None \<Rightarrow> [] | Some n \<Rightarrow> [(rev (take n rest) @ pre, drop n rest, g)])"
proof -
  have a: "scanDollarSubstitutionBody 41 40 ds = scan_body (not_in [40, 41, 92, 10]) 41 ds" for ds
    unfolding scanDollarSubstitutionBody_def by (rule scan_body_cong) (auto simp: not_in_def)
  have b: "scanDollarSubstitutionBody 125 123 ds = scan_body (not_in [123, 125, 92, 10]) 125 ds" for ds
    unfolding scanDollarSubstitutionBody_def by (rule scan_body_cong) (auto simp: not_in_def)
  have o: "\<not> not_in [40, 41, 92, 10] 41" "\<not> not_in [40, 41, 92, 10] 92" "\<not> not_in [123, 125, 92, 10] 125"
    "\<not> not_in [123, 125, 92, 10] 92" by (simp_all add: not_in_def)
  show ?thesis
    unfolding dollar_pattern_def ms.simps(3) ms_code_then dollar_at_def a b
    by (simp add: body_ms o del: ms.simps split: list.split option.split)
qed

lemma decides_by:
  assumes "\<And>pre rest. ms re (pre, rest, [])
      = (case h pre rest of None \<Rightarrow> [] | Some n \<Rightarrow> [(rev (take n rest) @ pre, drop n rest, [])])"
    "\<And>pre rest n. h pre rest = Some n \<Longrightarrow> 0 < n \<and> n \<le> length rest"
  shows "decides re h"
  unfolding decides_def match_here_def assms(1)
  using assms(2) by (simp split: option.split)

lemma dollar_bounds: "dollar_at pre rest = Some n \<Longrightarrow> 0 < n \<and> n \<le> length rest"
  by (auto simp: dollar_at_def scanDollarSubstitutionBody_def dest: scan_body_bounds split: list.splits if_splits)

text \<open>C22: \<open>gluedDollarSubstitutionCandidateFinditer\<close>, the linear scan that replaces a pattern the engine backtracks
  on, reports exactly the matches of that pattern, in the same order, on every text: escapes, nested openers,
  line ends and unclosed substitutions included.\<close>

theorem dollar_finder_exact:
  "gluedDollarSubstitutionCandidateFinditer t = spans 0 (find_all_rx dollar_pattern [] (runes t))"
  unfolding gluedDollarSubstitutionCandidateFinditer_def
  by (rule scan_with_spans, rule decides_by, rule dollar_ms, rule dollar_bounds)

section \<open>Backticks\<close>

definition scanBacktickCandidateBody :: "(nat \<Rightarrow> bool) \<Rightarrow> nat list \<Rightarrow> nat option" where
  "scanBacktickCandidateBody isWordRune cs =
     (case cs of
        [] \<Rightarrow> None
      | c # ds \<Rightarrow>
          if isWordRune c \<or> c = 46 \<or> c = 47 \<or> c = 126 then map_option (\<lambda>k. 1 + k) (scan_body (\<lambda>c. c \<noteq> 10) 96 ds)
          else if c = 36 \<and> ds \<noteq> [] \<and> (hd ds = 40 \<or> hd ds = 123)
            then map_option (\<lambda>k. 2 + k) (scan_body (\<lambda>c. c \<noteq> 10) 96 (tl ds))
          else None)"

definition backtick_at :: "(nat \<Rightarrow> bool) \<Rightarrow> nat list \<Rightarrow> nat list \<Rightarrow> nat option" where
  "backtick_at isWordRune pre rest =
     (case rest of
        [] \<Rightarrow> None
      | c # cs \<Rightarrow>
          if c \<noteq> 96 \<or> (pre \<noteq> [] \<and> hd pre = 96) then None
          else map_option (\<lambda>k. 1 + k) (scanBacktickCandidateBody isWordRune cs))"

definition gluedBacktickCandidateFinditer :: "(nat \<Rightarrow> bool) \<Rightarrow> string \<Rightarrow> region list" where
  "gluedBacktickCandidateFinditer isWordRune t = scan_with (backtick_at isWordRune) 0 [] (runes t)"

text \<open>The pattern the comment names: \<open>(?<!`)`(?:[A-Za-z0-9_./~]|\$[({])(?:[^`\\\n]|\\.)*`\<close>. Its class holds the ASCII
  word runes only.\<close>

definition word_or_path :: "(nat \<Rightarrow> bool) \<Rightarrow> nat \<Rightarrow> bool" where
  "word_or_path w r \<longleftrightarrow> w r \<or> r = 46 \<or> r = 47 \<or> r = 126"

definition one_of :: "nat list \<Rightarrow> nat \<Rightarrow> bool" where
  "one_of ks r \<longleftrightarrow> r \<in> set ks"

definition backtick_pattern :: rx where
  "backtick_pattern = Seq (NotBehind (is_code 96)) (Seq (Class (is_code 96))
     (Either
       (Seq (Class (word_or_path word_rune)) (Seq (Greedy 0 None (body_rx (not_in [96, 92, 10]))) (Class (is_code 96))))
       (Seq (Class (is_code 36)) (Seq (Class (one_of [40, 123]))
          (Seq (Greedy 0 None (body_rx (not_in [96, 92, 10]))) (Class (is_code 96)))))))"

lemma ms_class_then: "ms (Seq (Class q) b) (pre, rest, g)
    = (case rest of [] \<Rightarrow> [] | c # cs \<Rightarrow> if q c then ms b (c # pre, cs, g) else [])"
  by (simp split: list.split)

lemma ms_behind_then: "ms (Seq (NotBehind q) b) (pre, rest, g)
    = (if pre \<noteq> [] \<and> q (hd pre) then [] else ms b (pre, rest, g))"
  by (simp split: list.split)

lemma backtick_body_ms:
  "ms (Either
       (Seq (Class (word_or_path word_rune)) (Seq (Greedy 0 None (body_rx (not_in [96, 92, 10]))) (Class (is_code 96))))
       (Seq (Class (is_code 36)) (Seq (Class (one_of [40, 123]))
          (Seq (Greedy 0 None (body_rx (not_in [96, 92, 10]))) (Class (is_code 96)))))) (pre, cs, g)
    = (case scanBacktickCandidateBody word_rune cs of None \<Rightarrow> [] | Some n \<Rightarrow> [(rev (take n cs) @ pre, drop n cs, g)])"
proof -
  have a: "scan_body (\<lambda>c. c \<noteq> 10) 96 ds = scan_body (not_in [96, 92, 10]) 96 ds" for ds
    by (rule scan_body_cong) (auto simp: not_in_def)
  have o: "\<not> not_in [96, 92, 10] 96" "\<not> not_in [96, 92, 10] 92" "(96 :: nat) \<noteq> 92" by (simp_all add: not_in_def)
  note body = body_ms[OF o]
  show ?thesis
  proof (cases cs)
    case Nil
    then show ?thesis by (simp add: scanBacktickCandidateBody_def)
  next
    case (Cons c ds)
    consider "word_or_path word_rune c" "c \<noteq> 36" | "c = 36" | "\<not> word_or_path word_rune c" "c \<noteq> 36" by blast
    then show ?thesis
    proof cases
      case 1
      then show ?thesis unfolding Cons ms.simps(3) ms_code_then ms_class_then body scanBacktickCandidateBody_def a
        by (simp add: word_or_path_def is_code_def del: ms.simps split: option.split)
    next
      case 2
      have n: "\<not> word_or_path word_rune 36" by (simp add: word_or_path_def word_rune_def digit_rune_def)
      then have n': "\<not> (word_rune 36 \<or> (36::nat) = 46 \<or> (36::nat) = 47 \<or> (36::nat) = 126)" by (simp add: word_or_path_def)
      show ?thesis unfolding Cons 2 ms.simps(3) ms_code_then ms_class_then body scanBacktickCandidateBody_def a
          list.case if_not_P[OF n'] if_not_P[OF n]
        by (cases ds) (simp_all add: one_of_def is_code_def del: ms.simps split: option.split)
    next
      case 3
      then show ?thesis unfolding Cons ms.simps(3) ms_code_then ms_class_then body scanBacktickCandidateBody_def a
        by (simp add: word_or_path_def is_code_def del: ms.simps)
    qed
  qed
qed

lemma backtick_ms:
  "ms backtick_pattern (pre, rest, g)
    = (case backtick_at word_rune pre rest of None \<Rightarrow> [] | Some n \<Rightarrow> [(rev (take n rest) @ pre, drop n rest, g)])"
  unfolding backtick_pattern_def ms_behind_then ms_code_then backtick_body_ms backtick_at_def is_code_def
  by (cases rest) (simp_all del: ms.simps split: option.split)

lemma backtick_body_bounds: "scanBacktickCandidateBody w cs = Some n \<Longrightarrow> n \<le> length cs"
  by (cases cs; cases "tl cs")
    (auto simp: scanBacktickCandidateBody_def simp del: scan_body.simps split: if_splits dest!: scan_body_bounds)

lemma backtick_bounds: "backtick_at w pre rest = Some n \<Longrightarrow> 0 < n \<and> n \<le> length rest"
  by (cases rest) (auto simp: backtick_at_def split: if_splits dest: backtick_body_bounds)

text \<open>A scan looks at the runes of its text only.\<close>

lemma scan_with_cong:
  assumes "\<And>pre rest. set rest \<subseteq> A \<Longrightarrow> h pre rest = k pre rest"
  shows "set rest \<subseteq> A \<Longrightarrow> scan_with h i pre rest = scan_with k i pre rest"
proof (induction rest arbitrary: i pre rule: length_induct)
  case (1 rest)
  show ?case
  proof (cases rest)
    case (Cons c cs)
    have e: "h pre (c # cs) = k pre (c # cs)" using assms 1(2) Cons by simp
    have "set (drop n cs) \<subseteq> A" for n using 1(2) set_drop_subset[of n cs] by (auto simp: Cons)
    then have "scan_with h i' pre' (drop n cs) = scan_with k i' pre' (drop n cs)" for n i' pre'
      using 1(1) by (simp add: Cons less_Suc_eq_le)
    from this this[of _ _ 0] show ?thesis by (simp add: Cons e split: option.split nat.split)
  qed simp
qed

lemma backtick_at_cong:
  assumes "\<forall>r \<in> A. v r = w r" "set rest \<subseteq> A"
  shows "backtick_at v pre rest = backtick_at w pre rest"
  using assms by (auto simp: backtick_at_def scanBacktickCandidateBody_def split: list.split)

text \<open>\<open>gluedBacktickCandidateFinditer\<close> reports exactly the matches of its pattern on every text whose letters and
  digits are ASCII ones: \<open>isWordRune\<close> need not be told more about \<open>unicode.IsLetter\<close> and \<open>unicode.IsDigit\<close>.\<close>

theorem backtick_finder_exact:
  assumes "\<forall>r \<in> set (runes t). isWordRune r = word_rune r"
  shows "gluedBacktickCandidateFinditer isWordRune t = spans 0 (find_all_rx backtick_pattern [] (runes t))"
proof -
  have "scan_with (backtick_at isWordRune) 0 [] (runes t) = scan_with (backtick_at word_rune) 0 [] (runes t)"
    by (rule scan_with_cong[where A = "set (runes t)"], rule backtick_at_cong[OF assms]) simp_all
  also have "\<dots> = spans 0 (find_all_rx backtick_pattern [] (runes t))"
    by (rule scan_with_spans, rule decides_by, rule backtick_ms, rule backtick_bounds)
  finally show ?thesis by (simp add: gluedBacktickCandidateFinditer_def)
qed

theorem backtick_finder_exact_witness:
  "gluedBacktickCandidateFinditer word_rune ''a `id` b'' = [(2, 6)]
    \<and> spans 0 (find_all_rx backtick_pattern [] (runes ''a `id` b'')) = [(2, 6)]"
proof -
  have "gluedBacktickCandidateFinditer word_rune ''a `id` b'' = [(2, 6)]"
    by (simp add: gluedBacktickCandidateFinditer_def backtick_at_def scanBacktickCandidateBody_def word_rune_def
        digit_rune_def runes_ascii)
  then show ?thesis using backtick_finder_exact[of "''a `id` b''" word_rune] by simp
qed

text \<open>Elsewhere it does not: a letter that is not an ASCII one opens a candidate the pattern does not have, here an e with an
  acute accent between backticks.\<close>

definition accented :: string where
  "accented = rune_text [96, 233, 96]"

lemma runes_accented: "runes accented = [96, 233, 96]"
  unfolding accented_def by (rule runes_rune_text) (simp add: scalar_def)

theorem backtick_finder_reads_more:
  assumes "isWordRune 233"
  shows "gluedBacktickCandidateFinditer isWordRune accented = [(0, 3)] \<and> find_all_rx backtick_pattern [] (runes accented) = []"
proof
  show "gluedBacktickCandidateFinditer isWordRune accented = [(0, 3)]"
    using assms by (simp add: gluedBacktickCandidateFinditer_def backtick_at_def scanBacktickCandidateBody_def runes_accented)
  show "find_all_rx backtick_pattern [] (runes accented) = []"
    by (simp add: runes_accented find_all_rx.simps find_rx.simps match_here_def backtick_ms backtick_at_def
        scanBacktickCandidateBody_def word_rune_def digit_rune_def)
qed

section \<open>LDAP conjunctions\<close>

definition ldap_at :: "nat list \<Rightarrow> nat list \<Rightarrow> nat option" where
  "ldap_at pre rest =
     (case rest of
        [] \<Rightarrow> None
      | c # cs \<Rightarrow>
          if c \<noteq> 40 then None
          else
            (let j = length (takeWhile is_space cs) in
             case drop j cs of
               [] \<Rightarrow> None
             | d # ds \<Rightarrow>
                 if d \<noteq> 38 \<and> d \<noteq> 124 then None
                 else Some (1 + j + 1 + length (takeWhile is_space ds))))"

definition ldapParenConjunctionFinditer :: "string \<Rightarrow> region list" where
  "ldapParenConjunctionFinditer t = scan_with ldap_at 0 [] (runes t)"

definition ldap_pattern :: rx where
  "ldap_pattern = Seq (Class (is_code 40)) (Seq (Greedy 0 None (Class is_space))
     (Seq (Class (one_of [38, 124])) (Greedy 0 None (Class is_space))))"

lemma reps_class_first:
  "length rest \<le> k \<Longrightarrow> \<exists>tl. reps True (ms (Class p)) k 0 (pre, rest, g)
     = (rev (takeWhile p rest) @ pre, dropWhile p rest, g) # tl"
proof (induction rest arbitrary: k pre)
  case Nil
  then show ?case by (cases k) simp_all
next
  case (Cons c cs)
  then obtain k1 where k: "k = Suc k1" "length cs \<le> k1" by (cases k) auto
  show ?case using Cons.IH[OF k(2), of "c # pre"] by (auto simp: k(1) Let_def)
qed

lemma reps_class_then:
  assumes "\<And>pre c cs g. p c \<Longrightarrow> ms b (pre, c # cs, g) = []" "length rest \<le> k"
  shows "concat (map (ms b) (reps True (ms (Class p)) k 0 (pre, rest, g)))
    = ms b (rev (takeWhile p rest) @ pre, dropWhile p rest, g)"
  using assms(2)
proof (induction rest arbitrary: k pre)
  case Nil
  then show ?case by (cases k) simp_all
next
  case (Cons c cs)
  then obtain k1 where k: "k = Suc k1" "length cs \<le> k1" by (cases k) auto
  show ?case using Cons.IH[OF k(2), of "c # pre"] assms(1) by (simp add: k(1) Let_def)
qed

lemma ldap_ms:
  "case ldap_at pre rest of
     None \<Rightarrow> ms ldap_pattern (pre, rest, g) = []
   | Some n \<Rightarrow> \<exists>tl. ms ldap_pattern (pre, rest, g) = (rev (take n rest) @ pre, drop n rest, g) # tl"
proof (cases "rest \<noteq> [] \<and> hd rest = 40")
  case False
  then show ?thesis by (cases rest) (simp_all add: ldap_at_def ldap_pattern_def is_code_def)
next
  case True
  then obtain cs where rest: "rest = 40 # cs" by (cases rest) auto
  define j where "j = length (takeWhile is_space cs)"
  let ?amp = "Seq (Class (one_of [38, 124])) (Greedy 0 None (Class is_space))"
  have "ms ?amp (pre', c # cs', g') = []" if "is_space c" for pre' c cs' g'
    using that by (auto simp: one_of_def is_space_def)
  from reps_class_then[OF this, of is_space cs "length cs" "40 # pre" g]
  have m: "ms ldap_pattern (pre, rest, g) = ms ?amp (rev (takeWhile is_space cs) @ 40 # pre, dropWhile is_space cs, g)"
    unfolding ldap_pattern_def ms_code_then rest by (simp add: most_def)
  have dw: "dropWhile is_space cs = drop j cs" unfolding j_def by (rule dropWhile_eq_drop)
  have tw: "takeWhile is_space cs = take j cs" unfolding j_def by (rule takeWhile_eq_take)
  show ?thesis
  proof (cases "drop j cs")
    case Nil
    then show ?thesis unfolding m dw tw by (simp add: ldap_at_def rest j_def Let_def)
  next
    case (Cons d ds)
    show ?thesis
    proof (cases "d = 38 \<or> d = 124")
      case False
      then show ?thesis unfolding m dw tw Cons using Cons by (auto simp: ldap_at_def rest j_def Let_def one_of_def)
    next
      case d: True
      define k where "k = length (takeWhile is_space ds)"
      have dk: "dropWhile is_space ds = drop k ds" unfolding k_def by (rule dropWhile_eq_drop)
      have tk: "takeWhile is_space ds = take k ds" unfolding k_def by (rule takeWhile_eq_take)
      have at: "ldap_at pre rest = Some (1 + j + 1 + k)" using Cons d by (auto simp: ldap_at_def rest j_def k_def Let_def)
      obtain tl where "reps True (ms (Class is_space)) (length ds) 0 (d # rev (take j cs) @ 40 # pre, ds, g)
          = (rev (takeWhile is_space ds) @ d # rev (take j cs) @ 40 # pre, dropWhile is_space ds, g) # tl"
        using reps_class_first[of ds "length ds" is_space "d # rev (take j cs) @ 40 # pre" g] by auto
      then have r: "ms ?amp (rev (take j cs) @ 40 # pre, d # ds, g)
          = (rev (take k ds) @ d # rev (take j cs) @ 40 # pre, drop k ds, g) # tl"
        using d by (auto simp: one_of_def most_def tk dk)
      have cs: "cs = take j cs @ d # ds" using Cons append_take_drop_id[of j cs] by simp
      have lj: "length (take j cs) = j" by (simp add: j_def length_takeWhile_le)
      have "take (1 + j + 1 + k) rest = 40 # take j cs @ d # take k ds"
        using lj by (simp only: rest) (subst cs, simp)
      moreover have "drop (1 + j + 1 + k) rest = drop k ds"
        using lj by (simp only: rest) (subst cs, simp)
      ultimately show ?thesis unfolding at m dw tw Cons r by simp
    qed
  qed
qed

lemma ldap_bounds: "ldap_at pre rest = Some n \<Longrightarrow> 0 < n \<and> n \<le> length rest"
proof (cases rest)
  case (Cons c cs)
  assume a: "ldap_at pre rest = Some n"
  define j where "j = length (takeWhile is_space cs)"
  obtain d ds where ds: "drop j cs = d # ds" and n: "n = 1 + j + 1 + length (takeWhile is_space ds)"
    using a by (auto simp: ldap_at_def Cons j_def Let_def split: if_splits list.splits)
  have "length cs = j + Suc (length ds)"
    using arg_cong[OF ds, of length] length_takeWhile_le[of is_space cs] by (simp add: j_def)
  then show ?thesis using length_takeWhile_le[of is_space ds] by (simp add: n Cons)
qed (simp add: ldap_at_def)

lemma decides_first:
  assumes "\<And>pre rest. case h pre rest of
      None \<Rightarrow> ms re (pre, rest, []) = []
    | Some n \<Rightarrow> \<exists>tl. ms re (pre, rest, []) = (rev (take n rest) @ pre, drop n rest, []) # tl"
    "\<And>pre rest n. h pre rest = Some n \<Longrightarrow> 0 < n \<and> n \<le> length rest"
  shows "decides re h"
  unfolding decides_def
proof (intro allI)
  fix pre rest
  show "case h pre rest of
      None \<Rightarrow> match_here re pre rest = None
    | Some n \<Rightarrow> 0 < n \<and> n \<le> length rest
        \<and> (\<exists>g. match_here re pre rest = Some \<lparr>mx_before = [], mx_text = take n rest, mx_after = drop n rest, mx_groups = g\<rparr>)"
  proof (cases "h pre rest")
    case None
    then show ?thesis using assms(1)[of pre rest] by (simp add: match_here_def)
  next
    case (Some n)
    then obtain tl where "ms re (pre, rest, []) = (rev (take n rest) @ pre, drop n rest, []) # tl"
      using assms(1)[of pre rest] by auto
    then show ?thesis using Some assms(2)[OF Some] by (simp add: match_here_def)
  qed
qed

text \<open>\<open>ldapParenConjunctionFinditer\<close> reports exactly the matches of \<open>\(\s*[&|]\s*\<close>, on every text.\<close>

theorem ldap_finder_exact:
  "ldapParenConjunctionFinditer t = spans 0 (find_all_rx ldap_pattern [] (runes t))"
  unfolding ldapParenConjunctionFinditer_def
  by (rule scan_with_spans, rule decides_first, rule ldap_ms, rule ldap_bounds)

end
