(* ===== verification/Templates.thy ===== *)
theory Templates
  imports Finders
begin

text \<open>
  Template expressions: \<open>guardcore/templates.go\<close> and \<open>findFirstAt\<close> of \<open>guardcore/engine.go\<close>. A slice expression of Go
  whose bounds cross panics; \<open>go_slice\<close> is then \<open>None\<close>, and so is the finder that evaluates it. The digits and word
  characters of \<open>regexp2\<close> are parameters.
\<close>

section \<open>Searching runes\<close>

definition go_slice :: "'a list \<Rightarrow> nat \<Rightarrow> nat \<Rightarrow> 'a list option" where
  "go_slice xs low high = (if low \<le> high \<and> high \<le> length xs then Some (slice xs low high) else None)"

definition indexOfRune :: "nat list \<Rightarrow> nat \<Rightarrow> nat \<Rightarrow> nat option" where
  "indexOfRune rs target from = map_option (\<lambda>k. from + k) (index_byte (drop from rs) target)"

fun find_seq :: "nat list \<Rightarrow> nat list \<Rightarrow> nat option" where
  "find_seq seq [] = (if seq = [] then Some 0 else None)"
| "find_seq seq (x # xs) = (if has_prefix (x # xs) seq then Some 0 else map_option Suc (find_seq seq xs))"

definition indexOfRuneSeq :: "nat list \<Rightarrow> nat list \<Rightarrow> nat \<Rightarrow> nat option" where
  "indexOfRuneSeq rs seq from = map_option (\<lambda>k. from + k) (find_seq seq (drop from rs))"

definition startsWithRuneSeq :: "nat list \<Rightarrow> nat list \<Rightarrow> nat \<Rightarrow> bool" where
  "startsWithRuneSeq rs seq at0 \<longleftrightarrow> at0 + length seq \<le> length rs \<and> has_prefix (drop at0 rs) seq"

definition has_match :: "rx \<Rightarrow> nat list \<Rightarrow> bool" where
  "has_match re rs \<longleftrightarrow> find_rx re [] rs \<noteq> None"

text \<open>The region of a match that begins at \<open>start\<close> in the text cut off at \<open>upto0\<close>.\<close>

definition findFirstAt :: "rx \<Rightarrow> nat list \<Rightarrow> nat \<Rightarrow> nat \<Rightarrow> region option" where
  "findFirstAt re rs start upto0 =
     (if start \<ge> min upto0 (length rs) then None
      else
        (case match_here re (rev (take start rs)) (drop start (take upto0 rs)) of
           None \<Rightarrow> None
         | Some m \<Rightarrow> Some (start, start + length (mx_text m))))"

section \<open>Regions\<close>

text \<open>From an opening to the first closing rune after it, where the whole closing stands there.\<close>

record tregion =
  tr_start :: nat
  tr_barrier :: nat
  tr_end :: nat

lemma indexOfRune_SomeD:
  assumes "indexOfRune rs r from = Some k"
  shows "from \<le> k \<and> k < length rs \<and> rs ! k = r \<and> r \<notin> set (slice rs from k)"
proof -
  obtain j where j: "index_byte (drop from rs) r = Some j" "k = from + j" using assms by (auto simp: indexOfRune_def)
  have "j < length rs - from" using index_byte_less[OF j(1)] by simp
  then show ?thesis using index_byte_SomeD[OF j(1)] by (auto simp: j(2) slice_def)
qed

lemma find_seq_SomeD: "find_seq seq xs = Some k \<Longrightarrow> has_prefix (drop k xs) seq"
  by (induction seq xs arbitrary: k rule: find_seq.induct) (auto simp: has_prefix_def split: if_splits)

lemma indexOfRuneSeq_SomeD:
  "indexOfRuneSeq rs seq from = Some k \<Longrightarrow> from \<le> k \<and> has_prefix (drop k rs) seq"
  using find_seq_SomeD by (fastforce simp: indexOfRuneSeq_def add.commute)

function template_regions :: "nat list \<Rightarrow> nat list \<Rightarrow> nat list \<Rightarrow> nat \<Rightarrow> tregion list" where
  "template_regions rs opening closing cursor =
     (case indexOfRuneSeq rs opening cursor of
        None \<Rightarrow> []
      | Some start \<Rightarrow>
          (let bodyStart = start + length opening in
           case indexOfRune rs (hd closing) bodyStart of
             None \<Rightarrow> []
           | Some barrier \<Rightarrow>
               (let more = template_regions rs opening closing (max bodyStart (Suc barrier - length opening)) in
                if startsWithRuneSeq rs closing barrier
                then \<lparr>tr_start = start, tr_barrier = barrier, tr_end = barrier + length closing\<rparr> # more
                else more)))"
  by pat_completeness auto

termination
  by (relation "measure (\<lambda>(rs, opening, closing, cursor). length rs - cursor)")
    (auto dest!: indexOfRune_SomeD indexOfRuneSeq_SomeD)

declare template_regions.simps [simp del]

definition templateRegions :: "nat list \<Rightarrow> nat list \<Rightarrow> nat list \<Rightarrow> tregion list" where
  "templateRegions rs opening closing = template_regions rs opening closing 0"

section \<open>Matches\<close>

definition not_code :: "nat \<Rightarrow> nat \<Rightarrow> bool" where
  "not_code k r \<longleftrightarrow> r \<noteq> k"

definition frame_rx :: "nat list \<Rightarrow> nat list \<Rightarrow> rx" where
  "frame_rx opening closing =
     rx_seq (map (\<lambda>k. Class (is_code k)) opening @ [Greedy 0 None (Class (not_code (hd closing)))]
             @ map (\<lambda>k. Class (is_code k)) closing)"

definition templateFrame :: "nat list \<Rightarrow> nat list \<Rightarrow> nat list \<Rightarrow> nat \<Rightarrow> nat \<Rightarrow> region option" where
  "templateFrame rs opening closing start end0 = findFirstAt (frame_rx opening closing) rs start end0"

definition any_code :: "nat \<Rightarrow> bool" where
  "any_code r = True"

definition text_end :: rx where
  "text_end = NotAhead (Class any_code)"

fun any_of :: "rx list \<Rightarrow> rx" where
  "any_of [] = NotAhead (NotBehind (\<lambda>_. False))"
| "any_of [a] = a"
| "any_of (a # as) = Either a (any_of as)"

definition keywordIndicatorRE :: rx where
  "keywordIndicatorRE = rx_seq
     [any_of [literal ''system'', literal ''exec'', literal ''popen'', literal ''eval'', literal ''require'', literal ''include''],
      Greedy 0 None (Class is_space), text_end]"

fun keyword_matches :: "nat list \<Rightarrow> nat list \<Rightarrow> nat list \<Rightarrow> tregion list \<Rightarrow> region list option" where
  "keyword_matches rs opening closing [] = Some []"
| "keyword_matches rs opening closing (reg # regs) =
     (case go_slice rs (tr_start reg + length opening + 1) (tr_barrier reg) of
        None \<Rightarrow> None
      | Some body \<Rightarrow>
          if \<not> has_match keywordIndicatorRE body then keyword_matches rs opening closing regs
          else
            (case templateFrame rs opening closing (tr_start reg) (tr_end reg) of
               None \<Rightarrow> keyword_matches rs opening closing regs
             | Some m \<Rightarrow> map_option (\<lambda>out. m # out) (keyword_matches rs opening closing regs)))"

definition templateKeywordMatches :: "nat list \<Rightarrow> nat list \<Rightarrow> nat list \<Rightarrow> region list option" where
  "templateKeywordMatches rs opening closing = keyword_matches rs opening closing (templateRegions rs opening closing)"

text \<open>The characters of \<open>regexp2\<close> for \<open>\d\<close> and \<open>\w\<close>.\<close>

record char_classes =
  cc_digit :: "nat \<Rightarrow> bool"
  cc_word :: "nat \<Rightarrow> bool"

definition dateIndicatorRE :: "char_classes \<Rightarrow> rx" where
  "dateIndicatorRE cc = (let d = Class (cc_digit cc) in
     rx_seq [Greedy 4 (Some 4) d, literal ''-'', Greedy 1 (Some 2) d, literal ''-'', Greedy 1 (Some 2) d, NotAhead d])"

text \<open>A lookahead matches no text: every position where it holds is a match.\<close>

definition lookahead_positions :: "rx \<Rightarrow> nat list \<Rightarrow> nat list" where
  "lookahead_positions re rs = filter (\<lambda>p. ms re (rev (take p rs), drop p rs, []) \<noteq> []) [0..<Suc (length rs)]"

text \<open>\<open>None\<close> is \<open>-1\<close>. The slice is in bounds: the barrier of a region is not before its body.\<close>

definition templateAfterDates :: "char_classes \<Rightarrow> nat list \<Rightarrow> nat list \<Rightarrow> nat \<Rightarrow> nat \<Rightarrow> nat option" where
  "templateAfterDates cc rs opening start barrier =
     (let dates = lookahead_positions (dateIndicatorRE cc) (slice rs (start + 2) barrier) in
      if dates \<noteq> [] then indexOfRuneSeq rs opening (last dates + (start + 2) + 1) else Some start)"

datatype template_kind = Dollar | Curly | HashBrace | Asp

definition template_opening :: "template_kind \<Rightarrow> nat list" where
  "template_opening k = (case k of Dollar \<Rightarrow> [36, 123] | Curly \<Rightarrow> [123, 123] | HashBrace \<Rightarrow> [35, 123] | Asp \<Rightarrow> [60, 37])"

definition template_closing :: "template_kind \<Rightarrow> nat list" where
  "template_closing k = (case k of Dollar \<Rightarrow> [125] | Curly \<Rightarrow> [125, 125] | HashBrace \<Rightarrow> [125] | Asp \<Rightarrow> [37, 62])"

definition word_or_dot :: "char_classes \<Rightarrow> nat \<Rightarrow> bool" where
  "word_or_dot cc r \<longleftrightarrow> cc_word cc r \<or> r = 46"

definition spaces :: rx where
  "spaces = Greedy 0 None (Class is_space)"

definition quote_opt :: rx where
  "quote_opt = Greedy 0 (Some 1) (Class (one_of [39, 34]))"

definition at_names :: "char_classes \<Rightarrow> rx" where
  "at_names cc = rx_seq [literal ''@'', Greedy 1 None (Class (word_or_dot cc)), literal ''@'']"

definition call_open :: "char_classes \<Rightarrow> rx" where
  "call_open cc = rx_seq [Boundary (cc_word cc), Greedy 1 None (Class (cc_word cc)), spaces, literal ''('']"

definition call_empty :: "char_classes \<Rightarrow> rx" where
  "call_empty cc = rx_seq [Boundary (cc_word cc), Greedy 1 None (Class (cc_word cc)), literal ''('', spaces, literal '')'']"

definition arithmetic :: "char_classes \<Rightarrow> nat list \<Rightarrow> rx" where
  "arithmetic cc operators = (let digits = Greedy 1 None (Class (cc_digit cc)) in
     rx_seq [NotBehind (cc_digit cc), digits, spaces, Class (one_of operators), spaces, digits])"

definition quoted_arithmetic :: "char_classes \<Rightarrow> rx" where
  "quoted_arithmetic cc = (let digits = Greedy 1 None (Class (cc_digit cc)) in
     rx_seq [NotBehind (cc_digit cc), quote_opt, digits, quote_opt, spaces, Class (one_of [42, 47, 37, 43, 45]), spaces,
             quote_opt, digits, quote_opt])"

definition indicatorSrc :: "char_classes \<Rightarrow> template_kind \<Rightarrow> rx" where
  "indicatorSrc cc k = (case k of
     Dollar \<Rightarrow> any_of [at_names cc, call_open cc, arithmetic cc [42, 47, 37, 43, 45]]
   | Curly \<Rightarrow> any_of [at_names cc, call_empty cc, quoted_arithmetic cc]
   | HashBrace \<Rightarrow> any_of [at_names cc, call_open cc, quoted_arithmetic cc]
   | Asp \<Rightarrow> any_of [literal ''system'', literal ''exec'', literal ''eval'', literal ''`'', literal ''Runtime'', literal ''IO.'',
                literal ''File.'', literal ''Dir.'', arithmetic cc [45, 43, 42, 47]])"

definition expression_start :: "char_classes \<Rightarrow> template_kind \<Rightarrow> nat list \<Rightarrow> tregion \<Rightarrow> nat option" where
  "expression_start cc k rs reg =
     (if k = Curly \<or> k = HashBrace
      then templateAfterDates cc rs (template_opening k) (tr_start reg) (tr_barrier reg)
      else Some (tr_start reg))"

fun expression_matches :: "char_classes \<Rightarrow> template_kind \<Rightarrow> nat list \<Rightarrow> nat \<Rightarrow> tregion list \<Rightarrow> region list option" where
  "expression_matches cc k rs lastEnd [] = Some []"
| "expression_matches cc k rs lastEnd (reg # regs) =
     (if tr_start reg < lastEnd then expression_matches cc k rs lastEnd regs
      else
        (case expression_start cc k rs reg of
           None \<Rightarrow> expression_matches cc k rs lastEnd regs
         | Some start \<Rightarrow>
             (case go_slice rs (start + length (template_opening k)) (tr_barrier reg) of
                None \<Rightarrow> None
              | Some body \<Rightarrow>
                  if \<not> has_match (indicatorSrc cc k) body then expression_matches cc k rs lastEnd regs
                  else
                    (case templateFrame rs (template_opening k) (template_closing k) start (tr_end reg) of
                       None \<Rightarrow> expression_matches cc k rs lastEnd regs
                     | Some m \<Rightarrow> map_option (\<lambda>out. m # out) (expression_matches cc k rs (tr_end reg) regs)))))"

definition templateExpressionMatches :: "char_classes \<Rightarrow> template_kind \<Rightarrow> nat list \<Rightarrow> region list option" where
  "templateExpressionMatches cc k rs =
     expression_matches cc k rs 0 (templateRegions rs (template_opening k) (template_closing k))"


section \<open>What the regions are\<close>

definition encloses :: "nat list \<Rightarrow> nat list \<Rightarrow> nat list \<Rightarrow> tregion \<Rightarrow> bool" where
  "encloses rs opening closing reg \<longleftrightarrow> (\<exists>pre body post. rs = pre @ opening @ body @ closing @ post \<and> hd closing \<notin> set body
     \<and> tr_start reg = length pre \<and> tr_barrier reg = length (pre @ opening @ body)
     \<and> tr_end reg = length (pre @ opening @ body @ closing))"

lemma encloses_by:
  assumes "has_prefix (drop start rs) opening" "start + length opening \<le> barrier" "barrier \<le> length rs"
    "has_prefix (drop barrier rs) closing" "hd closing \<notin> set (slice rs (start + length opening) barrier)"
  shows "encloses rs opening closing \<lparr>tr_start = start, tr_barrier = barrier, tr_end = barrier + length closing\<rparr>"
proof -
  let ?body = "slice rs (start + length opening) barrier"
  obtain r1 where r1: "drop start rs = opening @ r1" using assms(1) by (auto simp: has_prefix_iff)
  obtain post where post: "drop barrier rs = closing @ post" using assms(4) by (auto simp: has_prefix_iff)
  have "r1 = drop (start + length opening) rs" using arg_cong[OF r1, of "drop (length opening)"] by (simp add: add.commute)
  also have "\<dots> = ?body @ drop barrier rs"
    using assms(2) by (simp add: slice_def) (metis append_take_drop_id drop_drop le_add_diff_inverse2)
  finally have r: "rs = take start rs @ opening @ ?body @ closing @ post" using r1 post append_take_drop_id[of start rs] by simp
  have lb: "length ?body = barrier - (start + length opening)" using assms(3) by (simp add: length_slice)
  have ls: "length (take start rs) = start" using assms(2,3) by simp
  show ?thesis unfolding encloses_def
    by (rule exI[of _ "take start rs"], rule exI[of _ ?body], rule exI[of _ post]) (use r assms(2,5) lb ls in simp)
qed

lemma template_regions_enclose:
  "reg \<in> set (template_regions rs opening closing cursor) \<Longrightarrow> encloses rs opening closing reg"
proof (induction rs "opening" closing cursor arbitrary: reg rule: template_regions.induct)
  case (1 rs "opening" closing cursor)
  have "template_regions rs opening closing cursor \<noteq> []" using 1(2) by (metis empty_iff list.set(1))
  then have "indexOfRuneSeq rs opening cursor \<noteq> None"
    by (cases "indexOfRuneSeq rs opening cursor"; simp add: template_regions.simps[of rs "opening" closing cursor])
  then obtain start where s: "indexOfRuneSeq rs opening cursor = Some start" by blast
  have "indexOfRune rs (hd closing) (start + length opening) \<noteq> None"
    using 1(2) s by (cases "indexOfRune rs (hd closing) (start + length opening)";
        simp add: template_regions.simps[of rs "opening" closing cursor])
  then obtain barrier where b: "indexOfRune rs (hd closing) (start + length opening) = Some barrier" by blast
  have "reg = \<lparr>tr_start = start, tr_barrier = barrier, tr_end = barrier + length closing\<rparr> \<and> startsWithRuneSeq rs closing barrier
      \<or> reg \<in> set (template_regions rs opening closing (max (start + length opening) (Suc barrier - length opening)))"
    using 1(2) s b by (subst (asm) template_regions.simps) (auto simp: Let_def split: if_splits)
  then show ?case
  proof
    assume r: "reg = \<lparr>tr_start = start, tr_barrier = barrier, tr_end = barrier + length closing\<rparr> \<and> startsWithRuneSeq rs closing barrier"
    show ?thesis using r indexOfRuneSeq_SomeD[OF s] indexOfRune_SomeD[OF b]
      by (auto simp: startsWithRuneSeq_def intro!: encloses_by)
  next
    assume "reg \<in> set (template_regions rs opening closing (max (start + length opening) (Suc barrier - length opening)))"
    then show ?thesis using 1(1)[OF s refl b] by simp
  qed
qed

lemma rx_seq_Cons: "as \<noteq> [] \<Longrightarrow> rx_seq (a # as) = Seq a (rx_seq as)"
  by (cases as) simp_all

lemma ms_codes_then:
  "bs \<noteq> [] \<Longrightarrow> ms (rx_seq (map (\<lambda>k. Class (is_code k)) ks @ bs)) (pre, ks @ rest, g) = ms (rx_seq bs) (rev ks @ pre, rest, g)"
proof (induction ks arbitrary: pre)
  case (Cons k ks)
  have "ms (rx_seq (map (\<lambda>k. Class (is_code k)) (k # ks) @ bs)) (pre, (k # ks) @ rest, g)
      = ms (rx_seq (map (\<lambda>k. Class (is_code k)) ks @ bs)) (k # pre, ks @ rest, g)"
    using Cons.prems by (simp add: rx_seq_Cons ms_code_then del: ms.simps)
  then show ?case using Cons by simp
qed simp

lemma ms_codes:
  "ks \<noteq> [] \<Longrightarrow> ms (rx_seq (map (\<lambda>k. Class (is_code k)) ks)) (pre, ks @ rest, g) = [(rev ks @ pre, rest, g)]"
proof (induction ks arbitrary: pre)
  case (Cons k ks)
  show ?case
  proof (cases "ks = []")
    case True
    then show ?thesis by (simp add: ms_code del: ms.simps)
  next
    case False
    then show ?thesis using Cons.IH[of "k # pre"] by (simp add: rx_seq_Cons ms_code_then del: ms.simps)
  qed
qed simp

lemma ms_codes_head:
  "ks \<noteq> [] \<Longrightarrow> c \<noteq> hd ks \<Longrightarrow> ms (rx_seq (map (\<lambda>k. Class (is_code k)) ks)) (pre, c # rest, g) = []"
  by (cases ks; cases "tl ks") (simp_all add: rx_seq_Cons ms_code_then ms_code del: ms.simps)

lemma frame_matches:
  assumes "hd closing \<notin> set body" "closing \<noteq> []"
  shows "ms (frame_rx opening closing) (pre, opening @ body @ closing, g)
    = [(rev (opening @ body @ closing) @ pre, [], g)]"
proof -
  let ?close = "rx_seq (map (\<lambda>k. Class (is_code k)) closing)"
  have n: "map (\<lambda>k. Class (is_code k)) closing \<noteq> []" using assms(2) by simp
  have tw: "takeWhile (not_code (hd closing)) (body @ closing) = body" "dropWhile (not_code (hd closing)) (body @ closing) = closing"
    using assms by (cases closing; force simp: not_code_def takeWhile_append dropWhile_append)+
  have "ms (frame_rx opening closing) (pre, opening @ body @ closing, g)
      = ms (Seq (Greedy 0 None (Class (not_code (hd closing)))) ?close) (rev opening @ pre, body @ closing, g)"
    unfolding frame_rx_def append.simps(2)[symmetric] using n
    by (subst ms_codes_then) (simp_all add: rx_seq_Cons del: ms.simps)
  also have "\<dots> = concat (map (ms ?close) (reps True (ms (Class (not_code (hd closing)))) (length (body @ closing)) 0
        (rev opening @ pre, body @ closing, g)))"
    by (simp only: ms.simps(2,4) most_def option.case fst_conv snd_conv)
  also have "\<dots> = ms ?close (rev body @ rev opening @ pre, closing @ [], g)"
    using tw by (subst reps_class_then) (simp_all add: not_code_def ms_codes_head assms(2) del: ms.simps)
  also have "\<dots> = [(rev (opening @ body @ closing) @ pre, [], g)]" using ms_codes[OF assms(2), of _ "[]"] by simp
  finally show ?thesis .
qed

lemma templateFrame_region:
  assumes "encloses rs opening closing reg" "closing \<noteq> []"
  shows "templateFrame rs opening closing (tr_start reg) (tr_end reg) = Some (tr_start reg, tr_end reg)"
proof -
  obtain pre body post where e: "rs = pre @ opening @ body @ closing @ post" "hd closing \<notin> set body"
    "tr_start reg = length pre" "tr_end reg = length (pre @ opening @ body @ closing)"
    using assms(1) by (auto simp: encloses_def)
  have t: "drop (length pre) (take (tr_end reg) rs) = opening @ body @ closing" by (simp add: e(1,4))
  have m: "match_here (frame_rx opening closing) (rev pre) (opening @ body @ closing)
      = Some \<lparr>mx_before = [], mx_text = opening @ body @ closing, mx_after = [], mx_groups = []\<rparr>"
    by (simp only: match_here_def frame_matches[OF e(2) assms(2)] list.case prod.case list.size) simp
  have l: "\<not> tr_start reg \<ge> min (tr_end reg) (length rs)" using assms(2) by (simp add: e)
  show ?thesis unfolding templateFrame_def findFirstAt_def using l by (simp add: t[unfolded e(4)] m e(1,3,4))
qed


section \<open>Keyword expressions\<close>

definition empty_body :: "nat list \<Rightarrow> tregion \<Rightarrow> bool" where
  "empty_body opening reg \<longleftrightarrow> tr_barrier reg = tr_start reg + length opening"

definition keyword_body :: "nat list \<Rightarrow> nat list \<Rightarrow> tregion \<Rightarrow> bool" where
  "keyword_body rs opening reg \<longleftrightarrow> has_match keywordIndicatorRE (slice rs (tr_start reg + length opening + 1) (tr_barrier reg))"

lemma encloses_bounds:
  "encloses rs opening closing reg \<Longrightarrow> tr_start reg + length opening \<le> tr_barrier reg \<and> tr_barrier reg \<le> length rs"
  by (auto simp: encloses_def)

lemma keyword_matches_eq:
  assumes "closing \<noteq> []"
  shows "\<forall>reg \<in> set regs. encloses rs opening closing reg \<Longrightarrow>
    keyword_matches rs opening closing regs =
      (if list_ex (empty_body opening) regs then None
       else Some (map (\<lambda>reg. (tr_start reg, tr_end reg)) (filter (keyword_body rs opening) regs)))"
proof (induction regs)
  case (Cons reg regs)
  have e: "encloses rs opening closing reg" using Cons.prems by simp
  note f = templateFrame_region[OF e assms] and b = encloses_bounds[OF e]
  have g: "go_slice rs (tr_start reg + length opening + 1) (tr_barrier reg)
      = (if empty_body opening reg then None else Some (slice rs (tr_start reg + length opening + 1) (tr_barrier reg)))"
    using b by (auto simp: go_slice_def empty_body_def)
  have ih: "keyword_matches rs opening closing regs =
      (if list_ex (empty_body opening) regs then None
       else Some (map (\<lambda>reg. (tr_start reg, tr_end reg)) (filter (keyword_body rs opening) regs)))"
    using Cons by simp
  show ?case
  proof (cases "empty_body opening reg")
    case True
    then show ?thesis using g by simp
  next
    case False
    then show ?thesis by (simp add: g f ih keyword_body_def[symmetric] del: One_nat_def add_Suc_right)
  qed
qed simp




lemma find_seq_first:
  "hd seq \<notin> set pre \<Longrightarrow> seq \<noteq> [] \<Longrightarrow> find_seq seq (pre @ seq @ rest) = Some (length pre)"
proof (induction pre)
  case Nil
  then show ?case by (cases seq) (simp_all add: has_prefix_def)
next
  case (Cons c pre)
  then have "\<not> has_prefix (c # pre @ seq @ rest) seq" by (cases seq) (auto simp: has_prefix_def)
  then show ?case using Cons by simp
qed

lemma empty_keyword_expression:
  assumes "hd opening \<notin> set pre" "opening \<noteq> []" "closing \<noteq> []"
  shows "templateKeywordMatches (pre @ opening @ closing @ post) opening closing = None"
proof -
  let ?rs = "pre @ opening @ closing @ post"
  have s: "indexOfRuneSeq ?rs opening 0 = Some (length pre)"
    using find_seq_first[OF assms(1,2), of "closing @ post"] by (simp add: indexOfRuneSeq_def)
  have b: "indexOfRune ?rs (hd closing) (length pre + length opening) = Some (length pre + length opening)"
    using assms(3) by (cases closing) (simp_all add: indexOfRune_def)
  have w: "startsWithRuneSeq ?rs closing (length pre + length opening)" by (simp add: startsWithRuneSeq_def has_prefix_def)
  obtain more where m: "templateRegions ?rs opening closing
      = \<lparr>tr_start = length pre, tr_barrier = length pre + length opening, tr_end = length pre + length opening + length closing\<rparr> # more"
    using template_regions.simps[of ?rs "opening" closing 0] by (simp add: templateRegions_def Let_def s b w)
  show ?thesis unfolding templateKeywordMatches_def m by (simp add: go_slice_def)
qed

text \<open>The first expression of a text need only be empty for \<open>templateKeywordMatches\<close> to panic, whatever follows: the
  body is sliced from one rune past the opening, which is then past the closing. The finder runs on every scanned
  value, so \<open>{{}}\<close> or \<open>{%%}\<close> in one of them is enough.\<close>

theorem empty_expression_panics:
  assumes "hd opening \<notin> set pre" "opening \<noteq> []" "closing \<noteq> []"
  shows "templateKeywordMatches (pre @ opening @ closing @ post) opening closing = None"
  using assms by (rule empty_keyword_expression)

theorem empty_expression_panics_witness:
  "templateKeywordMatches (runes ''a={{}}'') [123, 123] [125, 125] = None"
  using empty_expression_panics[of "[123, 123]" "[97, 61]" "[125, 125]" "[]"] by (simp add: runes_ascii)

section \<open>Calls and arithmetic\<close>

lemma templateAfterDates_SomeD:
  assumes "templateAfterDates cc rs opening start barrier = Some k" "has_prefix (drop start rs) opening"
  shows "start \<le> k \<and> has_prefix (drop k rs) opening"
  using assms indexOfRuneSeq_SomeD[of rs "opening"] by (fastforce simp: templateAfterDates_def Let_def split: if_splits)

definition suspicious_expression :: "char_classes \<Rightarrow> template_kind \<Rightarrow> nat list \<Rightarrow> region \<Rightarrow> bool" where
  "suspicious_expression cc k rs m \<longleftrightarrow> (\<exists>pre body post.
     rs = pre @ template_opening k @ body @ template_closing k @ post \<and> hd (template_closing k) \<notin> set body
     \<and> fst m = length pre \<and> snd m = length (pre @ template_opening k @ body @ template_closing k)
     \<and> has_match (indicatorSrc cc k) body)"

lemma encloses_later:
  assumes "encloses rs opening closing reg" "tr_start reg \<le> start" "has_prefix (drop start rs) opening"
    "start + length opening \<le> tr_barrier reg"
  shows "encloses rs opening closing (reg\<lparr>tr_start := start\<rparr>)"
proof -
  obtain pre body post where e: "rs = pre @ opening @ body @ closing @ post" "hd closing \<notin> set body"
    "tr_start reg = length pre" "tr_barrier reg = length (pre @ opening @ body)" "tr_end reg = length (pre @ opening @ body @ closing)"
    using assms(1) by (auto simp: encloses_def)
  have "slice rs (start + length opening) (tr_barrier reg) = drop (start - length pre) body"
    using assms(2,4) e(3,4) by (simp add: e(1) slice_def)
  then have "hd closing \<notin> set (slice rs (start + length opening) (tr_barrier reg))"
    using e(2) set_drop_subset by (metis subsetD)
  moreover have "has_prefix (drop (tr_barrier reg) rs) closing" by (simp add: e(1,4) has_prefix_def)
  ultimately have "encloses rs opening closing
      \<lparr>tr_start = start, tr_barrier = tr_barrier reg, tr_end = tr_barrier reg + length closing\<rparr>"
    using assms(3,4) e(4) by (intro encloses_by) (simp_all add: e(1))
  moreover have "reg\<lparr>tr_start := start\<rparr> = \<lparr>tr_start = start, tr_barrier = tr_barrier reg, tr_end = tr_barrier reg + length closing\<rparr>"
    using e(4,5) by (cases reg) simp
  ultimately show ?thesis by simp
qed


lemma expression_matches_sound:
  assumes "\<forall>reg \<in> set regs. encloses rs (template_opening k) (template_closing k) reg"
    "expression_matches cc k rs lastEnd regs = Some out"
  shows "(\<forall>m \<in> set out. lastEnd \<le> fst m \<and> suspicious_expression cc k rs m) \<and> sorted_wrt (\<lambda>a b. snd a \<le> fst b) out"
  using assms
proof (induction regs arbitrary: lastEnd out)
  case (Cons reg regs)
  let ?op = "template_opening k" and ?cl = "template_closing k"
  let ?good = "\<lambda>l out. (\<forall>m \<in> set out. l \<le> fst m \<and> suspicious_expression cc k rs m) \<and> sorted_wrt (\<lambda>a b. snd a \<le> fst b) out"
  have ih: "?good l o1" if "expression_matches cc k rs l regs = Some o1" for l o1
    using Cons.IH[OF _ that] Cons.prems(1) by simp
  have e: "encloses rs ?op ?cl reg" using Cons.prems(1) by simp
  show ?case
  proof (cases "tr_start reg < lastEnd \<or> expression_start cc k rs reg = None")
    case True
    then have "expression_matches cc k rs lastEnd regs = Some out" using Cons.prems(2) by (auto split: if_splits)
    then show ?thesis by (rule ih)
  next
    case False
    then obtain start where st: "expression_start cc k rs reg = Some start" by blast
    have p: "has_prefix (drop (tr_start reg) rs) ?op" using e by (auto simp: encloses_def has_prefix_def)
    have s: "tr_start reg \<le> start" "has_prefix (drop start rs) ?op"
      using st templateAfterDates_SomeD[OF _ p, of cc "tr_barrier reg" start] p by (auto simp: expression_start_def split: if_splits)
    obtain body where body: "go_slice rs (start + length ?op) (tr_barrier reg) = Some body"
      using Cons.prems(2) False st by (auto split: option.splits)
    have bound: "start + length ?op \<le> tr_barrier reg" and slice: "body = slice rs (start + length ?op) (tr_barrier reg)"
      using body by (auto simp: go_slice_def split: if_splits)
    note e' = encloses_later[OF e s bound]
    have f: "templateFrame rs ?op ?cl start (tr_end reg) = Some (start, tr_end reg)"
      using templateFrame_region[OF e'] by (simp add: template_closing_def split: template_kind.split)
    show ?thesis
    proof (cases "has_match (indicatorSrc cc k) body")
      case False
      then have "expression_matches cc k rs lastEnd regs = Some out"
        using Cons.prems(2) \<open>\<not> (tr_start reg < lastEnd \<or> expression_start cc k rs reg = None)\<close> st body by (simp split: if_splits)
      then show ?thesis by (rule ih)
    next
      case m: True
      then obtain o1 where o1: "expression_matches cc k rs (tr_end reg) regs = Some o1" "out = (start, tr_end reg) # o1"
        using Cons.prems(2) False st body f by (auto split: if_splits)
      obtain pre b post where d: "rs = pre @ ?op @ b @ ?cl @ post" "hd ?cl \<notin> set b" "start = length pre"
        "tr_barrier reg = length (pre @ ?op @ b)" "tr_end reg = length (pre @ ?op @ b @ ?cl)"
        using e' by (auto simp: encloses_def)
      have "body = b" by (simp add: slice d(1,3,4) slice_def)
      then have "suspicious_expression cc k rs (start, tr_end reg)"
        unfolding suspicious_expression_def using d m by auto
      then show ?thesis using ih[OF o1(1)] False s(1) d(3,5) by (auto simp: o1(2))
    qed
  qed
qed simp

lemma expression_matches_total:
  "k = Dollar \<or> k = Asp \<Longrightarrow> \<forall>reg \<in> set regs. encloses rs (template_opening k) (template_closing k) reg \<Longrightarrow>
    expression_matches cc k rs lastEnd regs \<noteq> None"
proof (induction regs arbitrary: lastEnd)
  case (Cons reg regs)
  obtain body where g: "go_slice rs (tr_start reg + length (template_opening k)) (tr_barrier reg) = Some body"
    using encloses_bounds[of rs "template_opening k" "template_closing k" reg] Cons.prems(2) by (simp add: go_slice_def)
  have st: "expression_start cc k rs reg = Some (tr_start reg)" using Cons.prems(1) by (auto simp: expression_start_def)
  have ih: "expression_matches cc k rs l regs \<noteq> None" for l using Cons by simp
  show ?case
    using ih[of lastEnd] ih[of "tr_end reg"] by (simp add: st g split: option.split)
qed simp

text \<open>What \<open>templateExpressionMatches\<close> reports is sound: complete expressions of the kind, from an opening to the first
  closing rune after it, with a call or an arithmetic expression in them, in order and disjoint; the dollar and the ASP
  kind never panic.\<close>

theorem template_expressions_sound:
  "case templateExpressionMatches cc k rs of
     None \<Rightarrow> k = Curly \<or> k = HashBrace
   | Some out \<Rightarrow> list_all (suspicious_expression cc k rs) out \<and> sorted_wrt (\<lambda>a b. snd a \<le> fst b) out"
proof -
  have e: "\<forall>reg \<in> set (templateRegions rs (template_opening k) (template_closing k)).
      encloses rs (template_opening k) (template_closing k) reg"
    using template_regions_enclose by (simp add: templateRegions_def)
  show ?thesis
  proof (cases "templateExpressionMatches cc k rs")
    case None
    then have "\<not> (k = Dollar \<or> k = Asp)"
      using expression_matches_total[OF _ e, of cc 0] by (auto simp: templateExpressionMatches_def)
    then show ?thesis using None by (cases k) simp_all
  next
    case (Some out)
    then show ?thesis using expression_matches_sound[OF e, of cc 0 out]
      by (auto simp: templateExpressionMatches_def list_all_iff)
  qed
qed

text \<open>The other kinds do panic: a date moves the start of the body to the next opening, which may stand after the
  closing.\<close>

definition ascii_classes :: char_classes where
  "ascii_classes = \<lparr>cc_digit = digit_rune, cc_word = word_rune\<rparr>"

theorem dated_expression_panics:
  "templateExpressionMatches ascii_classes Curly (runes ''{{2020-1-1}}{{'') = None"
proof -
  let ?rs = "[123, 123, 50, 48, 50, 48, 45, 49, 45, 49, 125, 125, 123, 123]"
  have t: "runes ''{{2020-1-1}}{{'' = ?rs" by (simp add: runes_ascii)
  have r: "templateRegions ?rs [123, 123] [125, 125] = [\<lparr>tr_start = 0, tr_barrier = 10, tr_end = 12\<rparr>]"
    unfolding templateRegions_def
    by (simp add: template_regions.simps indexOfRuneSeq_def indexOfRune_def startsWithRuneSeq_def has_prefix_def)
  have u: "[0..<Suc (length [50, 48, 50, 48, 45, 49, 45, 49 :: nat])] = [0, 1, 2, 3, 4, 5, 6, 7, 8]" by (simp add: upt_rec)
  let ?date = "\<lambda>pre rest. ms (dateIndicatorRE ascii_classes) (pre, rest, []) \<noteq> []"
  note date = dateIndicatorRE_def ascii_classes_def digit_rune_def Let_def rx_eval
  have "lookahead_positions (dateIndicatorRE ascii_classes) [50, 48, 50, 48, 45, 49, 45, 49]
      = filter (\<lambda>p. ?date (rev (take p [50, 48, 50, 48, 45, 49, 45, 49])) (drop p [50, 48, 50, 48, 45, 49, 45, 49])) [0, 1, 2, 3, 4, 5, 6, 7, 8]"
    unfolding lookahead_positions_def u ..
  moreover have "?date [] [50, 48, 50, 48, 45, 49, 45, 49]" by (simp add: date)
  moreover have "\<not> ?date [50] [48, 50, 48, 45, 49, 45, 49]" "\<not> ?date [48, 50] [50, 48, 45, 49, 45, 49]"
    "\<not> ?date [50, 48, 50] [48, 45, 49, 45, 49]" "\<not> ?date [48, 50, 48, 50] [45, 49, 45, 49]"
    "\<not> ?date [45, 48, 50, 48, 50] [49, 45, 49]" "\<not> ?date [49, 45, 48, 50, 48, 50] [45, 49]"
    "\<not> ?date [45, 49, 45, 48, 50, 48, 50] [49]" "\<not> ?date [49, 45, 49, 45, 48, 50, 48, 50] []"
    by (simp_all add: date)
  ultimately have "lookahead_positions (dateIndicatorRE ascii_classes) [50, 48, 50, 48, 45, 49, 45, 49] = [0]"
    by simp
  then have d: "templateAfterDates ascii_classes ?rs [123, 123] 0 10 = Some 12"
    by (simp add: templateAfterDates_def slice_def indexOfRuneSeq_def has_prefix_def)
  show ?thesis
    by (simp add: templateExpressionMatches_def t r template_opening_def template_closing_def expression_start_def d go_slice_def)
qed

end
