(* ===== verification/Registry.thy ===== *)
theory Registry
  imports Noise Templates
begin

text \<open>
  The scan of one text for the patterns of a table: \<open>guardcore/registry.go\<close> with \<open>boundedFinditer\<close> of
  \<open>guardcore/scan_window.go\<close>. The table with its maps and the pattern engine are a record of parameters; a finder may
  panic, which is \<open>None\<close>.
\<close>

section \<open>Patterns, matches and threats\<close>

record compiledPattern =
  cp_source :: string
  cp_contexts :: "string list"
  cp_category :: string
  cp_prefilter :: "string list option"

record rmatch =
  rm_t :: scanText
  rm_start :: nat
  rm_end :: nat
  rm_g1 :: string

definition matched_text :: "rmatch \<Rightarrow> string" where
  "matched_text m = st_str (rm_t m) (rm_start m) (rm_end m)"

record regex_threat =
  th_type :: string
  th_pattern :: string
  th_match :: string
  th_position :: nat
  th_category :: string
  th_weight :: real

type_synonym finder = "scanText \<Rightarrow> rmatch list option"

record registry =
  globalPatterns :: "compiledPattern list"
  weightOverrides :: "string \<Rightarrow> real option"
  rawViewSources :: "string \<Rightarrow> bool"
  urlDecodedViewSources :: "string \<Rightarrow> bool"
  reconRawViewPatternSources :: "string \<Rightarrow> bool"
  reconOptionalSeparatorPatternSources :: "string \<Rightarrow> bool"
  noisePronePatternSources :: "string \<Rightarrow> bool"
  windowedFinders :: "string \<Rightarrow> finder option"
  scanWindowMatcherFuncs :: "string \<Rightarrow> finder option"
  iterScanWindowMatches :: "string \<Rightarrow> finder option"
  safeFindAll :: "string \<Rightarrow> scanText \<Rightarrow> rmatch list \<times> bool"
  candidateValidators :: "string \<Rightarrow> (rmatch \<Rightarrow> string \<Rightarrow> bool) option"
  rg_lower :: "string \<Rightarrow> string"

definition resolvePatternWeight :: "'z registry_scheme \<Rightarrow> string \<Rightarrow> string \<Rightarrow> real" where
  "resolvePatternWeight rg pattern category = (case weightOverrides rg pattern of Some w \<Rightarrow> w | None \<Rightarrow> 1)"

section \<open>Views and contexts\<close>

datatype viewMode = ViewPlain | ViewMain | ViewRaw | ViewURLDecoded

definition patternExcludedFromView :: "'z registry_scheme \<Rightarrow> string \<Rightarrow> viewMode \<Rightarrow> bool" where
  "patternExcludedFromView rg source mode =
     (let isRaw = rawViewSources rg source; isURL = urlDecodedViewSources rg source;
          isReconRaw = reconRawViewPatternSources rg source
      in case mode of
           ViewRaw \<Rightarrow> isURL \<or> \<not> (isRaw \<or> isReconRaw)
         | ViewURLDecoded \<Rightarrow> isRaw \<or> \<not> isURL
         | ViewMain \<Rightarrow> isRaw \<or> isURL
         | ViewPlain \<Rightarrow> False)"

definition knownContexts :: "string list" where
  "knownContexts = [''query_param'', ''header'', ''url_path'', ''request_body'', ''unknown'']"

definition splitFirst :: "string \<Rightarrow> string" where
  "splitFirst s = takeWhile (\<lambda>c. c \<noteq> CHR '':'') s"

definition normalizeContext :: "string \<Rightarrow> string" where
  "normalizeContext context0 =
     (let context1 = (if context0 = [] then ''unknown'' else context0);
          normalized = (if CHR '':'' \<in> set context1 then splitFirst context1 else context1)
      in if normalized \<notin> set knownContexts then ''unknown'' else normalized)"

definition embeddedJSONLeafContextSuffix :: string where
  "embeddedJSONLeafContextSuffix = '':embedded_json''"

definition sourceExtensionPathIsProbe :: "string \<Rightarrow> bool" where
  "sourceExtensionPathIsProbe context0 \<longleftrightarrow> \<not> has_suffix context0 embeddedJSONLeafContextSuffix"

definition reconPathValueIsProbe :: "string \<Rightarrow> string \<Rightarrow> bool" where
  "reconPathValueIsProbe matched context0 \<longleftrightarrow>
     normalizeContext context0 = ''url_path'' \<or> normalizeContext context0 = ''unknown''
     \<or> has_prefix matched ''/'' \<or> has_prefix matched [CHR 0x5C]"

section \<open>One pattern\<close>

definition buildRegexThreat ::
  "'z registry_scheme \<Rightarrow> compiledPattern \<Rightarrow> rmatch \<Rightarrow> string \<Rightarrow> nat list \<Rightarrow> regex_threat option" where
  "buildRegexThreat rg p m validatorContext bp =
     (if (case candidateValidators rg (cp_source p) of Some v \<Rightarrow> \<not> v m validatorContext | None \<Rightarrow> False) then None
      else if reconOptionalSeparatorPatternSources rg (cp_source p)
           \<and> \<not> reconPathValueIsProbe (matched_text m) validatorContext then None
      else if noisePronePatternSources rg (cp_source p) \<and> matchIsBinaryDense bp (rm_start m) (rm_end m) then None
      else Some \<lparr>th_type = ''regex'', th_pattern = cp_source p, th_match = matched_text m, th_position = rm_start m,
                 th_category = cp_category p, th_weight = resolvePatternWeight rg (cp_source p) (cp_category p)\<rparr>)"

definition buildTimeoutThreat :: "'z registry_scheme \<Rightarrow> compiledPattern \<Rightarrow> regex_threat" where
  "buildTimeoutThreat rg p =
     \<lparr>th_type = ''pattern_timeout'', th_pattern = cp_source p, th_match = [], th_position = 0,
      th_category = cp_category p, th_weight = resolvePatternWeight rg (cp_source p) (cp_category p)\<rparr>"

fun firstAcceptedThreat ::
  "'z registry_scheme \<Rightarrow> compiledPattern \<Rightarrow> rmatch list \<Rightarrow> string \<Rightarrow> nat list \<Rightarrow> regex_threat option" where
  "firstAcceptedThreat rg p [] validatorContext bp = None"
| "firstAcceptedThreat rg p (m # mts) validatorContext bp =
     (case buildRegexThreat rg p m validatorContext bp of
        Some threat \<Rightarrow> Some threat
      | None \<Rightarrow> firstAcceptedThreat rg p mts validatorContext bp)"

definition literalPrefilter :: "'z registry_scheme \<Rightarrow> string list \<Rightarrow> string \<Rightarrow> bool" where
  "literalPrefilter rg lits s \<longleftrightarrow> list_ex (\<lambda>lit. contains_sub (rg_lower rg s) lit) lits"

definition with_finder ::
  "'z registry_scheme \<Rightarrow> compiledPattern \<Rightarrow> finder \<Rightarrow> scanText \<Rightarrow> string \<Rightarrow> nat list
    \<Rightarrow> (regex_threat option \<times> bool) option" where
  "with_finder rg p f t validatorContext bp =
     map_option (\<lambda>mts. (firstAcceptedThreat rg p mts validatorContext bp, False)) (f t)"

definition checkRegexPattern ::
  "'z registry_scheme \<Rightarrow> compiledPattern \<Rightarrow> scanText \<Rightarrow> string \<Rightarrow> nat list \<Rightarrow> (regex_threat option \<times> bool) option" where
  "checkRegexPattern rg p t validatorContext bp =
     (if (case cp_prefilter p of Some lits \<Rightarrow> \<not> literalPrefilter rg lits (st_s t) | None \<Rightarrow> False) then Some (None, False)
      else
        (case windowedFinders rg (cp_source p) of
           Some f \<Rightarrow> with_finder rg p f t validatorContext bp
         | None \<Rightarrow>
             (case scanWindowMatcherFuncs rg (cp_source p) of
                Some f \<Rightarrow> with_finder rg p f t validatorContext bp
              | None \<Rightarrow>
                  (case iterScanWindowMatches rg (cp_source p) of
                     Some f \<Rightarrow> with_finder rg p f t validatorContext bp
                   | None \<Rightarrow>
                       (let (mts, timeout) = safeFindAll rg (cp_source p) t
                        in Some (firstAcceptedThreat rg p mts validatorContext bp, timeout))))))"

section \<open>The table\<close>

record scan_result =
  sr_threats :: "regex_threat list"
  sr_matched :: "string list"
  sr_timeouts :: "string list"

definition skipped ::
  "'z registry_scheme \<Rightarrow> string \<Rightarrow> (string \<Rightarrow> bool) option \<Rightarrow> viewMode \<Rightarrow> compiledPattern \<Rightarrow> bool" where
  "skipped rg normalized enabledCategories mode p \<longleftrightarrow>
     patternExcludedFromView rg (cp_source p) mode
     \<or> (\<not> (normalized = ''unknown'' \<or> normalized = ''request_body'') \<and> normalized \<notin> set (cp_contexts p))
     \<or> (case enabledCategories of
          Some enabled \<Rightarrow> cp_category p \<noteq> ''custom'' \<and> \<not> enabled (cp_category p)
        | None \<Rightarrow> False)"

fun scan_patterns ::
  "'z registry_scheme \<Rightarrow> scanText \<Rightarrow> string \<Rightarrow> string \<Rightarrow> nat list \<Rightarrow> (string \<Rightarrow> bool) option \<Rightarrow> viewMode
    \<Rightarrow> compiledPattern list \<Rightarrow> scan_result option" where
  "scan_patterns rg t normalized validatorContext bp enabled mode [] =
     Some \<lparr>sr_threats = [], sr_matched = [], sr_timeouts = []\<rparr>"
| "scan_patterns rg t normalized validatorContext bp enabled mode (p # ps) =
     (if skipped rg normalized enabled mode p
      then scan_patterns rg t normalized validatorContext bp enabled mode ps
      else
        (case checkRegexPattern rg p t validatorContext bp of
           None \<Rightarrow> None
         | Some (found, timeoutOccurred) \<Rightarrow>
             (let threat = (if timeoutOccurred \<and> found = None then Some (buildTimeoutThreat rg p) else found) in
              map_option (\<lambda>r.
                \<lparr>sr_threats = (case threat of Some th \<Rightarrow> th # sr_threats r | None \<Rightarrow> sr_threats r),
                 sr_matched = (case threat of Some _ \<Rightarrow> cp_source p # sr_matched r | None \<Rightarrow> sr_matched r),
                 sr_timeouts = (if timeoutOccurred then cp_source p # sr_timeouts r else sr_timeouts r)\<rparr>)
                (scan_patterns rg t normalized validatorContext bp enabled mode ps))))"

definition checkRegexPatterns ::
  "'z registry_scheme \<Rightarrow> scanText \<Rightarrow> string \<Rightarrow> (string \<Rightarrow> bool) option \<Rightarrow> viewMode \<Rightarrow> scan_result option" where
  "checkRegexPatterns rg t context0 enabled mode =
     (let normalized = normalizeContext context0;
          validatorContext = (if has_suffix context0 embeddedJSONLeafContextSuffix
                              then normalized @ embeddedJSONLeafContextSuffix else normalized)
      in scan_patterns rg t normalized validatorContext (buildBinaryPrefix (st_rs t)) enabled mode (globalPatterns rg))"


section \<open>What a scan reports\<close>

definition reports :: "'z registry_scheme \<Rightarrow> scanText \<Rightarrow> string \<Rightarrow> nat list \<Rightarrow> compiledPattern \<Rightarrow> regex_threat option" where
  "reports rg t validatorContext bp p =
     (case checkRegexPattern rg p t validatorContext bp of
        Some (Some th, _) \<Rightarrow> Some th
      | Some (None, timeout) \<Rightarrow> if timeout then Some (buildTimeoutThreat rg p) else None
      | None \<Rightarrow> None)"

lemma map_filter_mem: "y \<in> set (List.map_filter f xs) \<longleftrightarrow> (\<exists>x \<in> set xs. f x = Some y)"
  by (force simp: List.map_filter_def)

lemma scan_patterns_eq:
  "scan_patterns rg t normalized vc bp enabled mode ps =
    (let run = filter (\<lambda>p. \<not> skipped rg normalized enabled mode p) ps in
     if list_ex (\<lambda>p. checkRegexPattern rg p t vc bp = None) run then None
     else Some \<lparr>sr_threats = List.map_filter (reports rg t vc bp) run,
                sr_matched = map cp_source (filter (\<lambda>p. reports rg t vc bp p \<noteq> None) run),
                sr_timeouts = map cp_source (filter (\<lambda>p. snd (the (checkRegexPattern rg p t vc bp))) run)\<rparr>)"
proof (induction ps)
  case Nil
  then show ?case by (simp add: List.map_filter_simps)
next
  case (Cons p ps)
  show ?case
  proof (cases "skipped rg normalized enabled mode p \<or> checkRegexPattern rg p t vc bp = None")
    case True
    then show ?thesis using Cons by (auto simp: Let_def)
  next
    case False
    then obtain th b where c: "checkRegexPattern rg p t vc bp = Some (th, b)" by auto
    then have r: "reports rg t vc bp p = (case th of Some x \<Rightarrow> Some x | None \<Rightarrow> if b then Some (buildTimeoutThreat rg p) else None)"
      by (simp add: reports_def split: option.split)
    show ?thesis using Cons False
      by (cases th; cases b) (simp_all add: c r Let_def List.map_filter_simps)
  qed
qed

lemma firstAcceptedThreat_first:
  "firstAcceptedThreat rg p mts vc bp = find (\<lambda>_. True) (List.map_filter (\<lambda>m. buildRegexThreat rg p m vc bp) mts)"
  by (induction mts) (simp_all add: List.map_filter_simps split: option.split)


text \<open>Every pattern is scanned in the main, the raw or the URL-decoded view, and in the plain view, unless the table
  lists it both as a raw and as a URL-decoded one: then no view but the plain one has it.\<close>

theorem views_cover_table:
  "(\<exists>mode \<in> {ViewMain, ViewRaw, ViewURLDecoded}. \<not> patternExcludedFromView rg source mode)
    \<longleftrightarrow> \<not> (rawViewSources rg source \<and> urlDecodedViewSources rg source)"
  by (auto simp: patternExcludedFromView_def Let_def)

section \<open>The template finders\<close>

definition region_match :: "scanText \<Rightarrow> region \<Rightarrow> rmatch" where
  "region_match t r = \<lparr>rm_t = t, rm_start = fst r, rm_end = snd r, rm_g1 = []\<rparr>"

definition templateCurlyKeywordFinder :: finder where
  "templateCurlyKeywordFinder t = map_option (map (region_match t)) (templateKeywordMatches (st_rs t) [123, 123] [125, 125])"

definition templatePercentKeywordFinder :: finder where
  "templatePercentKeywordFinder t = map_option (map (region_match t)) (templateKeywordMatches (st_rs t) [123, 37] [37, 125])"

definition templateExpressionFinder :: "char_classes \<Rightarrow> template_kind \<Rightarrow> finder" where
  "templateExpressionFinder cc k t = map_option (map (region_match t)) (templateExpressionMatches cc k (st_rs t))"

definition curly_pattern :: "compiledPattern \<Rightarrow> 'z registry_scheme \<Rightarrow> bool" where
  "curly_pattern p rg \<longleftrightarrow> p \<in> set (globalPatterns rg) \<and> cp_prefilter p = None \<and> windowedFinders rg (cp_source p) = None
     \<and> scanWindowMatcherFuncs rg (cp_source p) = Some templateCurlyKeywordFinder
     \<and> \<not> rawViewSources rg (cp_source p) \<and> \<not> urlDecodedViewSources rg (cp_source p)
     \<and> list_all (\<lambda>c. c \<in> set (cp_contexts p)) knownContexts"

lemma normalizeContext_known: "normalizeContext context0 \<in> set knownContexts"
  by (simp add: normalizeContext_def Let_def knownContexts_def)

lemma empty_expression_stops:
  assumes "curly_pattern p rg" "123 \<notin> set pre" "st_rs t = pre @ [123, 123, 125, 125] @ post" "mode = ViewMain \<or> mode = ViewPlain"
  shows "checkRegexPatterns rg t context0 None mode = None"
proof -
  have "templateKeywordMatches (pre @ [123, 123] @ [125, 125] @ post) [123, 123] [125, 125] = None"
    using assms(2) by (intro empty_keyword_expression) simp_all
  then have "checkRegexPattern rg p t vc bp = None" for vc bp
    using assms(1,3) by (simp add: curly_pattern_def checkRegexPattern_def with_finder_def templateCurlyKeywordFinder_def)
  moreover have "\<not> skipped rg (normalizeContext context0) None mode p"
    using assms(1,4) normalizeContext_known[of context0]
    by (auto simp: skipped_def curly_pattern_def patternExcludedFromView_def list_all_iff Let_def)
  moreover have "p \<in> set (globalPatterns rg)" using assms(1) by (simp add: curly_pattern_def)
  ultimately show ?thesis
    by (auto simp: checkRegexPatterns_def scan_patterns_eq list_ex_iff Let_def)
qed

end
