(* ===== verification/Engine.thy ===== *)
theory Engine
  imports Decoding Semantic Registry
begin

text \<open>
  One detection: \<open>guardcore/detect.go\<close>. The content is scanned in its views, the threats of the views are merged and
  scored. The table of patterns, the decoders and the Unicode tables are parameters; a panic of a finder is \<open>None\<close>.
\<close>

section \<open>Threats and views\<close>

datatype threat =
    RegexThreat regex_threat
  | SemanticThreat attack real analysis
  | SuspiciousThreat real analysis

record DetectResult =
  dr_IsThreat :: bool
  dr_ThreatScore :: real
  dr_Threats :: "threat list"
  dr_OriginalLength :: nat
  dr_ProcessedLength :: nat
  dr_DetectionMethod :: string

record detect_env =
  dt_decode :: decode_env
  dt_sem :: sem_env
  dt_registry :: registry

definition decodeBudgetExhaustedPattern :: string where
  "decodeBudgetExhaustedPattern = ''decode_budget_exhausted''"

definition decodeBudgetExhaustedThreat :: regex_threat where
  "decodeBudgetExhaustedThreat =
     \<lparr>th_type = ''regex'', th_pattern = decodeBudgetExhaustedPattern, th_match = decodeBudgetExhaustedPattern,
      th_position = 0, th_category = ''custom'', th_weight = 1\<rparr>"

definition regexAnomaly :: "regex_threat list \<Rightarrow> real" where
  "regexAnomaly threats = sum_list (map th_weight threats)"

definition threatKey :: "regex_threat \<Rightarrow> string" where
  "threatKey th = th_pattern th @ [CHR 0x00] @ th_match th"

fun keep_new :: "string list \<Rightarrow> regex_threat list \<Rightarrow> regex_threat list" where
  "keep_new seen [] = []"
| "keep_new seen (th # ths) =
     (if threatKey th \<in> set seen then keep_new seen ths else th # keep_new (threatKey th # seen) ths)"

definition dropViewDuplicateThreats :: "regex_threat list \<Rightarrow> regex_threat list \<Rightarrow> regex_threat list" where
  "dropViewDuplicateThreats seenThreats newThreats = keep_new (map threatKey seenThreats) newThreats"

definition pathTraversalDecodedShapeSource :: string where
  "pathTraversalDecodedShapeSource = [CHR 0x5C, CHR ''.'', CHR 0x5C, CHR ''.'', CHR ''['', CHR 0x5C, CHR 0x5C, CHR ''/'', CHR '']'']"

definition pathTraversalDecodedShapeCompiled :: rx where
  "pathTraversalDecodedShapeCompiled = rx_seq [Class (is_code 46), Class (is_code 46), Class (one_of [92, 47])]"

definition checkDecodedViewPathTraversal ::
  "registry \<Rightarrow> string \<Rightarrow> string \<Rightarrow> (string \<Rightarrow> bool) option \<Rightarrow> regex_threat option" where
  "checkDecodedViewPathTraversal rg processedContent rawViewContent enabledCategories =
     (if (case enabledCategories of Some enabled \<Rightarrow> \<not> enabled ''path_traversal'' | None \<Rightarrow> False) then None
      else
        (let decodedT = newScanText processedContent;
             decodedMatches = indicator_spans decodedT pathTraversalDecodedShapeCompiled;
             rawCount = length (indicator_spans (newScanText rawViewContent) pathTraversalDecodedShapeCompiled)
         in if length decodedMatches \<le> rawCount then None
            else
              (let m = hd decodedMatches in
               Some \<lparr>th_type = ''regex'', th_pattern = pathTraversalDecodedShapeSource,
                     th_match = st_str decodedT (fst m) (snd m), th_position = fst m, th_category = ''path_traversal'',
                     th_weight = resolvePatternWeight rg pathTraversalDecodedShapeSource ''path_traversal''\<rparr>)))"

section \<open>Semantic threats and the score\<close>

definition defaultMaxSemanticLength :: nat where
  "defaultMaxSemanticLength = 10000"

definition semanticThreshold :: real where
  "semanticThreshold = 7 / 10"

definition checkSemanticThreats :: "sem_env \<Rightarrow> string \<Rightarrow> string \<Rightarrow> threat list" where
  "checkSemanticThreats env processedContent originalContent =
     (if looksLikeBinaryContent env originalContent then []
      else
        (let analysis = semanticAnalyze env (rune_text (take defaultMaxSemanticLength (runes processedContent)));
             score = semanticThreatScore analysis;
             probable = List.map_filter (\<lambda>(a, prob).
               if prob \<ge> semanticThreshold then Some (SemanticThreat a prob analysis) else None)
               (al_attack_probabilities analysis)
         in if score > semanticThreshold
            then (if probable = [] \<and> score \<ge> semanticThreshold then [SuspiciousThreat score analysis] else probable)
            else []))"

definition threat_value :: "threat \<Rightarrow> real" where
  "threat_value th = (case th of RegexThreat _ \<Rightarrow> 0 | SemanticThreat _ prob _ \<Rightarrow> prob | SuspiciousThreat score _ \<Rightarrow> score)"

definition calculateThreatScore :: "regex_threat list \<Rightarrow> threat list \<Rightarrow> real" where
  "calculateThreatScore regexThreats semanticThreats =
     (if regexThreats = [] \<and> semanticThreats = [] then 0
      else
        (let semanticMax = fold (\<lambda>th m. if threat_value th > m then threat_value th else m) semanticThreats 0;
             score = (if semanticMax > regexAnomaly regexThreats then semanticMax else regexAnomaly regexThreats)
         in if score > 1 then 1 else score))"

section \<open>The detection\<close>

definition default_preprocessor :: preprocessor where
  "default_preprocessor = \<lparr>maxContentLength = 10000, preserveAttackPatterns = True, maxFullScanBytes = 262144\<rparr>"

text \<open>The URL-decoded view reuses the decoded content when there is some.\<close>

definition url_decoded_view :: "decode_env \<Rightarrow> preprocessor \<Rightarrow> preprocessed \<Rightarrow> string \<Rightarrow> string \<times> bool" where
  "url_decoded_view env p pp content =
     (if pp_decoded pp \<noteq> [] then (truncateSafely p (pp_decoded pp), pp_budgetExhausted pp)
      else preprocessURLDecodedNewlinePreserving env p content)"

definition traversal_threats :: "registry \<Rightarrow> string \<Rightarrow> string \<Rightarrow> regex_threat list" where
  "traversal_threats rg processedContent rawViewContent =
     (case checkDecodedViewPathTraversal rg processedContent rawViewContent None of Some th \<Rightarrow> [th] | None \<Rightarrow> [])"

definition budget_threats :: "bool \<Rightarrow> regex_threat list" where
  "budget_threats exhausted = (if exhausted then [decodeBudgetExhaustedThreat] else [])"

definition short_threats :: "detect_env \<Rightarrow> preprocessor \<Rightarrow> string \<Rightarrow> string \<Rightarrow> regex_threat list option" where
  "short_threats env p content context0 =
     (let shortBase64View = buildShortBase64AdditiveView (b64_env.truncate (dt_decode env)) (normalizeUnicode (dt_decode env))
            (truncateSafely p) content
      in if shortBase64View = [] then Some []
         else map_option sr_threats
           (checkRegexPatterns (dt_registry env) (newScanText shortBase64View) context0 None ViewPlain))"

text \<open>The threats of the patterns over all views, in the order the code collects them.\<close>

definition regex_threats :: "detect_env \<Rightarrow> preprocessor \<Rightarrow> string \<Rightarrow> string \<Rightarrow> regex_threat list option" where
  "regex_threats env p content context0 =
     (let rg = dt_registry env; de = dt_decode env; pp = preprocessWithDecoded de p content;
          rawView = preprocessSignalPreserving de p content;
          (urlView, urlExhausted) = url_decoded_view de p pp content
      in case checkRegexPatterns rg (newScanText (pp_processed pp)) context0 None ViewMain of
           None \<Rightarrow> None
         | Some main \<Rightarrow>
         (case checkRegexPatterns rg (newScanText rawView) context0 None ViewRaw of
            None \<Rightarrow> None
          | Some raw \<Rightarrow>
          (case checkRegexPatterns rg (newScanText urlView) context0 None ViewURLDecoded of
             None \<Rightarrow> None
           | Some url \<Rightarrow>
               map_option (\<lambda>short.
                 sr_threats main
                 @ dropViewDuplicateThreats (sr_threats main) (sr_threats raw)
                 @ traversal_threats rg (pp_processed pp) rawView
                 @ sr_threats url
                 @ budget_threats (pp_budgetExhausted pp \<or> urlExhausted)
                 @ short) (short_threats env p content context0))))"

definition detect_with :: "detect_env \<Rightarrow> preprocessor \<Rightarrow> string \<Rightarrow> string \<Rightarrow> DetectResult option" where
  "detect_with env p content context0 =
     map_option (\<lambda>regexThreats.
       (let processed = pp_processed (preprocessWithDecoded (dt_decode env) p content);
            semanticThreats = checkSemanticThreats (dt_sem env) processed content
        in \<lparr>dr_IsThreat = (regexAnomaly regexThreats \<ge> 1 \<or> semanticThreats \<noteq> []),
            dr_ThreatScore = calculateThreatScore regexThreats semanticThreats,
            dr_Threats = map RegexThreat regexThreats @ semanticThreats,
            dr_OriginalLength = length (runes content), dr_ProcessedLength = length (runes processed),
            dr_DetectionMethod = ''enhanced''\<rparr>))
       (regex_threats env p content context0)"

definition Detect :: "detect_env \<Rightarrow> string \<Rightarrow> string \<Rightarrow> DetectResult option" where
  "Detect env content context0 = detect_with env default_preprocessor content context0"


section \<open>The verdict and its score\<close>

lemma semantic_max:
  "0 \<le> m \<Longrightarrow> fold (\<lambda>th m. if threat_value th > m then threat_value th else m) ths m
     = (if ths = [] then m else max m (Max (threat_value ` set ths)))"
proof (induction ths arbitrary: m)
  case (Cons th ths)
  then show ?case by (cases "ths = []") (auto simp: max_def)
qed simp

lemma semantic_threat_value: "th \<in> set (checkSemanticThreats env processed content) \<Longrightarrow> 7 / 10 \<le> threat_value th"
proof -
  assume a: "th \<in> set (checkSemanticThreats env processed content)"
  have "(\<exists>a prob al. th = SemanticThreat a prob al \<and> 7 / 10 \<le> prob) \<or> (\<exists>score al. th = SuspiciousThreat score al \<and> 7 / 10 \<le> score)"
    using a by (auto simp: checkSemanticThreats_def Let_def semanticThreshold_def map_filter_mem split: if_splits)
  then show ?thesis by (auto simp: threat_value_def)
qed

lemma score_with_semantic:
  assumes "ths \<noteq> []" "\<forall>th \<in> set ths. 7 / 10 \<le> threat_value th"
  shows "7 / 10 \<le> calculateThreatScore rs ths"
proof -
  have "7 / 10 \<le> threat_value (hd ths)" "threat_value (hd ths) \<le> Max (threat_value ` set ths)"
    using assms by simp_all
  then have "7 / 10 \<le> Max (threat_value ` set ths)" by linarith
  then show ?thesis using assms(1) by (simp add: calculateThreatScore_def semantic_max Let_def)
qed

text \<open>C15: The verdict and the score of a detection agree: the score is at most 1; a threat scores 0.7 or more and names what
  was found, anything else scores less than 1.\<close>

theorem verdict_scored:
  assumes "Detect env content context0 = Some r"
  shows "dr_ThreatScore r \<le> 1
    \<and> (if dr_IsThreat r then 7 / 10 \<le> dr_ThreatScore r \<and> dr_Threats r \<noteq> [] else dr_ThreatScore r < 1)"
proof -
  obtain rs where rs: "regex_threats env default_preprocessor content context0 = Some rs"
    using assms by (auto simp: Detect_def detect_with_def)
  define sem where "sem = checkSemanticThreats (dt_sem env) (pp_processed (preprocessWithDecoded (dt_decode env) default_preprocessor content)) content"
  have r: "dr_IsThreat r = (regexAnomaly rs \<ge> 1 \<or> sem \<noteq> [])" "dr_ThreatScore r = calculateThreatScore rs sem"
    "dr_Threats r = map RegexThreat rs @ sem"
    using assms by (auto simp: Detect_def detect_with_def rs sem_def Let_def)
  have v: "\<forall>th \<in> set sem. 7 / 10 \<le> threat_value th" using semantic_threat_value by (simp add: sem_def)
  have "calculateThreatScore rs sem \<le> 1" by (simp add: calculateThreatScore_def Let_def)
  moreover have "7 / 10 \<le> calculateThreatScore rs sem \<and> (rs \<noteq> [] \<or> sem \<noteq> [])" if t: "regexAnomaly rs \<ge> 1 \<or> sem \<noteq> []"
  proof (cases "sem = []")
    case True
    then have "rs \<noteq> []" "regexAnomaly rs \<ge> 1" using t by (auto simp: regexAnomaly_def)
    then show ?thesis using True by (simp add: calculateThreatScore_def Let_def)
  qed (use score_with_semantic[OF _ v] in simp)
  moreover have "calculateThreatScore rs sem < 1" if "\<not> (regexAnomaly rs \<ge> 1 \<or> sem \<noteq> [])"
    using that by (simp add: calculateThreatScore_def Let_def)
  ultimately show ?thesis by (auto simp: r)
qed

section \<open>Duplicates\<close>

lemma keep_new_spec:
  "distinct (map threatKey (keep_new seen ths)) \<and> subseq (keep_new seen ths) ths
   \<and> threatKey ` set (keep_new seen ths) = threatKey ` set ths - set seen"
proof (induction seen ths rule: keep_new.induct)
  case (2 seen th ths)
  show ?case
  proof (cases "threatKey th \<in> set seen")
    case True
    then show ?thesis using 2(1) by auto
  next
    case False
    note ih = 2(2)[OF False]
    have "threatKey th \<notin> threatKey ` set (keep_new (threatKey th # seen) ths)" using ih by auto
    then show ?thesis using ih False by auto
  qed
qed simp

text \<open>Of the threats of the raw view exactly those are kept whose pattern and matched text no earlier view has, each
  pair once and in order.\<close>

theorem duplicates_dropped:
  "let kept = dropViewDuplicateThreats seen new in
     distinct (map threatKey kept) \<and> subseq kept new
     \<and> threatKey ` set kept = threatKey ` set new - threatKey ` set seen"
  using keep_new_spec[of "map threatKey seen" new] by (simp add: dropViewDuplicateThreats_def Let_def)

section \<open>The decode budget\<close>

definition weights_nonneg :: "registry \<Rightarrow> bool" where
  "weights_nonneg rg \<longleftrightarrow> (\<forall>source w. weightOverrides rg source = Some w \<longrightarrow> 0 \<le> w)"

lemma resolved_nonneg: "weights_nonneg rg \<Longrightarrow> 0 \<le> resolvePatternWeight rg source category"
  by (auto simp: weights_nonneg_def resolvePatternWeight_def split: option.split)

lemma built_weight: "buildRegexThreat rg p m vc bp = Some th \<Longrightarrow> th_weight th = resolvePatternWeight rg (cp_source p) (cp_category p)"
  by (auto simp: buildRegexThreat_def split: if_splits)

lemma first_weight:
  "firstAcceptedThreat rg p mts vc bp = Some th \<Longrightarrow> th_weight th = resolvePatternWeight rg (cp_source p) (cp_category p)"
  by (induction mts) (auto dest: built_weight split: option.splits)

lemma pattern_weight:
  "checkRegexPattern rg p t vc bp = Some (Some th, b) \<Longrightarrow> th_weight th = resolvePatternWeight rg (cp_source p) (cp_category p)"
  by (auto simp: checkRegexPattern_def with_finder_def dest: first_weight split: if_splits option.splits prod.splits)

lemma scanned_nonneg:
  assumes "weights_nonneg rg" "checkRegexPatterns rg t context0 enabled mode = Some r" "th \<in> set (sr_threats r)"
  shows "0 \<le> th_weight th"
proof -
  have "\<exists>p vc bp. reports rg t vc bp p = Some th"
    using assms(2,3) by (auto simp: checkRegexPatterns_def scan_patterns_eq Let_def map_filter_mem split: if_splits) blast+
  then obtain p vc bp where "reports rg t vc bp p = Some th" by blast
  then have "th_weight th = resolvePatternWeight rg (cp_source p) (cp_category p)"
    by (auto simp: reports_def buildTimeoutThreat_def dest: pattern_weight split: option.splits prod.splits if_splits)
  then show ?thesis using resolved_nonneg[OF assms(1)] by simp
qed


lemma dropped_subset: "set (dropViewDuplicateThreats seen new) \<subseteq> set new"
proof -
  have "set (keep_new keys ths) \<subseteq> set ths" for keys ths by (induction keys ths rule: keep_new.induct) auto
  then show ?thesis by (simp add: dropViewDuplicateThreats_def)
qed

lemma path_traversal_weight:
  "checkDecodedViewPathTraversal rg processed rawView enabled = Some th
    \<Longrightarrow> th_weight th = resolvePatternWeight rg pathTraversalDecodedShapeSource ''path_traversal''"
  by (auto simp: checkDecodedViewPathTraversal_def Let_def split: if_splits)

lemma regex_threats_parts:
  assumes "regex_threats env p content context0 = Some rs"
  obtains t1 t2 t3 x y main raw url short b where
    "checkRegexPatterns (dt_registry env) t1 context0 None ViewMain = Some main"
    "checkRegexPatterns (dt_registry env) t2 context0 None ViewRaw = Some raw"
    "checkRegexPatterns (dt_registry env) t3 context0 None ViewURLDecoded = Some url"
    "short_threats env p content context0 = Some short"
    "rs = sr_threats main @ dropViewDuplicateThreats (sr_threats main) (sr_threats raw)
       @ traversal_threats (dt_registry env) x y @ sr_threats url
       @ budget_threats (pp_budgetExhausted (preprocessWithDecoded (dt_decode env) p content) \<or> b) @ short"
  using assms
  by (auto simp: regex_threats_def Let_def split: prod.splits option.splits)

lemma regex_threats_nonneg:
  assumes "weights_nonneg (dt_registry env)" "regex_threats env p content context0 = Some rs" "th \<in> set rs"
  shows "0 \<le> th_weight th"
  using assms(2)
proof (cases rule: regex_threats_parts)
  case (1 t1 t2 t3 x y main raw url short b)
  note scanned = scanned_nonneg[OF assms(1)]
  consider "th \<in> set (sr_threats main)" | "th \<in> set (sr_threats raw)" | "th \<in> set (sr_threats url)" | "th \<in> set short"
    | "th \<in> set (traversal_threats (dt_registry env) x y)" | "th = decodeBudgetExhaustedThreat"
    using assms(3) 1(5) dropped_subset by (auto simp: budget_threats_def split: if_splits)
  then show ?thesis
  proof cases
    case 4
    then show ?thesis using 1(4) scanned by (auto simp: short_threats_def Let_def split: if_splits)
  next
    case 5
    then show ?thesis using path_traversal_weight resolved_nonneg[OF assms(1)]
      by (auto simp: traversal_threats_def split: option.splits)
  next
    case 6
    then show ?thesis by (simp add: decodeBudgetExhaustedThreat_def)
  qed (use scanned 1(1-3) in auto)
qed

lemma sum_list_ge_member: "x \<in> set xs \<Longrightarrow> \<forall>y \<in> set xs. 0 \<le> f y \<Longrightarrow> f x \<le> sum_list (map f xs)" for f :: "'a \<Rightarrow> real"
proof (induction xs)
  case (Cons y xs)
  have "0 \<le> sum_list (map f xs)" using Cons.prems(2) by (intro sum_list_nonneg) auto
  then show ?case using Cons by auto
qed simp

text \<open>C13: A content whose decoding is stopped by the budget is a threat in itself: layers of encodings beyond what is decoded
  cannot hide a payload from the scan without being reported.\<close>

theorem exhausted_budget_is_threat:
  assumes "weights_nonneg (dt_registry env)" "Detect env content context0 = Some r"
    "pp_budgetExhausted (preprocessWithDecoded (dt_decode env) default_preprocessor content)"
  shows "dr_IsThreat r \<and> RegexThreat decodeBudgetExhaustedThreat \<in> set (dr_Threats r)"
proof -
  obtain rs where rs: "regex_threats env default_preprocessor content context0 = Some rs"
    using assms(2) by (auto simp: Detect_def detect_with_def)
  have m: "decodeBudgetExhaustedThreat \<in> set rs"
    using rs by (cases rule: regex_threats_parts) (use assms(3) in \<open>simp add: budget_threats_def\<close>)
  have "th_weight decodeBudgetExhaustedThreat \<le> regexAnomaly rs"
    unfolding regexAnomaly_def by (rule sum_list_ge_member[OF m]) (use regex_threats_nonneg[OF assms(1) rs] in blast)
  then have "1 \<le> regexAnomaly rs" by (simp add: decodeBudgetExhaustedThreat_def)
  then show ?thesis using assms(2) m by (auto simp: Detect_def detect_with_def rs Let_def)
qed


text \<open>A table without patterns and a decoder that never settles: NFKC and the rest leave a content alone, unescaping makes it
  longer.\<close>

definition empty_registry :: registry where
  "empty_registry = \<lparr>globalPatterns = [], weightOverrides = (\<lambda>_. None), rawViewSources = (\<lambda>_. False),
     urlDecodedViewSources = (\<lambda>_. False), reconRawViewPatternSources = (\<lambda>_. False),
     reconOptionalSeparatorPatternSources = (\<lambda>_. False), noisePronePatternSources = (\<lambda>_. False),
     windowedFinders = (\<lambda>_. None), scanWindowMatcherFuncs = (\<lambda>_. None), iterScanWindowMatches = (\<lambda>_. None),
     safeFindAll = (\<lambda>_ _. ([], False)), candidateValidators = (\<lambda>_. None), rg_lower = (\<lambda>s. s)\<rparr>"

definition restless :: detect_env where
  "restless =
     \<lparr>dt_decode = \<lparr>be_isPrint = (\<lambda>_. True), be_gunzip = (\<lambda>_ _. None), de_nfkc = (\<lambda>s. s),
                   de_htmlUnescape = (\<lambda>s. s @ ''!''), de_word = word_rune\<rparr>,
      dt_sem = \<lparr>se_lower = (\<lambda>s. s), se_isPrint = (\<lambda>_. True)\<rparr>, dt_registry = empty_registry\<rparr>"

lemma empty_table_scans:
  "globalPatterns rg = [] \<Longrightarrow> checkRegexPatterns rg t context0 enabled mode = Some \<lparr>sr_threats = [], sr_matched = [], sr_timeouts = []\<rparr>"
  by (simp add: checkRegexPatterns_def Let_def)

lemma empty_table_detects: "globalPatterns (dt_registry env) = [] \<Longrightarrow> \<exists>r. Detect env content context0 = Some r"
  by (simp add: Detect_def detect_with_def regex_threats_def short_threats_def empty_table_scans Let_def split: prod.split)

lemma reps_stuck: "f st = [] \<Longrightarrow> 0 < m \<Longrightarrow> reps greedy f k m st = []"
  by (cases k) simp_all

lemma ms_Seq_stuck: "ms a st = [] \<Longrightarrow> ms (Seq a b) st = []"
  by simp

lemma no_base64_here:
  assumes "rest = [] \<or> \<not> data_rune (hd rest)"
  shows "match_here b64BaseRE pre rest = None"
proof -
  have "ms b64RunUnit (pre, rest, []) = []" using assms by (cases rest) (simp_all add: b64RunUnit_def)
  then have g: "ms (Greedy m None b64RunUnit) (pre, rest, []) = []" if "0 < m" for m
    unfolding ms.simps(4) using that by (rule reps_stuck)
  have "ms b64BaseRE (pre, rest, []) = []"
    unfolding b64BaseRE_def ms_behind_then ms.simps(3)
    by (simp only: ms_Seq_stuck g ms.simps(3) append_Nil zero_less_numeral if_cancel)
  then show ?thesis by (simp add: match_here_def)
qed

lemma no_base64_candidate:
  "\<forall>r \<in> set rest. \<not> data_rune r \<Longrightarrow> find_rx b64BaseRE pre rest = None"
  by (induction rest arbitrary: pre) (simp_all add: find_rx.simps[of _ _ "[]"] find_rx.simps[of _ _ "_ # _"] no_base64_here)


lemma no_base64_change:
  "\<forall>c \<in> set s. byte c < 128 \<and> \<not> data_rune (byte c) \<Longrightarrow> decodeBase64Candidates env s k n = (s, k)"
  by (simp add: decodeBase64Candidates_def ReplaceFunc_def runes_ascii find_all_rx.simps no_base64_candidate)

definition marks :: "nat \<Rightarrow> string" where
  "marks n = replicate n (CHR ''!'')"

lemma marks_all: "c \<in> set (marks n) \<Longrightarrow> c = CHR ''!''"
  by (simp add: marks_def)

lemma marks_next: "marks n @ ''!'' = marks (Suc n)"
  by (simp add: marks_def replicate_append_same)

lemma marks_inert: "inert (marks n)"
proof -
  have "\<not> has_prefix v (CHR ''%'' # w)" if v: "marks n = u @ v" for u v w
  proof
    assume "has_prefix v (CHR ''%'' # w)"
    then have "CHR ''%'' \<in> set v" by (auto simp: has_prefix_iff)
    then have "CHR ''%'' \<in> set (marks n)" by (simp add: v)
    then show False using marks_all by fastforce
  qed
  then show ?thesis by (auto simp: inert_def ascii_def list_all_iff dest: marks_all)
qed

lemma marks_no_percent: "CHR ''%'' \<notin> set (marks n)"
  using marks_all by fastforce

lemma restless_round: "decode_round (dt_decode restless) m (marks n, k) = (marks (Suc n), k)"
proof -
  have "later_stages (dt_decode restless) m (marks n, k) = decodeBase64Candidates (b64_env.truncate (dt_decode restless)) (marks (Suc n)) k m"
    by (rule later_stages_plain[OF _ marks_inert]) (simp_all add: restless_def marks_next)
  also have "\<dots> = (marks (Suc n), k)"
    by (rule no_base64_change) (auto simp: data_rune_def alnum_rune_def dest!: marks_all)
  finally show ?thesis by (simp add: decode_round_def percent_stage_plain marks_no_percent)
qed

lemma marks_differ: "marks n \<noteq> marks (Suc n)"
  by (metis marks_def length_replicate n_not_Suc_n)

lemma restless_loop: "decode_loop (dt_decode restless) m b (marks n, k) = (marks (n + b), True)"
  by (induction b arbitrary: n) (simp_all add: restless_round Let_def marks_differ[symmetric])

lemma restless_exhausts: "pp_budgetExhausted (preprocessWithDecoded (dt_decode restless) default_preprocessor ''!'')"
proof -
  have "normalizeUnicode (dt_decode restless) ''!'' = marks 1"
    using normalizeUnicode_ascii[of "''!''" "dt_decode restless"] by (simp add: ascii_def restless_def marks_def)
  then show ?thesis
    by (simp add: preprocessWithDecoded_def decodeCommonEncodings_def restless_loop Let_def)
qed

theorem verdict_scored_witness:
  "\<exists>r. Detect restless ''!'' ''unknown'' = Some r \<and> dr_ThreatScore r \<le> 1"
proof -
  obtain r where r: "Detect restless ''!'' ''unknown'' = Some r"
    using empty_table_detects[of restless] by (auto simp: restless_def empty_registry_def)
  then show ?thesis using verdict_scored[OF r] by blast
qed

theorem exhausted_budget_is_threat_witness:
  "\<exists>r. Detect restless ''!'' ''unknown'' = Some r \<and> dr_IsThreat r"
proof -
  obtain r where r: "Detect restless ''!'' ''unknown'' = Some r"
    using empty_table_detects[of restless] by (auto simp: restless_def empty_registry_def)
  have "weights_nonneg (dt_registry restless)" by (simp add: weights_nonneg_def restless_def empty_registry_def)
  from exhausted_budget_is_threat[OF this r restless_exhausts] show ?thesis using r by blast
qed

section \<open>Semantic threats need keywords or an obfuscation\<close>

lemma fold_max_le: "m \<le> b \<Longrightarrow> \<forall>x \<in> set xs. x \<le> b \<Longrightarrow> fold max xs m \<le> (b :: real)"
  by (induction xs arbitrary: m) auto

lemma boost_le: "getStructuralPatternBoost a content \<le> 3 / 10"
  by (cases a) (simp_all add: getStructuralPatternBoost_def Let_def)

lemma few_keywords_probability:
  assumes "2 * keyword_hits tokens a < length (attackKeywords a)"
  shows "attack_probability tokens content a \<le> 8 / 10"
proof -
  have "real (keyword_hits tokens a) / real (length (attackKeywords a)) \<le> 1 / 2"
  proof -
    have "2 * real (keyword_hits tokens a) \<le> real (length (attackKeywords a))" "0 < real (length (attackKeywords a))"
      using assms by linarith+
    then show ?thesis by (simp add: divide_le_eq)
  qed
  then show ?thesis using boost_le[of a content] by (simp add: attack_probability_def Let_def)
qed

lemma injection_risk_le: "codeInjectionRisk content \<le> 8 / 10"
  by (simp add: codeInjectionRisk_def Let_def)

text \<open>The semantic analysis condemns no text for its structure alone: without signs of obfuscation and with less than half
  of the keywords of each attack family it reports no threat, whatever tags, calls, chains and encodings the text has; nor
  does it for binary content.\<close>

theorem semantic_threat_needs_keywords:
  assumes "looksLikeBinaryContent env original
    \<or> (let content = rune_text (take 10000 (runes processed)) in
        \<not> detectObfuscation env content
        \<and> (\<forall>a. 2 * keyword_hits (semanticExtractTokens env content) a < length (attackKeywords a)))"
  shows "checkSemanticThreats env processed original = []"
proof (cases "looksLikeBinaryContent env original")
  case False
  define content where "content = rune_text (take 10000 (runes processed))"
  have c: "\<not> detectObfuscation env content"
    "\<forall>a. 2 * keyword_hits (semanticExtractTokens env content) a < length (attackKeywords a)"
    using assms False by (simp_all add: content_def Let_def)
  define al where "al = semanticAnalyze env content"
  have al: "\<not> al_is_obfuscated al" "al_code_injection_risk al \<le> 8 / 10"
    using c(1) injection_risk_le by (simp_all add: al_def semanticAnalyze_def Let_def)
  have m: "fold max (map snd (al_attack_probabilities al)) 0 \<le> 8 / 10"
    by (rule fold_max_le) (use c(2) few_keywords_probability in \<open>auto simp: al_def semanticAnalyze_def Let_def\<close>)
  define layers where "layers = (if al_encoding_layers al > 0 then min (real (al_encoding_layers al) * (1 / 10)) (2 / 10) else 0)"
  define found where "found = (if al_suspicious_patterns al \<noteq> []
    then min (real (length (al_suspicious_patterns al)) * (5 / 100)) (1 / 10) else 0)"
  have "layers \<le> 2 / 10" "found \<le> 1 / 10" by (auto simp: layers_def found_def min_def)
  moreover have "semanticThreatScore al
      = min 1 (fold max (map snd (al_attack_probabilities al)) 0 * (3 / 10) + layers + al_code_injection_risk al * (2 / 10) + found)"
    using al(1) by (simp add: semanticThreatScore_def layers_def found_def Let_def)
  ultimately have "semanticThreatScore al \<le> 7 / 10" using al(2) m by linarith
  then show ?thesis using False
    by (simp add: checkSemanticThreats_def Let_def semanticThreshold_def defaultMaxSemanticLength_def flip: content_def al_def)
qed (simp add: checkSemanticThreats_def)

theorem semantic_threat_needs_keywords_witness:
  "checkSemanticThreats \<lparr>se_lower = (\<lambda>s. s), se_isPrint = (\<lambda>_. True)\<rparr> ''a'' ''a'' = []"
proof -
  let ?env = "\<lparr>se_lower = (\<lambda>s. s), se_isPrint = (\<lambda>_. True)\<rparr>"
  have r: "runes ''a'' = [97]" "rune_text [97] = ''a''" using rune_text_ascii[of "''a''"] by (simp_all add: runes_ascii)
  have m: "\<not> matches_rx re ''a''" if "re \<in> set semanticLayerPatterns" for re
    using that by (auto simp: semanticLayerPatterns_def matches_rx_def r rx_eval Let_def hex_digit_rune_def base64_rune_def
        digit_rune_def entity_rune_def)
  have l: "detectEncodingLayers ''a'' = 0"
    using m by (simp add: detectEncodingLayers_def first_runes_def r)
  have "calculateEntropy ''a'' = 0" by (simp add: calculateEntropy_def r Let_def)
  moreover have "findAllString nonWordCharRE ''a'' = []"
    by (simp add: findAllString_def nonWordCharRE_def r rx_eval special_rune_def)
  moreover have "\<not> matches_rx longRunRE ''a''"
    by (simp add: matches_rx_def longRunRE_def r rx_eval Let_def)
  ultimately have o: "\<not> detectObfuscation ?env ''a''" using l by (simp add: detectObfuscation_def)
  have "collapseSpaces ''a'' = ''a''" by (simp add: collapseSpaces_def r is_space_def)
  moreover have "findAllString wordTokenRE ''a'' = [''a'']"
    by (simp add: findAllString_def wordTokenRE_def r rx_eval Let_def word_rune_def)
  moreover have "findAllString (structureRes s) (scan_content s ''a'') = []" for s
    by (cases s) (simp_all add: findAllString_def structureRes_def scan_content_def tagScanWindow_def r runes_ascii rx_eval Let_def
        folded_word_rune_def word_rune_def folded_letter_def chain_rune_def some_blanks_def blank_rune_def)
  ultimately have t: "semanticExtractTokens ?env ''a'' = [''a'']"
    by (simp add: semanticExtractTokens_def first_runes_def r attackStructureOrder_def Let_def)
  have "2 * keyword_hits [''a''] a < length (attackKeywords a)" for a
    by (cases a) (simp_all add: keyword_hits_def attackKeywords_def)
  then show ?thesis by (intro semantic_threat_needs_keywords) (simp add: r o t Let_def)
qed

section \<open>An empty expression stops the detection\<close>

lemma runes_braces: "runes ''{{}}'' = [123, 123, 125, 125]"
  by (simp add: runes_ascii)

lemma braces_text: "rune_text [123, 123, 125, 125] = ''{{}}''"
  using rune_text_ascii[of "''{{}}''"] by simp

lemma braces_kept:
  assumes "plain_params env"
  shows "pp_processed (preprocessWithDecoded env p ''{{}}'') = truncateSafely p ''{{}}''"
proof -
  have d: "decode_loop env n 16 (''{{}}'', k) = (''{{}}'', False)" for n k
  proof -
    have "\<forall>i < max 1 0. decodeBase64Candidates (b64_env.truncate env) ((pct_layer ^^ i) ''{{}}'') k n = ((pct_layer ^^ i) ''{{}}'', k)"
      using no_base64_change[of "''{{}}''"] by (simp add: data_rune_def alnum_rune_def)
    moreover have "inert ''{{}}''" by (auto simp: inert_def ascii_def has_prefix_def Cons_eq_append_conv append_eq_Cons_conv)
    ultimately show ?thesis using decode_loop_layers[of env "''{{}}''" 0 k n 16] assms by simp
  qed
  have "normalizeUnicode env ''{{}}'' = ''{{}}''"
    using normalizeUnicode_ascii[of "''{{}}''" env] assms by (simp add: plain_params_def ascii_def)
  moreover have "stripSQLComments env ''{{}}'' = ''{{}}''"
  proof -
    have "find_all_rx (sqlCommentRE env) [] [123, 123, 125, 125] = []"
      by (simp add: sqlCommentRE_def find_all_rx.simps find_rx.simps match_here_def is_rune_def)
    then show ?thesis by (simp add: stripSQLComments_def runes_braces braces_text line_comment_at_def has_prefix_def)
  qed
  moreover have "removeExcessiveWhitespace (removeNullAndControlBytes ''{{}}'') = ''{{}}''"
    by (simp add: removeExcessiveWhitespace_def removeNullAndControlBytes_def runes_braces braces_text is_space_def Let_def)
  ultimately show ?thesis
    by (simp add: preprocessWithDecoded_def decodeCommonEncodings_def maxDecodeIterations_def d Let_def)
qed

text \<open>C14: A value \<open>{{}}\<close> makes the detection panic, whatever the table holds beside the curly keyword pattern, which applies to
  every context: the check that scans the request fails instead of answering.\<close>

theorem empty_expression_stops_detection:
  assumes "plain_params (dt_decode env)" "curly_pattern p (dt_registry env)"
  shows "Detect env ''{{}}'' context0 = None"
proof -
  have "truncateSafely default_preprocessor ''{{}}'' = ''{{}}''"
    by (simp add: truncateSafely_def default_preprocessor_def newScanText_def runes_braces Let_def)
  then have "pp_processed (preprocessWithDecoded (dt_decode env) default_preprocessor ''{{}}'') = ''{{}}''"
    using braces_kept[OF assms(1)] by simp
  moreover have "checkRegexPatterns (dt_registry env) (newScanText ''{{}}'') context0 None ViewMain = None"
    by (rule empty_expression_stops[OF assms(2), where pre = "[]" and post = "[]"]) (simp_all add: newScanText_def runes_braces)
  ultimately show ?thesis
    by (simp add: Detect_def detect_with_def regex_threats_def Let_def split: prod.split)
qed


definition curly_entry :: compiledPattern where
  "curly_entry = \<lparr>cp_source = ''curly keyword'', cp_contexts = knownContexts, cp_category = ''template'', cp_prefilter = None\<rparr>"

definition curly_registry :: registry where
  "curly_registry = empty_registry\<lparr>globalPatterns := [curly_entry],
     scanWindowMatcherFuncs := (\<lambda>source. if source = ''curly keyword'' then Some templateCurlyKeywordFinder else None)\<rparr>"

theorem empty_expression_stops_detection_witness:
  "Detect \<lparr>dt_decode = wt_decode, dt_sem = dt_sem restless, dt_registry = curly_registry\<rparr> ''{{}}'' ''query_param'' = None"
proof (rule empty_expression_stops_detection)
  show "plain_params (dt_decode \<lparr>dt_decode = wt_decode, dt_sem = dt_sem restless, dt_registry = curly_registry\<rparr>)"
    by (simp add: plain_params_def wt_decode_def)
  show "curly_pattern curly_entry (dt_registry \<lparr>dt_decode = wt_decode, dt_sem = dt_sem restless, dt_registry = curly_registry\<rparr>)"
    by (simp add: curly_pattern_def curly_registry_def curly_entry_def empty_registry_def list_all_iff)
qed

end
