(* ===== verification/Spec2Isabelle.thy ===== *)
theory Spec2Isabelle
  imports Intervals PickleVM BehaviorRun RedosGrammar DynamicRun PerfMonitor Engine
begin

text \<open>
  A verification library of guard-core-go, the Go port of the request guard of \<open>fastapi-guard\<close>. All sources are
  under \<open>src/guardcore/\<close>; file names below are relative to it.

  \<^bold>\<open>The program.\<close> An engine (\<open>composition.go\<close>) holds a configuration (\<open>config.go\<close>), a route registry
  (\<open>decorators.go\<close>), a ban manager (\<open>ipban.go\<close>), a rate limiter (\<open>ratelimit.go\<close>), a pipeline of security checks
  (\<open>pipeline.go\<close>), a tracker of behavioural rules (\<open>behavior.go\<close>), a manager of cloud address ranges
  (\<open>cloudproviders.go\<close>), a registry of detection patterns (\<open>suspatterns_registry.go\<close>) and a manager of the rules an
  agent delivers (\<open>dynamicrules.go\<close>). A request is first given a client identity (\<open>ipextraction.go\<close>), then scoped by
  the excluded paths (\<open>pathmatch.go\<close>), and then the checks of the pipeline run in order until one answers. Checks ask
  the ban manager, the limiter, the cloud ranges and the request scan (\<open>pipeline.go\<close>, \<open>detectionexclusions.go\<close>);
  violations are counted and turn into bans; responses get security headers and CORS headers
  (\<open>securityheaders.go\<close>, \<open>cors.go\<close>). Dynamic rules rewrite the shared configuration, ban addresses and register
  patterns, and the pipeline rebuilds its checks when a revision changes.

  \<^bold>\<open>Conventions.\<close> A Go struct is a record, a pointer an option, a nil or empty slice the empty list, a map an
  association list where its order is never read, a string the list of its bytes. Handlers thread the state they
  share explicitly. An error is the left side of a sum, a panic is \<open>None\<close> or the error \<open>Panic\<close>. Clock readings
  are arguments of type \<open>real\<close>, and so are the ratios and scores the code keeps in \<open>float64\<close>; an operation that reads the clock once takes one reading. Mutexes, log lines and
  metrics are left out. Code outside the repository is a parameter: the Redis client (an abstract store with its
  operations), the matching of the table's and of custom patterns, NFKC, HTML unescaping, gzip, JSON coding, the DNS of URL hosts, HTTP downloads, the Unicode tables and
  \<open>ToLower\<close> beyond ASCII. What is assumed of a parameter is a named hypothesis of the theorem that uses it.

  \<^bold>\<open>Theories.\<close>
  \<^item> \<open>Prelude\<close>: lists, options, runs of operations, the locale \<open>component\<close> of an operation alphabet with an
    invariant that every operation keeps.
  \<^item> \<open>NetAddr\<close>: the part of \<open>net/netip\<close> the code uses, with its parser and printer, \<open>canonicalip.go\<close>, and
    \<open>ipMatchesList\<close> of \<open>config.go\<close>. Printing and parsing are inverse, and list membership is overlap of prefixes.
  \<^item> \<open>Utf8\<close>, \<open>Runes\<close>: decoding of UTF-8 as the \<open>range\<close> loop of Go does it, encoding of runes, and how the two undo
    each other; \<open>Dicts\<close>: association lists as Go maps.
  \<^item> \<open>PathMatch\<close>: \<open>pathmatch.go\<close>; normal forms of URL paths and what an exclusion covers.
  \<^item> \<open>IPBan\<close>: \<open>ipban.go\<close> with the interface of \<open>redis.go\<close>; a ban in force is reported, the local cache stays
    consistent, no operation panics.
  \<^item> \<open>RateLimit\<close>: \<open>ratelimit.go\<close>, its in-memory window and its Lua script, the tiers and the automatic ban.
  \<^item> \<open>IPExtraction\<close>: \<open>ipextraction.go\<close>; what a client writes into a forwarded chain does not change its identity.
  \<^item> \<open>Detection\<close>: the scan of a request with its budget, exclusions and categories.
  \<^item> \<open>Request\<close>, \<open>ResponseHeaders\<close>: requests, query strings, routes and their registry, security headers, CORS.
  \<^item> \<open>Checks\<close>, \<open>Access\<close>: the seventeen checks, the custom response modifier, events and the block hook.
  \<^item> \<open>Behavior\<close>, \<open>BehaviorRun\<close>: \<open>behavior.go\<close>: usage and return rules, their trackers and actions.
  \<^item> \<open>Pipeline\<close>: the pipeline, its rebuild, the engine and the handshake guard of \<open>websocket.go\<close>.
  \<^item> \<open>Decisions\<close>, \<open>PipelineRun\<close>: what the checks decide and how the pipeline runs, as a step relation equivalent to
    the recursive run; active and passive mode, excluded paths, staleness, banned clients.
  \<^item> \<open>Cloud\<close>: \<open>cloudproviders.go\<close> and the Redis part of \<open>checks_cloud.go\<close>; the locale \<open>cloud_store\<close> states what a
    refresh needs of a cache and is interpreted on the in-memory store.
  \<^item> \<open>SusPatterns\<close>: \<open>suspatterns_registry.go\<close>.
  \<^item> \<open>Regexp2\<close>: regular expressions as a datatype with the backtracking semantics of \<open>regexp2\<close>; the fixed patterns of the
    theories below are its values, so that they run in the kernel.
  \<^item> \<open>Base64\<close>, \<open>Truncation\<close>, \<open>Decoding\<close>: \<open>base64decode.go\<close>, \<open>truncation.go\<close>, \<open>encodings.go\<close> and \<open>preprocessor.go\<close>: the
    decoders, the decode loop and the views of a value. Encodings are undone or flagged, the indicators of an attack
    survive truncation, a truncated view is no longer than its limit.
  \<^item> \<open>Semantic\<close>: \<open>semantic.go\<close>, the keyword and structure analysis and its score.
  \<^item> \<open>Finders\<close>, \<open>Templates\<close>: the linear finders of \<open>matchers.go\<close> compared with the patterns they replace, and \<open>templates.go\<close>
    with the panics of its slices.
  \<^item> \<open>Noise\<close>: \<open>binaryprefix.go\<close> and \<open>binaryislands.go\<close>; prefix sums count windows, islands are maximal runs.
  \<^item> \<open>Registry\<close>, \<open>Engine\<close>: \<open>registry.go\<close> over an arbitrary table, and \<open>detect.go\<close>: which pattern reports what in which
    view, duplicates, verdict and score.
  \<^item> \<open>DynamicRules\<close>, \<open>DynamicRun\<close>: \<open>dynamicrules.go\<close>, and what a rule does to the configuration, the bans and the
    requests from its delivery to its expiry and across a restart.
  \<^item> \<open>PerfMonitor\<close>: \<open>performance_monitor.go\<close>, an instance of \<open>component\<close>: statistics per pattern, anomalies and their
    cooldown, reports.
  \<^item> \<open>PickleVM\<close>: \<open>picklevm.go\<close>, the abstract pickle machine that confirms an injection candidate.
  \<^item> \<open>Intervals\<close>, \<open>RedosParser\<close>, \<open>RedosGrammar\<close>: \<open>redos_intervals.go\<close>, \<open>redos_parser.go\<close> and \<open>redos_escape.go\<close>;
    the sets of code points are exact, the parser answers on every pattern with a well-formed tree, and printed
    constructs are read back.

  \<^bold>\<open>Bounds.\<close> Percent decoding runs at most as often as the code does. The loops of the ReDoS parser carry a step
  bound that \<open>parseRedosPattern\<close> sets from the length of the pattern; \<open>parseRedosPattern_total\<close> shows that it is never
  used up. The pickle machine runs at most the steps of the code's own limit. Other loops recurse on their list or carry
  a measure. Go integers are \<open>int\<close> where the code keeps them far from their limits and words where a revision may
  wrap around.

  The decode loop runs at most sixteen rounds, as the code does. Without an upper bound a repetition of \<open>Regexp2\<close> is
  tried at most once per rune left, which is enough because no repeated part of the patterns matches the empty text.

  \<^bold>\<open>Not modelled.\<close> GeoIP databases (\<open>geoip.go\<close>), the table of patterns (\<open>pattern_table.go\<close>, data) with its candidate
  validators and the finders that call \<open>regexp2\<close> at a candidate position, which are parameters of \<open>Registry\<close>, the time
  limits of the engine beyond a flag, the body and upload scanners, the structural analysis of regular expressions
  that follows the parser, the header cache, the event transports and exporters, start-up and defaults of the
  configuration: they read external data, match regular expressions, or have no part in a verdict. The Redis calls
  behind the interfaces, goroutines and timers are left out; each operation is one step.
\<close>

end
